(* ===== verification/Prelude.thy ===== *)
theory Prelude
  imports Main "HOL-Library.Multiset"
begin

text \<open>
  What the component theories share: JavaScript strings and the string operations the code calls,
  the insertion-ordered JavaScript \<open>Map\<close>, results of code that throws, and generic facts on
  lists.

  A JavaScript string is a sequence of UTF-16 code units; here a list of natural numbers
  (\<open>jstring\<close>), so that \<open>length\<close>, \<open>slice\<close>, \<open>indexOf\<close> and comparisons count what the code counts.
  A literal of the source is \<open>js ''...''\<close>.
\<close>

section \<open>Collections of facts\<close>

named_theorems js_eval \<open>equations that evaluate a string operation on a concrete string\<close>
named_theorems row_simps \<open>reading a table or a map after it was written\<close>

section \<open>Strings\<close>

type_synonym jstring = "nat list"

definition js :: "string \<Rightarrow> jstring" where
  "js s = map of_char s"

lemma js_eq_iff [simp]: "js s = js t \<longleftrightarrow> s = t"
  by (auto simp: js_def inj_map_eq_map [OF inj_of_char] intro: inj_onI)

lemma js_Nil [simp]: "js [] = []"
  by (simp add: js_def)

lemma js_eq_Nil_iff [simp]: "js s = [] \<longleftrightarrow> s = []"
  by (simp add: js_def)

lemma Nil_eq_js_iff [simp]: "[] = js s \<longleftrightarrow> s = []"
  by (auto simp: js_def)

lemma js_Cons: "js (c # s) = of_char c # js s"
  by (simp add: js_def)

lemma length_js [simp]: "length (js s) = length s"
  by (simp add: js_def)

declare js_def [js_eval]

text \<open>The white space of \<open>trim\<close> and of \<open>\s\<close> in a regular expression.\<close>

definition is_space :: "nat \<Rightarrow> bool" where
  "is_space c \<longleftrightarrow> c \<in> {9, 10, 11, 12, 13, 32, 160, 5760, 8192, 8193, 8194, 8195, 8196, 8197,
     8198, 8199, 8200, 8201, 8202, 8232, 8233, 8239, 8287, 12288, 65279}"

definition trim :: "jstring \<Rightarrow> jstring" where
  "trim s = rev (dropWhile is_space (rev (dropWhile is_space s)))"

text \<open>
  \<open>toLowerCase\<close>, code unit by code unit: ASCII, Latin-1, the basic Greek and Cyrillic capitals,
  and the two signs whose lower case falls back into Latin (the Kelvin sign gives \<open>k\<close>). Other code
  units are left as they are. No other character has a lower case that is an ASCII letter alone,
  so a comparison of a lowered string with an ASCII literal is exact.
\<close>

definition lower_unit :: "nat \<Rightarrow> nat" where
  "lower_unit c =
     (if 65 \<le> c \<and> c \<le> 90 then c + 32
      else if 192 \<le> c \<and> c \<le> 222 \<and> c \<noteq> 215 then c + 32
      else if 913 \<le> c \<and> c \<le> 939 \<and> c \<noteq> 930 then c + 32
      else if 1024 \<le> c \<and> c \<le> 1039 then c + 80
      else if 1040 \<le> c \<and> c \<le> 1071 then c + 32
      else if c = 8490 then 107
      else if c = 8491 then 229
      else c)"

definition toLowerCase :: "jstring \<Rightarrow> jstring" where
  "toLowerCase s = map lower_unit s"

lemma length_toLowerCase [simp]: "length (toLowerCase s) = length s"
  by (simp add: toLowerCase_def)

lemma lower_unit_idem [simp]: "lower_unit (lower_unit c) = lower_unit c"
  by (simp add: lower_unit_def)

lemma toLowerCase_idem [simp]: "toLowerCase (toLowerCase s) = toLowerCase s"
  by (simp add: toLowerCase_def)

text \<open>\<open>indexOf\<close> and \<open>lastIndexOf\<close> of one code unit, \<open>None\<close> where JavaScript gives -1.\<close>

fun indexOf :: "nat \<Rightarrow> jstring \<Rightarrow> nat option" where
  "indexOf c [] = None"
| "indexOf c (x # xs) = (if x = c then Some 0 else map_option Suc (indexOf c xs))"

fun lastIndexOf :: "nat \<Rightarrow> jstring \<Rightarrow> nat option" where
  "lastIndexOf c [] = None"
| "lastIndexOf c (x # xs) =
     (case lastIndexOf c xs of
        Some i \<Rightarrow> Some (Suc i)
      | None \<Rightarrow> if x = c then Some 0 else None)"

lemma indexOf_None [simp]: "indexOf c s = None \<longleftrightarrow> c \<notin> set s"
  by (induction s) auto

lemma indexOf_SomeD:
  "indexOf c s = Some i \<Longrightarrow> i < length s \<and> s ! i = c \<and> c \<notin> set (take i s)"
  by (induction s arbitrary: i) (auto split: if_splits)

lemma indexOf_split:
  assumes "indexOf c s = Some i"
  shows "s = take i s @ c # drop (Suc i) s" and "c \<notin> set (take i s)"
  using indexOf_SomeD [OF assms] id_take_nth_drop [of i s] by auto

lemma indexOf_append:
  "c \<notin> set xs \<Longrightarrow> indexOf c (xs @ c # ys) = Some (length xs)"
  by (induction xs) auto

lemma lastIndexOf_None [simp]: "lastIndexOf c s = None \<longleftrightarrow> c \<notin> set s"
  by (induction s) (auto split: option.splits)

lemma lastIndexOf_SomeD:
  "lastIndexOf c s = Some i \<Longrightarrow> i < length s \<and> s ! i = c \<and> c \<notin> set (drop (Suc i) s)"
proof (induction s arbitrary: i)
  case Nil
  then show ?case by simp
next
  case (Cons x s)
  show ?case
  proof (cases "lastIndexOf c s")
    case None
    with Cons.prems show ?thesis by (auto split: if_splits)
  next
    case (Some j)
    with Cons.prems Cons.IH [OF Some] show ?thesis by auto
  qed
qed

lemma lastIndexOf_append:
  "c \<notin> set ys \<Longrightarrow> lastIndexOf c (xs @ c # ys) = Some (length xs)"
proof (induction xs)
  case Nil
  then have "lastIndexOf c ys = None" by simp
  then show ?case by (simp del: lastIndexOf_None)
qed simp

text \<open>\<open>startsWith\<close>, \<open>includes\<close> and \<open>split\<close> at one code unit.\<close>

definition startsWith :: "jstring \<Rightarrow> jstring \<Rightarrow> bool" where
  "startsWith s p \<longleftrightarrow> take (length p) s = p"

lemma startsWith_append [simp]: "startsWith (p @ s) p"
  by (simp add: startsWith_def)

fun includes_text :: "jstring \<Rightarrow> jstring \<Rightarrow> bool" where
  "includes_text [] p \<longleftrightarrow> p = []"
| "includes_text (x # xs) p \<longleftrightarrow> startsWith (x # xs) p \<or> includes_text xs p"

text \<open>
  \<open>split\<close> at every code unit that satisfies \<open>p\<close>: never empty, and with a separator at an end an
  empty part stands there, as in JavaScript.
\<close>

fun split_at :: "(nat \<Rightarrow> bool) \<Rightarrow> jstring \<Rightarrow> jstring list" where
  "split_at p [] = [[]]"
| "split_at p (x # xs) =
     (if p x then [] # split_at p xs
      else (case split_at p xs of [] \<Rightarrow> [[x]] | y # ys \<Rightarrow> (x # y) # ys))"

lemma split_at_not_Nil [simp]: "split_at p s \<noteq> []"
  by (induction s) (auto split: list.splits)

lemma split_at_no_sep: "\<forall>c \<in> set s. \<not> p c \<Longrightarrow> split_at p s = [s]"
  by (induction s) auto

definition join :: "jstring \<Rightarrow> jstring list \<Rightarrow> jstring" where
  "join sep xs = concat (case xs of [] \<Rightarrow> [] | y # ys \<Rightarrow> y # map (\<lambda>z. sep @ z) ys)"

text \<open>\<open><\<close> of two strings, by code units.\<close>

fun js_less :: "jstring \<Rightarrow> jstring \<Rightarrow> bool" where
  "js_less s [] = False"
| "js_less [] (y # ys) = True"
| "js_less (x # xs) (y # ys) = (x < y \<or> x = y \<and> js_less xs ys)"

text \<open>\<open>replaceAll\<close> of one code unit by another.\<close>

definition replace_unit :: "nat \<Rightarrow> nat \<Rightarrow> jstring \<Rightarrow> jstring" where
  "replace_unit a b s = map (\<lambda>c. if c = a then b else c) s"

section \<open>Numbers in strings\<close>

definition is_digit :: "nat \<Rightarrow> bool" where
  "is_digit c \<longleftrightarrow> 48 \<le> c \<and> c \<le> 57"

text \<open>\<open>/^\d+$/\<close>.\<close>

definition all_digits :: "jstring \<Rightarrow> bool" where
  "all_digits s \<longleftrightarrow> s \<noteq> [] \<and> list_all is_digit s"

text \<open>\<open>Number(s)\<close> of a string of digits.\<close>

definition read_nat :: "jstring \<Rightarrow> nat" where
  "read_nat s = foldl (\<lambda>n c. 10 * n + (c - 48)) 0 s"

text \<open>\<open>String(n)\<close> of a whole number.\<close>

fun show_nat :: "nat \<Rightarrow> jstring" where
  "show_nat n = (if n < 10 then [48 + n] else show_nat (n div 10) @ [48 + n mod 10])"

declare show_nat.simps [simp del]

lemma show_nat_digits: "list_all is_digit (show_nat n)"
proof (induction n rule: show_nat.induct)
  case (1 n)
  then show ?case
    by (subst show_nat.simps) (auto simp: is_digit_def [of "48 + _"])
qed

lemma show_nat_not_Nil [simp]: "show_nat n \<noteq> []"
  by (subst show_nat.simps) simp

lemma read_nat_append: "read_nat (s @ [c]) = 10 * read_nat s + (c - 48)"
  by (simp add: read_nat_def)

lemma read_show_nat [simp]: "read_nat (show_nat n) = n"
proof (induction n rule: show_nat.induct)
  case (1 n)
  show ?case
  proof (cases "n < 10")
    case True
    then show ?thesis by (subst show_nat.simps) (simp add: read_nat_def)
  next
    case False
    with 1 show ?thesis
      by (subst show_nat.simps) (simp add: read_nat_append)
  qed
qed

lemma show_nat_inj [simp]: "show_nat m = show_nat n \<longleftrightarrow> m = n"
  using read_show_nat by metis

lemma show_nat_no_sep: "\<not> is_digit c \<Longrightarrow> c \<notin> set (show_nat n)"
  using show_nat_digits [of n] by (auto simp: list_all_iff)

text \<open>\<open>padStart(n, "0")\<close>.\<close>

definition pad_zero :: "nat \<Rightarrow> jstring \<Rightarrow> jstring" where
  "pad_zero n s = replicate (n - length s) 48 @ s"

text \<open>The largest integer a double counts exactly (\<open>Number.MAX_SAFE_INTEGER\<close>).\<close>

definition max_safe :: int where
  "max_safe = 9007199254740991"

section \<open>JSON values\<close>

datatype json =
    JNull
  | JBool bool
  | JNum int
  | JStr jstring
  | JArr "json list"
  | JObj "(jstring \<times> json) list"

section \<open>Insertion-ordered maps\<close>

text \<open>
  A JavaScript \<open>Map\<close>: \<open>set\<close> of a key it has keeps the key's place, \<open>set\<close> of a new key appends
  it, \<open>keys()\<close> gives the oldest first.
\<close>

type_synonym ('k, 'v) jmap = "('k \<times> 'v) list"

fun jset :: "'k \<Rightarrow> 'v \<Rightarrow> ('k, 'v) jmap \<Rightarrow> ('k, 'v) jmap" where
  "jset k v [] = [(k, v)]"
| "jset k v ((k', v') # m) = (if k' = k then (k, v) # m else (k', v') # jset k v m)"

definition jdelete :: "'k \<Rightarrow> ('k, 'v) jmap \<Rightarrow> ('k, 'v) jmap" where
  "jdelete k m = filter (\<lambda>e. fst e \<noteq> k) m"

abbreviation jget :: "('k, 'v) jmap \<Rightarrow> 'k \<Rightarrow> 'v option" where
  "jget m k \<equiv> map_of m k"

definition jwf :: "('k, 'v) jmap \<Rightarrow> bool" where
  "jwf m \<longleftrightarrow> distinct (map fst m)"

lemma jget_jset [row_simps, simp]: "jget (jset k v m) = (jget m)(k \<mapsto> v)"
  by (induction m rule: jset.induct) (auto simp: fun_upd_twist fun_eq_iff)

lemma jget_jdelete [row_simps, simp]: "jget (jdelete k m) = (jget m)(k := None)"
  by (induction m) (auto simp: jdelete_def fun_eq_iff)

lemma keys_jset:
  "map fst (jset k v m) = (if k \<in> fst ` set m then map fst m else map fst m @ [k])"
  by (induction m rule: jset.induct) (auto simp: image_iff)

lemma jwf_Nil [simp]: "jwf []"
  by (simp add: jwf_def)

lemma jwf_jset [simp]: "jwf m \<Longrightarrow> jwf (jset k v m)"
  by (auto simp: jwf_def keys_jset)

lemma jwf_jdelete [simp]: "jwf m \<Longrightarrow> jwf (jdelete k m)"
  by (auto simp: jwf_def jdelete_def distinct_map intro: inj_on_subset)

lemma length_jset:
  "length (jset k v m) = (if k \<in> fst ` set m then length m else Suc (length m))"
  by (induction m rule: jset.induct) auto

lemma length_jdelete_le: "length (jdelete k m) \<le> length m"
  by (simp add: jdelete_def)

lemma jset_fresh: "k \<notin> fst ` set m \<Longrightarrow> jset k v m = m @ [(k, v)]"
  by (induction m rule: jset.induct) auto

lemma set_jset_sub: "set (jset k v m) \<subseteq> insert (k, v) (set m)"
  by (induction m rule: jset.induct) auto

text \<open>Sums over the values of a map.\<close>

lemma sum_jset:
  fixes f :: "'v \<Rightarrow> nat"
  shows "jwf m \<Longrightarrow>
    sum_list (map (f \<circ> snd) (jset k v m)) + (case jget m k of Some w \<Rightarrow> f w | None \<Rightarrow> 0) =
    sum_list (map (f \<circ> snd) m) + f v"
proof (induction k v m rule: jset.induct)
  case (2 k v k' v' m)
  then show ?case by (auto simp: jwf_def split: option.split)
qed simp

lemma jdelete_fresh: "k \<notin> fst ` set m \<Longrightarrow> jdelete k m = m"
  by (force simp: jdelete_def filter_id_conv)

lemma sum_jdelete:
  fixes f :: "'v \<Rightarrow> nat"
  shows "jwf m \<Longrightarrow>
    sum_list (map (f \<circ> snd) (jdelete k m)) + (case jget m k of Some w \<Rightarrow> f w | None \<Rightarrow> 0) =
    sum_list (map (f \<circ> snd) m)"
proof (induction m)
  case (Cons e m)
  then have "fst e \<notin> fst ` set m" "jwf m" by (simp_all add: jwf_def)
  with Cons.IH jdelete_fresh [of "fst e" m] show ?case by (cases e) (auto simp: jdelete_def)
qed (simp add: jdelete_def)

lemma jdelete_notin: "k \<notin> fst ` set (jdelete k m)"
  by (auto simp: jdelete_def)

lemma jwf_tl: "jwf m \<Longrightarrow> jwf (tl m)"
  by (cases m) (auto simp: jwf_def)

lemma jwf_drop: "jwf m \<Longrightarrow> jwf (drop n m)"
  by (auto simp: jwf_def simp flip: drop_map)

lemma jget_Some_iff: "jwf m \<Longrightarrow> jget m k = Some v \<longleftrightarrow> (k, v) \<in> set m"
  by (simp add: jwf_def map_of_eq_Some_iff)

section \<open>Sorting with a comparison\<close>

text \<open>
  \<open>Array.prototype.sort\<close> is stable: with a comparison that is a strict weak order the result is
  that of insertion sort, which puts an element before the first one it is less than.
\<close>

fun insert_by :: "('a \<Rightarrow> 'a \<Rightarrow> bool) \<Rightarrow> 'a \<Rightarrow> 'a list \<Rightarrow> 'a list" where
  "insert_by lt x [] = [x]"
| "insert_by lt x (y # ys) = (if lt y x then y # insert_by lt x ys else x # y # ys)"

definition sort_by :: "('a \<Rightarrow> 'a \<Rightarrow> bool) \<Rightarrow> 'a list \<Rightarrow> 'a list" where
  "sort_by lt xs = foldr (insert_by lt) xs []"

lemma mset_insert_by [simp]: "mset (insert_by lt x ys) = add_mset x (mset ys)"
  by (induction ys) auto

lemma mset_sort_by [simp]: "mset (sort_by lt xs) = mset xs"
  by (induction xs) (auto simp: sort_by_def)

lemma set_sort_by [simp]: "set (sort_by lt xs) = set xs"
  by (metis mset_sort_by set_mset_mset)

lemma length_sort_by [simp]: "length (sort_by lt xs) = length xs"
  by (metis mset_sort_by size_mset)

lemma distinct_sort_by [simp]: "distinct (sort_by lt xs) = distinct xs"
  by (rule mset_eq_imp_distinct_iff) simp

section \<open>List facts\<close>

lemma find_Some_set: "find P xs = Some x \<Longrightarrow> x \<in> set xs \<and> P x"
  by (auto simp: find_Some_iff)

lemma find_cong_on: "(\<And>x. x \<in> set xs \<Longrightarrow> P x = Q x) \<Longrightarrow> find P xs = find Q xs"
  by (induction xs) auto

lemma find_map_same:
  "(\<And>x. x \<in> set xs \<Longrightarrow> P (f x) = P x) \<Longrightarrow> find P (map f xs) = map_option f (find P xs)"
  by (induction xs) auto

lemma find_append:
  "find P (xs @ ys) = (case find P xs of None \<Rightarrow> find P ys | Some x \<Rightarrow> Some x)"
  by (induction xs) auto

lemma filter_map_same:
  "(\<And>x. x \<in> set xs \<Longrightarrow> P (f x) = P x) \<Longrightarrow> filter P (map f xs) = map f (filter P xs)"
  by (induction xs) auto

section \<open>Finding an index\<close>

text \<open>\<open>findIndex\<close>, \<open>None\<close> where JavaScript gives -1.\<close>

fun find_index :: "('a \<Rightarrow> bool) \<Rightarrow> 'a list \<Rightarrow> nat option" where
  "find_index p [] = None"
| "find_index p (x # xs) = (if p x then Some 0 else map_option Suc (find_index p xs))"

lemma find_index_Some: "find_index p xs = Some n \<Longrightarrow> n < length xs \<and> p (xs ! n) \<and> (\<forall>k < n. \<not> p (xs ! k))"
proof (induction xs arbitrary: n)
  case (Cons x xs)
  then show ?case by (auto split: if_splits simp: less_Suc_eq_0_disj)
qed simp

lemma find_index_None: "find_index p xs = None \<longleftrightarrow> (\<forall>x \<in> set xs. \<not> p x)"
  by (induction xs) auto

lemma find_index_cong: "(\<And>x. x \<in> set xs \<Longrightarrow> p x = q x) \<Longrightarrow> find_index p xs = find_index q xs"
  by (induction xs) auto

end
