(* ===== verification/RunTypes.thy ===== *)
theory RunTypes
  imports Prelude
begin

text \<open>
  The public records of the run plane (\<open>packages/core/src/types.ts\<close>), the portable file paths a
  Run may declare (\<open>packages/core/src/files.ts\<close>) and the checks every record passes when it is
  read back from SQLite (\<open>packages/store/src/storage/records.ts\<close>). Times are epoch milliseconds.
  A check of a value's JavaScript type is left to the HOL type of its field; the checks on its
  contents are the definitions below.
\<close>

section \<open>Statuses\<close>

datatype terminal_status = Completed | Failed | Cancelled | TimedOut | Interrupted

datatype run_status =
    Queued
  | Starting
  | Running
  | WaitingPermission
  | Cancelling
  | Finalizing
  | Ended terminal_status

datatype cleanup_status = Confirmed | Unconfirmed | CleanupFailed

datatype session_status = SessionOpen | SessionClosing | SessionClosed

definition isTerminal :: "run_status \<Rightarrow> bool" where
  "isTerminal status \<longleftrightarrow>
     status \<in> set [Ended Completed, Ended Failed, Ended Cancelled, Ended TimedOut, Ended Interrupted]"

lemma isTerminal_iff: "isTerminal st \<longleftrightarrow> (\<exists>t. st = Ended t)"
proof (cases st)
  case (Ended t)
  then show ?thesis by (cases t) (auto simp: isTerminal_def)
qed (auto simp: isTerminal_def)

lemma isTerminal_simps [simp]:
  "isTerminal (Ended t)"
  "\<not> isTerminal Queued" "\<not> isTerminal Starting" "\<not> isTerminal Running"
  "\<not> isTerminal WaitingPermission" "\<not> isTerminal Cancelling" "\<not> isTerminal Finalizing"
  by (auto simp: isTerminal_iff)

fun terminal_text :: "terminal_status \<Rightarrow> jstring" where
  "terminal_text Completed = js ''completed''"
| "terminal_text Failed = js ''failed''"
| "terminal_text Cancelled = js ''cancelled''"
| "terminal_text TimedOut = js ''timed_out''"
| "terminal_text Interrupted = js ''interrupted''"

fun status_text :: "run_status \<Rightarrow> jstring" where
  "status_text Queued = js ''queued''"
| "status_text Starting = js ''starting''"
| "status_text Running = js ''running''"
| "status_text WaitingPermission = js ''waiting_permission''"
| "status_text Cancelling = js ''cancelling''"
| "status_text Finalizing = js ''finalizing''"
| "status_text (Ended t) = terminal_text t"

fun cleanup_text :: "cleanup_status \<Rightarrow> jstring" where
  "cleanup_text Confirmed = js ''confirmed''"
| "cleanup_text Unconfirmed = js ''unconfirmed''"
| "cleanup_text CleanupFailed = js ''failed''"

section \<open>Engines, workspaces and sessions\<close>

datatype driver = FakeDriver | AcpDriver | CliDriver

fun driver_text :: "driver \<Rightarrow> jstring" where
  "driver_text FakeDriver = js ''fake''"
| "driver_text AcpDriver = js ''acp''"
| "driver_text CliDriver = js ''cli''"

datatype input_mode = Stdin | Argv

record cli_options =
  cli_inputMode :: input_mode
  cli_maxOutputBytes :: int

record acp_options =
  acp_resume :: bool  \<comment> \<open>\<open>sessionMode: "resume"\<close>, its only value, is present\<close>
  acp_initializeTimeoutMs :: "int option"

record capabilities =
  cap_resume :: bool
  cap_permissions :: bool
  cap_images :: bool

record engine_profile =
  ep_id :: jstring
  ep_driver :: driver
  ep_revision :: jstring
  ep_enabled :: bool
  ep_command :: "jstring list option"
  ep_model :: "jstring option"
  ep_credentialEnv :: "jstring list option"
  ep_configuration :: "json option"
  ep_cli :: "cli_options option"
  ep_acp :: "acp_options option"
  ep_maxConcurrency :: int
  ep_capabilities :: capabilities

record workspace =
  ws_id :: jstring
  ws_path :: jstring

record session_record =
  s_id :: jstring
  s_engineId :: jstring
  s_profileRevision :: jstring
  s_workspaceId :: jstring
  s_cwd :: jstring
  s_status :: session_status
  s_configSnapshot :: "json option"
  s_backendSessionId :: "jstring option"
  s_createdAt :: int
  s_updatedAt :: int

section \<open>Runs, events, permissions and artifacts\<close>

datatype scenario = Echo | Wait | Permission | Fail | Crash | Artifact

record fake_options =
  fo_scenario :: scenario
  fo_delayMs :: "int option"
  fo_chunks :: "int option"

record file_output =
  out_path :: jstring
  out_name :: jstring
  out_mediaType :: "jstring option"

record run_input =
  in_text :: jstring
  in_timeoutMs :: int
  in_model :: "jstring option"
  in_fixture :: "fake_options option"
  in_outputs :: "file_output list option"

record public_error =
  pe_code :: jstring
  pe_message :: jstring

record run_record =
  r_id :: jstring
  r_sessionId :: jstring
  r_generation :: int
  r_status :: run_status
  r_input :: run_input
  r_configSnapshot :: "json option"
  r_createdAt :: int
  r_deadlineAt :: int
  r_startedAt :: "int option"
  r_finishedAt :: "int option"
  r_stopReason :: "jstring option"
  r_cleanupStatus :: cleanup_status
  r_output :: "jstring option"
  r_error :: "public_error option"
  r_lastSeq :: int

record agent_event =
  e_eventId :: jstring
  e_sessionId :: jstring
  e_runId :: jstring
  e_seq :: int
  e_occurredAt :: int
  e_observedAt :: int
  e_type :: jstring
  e_data :: "(jstring \<times> json) list"

record event_draft =
  d_type :: jstring
  d_data :: "(jstring \<times> json) list"
  d_occurredAt :: "int option"
  d_sourceSeq :: "int option"

datatype option_kind = AllowOnce | RejectOnce

record permission_option =
  po_id :: jstring
  po_label :: jstring
  po_kind :: option_kind

datatype permission_status = Pending | Decided | Applied | Expired

record permission_record =
  p_id :: jstring
  p_sessionId :: jstring
  p_runId :: jstring
  p_generation :: int
  p_toolCallId :: jstring
  p_prompt :: jstring
  p_options :: "permission_option list"
  p_status :: permission_status
  p_decision :: "jstring option"
  p_createdAt :: int
  p_expiresAt :: int

record artifact_record =
  a_id :: jstring
  a_runId :: jstring
  a_name :: jstring
  a_mediaType :: jstring
  a_size :: int
  a_sha256 :: jstring
  a_path :: jstring
  a_createdAt :: int

record finish_input =
  f_status :: terminal_status
  f_stopReason :: jstring
  f_cleanupStatus :: cleanup_status
  f_output :: "jstring option"
  f_error :: "public_error option"

section \<open>Portable relative file paths\<close>

text \<open>The \<open>i\<close> flag of a regular expression over ASCII letters.\<close>

definition fold_ascii :: "jstring \<Rightarrow> jstring" where
  "fold_ascii s = map (\<lambda>c. if 65 \<le> c \<and> c \<le> 90 then c + 32 else c) s"

definition device_names :: "jstring list" where
  "device_names =
     map js [''con'', ''prn'', ''aux'', ''nul'', ''conin$'', ''conout$''] @
     concat (map (\<lambda>p. map (\<lambda>d. js p @ [d])
       [49, 50, 51, 52, 53, 54, 55, 56, 57, 185, 178, 179]) [''com'', ''lpt''])"

text \<open>
  The parts of a path: not empty, at most 255 units, no \<open>.\<close> or \<open>..\<close>, no trailing dot or space,
  no Windows device name before the first dot.
\<close>

definition path_part_ok :: "jstring \<Rightarrow> bool" where
  "path_part_ok part \<longleftrightarrow>
     length part > 0 \<and> length part \<le> 255 \<and> part \<noteq> js ''.'' \<and> part \<noteq> js ''..'' \<and>
     \<not> (last part = 46 \<or> last part = 32) \<and>
     fold_ascii (takeWhile (\<lambda>c. c \<noteq> 46) part) \<notin> set device_names"

definition isRelativeFilePath :: "jstring \<Rightarrow> bool" where
  "isRelativeFilePath value \<longleftrightarrow>
     length value > 0 \<and> length value \<le> 1024 \<and>
     \<not> list_ex (\<lambda>c. c \<in> {92, 58, 60, 62, 34, 124, 63, 42} \<or> c \<le> 31) value \<and>
     list_all path_part_ok (split_at (\<lambda>c. c = 47) value)"

section \<open>Checks of persisted records\<close>

definition nonempty_id :: "jstring \<Rightarrow> bool" where
  "nonempty_id v \<longleftrightarrow> length v > 0"

definition integer_ok :: "int \<Rightarrow> bool" where
  "integer_ok v \<longleftrightarrow> v \<le> max_safe \<and> v \<ge> 0"

definition optional_ok :: "('a \<Rightarrow> bool) \<Rightarrow> 'a option \<Rightarrow> bool" where
  "optional_ok check v = (case v of None \<Rightarrow> True | Some x \<Rightarrow> check x)"

definition run_input_ok :: "run_input \<Rightarrow> bool" where
  "run_input_ok i \<longleftrightarrow>
     integer_ok (in_timeoutMs i) \<and> \<not> in_timeoutMs i < 1 \<and>
     optional_ok (\<lambda>outs. length outs > 0 \<and> length outs \<le> 32 \<and>
       list_all (\<lambda>out. isRelativeFilePath (out_path out) \<and> nonempty_id (out_name out) \<and>
         optional_ok nonempty_id (out_mediaType out)) outs) (in_outputs i) \<and>
     (case in_fixture i of
        None \<Rightarrow> True
      | Some fx \<Rightarrow> optional_ok integer_ok (fo_delayMs fx) \<and> optional_ok integer_ok (fo_chunks fx))"

definition session_record_ok :: "session_record \<Rightarrow> bool" where
  "session_record_ok v \<longleftrightarrow>
     nonempty_id (s_id v) \<and> nonempty_id (s_engineId v) \<and> nonempty_id (s_profileRevision v) \<and>
     nonempty_id (s_workspaceId v) \<and> nonempty_id (s_cwd v) \<and>
     integer_ok (s_createdAt v) \<and> integer_ok (s_updatedAt v) \<and>
     optional_ok nonempty_id (s_backendSessionId v)"

definition run_record_ok :: "run_record \<Rightarrow> bool" where
  "run_record_ok v \<longleftrightarrow>
     nonempty_id (r_id v) \<and> nonempty_id (r_sessionId v) \<and>
     integer_ok (r_generation v) \<and> r_generation v > 0 \<and>
     run_input_ok (r_input v) \<and>
     integer_ok (r_createdAt v) \<and> integer_ok (r_deadlineAt v) \<and> integer_ok (r_lastSeq v) \<and>
     optional_ok integer_ok (r_startedAt v) \<and> optional_ok integer_ok (r_finishedAt v)"

definition event_record_ok :: "agent_event \<Rightarrow> bool" where
  "event_record_ok v \<longleftrightarrow>
     nonempty_id (e_eventId v) \<and> nonempty_id (e_sessionId v) \<and> nonempty_id (e_runId v) \<and>
     integer_ok (e_seq v) \<and> e_seq v > 0 \<and>
     integer_ok (e_occurredAt v) \<and> integer_ok (e_observedAt v) \<and> nonempty_id (e_type v)"

definition permission_record_ok :: "permission_record \<Rightarrow> bool" where
  "permission_record_ok v \<longleftrightarrow>
     nonempty_id (p_id v) \<and> nonempty_id (p_sessionId v) \<and> nonempty_id (p_runId v) \<and>
     integer_ok (p_generation v) \<and> p_generation v > 0 \<and> nonempty_id (p_toolCallId v) \<and>
     length (p_options v) > 0 \<and> list_all (\<lambda>opt. nonempty_id (po_id opt)) (p_options v) \<and>
     integer_ok (p_createdAt v) \<and> integer_ok (p_expiresAt v)"

definition hex_digit :: "nat \<Rightarrow> bool" where
  "hex_digit c \<longleftrightarrow> is_digit c \<or> 65 \<le> c \<and> c \<le> 70 \<or> 97 \<le> c \<and> c \<le> 102"

definition artifact_record_ok :: "artifact_record \<Rightarrow> bool" where
  "artifact_record_ok v \<longleftrightarrow>
     nonempty_id (a_id v) \<and> nonempty_id (a_runId v) \<and> nonempty_id (a_name v) \<and>
     nonempty_id (a_mediaType v) \<and> integer_ok (a_size v) \<and>
     length (a_sha256 v) = 64 \<and> list_all hex_digit (a_sha256 v) \<and>
     nonempty_id (a_path v) \<and> integer_ok (a_createdAt v)"

end
