(* ===== verification/RunStore.thy ===== *)
theory RunStore
  imports RunTypes
begin

text \<open>
  The durable store of sessions, Runs, events, permissions and artifacts
  (\<open>packages/store/src/storage/sqlite-store.ts\<close>). A SQLite table is the list of its rows in rowid
  order; the constraints of the schema (\<open>migrations.ts\<close>, version 1) are checked on insertion. Every
  public operation is one synchronous transaction: a function of the store that returns an error or
  a result with the new store, and \<open>transaction\<close> undoes the writes of a failed one.

  Arguments that stand for what the code reads from outside: \<open>now\<close>, the reading of \<open>Date.now()\<close>
  during the call; \<open>uuid\<close>, the identifier \<open>randomUUID()\<close> returns; \<open>digest\<close>, SHA-256 in hex of the
  \<open>JSON.stringify\<close> text of a value.
\<close>

section \<open>Tables\<close>

record session_row =
  sr_id :: jstring
  sr_created :: int
  sr_record :: session_record

record run_row =
  rr_id :: jstring
  rr_session :: jstring
  rr_generation :: int
  rr_key :: "jstring option"
  rr_hash :: jstring
  rr_created :: int
  rr_record :: run_record

record event_row =
  er_run :: jstring
  er_seq :: int
  er_event_id :: jstring
  er_source_seq :: "int option"
  er_type :: jstring
  er_terminal :: bool
  er_record :: agent_event

record permission_row =
  pr_id :: jstring
  pr_run :: jstring
  pr_record :: permission_record

record artifact_row =
  ar_id :: jstring
  ar_run :: jstring
  ar_record :: artifact_record

record store =
  sessions :: "session_row list"
  runs :: "run_row list"
  events :: "event_row list"
  permissions :: "permission_row list"
  artifacts :: "artifact_row list"

definition empty_store :: store where
  "empty_store = \<lparr>sessions = [], runs = [], events = [], permissions = [], artifacts = []\<rparr>"

section \<open>Errors and transactions\<close>

datatype hub_code =
    SESSION_NOT_FOUND
  | SESSION_STATE_CONFLICT
  | BACKEND_SESSION_INVALID
  | BACKEND_SESSION_CHANGED
  | INVALID_IDEMPOTENCY_KEY
  | IDEMPOTENCY_CONFLICT
  | SESSION_CLOSED
  | STORAGE_CORRUPT
  | RUN_NOT_FOUND
  | RUN_STATE_CONFLICT
  | RESERVED_EVENT_TYPE
  | INVALID_SOURCE_SEQUENCE
  | INVALID_EVENT_CURSOR
  | INVALID_EVENT_LIMIT
  | PERMISSION_OWNERSHIP_CONFLICT
  | INVALID_PERMISSION
  | PERMISSION_EXPIRED
  | PERMISSION_CONFLICT
  | PERMISSION_NOT_FOUND
  | INVALID_PERMISSION_OPTION
  | PERMISSION_DECISION_CONFLICT
  | PERMISSION_STATE_CONFLICT
  | ARTIFACT_CONFLICT
  | ARTIFACT_NOT_FOUND

text \<open>A \<open>HubError\<close> with its HTTP status, or a constraint of the schema that SQLite refused.\<close>

datatype store_error = HubError hub_code nat | SqliteConstraint

type_synonym 'a result = "store_error + 'a"
type_synonym 'a operation = "store \<Rightarrow> 'a result \<times> store"

definition transaction :: "'a operation \<Rightarrow> 'a operation" where
  "transaction operation s =
     (case operation s of
        (Inr r, s') \<Rightarrow> (Inr r, s')
      | (Inl e, s') \<Rightarrow> (Inl e, s))"

text \<open>Sequencing: the rest runs unless the first step threw.\<close>

definition and_then :: "'a operation \<Rightarrow> ('a \<Rightarrow> 'b operation) \<Rightarrow> 'b operation" where
  "and_then f g s = (case f s of (Inl e, s') \<Rightarrow> (Inl e, s') | (Inr a, s') \<Rightarrow> g a s')"

definition throw :: "hub_code \<Rightarrow> nat \<Rightarrow> 'a operation" where
  "throw code status s = (Inl (HubError code status), s)"

definition give :: "'a \<Rightarrow> 'a operation" where
  "give a s = (Inr a, s)"

text \<open>A read, which may throw but writes nothing.\<close>

definition reading :: "(store \<Rightarrow> 'a result) \<Rightarrow> 'a operation" where
  "reading f s = (f s, s)"

section \<open>Reading rows\<close>

definition readSession :: "session_record \<Rightarrow> session_record result" where
  "readSession v =
     (if session_record_ok v
      then Inr (v\<lparr>s_configSnapshot := Some (case s_configSnapshot v of
             Some c \<Rightarrow> c | None \<Rightarrow> JObj [(js ''status'', JStr (js ''unknown''))])\<rparr>)
      else Inl (HubError STORAGE_CORRUPT 500))"

definition readRun :: "run_record \<Rightarrow> run_record result" where
  "readRun v =
     (if run_record_ok v
      then Inr (v\<lparr>r_configSnapshot := Some (case r_configSnapshot v of
             Some c \<Rightarrow> c | None \<Rightarrow> JObj [(js ''status'', JStr (js ''unknown''))])\<rparr>)
      else Inl (HubError STORAGE_CORRUPT 500))"

definition decodePermission :: "permission_record \<Rightarrow> permission_record result" where
  "decodePermission v =
     (if permission_record_ok v then Inr v else Inl (HubError STORAGE_CORRUPT 500))"

definition decodeArtifact :: "artifact_record \<Rightarrow> artifact_record result" where
  "decodeArtifact v =
     (if artifact_record_ok v then Inr v else Inl (HubError STORAGE_CORRUPT 500))"

definition decodeEvent :: "agent_event \<Rightarrow> agent_event result" where
  "decodeEvent v = (if event_record_ok v then Inr v else Inl (HubError STORAGE_CORRUPT 500))"

text \<open>\<open>rows.map(read)\<close>: the first row that does not decode throws.\<close>

fun map_result :: "('a \<Rightarrow> 'b result) \<Rightarrow> 'a list \<Rightarrow> 'b list result" where
  "map_result f [] = Inr []"
| "map_result f (x # xs) =
     (case f x of
        Inl e \<Rightarrow> Inl e
      | Inr y \<Rightarrow> (case map_result f xs of Inl e \<Rightarrow> Inl e | Inr ys \<Rightarrow> Inr (y # ys)))"

definition getSession :: "jstring \<Rightarrow> store \<Rightarrow> session_record result" where
  "getSession i s =
     (case find (\<lambda>r. sr_id r = i) (sessions s) of
        None \<Rightarrow> Inl (HubError SESSION_NOT_FOUND 404)
      | Some row \<Rightarrow> readSession (sr_record row))"

definition listSessions :: "store \<Rightarrow> session_record list result" where
  "listSessions s = map_result (\<lambda>r. readSession (sr_record r)) (sort_key sr_created (sessions s))"

definition getRun :: "jstring \<Rightarrow> store \<Rightarrow> run_record result" where
  "getRun i s =
     (case find (\<lambda>r. rr_id r = i) (runs s) of
        None \<Rightarrow> Inl (HubError RUN_NOT_FOUND 404)
      | Some row \<Rightarrow> readRun (rr_record row))"

definition findRunByKey :: "jstring \<Rightarrow> jstring \<Rightarrow> store \<Rightarrow> run_record option result" where
  "findRunByKey sid key s =
     (case find (\<lambda>r. rr_session r = sid \<and> rr_key r = Some key) (runs s) of
        None \<Rightarrow> Inr None
      | Some row \<Rightarrow> (case readRun (rr_record row) of Inl e \<Rightarrow> Inl e | Inr r \<Rightarrow> Inr (Some r)))"

definition listRuns :: "jstring option \<Rightarrow> store \<Rightarrow> run_record list result" where
  "listRuns session s =
     (case session of
        Some sid \<Rightarrow>
          (case getSession sid s of
             Inl e \<Rightarrow> Inl e
           | Inr _ \<Rightarrow> map_result (\<lambda>r. readRun (rr_record r))
               (sort_key rr_generation (filter (\<lambda>r. rr_session r = sid) (runs s))))
      | None \<Rightarrow> map_result (\<lambda>r. readRun (rr_record r)) (sort_key rr_created (runs s)))"

definition getPermission :: "jstring \<Rightarrow> store \<Rightarrow> permission_record result" where
  "getPermission i s =
     (case find (\<lambda>r. pr_id r = i) (permissions s) of
        None \<Rightarrow> Inl (HubError PERMISSION_NOT_FOUND 404)
      | Some row \<Rightarrow> decodePermission (pr_record row))"

definition listPermissions :: "jstring \<Rightarrow> store \<Rightarrow> permission_record list result" where
  "listPermissions runId s =
     (case getRun runId s of
        Inl e \<Rightarrow> Inl e
      | Inr _ \<Rightarrow> map_result (\<lambda>r. decodePermission (pr_record r))
          (filter (\<lambda>r. pr_run r = runId) (permissions s)))"

definition getArtifact :: "jstring \<Rightarrow> store \<Rightarrow> artifact_record result" where
  "getArtifact i s =
     (case find (\<lambda>r. ar_id r = i) (artifacts s) of
        None \<Rightarrow> Inl (HubError ARTIFACT_NOT_FOUND 404)
      | Some row \<Rightarrow> decodeArtifact (ar_record row))"

definition listArtifacts :: "jstring \<Rightarrow> store \<Rightarrow> artifact_record list result" where
  "listArtifacts runId s =
     (case getRun runId s of
        Inl e \<Rightarrow> Inl e
      | Inr _ \<Rightarrow> map_result (\<lambda>r. decodeArtifact (ar_record r))
          (filter (\<lambda>r. ar_run r = runId) (artifacts s)))"

text \<open>The replay of committed events: after a cursor, in order, at most 1000.\<close>

definition events_after :: "jstring \<Rightarrow> int \<Rightarrow> int \<Rightarrow> store \<Rightarrow> agent_event list result" where
  "events_after runId afterSeq limit s =
     (case getRun runId s of
        Inl e \<Rightarrow> Inl e
      | Inr _ \<Rightarrow>
          if \<bar>afterSeq\<bar> > max_safe \<or> afterSeq < 0 then Inl (HubError INVALID_EVENT_CURSOR 400)
          else if \<bar>limit\<bar> > max_safe \<or> limit < 1 then Inl (HubError INVALID_EVENT_LIMIT 400)
          else map_result (\<lambda>r. decodeEvent (er_record r))
            (take (nat (min limit 1000))
              (sort_key er_seq (filter (\<lambda>r. er_run r = runId \<and> er_seq r > afterSeq) (events s)))))"

section \<open>Writing rows\<close>

definition saveSession :: "session_record \<Rightarrow> store \<Rightarrow> store" where
  "saveSession v s = s\<lparr>sessions :=
     map (\<lambda>r. if sr_id r = s_id v then r\<lparr>sr_record := v\<rparr> else r) (sessions s)\<rparr>"

definition saveRun :: "run_record \<Rightarrow> store \<Rightarrow> store" where
  "saveRun run s = s\<lparr>runs :=
     map (\<lambda>r. if rr_id r = r_id run then r\<lparr>rr_record := run\<rparr> else r) (runs s)\<rparr>"

definition savePermission :: "permission_record \<Rightarrow> store \<Rightarrow> store" where
  "savePermission v s = s\<lparr>permissions :=
     map (\<lambda>r. if pr_id r = p_id v then r\<lparr>pr_record := v\<rparr> else r) (permissions s)\<rparr>"

fun terminalEvent :: "terminal_status \<Rightarrow> jstring" where
  "terminalEvent Completed = js ''RUN_COMPLETED''"
| "terminalEvent Failed = js ''RUN_FAILED''"
| "terminalEvent Cancelled = js ''RUN_CANCELLED''"
| "terminalEvent TimedOut = js ''RUN_TIMED_OUT''"
| "terminalEvent Interrupted = js ''RUN_INTERRUPTED''"

definition reservedEvents :: "jstring list" where
  "reservedEvents =
     map terminalEvent [Completed, Failed, Cancelled, TimedOut, Interrupted] @
     map js [''RUN_QUEUED'', ''RUN_STATUS'', ''PERMISSION_REQUESTED'', ''PERMISSION_DECIDED'',
       ''PERMISSION_APPLIED'', ''PERMISSION_EXPIRED'', ''ARTIFACT_CREATED'']"

definition eventId :: "jstring \<Rightarrow> int \<Rightarrow> jstring" where
  "eventId run seq = run @ 58 # show_nat (nat seq)"

text \<open>
  The constraints of the table \<open>events\<close>: the run exists, \<open>seq > 0\<close>, the primary key, the unique
  event id, the unique source sequence of a run (where given) and one terminal event of a run.
\<close>

definition event_conflict :: "event_row \<Rightarrow> store \<Rightarrow> bool" where
  "event_conflict row s \<longleftrightarrow>
     \<not> list_ex (\<lambda>r. rr_id r = er_run row) (runs s) \<or>
     \<not> er_seq row > 0 \<or>
     list_ex (\<lambda>e. er_run e = er_run row \<and> er_seq e = er_seq row) (events s) \<or>
     list_ex (\<lambda>e. er_event_id e = er_event_id row) (events s) \<or>
     er_source_seq row \<noteq> None \<and>
       list_ex (\<lambda>e. er_run e = er_run row \<and> er_source_seq e = er_source_seq row) (events s) \<or>
     er_terminal row \<and> list_ex (\<lambda>e. er_run e = er_run row \<and> er_terminal e) (events s)"

definition draft_event :: "int \<Rightarrow> run_record \<Rightarrow> event_draft \<Rightarrow> agent_event" where
  "draft_event now run draft =
     \<lparr>e_eventId = eventId (r_id run) (r_lastSeq run + 1), e_sessionId = r_sessionId run,
      e_runId = r_id run, e_seq = r_lastSeq run + 1,
      e_occurredAt = (case d_occurredAt draft of Some t \<Rightarrow> t | None \<Rightarrow> now),
      e_observedAt = now, e_type = d_type draft, e_data = d_data draft\<rparr>"

definition draft_row :: "int \<Rightarrow> run_record \<Rightarrow> event_draft \<Rightarrow> bool \<Rightarrow> event_row" where
  "draft_row now run draft terminal =
     (let event = draft_event now run draft
      in \<lparr>er_run = r_id run, er_seq = e_seq event, er_event_id = e_eventId event,
          er_source_seq = d_sourceSeq draft, er_type = e_type event, er_terminal = terminal,
          er_record = event\<rparr>)"

definition insertEvent :: "int \<Rightarrow> run_record \<Rightarrow> event_draft \<Rightarrow> bool \<Rightarrow> agent_event operation" where
  "insertEvent now run draft terminal s =
     (let event = draft_event now run draft; row = draft_row now run draft terminal
      in if event_conflict row s then (Inl SqliteConstraint, s)
         else (Inr event,
           saveRun (run\<lparr>r_lastSeq := e_seq event\<rparr>) (s\<lparr>events := events s @ [row]\<rparr>)))"

abbreviation simple_draft :: "string \<Rightarrow> (jstring \<times> json) list \<Rightarrow> event_draft" where
  "simple_draft typ data \<equiv>
     \<lparr>d_type = js typ, d_data = data, d_occurredAt = None, d_sourceSeq = None\<rparr>"

section \<open>Sessions\<close>

definition optional_field :: "string \<Rightarrow> ('a \<Rightarrow> json) \<Rightarrow> 'a option \<Rightarrow> (jstring \<times> json) list" where
  "optional_field name f v = (case v of None \<Rightarrow> [] | Some x \<Rightarrow> [(js name, f x)])"

definition configSnapshot ::
    "(json \<Rightarrow> jstring) \<Rightarrow> engine_profile \<Rightarrow> (jstring \<times> json) list" where
  "configSnapshot digest engine =
     [(js ''engineId'', JStr (ep_id engine)),
      (js ''driver'', JStr (driver_text (ep_driver engine))),
      (js ''profileRevision'', JStr (ep_revision engine))] @
     optional_field ''model'' JStr (ep_model engine) @
     [(js ''credentialEnv'', JArr (map JStr (case ep_credentialEnv engine of
         None \<Rightarrow> [] | Some names \<Rightarrow> names))),
      (js ''maxConcurrency'', JNum (ep_maxConcurrency engine))] @
     optional_field ''cli'' (\<lambda>c. JObj
       [(js ''inputMode'', JStr (case cli_inputMode c of
           Stdin \<Rightarrow> js ''stdin'' | Argv \<Rightarrow> js ''argv'')),
        (js ''maxOutputBytes'', JNum (cli_maxOutputBytes c))]) (ep_cli engine) @
     optional_field ''acp'' (\<lambda>a. JObj
       ((if acp_resume a then [(js ''sessionMode'', JStr (js ''resume''))] else []) @
        optional_field ''initializeTimeoutMs'' JNum (acp_initializeTimeoutMs a))) (ep_acp engine) @
     [(js ''capabilities'', JObj
        [(js ''resume'', JBool (cap_resume (ep_capabilities engine))),
         (js ''permissions'', JBool (cap_permissions (ep_capabilities engine))),
         (js ''images'', JBool (cap_images (ep_capabilities engine)))]),
      (js ''commandHash'', case ep_command engine of
         None \<Rightarrow> JNull | Some command \<Rightarrow> JStr (digest (JArr (map JStr command))))]"

definition createSession ::
    "(json \<Rightarrow> jstring) \<Rightarrow> jstring \<Rightarrow> int \<Rightarrow> engine_profile \<Rightarrow> workspace \<Rightarrow>
     json option \<Rightarrow> session_record operation" where
  "createSession digest uuid now engine ws routing s =
     (let session =
        \<lparr>s_id = uuid, s_engineId = ep_id engine, s_profileRevision = ep_revision engine,
         s_workspaceId = ws_id ws, s_cwd = ws_path ws, s_status = SessionOpen,
         s_configSnapshot = Some (JObj (configSnapshot digest engine @
           optional_field ''routing'' id routing)),
         s_backendSessionId = None, s_createdAt = now, s_updatedAt = now\<rparr>
      in if list_ex (\<lambda>r. sr_id r = uuid) (sessions s) then (Inl SqliteConstraint, s)
         else (Inr session, s\<lparr>sessions := sessions s @
           [\<lparr>sr_id = uuid, sr_created = now, sr_record = session\<rparr>]\<rparr>))"

definition setSessionStatus ::
    "int \<Rightarrow> jstring \<Rightarrow> session_status \<Rightarrow> session_record operation" where
  "setSessionStatus now i status = transaction
     (and_then (reading (getSession i)) (\<lambda>session.
        if s_status session = status then give session
        else if s_status session = SessionClosed \<or>
            s_status session = SessionClosing \<and> status = SessionOpen
        then throw SESSION_STATE_CONFLICT 409
        else (let updated = session\<lparr>s_status := status, s_updatedAt := now\<rparr>
              in (\<lambda>s. (Inr updated, saveSession updated s)))))"

definition source_seen :: "jstring \<Rightarrow> int option \<Rightarrow> store \<Rightarrow> bool" where
  "source_seen runId seq s \<longleftrightarrow>
     seq \<noteq> None \<and> list_ex (\<lambda>e. er_run e = runId \<and> er_source_seq e = seq) (events s)"

definition bindBackendSession ::
    "int \<Rightarrow> jstring \<Rightarrow> jstring \<Rightarrow> event_draft \<Rightarrow> agent_event option operation" where
  "bindBackendSession now runId backendSessionId event = transaction
     (and_then (reading (getRun runId)) (\<lambda>run.
        if isTerminal (r_status run) then give None
        else if d_type event \<noteq> js ''engine.session'' \<or>
            map_of (d_data event) (js ''backendSessionId'') \<noteq> Some (JStr backendSessionId) \<or>
            backendSessionId = []
        then throw BACKEND_SESSION_INVALID 409
        else and_then (reading (getSession (r_sessionId run))) (\<lambda>session.
          if s_backendSessionId session \<noteq> None \<and>
             s_backendSessionId session \<noteq> Some backendSessionId
          then throw BACKEND_SESSION_CHANGED 409
          else (\<lambda>s.
            if source_seen runId (d_sourceSeq event) s then (Inr None, s)
            else and_then (insertEvent now run event False) (\<lambda>e. give (Some e))
              (saveSession (session\<lparr>s_backendSessionId := Some backendSessionId,
                 s_updatedAt := now\<rparr>) s)))))"

section \<open>Accepting a Run\<close>

text \<open>
  What the idempotency check compares: the text, the deadline, the declared outputs and the
  demo fixture. The selected model is not among them.
\<close>

fun scenario_text :: "scenario \<Rightarrow> jstring" where
  "scenario_text Echo = js ''echo''"
| "scenario_text Wait = js ''wait''"
| "scenario_text Permission = js ''permission''"
| "scenario_text Fail = js ''fail''"
| "scenario_text Crash = js ''crash''"
| "scenario_text Artifact = js ''artifact''"

definition input_json :: "run_input \<Rightarrow> json" where
  "input_json input = JObj
     ([(js ''text'', JStr (in_text input)), (js ''timeoutMs'', JNum (in_timeoutMs input))] @
      optional_field ''outputs'' (\<lambda>outs. JArr (map (\<lambda>out. JObj
        ([(js ''path'', JStr (out_path out)), (js ''name'', JStr (out_name out))] @
         (case out_mediaType out of
            None \<Rightarrow> [] | Some m \<Rightarrow> if m = [] then [] else [(js ''mediaType'', JStr m)]))) outs))
        (in_outputs input) @
      optional_field ''fixture'' (\<lambda>fx. JObj
        ([(js ''scenario'', JStr (scenario_text (fo_scenario fx)))] @
         optional_field ''delayMs'' JNum (fo_delayMs fx) @
         optional_field ''chunks'' JNum (fo_chunks fx))) (in_fixture input))"

definition inputHash :: "(json \<Rightarrow> jstring) \<Rightarrow> run_input \<Rightarrow> jstring" where
  "inputHash digest input = digest (input_json input)"

record accepted =
  acc_run :: run_record
  acc_created :: bool

text \<open>\<open>COALESCE(MAX(generation), 0) + 1\<close>.\<close>

definition next_generation :: "jstring \<Rightarrow> store \<Rightarrow> int" where
  "next_generation sid s =
     foldr max (map rr_generation (filter (\<lambda>r. rr_session r = sid) (runs s))) 0 + 1"

definition json_fields :: "json option \<Rightarrow> (jstring \<times> json) list" where
  "json_fields v = (case v of Some (JObj data) \<Rightarrow> data | _ \<Rightarrow> [])"

text \<open>The constraints of the table \<open>runs\<close>.\<close>

definition run_conflict :: "run_row \<Rightarrow> store \<Rightarrow> bool" where
  "run_conflict row s \<longleftrightarrow>
     \<not> list_ex (\<lambda>r. sr_id r = rr_session row) (sessions s) \<or>
     list_ex (\<lambda>r. rr_id r = rr_id row) (runs s) \<or>
     rr_key row \<noteq> None \<and>
       list_ex (\<lambda>r. rr_session r = rr_session row \<and> rr_key r = rr_key row) (runs s) \<or>
     list_ex (\<lambda>r. rr_session r = rr_session row \<and> rr_generation r = rr_generation row) (runs s)"

definition new_run ::
    "jstring \<Rightarrow> int \<Rightarrow> jstring \<Rightarrow> session_record \<Rightarrow> run_input \<Rightarrow> int \<Rightarrow> run_record" where
  "new_run uuid now sid session input generation =
     \<lparr>r_id = uuid, r_sessionId = sid, r_generation = generation, r_status = Queued,
      r_input = input,
      r_configSnapshot = Some (JObj (jset (js ''timeoutMs'') (JNum (in_timeoutMs input))
        (json_fields (s_configSnapshot session)))),
      r_createdAt = now, r_deadlineAt = now + in_timeoutMs input,
      r_startedAt = None, r_finishedAt = None, r_stopReason = None,
      r_cleanupStatus = Unconfirmed, r_output = None, r_error = None, r_lastSeq = 0\<rparr>"

definition insert_run ::
    "(json \<Rightarrow> jstring) \<Rightarrow> int \<Rightarrow> run_record \<Rightarrow> jstring option \<Rightarrow> accepted operation" where
  "insert_run digest now run key s =
     (let row = \<lparr>rr_id = r_id run, rr_session = r_sessionId run, rr_generation = r_generation run,
            rr_key = key, rr_hash = inputHash digest (r_input run), rr_created = now,
            rr_record = run\<rparr>
      in if run_conflict row s then (Inl SqliteConstraint, s)
         else and_then
           (insertEvent now run (simple_draft ''RUN_QUEUED''
              [(js ''status'', JStr (js ''queued'')), (js ''generation'', JNum (r_generation run)),
               (js ''deadlineAt'', JNum (r_deadlineAt run)),
               (js ''configSnapshotRef'', JStr (r_id run))]) False)
           (\<lambda>_. and_then (reading (getRun (r_id run)))
              (\<lambda>stored. give \<lparr>acc_run = stored, acc_created = True\<rparr>))
           (s\<lparr>runs := runs s @ [row]\<rparr>))"

definition accept_new ::
    "(json \<Rightarrow> jstring) \<Rightarrow> jstring \<Rightarrow> int \<Rightarrow> session_record \<Rightarrow> jstring \<Rightarrow> run_input \<Rightarrow>
     jstring option \<Rightarrow> accepted operation" where
  "accept_new digest uuid now session sid input key s =
     (if s_status session \<noteq> SessionOpen then throw SESSION_CLOSED 409 s
      else let generation = next_generation sid s
        in if \<bar>generation\<bar> > max_safe then throw STORAGE_CORRUPT 500 s
           else insert_run digest now
             (new_run uuid now sid session input generation) key s)"

definition acceptRun ::
    "(json \<Rightarrow> jstring) \<Rightarrow> jstring \<Rightarrow> int \<Rightarrow> jstring \<Rightarrow> run_input \<Rightarrow> jstring option \<Rightarrow>
     accepted operation" where
  "acceptRun digest uuid now sid input key = transaction
     (and_then (reading (getSession sid)) (\<lambda>session.
        case key of
          None \<Rightarrow> accept_new digest uuid now session sid input None
        | Some k \<Rightarrow>
            if length k < 1 \<or> length k > 200 then throw INVALID_IDEMPOTENCY_KEY 400
            else (\<lambda>s. case find (\<lambda>r. rr_session r = sid \<and> rr_key r = Some k) (runs s) of
                None \<Rightarrow> accept_new digest uuid now session sid input (Some k) s
              | Some previous \<Rightarrow>
                  if rr_hash previous \<noteq> inputHash digest input
                  then throw IDEMPOTENCY_CONFLICT 409 s
                  else and_then (reading (\<lambda>_. readRun (rr_record previous)))
                    (\<lambda>run. give \<lparr>acc_run = run, acc_created = False\<rparr>) s)))"

section \<open>Run status, events and the terminal outcome\<close>

definition setRunStatus :: "int \<Rightarrow> jstring \<Rightarrow> run_status \<Rightarrow> run_record operation" where
  "setRunStatus now i status = transaction
     (and_then (reading (getRun i)) (\<lambda>run.
        if isTerminal (r_status run) \<or> r_status run = status then give run
        else if isTerminal status then throw RUN_STATE_CONFLICT 409
        else (let updated = run\<lparr>r_status := status,
                r_startedAt := (if status = Starting \<and> r_startedAt run = None then Some now
                  else r_startedAt run)\<rparr>
          in (\<lambda>s. and_then
                (insertEvent now updated (simple_draft ''RUN_STATUS''
                  [(js ''status'', JStr (status_text status)),
                   (js ''previousStatus'', JStr (status_text (r_status run)))]) False)
                (\<lambda>_. reading (getRun i)) (saveRun updated s)))))"

definition appendEvent :: "int \<Rightarrow> jstring \<Rightarrow> event_draft \<Rightarrow> agent_event option operation" where
  "appendEvent now i draft = transaction
     (and_then (reading (getRun i)) (\<lambda>run.
        if isTerminal (r_status run) then give None
        else if d_type draft \<in> set reservedEvents then throw RESERVED_EVENT_TYPE 409
        else if (case d_sourceSeq draft of None \<Rightarrow> False
                 | Some n \<Rightarrow> \<bar>n\<bar> > max_safe \<or> n < 0)
        then throw INVALID_SOURCE_SEQUENCE 400
        else (\<lambda>s. if source_seen i (d_sourceSeq draft) s then (Inr None, s)
                  else and_then (insertEvent now run draft False) (\<lambda>e. give (Some e)) s)))"

text \<open>A permission expires; while its run has not ended the expiry is an event of the run.\<close>

definition expirePermission :: "int \<Rightarrow> permission_record \<Rightarrow> permission_record operation" where
  "expirePermission now permission s =
     (let expired = permission\<lparr>p_status := Expired\<rparr>
      in and_then (reading (getRun (p_runId permission))) (\<lambda>run.
           if \<not> isTerminal (r_status run)
           then and_then (insertEvent now run (simple_draft ''PERMISSION_EXPIRED''
                  [(js ''permissionId'', JStr (p_id permission)),
                   (js ''toolCallId'', JStr (p_toolCallId permission))]) False)
                (\<lambda>_. give expired)
           else give expired) (savePermission expired s))"

definition is_open :: "permission_record \<Rightarrow> bool" where
  "is_open p \<longleftrightarrow> p_status p = Pending \<or> p_status p = Decided"

fun expire_open :: "int \<Rightarrow> permission_record list \<Rightarrow> unit operation" where
  "expire_open now [] s = (Inr (), s)"
| "expire_open now (p # ps) s =
     (if is_open p then and_then (expirePermission now p) (\<lambda>_. expire_open now ps) s
      else expire_open now ps s)"

definition finished_run :: "int \<Rightarrow> finish_input \<Rightarrow> run_record \<Rightarrow> run_record" where
  "finished_run now input run = run\<lparr>
     r_status := Ended (f_status input), r_stopReason := Some (f_stopReason input),
     r_cleanupStatus := f_cleanupStatus input,
     r_output := (case f_output input of None \<Rightarrow> r_output run | Some t \<Rightarrow> Some t),
     r_error := (case f_error input of None \<Rightarrow> r_error run | Some e \<Rightarrow> Some e),
     r_finishedAt := Some now\<rparr>"

definition finish_draft :: "finish_input \<Rightarrow> event_draft" where
  "finish_draft input =
     \<lparr>d_type = terminalEvent (f_status input),
      d_data =
        [(js ''status'', JStr (terminal_text (f_status input))),
         (js ''stopReason'', JStr (f_stopReason input)),
         (js ''cleanupStatus'', JStr (cleanup_text (f_cleanupStatus input)))] @
        optional_field ''output'' JStr (f_output input) @
        optional_field ''error'' (\<lambda>e. JObj [(js ''code'', JStr (pe_code e)),
          (js ''message'', JStr (pe_message e))]) (f_error input),
      d_occurredAt = None, d_sourceSeq = None\<rparr>"

definition finishRun :: "int \<Rightarrow> jstring \<Rightarrow> finish_input \<Rightarrow> run_record operation" where
  "finishRun now i input = transaction
     (and_then (reading (getRun i)) (\<lambda>run.
        if isTerminal (r_status run) then give run
        else and_then (reading (listPermissions i)) (\<lambda>ps.
             and_then (expire_open now ps) (\<lambda>_.
             and_then (reading (getRun i)) (\<lambda>again.
               let finished = finished_run now input again
               in (\<lambda>s. and_then (insertEvent now finished (finish_draft input) True)
                     (\<lambda>_. reading (getRun i)) (saveRun finished s)))))))"

section \<open>Permissions and artifacts\<close>

text \<open>A run in these states takes no new permission and no decision.\<close>

definition past_permissions :: "run_status \<Rightarrow> bool" where
  "past_permissions st \<longleftrightarrow> isTerminal st \<or> st = Cancelling \<or> st = Finalizing"

text \<open>
  The constraints of the tables \<open>permissions\<close> and \<open>artifacts\<close>: the primary key and the run they refer to.
\<close>

definition permission_conflict :: "permission_row \<Rightarrow> store \<Rightarrow> bool" where
  "permission_conflict row s \<longleftrightarrow>
     list_ex (\<lambda>r. pr_id r = pr_id row) (permissions s) \<or>
     \<not> list_ex (\<lambda>r. rr_id r = pr_run row) (runs s)"

definition insert_permission :: "permission_record \<Rightarrow> unit operation" where
  "insert_permission permission s =
     (let row = \<lparr>pr_id = p_id permission, pr_run = p_runId permission, pr_record = permission\<rparr>
      in if permission_conflict row s then (Inl SqliteConstraint, s)
         else (Inr (), s\<lparr>permissions := permissions s @ [row]\<rparr>))"

definition artifact_conflict :: "artifact_row \<Rightarrow> store \<Rightarrow> bool" where
  "artifact_conflict row s \<longleftrightarrow>
     list_ex (\<lambda>r. ar_id r = ar_id row) (artifacts s) \<or>
     \<not> list_ex (\<lambda>r. rr_id r = ar_run row) (runs s)"

definition insert_artifact :: "artifact_record \<Rightarrow> unit operation" where
  "insert_artifact artifact s =
     (let row = \<lparr>ar_id = a_id artifact, ar_run = a_runId artifact, ar_record = artifact\<rparr>
      in if artifact_conflict row s then (Inl SqliteConstraint, s)
         else (Inr (), s\<lparr>artifacts := artifacts s @ [row]\<rparr>))"

definition createPermission :: "int \<Rightarrow> permission_record \<Rightarrow> permission_record operation" where
  "createPermission now permission = transaction
     (and_then (reading (getRun (p_runId permission))) (\<lambda>run.
        if r_sessionId run \<noteq> p_sessionId permission \<or> r_generation run \<noteq> p_generation permission \<or>
           past_permissions (r_status run)
        then throw PERMISSION_OWNERSHIP_CONFLICT 409
        else if p_status permission \<noteq> Pending \<or> p_decision permission \<noteq> None \<or>
           p_options permission = [] \<or>
           \<not> distinct (map po_id (p_options permission))
        then throw INVALID_PERMISSION 400
        else if p_expiresAt permission \<le> now \<or> p_expiresAt permission > r_deadlineAt run
        then throw PERMISSION_EXPIRED 409
        else (\<lambda>s. if list_ex (\<lambda>r. pr_id r = p_id permission) (permissions s)
          then throw PERMISSION_CONFLICT 409 s
          else and_then (insert_permission permission) (\<lambda>_.
               and_then (insertEvent now run (simple_draft ''PERMISSION_REQUESTED''
                 [(js ''permissionId'', JStr (p_id permission)),
                  (js ''toolCallId'', JStr (p_toolCallId permission)),
                  (js ''prompt'', JStr (p_prompt permission)),
                  (js ''options'', JArr (map (\<lambda>opt. JObj
                     [(js ''id'', JStr (po_id opt)), (js ''label'', JStr (po_label opt)),
                      (js ''kind'', JStr (case po_kind opt of AllowOnce \<Rightarrow> js ''allow_once''
                         | RejectOnce \<Rightarrow> js ''reject_once''))]) (p_options permission))),
                  (js ''expiresAt'', JNum (p_expiresAt permission)),
                  (js ''generation'', JNum (p_generation permission))]) False)
               (\<lambda>_. give permission)) s)))"

text \<open>
  A decision. The transaction gives the error of a permission that no longer takes decisions as
  its result, so that the expiry it wrote is committed; it is thrown after the commit.
\<close>

definition decide_body ::
    "int \<Rightarrow> jstring \<Rightarrow> jstring \<Rightarrow> (store_error + permission_record) operation" where
  "decide_body now i optionId =
     and_then (reading (getPermission i)) (\<lambda>permission.
     and_then (reading (getRun (p_runId permission))) (\<lambda>run.
       if p_status permission = Expired \<or> p_expiresAt permission \<le> now \<or>
          past_permissions (r_status run)
       then and_then (if is_open permission then and_then (expirePermission now permission)
                 (\<lambda>_. give ()) else give ())
              (\<lambda>_. give (Inl (HubError PERMISSION_EXPIRED 409)))
       else if \<not> list_ex (\<lambda>opt. po_id opt = optionId) (p_options permission)
       then throw INVALID_PERMISSION_OPTION 400
       else if p_status permission = Decided \<or> p_status permission = Applied
       then (if p_decision permission \<noteq> Some optionId
             then throw PERMISSION_DECISION_CONFLICT 409 else give (Inr permission))
       else let decided = permission\<lparr>p_status := Decided, p_decision := Some optionId\<rparr>
         in (\<lambda>s. and_then (insertEvent now run (simple_draft ''PERMISSION_DECIDED''
               [(js ''permissionId'', JStr i),
                (js ''toolCallId'', JStr (p_toolCallId permission)),
                (js ''optionId'', JStr optionId)]) False)
              (\<lambda>_. give (Inr decided)) (savePermission decided s))))"

definition decidePermission ::
    "int \<Rightarrow> jstring \<Rightarrow> jstring \<Rightarrow> permission_record operation" where
  "decidePermission now i optionId s =
     (case transaction (decide_body now i optionId) s of
        (Inl e, s') \<Rightarrow> (Inl e, s')
      | (Inr outcome, s') \<Rightarrow> (outcome, s'))"

definition markPermissionApplied :: "int \<Rightarrow> jstring \<Rightarrow> permission_record operation" where
  "markPermissionApplied now i = transaction
     (and_then (reading (getPermission i)) (\<lambda>permission.
        if p_status permission = Applied then give permission
        else and_then (reading (getRun (p_runId permission))) (\<lambda>run.
          if p_status permission \<noteq> Decided \<or> isTerminal (r_status run) \<or>
             p_expiresAt permission \<le> now
          then throw PERMISSION_STATE_CONFLICT 409
          else (case p_decision permission of
             None \<Rightarrow> throw STORAGE_CORRUPT 500
           | Some decision \<Rightarrow> (let applied = permission\<lparr>p_status := Applied\<rparr>
              in (\<lambda>s. and_then (insertEvent now run (simple_draft ''PERMISSION_APPLIED''
                    [(js ''permissionId'', JStr i),
                     (js ''toolCallId'', JStr (p_toolCallId permission)),
                     (js ''optionId'', JStr decision),
                     (js ''acknowledgement'', JStr (js ''worker''))]) False)
                   (\<lambda>_. give applied) (savePermission applied s)))))))"

definition registerArtifact :: "int \<Rightarrow> artifact_record \<Rightarrow> artifact_record operation" where
  "registerArtifact now artifact = transaction
     (and_then (reading (getRun (a_runId artifact))) (\<lambda>run.
        if isTerminal (r_status run) then throw RUN_STATE_CONFLICT 409
        else (\<lambda>s. if list_ex (\<lambda>r. ar_id r = a_id artifact) (artifacts s)
          then throw ARTIFACT_CONFLICT 409 s
          else and_then (insert_artifact artifact) (\<lambda>_.
               and_then (insertEvent now run (simple_draft ''ARTIFACT_CREATED''
                 [(js ''artifactId'', JStr (a_id artifact)), (js ''name'', JStr (a_name artifact)),
                  (js ''mediaType'', JStr (a_mediaType artifact)),
                  (js ''size'', JNum (a_size artifact)),
                  (js ''sha256'', JStr (a_sha256 artifact))]) False)
               (\<lambda>_. give artifact)) s)))"

section \<open>One step of the store\<close>

text \<open>Every operation that writes, with the readings it takes.\<close>

datatype store_op =
    CreateSession jstring int engine_profile workspace "json option"
  | SetSessionStatus int jstring session_status
  | BindBackendSession int jstring jstring event_draft
  | AcceptRun jstring int jstring run_input "jstring option"
  | SetRunStatus int jstring run_status
  | AppendEvent int jstring event_draft
  | FinishRun int jstring finish_input
  | CreatePermission int permission_record
  | DecidePermission int jstring jstring
  | MarkPermissionApplied int jstring
  | RegisterArtifact int artifact_record

datatype store_value =
    VSession session_record
  | VEvent "agent_event option"
  | VAccepted accepted
  | VRun run_record
  | VPermission permission_record
  | VArtifact artifact_record

definition valued :: "('a \<Rightarrow> store_value) \<Rightarrow> 'a result \<times> store \<Rightarrow> store_value result \<times> store" where
  "valued f r = (map_sum id f (fst r), snd r)"

fun store_step :: "(json \<Rightarrow> jstring) \<Rightarrow> store_op \<Rightarrow> store_value operation" where
  "store_step digest (CreateSession uuid now engine ws routing) s =
     valued VSession (createSession digest uuid now engine ws routing s)"
| "store_step digest (SetSessionStatus now i status) s = valued VSession (setSessionStatus now i status s)"
| "store_step digest (BindBackendSession now i b ev) s = valued VEvent (bindBackendSession now i b ev s)"
| "store_step digest (AcceptRun uuid now sid input key) s =
     valued VAccepted (acceptRun digest uuid now sid input key s)"
| "store_step digest (SetRunStatus now i status) s = valued VRun (setRunStatus now i status s)"
| "store_step digest (AppendEvent now i draft) s = valued VEvent (appendEvent now i draft s)"
| "store_step digest (FinishRun now i input) s = valued VRun (finishRun now i input s)"
| "store_step digest (CreatePermission now p) s = valued VPermission (createPermission now p s)"
| "store_step digest (DecidePermission now i opt) s = valued VPermission (decidePermission now i opt s)"
| "store_step digest (MarkPermissionApplied now i) s = valued VPermission (markPermissionApplied now i s)"
| "store_step digest (RegisterArtifact now a) s = valued VArtifact (registerArtifact now a s)"

end
