(* ===== verification/Machines.thy ===== *)
theory Machines
  imports Prelude
begin

text \<open>
  The shape every stateful component here has: operations that may fail, each a function of the
  state. The interface a component provides is that every operation is made of elementary moves
  that keep an invariant; what the moves keep, every sequence of operations keeps.
\<close>

fun run_ops :: "('op \<Rightarrow> 's \<Rightarrow> 'r \<times> 's) \<Rightarrow> 'op list \<Rightarrow> 's \<Rightarrow> 's" where
  "run_ops step [] s = s"
| "run_ops step (x # xs) s = run_ops step xs (snd (step x s))"

lemma run_ops_append [simp]: "run_ops step (xs @ ys) s = run_ops step ys (run_ops step xs s)"
  by (induction xs arbitrary: s) auto

locale machine =
  fixes step :: "'op \<Rightarrow> 's \<Rightarrow> 'r \<times> 's"
    and move :: "'s \<Rightarrow> 's \<Rightarrow> bool"
    and inv :: "'s \<Rightarrow> bool"
  assumes move_inv: "inv s \<Longrightarrow> move s s' \<Longrightarrow> inv s'"
    and step_moves: "inv s \<Longrightarrow> move\<^sup>*\<^sup>* s (snd (step x s))"
begin

lemma moves_inv: "move\<^sup>*\<^sup>* s s' \<Longrightarrow> inv s \<Longrightarrow> inv s'"
  by (induction rule: rtranclp_induct) (auto intro: move_inv)

lemma step_inv: "inv s \<Longrightarrow> inv (snd (step x s))"
  by (blast intro: moves_inv step_moves)

lemma run_inv: "inv s \<Longrightarrow> inv (run_ops step xs s)"
  by (induction xs arbitrary: s) (auto intro: step_inv)

lemma run_moves: "inv s \<Longrightarrow> move\<^sup>*\<^sup>* s (run_ops step xs s)"
proof (induction xs arbitrary: s)
  case Nil
  then show ?case by simp
next
  case (Cons x xs)
  then have "move\<^sup>*\<^sup>* (snd (step x s)) (run_ops step xs (snd (step x s)))"
    by (blast intro: step_inv)
  with step_moves [OF Cons.prems] show ?case by (auto intro: rtranclp_trans)
qed

text \<open>What a move keeps in a state of the invariant, a run keeps.\<close>

lemma moves_keep:
  assumes keep: "\<And>s s'. inv s \<Longrightarrow> move s s' \<Longrightarrow> P s \<Longrightarrow> P s'"
  shows "move\<^sup>*\<^sup>* s s' \<Longrightarrow> inv s \<Longrightarrow> P s \<Longrightarrow> P s'"
proof (induction rule: rtranclp_induct)
  case base
  then show ?case by simp
next
  case (step t u)
  then show ?case by (blast intro: keep moves_inv)
qed

lemma run_keeps:
  assumes "\<And>s s'. inv s \<Longrightarrow> move s s' \<Longrightarrow> P s \<Longrightarrow> P s'" "inv s" "P s"
  shows "P (run_ops step xs s)"
  by (rule moves_keep [where P = P, OF _ run_moves [OF assms(2)] assms(2,3)]) (rule assms(1))

text \<open>A relation that every move is in, if it is reflexive and transitive, holds across a run.\<close>

lemma run_related:
  assumes "\<And>s. R s s" "\<And>s t u. R s t \<Longrightarrow> R t u \<Longrightarrow> R s u"
    and "\<And>s s'. inv s \<Longrightarrow> move s s' \<Longrightarrow> R s s'" and "inv s"
  shows "R s (run_ops step xs s)"
proof -
  have "move\<^sup>*\<^sup>* s t \<Longrightarrow> inv s \<Longrightarrow> R s t" for t
    by (induction rule: rtranclp_induct) (blast intro: assms moves_inv)+
  with run_moves [OF assms(4)] assms(4) show ?thesis by blast
qed

end

end
