(* ===== verification/RunStoreInv.thy ===== *)
theory RunStoreInv
  imports RunStore Machines
begin

text \<open>
  What the store keeps true. \<open>store_move\<close> lists the elementary changes a committed transaction is
  made of; \<open>store_inv\<close> says how the tables agree; every move keeps it, and every operation is a
  sequence of moves, so both lift to every sequence of operations through the interface
  \<open>machine\<close>.
\<close>

section \<open>The invariant\<close>

definition run_events :: "jstring \<Rightarrow> store \<Rightarrow> event_row list" where
  "run_events i s = filter (\<lambda>e. er_run e = i) (events s)"

abbreviation find_run :: "jstring \<Rightarrow> store \<Rightarrow> run_row option" where
  "find_run i s \<equiv> find (\<lambda>r. rr_id r = i) (runs s)"

abbreviation find_session :: "jstring \<Rightarrow> store \<Rightarrow> session_row option" where
  "find_session i s \<equiv> find (\<lambda>r. sr_id r = i) (sessions s)"

abbreviation find_permission :: "jstring \<Rightarrow> store \<Rightarrow> permission_row option" where
  "find_permission i s \<equiv> find (\<lambda>r. pr_id r = i) (permissions s)"

text \<open>
  The log of a run: sequence numbers 1, 2, \<dots> up to \<open>lastSeq\<close> without a gap, a terminal event
  exactly when the run has ended, and then it is the last one and names the outcome.
\<close>

definition log_ok :: "run_record \<Rightarrow> event_row list \<Rightarrow> bool" where
  "log_ok run evs \<longleftrightarrow>
     r_lastSeq run = int (length evs) \<and>
     map er_seq evs = map int [1..<Suc (length evs)] \<and>
     (case r_status run of
        Ended t \<Rightarrow> evs \<noteq> [] \<and> er_terminal (last evs) \<and> er_type (last evs) = terminalEvent t \<and>
          list_all (\<lambda>e. \<not> er_terminal e) (butlast evs)
      | _ \<Rightarrow> list_all (\<lambda>e. \<not> er_terminal e) evs)"

definition event_ok :: "store \<Rightarrow> event_row \<Rightarrow> bool" where
  "event_ok s e \<longleftrightarrow>
     er_event_id e = eventId (er_run e) (er_seq e) \<and> er_seq e > 0 \<and>
     er_seq e = e_seq (er_record e) \<and> er_run e = e_runId (er_record e) \<and>
     er_type e = e_type (er_record e) \<and> er_run e \<in> rr_id ` set (runs s)"

definition run_row_ok :: "store \<Rightarrow> run_row \<Rightarrow> bool" where
  "run_row_ok s r \<longleftrightarrow>
     rr_id r = r_id (rr_record r) \<and> rr_session r = r_sessionId (rr_record r) \<and>
     rr_generation r = r_generation (rr_record r) \<and> r_sessionId (rr_record r) \<in> sr_id ` set (sessions s) \<and>
     log_ok (rr_record r) (run_events (rr_id r) s)"

text \<open>The runs of one session are numbered 1, 2, \<dots> in the order they were accepted.\<close>

definition generations_ok :: "store \<Rightarrow> bool" where
  "generations_ok s \<longleftrightarrow>
     (\<forall>sid. let rs = filter (\<lambda>r. rr_session r = sid) (runs s)
            in map rr_generation rs = map int [1..<Suc (length rs)])"

definition keys_ok :: "store \<Rightarrow> bool" where
  "keys_ok s \<longleftrightarrow>
     distinct (map (\<lambda>r. (rr_session r, rr_key r)) (filter (\<lambda>r. rr_key r \<noteq> None) (runs s)))"

definition sources_ok :: "store \<Rightarrow> bool" where
  "sources_ok s \<longleftrightarrow>
     distinct (map (\<lambda>e. (er_run e, er_source_seq e))
       (filter (\<lambda>e. er_source_seq e \<noteq> None) (events s)))"

text \<open>
  A permission: a decision is one of its options, and once its run has ended it is no longer open.
\<close>

definition permission_row_ok :: "store \<Rightarrow> permission_row \<Rightarrow> bool" where
  "permission_row_ok s p \<longleftrightarrow>
     pr_id p = p_id (pr_record p) \<and> pr_run p = p_runId (pr_record p) \<and>
     (p_status (pr_record p) = Pending \<longrightarrow> p_decision (pr_record p) = None) \<and>
     (p_status (pr_record p) = Decided \<or> p_status (pr_record p) = Applied \<longrightarrow>
        (\<exists>d. p_decision (pr_record p) = Some d \<and> d \<in> po_id ` set (p_options (pr_record p)))) \<and>
     (\<exists>r \<in> set (runs s). rr_id r = pr_run p \<and>
        (isTerminal (r_status (rr_record r)) \<longrightarrow> \<not> is_open (pr_record p)))"

definition session_row_ok :: "session_row \<Rightarrow> bool" where
  "session_row_ok r \<longleftrightarrow> sr_id r = s_id (sr_record r)"

definition store_inv :: "store \<Rightarrow> bool" where
  "store_inv s \<longleftrightarrow>
     distinct (map sr_id (sessions s)) \<and> list_all session_row_ok (sessions s) \<and>
     distinct (map rr_id (runs s)) \<and> list_all (run_row_ok s) (runs s) \<and>
     list_all (event_ok s) (events s) \<and>
     generations_ok s \<and> keys_ok s \<and> sources_ok s \<and>
     distinct (map pr_id (permissions s)) \<and> list_all (permission_row_ok s) (permissions s) \<and>
     distinct (map ar_id (artifacts s))"

lemma store_inv_empty: "store_inv empty_store"
  by (simp add: store_inv_def empty_store_def generations_ok_def keys_ok_def sources_ok_def)

lemma store_invD:
  assumes "store_inv s"
  shows inv_run: "r \<in> set (runs s) \<Longrightarrow> run_row_ok s r"
    and inv_event: "e \<in> set (events s) \<Longrightarrow> event_ok s e"
    and inv_permission: "p \<in> set (permissions s) \<Longrightarrow> permission_row_ok s p"
    and inv_session: "v \<in> set (sessions s) \<Longrightarrow> session_row_ok v"
  using assms by (simp_all add: store_inv_def list_all_iff)

lemma event_ok_run: "event_ok s e \<Longrightarrow> er_run e \<in> rr_id ` set (runs s)"
  unfolding event_ok_def by blast

lemma run_row_log: "run_row_ok s r \<Longrightarrow> log_ok (rr_record r) (run_events (rr_id r) s)"
  unfolding run_row_ok_def by blast

section \<open>Elementary changes\<close>

text \<open>
  \<open>session_grows\<close>: a session's status only goes forward and its backend identity, once bound,
  stays. \<open>permission_grows\<close>: the life of a permission.
\<close>

fun session_order :: "session_status \<Rightarrow> nat" where
  "session_order SessionOpen = 0"
| "session_order SessionClosing = 1"
| "session_order SessionClosed = 2"

definition session_grows :: "session_record \<Rightarrow> session_record \<Rightarrow> bool" where
  "session_grows v v' \<longleftrightarrow>
     s_id v' = s_id v \<and> s_engineId v' = s_engineId v \<and>
     s_profileRevision v' = s_profileRevision v \<and> s_workspaceId v' = s_workspaceId v \<and>
     s_cwd v' = s_cwd v \<and> session_order (s_status v) \<le> session_order (s_status v') \<and>
     (s_backendSessionId v \<noteq> None \<longrightarrow> s_backendSessionId v' = s_backendSessionId v)"

definition permission_grows :: "permission_record \<Rightarrow> permission_record \<Rightarrow> bool" where
  "permission_grows p p' \<longleftrightarrow>
     (p_status p = Pending \<and>
        (\<exists>d \<in> po_id ` set (p_options p). p' = p\<lparr>p_status := Decided, p_decision := Some d\<rparr>)) \<or>
     (p_status p = Decided \<and> p' = p\<lparr>p_status := Applied\<rparr>) \<or>
     (is_open p \<and> p' = p\<lparr>p_status := Expired\<rparr>)"

definition run_kept :: "run_record \<Rightarrow> run_record \<Rightarrow> bool" where
  "run_kept run run' \<longleftrightarrow>
     r_id run' = r_id run \<and> r_sessionId run' = r_sessionId run \<and>
     r_generation run' = r_generation run \<and> r_input run' = r_input run \<and>
     r_createdAt run' = r_createdAt run \<and> r_deadlineAt run' = r_deadlineAt run \<and>
     r_lastSeq run' = r_lastSeq run \<and> \<not> isTerminal (r_status run)"

inductive store_move :: "store \<Rightarrow> store \<Rightarrow> bool" where
  new_session:
    "\<not> list_ex (\<lambda>r. sr_id r = sr_id row) (sessions s) \<Longrightarrow> session_row_ok row \<Longrightarrow>
     store_move s (s\<lparr>sessions := sessions s @ [row]\<rparr>)"
| update_session:
    "find_session (s_id v) s = Some row \<Longrightarrow> session_grows (sr_record row) v \<Longrightarrow>
     store_move s (saveSession v s)"
| new_run:
    "\<not> run_conflict row s \<Longrightarrow> rr_id row = r_id run \<Longrightarrow> rr_session row = r_sessionId run \<Longrightarrow>
     rr_generation row = next_generation (r_sessionId run) s \<Longrightarrow> r_generation run = rr_generation row \<Longrightarrow>
     rr_record row = run \<Longrightarrow> r_lastSeq run = 0 \<Longrightarrow> r_status run = Queued \<Longrightarrow>
     store_move s (s\<lparr>runs := runs s @ [row]\<rparr>)"
| log_event:
    "find_run (r_id run) s = Some row \<Longrightarrow> run_kept (rr_record row) run \<Longrightarrow>
     \<not> isTerminal (r_status run) \<Longrightarrow> insertEvent now run draft False s = (Inr ev, s') \<Longrightarrow>
     store_move s s'"
| finish:
    "find_run (r_id run) s = Some row \<Longrightarrow> run_kept (rr_record row) run \<Longrightarrow>
     r_status run = Ended t \<Longrightarrow> d_type draft = terminalEvent t \<Longrightarrow>
     list_all (\<lambda>p. pr_run p = r_id run \<longrightarrow> \<not> is_open (pr_record p)) (permissions s) \<Longrightarrow>
     insertEvent now run draft True s = (Inr ev, s') \<Longrightarrow> store_move s s'"
| new_permission:
    "\<not> list_ex (\<lambda>r. pr_id r = p_id p) (permissions s) \<Longrightarrow> p_status p = Pending \<Longrightarrow>
     p_decision p = None \<Longrightarrow> find_run (p_runId p) s = Some row \<Longrightarrow>
     \<not> isTerminal (r_status (rr_record row)) \<Longrightarrow>
     store_move s (s\<lparr>permissions := permissions s @
       [\<lparr>pr_id = p_id p, pr_run = p_runId p, pr_record = p\<rparr>]\<rparr>)"
| update_permission:
    "find_permission (p_id v) s = Some row \<Longrightarrow> permission_grows (pr_record row) v \<Longrightarrow>
     store_move s (savePermission v s)"
| new_artifact:
    "\<not> list_ex (\<lambda>r. ar_id r = ar_id row) (artifacts s) \<Longrightarrow>
     store_move s (s\<lparr>artifacts := artifacts s @ [row]\<rparr>)"

section \<open>Reading after writing\<close>

lemma insertEvent_Inr:
  "insertEvent now run d t s = (Inr ev, s') \<longleftrightarrow>
     \<not> event_conflict (draft_row now run d t) s \<and> ev = draft_event now run d \<and>
     s' = saveRun (run\<lparr>r_lastSeq := r_lastSeq run + 1\<rparr>)
            (s\<lparr>events := events s @ [draft_row now run d t]\<rparr>)"
  by (auto simp: insertEvent_def Let_def draft_event_def split: if_splits)

lemma insertEvent_Inl:
  "insertEvent now run d t s = (Inl e, s') \<longleftrightarrow>
     event_conflict (draft_row now run d t) s \<and> e = SqliteConstraint \<and> s' = s"
  by (auto simp: insertEvent_def Let_def split: if_splits)

lemma draft_row_simps [simp]:
  "er_run (draft_row now run d t) = r_id run"
  "er_seq (draft_row now run d t) = r_lastSeq run + 1"
  "er_event_id (draft_row now run d t) = eventId (r_id run) (r_lastSeq run + 1)"
  "er_source_seq (draft_row now run d t) = d_sourceSeq d"
  "er_type (draft_row now run d t) = d_type d"
  "er_terminal (draft_row now run d t) = t"
  "er_record (draft_row now run d t) = draft_event now run d"
  by (simp_all add: draft_row_def draft_event_def Let_def)

lemma draft_event_simps [simp]:
  "e_seq (draft_event now run d) = r_lastSeq run + 1"
  "e_runId (draft_event now run d) = r_id run"
  "e_type (draft_event now run d) = d_type d"
  by (simp_all add: draft_event_def)

lemma saveRun_fields [simp]:
  "sessions (saveRun run s) = sessions s" "events (saveRun run s) = events s"
  "permissions (saveRun run s) = permissions s" "artifacts (saveRun run s) = artifacts s"
  "map rr_id (runs (saveRun run s)) = map rr_id (runs s)"
  by (simp_all add: saveRun_def)

lemma ids_saveRun [simp]: "rr_id ` set (runs (saveRun run s)) = rr_id ` set (runs s)"
  by (simp flip: set_map)

lemma saveRun_same [simp]:
  "saveRun run (saveRun (run\<lparr>r_lastSeq := n\<rparr>) s) = saveRun run s"
  "saveRun (run\<lparr>r_lastSeq := n\<rparr>) (saveRun run s) = saveRun (run\<lparr>r_lastSeq := n\<rparr>) s"
  by (auto simp: saveRun_def)

lemma find_saveRun [row_simps]:
  "find_run i (saveRun run s) =
     map_option (\<lambda>r. if i = r_id run then r\<lparr>rr_record := run\<rparr> else r) (find_run i s)"
proof -
  have "find_run i (saveRun run s) =
      map_option (\<lambda>r. if rr_id r = r_id run then r\<lparr>rr_record := run\<rparr> else r) (find_run i s)"
    by (simp add: saveRun_def) (rule find_map_same, simp)
  then show ?thesis
    by (cases "find_run i s") (auto dest: find_Some_set)
qed

lemma runs_saveRunD:
  "r \<in> set (runs (saveRun run s)) \<Longrightarrow>
     (r \<in> set (runs s) \<and> rr_id r \<noteq> r_id run) \<or>
     (\<exists>r0 \<in> set (runs s). rr_id r0 = r_id run \<and> r = r0\<lparr>rr_record := run\<rparr>)"
  by (auto simp: saveRun_def)

lemma generations_saveRun [simp]: "generations_ok (saveRun run s) = generations_ok s"
proof -
  have "map rr_generation (filter (\<lambda>r. rr_session r = sid) (runs (saveRun run s))) =
      map rr_generation (filter (\<lambda>r. rr_session r = sid) (runs s))" for sid
    by (simp add: saveRun_def filter_map comp_def if_distrib cong: if_cong)
  moreover from this have "length (filter (\<lambda>r. rr_session r = sid) (runs (saveRun run s))) =
      length (filter (\<lambda>r. rr_session r = sid) (runs s))" for sid
    by (metis length_map)
  ultimately show ?thesis by (simp add: generations_ok_def Let_def)
qed

lemma keys_saveRun [simp]: "keys_ok (saveRun run s) = keys_ok s"
  by (simp add: keys_ok_def saveRun_def filter_map comp_def if_distrib cong: if_cong)

lemma generations_events [simp]:
  "generations_ok (s\<lparr>events := x\<rparr>) = generations_ok s" "keys_ok (s\<lparr>events := x\<rparr>) = keys_ok s"
  "generations_ok (s\<lparr>permissions := y\<rparr>) = generations_ok s"
  "keys_ok (s\<lparr>permissions := y\<rparr>) = keys_ok s"
  "generations_ok (s\<lparr>sessions := z\<rparr>) = generations_ok s" "keys_ok (s\<lparr>sessions := z\<rparr>) = keys_ok s"
  "generations_ok (s\<lparr>artifacts := w\<rparr>) = generations_ok s"
  "keys_ok (s\<lparr>artifacts := w\<rparr>) = keys_ok s"
  by (simp_all add: generations_ok_def keys_ok_def)

lemma sources_other [simp]:
  "sources_ok (s\<lparr>runs := x\<rparr>) = sources_ok s"
  "sources_ok (s\<lparr>permissions := y\<rparr>) = sources_ok s"
  "sources_ok (s\<lparr>sessions := z\<rparr>) = sources_ok s"
  "sources_ok (s\<lparr>artifacts := w\<rparr>) = sources_ok s"
  "sources_ok (saveRun run s) = sources_ok s"
  by (simp_all add: sources_ok_def)

lemma run_events_simps [simp]:
  "run_events i (saveRun run s) = run_events i s"
  "run_events i (s\<lparr>events := events s @ [e]\<rparr>) =
     run_events i s @ (if er_run e = i then [e] else [])"
  "run_events i (s\<lparr>runs := x\<rparr>) = run_events i s"
  "run_events i (s\<lparr>permissions := y\<rparr>) = run_events i s"
  "run_events i (s\<lparr>sessions := z\<rparr>) = run_events i s"
  "run_events i (s\<lparr>artifacts := w\<rparr>) = run_events i s"
  by (simp_all add: run_events_def)

section \<open>The event identifier names the run and the number\<close>

lemma eventId_inj:
  assumes "eventId a m = eventId b n" "m > 0" "n > 0"
  shows "a = b \<and> m = n"
proof -
  have "\<not> is_digit 58" by (simp add: is_digit_def)
  then have "lastIndexOf 58 (eventId a m) = Some (length a)"
    "lastIndexOf 58 (eventId b n) = Some (length b)"
    by (simp_all add: eventId_def lastIndexOf_append show_nat_no_sep)
  with assms(1) have "length a = length b" by simp
  with assms show ?thesis by (auto simp: eventId_def)
qed

section \<open>Every move keeps the invariant\<close>

text \<open>Appending to a run's log, as a status change, an event or the outcome.\<close>

lemma log_ok_append:
  assumes "log_ok run0 evs" "\<not> isTerminal (r_status run0)" "r_lastSeq run = r_lastSeq run0"
    and "er_seq e = r_lastSeq run + 1"
    and "er_terminal e = isTerminal (r_status run)"
    and "\<And>t. r_status run = Ended t \<Longrightarrow> er_type e = terminalEvent t"
  shows "log_ok (run\<lparr>r_lastSeq := r_lastSeq run + 1\<rparr>) (evs @ [e])"
proof -
  have no_terminal: "list_all (\<lambda>e. \<not> er_terminal e) evs"
    using assms(1,2) by (cases "r_status run0") (auto simp: log_ok_def)
  have last: "r_lastSeq run = int (length evs)" and seqs: "map er_seq evs = map int [1..<Suc (length evs)]"
    using assms(1,3) by (auto simp: log_ok_def)
  have seqs': "map er_seq (evs @ [e]) = map int [1..<Suc (length (evs @ [e]))]"
    using seqs assms(4) last by simp
  show ?thesis
  proof (cases "r_status run")
    case (Ended t)
    with assms(5,6) last seqs' no_terminal show ?thesis by (simp add: log_ok_def)
  qed (use assms(5) last seqs' no_terminal in \<open>simp_all add: log_ok_def\<close>)
qed

lemma event_ok_mono:
  "event_ok s e \<Longrightarrow> rr_id ` set (runs s) \<subseteq> rr_id ` set (runs s') \<Longrightarrow> event_ok s' e"
  unfolding event_ok_def by blast

lemma run_row_ok_cong:
  "run_row_ok s r \<Longrightarrow> sr_id ` set (sessions s) \<subseteq> sr_id ` set (sessions s') \<Longrightarrow>
   run_events (rr_id r) s' = run_events (rr_id r) s \<Longrightarrow> run_row_ok s' r"
  unfolding run_row_ok_def by (metis subsetD)

lemma permission_row_ok_mono:
  "permission_row_ok s p \<Longrightarrow> set (runs s) \<subseteq> set (runs s') \<Longrightarrow> permission_row_ok s' p"
  unfolding permission_row_ok_def by blast

text \<open>A change that leaves the logs alone and only adds rows to the other tables.\<close>

lemma store_inv_grow:
  assumes inv: "store_inv s"
    and tables: "events s' = events s" "runs s' = runs s" "permissions s' = permissions s"
    and more: "sr_id ` set (sessions s) \<subseteq> sr_id ` set (sessions s')"
    and sessions: "distinct (map sr_id (sessions s'))" "list_all session_row_ok (sessions s')"
    and artifacts: "distinct (map ar_id (artifacts s'))"
  shows "store_inv s'"
proof -
  have "run_row_ok s' r" if "run_row_ok s r" for r
    using that more by (rule run_row_ok_cong) (simp add: run_events_def tables)
  moreover have "event_ok s' e" if "event_ok s e" for e
    using that by (rule event_ok_mono) (simp add: tables)
  moreover have "permission_row_ok s' p" if "permission_row_ok s p" for p
    using that by (rule permission_row_ok_mono) (simp add: tables)
  moreover have "generations_ok s' = generations_ok s" "keys_ok s' = keys_ok s"
    "sources_ok s' = sources_ok s"
    by (simp_all add: generations_ok_def keys_ok_def sources_ok_def tables)
  ultimately show ?thesis
    using inv sessions artifacts by (simp add: store_inv_def list_all_iff tables)
qed

text \<open>
  A permission stays well formed when the runs change but each ended run had it closed before.
\<close>

lemma permission_row_ok_saveRun:
  assumes "permission_row_ok s p"
    and "isTerminal (r_status run) \<Longrightarrow> pr_run p = r_id run \<Longrightarrow> \<not> is_open (pr_record p)"
  shows "permission_row_ok (saveRun run s) p"
proof -
  obtain r where r: "r \<in> set (runs s)" "rr_id r = pr_run p"
    "isTerminal (r_status (rr_record r)) \<longrightarrow> \<not> is_open (pr_record p)"
    using assms(1) by (auto simp: permission_row_ok_def)
  let ?r = "if rr_id r = r_id run then r\<lparr>rr_record := run\<rparr> else r"
  have "?r \<in> set (runs (saveRun run s))" using r(1) by (auto simp: saveRun_def)
  moreover have "rr_id ?r = pr_run p" using r(2) by simp
  moreover have "isTerminal (r_status (rr_record ?r)) \<longrightarrow> \<not> is_open (pr_record p)"
    using r assms(2) by auto
  ultimately have "\<exists>r \<in> set (runs (saveRun run s)). rr_id r = pr_run p \<and>
      (isTerminal (r_status (rr_record r)) \<longrightarrow> \<not> is_open (pr_record p))" by blast
  with assms(1) show ?thesis by (simp add: permission_row_ok_def)
qed

lemma distinct_row:
  "distinct (map key xs) \<Longrightarrow> x \<in> set xs \<Longrightarrow> find (\<lambda>r. key r = key x) xs = Some x"
  by (induction xs) (auto simp: image_iff)

lemma insert_keeps:
  assumes inv: "store_inv s" and row: "find_run (r_id run) s = Some row"
    and kept: "run_kept (rr_record row) run"
    and free: "\<not> event_conflict (draft_row now run d t) s"
    and t: "t = isTerminal (r_status run)"
    and ended: "\<And>st. r_status run = Ended st \<Longrightarrow> d_type d = terminalEvent st \<and>
        list_all (\<lambda>p. pr_run p = r_id run \<longrightarrow> \<not> is_open (pr_record p)) (permissions s)"
  shows "store_inv (saveRun (run\<lparr>r_lastSeq := r_lastSeq run + 1\<rparr>)
    (s\<lparr>events := events s @ [draft_row now run d t]\<rparr>))"
    (is "store_inv (saveRun ?run ?s1)")
proof -
  let ?s' = "saveRun ?run ?s1" and ?e = "draft_row now run d t"
  have row_in: "row \<in> set (runs s)" and row_id: "rr_id row = r_id run"
    using find_Some_set [OF row] by auto
  have row_ok: "run_row_ok s row" using inv row_in by (auto simp: store_inv_def list_all_iff)
  have "run_row_ok ?s' r" if r: "r \<in> set (runs ?s')" for r
    using runs_saveRunD [OF r]
  proof
    assume "r \<in> set (runs ?s1) \<and> rr_id r \<noteq> r_id ?run"
    with inv have "run_row_ok s r" and "rr_id r \<noteq> r_id run"
      by (auto simp: store_inv_def list_all_iff)
    then show ?thesis by (auto intro: run_row_ok_cong)
  next
    assume "\<exists>r0 \<in> set (runs ?s1). rr_id r0 = r_id ?run \<and> r = r0\<lparr>rr_record := ?run\<rparr>"
    then obtain r0 where r0: "r0 \<in> set (runs s)" "rr_id r0 = r_id run" "r = r0\<lparr>rr_record := ?run\<rparr>"
      by auto
    have "find_run (rr_id r0) s = Some r0"
      by (rule distinct_row) (use inv r0 in \<open>auto simp: store_inv_def\<close>)
    with row r0 have "r0 = row" by simp
    have "log_ok ?run (run_events (r_id run) s @ [?e])"
      using row_ok row_id kept t ended
      by (intro log_ok_append [of "rr_record row"]) (auto simp: run_row_ok_def run_kept_def)
    with row_ok row_id kept r0 \<open>r0 = row\<close> show ?thesis
      by (simp add: run_row_ok_def run_kept_def)
  qed
  moreover have "event_ok ?s' e" if "e \<in> set (events ?s')" for e
  proof (cases "e = ?e")
    case True
    moreover have "r_id run \<in> rr_id ` set (runs s)" using row_in row_id by force
    ultimately show ?thesis using free by (simp add: event_ok_def event_conflict_def)
  next
    case False
    with that inv have "event_ok s e" by (auto simp: store_inv_def list_all_iff)
    then show ?thesis by (rule event_ok_mono) simp
  qed
  moreover have "sources_ok ?s1"
    using inv free by (auto simp: store_inv_def sources_ok_def event_conflict_def list_ex_iff)
  moreover have "permission_row_ok ?s' p" if "p \<in> set (permissions ?s')" for p
  proof (rule permission_row_ok_saveRun)
    have "permission_row_ok s p" using inv that by (simp add: store_inv_def list_all_iff)
    then show "permission_row_ok ?s1 p" by (rule permission_row_ok_mono) simp
    show "\<not> is_open (pr_record p)" if "isTerminal (r_status ?run)" "pr_run p = r_id ?run"
      using ended that \<open>p \<in> set (permissions ?s')\<close> by (auto simp: isTerminal_iff list_all_iff)
  qed
  ultimately show ?thesis
    using inv by (simp add: store_inv_def list_all_iff)
qed

lemma session_grows_trans:
  "session_grows a b \<Longrightarrow> session_grows b c \<Longrightarrow> session_grows a c"
  by (auto simp: session_grows_def)

lemma saveSession_fields [simp]:
  "runs (saveSession v s) = runs s" "events (saveSession v s) = events s"
  "permissions (saveSession v s) = permissions s" "artifacts (saveSession v s) = artifacts s"
  "map sr_id (sessions (saveSession v s)) = map sr_id (sessions s)"
  by (simp_all add: saveSession_def)

lemma run_events_tables [simp]:
  "run_events i (saveSession v s) = run_events i s"
  "run_events i (savePermission p s) = run_events i s"
  by (simp_all add: run_events_def saveSession_def savePermission_def)

lemma session_ids_saveSession [simp]:
  "sr_id ` set (sessions (saveSession v s)) = sr_id ` set (sessions s)"
  by (simp flip: set_map)

lemma saveSession_keeps: "store_inv s \<Longrightarrow> store_inv (saveSession v s)"
proof (rule store_inv_grow [of s])
  assume inv: "store_inv s"
  then show "list_all session_row_ok (sessions (saveSession v s))"
    by (auto simp: store_inv_def list_all_iff saveSession_def session_row_ok_def)
qed (simp_all add: store_inv_def)

lemma new_session_keeps:
  assumes "store_inv s" "\<not> list_ex (\<lambda>r. sr_id r = sr_id row) (sessions s)" "session_row_ok row"
  shows "store_inv (s\<lparr>sessions := sessions s @ [row]\<rparr>)"
  by (rule store_inv_grow [of s]) (use assms in \<open>auto simp: store_inv_def list_ex_iff\<close>)

lemma savePermission_fields [simp]:
  "runs (savePermission v s) = runs s" "events (savePermission v s) = events s"
  "sessions (savePermission v s) = sessions s" "artifacts (savePermission v s) = artifacts s"
  "map pr_id (permissions (savePermission v s)) = map pr_id (permissions s)"
  by (simp_all add: savePermission_def)

lemma permission_grows_ids:
  "permission_grows p v \<Longrightarrow> p_id v = p_id p \<and> p_runId v = p_runId p \<and> p_options v = p_options p \<and>
     (is_open v \<longrightarrow> is_open p) \<and> is_open p \<and> p_status v \<noteq> Pending"
  by (auto simp: permission_grows_def is_open_def)

lemma permission_grows_decision:
  assumes "permission_grows p v" "permission_row_ok s row" "pr_record row = p"
    and "p_status v = Decided \<or> p_status v = Applied"
  shows "\<exists>d. p_decision v = Some d \<and> d \<in> po_id ` set (p_options v)"
  using assms by (auto simp: permission_grows_def permission_row_ok_def)

lemma savePermission_keeps:
  assumes inv: "store_inv s" and row: "find_permission (p_id v) s = Some row"
    and grows: "permission_grows (pr_record row) v"
  shows "store_inv (savePermission v s)"
proof -
  have row_in: "row \<in> set (permissions s)" and row_id: "pr_id row = p_id v"
    using find_Some_set [OF row] by auto
  have row_ok: "permission_row_ok s row" using inv row_in by (auto simp: store_inv_def list_all_iff)
  have new_ok: "permission_row_ok s (row\<lparr>pr_record := v\<rparr>)"
    using row_ok permission_grows_ids [OF grows] permission_grows_decision [OF grows row_ok refl]
    by (auto simp: permission_row_ok_def)
  have "permission_row_ok s p" if "p \<in> set (permissions (savePermission v s))" for p
  proof -
    from that obtain p0 where p0: "p0 \<in> set (permissions s)"
      "p = (if pr_id p0 = p_id v then p0\<lparr>pr_record := v\<rparr> else p0)"
      by (auto simp: savePermission_def)
    show ?thesis
    proof (cases "pr_id p0 = p_id v")
      case True
      have "find_permission (pr_id p0) s = Some p0"
        by (rule distinct_row) (use inv p0 in \<open>auto simp: store_inv_def\<close>)
      with True row have "p0 = row" by simp
      with p0 True new_ok show ?thesis by simp
    next
      case False
      with p0 inv show ?thesis by (auto simp: store_inv_def list_all_iff)
    qed
  qed
  moreover have "permission_row_ok (savePermission v s) = permission_row_ok s"
    "run_row_ok (savePermission v s) = run_row_ok s" "event_ok (savePermission v s) = event_ok s"
    "generations_ok (savePermission v s) = generations_ok s"
    "keys_ok (savePermission v s) = keys_ok s" "sources_ok (savePermission v s) = sources_ok s"
    by (auto simp: fun_eq_iff permission_row_ok_def run_row_ok_def event_ok_def run_events_def
        generations_ok_def keys_ok_def sources_ok_def)
  ultimately show ?thesis using inv by (simp add: store_inv_def list_all_iff)
qed

lemma new_permission_keeps:
  assumes inv: "store_inv s" and fresh: "\<not> list_ex (\<lambda>r. pr_id r = p_id p) (permissions s)"
    and new: "p_status p = Pending" "p_decision p = None"
    and run: "find_run (p_runId p) s = Some row" "\<not> isTerminal (r_status (rr_record row))"
  shows "store_inv (s\<lparr>permissions := permissions s @
    [\<lparr>pr_id = p_id p, pr_run = p_runId p, pr_record = p\<rparr>]\<rparr>)"
    (is "store_inv ?s'")
proof -
  have "permission_row_ok ?s' \<lparr>pr_id = p_id p, pr_run = p_runId p, pr_record = p\<rparr>"
    using find_Some_set [OF run(1)] run(2) new by (auto simp: permission_row_ok_def)
  moreover have "permission_row_ok ?s' = permission_row_ok s" "run_row_ok ?s' = run_row_ok s"
    "event_ok ?s' = event_ok s"
    by (auto simp: fun_eq_iff permission_row_ok_def run_row_ok_def event_ok_def run_events_def)
  ultimately show ?thesis using inv fresh
    by (auto simp: store_inv_def list_ex_iff)
qed

text \<open>A new run: its number follows the last one of its session.\<close>

lemma foldr_max_upt: "foldr max (map int [1..<Suc n]) 0 = int n"
proof -
  have "foldr max (map int [1..<Suc n]) (b :: int) = (if n = 0 then b else max (int n) b)" for b
    by (induction n arbitrary: b) auto
  then show ?thesis by simp
qed

lemma next_generation_eq:
  assumes "generations_ok s"
  shows "next_generation sid s = int (length (filter (\<lambda>r. rr_session r = sid) (runs s))) + 1"
proof -
  have "map rr_generation (filter (\<lambda>r. rr_session r = sid) (runs s)) =
      map int [1..<Suc (length (filter (\<lambda>r. rr_session r = sid) (runs s)))]"
    using assms by (auto simp: generations_ok_def Let_def)
  then show ?thesis by (simp only: next_generation_def foldr_max_upt)
qed

lemma new_run_keeps:
  assumes inv: "store_inv s" and free: "\<not> run_conflict row s"
    and row: "rr_id row = r_id run" "rr_session row = r_sessionId run"
      "rr_generation row = next_generation (r_sessionId run) s" "r_generation run = rr_generation row"
      "rr_record row = run" "r_lastSeq run = 0" "r_status run = Queued"
  shows "store_inv (s\<lparr>runs := runs s @ [row]\<rparr>)" (is "store_inv ?s'")
proof -
  have fresh: "rr_id row \<notin> rr_id ` set (runs s)" and session: "rr_session row \<in> sr_id ` set (sessions s)"
    using free by (force simp: run_conflict_def list_ex_iff)+
  have "er_run e \<in> rr_id ` set (runs s)" if "e \<in> set (events s)" for e
    using inv_event [OF inv that] by (rule event_ok_run)
  with fresh have "\<forall>e \<in> set (events s). er_run e \<noteq> rr_id row" by metis
  then have none: "run_events (rr_id row) s = []" by (simp add: run_events_def filter_empty_conv)
  have "run_row_ok ?s' row"
    using row none session by (simp add: run_row_ok_def log_ok_def)
  moreover have "run_row_ok ?s' r" if "r \<in> set (runs s)" for r
    using inv_run [OF inv that] by (rule run_row_ok_cong) simp_all
  moreover have "event_ok ?s' e" if "e \<in> set (events s)" for e
    using inv_event [OF inv that] by (rule event_ok_mono) auto
  moreover have "permission_row_ok ?s' p" if "p \<in> set (permissions s)" for p
    using inv_permission [OF inv that] by (rule permission_row_ok_mono) auto
  moreover have "generations_ok ?s'"
  proof -
    have "generations_ok s" using inv by (simp add: store_inv_def)
    then show ?thesis
      using next_generation_eq [of s "r_sessionId run"] row by (auto simp: generations_ok_def Let_def)
  qed
  moreover have "keys_ok ?s'"
    using inv free by (auto simp: store_inv_def keys_ok_def run_conflict_def list_ex_iff)
  ultimately show ?thesis using inv fresh by (simp add: store_inv_def list_all_iff)
qed

lemma new_artifact_keeps:
  assumes "store_inv s" "\<not> list_ex (\<lambda>r. ar_id r = ar_id row) (artifacts s)"
  shows "store_inv (s\<lparr>artifacts := artifacts s @ [row]\<rparr>)"
  by (rule store_inv_grow [of s]) (use assms in \<open>auto simp: store_inv_def list_ex_iff\<close>)

lemma store_move_inv:
  assumes "store_move s s'" "store_inv s"
  shows "store_inv s'"
  using assms
proof cases
  case (new_session row)
  with assms(2) show ?thesis by (simp add: new_session_keeps)
next
  case (update_session v row)
  with assms(2) show ?thesis by (simp add: saveSession_keeps)
next
  case (new_run row run)
  with assms(2) show ?thesis using new_run_keeps [of s row run] by simp
next
  case (log_event run row now draft ev)
  from log_event(4) have free: "\<not> event_conflict (draft_row now run draft False) s"
    and s': "s' = saveRun (run\<lparr>r_lastSeq := r_lastSeq run + 1\<rparr>)
      (s\<lparr>events := events s @ [draft_row now run draft False]\<rparr>)"
    by (simp_all add: insertEvent_Inr)
  show ?thesis unfolding s'
    by (rule insert_keeps [OF assms(2) log_event(1,2) free]) (use log_event(3) in simp_all)
next
  case (finish run row t draft now ev)
  from finish(6) have free: "\<not> event_conflict (draft_row now run draft True) s"
    and s': "s' = saveRun (run\<lparr>r_lastSeq := r_lastSeq run + 1\<rparr>)
      (s\<lparr>events := events s @ [draft_row now run draft True]\<rparr>)"
    by (simp_all add: insertEvent_Inr)
  show ?thesis unfolding s'
    by (rule insert_keeps [OF assms(2) finish(1,2) free]) (use finish(3,4,5) in simp_all)
next
  case (new_permission p row)
  with assms(2) show ?thesis by (simp add: new_permission_keeps)
next
  case (update_permission v row)
  with assms(2) show ?thesis by (simp add: savePermission_keeps)
next
  case (new_artifact row)
  with assms(2) show ?thesis by (simp add: new_artifact_keeps)
qed

end
