(* ===== verification/RunStoreOps.thy ===== *)
theory RunStoreOps
  imports RunStoreInv
begin

text \<open>
  Every operation of the store is a sequence of elementary changes, or leaves the store as it was.
  With that \<open>store_step\<close> is a \<open>machine\<close>, and what the changes keep, every sequence of operations
  keeps.
\<close>

section \<open>Committed transactions\<close>

lemma and_then_Inr [simp]:
  "and_then f g s = (Inr b, s') \<longleftrightarrow> (\<exists>a s1. f s = (Inr a, s1) \<and> g a s1 = (Inr b, s'))"
  by (auto simp: and_then_def split: prod.splits sum.splits)

lemma and_then_reading:
  "and_then (reading f) g s = (case f s of Inl e \<Rightarrow> (Inl e, s) | Inr a \<Rightarrow> g a s)"
  by (simp add: and_then_def reading_def)

lemma reading_Inr [simp]: "reading f s = (Inr a, s') \<longleftrightarrow> f s = Inr a \<and> s' = s"
  by (auto simp: reading_def)

lemma throw_Inr [simp]: "throw c n s \<noteq> (Inr a, s')"
  by (simp add: throw_def)

lemma give_Inr [simp]: "give a s = (Inr b, s') \<longleftrightarrow> b = a \<and> s' = s"
  by (auto simp: give_def)

lemma transaction_Inr [simp]: "transaction f s = (Inr a, s') \<longleftrightarrow> f s = (Inr a, s')"
  by (auto simp: transaction_def split: prod.splits sum.splits)

lemma transaction_Inl: "transaction f s = (Inl e, s') \<longleftrightarrow> (\<exists>s1. f s = (Inl e, s1)) \<and> s' = s"
  by (auto simp: transaction_def split: prod.splits sum.splits)

abbreviation store_moves :: "store \<Rightarrow> store \<Rightarrow> bool" where
  "store_moves \<equiv> store_move\<^sup>*\<^sup>*"

lemma committed_moves:
  "op = transaction f \<Longrightarrow> (\<And>a s'. op s = (Inr a, s') \<Longrightarrow> store_moves s s') \<Longrightarrow>
   store_moves s (snd (op s))"
  by (auto simp: transaction_def split: prod.splits sum.splits)

lemma store_moves_inv: "store_moves s s' \<Longrightarrow> store_inv s \<Longrightarrow> store_inv s'"
  by (induction rule: rtranclp_induct) (auto intro: store_move_inv)

section \<open>What a read says of the table\<close>

lemma readRun_Inr:
  "readRun v = Inr run \<longleftrightarrow> run_record_ok v \<and> run = v\<lparr>r_configSnapshot := Some (case r_configSnapshot v of
             Some c \<Rightarrow> c | None \<Rightarrow> JObj [(js ''status'', JStr (js ''unknown''))])\<rparr>"
  by (auto simp: readRun_def)

lemma readSession_Inr:
  "readSession v = Inr x \<longleftrightarrow> session_record_ok v \<and> x = v\<lparr>s_configSnapshot := Some (case s_configSnapshot v of
             Some c \<Rightarrow> c | None \<Rightarrow> JObj [(js ''status'', JStr (js ''unknown''))])\<rparr>"
  by (auto simp: readSession_def)

lemma getRun_row:
  assumes "getRun i s = Inr run" "store_inv s"
  obtains row where "find_run (r_id run) s = Some row" "r_id run = i" "rr_id row = i"
    "readRun (rr_record row) = Inr run" "r_status run = r_status (rr_record row)"
    "\<not> isTerminal (r_status run) \<Longrightarrow> run_kept (rr_record row) run"
proof -
  obtain row where row: "find_run i s = Some row" "readRun (rr_record row) = Inr run"
    using assms(1) by (auto simp: getRun_def split: option.splits)
  then have "row \<in> set (runs s)" "rr_id row = i" using find_Some_set [of _ "runs s" row] by auto
  with inv_run [OF assms(2)] have "i = r_id (rr_record row)" by (auto simp: run_row_ok_def)
  with row \<open>rr_id row = i\<close> show ?thesis
    by (intro that) (auto simp: readRun_Inr run_kept_def)
qed

lemma getSession_row:
  assumes "getSession i s = Inr v" "store_inv s"
  obtains row where "find_session (s_id v) s = Some row" "s_id v = i" "sr_id row = i"
    "readSession (sr_record row) = Inr v"
proof -
  obtain row where row: "find_session i s = Some row" "readSession (sr_record row) = Inr v"
    using assms(1) by (auto simp: getSession_def split: option.splits)
  then have "row \<in> set (sessions s)" "sr_id row = i" using find_Some_set [of _ "sessions s" row] by auto
  with inv_session [OF assms(2)] have "i = s_id (sr_record row)" by (auto simp: session_row_ok_def)
  with row \<open>sr_id row = i\<close> show ?thesis by (intro that) (auto simp: readSession_Inr)
qed

lemma getPermission_row:
  assumes "getPermission i s = Inr v" "store_inv s"
  obtains row where "find_permission (p_id v) s = Some row" "p_id v = i" "pr_id row = i"
    "pr_record row = v" "pr_run row = p_runId v"
proof -
  obtain row where row: "find_permission i s = Some row" "pr_record row = v"
    using assms(1) by (auto simp: getPermission_def decodePermission_def split: option.splits if_splits)
  then have "row \<in> set (permissions s)" "pr_id row = i"
    using find_Some_set [of _ "permissions s" row] by auto
  with inv_permission [OF assms(2)] row have "i = p_id v" "pr_run row = p_runId v"
    by (auto simp: permission_row_ok_def)
  with row \<open>pr_id row = i\<close> show ?thesis by (intro that) auto
qed

section \<open>Operations as moves\<close>

text \<open>An event of a run that has not ended.\<close>

lemma insert_event_move:
  assumes "getRun i s = Inr run" "store_inv s" "\<not> isTerminal (r_status run)"
    "insertEvent now run draft False s = (Inr ev, s')"
  shows "store_move s s'"
proof -
  obtain row where "find_run (r_id run) s = Some row"
    "\<not> isTerminal (r_status run) \<Longrightarrow> run_kept (rr_record row) run"
    using getRun_row [OF assms(1,2)] by metis
  with assms(3,4) show ?thesis by (blast intro: log_event)
qed

text \<open>A change of the run's record that is saved before its event, as one move.\<close>

lemma insertEvent_saved:
  "insertEvent now run d t (saveRun run s) = (Inr ev, s') \<longleftrightarrow> insertEvent now run d t s = (Inr ev, s')"
proof -
  have "event_conflict row (saveRun run s) = event_conflict row s" for row
  proof -
    have ids: "list_ex (\<lambda>r. rr_id r = i) rs \<longleftrightarrow> i \<in> rr_id ` set rs" for i rs
      by (auto simp: list_ex_iff)
    have "list_ex (\<lambda>r. rr_id r = er_run row) (runs (saveRun run s)) =
        list_ex (\<lambda>r. rr_id r = er_run row) (runs s)"
      unfolding ids by simp
    then show ?thesis by (simp add: event_conflict_def)
  qed
  moreover have "saveRun (run\<lparr>r_lastSeq := n\<rparr>) (saveRun run s\<lparr>events := x\<rparr>) =
      saveRun (run\<lparr>r_lastSeq := n\<rparr>) (s\<lparr>events := x\<rparr>)" for n x
    by (simp add: saveRun_def)
  ultimately show ?thesis by (simp add: insertEvent_Inr)
qed

lemma createSession_moves: "store_moves s (snd (createSession digest uuid now engine ws routing s))"
  by (auto simp: createSession_def Let_def session_row_ok_def intro!: r_into_rtranclp new_session)

lemma setSessionStatus_moves:
  assumes inv: "store_inv s"
  shows "store_moves s (snd (setSessionStatus now i status s))"
proof (rule committed_moves [OF setSessionStatus_def])
  fix a s'
  assume eq: "setSessionStatus now i status s = (Inr a, s')"
  then obtain v where v: "getSession i s = Inr v"
    by (auto simp: setSessionStatus_def split: sum.splits)
  obtain row where row: "find_session (s_id v) s = Some row" "readSession (sr_record row) = Inr v"
    using getSession_row [OF v inv] by metis
  show "store_moves s s'"
  proof (cases "s_status v = status")
    case True
    with eq v show ?thesis by (simp add: setSessionStatus_def)
  next
    case False
    with eq v have s': "s' = saveSession (v\<lparr>s_status := status, s_updatedAt := now\<rparr>) s"
      and ok: "\<not> (s_status v = SessionClosed \<or> s_status v = SessionClosing \<and> status = SessionOpen)"
      by (auto simp: setSessionStatus_def Let_def split: if_splits)
    from ok False have "session_order (s_status v) \<le> session_order status"
      by (cases "s_status v"; cases status) auto
    with row have "session_grows (sr_record row) (v\<lparr>s_status := status, s_updatedAt := now\<rparr>)"
      by (auto simp: session_grows_def readSession_Inr)
    with row(1) show ?thesis unfolding s' by (intro r_into_rtranclp update_session) simp_all
  qed
qed

lemma getRun_saveSession [simp]: "getRun i (saveSession v s) = getRun i s"
  "getRun i (savePermission p s) = getRun i s"
  "getRun i (s\<lparr>permissions := x\<rparr>) = getRun i s"
  "getRun i (s\<lparr>artifacts := y\<rparr>) = getRun i s"
  by (simp_all add: getRun_def)

lemma bindBackendSession_moves:
  assumes inv: "store_inv s"
  shows "store_moves s (snd (bindBackendSession now i b ev s))"
proof (rule committed_moves [OF bindBackendSession_def])
  fix a s'
  assume eq: "bindBackendSession now i b ev s = (Inr a, s')"
  then obtain run where run: "getRun i s = Inr run"
    by (auto simp: bindBackendSession_def split: sum.splits)
  show "store_moves s s'"
  proof (cases "isTerminal (r_status run)")
    case True
    with eq run show ?thesis by (simp add: bindBackendSession_def)
  next
    case False
    with eq run obtain v where v: "getSession (r_sessionId run) s = Inr v"
      by (auto simp: bindBackendSession_def split: sum.splits if_splits)
    let ?v = "v\<lparr>s_backendSessionId := Some b, s_updatedAt := now\<rparr>"
    from eq run v False have keep: "s_backendSessionId v \<noteq> None \<longrightarrow> s_backendSessionId v = Some b"
      and s': "s' = s \<or> (\<exists>e. insertEvent now run ev False (saveSession ?v s) = (Inr e, s'))"
      by (auto simp: bindBackendSession_def split: sum.splits if_splits)
    obtain row where row: "find_session (s_id v) s = Some row" "readSession (sr_record row) = Inr v"
      using getSession_row [OF v inv] by metis
    with keep have "session_grows (sr_record row) ?v"
      by (auto simp: session_grows_def readSession_Inr)
    with row(1) have first: "store_move s (saveSession ?v s)"
      by (intro update_session) simp_all
    from s' show ?thesis
    proof
      assume "\<exists>e. insertEvent now run ev False (saveSession ?v s) = (Inr e, s')"
      then obtain e where "insertEvent now run ev False (saveSession ?v s) = (Inr e, s')" ..
      then have "store_move (saveSession ?v s) s'"
        using insert_event_move [OF _ store_move_inv [OF first inv]] run False by simp
      with first show ?thesis by auto
    qed simp
  qed
qed

lemma accept_new_moves:
  assumes inv: "store_inv s"
    and eq: "accept_new digest uuid now session sid input key s = (Inr a, s')"
  shows "store_moves s s'"
proof -
  let ?run = "new_run uuid now sid session input (next_generation sid s)"
  let ?row = "\<lparr>rr_id = r_id ?run, rr_session = r_sessionId ?run, rr_generation = r_generation ?run,
            rr_key = key, rr_hash = inputHash digest (r_input ?run), rr_created = now,
            rr_record = ?run\<rparr>"
  let ?s1 = "s\<lparr>runs := runs s @ [?row]\<rparr>"
  from eq have free: "\<not> run_conflict ?row s"
    by (auto simp: accept_new_def insert_run_def Let_def split: if_splits)
  let ?d = "simple_draft ''RUN_QUEUED''
      [(js ''status'', JStr (js ''queued'')), (js ''generation'', JNum (r_generation ?run)),
       (js ''deadlineAt'', JNum (r_deadlineAt ?run)), (js ''configSnapshotRef'', JStr (r_id ?run))]"
  from eq obtain ev where event: "insertEvent now ?run ?d False ?s1 = (Inr ev, s')"
    by (auto simp: accept_new_def insert_run_def Let_def split: if_splits sum.splits)
  have first: "store_move s ?s1"
    by (rule new_run [where run = ?run, OF free]) (simp_all add: new_run_def)
  have "find_run (r_id ?run) s = None"
    using free by (auto simp: find_None_iff run_conflict_def list_ex_iff)
  then have "find_run (r_id ?run) ?s1 = Some ?row" by (simp add: find_append)
  then have "store_move ?s1 s'"
    by (rule log_event [OF _ _ _ event]) (simp_all add: run_kept_def new_run_def)
  with first show ?thesis by auto
qed

lemma acceptRun_moves:
  assumes inv: "store_inv s"
  shows "store_moves s (snd (acceptRun digest uuid now sid input key s))"
proof (rule committed_moves [OF acceptRun_def])
  fix a s'
  assume "acceptRun digest uuid now sid input key s = (Inr a, s')"
  then show "store_moves s s'"
    by (auto simp: acceptRun_def split: sum.splits option.splits if_splits
        intro: accept_new_moves [OF inv])
qed


lemma setRunStatus_moves:
  assumes inv: "store_inv s"
  shows "store_moves s (snd (setRunStatus now i status s))"
proof (rule committed_moves [OF setRunStatus_def])
  fix a s'
  assume eq: "setRunStatus now i status s = (Inr a, s')"
  then obtain run where run: "getRun i s = Inr run" by (auto simp: setRunStatus_def)
  obtain row where row: "find_run (r_id run) s = Some row"
    "\<not> isTerminal (r_status run) \<Longrightarrow> run_kept (rr_record row) run"
    using getRun_row [OF run inv] by metis
  let ?run = "run\<lparr>r_status := status,
    r_startedAt := (if status = Starting \<and> r_startedAt run = None then Some now
      else r_startedAt run)\<rparr>"
  show "store_moves s s'"
  proof (cases "isTerminal (r_status run) \<or> r_status run = status")
    case True
    with eq run show ?thesis by (auto simp: setRunStatus_def)
  next
    case False
    with eq run obtain d ev where event: "insertEvent now ?run d False (saveRun ?run s) = (Inr ev, s')"
      and open_status: "\<not> isTerminal status"
      by (auto simp: setRunStatus_def Let_def split: if_splits)
    from False row have "run_kept (rr_record row) ?run" by (simp add: run_kept_def)
    with row(1) open_status event show ?thesis
      by (intro r_into_rtranclp log_event [of ?run]) (simp_all add: insertEvent_saved)
  qed
qed

lemma appendEvent_moves:
  assumes inv: "store_inv s"
  shows "store_moves s (snd (appendEvent now i draft s))"
  by (rule committed_moves [OF appendEvent_def])
    (auto simp: appendEvent_def split: if_splits intro: insert_event_move [OF _ inv])

subsection \<open>Permissions\<close>

lemma find_savePermission [row_simps]:
  "find_permission i (savePermission v s) =
     map_option (\<lambda>r. if i = p_id v then r\<lparr>pr_record := v\<rparr> else r) (find_permission i s)"
proof -
  have "find_permission i (savePermission v s) =
      map_option (\<lambda>r. if pr_id r = p_id v then r\<lparr>pr_record := v\<rparr> else r) (find_permission i s)"
    by (simp add: savePermission_def) (rule find_map_same, simp)
  then show ?thesis
    by (cases "find_permission i s") (auto dest: find_Some_set)
qed

lemma expirePermission_moves:
  assumes inv: "store_inv s" and row: "find_permission (p_id p) s = Some row" "pr_record row = p"
    and open_p: "is_open p" and eq: "expirePermission now p s = (Inr a, s')"
  shows "store_moves s s'" "permissions s' = permissions (savePermission (p\<lparr>p_status := Expired\<rparr>) s)"
proof -
  let ?s1 = "savePermission (p\<lparr>p_status := Expired\<rparr>) s"
  have first: "store_move s ?s1"
    by (rule update_permission) (use row open_p in \<open>auto simp: permission_grows_def\<close>)
  obtain run where run: "getRun (p_runId p) ?s1 = Inr run"
    using eq by (auto simp: expirePermission_def Let_def)
  have "store_moves ?s1 s' \<and> permissions s' = permissions ?s1"
  proof (cases "isTerminal (r_status run)")
    case True
    with eq run show ?thesis by (simp add: expirePermission_def Let_def)
  next
    case False
    with eq run obtain d ev where "insertEvent now run d False ?s1 = (Inr ev, s')"
      by (auto simp: expirePermission_def Let_def)
    with insert_event_move [OF run store_move_inv [OF first inv] False this] show ?thesis
      by (auto simp: insertEvent_Inr)
  qed
  with first show "store_moves s s'" "permissions s' = permissions ?s1" by auto
qed

lemma insert_permission_Inr:
  "insert_permission p s = (Inr u, s') \<Longrightarrow>
     s' = s\<lparr>permissions := permissions s @ [\<lparr>pr_id = p_id p, pr_run = p_runId p, pr_record = p\<rparr>]\<rparr>"
  by (auto simp: insert_permission_def Let_def split: if_splits)

lemma insert_artifact_Inr:
  "insert_artifact v s = (Inr u, s') \<Longrightarrow>
     s' = s\<lparr>artifacts := artifacts s @ [\<lparr>ar_id = a_id v, ar_run = a_runId v, ar_record = v\<rparr>]\<rparr>"
  by (auto simp: insert_artifact_def Let_def split: if_splits)

lemma createPermission_moves:
  assumes inv: "store_inv s"
  shows "store_moves s (snd (createPermission now p s))"
proof (rule committed_moves [OF createPermission_def])
  fix a s'
  assume eq: "createPermission now p s = (Inr a, s')"
  let ?s1 = "s\<lparr>permissions := permissions s @ [\<lparr>pr_id = p_id p, pr_run = p_runId p, pr_record = p\<rparr>]\<rparr>"
  from eq obtain run d ev where run: "getRun (p_runId p) s = Inr run"
    and running: "\<not> past_permissions (r_status run)"
    and new: "p_status p = Pending" "p_decision p = None"
      "\<not> list_ex (\<lambda>r. pr_id r = p_id p) (permissions s)"
    and event: "insertEvent now run d False ?s1 = (Inr ev, s')"
    by (auto simp: createPermission_def split: if_splits dest!: insert_permission_Inr)
  from running have open_run: "\<not> isTerminal (r_status run)" by (simp add: past_permissions_def)
  obtain row where "find_run (p_runId p) s = Some row" "r_status run = r_status (rr_record row)"
    using getRun_row [OF run inv] by metis
  then have first: "store_move s ?s1"
    using new open_run by (intro new_permission) simp_all
  have "store_move ?s1 s'"
    by (rule insert_event_move [of "p_runId p", OF _ store_move_inv [OF first inv] open_run event])
      (simp add: run)
  with first show "store_moves s s'" by auto
qed

lemma decidePermission_moves:
  assumes inv: "store_inv s"
  shows "store_moves s (snd (decidePermission now i opt s))"
proof -
  have "store_moves s (snd (transaction (decide_body now i opt) s))"
  proof (rule committed_moves [OF refl])
    fix a s'
    assume "transaction (decide_body now i opt) s = (Inr a, s')"
    then have eq: "decide_body now i opt s = (Inr a, s')" by simp
    then obtain p where p: "getPermission i s = Inr p" by (auto simp: decide_body_def)
    obtain row where row: "find_permission (p_id p) s = Some row" "pr_record row = p"
      using getPermission_row [OF p inv] by metis
    from eq p obtain run where run: "getRun (p_runId p) s = Inr run"
      by (auto simp: decide_body_def)
    show "store_moves s s'"
    proof (cases "p_status p = Expired \<or> p_expiresAt p \<le> now \<or> past_permissions (r_status run)")
      case True
      with eq p run have "s' = s \<or> is_open p \<and> (\<exists>x. expirePermission now p s = (Inr x, s'))"
        by (auto simp: decide_body_def split: if_splits)
      then show ?thesis using expirePermission_moves(1) [OF inv row] by auto
    next
      case False
      let ?p = "p\<lparr>p_status := Decided, p_decision := Some opt\<rparr>"
      from False eq p run have "s' = s \<or> (p_status p = Pending \<and> opt \<in> po_id ` set (p_options p) \<and>
          (\<exists>d ev. insertEvent now run d False (savePermission ?p s) = (Inr ev, s')))"
        by (cases "p_status p") (auto simp: decide_body_def list_ex_iff Let_def split: if_splits)
      then show ?thesis
      proof
        assume *: "p_status p = Pending \<and> opt \<in> po_id ` set (p_options p) \<and>
          (\<exists>d ev. insertEvent now run d False (savePermission ?p s) = (Inr ev, s'))"
        then obtain d ev where event: "insertEvent now run d False (savePermission ?p s) = (Inr ev, s')"
          by blast
        have first: "store_move s (savePermission ?p s)"
          by (rule update_permission) (use row * in \<open>auto simp: permission_grows_def\<close>)
        have "\<not> isTerminal (r_status run)" using False by (simp add: past_permissions_def)
        then have "store_move (savePermission ?p s) s'"
          by (intro insert_event_move [of "p_runId p", OF _ store_move_inv [OF first inv] _ event])
          (simp_all add: run)
        with first show ?thesis by auto
      qed simp
    qed
  qed
  moreover have "snd (decidePermission now i opt s) = snd (transaction (decide_body now i opt) s)"
    by (simp add: decidePermission_def split: prod.splits sum.splits)
  ultimately show ?thesis by simp
qed


lemma markPermissionApplied_moves:
  assumes inv: "store_inv s"
  shows "store_moves s (snd (markPermissionApplied now i s))"
proof (rule committed_moves [OF markPermissionApplied_def])
  fix a s'
  assume eq: "markPermissionApplied now i s = (Inr a, s')"
  then obtain p where p: "getPermission i s = Inr p" by (auto simp: markPermissionApplied_def)
  obtain row where row: "find_permission (p_id p) s = Some row" "pr_record row = p"
    using getPermission_row [OF p inv] by metis
  let ?p = "p\<lparr>p_status := Applied\<rparr>"
  show "store_moves s s'"
  proof (cases "p_status p = Applied")
    case True
    with eq p show ?thesis by (simp add: markPermissionApplied_def)
  next
    case False
    with eq p obtain run d ev where run: "getRun (p_runId p) s = Inr run"
      and decided: "p_status p = Decided" and open_run: "\<not> isTerminal (r_status run)"
      and event: "insertEvent now run d False (savePermission ?p s) = (Inr ev, s')"
      by (auto simp: markPermissionApplied_def Let_def split: if_splits option.splits)
    have first: "store_move s (savePermission ?p s)"
      by (rule update_permission) (use row decided in \<open>auto simp: permission_grows_def\<close>)
    have "store_move (savePermission ?p s) s'"
      by (rule insert_event_move [of "p_runId p", OF _ store_move_inv [OF first inv] open_run event])
        (simp add: run)
    with first show ?thesis by auto
  qed
qed

lemma registerArtifact_moves:
  assumes inv: "store_inv s"
  shows "store_moves s (snd (registerArtifact now v s))"
proof (rule committed_moves [OF registerArtifact_def])
  fix a s'
  assume eq: "registerArtifact now v s = (Inr a, s')"
  let ?s1 = "s\<lparr>artifacts := artifacts s @ [\<lparr>ar_id = a_id v, ar_run = a_runId v, ar_record = v\<rparr>]\<rparr>"
  from eq obtain run d ev where run: "getRun (a_runId v) s = Inr run"
    and open_run: "\<not> isTerminal (r_status run)"
    and fresh: "\<not> list_ex (\<lambda>r. ar_id r = a_id v) (artifacts s)"
    and event: "insertEvent now run d False ?s1 = (Inr ev, s')"
    by (auto simp: registerArtifact_def split: if_splits dest!: insert_artifact_Inr)
  have first: "store_move s ?s1" by (rule new_artifact) (simp add: fresh)
  have "store_move ?s1 s'"
    by (rule insert_event_move [of "a_runId v", OF _ store_move_inv [OF first inv] open_run event])
      (simp add: run)
  with first show "store_moves s s'" by auto
qed

subsection \<open>The terminal outcome\<close>

text \<open>Expiring the open permissions of a list: the list's rows are current, each once.\<close>

lemma expire_open_moves:
  assumes "store_inv s" "distinct (map p_id ps)"
    and "\<And>p. p \<in> set ps \<Longrightarrow> \<exists>row. find_permission (p_id p) s = Some row \<and> pr_record row = p"
    and "expire_open now ps s = (Inr u, s')"
  shows "store_moves s s' \<and> (\<forall>r \<in> set (permissions s'). \<not> is_open (pr_record r) \<or>
    (r \<in> set (permissions s) \<and> (\<forall>p \<in> set ps. is_open p \<longrightarrow> p_id p \<noteq> pr_id r)))"
  using assms
proof (induction ps arbitrary: s)
  case Nil
  then show ?case by simp
next
  case (Cons p ps)
  show ?case
  proof (cases "is_open p")
    case False
    with Cons.prems have "expire_open now ps s = (Inr u, s')" by simp
    with Cons.IH [of s] Cons.prems False show ?thesis by auto
  next
    case True
    then obtain a s1 where first: "expirePermission now p s = (Inr a, s1)"
      and rest: "expire_open now ps s1 = (Inr u, s')"
      using Cons.prems(4) by auto
    obtain row where row: "find_permission (p_id p) s = Some row" "pr_record row = p"
      using Cons.prems(3) [of p] by auto
    note moved = expirePermission_moves [OF Cons.prems(1) row True first]
    have "\<exists>row. find_permission (p_id q) s1 = Some row \<and> pr_record row = q" if "q \<in> set ps" for q
    proof -
      have "p_id q \<noteq> p_id p" using Cons.prems(2) that by (auto simp: image_iff)
      with Cons.prems(3) [of q] that show ?thesis
        by (auto simp: moved(2) find_savePermission)
    qed
    with Cons.IH [of s1] Cons.prems(2) rest store_moves_inv [OF moved(1) Cons.prems(1)]
    have "store_moves s1 s'" and last: "\<forall>r \<in> set (permissions s'). \<not> is_open (pr_record r) \<or>
      (r \<in> set (permissions s1) \<and> (\<forall>p \<in> set ps. is_open p \<longrightarrow> p_id p \<noteq> pr_id r))" by auto
    moreover have "r \<in> set (permissions s) \<and> pr_id r \<noteq> p_id p \<or> \<not> is_open (pr_record r)"
      if "r \<in> set (permissions s1)" for r
      using that by (auto simp: moved(2) savePermission_def is_open_def)
    ultimately show ?thesis using moved(1) by (metis rtranclp_trans set_ConsD)
  qed
qed

text \<open>The schema refuses a second terminal event.\<close>

lemma terminal_once:
  assumes inv: "store_inv s" and row: "find_run i s = Some row"
    and ended: "r_status (rr_record row) = Ended t" and e: "er_run e = i" "er_terminal e"
  shows "event_conflict e s"
proof -
  have "row \<in> set (runs s)" "rr_id row = i" using find_Some_set [OF row] by auto
  with run_row_log [OF inv_run [OF inv, of row]] have "log_ok (rr_record row) (run_events i s)"
    by simp
  with ended have "run_events i s \<noteq> []" "er_terminal (last (run_events i s))"
    by (simp_all add: log_ok_def)
  then have "last (run_events i s) \<in> set (run_events i s)" by simp
  then have "last (run_events i s) \<in> set (events s)" "er_run (last (run_events i s)) = i"
    by (auto simp: run_events_def)
  with \<open>er_terminal (last (run_events i s))\<close> e show ?thesis
    by (auto simp: event_conflict_def list_ex_iff)
qed

lemma map_result_Inr:
  "map_result f xs = Inr ys \<Longrightarrow> (\<And>x y. f x = Inr y \<Longrightarrow> y = g x) \<Longrightarrow> ys = map g xs"
  by (induction xs arbitrary: ys) (auto split: sum.splits)

lemma listPermissions_rows:
  assumes "listPermissions i s = Inr ps"
  shows "ps = map pr_record (filter (\<lambda>r. pr_run r = i) (permissions s))"
  using assms
  by (auto simp: listPermissions_def decodePermission_def split: sum.splits if_splits
      intro: map_result_Inr)

lemma finishRun_moves:
  assumes inv: "store_inv s"
  shows "store_moves s (snd (finishRun now i input s))"
proof (rule committed_moves [OF finishRun_def])
  fix a s'
  assume eq: "finishRun now i input s = (Inr a, s')"
  then obtain run where run: "getRun i s = Inr run" by (auto simp: finishRun_def)
  show "store_moves s s'"
  proof (cases "isTerminal (r_status run)")
    case True
    with eq run show ?thesis by (simp add: finishRun_def)
  next
    case False
    with eq run obtain ps u s1 again ev where ps: "listPermissions i s = Inr ps"
      and expired: "expire_open now ps s = (Inr u, s1)" and again: "getRun i s1 = Inr again"
      and event: "insertEvent now (finished_run now input again) (finish_draft input) True
        (saveRun (finished_run now input again) s1) = (Inr ev, s')"
      by (auto simp: finishRun_def Let_def)
    let ?run = "finished_run now input again"
    note rows = listPermissions_rows [OF ps]
    have all: "\<exists>row. find_permission (p_id p) s = Some row \<and> pr_record row = p" if p: "p \<in> set ps" for p
    proof -
      from p rows obtain r where r: "r \<in> set (permissions s)" "pr_record r = p" by auto
      with inv_permission [OF inv] have "pr_id r = p_id p" by (auto simp: permission_row_ok_def)
      with r distinct_row [of pr_id "permissions s" r] inv show ?thesis
        by (auto simp: store_inv_def)
    qed
    have "map p_id ps = map pr_id (filter (\<lambda>r. pr_run r = i) (permissions s))"
      using inv_permission [OF inv] by (simp add: rows permission_row_ok_def)
    then have "distinct (map p_id ps)"
      using inv by (simp add: store_inv_def distinct_map_filter)
    with expire_open_moves [OF inv _ all expired]
    have moved: "store_moves s s1" and closed: "\<forall>r \<in> set (permissions s1). \<not> is_open (pr_record r) \<or>
      (r \<in> set (permissions s) \<and> (\<forall>p \<in> set ps. is_open p \<longrightarrow> p_id p \<noteq> pr_id r))" by auto
    have "\<not> is_open (pr_record r)" if r: "r \<in> set (permissions s1)" "pr_run r = i" for r
    proof
      assume *: "is_open (pr_record r)"
      with closed r have "r \<in> set (permissions s)"
        and away: "\<forall>p \<in> set ps. is_open p \<longrightarrow> p_id p \<noteq> pr_id r" by auto
      with rows r have "pr_record r \<in> set ps" by auto
      with away * have "p_id (pr_record r) \<noteq> pr_id r" by blast
      with inv_permission [OF inv \<open>r \<in> set (permissions s)\<close>] show False
        by (simp add: permission_row_ok_def)
    qed
    moreover obtain row where row: "find_run (r_id again) s1 = Some row" "r_id again = i"
      "r_status again = r_status (rr_record row)"
      "\<not> isTerminal (r_status again) \<Longrightarrow> run_kept (rr_record row) again"
      using getRun_row [OF again store_moves_inv [OF moved inv]] by metis
    moreover have "\<not> isTerminal (r_status again)"
      using terminal_once [OF store_moves_inv [OF moved inv] row(1), of _
          "draft_row now ?run (finish_draft input) True"] row(3) event
      unfolding insertEvent_saved by (auto simp: insertEvent_Inr finished_run_def isTerminal_iff)
    ultimately have "store_move s1 s'"
      using event
      by (intro finish [of ?run s1 row "f_status input" "finish_draft input"])
        (auto simp: insertEvent_saved finished_run_def run_kept_def finish_draft_def list_all_iff)
    with moved show ?thesis by auto
  qed
qed


section \<open>The store as a machine\<close>

lemma snd_valued [simp]: "snd (valued f r) = snd r"
  by (simp add: valued_def)

lemma store_step_moves: "store_inv s \<Longrightarrow> store_moves s (snd (store_step digest x s))"
  by (cases x)
    (simp_all add: createSession_moves setSessionStatus_moves bindBackendSession_moves
      acceptRun_moves setRunStatus_moves appendEvent_moves finishRun_moves createPermission_moves
      decidePermission_moves markPermissionApplied_moves registerArtifact_moves)

interpretation st: machine "store_step digest" store_move store_inv for digest
  by unfold_locales (auto intro: store_move_inv store_step_moves)

end
