(* ===== verification/RunStoreLife.thy ===== *)
theory RunStoreLife
  imports RunStoreOps
begin

text \<open>
  What rows of the store become over time: a session only goes forward, a permission goes through
  its life once, a Run keeps its identity, its log only grows, and once it has ended neither the
  record nor the log changes. Each is a reflexive and transitive relation that every elementary
  change is in, so it holds across every sequence of operations.
\<close>

section \<open>Relations between two states\<close>

definition sessions_later :: "store \<Rightarrow> store \<Rightarrow> bool" where
  "sessions_later s s' \<longleftrightarrow>
     (\<forall>i row. find_session i s = Some row \<longrightarrow>
        (\<exists>row'. find_session i s' = Some row' \<and> session_grows (sr_record row) (sr_record row')))"

fun permission_rank :: "permission_status \<Rightarrow> nat" where
  "permission_rank Pending = 0"
| "permission_rank Decided = 1"
| "permission_rank Applied = 2"
| "permission_rank Expired = 3"

definition permission_later :: "permission_record \<Rightarrow> permission_record \<Rightarrow> bool" where
  "permission_later p p' \<longleftrightarrow>
     p_id p' = p_id p \<and> p_runId p' = p_runId p \<and> p_options p' = p_options p \<and>
     permission_rank (p_status p) \<le> permission_rank (p_status p') \<and>
     (p_decision p \<noteq> None \<longrightarrow> p_decision p' = p_decision p) \<and>
     (p_status p = Applied \<or> p_status p = Expired \<longrightarrow> p' = p)"

definition permissions_later :: "store \<Rightarrow> store \<Rightarrow> bool" where
  "permissions_later s s' \<longleftrightarrow>
     (\<forall>i row. find_permission i s = Some row \<longrightarrow>
        (\<exists>row'. find_permission i s' = Some row' \<and>
           permission_later (pr_record row) (pr_record row')))"

definition run_later :: "run_row \<Rightarrow> run_row \<Rightarrow> bool" where
  "run_later row row' \<longleftrightarrow>
     rr_id row' = rr_id row \<and> rr_session row' = rr_session row \<and>
     rr_generation row' = rr_generation row \<and> rr_key row' = rr_key row \<and>
     rr_hash row' = rr_hash row \<and> (isTerminal (r_status (rr_record row)) \<longrightarrow> row' = row)"

definition runs_later :: "store \<Rightarrow> store \<Rightarrow> bool" where
  "runs_later s s' \<longleftrightarrow>
     (\<forall>i row. find_run i s = Some row \<longrightarrow>
        (\<exists>row'. find_run i s' = Some row' \<and> run_later row row')) \<and>
     (\<forall>i. \<exists>more. run_events i s' = run_events i s @ more \<and>
        ((\<exists>row. find_run i s = Some row \<and> isTerminal (r_status (rr_record row))) \<longrightarrow> more = []))"

section \<open>Every elementary change is in them\<close>

lemma find_saveSession [row_simps]:
  "find_session i (saveSession v s) =
     map_option (\<lambda>r. if i = s_id v then r\<lparr>sr_record := v\<rparr> else r) (find_session i s)"
proof -
  have "find_session i (saveSession v s) =
      map_option (\<lambda>r. if sr_id r = s_id v then r\<lparr>sr_record := v\<rparr> else r) (find_session i s)"
    by (simp add: saveSession_def) (rule find_map_same, simp)
  then show ?thesis
    by (cases "find_session i s") (auto dest: find_Some_set)
qed

lemma session_grows_refl [simp]: "session_grows v v"
  by (simp add: session_grows_def)

lemma permission_later_refl [simp]: "permission_later p p"
  by (simp add: permission_later_def)

lemma run_later_refl [simp]: "run_later row row"
  by (simp add: run_later_def)

lemma later_refl [simp]: "sessions_later s s" "permissions_later s s" "runs_later s s"
  by (auto simp: sessions_later_def permissions_later_def runs_later_def)

lemma sessions_later_trans: "sessions_later s t \<Longrightarrow> sessions_later t u \<Longrightarrow> sessions_later s u"
  unfolding sessions_later_def by (meson session_grows_trans)

lemma permission_later_trans:
  "permission_later p q \<Longrightarrow> permission_later q r \<Longrightarrow> permission_later p r"
  by (auto simp: permission_later_def)

lemma permissions_later_trans:
  "permissions_later s t \<Longrightarrow> permissions_later t u \<Longrightarrow> permissions_later s u"
  unfolding permissions_later_def by (meson permission_later_trans)

lemma run_later_trans: "run_later a b \<Longrightarrow> run_later b c \<Longrightarrow> run_later a c"
  by (auto simp: run_later_def)

lemma runs_laterD:
  assumes "runs_later s t"
  shows "find_run i s = Some row \<Longrightarrow> \<exists>row'. find_run i t = Some row' \<and> run_later row row'"
    and "\<exists>more. run_events i t = run_events i s @ more \<and>
      ((\<exists>row. find_run i s = Some row \<and> isTerminal (r_status (rr_record row))) \<longrightarrow> more = [])"
  using assms unfolding runs_later_def by blast+

lemma runs_later_trans:
  assumes st: "runs_later s t" and tu: "runs_later t u"
  shows "runs_later s u"
  unfolding runs_later_def
proof (intro conjI allI impI)
  fix i row
  assume "find_run i s = Some row"
  then obtain r1 where "find_run i t = Some r1" "run_later row r1"
    using runs_laterD(1) [OF st] by blast
  moreover from this obtain r2 where "find_run i u = Some r2" "run_later r1 r2"
    using runs_laterD(1) [OF tu] by blast
  ultimately show "\<exists>row'. find_run i u = Some row' \<and> run_later row row'"
    by (blast intro: run_later_trans)
next
  fix i
  obtain m1 where m1: "run_events i t = run_events i s @ m1"
    "(\<exists>row. find_run i s = Some row \<and> isTerminal (r_status (rr_record row))) \<longrightarrow> m1 = []"
    using runs_laterD(2) [OF st] by blast
  obtain m2 where m2: "run_events i u = run_events i t @ m2"
    "(\<exists>row. find_run i t = Some row \<and> isTerminal (r_status (rr_record row))) \<longrightarrow> m2 = []"
    using runs_laterD(2) [OF tu] by blast
  have "(\<exists>row. find_run i t = Some row \<and> isTerminal (r_status (rr_record row)))"
    if "\<exists>row. find_run i s = Some row \<and> isTerminal (r_status (rr_record row))"
    using that runs_laterD(1) [OF st] unfolding run_later_def by metis
  with m1 m2 show "\<exists>more. run_events i u = run_events i s @ more \<and>
      ((\<exists>row. find_run i s = Some row \<and> isTerminal (r_status (rr_record row))) \<longrightarrow> more = [])"
    by (intro exI [of _ "m1 @ m2"]) simp
qed

lemma sessions_later_same: "sessions s' = sessions s \<Longrightarrow> sessions_later s s'"
  by (simp add: sessions_later_def)

lemma permissions_later_same: "permissions s' = permissions s \<Longrightarrow> permissions_later s s'"
  by (simp add: permissions_later_def)

lemma runs_later_same: "runs s' = runs s \<Longrightarrow> events s' = events s \<Longrightarrow> runs_later s s'"
  by (simp add: runs_later_def run_events_def)

lemma permission_grows_later: "permission_grows p p' \<Longrightarrow> p_decision p = None \<or> p_status p \<noteq> Pending \<Longrightarrow> permission_later p p'"
  by (auto simp: permission_grows_def permission_later_def is_open_def)

text \<open>Logging an event of a run that has not ended, with its new record.\<close>

lemma insert_event_later:
  assumes "find_run (r_id run) s = Some row" "run_kept (rr_record row) run"
    "insertEvent now run d t s = (Inr ev, s')"
  shows "runs_later s s'" "sessions_later s s'" "permissions_later s s'"
proof -
  from assms(3) have s': "s' = saveRun (run\<lparr>r_lastSeq := r_lastSeq run + 1\<rparr>)
      (s\<lparr>events := events s @ [draft_row now run d t]\<rparr>)"
    by (simp add: insertEvent_Inr)
  have open_run: "\<not> isTerminal (r_status (rr_record row))"
    using assms(2) by (simp add: run_kept_def)
  show "sessions_later s s'" "permissions_later s s'"
    by (simp_all add: s' sessions_later_same permissions_later_same)
  show "runs_later s s'"
    unfolding runs_later_def
  proof (intro conjI allI impI)
    fix i r
    assume "find_run i s = Some r"
    with assms(1) open_run show "\<exists>row'. find_run i s' = Some row' \<and> run_later r row'"
      by (auto simp: s' find_saveRun run_later_def)
  next
    fix i
    show "\<exists>more. run_events i s' = run_events i s @ more \<and>
      ((\<exists>row. find_run i s = Some row \<and> isTerminal (r_status (rr_record row))) \<longrightarrow> more = [])"
      using assms(1) open_run by (auto simp: s')
  qed
qed


lemma store_move_later:
  assumes inv: "store_inv s" and move: "store_move s s'"
  shows "sessions_later s s' \<and> permissions_later s s' \<and> runs_later s s'"
  using move
proof cases
  case (new_session row)
  then show ?thesis
    by (auto simp: sessions_later_def find_append permissions_later_same runs_later_same)
next
  case (update_session v row)
  have "sessions_later s s'"
    unfolding sessions_later_def
  proof (intro allI impI)
    fix i r
    assume "find_session i s = Some r"
    with update_session show "\<exists>row'. find_session i s' = Some row' \<and>
        session_grows (sr_record r) (sr_record row')"
      by (auto simp: find_saveSession)
  qed
  with update_session show ?thesis by (simp add: permissions_later_same runs_later_same)
next
  case (new_run row run)
  have "runs_later s s'"
    unfolding runs_later_def by (auto simp: new_run find_append)
  with new_run show ?thesis by (simp add: permissions_later_same sessions_later_same)
next
  case (log_event run row now draft ev)
  show ?thesis using insert_event_later [OF log_event(1,2,4)] by simp
next
  case (finish run row t draft now ev)
  show ?thesis using insert_event_later [OF finish(1,2,6)] by simp
next
  case (new_permission p row)
  then show ?thesis
    by (auto simp: permissions_later_def find_append sessions_later_same runs_later_same)
next
  case (update_permission v row)
  have "row \<in> set (permissions s)" using update_permission by (blast dest: find_Some_set)
  from inv_permission [OF inv this]
  have "p_decision (pr_record row) = None \<or> p_status (pr_record row) \<noteq> Pending"
    unfolding permission_row_ok_def by blast
  with update_permission have later: "permission_later (pr_record row) v"
    by (simp add: permission_grows_later)
  have "permissions_later s s'"
    unfolding permissions_later_def
  proof (intro allI impI)
    fix i r
    assume "find_permission i s = Some r"
    with update_permission later show "\<exists>row'. find_permission i s' = Some row' \<and>
        permission_later (pr_record r) (pr_record row')"
      by (auto simp: find_savePermission)
  qed
  with update_permission show ?thesis by (simp add: sessions_later_same runs_later_same)
next
  case (new_artifact row)
  then show ?thesis by (simp add: sessions_later_same permissions_later_same runs_later_same)
qed

lemma store_runs_later:
  assumes "store_inv s"
  shows "sessions_later s (run_ops (store_step digest) xs s)"
    "permissions_later s (run_ops (store_step digest) xs s)"
    "runs_later s (run_ops (store_step digest) xs s)"
proof -
  show "sessions_later s (run_ops (store_step digest) xs s)"
    by (rule st.run_related [where R = sessions_later])
      (auto intro: sessions_later_trans assms dest: store_move_later)
  show "permissions_later s (run_ops (store_step digest) xs s)"
    by (rule st.run_related [where R = permissions_later])
      (auto intro: permissions_later_trans assms dest: store_move_later)
  show "runs_later s (run_ops (store_step digest) xs s)"
    by (rule st.run_related [where R = runs_later])
      (auto intro: runs_later_trans assms dest: store_move_later)
qed

end
