(* ===== verification/RunStoreErrors.thy ===== *)
theory RunStoreErrors
  imports RunStoreLife
begin

text \<open>
  Which errors an operation can give: in a store that satisfies the invariant no constraint of the
  schema is ever violated, except by an identifier that \<open>randomUUID\<close> gave before.
\<close>

lemma sort_key_sorted: "sorted (map f xs) \<Longrightarrow> sort_key f xs = xs"
  by (induction xs) (auto simp: insort_is_Cons)

section \<open>The next event of a running run is free\<close>

lemma run_events_in: "e \<in> set (events s) \<Longrightarrow> er_run e = i \<Longrightarrow> e \<in> set (run_events i s)"
  by (simp add: run_events_def)

lemma run_log:
  assumes "store_inv s" "find_run i s = Some row"
  shows "log_ok (rr_record row) (run_events i s)"
  using run_row_log [OF inv_run [OF assms(1)]] find_Some_set [OF assms(2)] by blast

lemma event_free:
  assumes inv: "store_inv s" and row: "find_run (r_id run) s = Some row"
    and kept: "run_kept (rr_record row) run" and unseen: "\<not> source_seen (r_id run) (d_sourceSeq d) s"
  shows "\<not> event_conflict (draft_row now run d t) s"
proof -
  let ?e = "draft_row now run d t" and ?evs = "run_events (r_id run) s"
  have log: "log_ok (rr_record row) ?evs" by (rule run_log [OF inv row])
  with kept have last: "r_lastSeq run = int (length ?evs)"
    and seqs: "map er_seq ?evs = map int [1..<Suc (length ?evs)]"
    by (auto simp: log_ok_def run_kept_def simp del: upt_Suc)
  from log kept have none: "list_all (\<lambda>e. \<not> er_terminal e) ?evs"
    by (cases "r_status (rr_record row)") (auto simp: log_ok_def run_kept_def)
  have below: "er_seq e \<le> r_lastSeq run" if "e \<in> set (events s)" "er_run e = r_id run" for e
  proof -
    from that have "er_seq e \<in> set (map er_seq ?evs)" by (simp add: run_events_in)
    then show ?thesis unfolding seqs using last by auto
  qed
  have pos: "r_lastSeq run + 1 > 0" using last by simp
  have "er_event_id e \<noteq> er_event_id ?e" if e: "e \<in> set (events s)" for e
  proof
    assume same: "er_event_id e = er_event_id ?e"
    have "er_event_id e = eventId (er_run e) (er_seq e)" "er_seq e > 0"
      using inv_event [OF inv e] unfolding event_ok_def by blast+
    with same pos have "er_run e = r_id run \<and> er_seq e = r_lastSeq run + 1"
      by (intro eventId_inj) simp_all
    with below [OF e] show False by simp
  qed
  moreover have "list_ex (\<lambda>r. rr_id r = r_id run) (runs s)"
    using find_Some_set [OF row] by (auto simp: list_ex_iff)
  moreover have "er_seq e \<noteq> r_lastSeq run + 1" if "e \<in> set (events s)" "er_run e = r_id run" for e
    using below [OF that] by simp
  moreover have "\<not> er_terminal e" if "e \<in> set (events s)" "er_run e = r_id run" for e
    using none run_events_in [OF that] by (simp add: list_all_iff)
  ultimately show ?thesis
    using unseen pos by (auto simp: event_conflict_def source_seen_def list_ex_iff)
qed

lemma source_seen_None [simp]: "\<not> source_seen i None s"
  by (simp add: source_seen_def)

section \<open>Operations fail with an error of their own\<close>

definition clean :: "'a result \<times> store \<Rightarrow> bool" where
  "clean r \<longleftrightarrow> fst r \<noteq> Inl SqliteConstraint"

lemma clean_and_then:
  "clean (f s) \<Longrightarrow> (\<And>a s1. f s = (Inr a, s1) \<Longrightarrow> clean (g a s1)) \<Longrightarrow> clean (and_then f g s)"
  by (auto simp: and_then_def clean_def split: prod.splits sum.splits)

lemma clean_reading: "f s \<noteq> Inl SqliteConstraint \<Longrightarrow> clean (reading f s)"
  by (simp add: reading_def clean_def)

lemma clean_steps [simp]:
  "clean (throw c n s)" "clean (give a s)" "clean (transaction f s) = clean (f s)"
  "clean (Inr a, s)"
  by (auto simp: clean_def throw_def give_def transaction_def split: prod.splits sum.splits)

lemma clean_reads [simp]:
  "readRun v \<noteq> Inl SqliteConstraint" "readSession w \<noteq> Inl SqliteConstraint"
  "getRun i s \<noteq> Inl SqliteConstraint" "getSession i s \<noteq> Inl SqliteConstraint"
  "getPermission i s \<noteq> Inl SqliteConstraint"
  by (auto simp: readRun_def readSession_def getRun_def getSession_def getPermission_def
      decodePermission_def split: option.splits)

lemma map_result_clean:
  "(\<And>x. f x \<noteq> Inl SqliteConstraint) \<Longrightarrow> map_result f xs \<noteq> Inl SqliteConstraint"
  by (induction xs) (auto split: sum.splits)

lemma clean_list [simp]: "listPermissions i s \<noteq> Inl SqliteConstraint"
proof -
  have "map_result (\<lambda>r. decodePermission (pr_record r)) rows \<noteq> Inl SqliteConstraint" for rows
    by (rule map_result_clean) (simp add: decodePermission_def)
  then show ?thesis using clean_reads(3) [of i s] by (auto simp: listPermissions_def split: sum.splits)
qed

text \<open>Inserting the next event of a run that was just read.\<close>

lemma clean_insert:
  assumes "store_inv s" "find_run (r_id run) s = Some row" "run_kept (rr_record row) run"
    and "\<not> source_seen (r_id run) (d_sourceSeq d) s"
  shows "clean (insertEvent now run d t s)"
  using event_free [OF assms] by (simp add: insertEvent_def Let_def clean_def)

lemma clean_insert_read:
  assumes "store_inv s" "getRun i s = Inr run" "\<not> isTerminal (r_status run)"
    and "\<not> source_seen (r_id run) (d_sourceSeq d) s"
  shows "clean (insertEvent now run d t s)"
  using getRun_row [OF assms(2,1)] assms(3) clean_insert [OF assms(1) _ _ assms(4)] by metis

lemma clean_insert_saved:
  assumes "store_inv s" "find_run (r_id run) s = Some row" "run_kept (rr_record row) run"
    and "d_sourceSeq d = None"
  shows "clean (insertEvent now run d t (saveRun run s))"
proof -
  have "clean (insertEvent now run d t s)" using clean_insert [OF assms(1-3)] assms(4) by simp
  then obtain ev s' where "insertEvent now run d t s = (Inr ev, s')"
    by (auto simp: insertEvent_def Let_def clean_def split: if_splits)
  then have "insertEvent now run d t (saveRun run s) = (Inr ev, s')" by (simp add: insertEvent_saved)
  then show ?thesis by simp
qed


lemma clean_setSessionStatus: "clean (setSessionStatus now i status s)"
  by (auto simp: setSessionStatus_def Let_def intro!: clean_and_then clean_reading)

lemma run_kept_trans: "run_kept a b \<Longrightarrow> run_kept b c \<Longrightarrow> run_kept a c"
  by (simp add: run_kept_def)

lemma clean_insert_changed:
  assumes inv: "store_inv s" and run: "getRun i s = Inr run" "run_kept run run'"
    and d: "d_sourceSeq d = None"
  shows "clean (insertEvent now run' d t (saveRun run' s))"
proof -
  have "\<not> isTerminal (r_status run)" using run(2) by (simp add: run_kept_def)
  then obtain row where "find_run (r_id run) s = Some row" "run_kept (rr_record row) run"
    using getRun_row [OF run(1) inv] by metis
  moreover have "r_id run' = r_id run" using run(2) by (simp add: run_kept_def)
  ultimately show ?thesis
    using clean_insert_saved [OF inv, of run' row d] run_kept_trans [OF _ run(2)] d by simp
qed

text \<open>An operation that starts by reading its run, or its permission.\<close>

lemma clean_from_read:
  assumes "f s \<noteq> Inl SqliteConstraint" "\<And>a. f s = Inr a \<Longrightarrow> clean (g a s)"
  shows "clean (and_then (reading f) g s)"
  using assms by (intro clean_and_then clean_reading) auto

lemma clean_from_insert:
  assumes "clean (insertEvent now run d t s)" "\<And>a s1. clean (g a s1)"
  shows "clean (and_then (insertEvent now run d t) g s)"
  using assms by (intro clean_and_then)

lemma clean_setRunStatus:
  assumes inv: "store_inv s"
  shows "clean (setRunStatus now i status s)"
  unfolding setRunStatus_def clean_steps Let_def
  apply (rule clean_from_read, simp)
  subgoal premises run for run
  proof -
    have "clean (insertEvent now run' (simple_draft ty data) False (saveRun run' s))"
      if "run_kept run run'" for run' ty data
      by (rule clean_insert_changed [OF inv run that]) simp
    note insert = clean_from_insert [OF this]
    show ?thesis
      by (simp only: if_distrib [where f = "\<lambda>h. clean (h s)"] clean_steps if_True if_False)
        (simp add: insert run_kept_def clean_reading)
  qed
  done

lemma clean_appendEvent:
  assumes inv: "store_inv s"
  shows "clean (appendEvent now i draft s)"
  unfolding appendEvent_def clean_steps
  apply (rule clean_from_read, simp)
  subgoal premises run for run
  proof -
    have "clean (insertEvent now run draft False s)"
      if "\<not> isTerminal (r_status run)" "\<not> source_seen i (d_sourceSeq draft) s"
      using clean_insert_read [OF inv run that(1)] that(2) getRun_row [OF run inv] by metis
    note insert = clean_from_insert [OF this]
    show ?thesis by (simp add: insert)
  qed
  done

lemma clean_bindBackendSession:
  assumes inv: "store_inv s"
  shows "clean (bindBackendSession now i b ev s)"
proof -
  have insert: "clean (insertEvent now run ev False (saveSession v s))"
    if run: "getRun i s = Inr run" "\<not> isTerminal (r_status run)" "\<not> source_seen i (d_sourceSeq ev) s"
    for run v
  proof (rule clean_insert_read [OF saveSession_keeps [OF inv]])
    show "getRun i (saveSession v s) = Inr run" using run by simp
    have "r_id run = i" using getRun_row [OF run(1) inv] by metis
    with run(3) show "\<not> source_seen (r_id run) (d_sourceSeq ev) (saveSession v s)"
      by (simp add: source_seen_def)
  qed (rule run(2))
  note insert = clean_from_insert [OF this]
  show ?thesis
    unfolding bindBackendSession_def clean_steps
    by (rule clean_from_read, simp)
      (simp add: insert, intro impI clean_from_read, simp_all add: insert)
qed

lemma clean_expirePermission:
  assumes inv: "store_inv s" and row: "find_permission (p_id p) s = Some row" "pr_record row = p"
    and open_p: "is_open p"
  shows "clean (expirePermission now p s)"
proof -
  let ?s1 = "savePermission (p\<lparr>p_status := Expired\<rparr>) s"
  have "store_inv ?s1"
    by (rule savePermission_keeps [OF inv]) (use row open_p in \<open>auto simp: permission_grows_def\<close>)
  then have "clean (insertEvent now run (simple_draft ty data) False ?s1)"
    if "getRun i ?s1 = Inr run" "\<not> isTerminal (r_status run)" for i run ty data
    using that by (intro clean_insert_read [of _ i]) simp_all
  note insert = clean_from_insert [OF this]
  show ?thesis
    unfolding expirePermission_def Let_def by (rule clean_from_read) (simp_all add: insert)
qed

lemma clean_expire_open:
  assumes "store_inv s" "distinct (map p_id ps)"
    and "\<And>p. p \<in> set ps \<Longrightarrow> \<exists>row. find_permission (p_id p) s = Some row \<and> pr_record row = p"
  shows "clean (expire_open now ps s)"
  using assms
proof (induction ps arbitrary: s)
  case Nil
  then show ?case by simp
next
  case (Cons p ps)
  show ?case
  proof (cases "is_open p")
    case False
    with Cons show ?thesis by simp
  next
    case True
    obtain row where row: "find_permission (p_id p) s = Some row" "pr_record row = p"
      using Cons.prems(3) [of p] by auto
    have "clean (and_then (expirePermission now p) (\<lambda>_. expire_open now ps) s)"
    proof (rule clean_and_then)
      show "clean (expirePermission now p s)"
        by (rule clean_expirePermission [OF Cons.prems(1) row True])
      fix a s1
      assume first: "expirePermission now p s = (Inr a, s1)"
      note moved = expirePermission_moves [OF Cons.prems(1) row True first]
      have "\<exists>row. find_permission (p_id q) s1 = Some row \<and> pr_record row = q" if "q \<in> set ps" for q
      proof -
        have "p_id q \<noteq> p_id p" using Cons.prems(2) that by (auto simp: image_iff)
        with Cons.prems(3) [of q] that show ?thesis
          by (auto simp: moved(2) find_savePermission)
      qed
      with Cons.prems(2) store_moves_inv [OF moved(1) Cons.prems(1)]
      show "clean (expire_open now ps s1)" by (intro Cons.IH) auto
    qed
    with True show ?thesis by simp
  qed
qed


text \<open>A new run is free, but for its identifier.\<close>

lemma run_free:
  assumes inv: "store_inv s" and session: "sid \<in> sr_id ` set (sessions s)"
    and fresh: "rr_id row \<notin> rr_id ` set (runs s)" and row: "rr_session row = sid"
      "rr_generation row = next_generation sid s"
    and key: "\<And>k. rr_key row = Some k \<Longrightarrow> find (\<lambda>r. rr_session r = sid \<and> rr_key r = Some k) (runs s) = None"
  shows "\<not> run_conflict row s"
proof -
  let ?rs = "filter (\<lambda>r. rr_session r = sid) (runs s)"
  have gens: "generations_ok s" using inv by (simp add: store_inv_def)
  then have seqs: "map rr_generation ?rs = map int [1..<Suc (length ?rs)]"
    by (auto simp: generations_ok_def Let_def simp del: upt_Suc)
  have "rr_generation r \<noteq> rr_generation row" if "r \<in> set (runs s)" "rr_session r = sid" for r
  proof -
    from that have "rr_generation r \<in> set (map rr_generation ?rs)" by simp
    then have "rr_generation r \<le> int (length ?rs)" unfolding seqs by auto
    then show ?thesis by (simp add: row next_generation_eq [OF gens])
  qed
  moreover have "rr_id r \<noteq> rr_id row" if "r \<in> set (runs s)" for r
    using fresh that by (metis image_eqI)
  moreover have "list_ex (\<lambda>r. sr_id r = sid) (sessions s)"
    using session by (auto simp: list_ex_iff)
  ultimately show ?thesis
    using row key by (auto simp: run_conflict_def list_ex_iff find_None_iff)
qed

lemma clean_accept_new:
  assumes inv: "store_inv s" and session: "sid \<in> sr_id ` set (sessions s)"
    and fresh: "uuid \<notin> rr_id ` set (runs s)"
    and key: "\<And>k. key = Some k \<Longrightarrow> find (\<lambda>r. rr_session r = sid \<and> rr_key r = Some k) (runs s) = None"
  shows "clean (accept_new digest uuid now session sid input key s)"
proof -
  let ?run = "new_run uuid now sid session input (next_generation sid s)"
  let ?row = "\<lparr>rr_id = r_id ?run, rr_session = r_sessionId ?run, rr_generation = r_generation ?run,
            rr_key = key, rr_hash = inputHash digest (r_input ?run), rr_created = now,
            rr_record = ?run\<rparr>"
  let ?s1 = "s\<lparr>runs := runs s @ [?row]\<rparr>"
  have free: "\<not> run_conflict ?row s"
    by (rule run_free [OF inv session]) (use fresh key in \<open>simp_all add: new_run_def\<close>)
  have inv1: "store_inv ?s1"
    by (rule new_run_keeps [where run = ?run, OF inv free]) (simp_all add: new_run_def)
  have "find_run (r_id ?run) s = None"
    using free by (auto simp: find_None_iff run_conflict_def list_ex_iff)
  then have row: "find_run (r_id ?run) ?s1 = Some ?row" by (simp add: find_append)
  have "run_kept (rr_record ?row) ?run" by (simp add: run_kept_def new_run_def)
  then have "clean (insertEvent now ?run (simple_draft ty data) False ?s1)" for ty data
    by (intro clean_insert [OF inv1 row]) simp_all
  note insert = clean_from_insert [OF this]
  show ?thesis
    using free
    by (auto simp: accept_new_def insert_run_def Let_def intro!: insert clean_from_read)
qed

lemma getSession_in: "getSession i s = Inr v \<Longrightarrow> i \<in> sr_id ` set (sessions s)"
  by (auto simp: getSession_def split: option.splits dest: find_Some_set)

lemma clean_acceptRun:
  assumes inv: "store_inv s" and fresh: "uuid \<notin> rr_id ` set (runs s)"
  shows "clean (acceptRun digest uuid now sid input key s)"
  unfolding acceptRun_def clean_steps
  apply (rule clean_from_read, simp)
  subgoal premises session for session
    by (auto split: option.split
        intro!: clean_from_read clean_accept_new [OF inv getSession_in [OF session] fresh])
  done

text \<open>The checks before an insertion and the run that was read are what the constraints ask.\<close>

lemma getRun_listed: "store_inv s \<Longrightarrow> getRun i s = Inr run \<Longrightarrow> list_ex (\<lambda>r. rr_id r = i) (runs s)"
  using find_Some_set [of "\<lambda>r. rr_id r = i" "runs s"] by (auto simp: getRun_def list_ex_iff split: option.splits)

lemma clean_insert_permission:
  assumes "store_inv s" "getRun (p_runId p) s = Inr run" "\<not> list_ex (\<lambda>r. pr_id r = p_id p) (permissions s)"
  shows "clean (insert_permission p s)"
  using assms getRun_listed [OF assms(1,2)]
  by (simp add: insert_permission_def permission_conflict_def Let_def clean_def)

lemma clean_insert_artifact:
  assumes "store_inv s" "getRun (a_runId v) s = Inr run" "\<not> list_ex (\<lambda>r. ar_id r = a_id v) (artifacts s)"
  shows "clean (insert_artifact v s)"
  using assms getRun_listed [OF assms(1,2)]
  by (simp add: insert_artifact_def artifact_conflict_def Let_def clean_def)

lemma clean_createPermission:
  assumes inv: "store_inv s"
  shows "clean (createPermission now p s)"
  unfolding createPermission_def clean_steps
  apply (rule clean_from_read, simp)
  subgoal premises run for run
  proof -
    have "clean (and_then (insert_permission p)
        (\<lambda>_. and_then (insertEvent now run (simple_draft ty data) False) (\<lambda>_. give p)) s)"
      if new: "p_status p = Pending" "p_decision p = None" "\<not> past_permissions (r_status run)"
        "\<not> list_ex (\<lambda>r. pr_id r = p_id p) (permissions s)" for ty data
    proof (rule clean_and_then)
      fix u s1 assume "insert_permission p s = (Inr u, s1)"
      note s1 = insert_permission_Inr [OF this]
      obtain row where "find_run (p_runId p) s = Some row" "r_status run = r_status (rr_record row)"
        using getRun_row [OF run inv] by metis
      with new have "store_inv s1"
        unfolding s1 by (intro new_permission_keeps [OF inv]) (auto simp: past_permissions_def)
      then show "clean (and_then (insertEvent now run (simple_draft ty data) False) (\<lambda>_. give p) s1)"
        using run new(3) s1
        by (intro clean_from_insert clean_insert_read [of _ "p_runId p"]) (auto simp: past_permissions_def)
    qed (rule clean_insert_permission [OF inv run new(4)])
    then show ?thesis by simp
  qed
  done

lemma clean_registerArtifact:
  assumes inv: "store_inv s"
  shows "clean (registerArtifact now v s)"
  unfolding registerArtifact_def clean_steps
  apply (rule clean_from_read, simp)
  subgoal premises run for run
  proof -
    have "clean (and_then (insert_artifact v)
        (\<lambda>_. and_then (insertEvent now run (simple_draft ty data) False) (\<lambda>_. give v)) s)"
      if new: "\<not> isTerminal (r_status run)" "\<not> list_ex (\<lambda>r. ar_id r = a_id v) (artifacts s)" for ty data
    proof (rule clean_and_then)
      fix u s1 assume "insert_artifact v s = (Inr u, s1)"
      note s1 = insert_artifact_Inr [OF this]
      have "store_inv s1" unfolding s1 by (rule new_artifact_keeps [OF inv]) (simp add: new)
      then show "clean (and_then (insertEvent now run (simple_draft ty data) False) (\<lambda>_. give v) s1)"
        using run new(1) s1 by (intro clean_from_insert clean_insert_read [of _ "a_runId v"]) simp_all
    qed (rule clean_insert_artifact [OF inv run new(2)])
    then show ?thesis by simp
  qed
  done

lemma clean_decide_body:
  assumes inv: "store_inv s"
  shows "clean (decide_body now i opt s)"
  unfolding decide_body_def
  apply (rule clean_from_read, simp)
  apply (rule clean_from_read, simp)
  subgoal premises prems for p run
  proof -
    obtain row where row: "find_permission (p_id p) s = Some row" "pr_record row = p"
      using getPermission_row [OF prems(1) inv] by metis
    have expire: "clean (and_then (if is_open p then and_then (expirePermission now p) (\<lambda>_. give ())
        else give ()) (\<lambda>_. give x) s)" for x :: "store_error + permission_record"
      by (cases "is_open p") (auto intro!: clean_and_then simp: clean_expirePermission [OF inv row])
    have decide: "clean (and_then (insertEvent now run (simple_draft ty data) False)
        (\<lambda>_. give x) (savePermission (p\<lparr>p_status := Decided, p_decision := Some opt\<rparr>) s))"
      if "\<not> past_permissions (r_status run)"
        "p_status p = Pending" "list_ex (\<lambda>opt'. po_id opt' = opt) (p_options p)"
      for ty data and x :: "store_error + permission_record"
    proof (rule clean_from_insert)
      have "store_inv (savePermission (p\<lparr>p_status := Decided, p_decision := Some opt\<rparr>) s)"
        by (rule savePermission_keeps [OF inv])
          (use row that in \<open>auto simp: permission_grows_def list_ex_iff\<close>)
      with that prems(2) show "clean (insertEvent now run (simple_draft ty data) False
          (savePermission (p\<lparr>p_status := Decided, p_decision := Some opt\<rparr>) s))"
        by (intro clean_insert_read [of _ "p_runId p"]) (auto simp: past_permissions_def)
    qed simp
    show ?thesis
      by (cases "p_status p") (simp_all add: expire decide Let_def)
  qed
  done

lemma clean_decidePermission:
  assumes inv: "store_inv s"
  shows "clean (decidePermission now i opt s)"
proof -
  have "decide_body now i opt s = (Inr x, s') \<Longrightarrow> x \<noteq> Inl SqliteConstraint" for x s'
    by (auto simp: decide_body_def Let_def split: if_splits)
  with clean_decide_body [OF inv, of now i opt] show ?thesis
    by (auto simp: decidePermission_def transaction_def clean_def split: prod.splits sum.splits)
qed

lemma clean_markPermissionApplied:
  assumes inv: "store_inv s"
  shows "clean (markPermissionApplied now i s)"
  unfolding markPermissionApplied_def clean_steps
  apply (rule clean_from_read, simp)
  subgoal premises prems for p
proof -
  obtain row where row: "find_permission (p_id p) s = Some row" "pr_record row = p"
    using getPermission_row [OF prems inv] by metis
  have insert: "clean (and_then (insertEvent now run (simple_draft ty data) False)
      (\<lambda>_. give x) (savePermission (p\<lparr>p_status := Applied\<rparr>) s))"
    if "getRun (p_runId p) s = Inr run" "\<not> isTerminal (r_status run)" "p_status p = Decided"
    for run ty data and x :: permission_record
  proof (rule clean_from_insert)
    have "store_inv (savePermission (p\<lparr>p_status := Applied\<rparr>) s)"
      by (rule savePermission_keeps [OF inv])
        (use row that in \<open>auto simp: permission_grows_def\<close>)
    with that show "clean (insertEvent now run (simple_draft ty data) False
        (savePermission (p\<lparr>p_status := Applied\<rparr>) s))"
      by (intro clean_insert_read [of _ "p_runId p"]) auto
  qed simp
  then show ?thesis
    by (auto simp: Let_def split: option.split intro!: clean_from_read)
qed
  done


text \<open>The permission rows a run lists are current, each once.\<close>

lemma listPermissions_current:
  assumes inv: "store_inv s" and ps: "listPermissions i s = Inr ps"
  shows "distinct (map p_id ps)"
    and "p \<in> set ps \<Longrightarrow> \<exists>row. find_permission (p_id p) s = Some row \<and> pr_record row = p"
proof -
  note rows = listPermissions_rows [OF ps]
  have ids: "pr_id r = p_id (pr_record r)" if "r \<in> set (permissions s)" for r
    using inv_permission [OF inv that] unfolding permission_row_ok_def by blast
  then have "map p_id ps = map pr_id (filter (\<lambda>r. pr_run r = i) (permissions s))" by (simp add: rows)
  then show "distinct (map p_id ps)"
    using inv by (simp add: store_inv_def distinct_map_filter)
  assume "p \<in> set ps"
  with rows obtain r where r: "r \<in> set (permissions s)" "pr_record r = p" by auto
  have "distinct (map pr_id (permissions s))" using inv by (simp add: store_inv_def)
  from distinct_row [OF this r(1)] ids r
  show "\<exists>row. find_permission (p_id p) s = Some row \<and> pr_record row = p" by auto
qed

text \<open>Expiring permissions leaves every run's status.\<close>

definition status_of :: "jstring \<Rightarrow> store \<Rightarrow> run_status option" where
  "status_of i s = map_option (\<lambda>r. r_status (rr_record r)) (find_run i s)"

lemma status_of_tables [simp]:
  "status_of i (savePermission p s) = status_of i s"
  "status_of i (s\<lparr>events := x\<rparr>) = status_of i s"
  by (simp_all add: status_of_def)

lemma getRun_status: "store_inv s \<Longrightarrow> getRun i s = Inr run \<Longrightarrow> status_of i s = Some (r_status run)"
  using getRun_row [of i s run] unfolding status_of_def by (metis option.simps(9))

lemma insert_status:
  assumes "store_inv s" "getRun i s = Inr run" "insertEvent now run d t s = (Inr ev, s')"
  shows "status_of j s' = status_of j s"
proof -
  obtain row where "find_run (r_id run) s = Some row" "r_status run = r_status (rr_record row)"
    using getRun_row [OF assms(2,1)] by metis
  with assms(3) show ?thesis
    by (cases "find_run j s") (auto simp: insertEvent_Inr status_of_def find_saveRun)
qed

lemma expire_status:
  assumes inv: "store_inv s" and row: "find_permission (p_id p) s = Some row" "pr_record row = p"
    and open_p: "is_open p" and eq: "expirePermission now p s = (Inr a, s')"
  shows "status_of j s' = status_of j s"
proof -
  let ?s1 = "savePermission (p\<lparr>p_status := Expired\<rparr>) s"
  have inv1: "store_inv ?s1"
    by (rule savePermission_keeps [OF inv]) (use row open_p in \<open>auto simp: permission_grows_def\<close>)
  obtain run where run: "getRun (p_runId p) ?s1 = Inr run"
    using eq by (auto simp: expirePermission_def Let_def)
  then have "s' = ?s1 \<or> (\<exists>d ev. insertEvent now run d False ?s1 = (Inr ev, s'))"
    using eq by (auto simp: expirePermission_def Let_def split: if_splits)
  with insert_status [OF inv1 run] show ?thesis by force
qed

lemma expire_open_status:
  assumes "store_inv s" "distinct (map p_id ps)"
    and "\<And>p. p \<in> set ps \<Longrightarrow> \<exists>row. find_permission (p_id p) s = Some row \<and> pr_record row = p"
    and "expire_open now ps s = (Inr u, s')"
  shows "status_of j s' = status_of j s"
  using assms
proof (induction ps arbitrary: s)
  case Nil
  then show ?case by simp
next
  case (Cons p ps)
  show ?case
  proof (cases "is_open p")
    case False
    with Cons.prems have "expire_open now ps s = (Inr u, s')" by simp
    with Cons.IH [of s] Cons.prems show ?thesis by auto
  next
    case True
    then obtain a s1 where first: "expirePermission now p s = (Inr a, s1)"
      and rest: "expire_open now ps s1 = (Inr u, s')"
      using Cons.prems(4) by auto
    obtain row where row: "find_permission (p_id p) s = Some row" "pr_record row = p"
      using Cons.prems(3) [of p] by auto
    note moved = expirePermission_moves [OF Cons.prems(1) row True first]
    have current: "\<exists>row. find_permission (p_id q) s1 = Some row \<and> pr_record row = q" if "q \<in> set ps" for q
    proof -
      have "p_id q \<noteq> p_id p" using Cons.prems(2) that by (auto simp: image_iff)
      with Cons.prems(3) [of q] that show ?thesis
        by (auto simp: moved(2) find_savePermission)
    qed
    have "status_of j s' = status_of j s1"
      by (rule Cons.IH [OF store_moves_inv [OF moved(1) Cons.prems(1)] _ current rest])
        (use Cons.prems(2) in simp_all)
    with expire_status [OF Cons.prems(1) row True first] show ?thesis by simp
  qed
qed

lemma clean_finish_body:
  assumes inv: "store_inv s" and run: "getRun i s = Inr run" "\<not> isTerminal (r_status run)"
    and ps: "listPermissions i s = Inr ps" and expired: "expire_open now ps s = (Inr u, s1)"
  shows "clean (and_then (reading (getRun i)) (\<lambda>again.
      let finished = finished_run now input again
      in (\<lambda>s. and_then (insertEvent now finished (finish_draft input) True)
            (\<lambda>_. reading (getRun i)) (saveRun finished s))) s1)"
  apply (rule clean_from_read, simp)
  subgoal premises again for again
  proof -
    note current = listPermissions_current [OF inv ps]
    have inv1: "store_inv s1"
      using expire_open_moves [OF inv current expired] inv by (blast intro: store_moves_inv)
    have "status_of i s1 = status_of i s" by (rule expire_open_status [OF inv current expired])
    then have "r_status again = r_status run"
      by (simp add: getRun_status [OF inv run(1)] getRun_status [OF inv1 again])
    with run(2) have "run_kept again (finished_run now input again)"
      by (simp add: run_kept_def finished_run_def)
    from clean_insert_changed [OF inv1 again this]
    show ?thesis by (simp add: Let_def clean_from_insert clean_reading finish_draft_def)
  qed
  done

lemma clean_finishRun:
  assumes inv: "store_inv s"
  shows "clean (finishRun now i input s)"
  unfolding finishRun_def clean_steps
  apply (rule clean_from_read, simp)
  subgoal premises run for run
  proof (cases "isTerminal (r_status run)")
    case False
    show ?thesis
      apply (simp add: False)
      apply (rule clean_from_read, simp)
      subgoal premises ps for ps
        by (rule clean_and_then, rule clean_expire_open [OF inv listPermissions_current [OF inv ps]])
          (simp_all add: clean_finish_body [OF inv run False ps])
      done
  qed simp
  done

section \<open>Every operation\<close>

lemma clean_valued [simp]: "clean (valued f r) = clean r"
  by (cases "fst r") (auto simp: valued_def clean_def)

text \<open>The identifier an operation takes from \<open>randomUUID\<close> is new to its table.\<close>

definition fresh_id :: "store_op \<Rightarrow> store \<Rightarrow> bool" where
  "fresh_id x s =
     (case x of
        CreateSession uuid _ _ _ _ \<Rightarrow> uuid \<notin> sr_id ` set (sessions s)
      | AcceptRun uuid _ _ _ _ \<Rightarrow> uuid \<notin> rr_id ` set (runs s)
      | _ \<Rightarrow> True)"

lemma clean_createSession:
  "uuid \<notin> sr_id ` set (sessions s) \<Longrightarrow> clean (createSession digest uuid now engine ws routing s)"
  by (auto simp: createSession_def clean_def list_ex_iff Let_def)

lemma clean_store_step: "store_inv s \<Longrightarrow> fresh_id x s \<Longrightarrow> clean (store_step digest x s)"
  by (cases x)
    (simp_all add: fresh_id_def clean_createSession clean_setSessionStatus clean_bindBackendSession
      clean_acceptRun clean_setRunStatus clean_appendEvent clean_finishRun clean_createPermission
      clean_decidePermission clean_markPermissionApplied clean_registerArtifact)

end
