(* ===== verification/RunStoreProps.thy ===== *)
theory RunStoreProps
  imports RunStoreErrors
begin

text \<open>
  What the run plane promises of its durable store: the properties of the store as theorems over
  every sequence of operations, each with a concrete history of one session and one Run at which
  it applies.
\<close>

section \<open>A history to apply the properties to\<close>

text \<open>A digest that keeps apart what the history needs kept apart: the text of the input.\<close>

definition demo_digest :: "json \<Rightarrow> jstring" where
  "demo_digest v = (case v of JObj ((_, JStr t) # _) \<Rightarrow> t | _ \<Rightarrow> [])"

definition demo_engine :: engine_profile where
  "demo_engine = \<lparr>ep_id = js ''fake'', ep_driver = FakeDriver, ep_revision = js ''1'',
     ep_enabled = True, ep_command = None, ep_model = None, ep_credentialEnv = None,
     ep_configuration = None, ep_cli = None, ep_acp = None, ep_maxConcurrency = 1,
     ep_capabilities = \<lparr>cap_resume = False, cap_permissions = True, cap_images = False\<rparr>\<rparr>"

definition demo_input :: run_input where
  "demo_input = \<lparr>in_text = js ''hi'', in_timeoutMs = 1000, in_model = None, in_fixture = None,
     in_outputs = None\<rparr>"

definition demo_permission :: permission_record where
  "demo_permission = \<lparr>p_id = js ''p'', p_sessionId = js ''s'', p_runId = js ''r'', p_generation = 1,
     p_toolCallId = js ''t'', p_prompt = js ''?'',
     p_options = [\<lparr>po_id = js ''yes'', po_label = js ''Yes'', po_kind = AllowOnce\<rparr>],
     p_status = Pending, p_decision = None, p_createdAt = 2, p_expiresAt = 500\<rparr>"

definition demo_finish :: finish_input where
  "demo_finish = \<lparr>f_status = Completed, f_stopReason = js ''end'', f_cleanupStatus = Confirmed,
     f_output = None, f_error = None\<rparr>"

definition demo_start :: "store_op list" where
  "demo_start =
     [CreateSession (js ''s'') 1 demo_engine \<lparr>ws_id = js ''w'', ws_path = js ''/''\<rparr> None,
      AcceptRun (js ''r'') 2 (js ''s'') demo_input (Some (js ''k''))]"

definition demo_permit :: "store_op list" where
  "demo_permit = [CreatePermission 4 demo_permission, DecidePermission 5 (js ''p'') (js ''yes'')]"

definition demo_end :: "store_op list" where
  "demo_end = [FinishRun 7 (js ''r'') demo_finish]"

lemma show_digit: "n < 10 \<Longrightarrow> show_nat n = [48 + n]"
  by (subst show_nat.simps) simp

lemmas store_eval =
  acceptRun_def createSession_def transaction_def and_then_def reading_def give_def throw_def
  getSession_def readSession_def session_record_ok_def accept_new_def insert_run_def
  run_conflict_def new_run_def next_generation_def insertEvent_def Let_def draft_event_def
  draft_row_def event_conflict_def saveRun_def saveSession_def savePermission_def getRun_def
  readRun_def run_record_ok_def run_input_ok_def integer_ok_def nonempty_id_def optional_ok_def
  setSessionStatus_def setRunStatus_def createPermission_def insert_permission_def permission_conflict_def past_permissions_def decidePermission_def decide_body_def
  getPermission_def decodePermission_def permission_record_ok_def markPermissionApplied_def
  finishRun_def listPermissions_def is_open_def finished_run_def finish_draft_def valued_def
  empty_store_def eventId_def max_safe_def configSnapshot_def optional_field_def inputHash_def
  input_json_def json_fields_def expirePermission_def show_digit js_eval

lemmas demo_eval = demo_digest_def demo_engine_def demo_input_def demo_permission_def
  demo_finish_def demo_start_def demo_permit_def demo_end_def

abbreviation after_ops :: "(json \<Rightarrow> jstring) \<Rightarrow> store_op list \<Rightarrow> store" where
  "after_ops digest xs \<equiv> run_ops (store_step digest) xs empty_store"

section \<open>The invariant and the terminal event\<close>

lemma filter_only_last:
  "xs \<noteq> [] \<Longrightarrow> P (last xs) \<Longrightarrow> list_all (\<lambda>x. \<not> P x) (butlast xs) \<Longrightarrow> filter P xs = [last xs]"
  by (cases xs rule: rev_cases) (auto simp: filter_empty_conv list_all_iff)

text \<open>
  C1: whatever operations run, in whatever order and with whatever readings, the tables agree: ids
  are unique, every run belongs to a session and its number follows the last one of the session,
  every event carries the id of its run and number, the log of each run is numbered 1, 2, \<dots> without
  a gap up to \<open>lastSeq\<close>, a decision is an option that was offered and no ended run has an open
  permission.
\<close>

theorem store_always_consistent: "store_inv (after_ops digest xs)"
  by (rule st.run_inv) (rule store_inv_empty)

text \<open>
  C2: each run has exactly one terminal event if it has ended, and none otherwise; an identifier that
  names no run has no event at all.
\<close>

theorem one_terminal_event:
  "length (filter er_terminal (run_events i (after_ops digest xs))) =
     (case status_of i (after_ops digest xs) of
        Some st \<Rightarrow> if isTerminal st then 1 else 0
      | None \<Rightarrow> 0)"
proof -
  let ?s = "after_ops digest xs"
  have inv: "store_inv ?s" by (rule st.run_inv) (rule store_inv_empty)
  show ?thesis
  proof (cases "find_run i ?s")
    case None
    have "er_run e \<noteq> i" if "e \<in> set (events ?s)" for e
      using event_ok_run [OF inv_event [OF inv that]] None by (auto simp: find_None_iff)
    then have "run_events i ?s = []" by (simp add: run_events_def filter_empty_conv)
    with None show ?thesis by (simp add: status_of_def)
  next
    case (Some row)
    have log: "log_ok (rr_record row) (run_events i ?s)" by (rule run_log [OF inv Some])
    show ?thesis
    proof (cases "isTerminal (r_status (rr_record row))")
      case True
      then obtain t where "r_status (rr_record row) = Ended t" by (auto simp: isTerminal_iff)
      with log have "filter er_terminal (run_events i ?s) = [last (run_events i ?s)]"
        by (intro filter_only_last) (simp_all add: log_ok_def)
      with Some True show ?thesis by (simp add: status_of_def)
    next
      case False
      with log have "list_all (\<lambda>e. \<not> er_terminal e) (run_events i ?s)"
        by (cases "r_status (rr_record row)") (simp_all add: log_ok_def)
      then have "filter er_terminal (run_events i ?s) = []"
        by (simp add: filter_empty_conv list_all_iff)
      with Some False show ?thesis by (simp add: status_of_def)
    qed
  qed
qed

text \<open>
  C3: the outcome is final: once a run has ended, its record and its log are the same after every
  further sequence of operations (a second finish included).
\<close>

theorem ended_run_is_final:
  assumes "find_run i (after_ops digest xs) = Some row" "isTerminal (r_status (rr_record row))"
  shows "find_run i (after_ops digest (xs @ ys)) = Some row \<and>
    run_events i (after_ops digest (xs @ ys)) = run_events i (after_ops digest xs)"
proof -
  have inv: "store_inv (after_ops digest xs)" by (rule st.run_inv) (rule store_inv_empty)
  note later = store_runs_later(3) [OF inv, of digest ys]
  from runs_laterD(1) [OF later assms(1)] assms(2)
  have "find_run i (after_ops digest (xs @ ys)) = Some row" by (auto simp: run_later_def)
  moreover from runs_laterD(2) [OF later, of i] assms
  have "run_events i (after_ops digest (xs @ ys)) = run_events i (after_ops digest xs)" by auto
  ultimately show ?thesis ..
qed

lemma demo_ended:
  "\<exists>row. find_run (js ''r'') (after_ops demo_digest (demo_start @ demo_end)) = Some row \<and>
     isTerminal (r_status (rr_record row))"
  by (simp add: store_eval demo_eval)

theorem ended_run_is_final_witness:
  "\<exists>row. find_run (js ''r'') (after_ops demo_digest ((demo_start @ demo_end) @
       [FinishRun 9 (js ''r'') (demo_finish\<lparr>f_status := Failed\<rparr>)])) = Some row \<and>
     isTerminal (r_status (rr_record row))"
proof -
  obtain row where row: "find_run (js ''r'') (after_ops demo_digest (demo_start @ demo_end)) = Some row"
    "isTerminal (r_status (rr_record row))"
    using demo_ended by blast
  from ended_run_is_final [OF row] row(2) show ?thesis by blast
qed


section \<open>Errors\<close>

lemma transaction_rolls_back: "transaction f s = (Inl e, s') \<Longrightarrow> s' = s"
  by (auto simp: transaction_Inl)

text \<open>The only error of a decision's transaction is one it does not give as its result.\<close>

definition not_late :: "'a result \<times> store \<Rightarrow> bool" where
  "not_late r \<longleftrightarrow> fst r \<noteq> Inl (HubError PERMISSION_EXPIRED 409)"

lemma not_late_and_then:
  "(\<And>s. not_late (f s)) \<Longrightarrow> (\<And>a s. not_late (g a s)) \<Longrightarrow> not_late (and_then f g s)"
  by (auto simp: not_late_def and_then_def split: prod.splits sum.splits) (metis fst_conv)+

lemma not_late_steps [simp]:
  "not_late (throw c n s) \<longleftrightarrow> c \<noteq> PERMISSION_EXPIRED \<or> n \<noteq> 409"
  "not_late (give a s)" "not_late (reading (getRun i) s)" "not_late (reading (getPermission i) s)"
  "not_late (insertEvent now run d t s)"
  by (simp_all add: not_late_def throw_def give_def reading_def insertEvent_def Let_def getRun_def
      readRun_def getPermission_def decodePermission_def split: option.split)

lemma not_late_expire [simp]: "not_late (expirePermission now p s)"
  unfolding expirePermission_def Let_def
  by (rule not_late_and_then, simp) (auto intro!: not_late_and_then)

lemma not_late_decide: "not_late (decide_body now i opt s)"
  unfolding decide_body_def
  by (rule not_late_and_then, simp, rule not_late_and_then, simp)
    (simp add: Let_def, intro conjI impI; (rule not_late_and_then)?; simp add: not_late_and_then)

lemma late_only_committed:
  "decide_body now i opt s = (Inl e, s') \<Longrightarrow> e \<noteq> HubError PERMISSION_EXPIRED 409"
  using not_late_decide [of now i opt s] by (auto simp: not_late_def)

text \<open>
  What a decision that came too late commits: its permission is expired and, while the Run has not
  ended, the next event of the Run says so. Everything else is as it was.
\<close>

definition expiry_row :: "int \<Rightarrow> permission_record \<Rightarrow> run_record \<Rightarrow> event_row" where
  "expiry_row now p run =
     \<lparr>er_run = r_id run, er_seq = r_lastSeq run + 1, er_event_id = eventId (r_id run) (r_lastSeq run + 1),
      er_source_seq = None, er_type = js ''PERMISSION_EXPIRED'', er_terminal = False,
      er_record = \<lparr>e_eventId = eventId (r_id run) (r_lastSeq run + 1), e_sessionId = r_sessionId run,
        e_runId = r_id run, e_seq = r_lastSeq run + 1, e_occurredAt = now, e_observedAt = now,
        e_type = js ''PERMISSION_EXPIRED'',
        e_data = [(js ''permissionId'', JStr (p_id p)), (js ''toolCallId'', JStr (p_toolCallId p))]\<rparr>\<rparr>"

definition with_expiry :: "int \<Rightarrow> permission_record \<Rightarrow> run_record \<Rightarrow> store \<Rightarrow> store" where
  "with_expiry now p run s =
     \<lparr>sessions = sessions s,
      runs = (if isTerminal (r_status run) then runs s
        else map (\<lambda>r. if rr_id r = r_id run then r\<lparr>rr_record := run\<lparr>r_lastSeq := r_lastSeq run + 1\<rparr>\<rparr> else r) (runs s)),
      events = events s @ (if isTerminal (r_status run) then [] else [expiry_row now p run]),
      permissions = map (\<lambda>r. if pr_id r = p_id p then r\<lparr>pr_record := p\<lparr>p_status := Expired\<rparr>\<rparr> else r) (permissions s),
      artifacts = artifacts s\<rparr>"

lemma expire_commits:
  assumes "getRun (p_runId p) s = Inr run" "expirePermission now p s = (Inr x, s')"
  shows "s' = with_expiry now p run s"
proof -
  let ?s1 = "savePermission (p\<lparr>p_status := Expired\<rparr>) s"
  have run: "getRun (p_runId p) ?s1 = Inr run" using assms(1) by simp
  show ?thesis
  proof (cases "isTerminal (r_status run)")
    case True
    with assms(2) run have "s' = ?s1" by (simp add: expirePermission_def Let_def)
    with True show ?thesis by (simp add: with_expiry_def savePermission_def)
  next
    case False
    with assms(2) run show ?thesis
      by (auto simp: expirePermission_def insertEvent_Inr with_expiry_def expiry_row_def draft_row_def draft_event_def
          savePermission_def saveRun_def Let_def)
  qed
qed

text \<open>Why a decision comes too late.\<close>

definition too_late :: "int \<Rightarrow> permission_record \<Rightarrow> run_record \<Rightarrow> bool" where
  "too_late now p run \<longleftrightarrow> p_status p = Expired \<or> p_expiresAt p \<le> now \<or> past_permissions (r_status run)"

lemma late_commits:
  assumes "decide_body now i opt s = (Inr (Inl e), s')"
  obtains p run where "e = HubError PERMISSION_EXPIRED 409" "getPermission i s = Inr p" "getRun (p_runId p) s = Inr run"
    "too_late now p run" "s' = (if is_open p then with_expiry now p run s else s)"
proof -
  from assms obtain p run where p: "getPermission i s = Inr p" "getRun (p_runId p) s = Inr run"
    by (auto simp: decide_body_def)
  with assms have "e = HubError PERMISSION_EXPIRED 409 \<and> too_late now p run \<and>
      (if is_open p then \<exists>x. expirePermission now p s = (Inr x, s') else s' = s)"
    by (auto simp: decide_body_def Let_def too_late_def split: if_splits)
  then show ?thesis using that [OF _ p] expire_commits [OF p(2)] by (auto split: if_splits)
qed

text \<open>
  C4: an operation that fails leaves the store exactly as it was, with one exception: a decision
  refused because it came too late commits, if its permission was still open, the expiry of that
  permission and (while the Run has not ended) the event that says so, and nothing else.
\<close>

theorem failed_step_rolls_back:
  assumes "store_step digest x s = (Inl e, s')"
  shows "case x of
      DecidePermission now i opt \<Rightarrow>
        if e = HubError PERMISSION_EXPIRED 409
        then \<exists>p run. getPermission i s = Inr p \<and> getRun (p_runId p) s = Inr run \<and> too_late now p run \<and>
          s' = (if is_open p then with_expiry now p run s else s)
        else s' = s
    | _ \<Rightarrow> s' = s"
proof (cases x)
  case (CreateSession uuid now engine ws routing)
  with assms show ?thesis
    by (auto simp: valued_def createSession_def Let_def split: if_splits)
next
  case (DecidePermission now i opt)
  with assms have r: "decidePermission now i opt s = (Inl e, s')"
    by (cases "decidePermission now i opt s") (auto simp: valued_def map_sum_def split: sum.splits)
  then consider "decide_body now i opt s = (Inr (Inl e), s')"
    | s1 where "decide_body now i opt s = (Inl e, s1)" "s' = s"
    by (auto simp: decidePermission_def transaction_def split: prod.splits sum.splits)
  then show ?thesis
  proof cases
    case 1
    from late_commits [OF this] show ?thesis by (simp add: DecidePermission) metis
  next
    case 2
    with late_only_committed show ?thesis by (auto simp: DecidePermission)
  qed
qed (use assms in \<open>auto simp: valued_def map_sum_def setSessionStatus_def bindBackendSession_def acceptRun_def
    setRunStatus_def appendEvent_def finishRun_def createPermission_def markPermissionApplied_def
    registerArtifact_def transaction_def split: prod.splits sum.splits\<close>)

lemma demo_late:
  "fst (decidePermission 600 (js ''p'') (js ''yes'')
     (after_ops demo_digest (demo_start @ [CreatePermission 4 demo_permission]))) =
   Inl (HubError PERMISSION_EXPIRED 409)"
  by (simp add: store_eval demo_eval)

theorem failed_step_rolls_back_witness:
  "\<exists>p run. getPermission (js ''p'') (after_ops demo_digest (demo_start @ [CreatePermission 4 demo_permission])) = Inr p \<and>
     is_open p \<and> snd (store_step demo_digest (DecidePermission 600 (js ''p'') (js ''yes''))
       (after_ops demo_digest (demo_start @ [CreatePermission 4 demo_permission]))) =
     with_expiry 600 p run (after_ops demo_digest (demo_start @ [CreatePermission 4 demo_permission]))"
proof -
  let ?s = "after_ops demo_digest (demo_start @ [CreatePermission 4 demo_permission])"
  let ?x = "DecidePermission 600 (js ''p'') (js ''yes'')"
  have "store_step demo_digest ?x ?s = (Inl (HubError PERMISSION_EXPIRED 409), snd (store_step demo_digest ?x ?s))"
    using demo_late by (simp add: valued_def prod_eq_iff)
  from failed_step_rolls_back [OF this] obtain p run where p: "getPermission (js ''p'') ?s = Inr p"
    "snd (store_step demo_digest ?x ?s) = (if is_open p then with_expiry 600 p run ?s else ?s)"
    by auto
  moreover have "is_open p" using p(1) by (auto simp: store_eval demo_eval)
  ultimately show ?thesis by auto
qed

text \<open>
  C5: no operation ever violates a constraint of the database, provided \<open>randomUUID\<close> gives ids that
  are new: the checks of the code are exactly strong enough for the schema.
\<close>

theorem no_constraint_violation:
  assumes "fresh_id x (after_ops digest xs)"
  shows "fst (store_step digest x (after_ops digest xs)) \<noteq> Inl SqliteConstraint"
proof -
  have "store_inv (after_ops digest xs)" by (rule st.run_inv) (rule store_inv_empty)
  from clean_store_step [OF this assms] show ?thesis by (simp add: clean_def)
qed

theorem no_constraint_violation_witness:
  "fst (store_step demo_digest (AcceptRun (js ''q'') 8 (js ''s'') demo_input None)
     (after_ops demo_digest demo_start)) \<noteq> Inl SqliteConstraint"
proof (rule no_constraint_violation)
  show "fresh_id (AcceptRun (js ''q'') 8 (js ''s'') demo_input None) (after_ops demo_digest demo_start)"
    by (simp add: fresh_id_def store_eval demo_eval)
qed

lemma expire_closes:
  assumes "store_inv s" "find_permission (p_id p) s = Some row" "pr_record row = p" "is_open p"
    "expirePermission now p s = (Inr a, s')"
  shows "find_permission (p_id p) s' = Some (row\<lparr>pr_record := p\<lparr>p_status := Expired\<rparr>\<rparr>)"
proof -
  have "find_permission (p_id p) s' =
      find_permission (p_id p) (savePermission (p\<lparr>p_status := Expired\<rparr>) s)"
    by (simp only: expirePermission_moves(2) [OF assms])
  then show ?thesis using assms(2) by (simp add: find_savePermission)
qed

text \<open>
  A decision refused because it came too late leaves its permission no longer open: the expiry is
  committed although the call throws.
\<close>

theorem late_decision_expires:
  assumes inv: "store_inv s"
    and late: "decidePermission now i opt s = (Inl (HubError PERMISSION_EXPIRED 409), s')"
  shows "\<exists>row. find_permission i s' = Some row \<and> \<not> is_open (pr_record row)"
proof -
  from late have body: "decide_body now i opt s = (Inr (Inl (HubError PERMISSION_EXPIRED 409)), s')"
    by (auto simp: decidePermission_def transaction_def split: prod.splits sum.splits
        dest: late_only_committed)
  then obtain p where p: "getPermission i s = Inr p" by (auto simp: decide_body_def)
  obtain row where row: "find_permission (p_id p) s = Some row" "pr_record row = p" "p_id p = i"
    using getPermission_row [OF p inv] by metis
  have "s' = s \<and> \<not> is_open p \<or> is_open p \<and> (\<exists>x. expirePermission now p s = (Inr x, s'))"
    using body p by (auto simp: decide_body_def Let_def split: if_splits)
  then show ?thesis
    using row expire_closes [OF inv row(1,2)] by (auto simp: is_open_def)
qed

lemma demo_consistent: "store_inv (after_ops digest xs)"
  by (rule st.run_inv) (rule store_inv_empty)

theorem late_decision_expires_witness:
  "\<exists>row. find_permission (js ''p'') (snd (decidePermission 600 (js ''p'') (js ''yes'')
     (after_ops demo_digest (demo_start @ [CreatePermission 4 demo_permission])))) = Some row \<and>
     \<not> is_open (pr_record row)"
proof -
  have "decidePermission 600 (js ''p'') (js ''yes'')
      (after_ops demo_digest (demo_start @ [CreatePermission 4 demo_permission])) =
    (Inl (HubError PERMISSION_EXPIRED 409), snd (decidePermission 600 (js ''p'') (js ''yes'')
      (after_ops demo_digest (demo_start @ [CreatePermission 4 demo_permission]))))"
    by (simp only: prod_eq_iff demo_late fst_conv snd_conv)
  from late_decision_expires [OF demo_consistent this] show ?thesis .
qed

section \<open>Idempotency\<close>

lemma key_row_unique:
  assumes "keys_ok s" "r \<in> set (runs s)" "rr_session r = sid" "rr_key r = Some k"
  shows "find (\<lambda>r. rr_session r = sid \<and> rr_key r = Some k) (runs s) = Some r"
proof -
  let ?P = "\<lambda>r. rr_session r = sid \<and> rr_key r = Some k"
  have "inj_on (\<lambda>r. (rr_session r, rr_key r)) (set (filter (\<lambda>r. rr_key r \<noteq> None) (runs s)))"
    using assms(1) by (simp add: keys_ok_def distinct_map)
  then have same: "r' = r" if "r' \<in> set (runs s)" "?P r'" for r'
    using that assms by (auto simp: inj_on_def)
  obtain r' where "find ?P (runs s) = Some r'"
    using assms by (cases "find ?P (runs s)") (auto simp: find_None_iff)
  with same find_Some_set [of ?P "runs s" r'] show ?thesis by auto
qed


text \<open>An accepted Run with a key leaves a row that carries the key and the digest of the input.\<close>

lemma accept_new_row:
  assumes inv: "store_inv s"
    and eq: "accept_new digest uuid now session sid input key s = (Inr a, s')"
  shows "\<exists>row \<in> set (runs s'). rr_session row = sid \<and> rr_key row = key \<and>
    rr_hash row = inputHash digest input \<and> rr_id row = r_id (acc_run a)"
proof -
  let ?run = "new_run uuid now sid session input (next_generation sid s)"
  let ?row = "\<lparr>rr_id = r_id ?run, rr_session = r_sessionId ?run, rr_generation = r_generation ?run,
            rr_key = key, rr_hash = inputHash digest (r_input ?run), rr_created = now,
            rr_record = ?run\<rparr>"
  let ?s1 = "s\<lparr>runs := runs s @ [?row]\<rparr>"
  let ?d = "simple_draft ''RUN_QUEUED''
      [(js ''status'', JStr (js ''queued'')), (js ''generation'', JNum (r_generation ?run)),
       (js ''deadlineAt'', JNum (r_deadlineAt ?run)), (js ''configSnapshotRef'', JStr (r_id ?run))]"
  from eq obtain ev stored where event: "insertEvent now ?run ?d False ?s1 = (Inr ev, s')"
    and stored: "getRun (r_id ?run) s' = Inr stored" "acc_run a = stored"
    by (auto simp: accept_new_def insert_run_def Let_def split: if_splits)
  have inv': "store_inv s'" by (rule store_moves_inv [OF accept_new_moves [OF inv eq] inv])
  let ?new = "?row\<lparr>rr_record := ?run\<lparr>r_lastSeq := r_lastSeq ?run + 1\<rparr>\<rparr>"
  from event have "?new \<in> set (runs s')"
    by (auto simp: insertEvent_Inr saveRun_def)
  moreover have "r_id stored = r_id ?run" using getRun_row [OF stored(1) inv'] by metis
  then have "rr_id ?new = r_id (acc_run a)" using stored(2) by simp
  ultimately show ?thesis
    by (intro bexI [of _ ?new]) (simp_all add: new_run_def)
qed

lemma accept_row:
  assumes inv: "store_inv s"
    and eq: "acceptRun digest uuid now sid input (Some k) s = (Inr a, s')"
  shows "\<exists>row \<in> set (runs s'). rr_session row = sid \<and> rr_key row = Some k \<and>
    rr_hash row = inputHash digest input \<and> rr_id row = r_id (acc_run a)"
proof -
  obtain session where session: "getSession sid s = Inr session" and k: "k \<noteq> []" "length k \<le> 200"
    using eq by (auto simp: acceptRun_def split: if_splits)
  show ?thesis
  proof (cases "find (\<lambda>r. rr_session r = sid \<and> rr_key r = Some k) (runs s)")
    case None
    with eq session k have "accept_new digest uuid now session sid input (Some k) s = (Inr a, s')"
      by (auto simp: acceptRun_def split: if_splits)
    then show ?thesis by (rule accept_new_row [OF inv])
  next
    case (Some row)
    with eq session k have *: "rr_hash row = inputHash digest input" "readRun (rr_record row) = Inr (acc_run a)"
      "s' = s" by (auto simp: acceptRun_def split: if_splits)
    from find_Some_set [OF Some] have "row \<in> set (runs s)" "rr_session row = sid" "rr_key row = Some k"
      by auto
    moreover from this inv_run [OF inv] have "rr_id row = r_id (rr_record row)"
      unfolding run_row_ok_def by blast
    moreover have "r_id (acc_run a) = r_id (rr_record row)" using *(2) by (auto simp: readRun_Inr)
    ultimately show ?thesis using * by auto
  qed
qed

lemma getSession_later:
  assumes "store_inv s" "getSession sid s = Inr v" "sessions_later s s'"
  shows "getSession sid s' \<noteq> Inl e \<or> e = HubError STORAGE_CORRUPT 500"
proof -
  from assms(2) obtain row where "find_session sid s = Some row"
    by (auto simp: getSession_def split: option.splits)
  with assms(3) obtain row' where "find_session sid s' = Some row'"
    unfolding sessions_later_def by blast
  then show ?thesis by (auto simp: getSession_def readSession_def)
qed

text \<open>
  The digest leaves the selected model out: under a key the session has used, a request for
  another model is answered exactly as the earlier request, with the earlier Run, although its
  input differs.
\<close>

theorem accept_ignores_model:
  assumes "list_ex (\<lambda>r. rr_session r = sid \<and> rr_key r = Some k) (runs s)"
  shows "acceptRun digest uuid now sid (input\<lparr>in_model := m\<rparr>) (Some k) s =
    acceptRun digest uuid now sid input (Some k) s"
proof -
  obtain row where "find (\<lambda>r. rr_session r = sid \<and> rr_key r = Some k) (runs s) = Some row"
    using assms by (cases "find (\<lambda>r. rr_session r = sid \<and> rr_key r = Some k) (runs s)")
      (auto simp: find_None_iff list_ex_iff)
  then show ?thesis
    by (auto simp: acceptRun_def transaction_def and_then_reading inputHash_def input_json_def
        split: sum.splits)
qed

theorem accept_ignores_model_witness:
  "acceptRun demo_digest (js ''q'') 8 (js ''s'') (demo_input\<lparr>in_model := Some (js ''other'')\<rparr>)
     (Some (js ''k'')) (after_ops demo_digest demo_start) =
   acceptRun demo_digest (js ''q'') 8 (js ''s'') demo_input (Some (js ''k''))
     (after_ops demo_digest demo_start)"
proof (rule accept_ignores_model)
  show "list_ex (\<lambda>r. rr_session r = js ''s'' \<and> rr_key r = Some (js ''k''))
      (runs (after_ops demo_digest demo_start))"
    by (simp add: store_eval demo_eval)
qed

text \<open>Whatever follows, the row of an accepted request is found by its key.\<close>

lemma accepted_row_later:
  assumes inv: "store_inv s"
    and first: "acceptRun digest uuid now sid input (Some k) s = (Inr a, s1)"
  obtains row where "find (\<lambda>r. rr_session r = sid \<and> rr_key r = Some k) (runs (run_ops (store_step digest) xs s1)) = Some row"
    "rr_hash row = inputHash digest input" "r_id (rr_record row) = r_id (acc_run a)"
proof -
  let ?s = "run_ops (store_step digest) xs s1"
  have inv1: "store_inv s1"
    using store_moves_inv [OF acceptRun_moves [OF inv] inv] first by (metis snd_conv)
  have inv2: "store_inv ?s" by (rule st.run_inv [OF inv1])
  obtain row where row: "row \<in> set (runs s1)" "rr_session row = sid" "rr_key row = Some k"
    "rr_hash row = inputHash digest input" "rr_id row = r_id (acc_run a)"
    using accept_row [OF inv first] by blast
  have "find_run (rr_id row) s1 = Some row"
    by (rule distinct_row) (use inv1 row in \<open>auto simp: store_inv_def\<close>)
  then obtain row' where row': "find_run (rr_id row) ?s = Some row'" "run_later row row'"
    using runs_laterD(1) [OF store_runs_later(3) [OF inv1]] by blast
  then have in': "row' \<in> set (runs ?s)" using find_Some_set by fastforce
  show ?thesis
  proof (rule that [of row'])
    show "find (\<lambda>r. rr_session r = sid \<and> rr_key r = Some k) (runs ?s) = Some row'"
      by (rule key_row_unique) (use inv2 in' row' row in \<open>auto simp: store_inv_def run_later_def\<close>)
    show "rr_hash row' = inputHash digest input" using row' row by (simp add: run_later_def)
    show "r_id (rr_record row') = r_id (acc_run a)"
      using inv_run [OF inv2 in'] row'(2) row(5) unfolding run_row_ok_def run_later_def by metis
  qed
qed

text \<open>
  C6: a retry of an accepted request is idempotent: with the same session and key, whatever happened
  in between, the store is left alone. If the input has the same digest, the answer names the same Run,
  as not created; if it has another digest, the answer is a conflict (409); and in either case it may be
  that a row no longer decodes, and the answer is a corrupt store (500). The digest leaves the
  selected model out, so a request that differs from the first in nothing but its model is answered as if it
  did not differ; \<open>DESIGN.md\<close> and \<open>docs/features/run-plane/sessions-runs.md\<close> say that any
  different input is a conflict.
\<close>

theorem accept_is_idempotent:
  assumes inv: "store_inv s"
    and first: "acceptRun digest uuid now sid input (Some k) s = (Inr a, s1)"
  shows "(case acceptRun digest uuid' now' sid input' (Some k) (run_ops (store_step digest) xs s1) of
      (Inr b, s2) \<Rightarrow> s2 = run_ops (store_step digest) xs s1 \<and>
        inputHash digest input' = inputHash digest input \<and>
        r_id (acc_run b) = r_id (acc_run a) \<and> \<not> acc_created b
    | (Inl e, s2) \<Rightarrow> s2 = run_ops (store_step digest) xs s1 \<and>
        (e = HubError IDEMPOTENCY_CONFLICT 409 \<and> inputHash digest input' \<noteq> inputHash digest input \<or>
         e = HubError STORAGE_CORRUPT 500)) \<and>
    acceptRun digest uuid' now' sid (input'\<lparr>in_model := m\<rparr>) (Some k) (run_ops (store_step digest) xs s1) =
      acceptRun digest uuid' now' sid input' (Some k) (run_ops (store_step digest) xs s1)"
proof -
  let ?s = "run_ops (store_step digest) xs s1"
  obtain row where found: "find (\<lambda>r. rr_session r = sid \<and> rr_key r = Some k) (runs ?s) = Some row"
    and hash: "rr_hash row = inputHash digest input" and id': "r_id (rr_record row) = r_id (acc_run a)"
    by (rule accepted_row_later [OF inv first])
  obtain v where v: "getSession sid s = Inr v" and k: "k \<noteq> []" "length k \<le> 200"
    using first by (auto simp: acceptRun_def split: if_splits)
  have "sessions_later s ?s"
    using store_runs_later(1) [OF inv, of digest "AcceptRun uuid now sid input (Some k) # xs"] first
    by (simp add: valued_def)
  note session = getSession_later [OF inv v this]
  have model: "acceptRun digest uuid' now' sid (input'\<lparr>in_model := m\<rparr>) (Some k) ?s = acceptRun digest uuid' now' sid input' (Some k) ?s"
    by (rule accept_ignores_model) (use find_Some_set [OF found] in \<open>auto simp: list_ex_iff\<close>)
  have "case acceptRun digest uuid' now' sid input' (Some k) ?s of
      (Inr b, s2) \<Rightarrow> s2 = ?s \<and> inputHash digest input' = inputHash digest input \<and> r_id (acc_run b) = r_id (acc_run a) \<and> \<not> acc_created b
    | (Inl e, s2) \<Rightarrow> s2 = ?s \<and>
        (e = HubError IDEMPOTENCY_CONFLICT 409 \<and> inputHash digest input' \<noteq> inputHash digest input \<or> e = HubError STORAGE_CORRUPT 500)"
  proof (cases "getSession sid ?s")
    case (Inl e)
    with session [of e] show ?thesis
      by (simp add: acceptRun_def transaction_def and_then_reading)
  next
    case (Inr w)
    have *: "acceptRun digest uuid' now' sid input' (Some k) ?s =
        (if inputHash digest input' \<noteq> inputHash digest input
         then (Inl (HubError IDEMPOTENCY_CONFLICT 409), ?s)
         else case readRun (rr_record row) of Inl e \<Rightarrow> (Inl e, ?s)
         | Inr r \<Rightarrow> (Inr \<lparr>acc_run = r, acc_created = False\<rparr>, ?s))"
      using Inr k found hash
      by (auto simp: acceptRun_def transaction_def and_then_reading give_def throw_def split: sum.splits)
    show ?thesis
      unfolding * by (auto simp: id' readRun_Inr readRun_def split: sum.split)
  qed
  with model show ?thesis by (intro conjI)
qed


lemma demo_accept:
  "\<exists>a s1. acceptRun demo_digest (js ''r'') 2 (js ''s'') demo_input (Some (js ''k''))
     (after_ops demo_digest (take 1 demo_start)) = (Inr a, s1) \<and> r_id (acc_run a) = js ''r''"
  by (simp add: store_eval demo_eval)

theorem accept_is_idempotent_witness:
  "\<exists>a s1. acceptRun demo_digest (js ''r'') 2 (js ''s'') demo_input (Some (js ''k''))
       (after_ops demo_digest (take 1 demo_start)) = (Inr a, s1) \<and>
     snd (acceptRun demo_digest (js ''q'') 8 (js ''s'') (demo_input\<lparr>in_text := js ''x''\<rparr>) (Some (js ''k''))
       (run_ops (store_step demo_digest) demo_end s1)) = run_ops (store_step demo_digest) demo_end s1"
proof -
  obtain a s1 where first: "acceptRun demo_digest (js ''r'') 2 (js ''s'') demo_input (Some (js ''k''))
      (after_ops demo_digest (take 1 demo_start)) = (Inr a, s1)"
    using demo_accept by blast
  with accept_is_idempotent [OF demo_consistent first, where uuid' = "js ''q''" and now' = 8 and
      input' = "demo_input\<lparr>in_text := js ''x''\<rparr>" and xs = demo_end and m = None]
  show ?thesis by (auto split: prod.splits sum.splits)
qed

section \<open>Replaying events\<close>

lemma decode_rows: "map_result (\<lambda>r. decodeEvent (g r)) xs = Inr ys \<Longrightarrow> ys = map g xs"
  by (induction xs arbitrary: ys) (auto simp: decodeEvent_def split: sum.splits if_splits)

lemma filter_upt_greater:
  "0 \<le> a \<Longrightarrow> filter (\<lambda>n. int n > a) [1..<Suc n] = [Suc (nat a)..<Suc n]"
  by (induction n) auto

lemma take_upt_Suc: "take k [Suc a..<Suc n] = [Suc a..<Suc (min (a + k) n)]"
  by (cases "a + k \<le> n") (auto simp: min_def take_upt simp del: upt_Suc)

text \<open>
  Reading the events of a Run after a cursor gives exactly the next numbers of its log, without a
  gap or a repetition: from the cursor on, at most \<open>limit\<close> and at most 1000 of them.
\<close>

theorem events_after_is_contiguous:
  assumes inv: "store_inv s" and run: "getRun i s = Inr run"
    and evs: "events_after i cursor limit s = Inr evs"
  shows "map e_seq evs =
      map int [Suc (nat cursor)..<Suc (min (nat cursor + nat (min limit 1000)) (nat (r_lastSeq run)))] \<and>
    list_all (\<lambda>e. e_runId e = i) evs"
proof -
  let ?k = "nat (min limit 1000)" and ?log = "run_events i s"
  let ?rows = "filter (\<lambda>r. er_run r = i \<and> er_seq r > cursor) (events s)"
  obtain row where row: "find_run i s = Some row" "readRun (rr_record row) = Inr run"
    using getRun_row [OF run inv] by metis
  then have kept: "r_lastSeq run = r_lastSeq (rr_record row)" by (auto simp: readRun_Inr)
  have "log_ok (rr_record row) ?log" by (rule run_log [OF inv row(1)])
  then have seqs: "map er_seq ?log = map int [1..<Suc (length ?log)]"
    and last: "nat (r_lastSeq run) = length ?log"
    by (simp_all add: log_ok_def kept del: upt_Suc)
  from evs run have cursor: "0 \<le> cursor" and
    read: "map_result (\<lambda>r. decodeEvent (er_record r)) (take ?k (sort_key er_seq ?rows)) = Inr evs"
    by (auto simp: events_after_def split: if_splits)
  have "?rows = filter (\<lambda>r. er_seq r > cursor) ?log" by (simp add: run_events_def conj_commute)
  then have "map er_seq ?rows = filter (\<lambda>n. n > cursor) (map er_seq ?log)"
    by (simp add: filter_map comp_def)
  also have "\<dots> = map int (filter (\<lambda>n. int n > cursor) [1..<Suc (length ?log)])"
    by (simp add: seqs filter_map comp_def del: upt_Suc)
  finally have rows: "map er_seq ?rows = map int [Suc (nat cursor)..<Suc (length ?log)]"
    by (simp only: filter_upt_greater [OF cursor])
  then have "sorted (map er_seq ?rows)" by (simp add: sorted_map del: upt_Suc)
  then have sorted_rows: "sort_key er_seq ?rows = ?rows" by (rule sort_key_sorted)
  have evs': "evs = map er_record (take ?k ?rows)"
    using decode_rows [OF read] sorted_rows by simp
  have ok: "er_seq r = e_seq (er_record r) \<and> er_run r = e_runId (er_record r)" if "r \<in> set ?rows" for r
    using inv_event [OF inv, of r] that unfolding event_ok_def by auto
  have "map e_seq evs = map er_seq (take ?k ?rows)"
    unfolding evs' using ok by (auto dest: in_set_takeD)
  also have "\<dots> = take ?k (map int [Suc (nat cursor)..<Suc (length ?log)])"
    by (simp only: rows flip: take_map)
  also have "\<dots> = map int [Suc (nat cursor)..<Suc (min (nat cursor + ?k) (nat (r_lastSeq run)))]"
    by (simp only: take_map take_upt_Suc last)
  finally have "map e_seq evs = \<dots>" .
  moreover have "list_all (\<lambda>e. e_runId e = i) evs"
    unfolding evs' using ok by (auto simp: list_all_iff dest!: in_set_takeD)
  ultimately show ?thesis ..
qed

lemma demo_events:
  "\<exists>run evs. getRun (js ''r'') (after_ops demo_digest (demo_start @ demo_end)) = Inr run \<and>
     r_lastSeq run = 2 \<and>
     events_after (js ''r'') 1 100 (after_ops demo_digest (demo_start @ demo_end)) = Inr evs"
  by (simp add: store_eval demo_eval events_after_def decodeEvent_def event_record_ok_def)

theorem events_after_is_contiguous_witness:
  "\<exists>evs. events_after (js ''r'') 1 100 (after_ops demo_digest (demo_start @ demo_end)) = Inr evs \<and>
     map e_seq evs = [2]"
proof -
  obtain run evs where *: "getRun (js ''r'') (after_ops demo_digest (demo_start @ demo_end)) = Inr run"
    "r_lastSeq run = 2"
    "events_after (js ''r'') 1 100 (after_ops demo_digest (demo_start @ demo_end)) = Inr evs"
    using demo_events by blast
  from events_after_is_contiguous [OF demo_consistent *(1,3)] *(2)
  have "map e_seq evs = [2]" by (simp add: numeral_2_eq_2 numeral_3_eq_3)
  with *(3) show ?thesis by (intro exI [of _ evs] conjI)
qed

section \<open>Lives of sessions and permissions\<close>

text \<open>
  C7: a permission goes through its life once: across every sequence of operations its options stay,
  its status only advances, a decision once made stays what it is, and an applied or expired
  permission does not change any more.
\<close>

theorem permission_life:
  assumes "store_inv s" "find_permission i s = Some row"
  shows "\<exists>row'. find_permission i (run_ops (store_step digest) xs s) = Some row' \<and>
    p_options (pr_record row') = p_options (pr_record row) \<and>
    permission_rank (p_status (pr_record row)) \<le> permission_rank (p_status (pr_record row')) \<and>
    (p_decision (pr_record row) \<noteq> None \<longrightarrow> p_decision (pr_record row') = p_decision (pr_record row)) \<and>
    (p_status (pr_record row) = Applied \<or> p_status (pr_record row) = Expired \<longrightarrow>
       pr_record row' = pr_record row)"
proof -
  from store_runs_later(2) [OF assms(1), of digest xs] assms(2)
  obtain row' where "find_permission i (run_ops (store_step digest) xs s) = Some row'"
    "permission_later (pr_record row) (pr_record row')"
    unfolding permissions_later_def by blast
  then show ?thesis by (auto simp: permission_later_def)
qed

lemma demo_decided:
  "\<exists>row. find_permission (js ''p'') (after_ops demo_digest (demo_start @ demo_permit)) = Some row \<and>
     p_decision (pr_record row) = Some (js ''yes'')"
  by (simp add: store_eval demo_eval)

theorem permission_life_witness:
  "\<exists>row. find_permission (js ''p'') (run_ops (store_step demo_digest) demo_end
       (after_ops demo_digest (demo_start @ demo_permit))) = Some row \<and>
     p_decision (pr_record row) = Some (js ''yes'')"
proof -
  obtain row where row: "find_permission (js ''p'') (after_ops demo_digest (demo_start @ demo_permit)) = Some row"
    "p_decision (pr_record row) = Some (js ''yes'')"
    using demo_decided by blast
  from permission_life [OF demo_consistent row(1), of demo_digest demo_end] row(2)
  show ?thesis by auto
qed

text \<open>
  A session only goes forward (open, closing, closed), keeps the engine and the workspace it was
  created with, and a backend session once bound is never replaced.
\<close>

theorem session_life:
  assumes "store_inv s" "find_session i s = Some row"
  shows "\<exists>row'. find_session i (run_ops (store_step digest) xs s) = Some row' \<and>
    session_order (s_status (sr_record row)) \<le> session_order (s_status (sr_record row')) \<and>
    s_engineId (sr_record row') = s_engineId (sr_record row) \<and>
    s_workspaceId (sr_record row') = s_workspaceId (sr_record row) \<and>
    (s_backendSessionId (sr_record row) \<noteq> None \<longrightarrow>
       s_backendSessionId (sr_record row') = s_backendSessionId (sr_record row))"
proof -
  from store_runs_later(1) [OF assms(1), of digest xs] assms(2)
  obtain row' where "find_session i (run_ops (store_step digest) xs s) = Some row'"
    "session_grows (sr_record row) (sr_record row')"
    unfolding sessions_later_def by blast
  then show ?thesis by (auto simp: session_grows_def)
qed

lemma demo_session:
  "\<exists>row. find_session (js ''s'') (after_ops demo_digest
     (demo_start @ [SetSessionStatus 5 (js ''s'') SessionClosing])) = Some row \<and>
     s_status (sr_record row) = SessionClosing"
  by (simp add: store_eval demo_eval)

theorem session_life_witness:
  "\<exists>row. find_session (js ''s'') (run_ops (store_step demo_digest)
       [SetSessionStatus 6 (js ''s'') SessionOpen] (after_ops demo_digest
       (demo_start @ [SetSessionStatus 5 (js ''s'') SessionClosing]))) = Some row \<and>
     s_status (sr_record row) \<noteq> SessionOpen"
proof -
  obtain row where row: "find_session (js ''s'') (after_ops demo_digest
      (demo_start @ [SetSessionStatus 5 (js ''s'') SessionClosing])) = Some row"
    "s_status (sr_record row) = SessionClosing"
    using demo_session by blast
  from session_life [OF demo_consistent row(1), of demo_digest "[SetSessionStatus 6 (js ''s'') SessionOpen]"]
  obtain row' where row': "find_session (js ''s'') (run_ops (store_step demo_digest)
       [SetSessionStatus 6 (js ''s'') SessionOpen] (after_ops demo_digest
       (demo_start @ [SetSessionStatus 5 (js ''s'') SessionClosing]))) = Some row'"
    "session_order (s_status (sr_record row)) \<le> session_order (s_status (sr_record row'))" by blast
  with row(2) have "s_status (sr_record row') \<noteq> SessionOpen" by auto
  with row'(1) show ?thesis by blast
qed

end
