(* ===== verification/ModelRefs.thy ===== *)
theory ModelRefs
  imports Prelude
begin

text \<open>
  Model Refs and the level lists of the model plane (\<open>packages/core/src/model-refs.ts\<close>):
  \<open>provider/model\<close> names a model of a provider, \<open>group/<id>\<close> a route group.
\<close>

section \<open>Identifiers\<close>

definition is_lower :: "nat \<Rightarrow> bool" where
  "is_lower c \<longleftrightarrow> 97 \<le> c \<and> c \<le> 122"

definition id_unit :: "nat \<Rightarrow> bool" where
  "id_unit c \<longleftrightarrow> is_lower c \<or> is_digit c \<or> c = 45"

text \<open>\<open>/^[a-z0-9][a-z0-9-]{0,62}$/\<close>\<close>

definition PROVIDER_ID :: "jstring \<Rightarrow> bool" where
  "PROVIDER_ID s \<longleftrightarrow>
     (case s of
        [] \<Rightarrow> False
      | c # cs \<Rightarrow> (is_lower c \<or> is_digit c) \<and> length cs \<le> 62 \<and> list_all id_unit cs)"

definition isProviderId :: "jstring \<Rightarrow> bool" where
  "isProviderId s \<longleftrightarrow> PROVIDER_ID s \<and> s \<noteq> js ''group''"

section \<open>Parsing a Model Ref\<close>

record model_ref =
  mr_ref :: jstring
  mr_provider :: jstring
  mr_model :: jstring

datatype parsed_ref = RefModel model_ref | RefGroup jstring

definition parseModelRef :: "jstring \<Rightarrow> parsed_ref option" where
  "parseModelRef text =
     (case indexOf 47 text of
        None \<Rightarrow> None
      | Some slash \<Rightarrow>
          if slash = 0 \<or> slash = length text - 1 then None
          else let head = take slash text; rest = drop (slash + 1) text
            in if head = js ''group''
               then (if PROVIDER_ID rest then Some (RefGroup rest) else None)
               else if \<not> isProviderId head \<or> list_ex is_space rest then None
               else Some (RefModel \<lparr>mr_ref = text, mr_provider = head, mr_model = rest\<rparr>))"

datatype effort = ENone | EMinimal | ELow | EMedium | EHigh | EXHigh | EMax

fun effort_text :: "effort \<Rightarrow> jstring" where
  "effort_text ENone = js ''none''"
| "effort_text EMinimal = js ''minimal''"
| "effort_text ELow = js ''low''"
| "effort_text EMedium = js ''medium''"
| "effort_text EHigh = js ''high''"
| "effort_text EXHigh = js ''xhigh''"
| "effort_text EMax = js ''max''"

definition reasoningEfforts :: "effort list" where
  "reasoningEfforts = [ENone, EMinimal, ELow, EMedium, EHigh, EXHigh, EMax]"

text \<open>The levels a group rule compares with, lowest first.\<close>

definition ruleEfforts :: "effort list" where
  "ruleEfforts = [ELow, EMedium, EHigh, EXHigh, EMax]"

datatype weekday = Sun | Mon | Tue | Wed | Thu | Fri | Sat

definition weekdays :: "weekday list" where
  "weekdays = [Sun, Mon, Tue, Wed, Thu, Fri, Sat]"

fun weekday_text :: "weekday \<Rightarrow> jstring" where
  "weekday_text Sun = js ''sun''"
| "weekday_text Mon = js ''mon''"
| "weekday_text Tue = js ''tue''"
| "weekday_text Wed = js ''wed''"
| "weekday_text Thu = js ''thu''"
| "weekday_text Fri = js ''fri''"
| "weekday_text Sat = js ''sat''"

definition effort_of :: "jstring \<Rightarrow> effort option" where
  "effort_of s = find (\<lambda>e. effort_text e = s) reasoningEfforts"

section \<open>Levels are ordered as their list\<close>

fun effort_rank :: "effort \<Rightarrow> nat" where
  "effort_rank ENone = 0"
| "effort_rank EMinimal = 1"
| "effort_rank ELow = 2"
| "effort_rank EMedium = 3"
| "effort_rank EHigh = 4"
| "effort_rank EXHigh = 5"
| "effort_rank EMax = 6"

instantiation effort :: linorder
begin

definition less_eq_effort :: "effort \<Rightarrow> effort \<Rightarrow> bool" where
  "a \<le> b \<longleftrightarrow> effort_rank a \<le> effort_rank b"

definition less_effort :: "effort \<Rightarrow> effort \<Rightarrow> bool" where
  "a < b \<longleftrightarrow> effort_rank a < effort_rank b"

instance
proof
  fix a b c :: effort
  show "a < b \<longleftrightarrow> a \<le> b \<and> \<not> b \<le> a" by (auto simp: less_eq_effort_def less_effort_def)
  show "a \<le> a" by (simp add: less_eq_effort_def)
  show "a \<le> b \<Longrightarrow> b \<le> c \<Longrightarrow> a \<le> c" by (simp add: less_eq_effort_def)
  show "a \<le> b \<Longrightarrow> b \<le> a \<Longrightarrow> a = b" by (cases a; cases b; simp add: less_eq_effort_def)
  show "a \<le> b \<or> b \<le> a" by (auto simp: less_eq_effort_def)
qed

end

lemma sorted_efforts: "sorted reasoningEfforts" "sorted ruleEfforts"
  by (simp_all add: reasoningEfforts_def ruleEfforts_def less_eq_effort_def)

lemma set_efforts: "set reasoningEfforts = UNIV"
proof -
  have "e \<in> set reasoningEfforts" for e by (cases e) (simp_all add: reasoningEfforts_def)
  then show ?thesis by blast
qed

section \<open>Facts\<close>

lemma PROVIDER_ID_units: "PROVIDER_ID s \<Longrightarrow> list_all id_unit s \<and> s \<noteq> []"
  by (cases s) (auto simp: PROVIDER_ID_def id_unit_def)

lemma PROVIDER_ID_no_slash: "PROVIDER_ID s \<Longrightarrow> 47 \<notin> set s"
proof -
  have "\<not> id_unit 47" by (simp add: id_unit_def is_lower_def is_digit_def)
  then show "PROVIDER_ID s \<Longrightarrow> 47 \<notin> set s"
    using PROVIDER_ID_units [of s] unfolding list_all_iff by blast
qed

lemma group_is_id: "PROVIDER_ID (js ''group'')"
  by (simp add: PROVIDER_ID_def js_eval id_unit_def is_lower_def)

text \<open>What a parsed reference says of the text, and that every such text parses.\<close>

lemma parse_modelD:
  assumes "parseModelRef text = Some (RefModel r)"
  shows "mr_ref r = text" "text = mr_provider r @ 47 # mr_model r" "isProviderId (mr_provider r)"
    "mr_model r \<noteq> []" "\<not> list_ex is_space (mr_model r)"
proof -
  obtain slash where slash: "indexOf 47 text = Some slash" "slash \<noteq> 0" "slash \<noteq> length text - 1"
    using assms by (auto simp: parseModelRef_def split: option.splits if_splits)
  with indexOf_SomeD [OF slash(1)] have "Suc slash < length text" by auto
  with slash assms indexOf_split [OF slash(1)]
  show "mr_ref r = text" "text = mr_provider r @ 47 # mr_model r" "isProviderId (mr_provider r)"
    "mr_model r \<noteq> []" "\<not> list_ex is_space (mr_model r)"
    by (auto simp: parseModelRef_def Let_def split: if_splits)
qed

lemma parse_groupD:
  assumes "parseModelRef text = Some (RefGroup g)"
  shows "text = js ''group/'' @ g" "PROVIDER_ID g"
proof -
  obtain slash where slash: "indexOf 47 text = Some slash"
    "take slash text = js ''group''" "g = drop (Suc slash) text" "PROVIDER_ID g"
    using assms by (auto simp: parseModelRef_def Let_def split: option.splits if_splits)
  have "js ''group/'' = js ''group'' @ [47]" by (simp add: js_eval)
  with indexOf_split [OF slash(1)] slash show "text = js ''group/'' @ g" "PROVIDER_ID g" by simp_all
qed

lemma parse_model:
  assumes "isProviderId p" "m \<noteq> []" "\<not> list_ex is_space m"
  shows "parseModelRef (p @ 47 # m) =
    Some (RefModel \<lparr>mr_ref = p @ 47 # m, mr_provider = p, mr_model = m\<rparr>)"
proof -
  have p: "p \<noteq> []" "47 \<notin> set p" "p \<noteq> js ''group''"
    using assms(1) PROVIDER_ID_no_slash [of p] PROVIDER_ID_units [of p] by (auto simp: isProviderId_def)
  then show ?thesis
    using assms by (auto simp: parseModelRef_def indexOf_append Let_def)
qed

lemma parse_group:
  assumes "PROVIDER_ID g"
  shows "parseModelRef (js ''group/'' @ g) = Some (RefGroup g)"
proof -
  have split: "js ''group/'' = js ''group'' @ [47]" and five: "length (js ''group'') = 5"
    by (simp_all add: js_eval)
  have "47 \<notin> set (js ''group'')" by (simp add: js_eval)
  then have "indexOf 47 (js ''group'' @ 47 # g) = Some 5"
    using five indexOf_append by metis
  with assms five PROVIDER_ID_units [OF assms] show ?thesis
    by (simp add: parseModelRef_def split Let_def)
qed

end
