(* ===== verification/ModelPlane.thy ===== *)
theory ModelPlane
  imports Complex_Main ModelRefs
begin

text \<open>
  The records of the model plane and the pure decisions on them
  (\<open>packages/core/src/model-plane.ts\<close>, \<open>accountUsable\<close> of \<open>subscriptions.ts\<close>): providers with
  credentials and models, retry policies, route groups with their rules, Gateway Keys and the
  models a key may use.

  Whole numbers of the records are \<open>int\<close>; percentages, costs and times that the code divides are
  \<open>real\<close> (the rounding of doubles is not modelled). Fields that no modelled operation reads are
  left out of a record.
\<close>

section \<open>Providers\<close>

datatype protocol = Chat | Responses | Anthropic | Gemini

fun protocol_text :: "protocol \<Rightarrow> jstring" where
  "protocol_text Chat = js ''chat''"
| "protocol_text Responses = js ''responses''"
| "protocol_text Anthropic = js ''anthropic''"
| "protocol_text Gemini = js ''gemini''"

datatype backend = Siwc | Copilot

record account =
  acc_backend :: backend
  acc_subject :: jstring
  acc_notice :: jstring
  acc_signedOutAt :: "jstring option"

fun notice_version :: "backend \<Rightarrow> jstring" where
  "notice_version Siwc = js ''siwc-2026-10-04''"
| "notice_version Copilot = js ''copilot-2026-10-04''"

definition accountUsable :: "account option \<Rightarrow> bool" where
  "accountUsable acct \<longleftrightarrow>
     (case acct of
        None \<Rightarrow> False
      | Some a \<Rightarrow> acc_signedOutAt a = None \<and> acc_notice a = notice_version (acc_backend a))"

record credential =
  c_id :: jstring
  c_name :: jstring
  c_ref :: "jstring \<times> jstring"
  c_protocols :: "protocol list option"
  c_enabled :: bool
  c_account :: "account option"

datatype modality = MText | MImage | MPdf | MAudio | MVideo

record provider_model =
  m_id :: jstring
  m_wire :: "jstring option"
  m_contextWindow :: "int option"
  m_maxOutputTokens :: "int option"
  m_reasoning :: "bool option"
  m_inputModalities :: "modality list option"
  m_credentials :: "jstring list option"

datatype source = SourceLive | SourceCatalog | SourceStatic | SourceManual

datatype expose = ExposeAll | Expose "jstring list"

record provider_models =
  ms_source :: source
  ms_list :: "provider_model list"
  ms_expose :: expose
  ms_listedFor :: "jstring list option"

record provider =
  pv_id :: jstring
  pv_name :: jstring
  pv_endpoints :: "(protocol, jstring) jmap"
  pv_credentials :: "credential list"
  pv_models :: provider_models
  pv_wire :: "(jstring, jstring) jmap option"
  pv_translateOnly :: bool
  pv_subscription :: "backend option"
  pv_enabled :: "bool option"

definition credentialUnlisted :: "provider \<Rightarrow> jstring \<Rightarrow> jstring \<Rightarrow> bool" where
  "credentialUnlisted provider credential modelId =
     (case ms_listedFor (pv_models provider) of
        None \<Rightarrow> False
      | Some listedFor \<Rightarrow>
          if credential \<notin> set listedFor then False
          else (case find (\<lambda>m. m_id m = modelId) (ms_list (pv_models provider)) of
              None \<Rightarrow> False
            | Some model \<Rightarrow> (case m_credentials model of
                  None \<Rightarrow> False
                | Some ids \<Rightarrow> credential \<notin> set ids)))"

definition providerEnabled :: "provider \<Rightarrow> bool" where
  "providerEnabled p \<longleftrightarrow> pv_enabled p \<noteq> Some False"

section \<open>A provider's own limits\<close>

text \<open>
  The ranges are read with \<open>RANGES[name]\<close> from an object literal: besides its two keys it answers
  the names every object inherits with a value that is not a range, whose bounds compare false.
\<close>

datatype limit_range = Range int int | Inherited | NoRange

definition inherited_names :: "jstring list" where
  "inherited_names = map js [''constructor'', ''__defineGetter__'', ''__defineSetter__'',
     ''hasOwnProperty'', ''__lookupGetter__'', ''__lookupSetter__'', ''isPrototypeOf'',
     ''propertyIsEnumerable'', ''toString'', ''valueOf'', ''__proto__'', ''toLocaleString'']"

definition PROVIDER_LIMIT_RANGES :: "jstring \<Rightarrow> limit_range" where
  "PROVIDER_LIMIT_RANGES name =
     (if name = js ''concurrentPerCredential'' then Range 1 1024
      else if name = js ''queuePerCredential'' then Range 0 65536
      else if name \<in> set inherited_names then Inherited
      else NoRange)"

definition show_int :: "int \<Rightarrow> jstring" where
  "show_int n = (if n < 0 then 45 # show_nat (nat (- n)) else show_nat (nat n))"

definition limit_problem :: "jstring \<Rightarrow> json \<Rightarrow> (jstring \<times> jstring) list" where
  "limit_problem name item =
     (let pointer = js ''/'' @ name in
      case PROVIDER_LIMIT_RANGES name of
        NoRange \<Rightarrow> [(pointer, js ''is not a limit'')]
      | Range low high \<Rightarrow>
          (case item of
             JNum n \<Rightarrow> if n < low \<or> n > high
               then [(pointer, js ''must be an integer from '' @ show_int low @ js '' to '' @ show_int high)]
               else []
           | _ \<Rightarrow> [(pointer, js ''must be an integer from '' @ show_int low @ js '' to '' @ show_int high)])
      | Inherited \<Rightarrow>
          (case item of
             JNum n \<Rightarrow> []
           | _ \<Rightarrow> [(pointer, js ''must be an integer from undefined to undefined'')]))"

definition providerLimitsProblems :: "json \<Rightarrow> (jstring \<times> jstring) list" where
  "providerLimitsProblems value =
     (case value of
        JObj entries \<Rightarrow> concat (map (\<lambda>(name, item). limit_problem name item) entries)
      | _ \<Rightarrow> [([], js ''must be an object'')])"

section \<open>The name sent upstream\<close>

text \<open>
  \<open>replaceAll\<close> of a text of one code unit: the patterns \<open>$$\<close>, \<open>$&\<close>, \<open>$`\<close> and \<open>$'\<close> in the replacement
  stand for a dollar, the match, what is before it and what is after it.
\<close>

fun expanded :: "nat \<Rightarrow> jstring \<Rightarrow> jstring \<Rightarrow> jstring \<Rightarrow> jstring" where
  "expanded c before after [] = []"
| "expanded c before after [u] = [u]"
| "expanded c before after (u # v # r) =
     (if u = 36 \<and> v = 36 then 36 # expanded c before after r
      else if u = 36 \<and> v = 38 then c # expanded c before after r
      else if u = 36 \<and> v = 96 then before @ expanded c before after r
      else if u = 36 \<and> v = 39 then after @ expanded c before after r
      else u # expanded c before after (v # r))"

fun replace_all_unit :: "nat \<Rightarrow> jstring \<Rightarrow> jstring \<Rightarrow> jstring \<Rightarrow> jstring" where
  "replace_all_unit c by before [] = []"
| "replace_all_unit c by before (u # s) =
     (if u = c then expanded c before s by else [u]) @ replace_all_unit c by (before @ [u]) s"

lemma replace_star_example:
  "replace_all_unit 42 (js ''m'') [] (js ''x-*-*'') = js ''x-m-m''" "replace_all_unit 42 (js ''a$$b$&'') [] (js ''x*'') = js ''xa$b*''"
  by (simp_all add: js_eval)

text \<open>
  The model's own name (an empty one does not count), else the provider's entry for the id, else
  its \<open>*\<close> entry with every \<open>*\<close> replaced, else the id. The table is taken to hold its own entries only: for an
  id such as \<open>constructor\<close> the code gets what every JavaScript object inherits.
\<close>

definition wireName :: "provider \<Rightarrow> jstring \<Rightarrow> jstring" where
  "wireName p modelId =
     (let listed = Option.bind (find (\<lambda>m. m_id m = modelId) (ms_list (pv_models p))) m_wire
      in case listed of
        Some (u # w) \<Rightarrow> u # w
      | _ \<Rightarrow>
          (case pv_wire p of
             None \<Rightarrow> modelId
           | Some wire \<Rightarrow>
               (case jget wire modelId of
                  Some exact \<Rightarrow> exact
                | None \<Rightarrow> (case jget wire (js ''*'') of
                    None \<Rightarrow> modelId
                  | Some pattern \<Rightarrow> replace_all_unit 42 modelId [] pattern))))"

section \<open>Routing policy\<close>

datatype strategy = OrderS | Rotate | LeastUsed | Latency | Smart | Pace

datatype stickiness = StickAuto | StickSession | StickTurn | StickOff

record reading =
  rd_window :: jstring
  rd_usedPercent :: real
  rd_resetsAt :: "real option"
  rd_spanSeconds :: "real option"
  rd_observedAt :: real

record retry_policy =
  rp_perCandidate :: int
  rp_totalAttempts :: int
  rp_baseBackoffMs :: int
  rp_maxBackoffMs :: int
  rp_retryAfterWaitCapMs :: int

definition DEFAULT_RETRY_POLICY :: retry_policy where
  "DEFAULT_RETRY_POLICY = \<lparr>rp_perCandidate = 3, rp_totalAttempts = 4, rp_baseBackoffMs = 1000,
     rp_maxBackoffMs = 8000, rp_retryAfterWaitCapMs = 8000\<rparr>"

text \<open>\<open>Partial<RetryPolicy>\<close>: the fields a group sets.\<close>

record retry_override =
  ro_perCandidate :: "int option"
  ro_totalAttempts :: "int option"
  ro_baseBackoffMs :: "int option"
  ro_maxBackoffMs :: "int option"
  ro_retryAfterWaitCapMs :: "int option"

section \<open>Route groups\<close>

record time_window =
  tw_from :: jstring
  tw_to :: jstring
  tw_days :: "weekday list option"

datatype rule_effort = AnyEffort | AtLeast effort

record group_rule =
  gr_use :: jstring
  gr_tokens :: "int option"
  gr_images :: "bool option"
  gr_effort :: "rule_effort option"
  gr_agents :: "jstring list option"
  gr_intent :: "jstring option"
  gr_compact :: "bool option"
  gr_time :: "time_window option"

record route_group =
  g_id :: jstring
  g_strategy :: strategy
  g_stickiness :: stickiness
  g_members :: "jstring list"
  g_retry :: "retry_override option"
  g_rules :: "group_rule list option"
  g_classifier :: "jstring option"
  g_effortAuto :: bool

section \<open>Gateway Keys\<close>

datatype key_scope = ScopeAgent | ScopeSession | ScopeClient

fun scope_letter :: "key_scope \<Rightarrow> nat" where
  "scope_letter ScopeAgent = 97"
| "scope_letter ScopeSession = 115"
| "scope_letter ScopeClient = 99"

datatype period = PeriodDay | PeriodWeek | PeriodMonth

record key_budget =
  b_period :: period
  b_tokens :: "real option"
  b_costUsd :: "real option"
  b_cacheReads :: "bool option"

record key_quota =
  q_requestsPerMinute :: "int option"
  q_budgets :: "key_budget list option"

record key_record =
  k_keyId :: jstring
  k_name :: jstring
  k_scope :: key_scope
  k_modelAllow :: "jstring list"
  k_modelDeny :: "jstring list option"
  k_quota :: "key_quota option"
  k_allowLan :: "bool option"
  k_secretHash :: jstring
  k_expiresAt :: "real option"
  k_revokedAt :: "jstring option"
  k_suspendedAt :: "jstring option"

text \<open>\<open>sha256\<close> stands for SHA-256 of a string's UTF-8 bytes, as bytes; its hex text is Node's.\<close>

definition hex_unit :: "nat \<Rightarrow> nat" where
  "hex_unit d = (if d < 10 then 48 + d else 87 + d)"

definition hex_text :: "nat list \<Rightarrow> jstring" where
  "hex_text bytes = concat (map (\<lambda>b. [hex_unit (b div 16), hex_unit (b mod 16)]) bytes)"

definition hashGatewayKeySecret :: "(jstring \<Rightarrow> nat list) \<Rightarrow> jstring \<Rightarrow> jstring" where
  "hashGatewayKeySecret sha256 secret = hex_text (sha256 secret)"

definition hex_value :: "nat \<Rightarrow> nat option" where
  "hex_value c =
     (if 48 \<le> c \<and> c \<le> 57 then Some (c - 48)
      else if 97 \<le> c \<and> c \<le> 102 then Some (c - 87)
      else if 65 \<le> c \<and> c \<le> 70 then Some (c - 55)
      else None)"

text \<open>\<open>Buffer.from(text, "hex")\<close> stops at the first pair that is not hex.\<close>

fun from_hex :: "jstring \<Rightarrow> nat list" where
  "from_hex (a # b # s) =
     (case (hex_value a, hex_value b) of
        (Some x, Some y) \<Rightarrow> (16 * x + y) # from_hex s
      | _ \<Rightarrow> [])"
| "from_hex s = []"

definition gatewayKeyMatches :: "(jstring \<Rightarrow> nat list) \<Rightarrow> key_record \<Rightarrow> jstring \<Rightarrow> bool" where
  "gatewayKeyMatches sha256 rec secret =
     (let presented = from_hex (hashGatewayKeySecret sha256 secret);
          stored = from_hex (k_secretHash rec)
      in length presented = length stored \<and> presented = stored)"

text \<open>The alias of a model: ten digits of the digest's first eight bytes, big-endian.\<close>

definition claudeModelAlias :: "(jstring \<Rightarrow> nat list) \<Rightarrow> jstring \<Rightarrow> jstring" where
  "claudeModelAlias sha256 ref =
     (let number = foldl (\<lambda>n b. 256 * n + b) 0 (take 8 (sha256 ref)) mod 10000000000
      in js ''claude-hh-'' @ pad_zero 10 (show_nat number))"

text \<open>The base64url text of bytes, without padding.\<close>

definition base64_unit :: "nat \<Rightarrow> nat" where
  "base64_unit d =
     (if d < 26 then 65 + d else if d < 52 then 71 + d else if d < 62 then d - 4
      else if d = 62 then 45 else 95)"

fun base64url :: "nat list \<Rightarrow> jstring" where
  "base64url [] = []"
| "base64url [a] = map base64_unit [a div 4, a mod 4 * 16]"
| "base64url [a, b] = map base64_unit [a div 4, a mod 4 * 16 + b div 16, b mod 16 * 4]"
| "base64url (a # b # c # s) =
     map base64_unit [a div 4, a mod 4 * 16 + b div 16, b mod 16 * 4 + c div 64, c mod 64] @
     base64url s"

record issued_key =
  ik_text :: jstring
  ik_keyId :: jstring
  ik_secretHash :: jstring

definition key_alphabet :: jstring where
  "key_alphabet = js ''abcdefghijklmnopqrstuvwxyz234567''"

definition issueGatewayKey ::
    "(jstring \<Rightarrow> nat list) \<Rightarrow> nat list \<Rightarrow> nat list \<Rightarrow> key_scope \<Rightarrow> issued_key" where
  "issueGatewayKey sha256 idBytes secretBytes scope =
     (let keyId = map (\<lambda>b. key_alphabet ! (b mod 32)) idBytes;
          secret = base64url secretBytes
      in \<lparr>ik_text = js ''hhk_'' @ [scope_letter scope] @ js ''_'' @ keyId @ js ''_'' @ secret,
          ik_keyId = keyId, ik_secretHash = hashGatewayKeySecret sha256 secret\<rparr>)"

definition key_id_unit :: "nat \<Rightarrow> bool" where
  "key_id_unit c \<longleftrightarrow> is_lower c \<or> 50 \<le> c \<and> c \<le> 55"

definition isGatewayKeyId :: "jstring \<Rightarrow> bool" where
  "isGatewayKeyId s \<longleftrightarrow> length s = 12 \<and> list_all key_id_unit s"

definition secret_unit :: "nat \<Rightarrow> bool" where
  "secret_unit c \<longleftrightarrow> 65 \<le> c \<and> c \<le> 90 \<or> is_lower c \<or> is_digit c \<or> c = 45 \<or> c = 95"

definition KEY_SECRET :: "jstring \<Rightarrow> bool" where
  "KEY_SECRET s \<longleftrightarrow> length s = 43 \<and> list_all secret_unit s"

definition scope_of_letter :: "nat \<Rightarrow> key_scope option" where
  "scope_of_letter c = find (\<lambda>sc. scope_letter sc = c) [ScopeAgent, ScopeSession, ScopeClient]"

text \<open>\<open>/^hhk_([asc])_([a-z2-7]{12})_(.+)$/\<close>: the parts have fixed places.\<close>

definition parseGatewayKey :: "jstring \<Rightarrow> (key_scope \<times> jstring \<times> jstring) option" where
  "parseGatewayKey text =
     (let keyId = take 12 (drop 6 text); secret = drop 19 text
      in if startsWith text (js ''hhk_'') \<and> length text > 19 \<and> text ! 5 = 95 \<and> text ! 18 = 95 \<and>
           isGatewayKeyId keyId \<and> KEY_SECRET secret
         then map_option (\<lambda>scope. (scope, keyId, secret)) (scope_of_letter (text ! 4))
         else None)"

section \<open>The models a key may use\<close>

definition admits :: "parsed_ref \<Rightarrow> jstring \<Rightarrow> jstring \<Rightarrow> bool" where
  "admits parsed target entry \<longleftrightarrow>
     entry = js ''*'' \<or> entry = target \<or>
     (case parsed of RefModel r \<Rightarrow> entry = mr_provider r @ js ''/*'' | RefGroup _ \<Rightarrow> False)"

definition modelAllowed :: "jstring list \<Rightarrow> jstring \<Rightarrow> jstring list \<Rightarrow> bool" where
  "modelAllowed modelAllow target modelDeny =
     (case parseModelRef target of
        None \<Rightarrow> False
      | Some parsed \<Rightarrow>
          list_ex (admits parsed target) modelAllow \<and> \<not> list_ex (admits parsed target) modelDeny)"

definition isModelPattern :: "jstring \<Rightarrow> bool" where
  "isModelPattern entry \<longleftrightarrow> entry = js ''*'' \<or> parseModelRef entry \<noteq> None"

end
