(* ===== verification/ModelPlaneProps.thy ===== *)
theory ModelPlaneProps
  imports ModelPlane
begin

text \<open>
  Gateway Keys and Model Refs: the text of an issued key reads back as the key, a Model Ref reads
  back as its parts, and what an allowlist admits.
\<close>

section \<open>Gateway Keys\<close>

lemma length_base64: "length (base64url s) = (4 * length s + 2) div 3"
  by (induction s rule: base64url.induct) auto

lemma base64_unit_ok: "d < 64 \<Longrightarrow> secret_unit (base64_unit d)"
  by (auto simp: base64_unit_def secret_unit_def is_lower_def is_digit_def)

lemma list_all_base64: "list_all (\<lambda>b. b < 256) s \<Longrightarrow> list_all secret_unit (base64url s)"
  by (induction s rule: base64url.induct) (auto intro!: base64_unit_ok)

lemma key_alphabet_ok: "list_all key_id_unit key_alphabet" "length key_alphabet = 32"
  by (simp_all add: key_alphabet_def js_eval key_id_unit_def is_lower_def)

lemma key_id_ok: "length idBytes = 12 \<Longrightarrow> isGatewayKeyId (map (\<lambda>b. key_alphabet ! (b mod 32)) idBytes)"
proof -
  have "key_id_unit (key_alphabet ! (b mod 32))" for b
    using key_alphabet_ok by (simp add: list_all_length)
  then show "length idBytes = 12 \<Longrightarrow> ?thesis"
    by (simp add: isGatewayKeyId_def list_all_iff)
qed

lemma scope_of_letter_scope [simp]: "scope_of_letter (scope_letter sc) = Some sc"
  by (cases sc) (simp_all add: scope_of_letter_def)

lemma hex_value_unit: "d < 16 \<Longrightarrow> hex_value (hex_unit d) = Some d"
  by (auto simp: hex_value_def hex_unit_def)

lemma from_hex_text: "list_all (\<lambda>b. b < 256) bytes \<Longrightarrow> from_hex (hex_text bytes) = bytes"
proof (induction bytes)
  case Nil
  then show ?case by (simp add: hex_text_def)
next
  case (Cons b bytes)
  then have "b div 16 < 16" "b mod 16 < 16" by auto
  with Cons show ?case by (simp add: hex_text_def hex_value_unit)
qed

text \<open>
  C19: an issued key reads back: the text \<open>parseGatewayKey\<close> is given returns the scope, the key id and
  the secret it was issued with, the id is a key id, and the secret matches a record that stores the
  issued hash; another secret matches only with the same digest.
\<close>

theorem issued_key_reads_back:
  assumes "length idBytes = 12" "length secretBytes = 32" "list_all (\<lambda>b. b < 256) secretBytes"
    and digest: "\<And>s. list_all (\<lambda>b. b < 256) (sha256 s)"
    and issued: "key = issueGatewayKey sha256 idBytes secretBytes scope"
  shows "parseGatewayKey (ik_text key) = Some (scope, ik_keyId key, base64url secretBytes) \<and>
    isGatewayKeyId (ik_keyId key) \<and>
    gatewayKeyMatches sha256 (rec\<lparr>k_secretHash := ik_secretHash key\<rparr>) secret =
      (sha256 secret = sha256 (base64url secretBytes))"
proof (intro conjI)
  let ?id = "map (\<lambda>b. key_alphabet ! (b mod 32)) idBytes" and ?secret = "base64url secretBytes"
  have id: "isGatewayKeyId ?id" by (rule key_id_ok [OF assms(1)])
  have secret: "KEY_SECRET ?secret"
    using assms(2,3) by (simp add: KEY_SECRET_def length_base64 list_all_base64)
  have key_text: "ik_text key = js ''hhk_'' @ scope_letter scope # 95 # ?id @ 95 # ?secret"
    by (simp add: issued issueGatewayKey_def Let_def js_eval)
  have four: "js ''hhk_'' = [104, 104, 107, 95]" by (simp add: js_eval)
  have twelve: "length ?id = 12" using assms(1) by simp
  have tail: "drop 6 (ik_text key) = ?id @ 95 # ?secret"
    and fixed: "ik_text key ! 4 = scope_letter scope" "ik_text key ! 5 = 95"
    by (simp_all add: key_text four)
  have "ik_text key ! 18 = drop 6 (ik_text key) ! 12" "drop 19 (ik_text key) = drop 13 (drop 6 (ik_text key))"
    using twelve by (simp_all add: key_text four)
  then have rest: "ik_text key ! 18 = 95" "drop 19 (ik_text key) = ?secret"
    unfolding tail using twelve by (simp_all add: nth_append)
  have "length (ik_text key) > 19" "startsWith (ik_text key) (js ''hhk_'')"
    using twelve secret by (simp_all add: key_text four KEY_SECRET_def startsWith_def)
  moreover have "take 12 (drop 6 (ik_text key)) = ?id" unfolding tail using twelve by simp
  ultimately show "parseGatewayKey (ik_text key) = Some (scope, ik_keyId key, ?secret)"
    using id secret rest fixed
    by (simp add: parseGatewayKey_def Let_def issued issueGatewayKey_def)
  show "isGatewayKeyId (ik_keyId key)"
    using id by (simp add: issued issueGatewayKey_def Let_def)
  show "gatewayKeyMatches sha256 (rec\<lparr>k_secretHash := ik_secretHash key\<rparr>) secret =
      (sha256 secret = sha256 ?secret)"
    using from_hex_text [OF digest]
    by (auto simp: gatewayKeyMatches_def Let_def issued issueGatewayKey_def hashGatewayKeySecret_def)
qed

theorem issued_key_reads_back_witness:
  "parseGatewayKey (ik_text (issueGatewayKey (map (\<lambda>c. c mod 256)) (replicate 12 200) (replicate 32 7) ScopeClient)) =
     Some (ScopeClient, replicate 12 105, base64url (replicate 32 7))"
proof -
  let ?key = "issueGatewayKey (map (\<lambda>c. c mod 256)) (replicate 12 200) (replicate 32 7) ScopeClient"
  have "parseGatewayKey (ik_text ?key) = Some (ScopeClient, ik_keyId ?key, base64url (replicate 32 7))"
    by (rule conjunct1, rule issued_key_reads_back) (simp_all add: list_all_iff)
  moreover have "ik_keyId ?key = replicate 12 105"
    by (simp add: issueGatewayKey_def Let_def key_alphabet_def js_eval)
  ultimately show ?thesis by simp
qed

section \<open>Allowlists\<close>

text \<open>
  What a Model Ref and a group look like, and what an entry covers: everything for \<open>*\<close>, the very text of
  it, and every model of \<open>provider\<close> for \<open>provider/*\<close>.
\<close>

definition names_model :: "jstring \<Rightarrow> jstring \<Rightarrow> bool" where
  "names_model p target \<longleftrightarrow>
     (\<exists>m. target = p @ js ''/'' @ m \<and> isProviderId p \<and> m \<noteq> [] \<and> \<not> list_ex is_space m)"

definition names_group :: "jstring \<Rightarrow> bool" where
  "names_group target \<longleftrightarrow> (\<exists>g. target = js ''group/'' @ g \<and> PROVIDER_ID g)"

definition covers :: "jstring \<Rightarrow> jstring \<Rightarrow> bool" where
  "covers entry target \<longleftrightarrow>
     entry = js ''*'' \<or> entry = target \<or> (\<exists>p. entry = p @ js ''/*'' \<and> names_model p target)"

lemma parse_names_model: "names_model p target \<longleftrightarrow> (\<exists>r. parseModelRef target = Some (RefModel r) \<and> mr_provider r = p)"
proof
  assume "names_model p target"
  then obtain m where "target = p @ 47 # m" "isProviderId p" "m \<noteq> []" "\<not> list_ex is_space m"
    by (auto simp: names_model_def js_eval)
  with parse_model [of p m] show "\<exists>r. parseModelRef target = Some (RefModel r) \<and> mr_provider r = p" by simp
next
  assume "\<exists>r. parseModelRef target = Some (RefModel r) \<and> mr_provider r = p"
  then show "names_model p target" using parse_modelD [of target] by (auto simp: names_model_def js_eval)
qed

lemma parse_names_group: "names_group target \<longleftrightarrow> (\<exists>g. parseModelRef target = Some (RefGroup g))"
  using parse_groupD [of target] parse_group by (auto simp: names_group_def)

lemma admits_covers:
  assumes "parseModelRef target = Some parsed"
  shows "admits parsed target entry \<longleftrightarrow> covers entry target"
  using assms by (cases parsed) (auto simp: admits_def covers_def parse_names_model)

text \<open>
  C20: what a key may use, exactly: a target that is a well-formed Model Ref or group, that some allow
  entry covers and no deny entry covers, where an entry of either list covers everything as \<open>*\<close>, the
  target it spells out, and as \<open>provider/*\<close> the models of that provider and nothing else. So deny wins
  over allow, and an empty allow list admits nothing.
\<close>

theorem allowlist_semantics:
  "modelAllowed allow target deny \<longleftrightarrow>
     ((\<exists>p. names_model p target) \<or> names_group target) \<and>
     (\<exists>entry \<in> set allow. covers entry target) \<and> \<not> (\<exists>entry \<in> set deny. covers entry target)"
proof (cases "parseModelRef target")
  case None
  then show ?thesis by (simp add: modelAllowed_def parse_names_model parse_names_group)
next
  case (Some parsed)
  then have "(\<exists>p. names_model p target) \<or> names_group target"
    by (cases parsed) (auto simp: parse_names_model parse_names_group)
  with Some show ?thesis by (simp add: modelAllowed_def admits_covers list_ex_iff)
qed

text \<open>For instance: a denied provider, and a group that no \<open>provider/*\<close> covers.\<close>

lemma allowlist_example:
  "modelAllowed [js ''openai/*''] (js ''openai/gpt-5'') [] \<and>
   \<not> modelAllowed [js ''*''] (js ''openai/gpt-5'') [js ''openai/*''] \<and>
   \<not> modelAllowed [js ''openai/*''] (js ''group/fast'') []"
  by (simp add: modelAllowed_def admits_def parseModelRef_def js_eval Let_def isProviderId_def PROVIDER_ID_def id_unit_def
      is_lower_def is_digit_def is_space_def)

text \<open>
  Parsing a Model Ref splits it without loss and accepts every well-formed one: \<open>provider/model\<close>
  for a provider id and a model without white space (a further slash belongs to the model), and
  \<open>group/<id>\<close> for a group id; nothing else parses.
\<close>

theorem model_ref_parses_exactly:
  "(parseModelRef target = Some (RefModel r)) =
     (\<exists>p m. target = p @ 47 # m \<and> isProviderId p \<and> m \<noteq> [] \<and> \<not> list_ex is_space m \<and>
        r = \<lparr>mr_ref = target, mr_provider = p, mr_model = m\<rparr>) \<and>
   (parseModelRef target = Some (RefGroup g)) = (target = js ''group/'' @ g \<and> PROVIDER_ID g)"
proof
  show "(parseModelRef target = Some (RefModel r)) =
     (\<exists>p m. target = p @ 47 # m \<and> isProviderId p \<and> m \<noteq> [] \<and> \<not> list_ex is_space m \<and>
        r = \<lparr>mr_ref = target, mr_provider = p, mr_model = m\<rparr>)"
    using parse_modelD [of target r] parse_model by (cases r) auto
  show "(parseModelRef target = Some (RefGroup g)) = (target = js ''group/'' @ g \<and> PROVIDER_ID g)"
    using parse_groupD [of target g] parse_group by auto
qed

section \<open>Limits\<close>

text \<open>
  The check of a provider's limits does not know every name it was written for: a name that every
  JavaScript object inherits passes with any whole number, while another unknown name is a problem
  and a known one is held to its range.
\<close>

theorem inherited_limit_passes:
  "(name \<in> set inherited_names \<longrightarrow> providerLimitsProblems (JObj [(name, JNum n)]) = []) \<and>
   (PROVIDER_LIMIT_RANGES name = NoRange \<longrightarrow> providerLimitsProblems (JObj [(name, JNum n)]) \<noteq> []) \<and>
   (providerLimitsProblems (JObj [(js ''concurrentPerCredential'', JNum n)]) = []) = (1 \<le> n \<and> n \<le> 1024)"
proof -
  have "PROVIDER_LIMIT_RANGES name = Inherited" if "name \<in> set inherited_names"
    using that by (auto simp: PROVIDER_LIMIT_RANGES_def inherited_names_def)
  then show ?thesis
    by (auto simp: providerLimitsProblems_def limit_problem_def Let_def)
      (auto simp: PROVIDER_LIMIT_RANGES_def split: if_splits)
qed

theorem inherited_limit_passes_witness:
  "providerLimitsProblems (JObj [(js ''constructor'', JNum (-5))]) = []"
  using inherited_limit_passes [of "js ''constructor''" "-5"] by (simp add: inherited_names_def)

end
