(* ===== verification/RouteGroups.thy ===== *)
theory RouteGroups
  imports ModelPlane
begin

text \<open>
  The members of route groups (\<open>packages/core/src/route-groups.ts\<close>): how a member is written and
  stored, which models a group routes to, the check that groups do not contain themselves, and what
  a group offers as one model. \<open>hostname\<close> stands for \<open>new URL(url).hostname\<close>, \<open>None\<close> where the
  constructor throws; \<open>lookup\<close> is the function that finds a stored group, \<open>listed\<close> the one that says
  whether a provider lists a model.
\<close>

definition GROUP_NEST_LIMIT :: nat where
  "GROUP_NEST_LIMIT = 8"

section \<open>Fast mode\<close>

definition host :: "(jstring \<Rightarrow> jstring option) \<Rightarrow> jstring option \<Rightarrow> jstring option" where
  "host hostname url =
     (case url of
        None \<Rightarrow> None
      | Some u \<Rightarrow> if u = [] then None else map_option toLowerCase (hostname u))"

text \<open>\<open>/^(?:gpt-|o\d)/\<close>\<close>

definition OPENAI_FAST :: "jstring \<Rightarrow> bool" where
  "OPENAI_FAST model \<longleftrightarrow> startsWith model (js ''gpt-'') \<or>
     (case model of a # b # _ \<Rightarrow> a = 111 \<and> is_digit b | _ \<Rightarrow> False)"

definition CLAUDE_FAST :: "jstring list" where
  "CLAUDE_FAST = map js [''claude-opus-4-8'', ''claude-opus-5'', ''claude-opus-5-5'']"

text \<open>\<open>replace(/-\d{8}$/, "")\<close>\<close>

definition strip_date :: "jstring \<Rightarrow> jstring" where
  "strip_date s =
     (let n = length s - 9; tail = drop n s
      in if length s \<ge> 9 \<and> hd tail = 45 \<and> list_all is_digit (tl tail) then take n s else s)"

datatype fast_mode = FastPriority | FastSpeed

definition fastMode ::
    "(jstring \<Rightarrow> jstring option) \<Rightarrow> provider \<Rightarrow> jstring \<Rightarrow> protocol \<Rightarrow> fast_mode option" where
  "fastMode hostname p model upstream =
     (case pv_subscription p of
        Some backend \<Rightarrow>
          if backend = Siwc \<and> startsWith model (js ''gpt-'') \<and> upstream = Responses
          then Some FastPriority else None
      | None \<Rightarrow>
          if (upstream = Responses \<or> upstream = Chat) \<and>
             host hostname (jget (pv_endpoints p) upstream) = Some (js ''api.openai.com'') \<and>
             OPENAI_FAST model
          then Some FastPriority
          else if upstream = Anthropic \<and>
             host hostname (jget (pv_endpoints p) Anthropic) = Some (js ''api.anthropic.com'') \<and>
             strip_date (toLowerCase model) \<in> set CLAUDE_FAST
          then Some FastSpeed
          else None)"

definition canFast :: "(jstring \<Rightarrow> jstring option) \<Rightarrow> provider \<Rightarrow> jstring \<Rightarrow> bool" where
  "canFast hostname p model \<longleftrightarrow>
     list_ex (\<lambda>upstream. fastMode hostname p model upstream \<noteq> None)
       (if pv_subscription p \<noteq> None then [Responses] else [Responses, Chat, Anthropic])"

section \<open>Members\<close>

record model_member =
  mm_ref :: jstring
  mm_provider :: jstring
  mm_model :: jstring
  mm_effort :: "effort option"
  mm_fast :: bool

datatype group_member = ModelMember model_member | GroupMember jstring

type_synonym listed_model = "jstring \<Rightarrow> jstring \<Rightarrow> bool"

definition notListed :: listed_model where
  "notListed p m = False"

text \<open>The part after the last colon, lower case, and what is before it, if a colon is not first.\<close>

definition last_part :: "jstring \<Rightarrow> (jstring \<times> jstring) option" where
  "last_part value =
     (case lastIndexOf 58 value of
        Some i \<Rightarrow> if i > 0 then Some (take i value, toLowerCase (drop (i + 1) value)) else None
      | None \<Rightarrow> None)"

text \<open>Taking off a last part \<open>fast\<close>, then one that is a level, unless the model is listed with it.\<close>

definition split_fast :: "(jstring \<Rightarrow> bool) \<Rightarrow> jstring \<Rightarrow> bool \<times> jstring" where
  "split_fast listed model =
     (case last_part model of
        Some (head, tail) \<Rightarrow>
          if tail = js ''fast'' \<and> \<not> listed model then (True, head) else (False, model)
      | None \<Rightarrow> (False, model))"

definition split_effort :: "(jstring \<Rightarrow> bool) \<Rightarrow> jstring \<Rightarrow> effort option \<times> jstring" where
  "split_effort listed model =
     (case last_part model of
        Some (head, tail) \<Rightarrow>
          (case effort_of tail of
             Some e \<Rightarrow> if \<not> listed model then (Some e, head) else (None, model)
           | None \<Rightarrow> (None, model))
      | None \<Rightarrow> (None, model))"

definition parseGroupMember :: "jstring \<Rightarrow> listed_model \<Rightarrow> group_member option" where
  "parseGroupMember written listed =
     (case parseModelRef written of
        None \<Rightarrow> None
      | Some (RefGroup g) \<Rightarrow> Some (GroupMember g)
      | Some (RefModel parsed) \<Rightarrow>
          (let p = mr_provider parsed;
               (fast, model) = split_fast (listed p) (mr_model parsed);
               (effort, model) = split_effort (listed p) model
           in Some (ModelMember \<lparr>mm_ref = p @ 47 # model, mm_provider = p, mm_model = model,
                mm_effort = effort, mm_fast = fast\<rparr>)))"

definition suffix_text :: "effort option \<Rightarrow> bool \<Rightarrow> jstring" where
  "suffix_text effort fast =
     (case effort of None \<Rightarrow> [] | Some e \<Rightarrow> 58 # effort_text e) @
     (if fast then 58 # js ''fast'' else [])"

definition memberText :: "group_member \<Rightarrow> jstring" where
  "memberText member =
     (case member of
        GroupMember g \<Rightarrow> js ''group/'' @ g
      | ModelMember m \<Rightarrow> mm_ref m @ suffix_text (mm_effort m) (mm_fast m))"

section \<open>The models of a group\<close>

record resolved =
  rs_member :: jstring
  rs_via :: "jstring list"
  rs_ref :: jstring
  rs_provider :: jstring
  rs_model :: jstring
  rs_effort :: "effort option"
  rs_fast :: bool

definition model_key :: "jstring \<Rightarrow> effort option \<Rightarrow> jstring" where
  "model_key ref effort = ref @ 58 # (case effort of None \<Rightarrow> [] | Some e \<Rightarrow> effort_text e)"

definition add_model ::
    "jstring \<Rightarrow> jstring list \<Rightarrow> model_member \<Rightarrow> resolved list \<times> jstring list \<Rightarrow>
     resolved list \<times> jstring list" where
  "add_model leads via m st =
     (let key = model_key (mm_ref m) (mm_effort m)
      in if key \<in> set (snd st) then st
         else (fst st @ [\<lparr>rs_member = leads, rs_via = via, rs_ref = mm_ref m,
                 rs_provider = mm_provider m, rs_model = mm_model m, rs_effort = mm_effort m,
                 rs_fast = mm_fast m\<rparr>], snd st @ [key]))"

text \<open>
  The walk of \<open>groupModels\<close>: through the members in order, into a group in its place, the models
  found so far and their keys threaded along. It ends because \<open>via\<close> grows to at most the limit.
\<close>

function walk ::
    "(jstring \<Rightarrow> route_group option) \<Rightarrow> listed_model \<Rightarrow> jstring \<Rightarrow> jstring list \<Rightarrow>
     jstring option \<Rightarrow> jstring list \<Rightarrow> resolved list \<times> jstring list \<Rightarrow>
     resolved list \<times> jstring list" where
  "walk lookup listed self via lead [] st = st"
| "walk lookup listed self via lead (written # rest) st =
     walk lookup listed self via lead rest
       (case parseGroupMember written listed of
          None \<Rightarrow> st
        | Some (GroupMember i) \<Rightarrow>
            if i = self \<or> i \<in> set via \<or> length via \<ge> GROUP_NEST_LIMIT then st
            else (case lookup i of
                None \<Rightarrow> st
              | Some inner \<Rightarrow> walk lookup listed self (via @ [i])
                  (Some (case lead of Some t \<Rightarrow> t | None \<Rightarrow> written)) (g_members inner) st)
        | Some (ModelMember m) \<Rightarrow>
            add_model (case lead of Some t \<Rightarrow> t | None \<Rightarrow> written) via m st)"
  by pat_completeness auto

termination
  by (relation "measures [\<lambda>(_, _, _, via, _, _, _). GROUP_NEST_LIMIT - length via,
      \<lambda>(_, _, _, _, _, members, _). length members]") auto

definition groupModels ::
    "route_group \<Rightarrow> (jstring \<Rightarrow> route_group option) \<Rightarrow> listed_model \<Rightarrow> resolved list" where
  "groupModels grp lookup listed =
     fst (walk lookup listed (g_id grp) [] None (g_members grp) ([], []))"


section \<open>Groups inside groups\<close>

text \<open>
  The check before a group is stored, against the groups that are (\<open>groups\<close>, which \<open>lookup\<close> reads).
  \<open>wayTo\<close> goes down every path that meets no group twice, so it ends: with each step one more stored
  group is on the path.
\<close>

definition find_group :: "route_group list \<Rightarrow> jstring \<Rightarrow> route_group option" where
  "find_group groups i = find (\<lambda>g. g_id g = i) groups"

lemma find_group_id: "find_group groups i = Some g \<Longrightarrow> g_id g = i \<and> g \<in> set groups"
  by (auto simp: find_group_def dest: find_Some_set)

definition inner_group :: "jstring \<Rightarrow> jstring option" where
  "inner_group written =
     (case parseGroupMember written notListed of Some (GroupMember i) \<Rightarrow> Some i | _ \<Rightarrow> None)"

definition left_over :: "route_group list \<Rightarrow> jstring list \<Rightarrow> nat" where
  "left_over groups path = card (g_id ` set groups - set path)"

lemma left_over_less:
  assumes "find_group groups i = Some g" "i \<notin> set path"
  shows "left_over groups (path @ [i]) < left_over groups path"
  unfolding left_over_def
proof (rule psubset_card_mono)
  show "finite (g_id ` set groups - set path)" by simp
  have "i \<in> g_id ` set groups" using find_group_id [OF assms(1)] by auto
  then show "g_id ` set groups - set (path @ [i]) \<subset> g_id ` set groups - set path"
    using assms(2) by auto
qed

function wayTo ::
    "route_group list \<Rightarrow> jstring \<Rightarrow> jstring list \<Rightarrow> jstring list \<Rightarrow> jstring list" where
  "wayTo groups self [] path = []"
| "wayTo groups self (written # rest) path =
     (case inner_group written of
        None \<Rightarrow> wayTo groups self rest path
      | Some i \<Rightarrow>
          if i \<in> set path then wayTo groups self rest path
          else if i = self then path @ [i]
          else (case find_group groups i of
              None \<Rightarrow> wayTo groups self rest path
            | Some inner \<Rightarrow>
                (let way = wayTo groups self (g_members inner) (path @ [i])
                 in if way \<noteq> [] then way else wayTo groups self rest path)))"
  by pat_completeness auto

termination
  by (relation "measures [\<lambda>(groups, _, _, path). left_over groups path, \<lambda>(_, _, members, _). length members]")
    (auto simp: left_over_less)

text \<open>How deep the groups below go, \<open>find\<close> giving the group to be stored for its own id.\<close>

definition find_or_self :: "route_group list \<Rightarrow> route_group \<Rightarrow> jstring \<Rightarrow> route_group option" where
  "find_or_self groups self i = (if i = g_id self then Some self else find_group groups i)"

lemma find_or_self_add: "find_or_self groups self i = find_group (self # groups) i"
  by (auto simp: find_or_self_def find_group_def)

function depth :: "route_group list \<Rightarrow> route_group \<Rightarrow> jstring list \<Rightarrow> jstring list \<Rightarrow> nat" where
  "depth groups self [] path = 0"
| "depth groups self (written # rest) path =
     (case inner_group written of
        None \<Rightarrow> depth groups self rest path
      | Some i \<Rightarrow>
          if i \<in> set path then depth groups self rest path
          else (case find_or_self groups self i of
              None \<Rightarrow> depth groups self rest path
            | Some inner \<Rightarrow>
                max (1 + depth groups self (g_members inner) (path @ [i]))
                  (depth groups self rest path)))"
  by pat_completeness auto

termination
  by (relation "measures [\<lambda>(groups, self, _, path). left_over (self # groups) path,
      \<lambda>(_, _, members, _). length members]") (auto simp: left_over_less find_or_self_add)

datatype nesting =
    ContainsItself
  | NoSuchGroup jstring
  | WouldContainItself jstring "jstring list"
  | TooDeep nat

definition member_problem :: "route_group list \<Rightarrow> route_group \<Rightarrow> jstring \<Rightarrow> nesting option" where
  "member_problem groups grp written =
     (case inner_group written of
        None \<Rightarrow> None
      | Some i \<Rightarrow>
          if i = g_id grp then Some ContainsItself
          else (case find_group groups i of
              None \<Rightarrow> Some (NoSuchGroup i)
            | Some inner \<Rightarrow>
                (let way = wayTo groups (g_id grp) (g_members inner) [i]
                 in if way \<noteq> [] then Some (WouldContainItself i (g_id grp # way))
                    else let below = 1 + depth groups grp (g_members inner) [g_id grp, i]
                      in if below > GROUP_NEST_LIMIT then Some (TooDeep below) else None)))"

text \<open>The problem of each member by index; the text of a problem is left to its constructor.\<close>

definition nestingProblems ::
    "route_group list \<Rightarrow> route_group \<Rightarrow> (nat \<times> nesting) list" where
  "nestingProblems groups grp =
     concat (map (\<lambda>(index, written).
       (case member_problem groups grp written of None \<Rightarrow> [] | Some p \<Rightarrow> [(index, p)]))
       (enumerate 0 (g_members grp)))"

section \<open>What a group offers as one model\<close>

definition DEFAULT_REASONING_EFFORTS :: "effort list" where
  "DEFAULT_REASONING_EFFORTS = [ELow, EMedium, EHigh]"

definition modelEfforts :: "provider_model option \<Rightarrow> effort list" where
  "modelEfforts model =
     (case model of
        None \<Rightarrow> []
      | Some m \<Rightarrow> if m_reasoning m = Some True then DEFAULT_REASONING_EFFORTS else [])"

record group_caps =
  gc_contextWindow :: "int option"
  gc_maxOutputTokens :: "int option"
  gc_reasoning :: "bool option"
  gc_efforts :: "effort list"
  gc_inputModalities :: "modality list option"

definition least_known :: "int option list \<Rightarrow> int option" where
  "least_known values =
     (if values \<noteq> [] \<and> list_all (\<lambda>v. v \<noteq> None) values
      then Some (Min (set (map the values))) else None)"

text \<open>The levels of the members that follow the request, narrowed one by one, and the fixed ones.\<close>

fun narrow_efforts ::
    "(resolved \<times> provider_model option) list \<Rightarrow> effort list option \<Rightarrow> effort list \<Rightarrow>
     effort list option \<times> effort list" where
  "narrow_efforts [] efforts fixed = (efforts, fixed)"
| "narrow_efforts ((member, known) # rest) efforts fixed =
     (case rs_effort member of
        Some e \<Rightarrow> narrow_efforts rest efforts (if e \<in> set fixed then fixed else fixed @ [e])
      | None \<Rightarrow>
          (let offered = modelEfforts known
           in narrow_efforts rest
                (Some (case efforts of
                   None \<Rightarrow> offered
                 | Some es \<Rightarrow> filter (\<lambda>level. level \<in> set offered) es)) fixed))"

definition common_modalities :: "provider_model list \<Rightarrow> modality list option" where
  "common_modalities known =
     foldl (\<lambda>found model.
         case (found, m_inputModalities model) of
           (Some xs, Some ys) \<Rightarrow> Some (filter (\<lambda>v. v \<in> set ys) xs)
         | _ \<Rightarrow> None)
       (m_inputModalities (hd known)) known"

definition groupCapabilities ::
    "resolved list \<Rightarrow> (jstring \<Rightarrow> provider_model option) \<Rightarrow> group_caps" where
  "groupCapabilities models metadata =
     (let known = map (\<lambda>m. metadata (rs_ref m)) models;
          complete = known \<noteq> [] \<and> list_all (\<lambda>m. m \<noteq> None) known;
          (efforts, fixed) = narrow_efforts (zip models known) None [];
          levels = (case efforts of
              Some es \<Rightarrow> es
            | None \<Rightarrow> filter (\<lambda>level. level \<in> set fixed) reasoningEfforts);
          allReason = (if complete \<and> list_all (\<lambda>m. m_reasoning (the m) \<noteq> None) known
            then Some (list_all (\<lambda>m. m_reasoning (the m) = Some True) known) else None)
      in \<lparr>gc_contextWindow = least_known (map (\<lambda>m. Option.bind m m_contextWindow) known),
          gc_maxOutputTokens = least_known (map (\<lambda>m. Option.bind m m_maxOutputTokens) known),
          gc_reasoning = (if levels \<noteq> [] then Some True else allReason),
          gc_efforts = levels,
          gc_inputModalities = (if complete then common_modalities (map the known) else None)\<rparr>)"

end
