(* ===== verification/RouteGroupProps.thy ===== *)
theory RouteGroupProps
  imports RouteGroups
begin

text \<open>
  Route groups: a stored member reads back, a group lists each model once, the check before a group
  is stored finds every cycle and every nesting that is too deep and nothing else, and what a group
  offers is within what its models offer.
\<close>

section \<open>Chains of groups\<close>

text \<open>
  A chain below a list of members: each group is a member of the one before it and is stored. This is
  the specification the search with paths is held against.
\<close>

definition inner_ids :: "jstring list \<Rightarrow> jstring set" where
  "inner_ids ms = {i. \<exists>w \<in> set ms. inner_group w = Some i}"

fun chain :: "route_group list \<Rightarrow> jstring list \<Rightarrow> jstring list \<Rightarrow> bool" where
  "chain groups ms [] = True"
| "chain groups ms (i # is) =
     (i \<in> inner_ids ms \<and>
      (case find_group groups i of None \<Rightarrow> False | Some g \<Rightarrow> chain groups (g_members g) is))"

lemma chain_append:
  "chain groups ms (xs @ i # ys) \<longleftrightarrow>
     chain groups ms (xs @ [i]) \<and> (\<exists>g. find_group groups i = Some g \<and> chain groups (g_members g) ys)"
  by (induction xs arbitrary: ms) (auto split: option.splits)

lemma chain_distinct:
  "chain groups ms (is @ [j]) \<Longrightarrow> \<exists>js. chain groups ms (js @ [j]) \<and> distinct (js @ [j])"
proof (induction "length is" arbitrary: "is" rule: less_induct)
  case less
  show ?case
  proof (cases "distinct (is @ [j])")
    case False
    then obtain xs ys zs y where split: "is @ [j] = xs @ [y] @ ys @ [y] @ zs"
      using not_distinct_decomp by blast
    have cut: "chain groups ms (xs @ y # zs)"
    proof -
      have "chain groups ms (xs @ y # (ys @ y # zs))" using less.prems split by simp
      then have first: "chain groups ms (xs @ [y])" using chain_append by blast
      have "chain groups ms ((xs @ y # ys) @ y # zs)" using less.prems split by simp
      then have "\<exists>g. find_group groups y = Some g \<and> chain groups (g_members g) zs"
        using chain_append by blast
      with first show ?thesis using chain_append by blast
    qed
    have "last (xs @ y # zs) = j" using split by (metis append_Cons append_Nil last_appendR last_snoc list.distinct(1) last.simps append_is_Nil_conv)
    then have cut_is: "xs @ y # zs = butlast (xs @ y # zs) @ [j]" by (metis append_butlast_last_id append_is_Nil_conv list.distinct(1))
    have "length (is @ [j]) > length (xs @ y # zs)" by (simp add: split)
    then have "length (butlast (xs @ y # zs)) < length is" by simp
    from less.hyps [OF this] cut cut_is show ?thesis by metis
  qed (use less.prems in blast)
qed

section \<open>The search for a way back\<close>

lemma find_group_Cons: "find_group (g # groups) i = (if i = g_id g then Some g else find_group groups i)"
  by (auto simp: find_group_def)

lemma wayTo_rest: "wayTo groups self rest path \<noteq> [] \<Longrightarrow> wayTo groups self (w # rest) path \<noteq> []"
  by (auto simp: Let_def split: option.splits)

lemma wayTo_member:
  assumes "w \<in> set ms" "inner_group w = Some i" "i \<notin> set path"
    and "i = self \<or> (\<exists>g. find_group groups i = Some g \<and> wayTo groups self (g_members g) (path @ [i]) \<noteq> [])"
  shows "wayTo groups self ms path \<noteq> []"
  using assms(1)
proof (induction ms)
  case (Cons v ms)
  show ?case
  proof (cases "v = w")
    case True
    with assms(2-4) show ?thesis by (auto simp: Let_def)
  next
    case False
    with Cons have "wayTo groups self ms path \<noteq> []" by simp
    then show ?thesis by (rule wayTo_rest)
  qed
qed simp

lemma wayTo_complete:
  "chain (grp # groups) ms (is @ [g_id grp]) \<Longrightarrow> distinct (is @ [g_id grp]) \<Longrightarrow>
   set (is @ [g_id grp]) \<inter> set path = {} \<Longrightarrow> wayTo groups (g_id grp) ms path \<noteq> []"
proof (induction "is" arbitrary: ms path)
  case Nil
  then obtain w where "w \<in> set ms" "inner_group w = Some (g_id grp)" by (auto simp: inner_ids_def)
  with Nil.prems show ?case by (intro wayTo_member [of w]) auto
next
  case (Cons i "is")
  then obtain w g where w: "w \<in> set ms" "inner_group w = Some i" and i: "i \<noteq> g_id grp"
    and g: "find_group groups i = Some g" "chain (grp # groups) (g_members g) (is @ [g_id grp])"
    by (auto simp: inner_ids_def find_group_Cons split: option.splits if_splits)
  have "wayTo groups (g_id grp) (g_members g) (path @ [i]) \<noteq> []"
    by (rule Cons.IH [OF g(2)]) (use Cons.prems in auto)
  with w g Cons.prems show ?case by (intro wayTo_member [of w]) auto
qed

lemma wayTo_sound:
  "wayTo groups self ms path \<noteq> [] \<Longrightarrow> self = g_id grp \<Longrightarrow>
   \<exists>is. chain (grp # groups) ms (is @ [self])"
proof (induction groups self ms path rule: wayTo.induct)
  case (2 groups self w rest path)
  have more: "chain (grp # groups) (w # rest) is" if "chain (grp # groups) rest is" for "is"
    using that by (cases "is") (auto simp: inner_ids_def)
  show ?case
  proof (cases "inner_group w")
    case None
    with 2 more show ?thesis by fastforce
  next
    case (Some i)
    then have i: "i \<in> inner_ids (w # rest)" by (auto simp: inner_ids_def)
    consider "i \<in> set path" | "i \<notin> set path" "i = self"
      | "i \<notin> set path" "i \<noteq> self" "find_group groups i = None"
      | g where "i \<notin> set path" "i \<noteq> self" "find_group groups i = Some g"
      by (cases "find_group groups i") auto
    then show ?thesis
    proof cases
      case 2
      with i "2.prems" have "chain (grp # groups) (w # rest) ([] @ [self])"
        by (simp add: find_group_Cons)
      then show ?thesis by blast
    next
      case (4 g)
      show ?thesis
      proof (cases "wayTo groups self (g_members g) (path @ [i]) = []")
        case True
        with Some 4 "2.prems" have "wayTo groups self rest path \<noteq> []" by simp
        with 2(5) [OF Some 4 refl] True "2.prems"(2)
        obtain "is" where "chain (grp # groups) rest (is @ [self])" by auto
        with more show ?thesis by blast
      next
        case False
        with 2(4) [OF Some 4] "2.prems"(2)
        obtain "is" where "chain (grp # groups) (g_members g) (is @ [self])" by auto
        with i 4 "2.prems"(2) have "chain (grp # groups) (w # rest) ((i # is) @ [self])"
          by (simp add: find_group_Cons)
        then show ?thesis by blast
      qed
    qed (use Some 2 more in \<open>fastforce+\<close>)
  qed
qed simp


section \<open>The depth below a group\<close>

lemma depth_rest: "depth groups self rest path \<le> depth groups self (w # rest) path"
  by (auto split: option.splits)

lemma depth_member:
  assumes "w \<in> set ms" "inner_group w = Some i" "i \<notin> set path" "find_or_self groups self i = Some g"
  shows "1 + depth groups self (g_members g) (path @ [i]) \<le> depth groups self ms path"
  using assms(1)
proof (induction ms)
  case (Cons v ms)
  show ?case
  proof (cases "v = w")
    case True
    with assms(2-4) show ?thesis by simp
  next
    case False
    with Cons have "1 + depth groups self (g_members g) (path @ [i]) \<le> depth groups self ms path" by simp
    also have "\<dots> \<le> depth groups self (v # ms) path" by (rule depth_rest)
    finally show ?thesis .
  qed
qed simp

lemma chain_depth:
  "chain (self # groups) ms is \<Longrightarrow> distinct is \<Longrightarrow> set is \<inter> set path = {} \<Longrightarrow>
   length is \<le> depth groups self ms path"
proof (induction "is" arbitrary: ms path)
  case (Cons i "is")
  then obtain w g where w: "w \<in> set ms" "inner_group w = Some i"
    and g: "find_group (self # groups) i = Some g" "chain (self # groups) (g_members g) is"
    by (auto simp: inner_ids_def split: option.splits)
  have "length is \<le> depth groups self (g_members g) (path @ [i])"
    by (rule Cons.IH [OF g(2)]) (use Cons.prems in auto)
  moreover have "1 + depth groups self (g_members g) (path @ [i]) \<le> depth groups self ms path"
    by (rule depth_member [OF w]) (use Cons.prems g in \<open>auto simp: find_or_self_add\<close>)
  ultimately show ?case by simp
qed simp

lemma depth_chain:
  "\<exists>is. chain (self # groups) ms is \<and> distinct is \<and> set is \<inter> set path = {} \<and>
     length is = depth groups self ms path"
proof (induction groups self ms path rule: depth.induct)
  case (1 groups self path)
  have "chain (self # groups) [] [] \<and> distinct [] \<and> set [] \<inter> set path = {} \<and> length [] = depth groups self [] path"
    by simp
  then show ?case by blast
next
  case (2 groups self w rest path)
  have more: "chain (self # groups) (w # rest) is" if "chain (self # groups) rest is" for "is"
    using that by (cases "is") (auto simp: inner_ids_def)
  have rest: ?case if "\<exists>is. chain (self # groups) rest is \<and> distinct is \<and> set is \<inter> set path = {} \<and>
      length is = depth groups self rest path" "depth groups self (w # rest) path = depth groups self rest path"
    using that more by metis
  show ?case
  proof (cases "inner_group w")
    case None
    with 2(1) show ?thesis by (intro rest) simp_all
  next
    case (Some i)
    show ?thesis
    proof (cases "i \<in> set path")
      case True
      with 2(2) Some show ?thesis by (intro rest) simp_all
    next
      case out: False
      show ?thesis
      proof (cases "find_or_self groups self i")
        case None
        with 2(3) Some out show ?thesis by (intro rest) simp_all
      next
        case found: (Some g)
        let ?inner = "1 + depth groups self (g_members g) (path @ [i])"
        show ?thesis
        proof (cases "?inner \<le> depth groups self rest path")
          case True
          with Some out found have "depth groups self (w # rest) path = depth groups self rest path" by simp
          with 2(5) [OF Some out found] show ?thesis by (intro rest) simp_all
        next
          case False
          obtain "is" where "is": "chain (self # groups) (g_members g) is" "distinct is"
            "set is \<inter> set (path @ [i]) = {}" "length is = depth groups self (g_members g) (path @ [i])"
            using 2(4) [OF Some out found] by blast
          have "chain (self # groups) (w # rest) (i # is)"
            using "is"(1) Some found by (simp add: inner_ids_def flip: find_or_self_add)
          moreover have "length (i # is) = depth groups self (w # rest) path"
            using False Some out found "is"(4) by simp
          moreover have "distinct (i # is)" "set (i # is) \<inter> set path = {}"
            using "is"(2,3) out by auto
          ultimately show ?thesis by blast
        qed
      qed
    qed
  qed
qed

section \<open>The check before a group is stored\<close>

lemma nestingProblems_Nil:
  "nestingProblems groups grp = [] \<longleftrightarrow> (\<forall>w \<in> set (g_members grp). member_problem groups grp w = None)"
proof -
  have "nestingProblems groups grp = [] \<longleftrightarrow>
      (\<forall>(n, w) \<in> set (enumerate 0 (g_members grp)). member_problem groups grp w = None)"
    by (auto simp: nestingProblems_def split: option.splits)
  also have "\<dots> \<longleftrightarrow> (\<forall>w \<in> set (map snd (enumerate 0 (g_members grp))). member_problem groups grp w = None)"
    by (auto simp: case_prod_unfold simp del: map_snd_enumerate)
  finally show ?thesis by simp
qed

text \<open>What the check asks of a group that is a member.\<close>

definition nested_ok :: "route_group list \<Rightarrow> route_group \<Rightarrow> jstring \<Rightarrow> bool" where
  "nested_ok groups grp i \<longleftrightarrow>
     i \<noteq> g_id grp \<and> (\<exists>g. find_group groups i = Some g \<and> wayTo groups (g_id grp) (g_members g) [i] = [] \<and>
       1 + depth groups grp (g_members g) [g_id grp, i] \<le> GROUP_NEST_LIMIT)"

lemma member_problem_None: "member_problem groups grp w = None \<longleftrightarrow> (\<forall>i. inner_group w = Some i \<longrightarrow> nested_ok groups grp i)"
  by (auto simp: member_problem_def nested_ok_def Let_def not_less split: option.split)

lemma nestingProblems_ok: "nestingProblems groups grp = [] \<longleftrightarrow> (\<forall>i \<in> inner_ids (g_members grp). nested_ok groups grp i)"
  by (auto simp: nestingProblems_Nil member_problem_None inner_ids_def)

lemma ok_no_way_back:
  assumes ok: "\<forall>i \<in> inner_ids (g_members grp). nested_ok groups grp i"
  shows "\<not> chain (grp # groups) (g_members grp) (is @ [g_id grp])"
proof
  assume "chain (grp # groups) (g_members grp) (is @ [g_id grp])"
  then obtain js where js: "chain (grp # groups) (g_members grp) (js @ [g_id grp])" "distinct (js @ [g_id grp])"
    using chain_distinct by blast
  show False
  proof (cases js)
    case Nil
    with js(1) ok show ?thesis by (auto simp: nested_ok_def)
  next
    case (Cons i rest)
    then have "nested_ok groups grp i" using js(1) ok by simp
    then obtain g where g: "i \<noteq> g_id grp" "find_group groups i = Some g"
      "wayTo groups (g_id grp) (g_members g) [i] = []" by (auto simp: nested_ok_def)
    with js(1) Cons have rest: "chain (grp # groups) (g_members g) (rest @ [g_id grp])"
      by (simp add: find_group_Cons)
    have "wayTo groups (g_id grp) (g_members g) [i] \<noteq> []"
      by (rule wayTo_complete [OF rest]) (use js(2) Cons in auto)
    with g(3) show ?thesis by simp
  qed
qed

lemma ok_not_too_deep:
  assumes ok: "\<forall>i \<in> inner_ids (g_members grp). nested_ok groups grp i"
    and is_chain: "chain (grp # groups) (g_members grp) is" "distinct is"
  shows "length is \<le> GROUP_NEST_LIMIT"
proof (cases "is")
  case (Cons i js)
  then have "nested_ok groups grp i" using is_chain(1) ok by simp
  then obtain g where g: "i \<noteq> g_id grp" "find_group groups i = Some g"
    "1 + depth groups grp (g_members g) [g_id grp, i] \<le> GROUP_NEST_LIMIT" by (auto simp: nested_ok_def)
  with is_chain Cons have rest: "chain (grp # groups) (g_members g) js" by (simp add: find_group_Cons)
  have "g_id grp \<notin> set js"
  proof
    assume "g_id grp \<in> set js"
    then obtain xs ys where "js = xs @ g_id grp # ys" by (blast dest: split_list)
    with is_chain(1) Cons have "chain (grp # groups) (g_members grp) ((i # xs) @ [g_id grp])"
      using chain_append [of "grp # groups" "g_members grp" "i # xs" "g_id grp" ys] by simp
    with ok_no_way_back [OF ok] show False by blast
  qed
  then have "length js \<le> depth groups grp (g_members g) [g_id grp, i]"
    by (intro chain_depth [OF rest]) (use is_chain(2) Cons in auto)
  with g(3) Cons show ?thesis by simp
qed (simp add: GROUP_NEST_LIMIT_def)

lemma nested_ok_if:
  assumes no_cycle: "\<And>is. \<not> chain (grp # groups) (g_members grp) (is @ [g_id grp])"
    and short: "\<And>is. chain (grp # groups) (g_members grp) is \<Longrightarrow> distinct is \<Longrightarrow> length is \<le> GROUP_NEST_LIMIT"
    and i: "i \<in> inner_ids (g_members grp)" "i = g_id grp \<or> find_group groups i \<noteq> None"
  shows "nested_ok groups grp i"
proof -
  have self: "i \<noteq> g_id grp" using i(1) no_cycle [of "[]"] by (auto simp: find_group_Cons)
  with i(2) obtain g where g: "find_group groups i = Some g" by blast
  have step: "chain (grp # groups) (g_members grp) (i # is)" if "chain (grp # groups) (g_members g) is" for "is"
    using that i(1) self g by (simp add: find_group_Cons)
  have "wayTo groups (g_id grp) (g_members g) [i] = []"
    using wayTo_sound [of groups "g_id grp" "g_members g" "[i]" grp] step no_cycle [of "i # _"] by fastforce
  moreover have "1 + depth groups grp (g_members g) [g_id grp, i] \<le> GROUP_NEST_LIMIT"
  proof -
    obtain "is" where "is": "chain (grp # groups) (g_members g) is" "distinct is"
      "set is \<inter> set [g_id grp, i] = {}" "length is = depth groups grp (g_members g) [g_id grp, i]"
      using depth_chain by blast
    from short [OF step [OF "is"(1)]] "is"(2-4) show ?thesis by simp
  qed
  ultimately show ?thesis using self g by (simp add: nested_ok_def)
qed

text \<open>
  C21: the check is exact. It reports nothing exactly when every group that is a member is stored, no
  chain of stored groups leads from the new group back to itself, and no chain of different groups
  below it is longer than the limit of eight.
\<close>

theorem nesting_check_is_exact:
  "nestingProblems groups grp = [] \<longleftrightarrow>
     (\<forall>i. i \<in> inner_ids (g_members grp) \<longrightarrow> i = g_id grp \<or> find_group groups i \<noteq> None) \<and>
     \<not> (\<exists>is. chain (grp # groups) (g_members grp) (is @ [g_id grp])) \<and>
     (\<forall>is. chain (grp # groups) (g_members grp) is \<and> distinct is \<longrightarrow> length is \<le> GROUP_NEST_LIMIT)"
proof
  assume "nestingProblems groups grp = []"
  then have "\<forall>i \<in> inner_ids (g_members grp). nested_ok groups grp i" by (simp only: nestingProblems_ok)
  with ok_no_way_back [OF this] ok_not_too_deep [OF this]
  show "(\<forall>i. i \<in> inner_ids (g_members grp) \<longrightarrow> i = g_id grp \<or> find_group groups i \<noteq> None) \<and>
      \<not> (\<exists>is. chain (grp # groups) (g_members grp) (is @ [g_id grp])) \<and>
      (\<forall>is. chain (grp # groups) (g_members grp) is \<and> distinct is \<longrightarrow> length is \<le> GROUP_NEST_LIMIT)"
    by (auto simp: nested_ok_def)
qed (use nested_ok_if [of grp groups] in \<open>simp add: nestingProblems_ok\<close>)

definition demo_group :: "string \<Rightarrow> string list \<Rightarrow> route_group" where
  "demo_group name members = \<lparr>g_id = js name, g_strategy = OrderS, g_stickiness = StickAuto,
     g_members = map js members, g_retry = None, g_rules = None, g_classifier = None,
     g_effortAuto = False\<rparr>"

lemmas member_eval = inner_group_def parseGroupMember_def parseModelRef_def js_eval Let_def
  isProviderId_def PROVIDER_ID_def id_unit_def is_lower_def is_digit_def is_space_def
  split_fast_def split_effort_def last_part_def effort_of_def reasoningEfforts_def notListed_def
  lower_unit_def toLowerCase_def

theorem nesting_check_is_exact_witness:
  "nestingProblems [demo_group ''b'' [''group/a'']] (demo_group ''a'' [''group/b'']) \<noteq> []"
proof -
  let ?a = "demo_group ''a'' [''group/b'']" and ?b = "demo_group ''b'' [''group/a'']"
  have "chain [?a, ?b] (g_members ?a) ([js ''b''] @ [g_id ?a])"
    by (simp add: inner_ids_def find_group_def demo_group_def member_eval)
  then show ?thesis
    using nesting_check_is_exact [of "[?b]" ?a] by blast
qed


section \<open>A stored member reads back\<close>

lemma lower_colon [simp]: "lower_unit c = 58 \<longleftrightarrow> c = 58"
  by (auto simp: lower_unit_def)

lemma lastIndexOf_lower: "lastIndexOf 58 (toLowerCase s) = lastIndexOf 58 s"
proof (induction s)
  case (Cons c s)
  then show ?case by (simp add: toLowerCase_def split: option.split)
qed (simp add: toLowerCase_def)

lemma toLowerCase_take_drop:
  "toLowerCase (take n s) = take n (toLowerCase s)" "toLowerCase (drop n s) = drop n (toLowerCase s)"
  by (simp_all add: toLowerCase_def take_map drop_map)

lemma last_part_lower:
  assumes "toLowerCase x = toLowerCase y" "last_part x = Some (h, tail)"
  shows "\<exists>h'. last_part y = Some (h', tail) \<and> toLowerCase h' = toLowerCase h"
proof -
  obtain i where i: "lastIndexOf 58 x = Some i" "i > 0" "h = take i x" "tail = toLowerCase (drop (i + 1) x)"
    using assms(2) by (auto simp: last_part_def split: option.splits if_splits)
  have "lastIndexOf 58 y = Some i" using i(1) assms(1) lastIndexOf_lower by metis
  with i assms(1) show ?thesis
    by (auto simp: last_part_def toLowerCase_take_drop)
qed

lemma last_part_append:
  assumes "h \<noteq> []" "58 \<notin> set tail"
  shows "last_part (h @ 58 # tail) = Some (h, toLowerCase tail)"
  using assms by (simp add: last_part_def lastIndexOf_append)

lemma last_partD:
  assumes "last_part s = Some (h, tail)"
  shows "\<exists>raw. s = h @ 58 # raw \<and> toLowerCase raw = tail \<and> h \<noteq> []"
proof -
  obtain i where i: "lastIndexOf 58 s = Some i" "i > 0" "h = take i s" "tail = toLowerCase (drop (i + 1) s)"
    using assms by (auto simp: last_part_def split: option.splits if_splits)
  with lastIndexOf_SomeD [OF i(1)] id_take_nth_drop [of i s] show ?thesis by auto
qed

lemma effort_of_Some: "effort_of s = Some e \<longleftrightarrow> s = effort_text e"
proof
  show "effort_of s = Some e \<Longrightarrow> s = effort_text e"
    by (auto simp: effort_of_def dest: find_Some_set)
  show "s = effort_text e \<Longrightarrow> effort_of s = Some e"
    by (cases e) (simp_all add: effort_of_def reasoningEfforts_def)
qed

lemma effort_of_text [simp]: "effort_of (effort_text e) = Some e"
  by (simp add: effort_of_Some)

lemma suffix_plain:
  "toLowerCase (effort_text e) = effort_text e" "58 \<notin> set (effort_text e)"
  "\<not> list_ex is_space (effort_text e)" "toLowerCase (js ''fast'') = js ''fast''"
  "58 \<notin> set (js ''fast'')" "\<not> list_ex is_space (js ''fast'')"
  by (cases e; simp add: js_eval toLowerCase_def lower_unit_def is_space_def)+

lemma toLowerCase_append [simp]: "toLowerCase (x @ c # y) = toLowerCase x @ lower_unit c # toLowerCase y"
  by (simp add: toLowerCase_def)

lemma toLowerCase_cong: "toLowerCase x = toLowerCase y \<Longrightarrow> toLowerCase (x @ z) = toLowerCase (y @ z)"
  by (simp add: toLowerCase_def)

lemma split_fast_append:
  "h \<noteq> [] \<Longrightarrow> \<not> L (h @ 58 # js ''fast'') \<Longrightarrow> split_fast L (h @ 58 # js ''fast'') = (True, h)"
  using suffix_plain(4,5) by (simp add: split_fast_def last_part_append)

text \<open>Taking a suffix off and writing it back gives the same text up to case.\<close>

lemma split_fast_back:
  assumes "split_fast L s = (f, h)"
  defines "s' \<equiv> (if f then h @ 58 # js ''fast'' else h)"
  shows "toLowerCase s' = toLowerCase s" "s \<noteq> [] \<Longrightarrow> h \<noteq> []" "set h \<subseteq> set s"
    "(f \<and> last_part s' = Some (h, js ''fast'') \<and> \<not> L s) \<or> (\<not> f \<and> h = s)"
  using assms(1) unfolding s'_def
  by (auto simp: split_fast_def suffix_plain last_part_append split: option.splits prod.splits if_splits
      dest!: last_partD)

lemma split_effort_back:
  assumes "split_effort L s = (e, h)"
  defines "s' \<equiv> h @ (case e of None \<Rightarrow> [] | Some x \<Rightarrow> 58 # effort_text x)"
  shows "toLowerCase s' = toLowerCase s" "s \<noteq> [] \<Longrightarrow> h \<noteq> []" "set h \<subseteq> set s"
    "(\<exists>x. e = Some x \<and> last_part s' = Some (h, effort_text x) \<and> \<not> L s) \<or> (e = None \<and> h = s)"
  using assms(1) unfolding s'_def
  by (auto simp: split_effort_def suffix_plain last_part_append effort_of_Some
      split: option.splits prod.splits if_splits dest!: last_partD)

text \<open>
  A member reads back from the text it is stored as: whatever text parsed to it (a level in
  upper case, a model whose own id has a colon), \<open>memberText\<close> writes a text that parses to the same
  member, provided whether a provider lists a model does not depend on letter case.
\<close>

theorem stored_member_reads_back:
  assumes parsed: "parseGroupMember written listed = Some m"
    and case_free: "\<And>p x y. toLowerCase x = toLowerCase y \<Longrightarrow> listed p x = listed p y"
  shows "parseGroupMember (memberText m) listed = Some m"
proof (cases "parseModelRef written")
  case None
  with parsed show ?thesis by (simp add: parseGroupMember_def)
next
  case (Some r)
  show ?thesis
  proof (cases r)
    case (RefGroup g)
    with Some parsed have "m = GroupMember g" by (simp add: parseGroupMember_def)
    with parse_group [OF parse_groupD(2)] Some RefGroup show ?thesis
      by (simp add: memberText_def parseGroupMember_def)
  next
    case (RefModel ref)
    let ?p = "mr_provider ref" and ?m0 = "mr_model ref"
    note ref = parse_modelD [OF Some [unfolded RefModel]]
    obtain f m1 where f: "split_fast (listed ?p) ?m0 = (f, m1)" by force
    obtain e m2 where e: "split_effort (listed ?p) m1 = (e, m2)" by force
    note fast = split_fast_back [OF f] and level = split_effort_back [OF e]
    have m: "m = ModelMember \<lparr>mm_ref = ?p @ 47 # m2, mm_provider = ?p, mm_model = m2,
        mm_effort = e, mm_fast = f\<rparr>"
      using parsed Some RefModel f e by (simp add: parseGroupMember_def Let_def)
    let ?m1 = "m2 @ (case e of None \<Rightarrow> [] | Some x \<Rightarrow> 58 # effort_text x)"
    let ?m0' = "if f then ?m1 @ 58 # js ''fast'' else ?m1"
    have m2: "m2 \<noteq> []" using fast(2) level(2) ref(4) by simp
    have lower: "toLowerCase ?m0' = toLowerCase ?m0"
      using fast(1) toLowerCase_cong [OF level(1), of "58 # js ''fast''"] level(1)
      by (cases f) (simp_all only: if_True if_False)
    have "set m2 \<subseteq> set ?m0" using fast(3) level(3) by blast
    with ref(5) have "\<not> list_ex is_space m2" by (auto simp: list_ex_iff)
    then have spaces: "\<not> list_ex is_space ?m0'"
      using suffix_plain(3,6) by (auto simp: list_ex_iff is_space_def [of 58] split: option.splits)
    have stored: "memberText m = ?p @ 47 # ?m0'"
      by (simp add: m memberText_def suffix_text_def)
    have read: "parseModelRef (memberText m) =
        Some (RefModel \<lparr>mr_ref = memberText m, mr_provider = ?p, mr_model = ?m0'\<rparr>)"
      unfolding stored by (rule parse_model [OF ref(3) _ spaces]) (use m2 in auto)
    have f': "split_fast (listed ?p) ?m0' = (f, ?m1)"
    proof (cases f)
      case True
      with fast(4) case_free [OF lower] have "\<not> listed ?p (?m1 @ 58 # js ''fast'')"
        by (simp only: if_True) simp
      moreover have "?m1 \<noteq> []" using m2 by simp
      ultimately have "split_fast (listed ?p) (?m1 @ 58 # js ''fast'') = (True, ?m1)"
        by (intro split_fast_append)
      with True show ?thesis by (simp only: if_True simp_thms)
    next
      case False
      have "\<not> (tail = js ''fast'' \<and> \<not> listed ?p ?m1)" if "last_part ?m1 = Some (h, tail)" for h tail
      proof -
        from last_part_lower [OF _ that, of ?m0] lower False
        obtain h0 where "last_part ?m0 = Some (h0, tail)" by auto
        with f False have "\<not> (tail = js ''fast'' \<and> \<not> listed ?p ?m0)"
          by (auto simp: split_fast_def split: if_splits)
        with case_free [OF lower, of ?p] False show ?thesis by simp
      qed
      with False show ?thesis
        by (auto simp: split_fast_def split: option.split)
    qed
    have e': "split_effort (listed ?p) ?m1 = (e, m2)"
    proof (cases e)
      case (Some x)
      with level(4) case_free [OF level(1)] have "\<not> listed ?p ?m1" by auto
      with Some m2 suffix_plain(1,2) [of x] show ?thesis
        by (simp add: split_effort_def last_part_append effort_of_Some)
    qed (use e level(4) in simp)
    show ?thesis
      using read f' e' by (simp add: parseGroupMember_def Let_def m)
  qed
qed

theorem stored_member_reads_back_witness:
  "\<exists>m. parseGroupMember (js ''openai/gpt-5:HIGH:Fast'') notListed = Some m \<and>
     parseGroupMember (memberText m) notListed = Some m"
proof -
  have "parseGroupMember (js ''openai/gpt-5:HIGH:Fast'') notListed \<noteq> None"
    by (simp add: member_eval)
  then obtain m where "parseGroupMember (js ''openai/gpt-5:HIGH:Fast'') notListed = Some m" by blast
  with stored_member_reads_back [OF this] show ?thesis by (auto simp: notListed_def)
qed


section \<open>The models of a group\<close>

text \<open>What the walk keeps: the keys are those of the models, each once, and each way in is short.\<close>

definition via_ok :: "jstring \<Rightarrow> resolved \<Rightarrow> bool" where
  "via_ok self m \<longleftrightarrow>
     length (rs_via m) \<le> GROUP_NEST_LIMIT \<and> distinct (rs_via m) \<and> self \<notin> set (rs_via m)"

definition found_ok :: "jstring \<Rightarrow> resolved list \<times> jstring list \<Rightarrow> bool" where
  "found_ok self st \<longleftrightarrow>
     snd st = map (\<lambda>m. model_key (rs_ref m) (rs_effort m)) (fst st) \<and> distinct (snd st) \<and>
     list_all (via_ok self) (fst st)"

lemma add_model_ok:
  "found_ok self st \<Longrightarrow> length via \<le> GROUP_NEST_LIMIT \<Longrightarrow> distinct via \<Longrightarrow> self \<notin> set via \<Longrightarrow>
   found_ok self (add_model leads via m st)"
  by (auto simp: found_ok_def add_model_def Let_def via_ok_def)

lemma walk_ok:
  "found_ok self st \<Longrightarrow> length via \<le> GROUP_NEST_LIMIT \<Longrightarrow> distinct via \<Longrightarrow> self \<notin> set via \<Longrightarrow>
   found_ok self (walk lookup listed self via lead members st)"
proof (induction lookup listed self via lead members st rule: walk.induct)
  case (2 lookup listed self via lead written rest st)
  have "found_ok self (case parseGroupMember written listed of
          None \<Rightarrow> st
        | Some (GroupMember i) \<Rightarrow>
            if i = self \<or> i \<in> set via \<or> length via \<ge> GROUP_NEST_LIMIT then st
            else (case lookup i of
                None \<Rightarrow> st
              | Some inner \<Rightarrow> walk lookup listed self (via @ [i])
                  (Some (case lead of Some t \<Rightarrow> t | None \<Rightarrow> written)) (g_members inner) st)
        | Some (ModelMember m) \<Rightarrow>
            add_model (case lead of Some t \<Rightarrow> t | None \<Rightarrow> written) via m st)"
    using 2(1) "2.prems"
    by (auto split: option.split group_member.split intro: add_model_ok)
  with 2(2) "2.prems" show ?case by simp
qed simp

text \<open>
  \<open>groupModels\<close> lists no model twice at the same effort, however the groups are nested (a loop
  written around the check included): the keys are distinct, and the groups on the way to a model
  are different ones, at most eight, never the group itself.
\<close>

theorem group_models_once:
  "distinct (map (\<lambda>m. model_key (rs_ref m) (rs_effort m)) (groupModels grp lookup listed)) \<and>
   list_all (via_ok (g_id grp)) (groupModels grp lookup listed)"
proof -
  have "found_ok (g_id grp) (walk lookup listed (g_id grp) [] None (g_members grp) ([], []))"
    by (rule walk_ok) (simp_all add: found_ok_def)
  then show ?thesis unfolding found_ok_def groupModels_def by metis
qed

section \<open>What a group offers\<close>

lemma narrow_efforts_spec:
  "narrow_efforts ms efforts fixed = (efforts', fixed') \<Longrightarrow>
     set fixed' = set fixed \<union> {e. \<exists>m k. (m, k) \<in> set ms \<and> rs_effort m = Some e} \<and>
     (\<forall>e. (case efforts' of None \<Rightarrow> efforts = None \<and> (\<forall>(m, k) \<in> set ms. rs_effort m \<noteq> None)
        | Some es \<Rightarrow> (e \<in> set es \<longleftrightarrow>
            (case efforts of None \<Rightarrow> (\<exists>(m, k) \<in> set ms. rs_effort m = None) | Some fs \<Rightarrow> e \<in> set fs) \<and>
            (\<forall>(m, k) \<in> set ms. rs_effort m = None \<longrightarrow> e \<in> set (modelEfforts k)))))"
  by (induction ms efforts fixed rule: narrow_efforts.induct)
    (auto simp: Let_def split: option.splits if_splits)


lemma least_known_le:
  assumes "least_known vs = Some n" "v \<in> set vs"
  shows "\<exists>w. v = Some w \<and> n \<le> w"
proof -
  from assms have "v \<noteq> None" "n = Min (the ` set vs)"
    by (auto simp: least_known_def list_all_iff split: if_splits)
  moreover from this(2) assms(2) have "n \<le> the v" by simp
  ultimately show ?thesis by auto
qed

lemma common_modalities_in:
  "common_modalities ks = Some vs \<Longrightarrow> k \<in> set ks \<Longrightarrow>
   \<exists>ms. m_inputModalities k = Some ms \<and> set vs \<subseteq> set ms"
  unfolding common_modalities_def
proof (induction ks arbitrary: vs rule: rev_induct)
  case (snoc x xs)
  show ?case
  proof (cases "xs = []")
    case True
    with snoc.prems show ?thesis by (auto split: option.splits)
  next
    case False
    with snoc show ?thesis by (fastforce split: option.splits)
  qed
qed simp

lemma sorted_narrow:
  "narrow_efforts ms efforts fixed = (Some es, fixed') \<Longrightarrow>
   (\<And>fs. efforts = Some fs \<Longrightarrow> sorted fs) \<Longrightarrow> sorted es"
proof (induction ms efforts fixed rule: narrow_efforts.induct)
  case (2 member known rest efforts fixed)
  have "sorted (modelEfforts known)"
    by (auto simp: modelEfforts_def DEFAULT_REASONING_EFFORTS_def less_eq_effort_def split: option.split)
  then have "sorted fs" if "(case efforts of None \<Rightarrow> modelEfforts known
      | Some es \<Rightarrow> filter (\<lambda>level. level \<in> set (modelEfforts known)) es) = fs" for fs
    using that "2.prems"(2) by (auto split: option.splits intro: sorted_wrt_filter)
  with 2 show ?case by (auto simp: Let_def split: option.splits)
qed simp

text \<open>
  What a group offers holds for whichever model answers: its context window is at most every
  model's, its levels are ones every model that follows the request offers (with every model fixed,
  exactly the levels they are fixed at), lowest first, and its input modalities are every model's.
\<close>

theorem group_offers_at_most_its_models:
  assumes "caps = groupCapabilities models metadata" "m \<in> set models"
  shows "(\<forall>n. gc_contextWindow caps = Some n \<longrightarrow>
      (\<exists>k w. metadata (rs_ref m) = Some k \<and> m_contextWindow k = Some w \<and> n \<le> w)) \<and>
    (rs_effort m = None \<longrightarrow> set (gc_efforts caps) \<subseteq> set (modelEfforts (metadata (rs_ref m)))) \<and>
    (list_all (\<lambda>m. rs_effort m \<noteq> None) models \<longrightarrow>
      set (gc_efforts caps) = {e. list_ex (\<lambda>m. rs_effort m = Some e) models}) \<and>
    sorted (gc_efforts caps) \<and>
    (\<forall>vs. gc_inputModalities caps = Some vs \<longrightarrow>
      (\<exists>k ms. metadata (rs_ref m) = Some k \<and> m_inputModalities k = Some ms \<and> set vs \<subseteq> set ms))"
proof -
  let ?known = "map (\<lambda>m. metadata (rs_ref m)) models"
  obtain efforts fixed where narrow: "narrow_efforts (zip models ?known) None [] = (efforts, fixed)"
    by force
  have pairs: "set (zip models ?known) = (\<lambda>m. (m, metadata (rs_ref m))) ` set models"
    by (simp add: zip_map2 zip_same_conv_map image_image)
  have spec: "set fixed = {e. \<exists>m \<in> set models. rs_effort m = Some e}"
    "case efforts of None \<Rightarrow> \<forall>m \<in> set models. rs_effort m \<noteq> None
      | Some es \<Rightarrow> e \<in> set es \<longleftrightarrow> (\<exists>m \<in> set models. rs_effort m = None) \<and>
          (\<forall>m \<in> set models. rs_effort m = None \<longrightarrow> e \<in> set (modelEfforts (metadata (rs_ref m))))" for e
    using narrow_efforts_spec [OF narrow] unfolding pairs by (auto split: option.splits)
  let ?levels = "case efforts of Some es \<Rightarrow> es | None \<Rightarrow> filter (\<lambda>l. l \<in> set fixed) reasoningEfforts"
  have levels: "gc_efforts caps = ?levels"
    by (simp add: assms(1) groupCapabilities_def Let_def narrow)
  have window: "\<exists>k w. metadata (rs_ref m) = Some k \<and> m_contextWindow k = Some w \<and> n \<le> w"
    if "gc_contextWindow caps = Some n" for n
  proof -
    from that have "least_known (map (\<lambda>k. Option.bind k m_contextWindow) ?known) = Some n"
      by (simp add: assms(1) groupCapabilities_def Let_def narrow)
    moreover have "Option.bind (metadata (rs_ref m)) m_contextWindow \<in>
        set (map (\<lambda>k. Option.bind k m_contextWindow) ?known)" using assms(2) by force
    ultimately show ?thesis using least_known_le by (fastforce simp: bind_eq_Some_conv)
  qed
  have follows: "set (gc_efforts caps) \<subseteq> set (modelEfforts (metadata (rs_ref m)))" if "rs_effort m = None"
    using that assms(2) spec(2) by (cases efforts) (auto simp: levels)
  have all_fixed: "set (gc_efforts caps) = {e. list_ex (\<lambda>m. rs_effort m = Some e) models}"
    if "list_all (\<lambda>m. rs_effort m \<noteq> None) models"
  proof (cases efforts)
    case None
    then show ?thesis using spec(1) set_efforts by (auto simp: levels list_ex_iff)
  next
    case (Some es)
    then have "narrow_efforts (zip models ?known) None [] = (Some es, fixed)" using narrow by simp
    moreover have "narrow_efforts ms None fs = (Some es, fixed) \<Longrightarrow> \<exists>(m, k) \<in> set ms. rs_effort m = None" for ms fs
      by (induction ms arbitrary: fs) (auto simp: Let_def split: option.splits)
    ultimately have "\<exists>(m, k) \<in> set (zip models ?known). rs_effort m = None" by blast
    with that show ?thesis unfolding pairs by (auto simp: list_all_iff)
  qed
  have ordered: "sorted (gc_efforts caps)"
  proof (cases efforts)
    case None
    then show ?thesis using sorted_efforts(1) by (simp add: levels sorted_wrt_filter)
  next
    case (Some es)
    with narrow have "narrow_efforts (zip models ?known) None [] = (Some es, fixed)" by simp
    then have "sorted es" by (rule sorted_narrow) simp
    with Some show ?thesis by (simp add: levels)
  qed
  have modal: "\<exists>k ms. metadata (rs_ref m) = Some k \<and> m_inputModalities k = Some ms \<and> set vs \<subseteq> set ms"
    if "gc_inputModalities caps = Some vs" for vs
  proof -
    from that have all: "list_all (\<lambda>m. m \<noteq> None) ?known" and common: "common_modalities (map the ?known) = Some vs"
      by (auto simp: assms(1) groupCapabilities_def Let_def narrow split: if_splits)
    with assms(2) obtain k where k: "metadata (rs_ref m) = Some k" by (auto simp: list_all_iff)
    then have "k \<in> set (map the ?known)" using assms(2) by force
    with common_modalities_in [OF common] k show ?thesis by auto
  qed
  show ?thesis by (intro conjI allI impI window follows all_fixed ordered modal)
qed

definition demo_model :: provider_model where
  "demo_model = \<lparr>m_id = js ''m'', m_wire = None, m_contextWindow = Some 200, m_maxOutputTokens = None,
     m_reasoning = Some True, m_inputModalities = Some [MText, MImage], m_credentials = None\<rparr>"

theorem group_offers_at_most_its_models_witness:
  "\<exists>m. groupModels (demo_group ''a'' [''p/m'']) (\<lambda>_. None) notListed = [m] \<and>
     set (gc_efforts (groupCapabilities [m] (\<lambda>_. Some demo_model))) \<subseteq> {ELow, EMedium, EHigh}"
proof -
  have "\<exists>m. groupModels (demo_group ''a'' [''p/m'']) (\<lambda>_. None) notListed = [m] \<and> rs_effort m = None"
    by (simp add: groupModels_def demo_group_def add_model_def member_eval)
  then obtain m where m: "groupModels (demo_group ''a'' [''p/m'']) (\<lambda>_. None) notListed = [m]"
    "rs_effort m = None" by blast
  from group_offers_at_most_its_models [OF refl, of m "[m]" "\<lambda>_. Some demo_model"] m(2)
  have "set (gc_efforts (groupCapabilities [m] (\<lambda>_. Some demo_model))) \<subseteq> {ELow, EMedium, EHigh}"
    by (simp add: modelEfforts_def demo_model_def DEFAULT_REASONING_EFFORTS_def)
  with m(1) show ?thesis by blast
qed

end
