(* ===== verification/RouteRules.thy ===== *)
theory RouteRules
  imports RouteGroups
begin

text \<open>
  Route group rules (\<open>packages/core/src/route-rules.ts\<close>): the check that puts a rule the one way,
  matching a request, the intents a classifier chooses among, the typed form of a rule with its
  errors, and what rules make a group offer.

  \<open>raw_rule\<close> is a rule as it comes in (typed or in a request body), \<open>group_rule\<close> one that was put
  the one way. The text of a problem or of a syntax error is left to a constructor; its pointer and
  the word at fault are kept. \<open>localClock\<close> stands for the clock of \<open>Intl.DateTimeFormat\<close>: minutes
  past midnight and the day of the week from Sunday, 0.
\<close>

definition MAX_RULES :: nat where "MAX_RULES = 50"
definition MAX_INTENT :: nat where "MAX_INTENT = 200"
definition MAX_RULE_AGENTS :: nat where "MAX_RULE_AGENTS = 20"

definition DAY_ORDER :: "weekday list" where
  "DAY_ORDER = [Mon, Tue, Wed, Thu, Fri, Sat, Sun]"

definition DAY_NAMES :: "jstring list" where
  "DAY_NAMES = map js [''sunday'', ''monday'', ''tuesday'', ''wednesday'', ''thursday'', ''friday'',
     ''saturday'']"

section \<open>Hours and days\<close>

text \<open>\<open>/^(\d{1,2}):(\d{2})$/\<close> of the trimmed text, as minutes past midnight.\<close>

definition clockMinutes :: "jstring \<Rightarrow> nat option" where
  "clockMinutes written =
     (let s = trim written in
      case indexOf 58 s of
        None \<Rightarrow> None
      | Some i \<Rightarrow>
          let h = take i s; m = drop (i + 1) s
          in if all_digits h \<and> length h \<le> 2 \<and> all_digits m \<and> length m = 2 \<and>
                read_nat h \<le> 23 \<and> read_nat m \<le> 59
             then Some (read_nat h * 60 + read_nat m) else None)"

definition clockText :: "nat \<Rightarrow> jstring" where
  "clockText minutes =
     pad_zero 2 (show_nat (minutes div 60)) @ js '':'' @ pad_zero 2 (show_nat (minutes mod 60))"

definition parseDay :: "jstring \<Rightarrow> weekday option" where
  "parseDay written =
     (let lower = toLowerCase (trim written) in
      if length lower < 3 then None
      else map_option (\<lambda>i. weekdays ! i) (find_index (\<lambda>name. startsWith name lower) DAY_NAMES))"

section \<open>What a rule says\<close>

definition condition_count :: "group_rule \<Rightarrow> nat" where
  "condition_count rule =
     (if gr_tokens rule = None \<or> gr_tokens rule = Some 0 then 0 else 1) +
     (if gr_images rule = Some True then 1 else 0) +
     (if gr_effort rule = None then 0 else 1) +
     (if gr_agents rule = None \<or> gr_agents rule = Some [] then 0 else 1) +
     (if gr_intent rule = None \<or> gr_intent rule = Some [] then 0 else 1) +
     (if gr_compact rule = Some True then 1 else 0) +
     (if gr_time rule = None then 0 else 1)"

definition upper_first :: "jstring \<Rightarrow> jstring" where
  "upper_first s = (case s of [] \<Rightarrow> [] | c # cs \<Rightarrow> (if is_lower c then c - 32 else c) # cs)"

definition day_name :: "weekday \<Rightarrow> jstring" where
  "day_name d = upper_first (weekday_text d)"

text \<open>The runs of consecutive days, Monday first.\<close>

function day_runs :: "weekday list \<Rightarrow> weekday list \<Rightarrow> weekday list list" where
  "day_runs days [] = []"
| "day_runs days (d # ds) =
     (if d \<notin> set days then day_runs days ds
      else (d # takeWhile (\<lambda>e. e \<in> set days) ds) # day_runs days (dropWhile (\<lambda>e. e \<in> set days) ds))"
  by pat_completeness auto
termination
  by (relation "measure (\<lambda>(_, ds). length ds)") (auto simp: le_imp_less_Suc length_dropWhile_le)

definition run_text :: "weekday list \<Rightarrow> jstring list" where
  "run_text run =
     (case run of
        [d] \<Rightarrow> [day_name d]
      | [d, e] \<Rightarrow> [day_name d, day_name e]
      | _ \<Rightarrow> [day_name (hd run) @ 8211 # day_name (last run)])"

definition daysText :: "weekday list \<Rightarrow> jstring" where
  "daysText days = join (js '','') (concat (map run_text (day_runs days DAY_ORDER)))"

definition windowText :: "time_window \<Rightarrow> jstring" where
  "windowText w =
     (let hours = (if tw_from w = tw_to w then js ''all day'' else tw_from w @ 8211 # tw_to w);
          days = daysText (case tw_days w of None \<Rightarrow> [] | Some ds \<Rightarrow> ds)
      in if days \<noteq> [] then hours @ js '' '' @ days else hours)"

text \<open>The greater-or-equal sign is the code unit 8805.\<close>

definition ruleConditions :: "group_rule \<Rightarrow> jstring list" where
  "ruleConditions rule =
     (case gr_tokens rule of
        Some n \<Rightarrow> if n \<noteq> 0 then [js ''tokens '' @ 8805 # js '' '' @ show_int n] else [] | None \<Rightarrow> []) @
     (if gr_images rule = Some True then [js ''images''] else []) @
     (case gr_effort rule of
        Some AnyEffort \<Rightarrow> [js ''reasoning'']
      | Some (AtLeast e) \<Rightarrow> [js ''effort '' @ 8805 # js '' '' @ effort_text e]
      | None \<Rightarrow> []) @
     (case gr_agents rule of
        Some (a # as) \<Rightarrow> [js ''agent '' @ join (js ''|'') (a # as)] | _ \<Rightarrow> []) @
     (case gr_intent rule of
        Some (c # cs) \<Rightarrow> [js ''intent '' @ 34 # (c # cs) @ [34]] | _ \<Rightarrow> []) @
     (if gr_compact rule = Some True then [js ''compacting''] else []) @
     (case gr_time rule of Some w \<Rightarrow> [js ''time '' @ windowText w] | None \<Rightarrow> [])"

section \<open>Putting a rule the one way\<close>

record raw_window =
  rw_from :: jstring
  rw_to :: jstring
  rw_days :: "jstring list option"

record raw_rule =
  raw_use :: jstring
  raw_tokens :: "int option"
  raw_images :: "bool option"
  raw_effort :: "jstring option"
  raw_agents :: "jstring list option"
  raw_intent :: "jstring option"
  raw_compact :: "bool option"
  raw_time :: "raw_window option"

datatype rule_reason =
    MissingUse
  | NotAMember jstring
  | TokensNotPositive
  | UnknownEffort jstring
  | NoAgents
  | TooManyAgents
  | AgentTooLong
  | NoIntent
  | IntentTooLong
  | NotClock jstring
  | NotADay jstring
  | WholeWeek
  | NeedsCondition
  | TooManyRules
  | IntentNeedsClassifier
  | ClassifierNotARef
  | OwnClassifier
  | EffortNotAuto
  | AutoNeedsClassifier

type_synonym rule_problem = "jstring \<times> rule_reason"

definition effort_choice :: "jstring \<Rightarrow> rule_effort option" where
  "effort_choice s =
     (if s = js ''on'' then Some AnyEffort
      else map_option AtLeast (find (\<lambda>e. effort_text e = s) ruleEfforts))"

text \<open>The characters of a string: a surrogate pair is one.\<close>

fun code_points :: "jstring \<Rightarrow> nat" where
  "code_points (a # b # s) =
     (if 55296 \<le> a \<and> a \<le> 56319 \<and> 56320 \<le> b \<and> b \<le> 57343 then 1 + code_points s
      else 1 + code_points (b # s))"
| "code_points [a] = 1"
| "code_points [] = 0"

definition words_of :: "(nat \<Rightarrow> bool) \<Rightarrow> jstring \<Rightarrow> jstring list" where
  "words_of p s = filter (\<lambda>w. w \<noteq> []) (split_at p s)"

definition collapse :: "jstring \<Rightarrow> jstring" where
  "collapse s = join (js '' '') (words_of is_space s)"

text \<open>The fields of a rule one by one: the cleaned value, and the problem if there is one.\<close>

definition clean_tokens :: "int option \<Rightarrow> int option \<times> rule_reason option" where
  "clean_tokens v =
     (case v of
        None \<Rightarrow> (None, None)
      | Some n \<Rightarrow> if \<bar>n\<bar> > max_safe \<or> n < 1 then (None, Some TokensNotPositive) else (Some n, None))"

definition clean_flag :: "bool option \<Rightarrow> bool option" where
  "clean_flag v = (if v = Some True then Some True else None)"

definition clean_effort :: "jstring option \<Rightarrow> rule_effort option \<times> rule_reason option" where
  "clean_effort v =
     (case v of
        None \<Rightarrow> (None, None)
      | Some s \<Rightarrow> (case effort_choice (toLowerCase (trim s)) of
            None \<Rightarrow> (None, Some (UnknownEffort s))
          | Some e \<Rightarrow> (Some e, None)))"

definition clean_agents :: "jstring list option \<Rightarrow> jstring list option \<times> rule_reason option" where
  "clean_agents v =
     (case v of
        None \<Rightarrow> (None, None)
      | Some names \<Rightarrow>
          (let agents = rev (remdups (rev (filter (\<lambda>a. a \<noteq> []) (map (\<lambda>a. toLowerCase (trim a)) names))))
           in if agents = [] then (None, Some NoAgents)
              else if length agents > MAX_RULE_AGENTS then (None, Some TooManyAgents)
              else if list_ex (\<lambda>a. length a > 64) agents then (None, Some AgentTooLong)
              else (Some agents, None)))"

definition clean_intent :: "jstring option \<Rightarrow> jstring option \<times> rule_reason option" where
  "clean_intent v =
     (case v of
        None \<Rightarrow> (None, None)
      | Some s \<Rightarrow>
          (let intent = collapse s
           in if intent = [] then (None, Some NoIntent)
              else if code_points intent > MAX_INTENT then (None, Some IntentTooLong)
              else (Some intent, None)))"

definition clean_time :: "raw_window option \<Rightarrow> time_window option \<times> (jstring \<times> rule_reason) option" where
  "clean_time v =
     (case v of
        None \<Rightarrow> (None, None)
      | Some w \<Rightarrow>
          (let days = (case rw_days w of None \<Rightarrow> [] | Some ds \<Rightarrow> ds) in
           case clockMinutes (rw_from w) of
             None \<Rightarrow> (None, Some (js ''/time/from'', NotClock (rw_from w)))
           | Some from \<Rightarrow> (case clockMinutes (rw_to w) of
               None \<Rightarrow> (None, Some (js ''/time/to'', NotClock (rw_to w)))
             | Some to \<Rightarrow> (case find (\<lambda>d. parseDay d = None) days of
                 Some d \<Rightarrow> (None, Some (js ''/time/days'', NotADay d))
               | None \<Rightarrow>
                   (let ordered = filter (\<lambda>d. Some d \<in> set (map parseDay days)) DAY_ORDER;
                        window = \<lparr>tw_from = clockText from, tw_to = clockText to,
                          tw_days = (if ordered \<noteq> [] \<and> length ordered < 7 then Some ordered else None)\<rparr>
                    in if tw_from window = tw_to window \<and> tw_days window = None
                       then (None, Some (js ''/time'', WholeWeek))
                       else (Some window, None))))))"

definition reason_at :: "jstring \<Rightarrow> rule_reason option \<Rightarrow> rule_problem list" where
  "reason_at pointer r = (case r of None \<Rightarrow> [] | Some x \<Rightarrow> [(pointer, x)])"

definition cleanRule ::
    "raw_rule \<Rightarrow> jstring list \<Rightarrow> jstring \<Rightarrow> group_rule \<times> rule_problem list" where
  "cleanRule rule members pointer =
     (let use = trim (raw_use rule);
          (tokens, tokensP) = clean_tokens (raw_tokens rule);
          (effort, effortP) = clean_effort (raw_effort rule);
          (agents, agentsP) = clean_agents (raw_agents rule);
          (intent, intentP) = clean_intent (raw_intent rule);
          (time, timeP) = clean_time (raw_time rule);
          out = \<lparr>gr_use = use, gr_tokens = tokens, gr_images = clean_flag (raw_images rule),
            gr_effort = effort, gr_agents = agents, gr_intent = intent,
            gr_compact = clean_flag (raw_compact rule), gr_time = time\<rparr>;
          problems =
            reason_at (pointer @ js ''/use'')
              (if use = [] then Some MissingUse
               else if use \<notin> set members then Some (NotAMember use) else None) @
            reason_at (pointer @ js ''/tokens'') tokensP @
            reason_at (pointer @ js ''/effort'') effortP @
            reason_at (pointer @ js ''/agents'') agentsP @
            reason_at (pointer @ js ''/intent'') intentP @
            (case timeP of None \<Rightarrow> [] | Some (field, r) \<Rightarrow> [(pointer @ field, r)])
      in (out, problems @
            (if problems = [] \<and> ruleConditions out = [] then [(pointer, NeedsCondition)] else [])))"

text \<open>A group's rules with its classifier and \<open>effort\<close>, as they come in.\<close>

record rules_input =
  ri_id :: jstring
  ri_members :: "jstring list"
  ri_rules :: "raw_rule list option"
  ri_classifier :: "jstring option"
  ri_effort :: "jstring option"

definition rule_pointer :: "nat \<Rightarrow> jstring" where
  "rule_pointer index = js ''/rules/'' @ show_nat index"

definition cleanGroupRules ::
    "rules_input \<Rightarrow> group_rule list option \<times> rule_problem list" where
  "cleanGroupRules input =
     (let given = (case ri_rules input of None \<Rightarrow> [] | Some rs \<Rightarrow> rs);
          no_classifier = (ri_classifier input = None \<or> ri_classifier input = Some []);
          cleaned = (if length given > MAX_RULES then []
            else map (\<lambda>(i, rule). (i, cleanRule rule (ri_members input) (rule_pointer i))) (enumerate 0 given));
          rules = map (\<lambda>(i, out, problems). out) cleaned;
          ruleP = (if length given > MAX_RULES then [(js ''/rules'', TooManyRules)]
            else concat (map (\<lambda>(i, out, problems). problems @
              (if gr_intent out \<noteq> None \<and> no_classifier
               then [(rule_pointer i @ js ''/intent'', IntentNeedsClassifier)] else [])) cleaned));
          classifierP = (case ri_classifier input of
              None \<Rightarrow> []
            | Some c \<Rightarrow> (case parseModelRef c of
                None \<Rightarrow> [(js ''/classifier'', ClassifierNotARef)]
              | Some (RefGroup g) \<Rightarrow> if g = ri_id input then [(js ''/classifier'', OwnClassifier)] else []
              | Some (RefModel _) \<Rightarrow> []));
          effortP = (case ri_effort input of
              None \<Rightarrow> []
            | Some e \<Rightarrow> if e \<noteq> js ''auto'' then [(js ''/effort'', EffortNotAuto)]
                else if no_classifier then [(js ''/effort'', AutoNeedsClassifier)] else [])
      in ((if rules = [] then None else Some rules), ruleP @ classifierP @ effortP))"

section \<open>Matching a request\<close>

record rule_request =
  rq_tokens :: int
  rq_images :: bool
  rq_thinking :: bool
  rq_effort :: "jstring option"
  rq_agent :: "jstring option"
  rq_intent :: "jstring option"
  rq_compact :: bool
  rq_at :: int
  rq_timeZone :: jstring

type_synonym local_clock = "int \<Rightarrow> jstring \<Rightarrow> nat \<times> nat"

definition weekday_at :: "nat \<Rightarrow> weekday option" where
  "weekday_at d = (if d < 7 then Some (weekdays ! d) else None)"

definition windowHolds :: "local_clock \<Rightarrow> time_window \<Rightarrow> int \<Rightarrow> jstring \<Rightarrow> bool" where
  "windowHolds localClock w at_time timeZone =
     (case (clockMinutes (tw_from w), clockMinutes (tw_to w)) of
        (Some from, Some to) \<Rightarrow>
          (let (minutes, day) = localClock at_time timeZone;
               days = (case tw_days w of None \<Rightarrow> [] | Some ds \<Rightarrow> ds)
           in if from < to \<and> (minutes < from \<or> minutes \<ge> to) then False
              else if from > to \<and> (minutes \<ge> to \<and> minutes < from) then False
              else (let day = (if from > to \<and> minutes < to then (day + 6) mod 7 else day)
                in days = [] \<or> (case weekday_at day of None \<Rightarrow> False | Some d \<Rightarrow> d \<in> set days)))
      | _ \<Rightarrow> False)"

definition rule_effort_index :: "jstring \<Rightarrow> int" where
  "rule_effort_index s =
     (case find_index (\<lambda>e. effort_text e = s) ruleEfforts of None \<Rightarrow> -1 | Some i \<Rightarrow> int i)"

definition ruleMatchesBesidesIntent :: "local_clock \<Rightarrow> group_rule \<Rightarrow> rule_request \<Rightarrow> bool" where
  "ruleMatchesBesidesIntent localClock rule request =
     (if (case gr_tokens rule of Some n \<Rightarrow> n \<noteq> 0 \<and> rq_tokens request < n | None \<Rightarrow> False) then False
      else if gr_images rule = Some True \<and> \<not> rq_images request then False
      else if gr_compact rule = Some True \<and> \<not> rq_compact request then False
      else if (case gr_time rule of
            Some w \<Rightarrow> \<not> windowHolds localClock w (rq_at request) (rq_timeZone request)
          | None \<Rightarrow> False) then False
      else if (case gr_effort rule of
            Some AnyEffort \<Rightarrow> \<not> rq_thinking request
          | Some (AtLeast e) \<Rightarrow>
              rule_effort_index (case rq_effort request of Some s \<Rightarrow> s | None \<Rightarrow> []) <
              rule_effort_index (effort_text e)
          | None \<Rightarrow> False) then False
      else if (case gr_agents rule of
            Some (a # as) \<Rightarrow>
              toLowerCase (case rq_agent request of Some s \<Rightarrow> s | None \<Rightarrow> []) \<notin> set (a # as)
          | _ \<Rightarrow> False) then False
      else ruleConditions rule \<noteq> [])"

definition has_intent :: "group_rule \<Rightarrow> bool" where
  "has_intent rule \<longleftrightarrow> gr_intent rule \<noteq> None \<and> gr_intent rule \<noteq> Some []"

definition intent_of :: "group_rule \<Rightarrow> jstring" where
  "intent_of rule = (case gr_intent rule of Some s \<Rightarrow> s | None \<Rightarrow> [])"

definition ruleMatches :: "local_clock \<Rightarrow> group_rule \<Rightarrow> rule_request \<Rightarrow> bool" where
  "ruleMatches localClock rule request =
     (if has_intent rule \<and> toLowerCase (intent_of rule) \<noteq>
           toLowerCase (case rq_intent request of Some s \<Rightarrow> s | None \<Rightarrow> []) then False
      else ruleMatchesBesidesIntent localClock rule request)"

definition matchRule :: "local_clock \<Rightarrow> group_rule list \<Rightarrow> rule_request \<Rightarrow> nat option" where
  "matchRule localClock rules request = find_index (\<lambda>rule. ruleMatches localClock rule request) rules"

fun then_loop ::
    "local_clock \<Rightarrow> rule_request \<Rightarrow> jstring \<Rightarrow> group_rule list \<Rightarrow> jstring list \<Rightarrow> jstring list" where
  "then_loop localClock request use [] out = out"
| "then_loop localClock request use (rule # rules) out =
     then_loop localClock request use rules
       (if gr_use rule \<noteq> use \<and> gr_use rule \<notin> set out \<and> ruleMatches localClock rule request
        then out @ [gr_use rule] else out)"

definition thenUses ::
    "local_clock \<Rightarrow> group_rule list \<Rightarrow> rule_request \<Rightarrow> nat \<Rightarrow> jstring \<Rightarrow> jstring list" where
  "thenUses localClock rules request n use = then_loop localClock request use (drop n rules) []"

fun intents_loop ::
    "local_clock \<Rightarrow> rule_request \<Rightarrow> group_rule list \<Rightarrow> jstring list \<Rightarrow> jstring list" where
  "intents_loop localClock request [] out = out"
| "intents_loop localClock request (rule # rules) out =
     (if \<not> ruleMatchesBesidesIntent localClock rule request then intents_loop localClock request rules out
      else if \<not> has_intent rule then out
      else intents_loop localClock request rules
        (if list_ex (\<lambda>i. toLowerCase i = toLowerCase (intent_of rule)) out then out
         else out @ [intent_of rule]))"

definition ruleIntents :: "local_clock \<Rightarrow> group_rule list \<Rightarrow> rule_request \<Rightarrow> jstring list" where
  "ruleIntents localClock rules request = intents_loop localClock request rules []"

end
