(* ===== verification/RuleLines.thy ===== *)
theory RuleLines
  imports RouteRules
begin

text \<open>
  The typed form of a rule (\<open>use=a/m tokens=200k images\<close>) and what rules make a group offer: the
  second half of \<open>packages/core/src/route-rules.ts\<close>. A syntax error is a value: the word at fault
  with its reason.
\<close>

section \<open>Words of a line\<close>

record rule_word =
  rw_word :: jstring
  rw_start :: nat
  rw_end :: nat

text \<open>
  The loop of \<open>ruleWordSpans\<close>: the word so far with its start, if one has begun, whether a quote is
  open, and the index of the next unit.
\<close>

fun spans_loop :: "nat \<Rightarrow> (nat \<times> jstring) option \<Rightarrow> bool \<Rightarrow> jstring \<Rightarrow> rule_word list" where
  "spans_loop index current quoted [] =
     (case current of
        None \<Rightarrow> []
      | Some (start, word) \<Rightarrow> [\<lparr>rw_word = word, rw_start = start, rw_end = index\<rparr>])"
| "spans_loop index current quoted (c # cs) =
     (if \<not> quoted \<and> (c = 32 \<or> c = 9)
      then (case current of
          None \<Rightarrow> spans_loop (index + 1) None quoted cs
        | Some (start, word) \<Rightarrow> \<lparr>rw_word = word, rw_start = start, rw_end = index\<rparr> #
            spans_loop (index + 1) None quoted cs)
      else let (start, word) = (case current of None \<Rightarrow> (index, []) | Some w \<Rightarrow> w)
        in if c = 34 then spans_loop (index + 1) (Some (start, word)) (\<not> quoted) cs
           else spans_loop (index + 1) (Some (start, word @ [c])) quoted cs)"

definition ruleWordSpans :: "jstring \<Rightarrow> rule_word list" where
  "ruleWordSpans line = spans_loop 0 None False line"

definition ruleWords :: "jstring \<Rightarrow> jstring list" where
  "ruleWords line = map rw_word (ruleWordSpans line)"

definition faultySpans :: "jstring \<Rightarrow> jstring \<Rightarrow> rule_word list" where
  "faultySpans line word =
     (let spans = ruleWordSpans line; exact = filter (\<lambda>s. rw_word s = word) spans
      in if exact \<noteq> [] then exact
         else if word \<noteq> [] then filter (\<lambda>s. includes_text (rw_word s) word) spans
         else [])"

section \<open>Lengths and days\<close>

text \<open>\<open>/^\d+(?:\.\d+)?$/\<close>\<close>

definition decimal :: "jstring \<Rightarrow> bool" where
  "decimal s \<longleftrightarrow>
     (case indexOf 46 s of
        None \<Rightarrow> all_digits s
      | Some i \<Rightarrow> all_digits (take i s) \<and> all_digits (drop (i + 1) s))"

text \<open>
  \<open>scaled digits multiplier\<close> stands for \<open>Math.floor(Number(digits) * multiplier)\<close>, a product of
  doubles: exact for whole digits, rounded where the text has a fraction.
\<close>

definition parseTokens :: "(jstring \<Rightarrow> nat \<Rightarrow> int) \<Rightarrow> jstring \<Rightarrow> int option" where
  "parseTokens scaled written =
     (let lower = filter (\<lambda>c. c \<noteq> 95) (toLowerCase (trim written));
          multiplier = (if lower \<noteq> [] \<and> last lower = 107 then 1000
            else if lower \<noteq> [] \<and> last lower = 109 then 1000000 else 1);
          digits = (if multiplier = 1 then lower else butlast lower)
      in if \<not> decimal digits then None
         else let tokens = scaled digits multiplier
           in if \<bar>tokens\<bar> \<le> max_safe \<and> tokens > 0 then Some tokens else None)"

datatype syntax_reason =
    DayUnknown jstring
  | NoDays
  | Ambiguous jstring "jstring list"
  | NotInGroup jstring
  | ToggleValue jstring
  | NotALength jstring
  | EffortUnknown jstring
  | AgentsMissing
  | IntentMissing
  | NotHours jstring
  | ClassifierUnknown
  | NotAPlace jstring
  | UnknownWord
  | UseMissing

type_synonym syntax_error = "jstring \<times> syntax_reason"

text \<open>The days from one to another going around the week, added where they are not there yet.\<close>

definition day_index :: "weekday \<Rightarrow> nat" where
  "day_index d = (case find_index (\<lambda>e. e = d) weekdays of Some i \<Rightarrow> i | None \<Rightarrow> 0)"

definition day_range :: "weekday \<Rightarrow> weekday \<Rightarrow> weekday list" where
  "day_range from to =
     takeWhile (\<lambda>d. d \<noteq> to) (map (\<lambda>k. weekdays ! ((day_index from + k) mod 7)) [0..<7]) @ [to]"

definition add_days :: "weekday list \<Rightarrow> weekday list \<Rightarrow> weekday list" where
  "add_days out days = foldl (\<lambda>acc d. if d \<in> set acc then acc else acc @ [d]) out days"

definition dashes :: "jstring \<Rightarrow> jstring" where
  "dashes s = replace_unit 8211 45 s"

text \<open>\<open>split("-", 2)\<close>: the first part and, if there is one, the second.\<close>

definition split_dash :: "jstring \<Rightarrow> jstring \<times> jstring option" where
  "split_dash s =
     (case split_at (\<lambda>c. c = 45) (dashes s) of
        a # b # _ \<Rightarrow> (a, Some b)
      | [a] \<Rightarrow> (a, None)
      | [] \<Rightarrow> ([], None))"

fun days_loop :: "jstring list \<Rightarrow> weekday list \<Rightarrow> syntax_error + weekday list" where
  "days_loop [] out = Inr out"
| "days_loop (part # parts) out =
     (let (a, b) = split_dash part in
      case parseDay a of
        None \<Rightarrow> Inl (part, DayUnknown a)
      | Some from \<Rightarrow>
          (case (case b of None \<Rightarrow> Some from | Some t \<Rightarrow> parseDay t) of
             None \<Rightarrow> Inl (part, DayUnknown (case b of Some t \<Rightarrow> t | None \<Rightarrow> []))
           | Some to \<Rightarrow> days_loop parts (add_days out (day_range from to))))"

definition comma_space :: "nat \<Rightarrow> bool" where
  "comma_space c \<longleftrightarrow> c = 44 \<or> is_space c"

definition parseDays :: "jstring \<Rightarrow> syntax_error + weekday list" where
  "parseDays written =
     (case days_loop (words_of comma_space written) [] of
        Inl e \<Rightarrow> Inl e
      | Inr out \<Rightarrow> if out = [] then Inl (written, NoDays) else Inr out)"

section \<open>The member a typed model names\<close>

definition bare :: "jstring \<Rightarrow> jstring" where
  "bare member = (case indexOf 47 member of Some i \<Rightarrow> drop (i + 1) member | None \<Rightarrow> member)"

definition last_segment :: "jstring \<Rightarrow> jstring" where
  "last_segment member =
     (case lastIndexOf 47 member of Some i \<Rightarrow> drop (i + 1) member | None \<Rightarrow> member)"

definition plain :: "jstring \<Rightarrow> jstring" where
  "plain member =
     (case parseGroupMember member notListed of
        Some (ModelMember m) \<Rightarrow> mm_ref m
      | _ \<Rightarrow> member)"

fun first_hits :: "jstring list \<Rightarrow> (jstring \<Rightarrow> bool) list \<Rightarrow> jstring list" where
  "first_hits members [] = []"
| "first_hits members (p # ps) =
     (let hits = filter p members in if hits \<noteq> [] then hits else first_hits members ps)"

definition member_matchers :: "jstring \<Rightarrow> (jstring \<Rightarrow> bool) list" where
  "member_matchers asked =
     (let same = (\<lambda>t. toLowerCase t = toLowerCase asked)
      in [\<lambda>member. member = asked, same, \<lambda>member. same (bare member),
          \<lambda>member. same (last_segment member), \<lambda>member. same (plain member),
          \<lambda>member. same (bare (plain member))])"

definition memberNamed :: "jstring list \<Rightarrow> jstring \<Rightarrow> syntax_error + jstring" where
  "memberNamed members written =
     (let asked = trim written; hits = first_hits members (member_matchers asked)
      in case hits of
           [hit] \<Rightarrow> Inr hit
         | [] \<Rightarrow> Inl (js ''use='' @ written, NotInGroup asked)
         | _ \<Rightarrow> Inl (js ''use='' @ written, Ambiguous asked hits))"

section \<open>Reading a typed rule\<close>

definition ruleKey :: "jstring \<Rightarrow> jstring" where
  "ruleKey word =
     toLowerCase (trim (case indexOf 61 word of None \<Rightarrow> word | Some i \<Rightarrow> take i word))"

definition SWITCH_ON :: "jstring list" where
  "SWITCH_ON = map js ['''', ''yes'', ''true'', ''on'', ''1'']"

definition SWITCH_OFF :: "jstring list" where
  "SWITCH_OFF = map js [''no'', ''false'', ''off'', ''0'']"

definition toggle :: "jstring \<Rightarrow> jstring \<Rightarrow> syntax_error + bool" where
  "toggle word value =
     (let lower = toLowerCase value
      in if lower \<in> set SWITCH_ON then Inr True
         else if lower \<in> set SWITCH_OFF then Inr False
         else Inl (word, ToggleValue value))"

datatype rule_key =
    KeyUse | KeyTokens | KeyImages | KeyCompact | KeyEffort | KeyAgents | KeyIntent | KeyTime
  | KeyDays | KeyClassifier | KeyAt

definition key_words :: "(jstring \<times> rule_key) list" where
  "key_words = concat (map (\<lambda>(names, key). map (\<lambda>name. (js name, key)) names)
     [([''use'', ''model'', ''to''], KeyUse),
      ([''tokens'', ''context'', ''longer''], KeyTokens),
      ([''images'', ''image''], KeyImages),
      ([''compact'', ''compacting'', ''compaction''], KeyCompact),
      ([''effort'', ''reasoning'', ''thinking''], KeyEffort),
      ([''agents'', ''agent''], KeyAgents),
      ([''intent'', ''asks'', ''about''], KeyIntent),
      ([''time'', ''hours'', ''between''], KeyTime),
      ([''days'', ''day''], KeyDays),
      ([''classifier'', ''classify'', ''by''], KeyClassifier),
      ([''at''], KeyAt)])"

definition RULE_KEYS :: "jstring list" where
  "RULE_KEYS = map fst key_words"

text \<open>A typed rule while its words are read: the rule's fields, the place and the classifier.\<close>

record typed_rule =
  ty_rule :: raw_rule
  ty_at :: "nat option"
  ty_classifier :: "jstring option"

definition no_rule :: typed_rule where
  "no_rule = \<lparr>ty_rule = \<lparr>raw_use = [], raw_tokens = None, raw_images = None, raw_effort = None,
     raw_agents = None, raw_intent = None, raw_compact = None, raw_time = None\<rparr>,
     ty_at = None, ty_classifier = None\<rparr>"

abbreviation with_rule :: "(raw_rule \<Rightarrow> raw_rule) \<Rightarrow> typed_rule \<Rightarrow> typed_rule" where
  "with_rule f t \<equiv> t\<lparr>ty_rule := f (ty_rule t)\<rparr>"

definition read_word ::
    "(jstring \<Rightarrow> nat \<Rightarrow> int) \<Rightarrow> jstring list \<Rightarrow> jstring \<Rightarrow> typed_rule \<Rightarrow> syntax_error + typed_rule" where
  "read_word scaled members word t =
     (let value = (case indexOf 61 word of None \<Rightarrow> [] | Some i \<Rightarrow> drop (i + 1) word) in
      case map_of key_words (ruleKey word) of
        None \<Rightarrow> Inl (word, UnknownWord)
      | Some key \<Rightarrow> (case key of
          KeyUse \<Rightarrow> map_sum id (\<lambda>m. with_rule (\<lambda>r. r\<lparr>raw_use := m\<rparr>) t) (memberNamed members value)
        | KeyTokens \<Rightarrow> (case parseTokens scaled value of
              None \<Rightarrow> Inl (word, NotALength value)
            | Some n \<Rightarrow> Inr (with_rule (\<lambda>r. r\<lparr>raw_tokens := Some n\<rparr>) t))
        | KeyImages \<Rightarrow> map_sum id (\<lambda>b. with_rule (\<lambda>r. r\<lparr>raw_images := Some b\<rparr>) t) (toggle word value)
        | KeyCompact \<Rightarrow> map_sum id (\<lambda>b. with_rule (\<lambda>r. r\<lparr>raw_compact := Some b\<rparr>) t) (toggle word value)
        | KeyEffort \<Rightarrow>
            (let effort = (if 61 \<notin> set word then js ''on'' else toLowerCase (trim value))
             in case effort_choice effort of
                  None \<Rightarrow> Inl (word, EffortUnknown value)
                | Some _ \<Rightarrow> Inr (with_rule (\<lambda>r. r\<lparr>raw_effort := Some effort\<rparr>) t))
        | KeyAgents \<Rightarrow>
            (let agents = words_of comma_space value
             in if agents = [] then Inl (word, AgentsMissing)
                else Inr (with_rule (\<lambda>r. r\<lparr>raw_agents := Some agents\<rparr>) t))
        | KeyIntent \<Rightarrow>
            (if trim value = [] then Inl (word, IntentMissing)
             else Inr (with_rule (\<lambda>r. r\<lparr>raw_intent := Some (trim value)\<rparr>) t))
        | KeyTime \<Rightarrow> (case split_dash value of
              (from, Some to) \<Rightarrow>
                if clockMinutes from = None \<or> clockMinutes to = None then Inl (word, NotHours value)
                else Inr (with_rule (\<lambda>r. r\<lparr>raw_time := Some \<lparr>rw_from = trim from, rw_to = trim to,
                  rw_days = (case raw_time r of None \<Rightarrow> None | Some w \<Rightarrow> rw_days w)\<rparr>\<rparr>) t)
            | _ \<Rightarrow> Inl (word, NotHours value))
        | KeyDays \<Rightarrow> map_sum id (\<lambda>days. with_rule (\<lambda>r. r\<lparr>raw_time := Some
            \<lparr>rw_from = (case raw_time r of None \<Rightarrow> js ''00:00'' | Some w \<Rightarrow> rw_from w),
             rw_to = (case raw_time r of None \<Rightarrow> js ''00:00'' | Some w \<Rightarrow> rw_to w),
             rw_days = Some (map weekday_text days)\<rparr>\<rparr>) t) (parseDays value)
        | KeyClassifier \<Rightarrow>
            (if trim value = [] \<or> parseModelRef (trim value) = None then Inl (word, ClassifierUnknown)
             else Inr (t\<lparr>ty_classifier := Some (trim value)\<rparr>))
        | KeyAt \<Rightarrow>
            (if \<not> all_digits value \<or> read_nat value < 1 then Inl (word, NotAPlace value)
             else Inr (t\<lparr>ty_at := Some (read_nat value)\<rparr>))))"

fun read_words ::
    "(jstring \<Rightarrow> nat \<Rightarrow> int) \<Rightarrow> jstring list \<Rightarrow> jstring list \<Rightarrow> typed_rule \<Rightarrow> syntax_error + typed_rule" where
  "read_words scaled members [] t = Inr t"
| "read_words scaled members (w # ws) t =
     (case read_word scaled members w t of
        Inl e \<Rightarrow> Inl e
      | Inr t' \<Rightarrow> read_words scaled members ws t')"

definition parseRule ::
    "(jstring \<Rightarrow> nat \<Rightarrow> int) \<Rightarrow> jstring list \<Rightarrow> jstring list \<Rightarrow> syntax_error + typed_rule" where
  "parseRule scaled members words =
     (case read_words scaled members words no_rule of
        Inl e \<Rightarrow> Inl e
      | Inr t \<Rightarrow> if raw_use (ty_rule t) = [] then Inl (js ''use'', UseMissing) else Inr t)"

section \<open>Writing a rule\<close>

definition ruleLine :: "group_rule \<Rightarrow> jstring" where
  "ruleLine rule =
     join (js '' '')
       ([js ''use='' @ gr_use rule] @
        (case gr_tokens rule of
           Some n \<Rightarrow> if n \<noteq> 0 then [js ''tokens='' @ show_int n] else [] | None \<Rightarrow> []) @
        (if gr_images rule = Some True then [js ''images''] else []) @
        (case gr_effort rule of
           Some AnyEffort \<Rightarrow> [js ''effort=on'']
         | Some (AtLeast e) \<Rightarrow> [js ''effort='' @ effort_text e]
         | None \<Rightarrow> []) @
        (case gr_agents rule of
           Some (a # as) \<Rightarrow> [js ''agents='' @ join (js '','') (a # as)] | _ \<Rightarrow> []) @
        (if has_intent rule
         then [js ''intent='' @ 34 # filter (\<lambda>c. c \<noteq> 34) (intent_of rule) @ [34]] else []) @
        (if gr_compact rule = Some True then [js ''compact''] else []) @
        (case gr_time rule of
           None \<Rightarrow> []
         | Some w \<Rightarrow>
             (let days = (case tw_days w of None \<Rightarrow> [] | Some ds \<Rightarrow> ds)
              in (if tw_from w \<noteq> tw_to w \<or> days = []
                  then [js ''time='' @ tw_from w @ 45 # tw_to w] else []) @
                 (if days \<noteq> [] then [js ''days='' @ dashes (toLowerCase (daysText days))] else []))))"

section \<open>What rules make a group offer\<close>

record member_takes =
  mt_window :: int
  mt_sees :: bool

text \<open>The smallest known window of a member's models (0 when none is known), and whether all take images.\<close>

definition smallest_window :: "provider_model option list \<Rightarrow> int" where
  "smallest_window known =
     foldl (\<lambda>window model.
         let value = (case Option.bind model m_contextWindow of Some v \<Rightarrow> v | None \<Rightarrow> 0)
         in if value > 0 \<and> (window = 0 \<or> value < window) then value else window) 0 known"

definition takes_images :: "provider_model option \<Rightarrow> bool" where
  "takes_images model \<longleftrightarrow>
     (case Option.bind model m_inputModalities of Some ms \<Rightarrow> MImage \<in> set ms | None \<Rightarrow> False)"

definition member_of ::
    "resolved list \<Rightarrow> (jstring \<Rightarrow> provider_model option) \<Rightarrow> jstring \<Rightarrow> member_takes option" where
  "member_of models metadata member =
     (let known = map (\<lambda>m. metadata (rs_ref m)) (filter (\<lambda>m. rs_member m = member) models)
      in if known = [] then None
         else Some \<lparr>mt_window = smallest_window known, mt_sees = list_all takes_images known\<rparr>)"

text \<open>\<open>alone field\<close>: the rule has no other field than \<open>use\<close> and this one (a field left out is \<open>None\<close>).\<close>

definition images_alone :: "group_rule \<Rightarrow> bool" where
  "images_alone r \<longleftrightarrow> gr_tokens r = None \<and> gr_effort r = None \<and> gr_agents r = None \<and>
     gr_intent r = None \<and> gr_compact r = None \<and> gr_time r = None"

definition tokens_alone :: "group_rule \<Rightarrow> bool" where
  "tokens_alone r \<longleftrightarrow> gr_images r = None \<and> gr_effort r = None \<and> gr_agents r = None \<and>
     gr_intent r = None \<and> gr_compact r = None \<and> gr_time r = None"

definition fits_members ::
    "(jstring \<Rightarrow> member_takes option) \<Rightarrow> group_rule \<Rightarrow> int \<Rightarrow> jstring list \<Rightarrow> int \<Rightarrow> int" where
  "fits_members takes rule tokens members fits =
     foldl (\<lambda>fits member.
         if member = gr_use rule then fits
         else (case takes member of
             Some other \<Rightarrow> if mt_window other > 0 \<and> mt_window other < tokens then 0 else fits
           | None \<Rightarrow> fits)) fits members"

definition fits_before ::
    "(jstring \<Rightarrow> member_takes option) \<Rightarrow> group_rule list \<Rightarrow> int \<Rightarrow> int" where
  "fits_before takes before fits =
     foldl (\<lambda>fits earlier.
         case takes (gr_use earlier) of
           None \<Rightarrow> 0
         | Some other \<Rightarrow> if mt_window other < fits then mt_window other else fits) fits before"

definition ruled_step ::
    "(jstring \<Rightarrow> member_takes option) \<Rightarrow> jstring list \<Rightarrow> group_rule list \<Rightarrow> group_rule \<Rightarrow>
     int \<times> bool \<Rightarrow> int \<times> bool" where
  "ruled_step takes members before rule st =
     (case takes (gr_use rule) of
        None \<Rightarrow> st
      | Some target \<Rightarrow>
          (let (window, images) = st;
               images = (images \<or> gr_images rule = Some True \<and> images_alone rule \<and> mt_sees target \<and>
                 \<not> list_ex (\<lambda>e. \<not> (case takes (gr_use e) of Some other \<Rightarrow> mt_sees other | None \<Rightarrow> False)) before)
           in case gr_tokens rule of
                None \<Rightarrow> (window, images)
              | Some tokens \<Rightarrow>
                  if tokens = 0 \<or> \<not> tokens_alone rule \<or> mt_window target \<le> window then (window, images)
                  else (let fits = fits_before takes before
                          (fits_members takes rule tokens members (mt_window target))
                    in (if fits > window then fits else window, images))))"

fun ruled_loop ::
    "(jstring \<Rightarrow> member_takes option) \<Rightarrow> jstring list \<Rightarrow> group_rule list \<Rightarrow> group_rule list \<Rightarrow>
     int \<times> bool \<Rightarrow> int \<times> bool" where
  "ruled_loop takes members before [] st = st"
| "ruled_loop takes members before (rule # rules) st =
     ruled_loop takes members (before @ [rule]) rules (ruled_step takes members before rule st)"

definition ruledCapabilities ::
    "route_group \<Rightarrow> resolved list \<Rightarrow> (jstring \<Rightarrow> provider_model option) \<Rightarrow> group_caps" where
  "ruledCapabilities grp models metadata =
     (let base = groupCapabilities models metadata;
          rules = (case g_rules grp of None \<Rightarrow> [] | Some rs \<Rightarrow> rs);
          sees = (case gc_inputModalities base of Some ms \<Rightarrow> MImage \<in> set ms | None \<Rightarrow> False);
          (window, images) = ruled_loop (member_of models metadata) (g_members grp) [] rules
            (case gc_contextWindow base of Some w \<Rightarrow> w | None \<Rightarrow> 0, sees);
          modalities = (if images \<and> \<not> sees
            then Some ((case gc_inputModalities base of Some ms \<Rightarrow> ms | None \<Rightarrow> [MText]) @ [MImage])
            else gc_inputModalities base)
      in if rules = [] then base
         else base\<lparr>gc_contextWindow := (if window > 0 then Some window else gc_contextWindow base),
           gc_inputModalities := (case modalities of Some ms \<Rightarrow> Some ms
             | None \<Rightarrow> gc_inputModalities base)\<rparr>)"

end
