(* ===== verification/RouteRuleProps.thy ===== *)
theory RouteRuleProps
  imports RuleLines RouteGroupProps
begin

text \<open>
  Route group rules: hours past midnight, and what the classifier's answer can decide.
\<close>

section \<open>Hours\<close>

definition on_day :: "time_window \<Rightarrow> nat \<Rightarrow> bool" where
  "on_day w d \<longleftrightarrow> (case tw_days w of None \<Rightarrow> True | Some ds \<Rightarrow> ds = [] \<or> weekdays ! d \<in> set ds)"

text \<open>
  A window holds from its first minute until the one before its last; past midnight the minutes
  after midnight belong to the day before, also when that is the last day of the week; the same hour
  twice is the whole day.
\<close>

theorem window_holds_iff:
  assumes "clockMinutes (tw_from w) = Some from" "clockMinutes (tw_to w) = Some to"
    and "localClock at_time zone = (minutes, day)" "day < 7"
  shows "windowHolds localClock w at_time zone =
    (if from < to then from \<le> minutes \<and> minutes < to \<and> on_day w day
     else if to < from then (from \<le> minutes \<and> on_day w day) \<or> (minutes < to \<and> on_day w ((day + 6) mod 7))
     else on_day w day)"
  using assms
  by (auto simp: windowHolds_def Let_def on_day_def weekday_at_def split: option.split)

theorem window_holds_iff_witness:
  "windowHolds (\<lambda>_ _. (60, 0)) \<lparr>tw_from = js ''22:00'', tw_to = js ''08:00'', tw_days = Some [Sat]\<rparr> 0 []"
proof -
  let ?w = "\<lparr>tw_from = js ''22:00'', tw_to = js ''08:00'', tw_days = Some [Sat]\<rparr>"
  have clock: "clockMinutes (tw_from ?w) = Some 1320" "clockMinutes (tw_to ?w) = Some 480"
    by (simp_all add: clockMinutes_def trim_def js_eval is_space_def all_digits_def is_digit_def
        read_nat_def Let_def)
  show ?thesis
    using window_holds_iff [OF clock, of "\<lambda>_ _. (60, 0)" 0 "[]" 60 0]
    by (simp add: on_day_def weekdays_def)
qed

section \<open>What the classifier decides\<close>

lemma besides_intent_only [simp]:
  "ruleMatchesBesidesIntent localClock rule (rq\<lparr>rq_intent := i\<rparr>) =
     ruleMatchesBesidesIntent localClock rule rq"
  by (cases rq) (simp only: ruleMatchesBesidesIntent_def rule_request.simps)

definition says :: "jstring option \<Rightarrow> jstring \<Rightarrow> bool" where
  "says answer intent \<longleftrightarrow>
     toLowerCase intent = toLowerCase (case answer of Some s \<Rightarrow> s | None \<Rightarrow> [])"

lemma ruleMatches_says:
  "ruleMatches localClock rule (rq\<lparr>rq_intent := a\<rparr>) =
     ((has_intent rule \<longrightarrow> says a (intent_of rule)) \<and> ruleMatchesBesidesIntent localClock rule rq)"
  by (simp add: ruleMatches_def says_def)

lemma intents_loop_mono: "set out \<subseteq> set (intents_loop localClock rq rules out)"
proof (induction localClock rq rules out rule: intents_loop.induct)
  case (2 localClock rq rule rules out)
  then show ?case by (auto simp: Let_def)
qed simp

lemma intents_loop_decides:
  "\<forall>i \<in> set (intents_loop localClock rq rules out). \<not> says a i \<and> \<not> says b i \<Longrightarrow>
   find_index (\<lambda>rule. ruleMatches localClock rule (rq\<lparr>rq_intent := a\<rparr>)) rules =
   find_index (\<lambda>rule. ruleMatches localClock rule (rq\<lparr>rq_intent := b\<rparr>)) rules"
proof (induction localClock rq rules out rule: intents_loop.induct)
  case (1 localClock rq out)
  then show ?case by simp
next
  case (2 localClock rq rule rules out)
  show ?case
  proof (cases "ruleMatchesBesidesIntent localClock rule rq")
    case False
    with 2(1) "2.prems" show ?thesis by (simp add: ruleMatches_says)
  next
    case True
    show ?thesis
    proof (cases "has_intent rule")
      case False
      with True show ?thesis by (simp add: ruleMatches_says)
    next
      case intent: True
      let ?out = "if list_ex (\<lambda>i. toLowerCase i = toLowerCase (intent_of rule)) out then out
        else out @ [intent_of rule]"
      from True intent "2.prems" have rest:
        "\<forall>i \<in> set (intents_loop localClock rq rules ?out). \<not> says a i \<and> \<not> says b i" by simp
      have "\<exists>i \<in> set ?out. toLowerCase i = toLowerCase (intent_of rule)" by (simp add: list_ex_iff)
      then obtain i where "i \<in> set ?out" "toLowerCase i = toLowerCase (intent_of rule)" by blast
      moreover from this(1) have "i \<in> set (intents_loop localClock rq rules ?out)"
        using intents_loop_mono by blast
      then have "\<not> says a i \<and> \<not> says b i" using rest by blast
      ultimately have "\<not> says a (intent_of rule) \<and> \<not> says b (intent_of rule)" by (simp add: says_def)
      with 2(2) [OF _ _ rest] True intent show ?thesis by (simp add: ruleMatches_says)
    qed
  qed
qed

lemma intents_loop_distinct:
  "distinct (map toLowerCase out) \<Longrightarrow> distinct (map toLowerCase (intents_loop localClock rq rules out))"
proof (induction localClock rq rules out rule: intents_loop.induct)
  case (2 localClock rq rule rules out)
  show ?case
  proof (cases "list_ex (\<lambda>i. toLowerCase i = toLowerCase (intent_of rule)) out")
    case True
    with 2 show ?thesis by simp
  next
    case False
    then have "toLowerCase (intent_of rule) \<notin> set (map toLowerCase out)"
      by (auto simp: list_ex_iff)
    with 2 False show ?thesis by simp
  qed
qed simp

text \<open>
  Only the listed intents matter. Two answers of the classifier that are none of \<open>ruleIntents\<close>
  decide the same rule; so where it lists none the classifier need not be asked. No intent is
  listed twice, in any letter case.
\<close>

theorem classifier_decides_among_intents:
  assumes "\<And>i. i \<in> set (ruleIntents localClock rules rq) \<Longrightarrow> \<not> says a i \<and> \<not> says b i"
  shows "matchRule localClock rules (rq\<lparr>rq_intent := a\<rparr>) =
      matchRule localClock rules (rq\<lparr>rq_intent := b\<rparr>) \<and>
    distinct (map toLowerCase (ruleIntents localClock rules rq))"
  using assms intents_loop_decides [of localClock rq rules "[]" a b]
    intents_loop_distinct [of "[]" localClock rq rules]
  unfolding matchRule_def ruleIntents_def by simp

definition demo_rule :: "jstring option \<Rightarrow> group_rule" where
  "demo_rule intent = \<lparr>gr_use = js ''a/m'', gr_tokens = Some 10, gr_images = None, gr_effort = None,
     gr_agents = None, gr_intent = intent, gr_compact = None, gr_time = None\<rparr>"

definition demo_request :: rule_request where
  "demo_request = \<lparr>rq_tokens = 20, rq_images = False, rq_thinking = False, rq_effort = None,
     rq_agent = None, rq_intent = None, rq_compact = False, rq_at = 0, rq_timeZone = []\<rparr>"

theorem classifier_decides_among_intents_witness:
  "matchRule (\<lambda>_ _. (0, 0)) [demo_rule None, demo_rule (Some (js ''tests''))]
       (demo_request\<lparr>rq_intent := Some (js ''tests'')\<rparr>) =
     matchRule (\<lambda>_ _. (0, 0)) [demo_rule None, demo_rule (Some (js ''tests''))]
       (demo_request\<lparr>rq_intent := None\<rparr>)"
proof (rule conjunct1, rule classifier_decides_among_intents)
  fix i
  assume "i \<in> set (ruleIntents (\<lambda>_ _. (0, 0)) [demo_rule None, demo_rule (Some (js ''tests''))] demo_request)"
  then show "\<not> says (Some (js ''tests'')) i \<and> \<not> says None i"
    by (simp add: ruleIntents_def ruleMatchesBesidesIntent_def demo_rule_def demo_request_def
        has_intent_def ruleConditions_def)
qed

end
