(* ===== verification/RuleNormal.thy ===== *)
theory RuleNormal
  imports RuleLines RouteGroupProps
begin

text \<open>
  The one way a rule is put: what \<open>cleanRule\<close> gives, cleaned again, is the same rule, and a clean
  rule names a member of its group and says when it applies.
\<close>

section \<open>Trimmed, lowered and collapsed text\<close>

lemma trim_ends:
  "trim s = [] \<or> (\<not> is_space (hd (trim s)) \<and> \<not> is_space (last (trim s)))"
proof -
  let ?t = "dropWhile is_space s"
  let ?u = "dropWhile is_space (rev ?t)"
  show ?thesis
  proof (cases "?u = []")
    case False
    then have first: "\<not> is_space (hd ?u)" by (rule hd_dropWhile)
    have "last ?u = last (rev ?t)"
      using False by (metis append_Nil2 dropWhile_eq_Nil_conv last_appendR takeWhile_dropWhile_id)
    moreover have nonempty: "?t \<noteq> []"
    proof
      assume "?t = []"
      with False show False by simp
    qed
    then have "\<not> is_space (hd ?t)" by (rule hd_dropWhile)
    ultimately show ?thesis using first False nonempty
      by (simp add: trim_def hd_rev last_rev)
  qed (simp add: trim_def)
qed

lemma trim_same:
  assumes "s = [] \<or> (\<not> is_space (hd s) \<and> \<not> is_space (last s))"
  shows "trim s = s"
proof (cases "s = []")
  case False
  with assms have "dropWhile is_space s = s" "dropWhile is_space (rev s) = rev s"
    by (metis dropWhile_eq_self_iff, metis dropWhile_eq_self_iff hd_rev)
  then show ?thesis by (simp add: trim_def)
qed (simp add: trim_def)

lemma trim_idem [simp]: "trim (trim s) = trim s"
  by (rule trim_same [OF trim_ends])

lemma space_range: "is_space c \<Longrightarrow> c \<le> 32 \<or> c = 160 \<or> 5760 \<le> c"
  by (auto simp: is_space_def)

lemma lower_unit_range:
  "lower_unit c = c \<or> (33 \<le> lower_unit c \<and> lower_unit c \<noteq> 160 \<and> lower_unit c < 5760)"
  by (simp add: lower_unit_def)

lemma space_lower_same: "is_space c \<Longrightarrow> lower_unit c = c"
  unfolding is_space_def by (elim insertE) (simp_all add: lower_unit_def)

lemma lower_unit_space [simp]: "is_space (lower_unit c) = is_space c"
proof (cases "lower_unit c = c")
  case False
  with lower_unit_range [of c] space_range [of "lower_unit c"] have "\<not> is_space (lower_unit c)" by linarith
  with False space_lower_same [of c] show ?thesis by metis
qed simp

lemma trim_lower [simp]: "trim (toLowerCase (trim s)) = toLowerCase (trim s)"
proof (cases "trim s = []")
  case True
  moreover have "trim [] = []" by (simp add: trim_def)
  ultimately show ?thesis by (simp add: toLowerCase_def)
next
  case False
  with trim_ends [of s] have "\<not> is_space (hd (toLowerCase (trim s)))" "\<not> is_space (last (toLowerCase (trim s)))"
    by (simp_all add: toLowerCase_def hd_map last_map)
  then show ?thesis by (intro trim_same) simp
qed

lemma rev_remdups_rev_distinct: "distinct xs \<Longrightarrow> rev (remdups (rev xs)) = xs"
  by (simp add: distinct_remdups_id)

lemma split_at_join:
  assumes "\<forall>w \<in> set ws. \<forall>c \<in> set w. \<not> p c" "ws \<noteq> []" "p sep"
  shows "split_at p (join [sep] ws) = ws"
proof -
  have one: "split_at p (w @ sep # s) = w # split_at p s" if "\<forall>c \<in> set w. \<not> p c" for w s
    using that assms(3) by (induction w) auto
  show ?thesis using assms(1,2)
  proof (induction ws)
    case (Cons w ws)
    show ?case
    proof (cases ws)
      case Nil
      with Cons.prems show ?thesis by (simp add: join_def split_at_no_sep)
    next
      case (Cons v vs)
      then have "join [sep] (w # ws) = w @ sep # join [sep] ws" by (simp add: join_def)
      with one [of w "join [sep] ws"] Cons.prems Cons.IH show ?thesis using Cons by simp
    qed
  qed simp
qed

lemma split_at_parts: "\<forall>w \<in> set (split_at p s). \<forall>c \<in> set w. \<not> p c"
proof (induction s)
  case (Cons x xs)
  then show ?case by (cases "split_at p xs") auto
qed simp

lemma is_space_32 [simp]: "is_space 32"
  by (simp add: is_space_def)

lemma collapse_idem [simp]: "collapse (collapse s) = collapse s"
proof (cases "words_of is_space s = []")
  case True
  then show ?thesis by (simp add: collapse_def join_def words_of_def)
next
  case False
  have "split_at is_space (join [32] (words_of is_space s)) = words_of is_space s"
    by (rule split_at_join) (use False split_at_parts [of is_space s] in \<open>auto simp: words_of_def\<close>)
  then have "words_of is_space (collapse s) = words_of is_space s"
    by (simp add: collapse_def js_def words_of_def)
  then show ?thesis by (simp add: collapse_def)
qed

section \<open>Clocks and days\<close>

lemma small_show_nat: "n < 10 \<Longrightarrow> show_nat n = [48 + n]"
  by (subst show_nat.simps) simp

lemma two_show_nat: "10 \<le> n \<Longrightarrow> n < 100 \<Longrightarrow> show_nat n = [48 + n div 10, 48 + n mod 10]"
  by (subst show_nat.simps) (simp add: small_show_nat)

lemma pad_two: "n < 100 \<Longrightarrow> pad_zero 2 (show_nat n) = [48 + n div 10, 48 + n mod 10]"
  by (cases "n < 10") (simp_all add: pad_zero_def small_show_nat two_show_nat numeral_2_eq_2)

lemma clockMinutes_clockText [simp]:
  assumes "m < 1440"
  shows "clockMinutes (clockText m) = Some m"
proof -
  have parts: "m div 60 < 24" "m mod 60 \<le> 59" "m mod 60 < 60" using assms by auto
  let ?h = "m div 60" and ?n = "m mod 60"
  have shown: "clockText m = [48 + ?h div 10, 48 + ?h mod 10, 58, 48 + ?n div 10, 48 + ?n mod 10]"
    using parts by (simp add: clockText_def pad_two js_eval)
  have digits: "is_digit (48 + ?h div 10)" "is_digit (48 + ?h mod 10)" "is_digit (48 + ?n div 10)"
    "is_digit (48 + ?n mod 10)"
    using parts by (auto simp: is_digit_def)
  have not_space: "\<not> is_space c" if "is_digit c" for c
    using that by (auto simp: is_digit_def is_space_def)
  have "trim (clockText m) = clockText m"
    by (rule trim_same) (use digits not_space in \<open>simp add: shown\<close>)
  moreover have "read_nat [48 + ?h div 10, 48 + ?h mod 10] = ?h" "read_nat [48 + ?n div 10, 48 + ?n mod 10] = ?n"
    by (simp_all add: read_nat_def)
  moreover have "48 + ?h div 10 \<noteq> 58" "48 + ?h mod 10 \<noteq> 58"
    using digits by (auto simp: is_digit_def)
  ultimately show ?thesis
    using digits parts
    by (simp add: clockMinutes_def shown Let_def all_digits_def) (use parts(3) in linarith)
qed

lemma clockMinutes_range: "clockMinutes s = Some m \<Longrightarrow> m < 1440"
  by (auto simp: clockMinutes_def Let_def split: option.splits if_splits)

lemma parseDay_text [simp]: "parseDay (weekday_text d) = Some d"
  by (cases d) (simp_all add: parseDay_def trim_def js_eval is_space_def toLowerCase_def lower_unit_def
      startsWith_def DAY_NAMES_def weekdays_def Let_def)

section \<open>A clean rule cleaned again\<close>

fun choice_text :: "rule_effort \<Rightarrow> jstring" where
  "choice_text AnyEffort = js ''on''"
| "choice_text (AtLeast e) = effort_text e"

definition raw_time_of :: "time_window \<Rightarrow> raw_window" where
  "raw_time_of w = \<lparr>rw_from = tw_from w, rw_to = tw_to w, rw_days = map_option (map weekday_text) (tw_days w)\<rparr>"

definition raw_of :: "group_rule \<Rightarrow> raw_rule" where
  "raw_of r = \<lparr>raw_use = gr_use r, raw_tokens = gr_tokens r, raw_images = gr_images r,
     raw_effort = map_option choice_text (gr_effort r), raw_agents = gr_agents r,
     raw_intent = gr_intent r, raw_compact = gr_compact r, raw_time = map_option raw_time_of (gr_time r)\<rparr>"

lemma effort_choice_text:
  "effort_choice s = Some c \<Longrightarrow> effort_choice (toLowerCase (trim (choice_text c))) = Some c"
proof -
  have lowered: "toLowerCase (trim (effort_text e)) = effort_text e" for e
    by (cases e) (simp_all add: trim_def js_eval is_space_def toLowerCase_def lower_unit_def)
  have on: "toLowerCase (trim (js ''on'')) = js ''on''"
    by (simp add: trim_def js_eval is_space_def toLowerCase_def lower_unit_def)
  show "effort_choice s = Some c \<Longrightarrow> effort_choice (toLowerCase (trim (choice_text c))) = Some c"
    by (cases c)
      (auto simp: effort_choice_def on lowered find_Some_iff split: if_splits)
qed

lemma clean_effort_again:
  "clean_effort v = (c, None) \<Longrightarrow> clean_effort (map_option choice_text c) = (c, None)"
  by (auto simp: clean_effort_def effort_choice_text split: option.splits)

lemma clean_tokens_again: "clean_tokens v = (n, None) \<Longrightarrow> clean_tokens n = (n, None)"
  by (auto simp: clean_tokens_def split: option.splits if_splits)

lemma clean_flag_again [simp]: "clean_flag (clean_flag v) = clean_flag v"
  by (simp add: clean_flag_def)

lemma clean_agents_again:
  assumes "clean_agents v = (agents, None)"
  shows "clean_agents agents = (agents, None)"
proof (cases v)
  case (Some names)
  define found where
    "found = rev (remdups (rev (filter (\<lambda>a. a \<noteq> []) (map (\<lambda>a. toLowerCase (trim a)) names))))"
  have agents: "agents = Some found" "found \<noteq> []" "length found \<le> MAX_RULE_AGENTS"
    "\<not> list_ex (\<lambda>a. length a > 64) found"
    using assms unfolding Some clean_agents_def Let_def option.case found_def [symmetric]
    by (auto split: if_splits)
  have "\<forall>a \<in> set found. toLowerCase (trim a) = a \<and> a \<noteq> []" by (auto simp: found_def)
  then have "filter (\<lambda>a. a \<noteq> []) (map (\<lambda>a. toLowerCase (trim a)) found) = found"
    by (simp add: map_idI)
  moreover have "distinct found" by (simp add: found_def)
  ultimately show ?thesis
    using agents by (simp add: clean_agents_def Let_def rev_remdups_rev_distinct del: rev_map)
qed (use assms in \<open>simp add: clean_agents_def\<close>)

lemma clean_intent_again: "clean_intent v = (i, None) \<Longrightarrow> clean_intent i = (i, None)"
  by (auto simp: clean_intent_def Let_def split: option.splits if_splits)

lemma ordered_days_again:
  "filter (\<lambda>d. Some d \<in> set (map parseDay (map weekday_text (filter P DAY_ORDER)))) DAY_ORDER = filter P DAY_ORDER"
  by (auto simp: comp_def intro: filter_cong)

lemma find_text_None: "find (\<lambda>d. parseDay d = None) (map weekday_text ds) = None"
  by (simp add: find_None_iff)

lemma clean_time_again:
  assumes "clean_time v = (t, None)"
  shows "clean_time (map_option raw_time_of t) = (t, None)"
proof (cases v)
  case (Some w)
  define days where "days = (case rw_days w of None \<Rightarrow> [] | Some ds \<Rightarrow> ds)"
  define ordered where "ordered = filter (\<lambda>d. Some d \<in> set (map parseDay days)) DAY_ORDER"
  obtain from_min to_min where clocks: "clockMinutes (rw_from w) = Some from_min"
    "clockMinutes (rw_to w) = Some to_min"
    using assms by (auto simp: clean_time_def Some Let_def split: option.splits)
  note range = clocks [THEN clockMinutes_range]
  have t: "t = Some \<lparr>tw_from = clockText from_min, tw_to = clockText to_min,
      tw_days = (if ordered \<noteq> [] \<and> length ordered < 7 then Some ordered else None)\<rparr>"
    and not_whole: "\<not> (clockText from_min = clockText to_min \<and> \<not> (ordered \<noteq> [] \<and> length ordered < 7))"
    using assms
    by (auto simp: clean_time_def Some Let_def clocks ordered_def days_def split: option.splits if_splits)
  show ?thesis
  proof (cases "ordered \<noteq> [] \<and> length ordered < 7")
    case True
    then show ?thesis
      using range by (simp add: t clean_time_def raw_time_of_def Let_def find_text_None
          ordered_days_again [of "\<lambda>d. Some d \<in> set (map parseDay days)", folded ordered_def] del: map_map set_map)
  next
    case False
    then have "t = Some \<lparr>tw_from = clockText from_min, tw_to = clockText to_min, tw_days = None\<rparr>"
      "clockText from_min \<noteq> clockText to_min"
      using t not_whole by (simp_all only: if_False simp_thms)
    then show ?thesis
      using range by (simp add: clean_time_def raw_time_of_def Let_def)
  qed
qed (use assms in \<open>simp add: clean_time_def\<close>)

text \<open>
  C22: a rule the check lets pass names a member of its group and says when it applies, and put
  through the check again it is the same rule: \<open>cleanRule\<close> gives a normal form.
\<close>

theorem clean_rule_is_normal:
  assumes "cleanRule rule members pointer = (out, [])"
  shows "gr_use out \<in> set members \<and> ruleConditions out \<noteq> [] \<and>
    cleanRule (raw_of out) members pointer' = (out, [])"
proof -
  obtain tokens effort agents intent time where
    parts: "clean_tokens (raw_tokens rule) = (tokens, None)" "clean_effort (raw_effort rule) = (effort, None)"
      "clean_agents (raw_agents rule) = (agents, None)" "clean_intent (raw_intent rule) = (intent, None)"
      "clean_time (raw_time rule) = (time, None)"
    and use: "trim (raw_use rule) \<noteq> []" "trim (raw_use rule) \<in> set members"
    and out: "out = \<lparr>gr_use = trim (raw_use rule), gr_tokens = tokens, gr_images = clean_flag (raw_images rule),
            gr_effort = effort, gr_agents = agents, gr_intent = intent,
            gr_compact = clean_flag (raw_compact rule), gr_time = time\<rparr>"
    and conditions: "ruleConditions out \<noteq> []"
    using assms
    by (auto simp: cleanRule_def Let_def reason_at_def split: prod.splits option.splits if_splits)
  note again = clean_tokens_again [OF parts(1)] clean_effort_again [OF parts(2)]
    clean_agents_again [OF parts(3)] clean_intent_again [OF parts(4)] clean_time_again [OF parts(5)]
  show ?thesis
    using use conditions [unfolded out]
    by (simp add: out raw_of_def cleanRule_def Let_def again reason_at_def)
qed

theorem clean_rule_is_normal_witness:
  "\<exists>out. cleanRule \<lparr>raw_use = js '' a/m '', raw_tokens = Some 10, raw_images = Some False,
      raw_effort = None, raw_agents = None, raw_intent = None, raw_compact = None, raw_time = None\<rparr>
      [js ''a/m''] [] = (out, []) \<and> gr_use out \<in> set [js ''a/m'']"
proof -
  have "cleanRule \<lparr>raw_use = js '' a/m '', raw_tokens = Some 10, raw_images = Some False,
      raw_effort = None, raw_agents = None, raw_intent = None, raw_compact = None, raw_time = None\<rparr>
      [js ''a/m''] [] = (\<lparr>gr_use = js ''a/m'', gr_tokens = Some 10, gr_images = None, gr_effort = None,
        gr_agents = None, gr_intent = None, gr_compact = None, gr_time = None\<rparr>, [])"
    by (simp add: cleanRule_def clean_tokens_def max_safe_def clean_flag_def clean_effort_def
        clean_agents_def clean_intent_def clean_time_def trim_def js_eval is_space_def Let_def
        reason_at_def ruleConditions_def)
  then show ?thesis using clean_rule_is_normal by blast
qed

end
