(* ===== verification/Candidates.thy ===== *)
theory Candidates
  imports RouteGroups
begin

text \<open>
  The candidates of a model (\<open>packages/gateway/src/routing.ts\<close>): one per enabled credential of its
  provider, sent as it came in or translated, those whose own list lacks the model left out, in the
  order of how well their credential suits the request.

  The reasons in \<open>skipped\<close> are constructors in place of their texts.
\<close>

datatype mode = Passthrough | Translated

record candidate =
  ca_provider :: provider
  ca_credential :: credential
  ca_model :: "provider_model option"
  ca_ref :: jstring
  ca_wireModel :: jstring
  ca_mode :: mode
  ca_upstream :: protocol
  ca_endpoint :: jstring
  ca_effort :: "effort option"
  ca_fast :: bool
  ca_path :: "jstring list option"
  ca_aside :: bool

datatype skip_reason =
    SwitchedOff jstring
  | AccountUnusable jstring jstring
  | NoResponsesEndpoint jstring
  | NoValidEndpoint jstring jstring
  | NeitherModelNorGroup jstring
  | OnTheWayDown jstring
  | NestsTooDeep jstring
  | UnknownGroup jstring
  | UnknownProvider jstring
  | NoFastMode jstring jstring protocol

definition validFor :: "credential \<Rightarrow> protocol \<Rightarrow> bool" where
  "validFor c p \<longleftrightarrow> c_enabled c \<and> (case c_protocols c of None \<Rightarrow> True | Some ps \<Rightarrow> p \<in> set ps)"

definition KEYLESS_CREDENTIAL :: credential where
  "KEYLESS_CREDENTIAL = \<lparr>c_id = js ''keyless'', c_name = js ''keyless'', c_ref = (js ''env'', []),
     c_protocols = None, c_enabled = True, c_account = None\<rparr>"

definition TRANSLATION_TARGETS :: "protocol list" where
  "TRANSLATION_TARGETS = [Anthropic, Responses, Gemini]"

definition COPILOT_ENDPOINT :: jstring where
  "COPILOT_ENDPOINT = js ''copilot://local''"

section \<open>How well a credential suits a request\<close>

datatype family = AnthropicFamily | ChatFamily

definition modelFamily :: "jstring \<Rightarrow> family option" where
  "modelFamily model =
     (let name = drop (case lastIndexOf 47 model of Some i \<Rightarrow> i + 1 | None \<Rightarrow> 0) (toLowerCase model)
      in if startsWith name (js ''claude'') then Some AnthropicFamily
         else if startsWith name (js ''gpt-'') \<or> includes_text name (js ''codex'') \<or>
           (case name of a # b # _ \<Rightarrow> a = 111 \<and> 49 \<le> b \<and> b \<le> 57 | _ \<Rightarrow> False)
         then Some ChatFamily else None)"

definition keyFit :: "candidate \<Rightarrow> jstring \<Rightarrow> protocol \<Rightarrow> nat" where
  "keyFit candidate modelId inbound =
     (case c_protocols (ca_credential candidate) of
        None \<Rightarrow> 0
      | Some ps \<Rightarrow> (case modelFamily modelId of
            Some AnthropicFamily \<Rightarrow> if Anthropic \<in> set ps then 0 else 2
          | Some ChatFamily \<Rightarrow> if list_ex (\<lambda>p. p \<noteq> Anthropic) ps then 0 else 2
          | None \<Rightarrow>
              if jget (pv_endpoints (ca_provider candidate)) inbound \<noteq> None \<and> inbound \<in> set ps
              then 0 else 1))"

definition limitedTo :: "credential \<Rightarrow> jstring" where
  "limitedTo c =
     (case c_protocols c of
        Some ps \<Rightarrow> join (js '','') (sort_by js_less (map protocol_text ps))
      | None \<Rightarrow> [])"

definition credentialKey :: "candidate \<Rightarrow> jstring" where
  "credentialKey candidate = pv_id (ca_provider candidate) @ 0 # c_id (ca_credential candidate)"

section \<open>The candidates of a model\<close>

definition given_text :: "jstring option \<Rightarrow> bool" where
  "given_text t \<longleftrightarrow> t \<noteq> None \<and> t \<noteq> Some []"

text \<open>What one enabled credential gives: a candidate, or a reason it gives none.\<close>

definition candidate_of ::
    "provider \<Rightarrow> jstring \<Rightarrow> protocol \<Rightarrow> credential \<Rightarrow> skip_reason + candidate" where
  "candidate_of provider modelId inbound credential =
     (let ref = pv_id provider @ 47 # modelId;
          make = (\<lambda>mode upstream endpoint.
            \<lparr>ca_provider = provider, ca_credential = credential,
             ca_model = find (\<lambda>m. m_id m = modelId) (ms_list (pv_models provider)),
             ca_ref = ref, ca_wireModel = wireName provider modelId, ca_mode = mode,
             ca_upstream = upstream, ca_endpoint = endpoint, ca_effort = None, ca_fast = False,
             ca_path = None, ca_aside = False\<rparr>);
          endpoint_of = jget (pv_endpoints provider)
      in case pv_subscription provider of
           Some backend \<Rightarrow>
             if \<not> accountUsable (c_account credential) then Inl (AccountUnusable ref (c_id credential))
             else if backend = Copilot then Inr (make Translated Chat COPILOT_ENDPOINT)
             else if \<not> given_text (endpoint_of Responses) then Inl (NoResponsesEndpoint ref)
             else Inr (make Translated Responses (the (endpoint_of Responses)))
         | None \<Rightarrow>
             if given_text (endpoint_of inbound) \<and> \<not> pv_translateOnly provider \<and> validFor credential inbound
             then Inr (make Passthrough inbound (the (endpoint_of inbound)))
             else if given_text (endpoint_of Chat) \<and> validFor credential Chat
             then Inr (make Translated Chat (the (endpoint_of Chat)))
             else (case find (\<lambda>p. endpoint_of p \<noteq> None \<and> validFor credential p) TRANSLATION_TARGETS of
                 Some target \<Rightarrow> Inr (make Translated target (the (endpoint_of target)))
               | None \<Rightarrow> Inl (NoValidEndpoint ref (c_id credential))))"

record model_candidates =
  mc_candidates :: "candidate list"
  mc_skipped :: "skip_reason list"
  mc_unlisted :: nat
  mc_unlistedTried :: bool

definition lefts :: "('a + 'b) list \<Rightarrow> 'a list" where
  "lefts xs = concat (map (\<lambda>x. case x of Inl a \<Rightarrow> [a] | Inr _ \<Rightarrow> []) xs)"

definition rights :: "('a + 'b) list \<Rightarrow> 'b list" where
  "rights xs = concat (map (\<lambda>x. case x of Inl _ \<Rightarrow> [] | Inr b \<Rightarrow> [b]) xs)"

text \<open>Best fit first; those limited to other protocols than the first after the rest, marked.\<close>

definition pool_first :: "candidate list \<Rightarrow> candidate list" where
  "pool_first kept =
     (case kept of
        [] \<Rightarrow> []
      | best # _ \<Rightarrow>
          (let first = limitedTo (ca_credential best)
           in filter (\<lambda>c. limitedTo (ca_credential c) = first) kept @
              map (\<lambda>c. c\<lparr>ca_aside := True\<rparr>) (filter (\<lambda>c. limitedTo (ca_credential c) \<noteq> first) kept)))"

definition all_credentials :: "provider \<Rightarrow> credential list" where
  "all_credentials provider =
     (if pv_credentials provider \<noteq> [] then pv_credentials provider else [KEYLESS_CREDENTIAL])"

definition modelCandidates :: "provider \<Rightarrow> jstring \<Rightarrow> protocol \<Rightarrow> model_candidates" where
  "modelCandidates provider modelId inbound =
     (if \<not> providerEnabled provider
      then \<lparr>mc_candidates = [], mc_skipped = [SwitchedOff (pv_id provider @ 47 # modelId)],
        mc_unlisted = 0, mc_unlistedTried = False\<rparr>
      else
        (let tried = map (candidate_of provider modelId inbound)
               (filter c_enabled (all_credentials provider));
             candidates = rights tried;
             listing = filter (\<lambda>c. \<not> credentialUnlisted provider (c_id (ca_credential c)) modelId) candidates;
             unlisted = length candidates - length listing;
             unlistedTried = (unlisted > 0 \<and> listing = []);
             kept = sort_key (\<lambda>c. keyFit c modelId inbound)
               (if unlistedTried then candidates else listing)
         in \<lparr>mc_candidates = pool_first kept, mc_skipped = lefts tried,
              mc_unlisted = (if unlistedTried then 0 else unlisted), mc_unlistedTried = unlistedTried\<rparr>))"

end
