(* ===== verification/GroupPlans.thy ===== *)
theory GroupPlans
  imports Candidates
begin

text \<open>
  The plan of a route group (\<open>planGroup\<close> of \<open>packages/gateway/src/routing.ts\<close>): the candidates of its
  members, nested groups planned by their own strategy and kept together, no model twice at one
  effort through one credential.

  \<open>planning\<close> is the code's \<open>GroupPlanning\<close>: what the plan reads and weighs with, over a state of its
  own (\<open>order\<close> of a \<open>rotate\<close> group counts the turn). The cache of providers is a function here: it
  gives every lookup of one plan the same answer.
\<close>

record 's planning =
  pl_provider :: "jstring \<Rightarrow> provider option"
  pl_group :: "jstring \<Rightarrow> route_group option"
  pl_order :: "route_group \<Rightarrow> 's \<Rightarrow> jstring list \<times> 's"
  pl_weigh :: "route_group \<Rightarrow> candidate list \<Rightarrow> 's \<Rightarrow> candidate list \<times> 's"
  pl_blocked :: "candidate \<Rightarrow> 's \<Rightarrow> bool"

record 's plan_state =
  ps_skipped :: "skip_reason list"
  ps_unlisted :: nat
  ps_unlistedTried :: bool
  ps_groups :: "(jstring, route_group) jmap"
  ps_seen :: "jstring list"
  ps_outer :: 's

definition WEIGHED :: "strategy list" where
  "WEIGHED = [LeastUsed, Smart, Pace]"

definition seen_key :: "effort option \<Rightarrow> candidate \<Rightarrow> jstring" where
  "seen_key effort c =
     credentialKey c @ 0 # ca_ref c @ 0 # (case effort of None \<Rightarrow> [] | Some e \<Rightarrow> effort_text e)"

text \<open>One candidate of a model member: marked with the member, unless it came before.\<close>

definition place_candidate ::
    "(jstring \<Rightarrow> jstring option) \<Rightarrow> provider \<Rightarrow> bool \<Rightarrow> jstring list \<Rightarrow> jstring \<Rightarrow> model_member \<Rightarrow>
     candidate \<Rightarrow> candidate list list \<times> candidate list \<times> 's plan_state \<Rightarrow>
     candidate list list \<times> candidate list \<times> 's plan_state" where
  "place_candidate hostname found weighed path written member candidate acc =
     (case acc of (units, late, st) \<Rightarrow>
       let key = seen_key (mm_effort member) candidate in
       if key \<in> set (ps_seen st) then acc
       else
         (let fast = (mm_fast member \<and> fastMode hostname found (ca_wireModel candidate) (ca_upstream candidate) \<noteq> None);
              placed = candidate\<lparr>ca_path := Some (path @ [written]),
                ca_effort := (case mm_effort member of Some e \<Rightarrow> Some e | None \<Rightarrow> ca_effort candidate),
                ca_fast := (fast \<or> ca_fast candidate)\<rparr>;
              st = st\<lparr>ps_seen := ps_seen st @ [key],
                ps_skipped := ps_skipped st @
                  (if mm_fast member \<and> \<not> fast
                   then [NoFastMode written (ca_ref candidate) (ca_upstream candidate)] else [])\<rparr>
          in if ca_aside placed \<and> weighed then (units, late @ [placed], st)
             else (units @ [[placed]], late, st)))"

definition place_model ::
    "(jstring \<Rightarrow> jstring option) \<Rightarrow> (jstring \<Rightarrow> provider option) \<Rightarrow> protocol \<Rightarrow> bool \<Rightarrow> jstring list \<Rightarrow>
     jstring \<Rightarrow> jstring \<Rightarrow> candidate list list \<times> candidate list \<times> 's plan_state \<Rightarrow>
     candidate list list \<times> candidate list \<times> 's plan_state" where
  "place_model hostname provider_of inbound weighed path written provider acc =
     (case acc of (units, late, st) \<Rightarrow>
       case provider_of provider of
         None \<Rightarrow> (units, late, st\<lparr>ps_skipped := ps_skipped st @ [UnknownProvider written]\<rparr>)
       | Some found \<Rightarrow>
           (case parseGroupMember written (\<lambda>_ model. list_ex (\<lambda>m. m_id m = model) (ms_list (pv_models found))) of
              Some (ModelMember member) \<Rightarrow>
                (let result = modelCandidates found (mm_model member) inbound;
                     st = st\<lparr>ps_skipped := ps_skipped st @ mc_skipped result,
                       ps_unlisted := ps_unlisted st + mc_unlisted result,
                       ps_unlistedTried := (ps_unlistedTried st \<or> mc_unlistedTried result)\<rparr>
                 in foldl (\<lambda>acc c. place_candidate hostname found weighed path written member c acc)
                      (units, late, st) (mc_candidates result))
            | _ \<Rightarrow> acc))"

text \<open>
  The units of a level in their order: weighed by their heads (the first candidate that is not
  resting), or as they are.
\<close>

definition head_of :: "(candidate \<Rightarrow> bool) \<Rightarrow> candidate list \<Rightarrow> candidate" where
  "head_of blocked unit = (case find (\<lambda>c. \<not> blocked c) unit of Some c \<Rightarrow> c | None \<Rightarrow> hd unit)"

definition level_end ::
    "'s planning \<Rightarrow> route_group \<Rightarrow> candidate list list \<times> candidate list \<times> 's plan_state \<Rightarrow>
     candidate list \<times> 's plan_state" where
  "level_end planning current acc =
     (case acc of (units, late, st) \<Rightarrow>
       if g_strategy current \<notin> set WEIGHED \<or> length units < 2 then (concat units @ late, st)
       else
         (let heads = map (head_of (\<lambda>c. pl_blocked planning c (ps_outer st))) units;
              (order, outer) = pl_weigh planning current heads (ps_outer st);
              by_head = map_of (rev (zip heads units))
          in (concat (map (\<lambda>h. case by_head h of Some unit \<Rightarrow> unit | None \<Rightarrow> [h]) order) @ late,
              st\<lparr>ps_outer := outer\<rparr>)))"

definition skip :: "skip_reason \<Rightarrow> 's plan_state \<Rightarrow> 's plan_state" where
  "skip reason st = st\<lparr>ps_skipped := ps_skipped st @ [reason]\<rparr>"

text \<open>
  The loop over the members of one level. It ends because \<open>via\<close> grows to at most the limit. The
  order of a group's members is asked when the group is entered.
\<close>

function level ::
    "(jstring \<Rightarrow> jstring option) \<Rightarrow> 's planning \<Rightarrow> protocol \<Rightarrow> jstring \<Rightarrow> route_group \<Rightarrow>
     jstring list \<Rightarrow> jstring list \<Rightarrow> jstring list \<Rightarrow>
     candidate list list \<times> candidate list \<times> 's plan_state \<Rightarrow> candidate list \<times> 's plan_state" where
  "level hostname planning inbound self current via path [] acc = level_end planning current acc"
| "level hostname planning inbound self current via path (written # rest) acc =
     level hostname planning inbound self current via path rest
       (case parseGroupMember written notListed of
          None \<Rightarrow> (fst acc, fst (snd acc), skip (NeitherModelNorGroup written) (snd (snd acc)))
        | Some (GroupMember i) \<Rightarrow>
            if i = self \<or> i \<in> set via
            then (fst acc, fst (snd acc), skip (OnTheWayDown written) (snd (snd acc)))
            else if length via \<ge> GROUP_NEST_LIMIT
            then (fst acc, fst (snd acc), skip (NestsTooDeep written) (snd (snd acc)))
            else (case pl_group planning i of
                None \<Rightarrow> (fst acc, fst (snd acc), skip (UnknownGroup written) (snd (snd acc)))
              | Some inner \<Rightarrow>
                  (let st = (snd (snd acc))\<lparr>ps_groups := jset (g_id inner) inner (ps_groups (snd (snd acc)))\<rparr>;
                       ordered = pl_order planning inner (ps_outer st);
                       planned = level hostname planning inbound self inner (via @ [i]) (path @ [written])
                         (fst ordered) ([], [], st\<lparr>ps_outer := snd ordered\<rparr>)
                   in (if fst planned \<noteq> [] then fst acc @ [fst planned] else fst acc,
                       fst (snd acc), snd planned)))
        | Some (ModelMember m) \<Rightarrow>
            place_model hostname (pl_provider planning) inbound (g_strategy current \<in> set WEIGHED) path
              written (mm_provider m) acc)"
  by pat_completeness auto

termination
  by (relation "measures [\<lambda>(_, _, _, _, _, via, _, _, _). GROUP_NEST_LIMIT - length via,
      \<lambda>(_, _, _, _, _, _, _, members, _). length members]") auto

definition planGroup ::
    "(jstring \<Rightarrow> jstring option) \<Rightarrow> 's planning \<Rightarrow> route_group \<Rightarrow> protocol \<Rightarrow> 's \<Rightarrow>
     candidate list \<times> 's plan_state" where
  "planGroup hostname planning grp inbound outer =
     (let ordered = pl_order planning grp outer
      in level hostname planning inbound (g_id grp) grp [] [] (fst ordered)
           ([], [], \<lparr>ps_skipped = [], ps_unlisted = 0, ps_unlistedTried = False, ps_groups = [],
             ps_seen = [], ps_outer = snd ordered\<rparr>))"

end
