(* ===== verification/Router.thy ===== *)
theory Router
  imports GroupPlans
begin

text \<open>
  The router (\<open>class Router\<close> of \<open>packages/gateway/src/routing.ts\<close>): the order a group tries its members
  in and the weighing of its candidates by allowance, tokens served and pace.

  An operation takes the reading of the clock (\<open>now\<close>, milliseconds) it works with. Numbers that the
  code divides are \<open>real\<close>; times are parsed (\<open>Date.parse\<close>) and valid.
\<close>

definition USAGE_HALF_LIFE_MS :: real where "USAGE_HALF_LIFE_MS = 3600000"
definition USAGE_SEED_MS :: real where "USAGE_SEED_MS = 8 * 3600000"
definition USAGE_SEED_CALLS :: nat where "USAGE_SEED_CALLS = 5000"
definition READING_TTL_MS :: real where "READING_TTL_MS = 24 * 3600000"
definition MAX_WINDOWS :: nat where "MAX_WINDOWS = 16"
definition SHARE_LOW :: int where "SHARE_LOW = 90"
definition SHARE_SPENT :: int where "SHARE_SPENT = 98"
definition BUDGET_SPAN_S :: real where "BUDGET_SPAN_S = 86400"
definition WEEK_HOURS :: real where "WEEK_HOURS = 168"

type_synonym windows = "(jstring, reading) jmap"

record served =
  sv_tokens :: real
  sv_at :: real

record latency =
  la_average :: real
  la_samples :: nat

record router =
  rt_rotation :: "(jstring, nat) jmap"
  rt_served :: "(jstring, served) jmap"
  rt_readings :: "(jstring, windows) jmap"
  rt_changed :: bool
  rt_latency :: "(jstring, latency) jmap"
  rt_seeding :: bool

definition new_router :: router where
  "new_router = \<lparr>rt_rotation = [], rt_served = [], rt_readings = [], rt_changed = False,
     rt_latency = [], rt_seeding = False\<rparr>"

section \<open>Allowance readings\<close>

definition current_reading :: "reading \<Rightarrow> real \<Rightarrow> bool" where
  "current_reading r now \<longleftrightarrow>
     (case rd_resetsAt r of
        Some resets \<Rightarrow> resets > now
      | None \<Rightarrow> rd_observedAt r + READING_TTL_MS > now)"

text \<open>The windows after a reading came in, and whether it was kept.\<close>

definition keepReading :: "windows \<Rightarrow> reading \<Rightarrow> real \<Rightarrow> windows \<times> bool" where
  "keepReading windows r now =
     (if jget windows (rd_window r) = None \<and> length windows \<ge> MAX_WINDOWS
      then (let left = filter (\<lambda>(_, known). current_reading known now) windows
        in if length left \<ge> MAX_WINDOWS then (left, False) else (jset (rd_window r) r left, True))
      else (jset (rd_window r) r windows, True))"

definition windows_of :: "router \<Rightarrow> jstring \<Rightarrow> windows" where
  "windows_of rt key = (case jget (rt_readings rt) key of Some w \<Rightarrow> w | None \<Rightarrow> [])"

definition readings :: "candidate \<Rightarrow> real \<Rightarrow> router \<Rightarrow> reading list" where
  "readings c now rt =
     filter (\<lambda>r. current_reading r now) (map snd (windows_of rt (credentialKey c)))"

definition share :: "candidate \<Rightarrow> real \<Rightarrow> router \<Rightarrow> int" where
  "share c now rt =
     min 100 (max 0 (foldl (\<lambda>used r. max used \<lfloor>rd_usedPercent r\<rfloor>) 0 (readings c now rt)))"

definition report_all :: "windows \<times> bool \<Rightarrow> reading list \<Rightarrow> real \<Rightarrow> windows \<times> bool" where
  "report_all start rs now =
     foldl (\<lambda>(windows, changed) r.
         let (windows', kept) = keepReading windows r now in (windows', changed \<or> kept)) start rs"

definition report :: "candidate \<Rightarrow> reading list \<Rightarrow> real \<Rightarrow> router \<Rightarrow> router" where
  "report c rs now rt =
     (if rs = [] then rt
      else (let key = credentialKey c;
                (windows, changed) = report_all (windows_of rt key, rt_changed rt) rs now
        in rt\<lparr>rt_readings := jset key windows (rt_readings rt), rt_changed := changed\<rparr>))"

record stored_reading =
  sr_provider :: jstring
  sr_credential :: jstring
  sr_reading :: reading

text \<open>\<open>snapshot\<close>: the key split at its NULs, the first two parts kept.\<close>

definition split_key :: "jstring \<Rightarrow> jstring \<times> jstring" where
  "split_key key =
     (case split_at (\<lambda>c. c = 0) key of a # b # _ \<Rightarrow> (a, b) | [a] \<Rightarrow> (a, []) | [] \<Rightarrow> ([], []))"

definition router_snapshot :: "router \<Rightarrow> stored_reading list" where
  "router_snapshot rt =
     concat (map (\<lambda>(key, windows).
       map (\<lambda>(_, r). \<lparr>sr_provider = fst (split_key key), sr_credential = snd (split_key key),
         sr_reading = r\<rparr>) windows) (rt_readings rt))"

definition restore_one :: "real \<Rightarrow> stored_reading \<Rightarrow> router \<Rightarrow> router" where
  "restore_one now stored rt =
     (let key = sr_provider stored @ 0 # sr_credential stored;
          windows = windows_of rt key;
          r = sr_reading stored
      in rt\<lparr>rt_readings := jset key
           (case jget windows (rd_window r) of
              Some known \<Rightarrow> if rd_observedAt known < rd_observedAt r
                then fst (keepReading windows r now) else windows
            | None \<Rightarrow> fst (keepReading windows r now)) (rt_readings rt)\<rparr>)"

definition restore :: "stored_reading list \<Rightarrow> real \<Rightarrow> router \<Rightarrow> router" where
  "restore stored now rt = foldl (\<lambda>rt s. restore_one now s rt) rt stored"

definition takeChanges :: "router \<Rightarrow> bool \<times> router" where
  "takeChanges rt = (rt_changed rt, rt\<lparr>rt_changed := False\<rparr>)"

section \<open>Tokens served and latency\<close>

definition halved :: "real \<Rightarrow> real" where
  "halved ms = 2 powr (- ms / USAGE_HALF_LIFE_MS)"

definition decayed :: "jstring \<Rightarrow> real \<Rightarrow> router \<Rightarrow> real" where
  "decayed key now rt =
     (case jget (rt_served rt) key of
        Some s \<Rightarrow> sv_tokens s * halved (now - sv_at s)
      | None \<Rightarrow> 0)"

definition tokens :: "candidate \<Rightarrow> real \<Rightarrow> router \<Rightarrow> real" where
  "tokens c now rt = decayed (credentialKey c) now rt"

definition add_served :: "jstring \<Rightarrow> real \<Rightarrow> real \<Rightarrow> real \<Rightarrow> router \<Rightarrow> router" where
  "add_served key amount at_time now rt =
     rt\<lparr>rt_served := jset key
       \<lparr>sv_tokens = decayed key now rt + amount * halved (now - at_time), sv_at = now\<rparr> (rt_served rt)\<rparr>"

definition record_call :: "candidate \<Rightarrow> real \<Rightarrow> real option \<Rightarrow> real \<Rightarrow> router \<Rightarrow> router" where
  "record_call c amount firstContentMs now rt =
     (let rt = add_served (credentialKey c) (max 1 amount) now now rt in
      case firstContentMs of
        None \<Rightarrow> rt
      | Some ms \<Rightarrow>
          rt\<lparr>rt_latency := jset (ca_ref c)
            (case jget (rt_latency rt) (ca_ref c) of
               Some s \<Rightarrow> \<lparr>la_average = la_average s + 2 / 51 * (ms - la_average s), la_samples = la_samples s + 1\<rparr>
             | None \<Rightarrow> \<lparr>la_average = ms, la_samples = 1\<rparr>) (rt_latency rt)\<rparr>)"

section \<open>Starting from the ledger\<close>

record ledger_usage =
  lu_input :: real
  lu_cacheRead :: real
  lu_cacheWrite :: real
  lu_output :: real
  lu_reasoning :: real

record ledger_call =
  lc_status :: int
  lc_provider :: "jstring option"
  lc_credential :: "jstring option"
  lc_usage :: "ledger_usage option"
  lc_at :: real

definition seed_call :: "real \<Rightarrow> router \<Rightarrow> ledger_call \<Rightarrow> router" where
  "seed_call now rt entry =
     (case (lc_provider entry, lc_credential entry, lc_usage entry) of
        (Some p, Some i, Some u) \<Rightarrow>
          if lc_status entry \<ge> 400 \<or> p = [] \<or> i = [] \<or> lc_at entry < now - USAGE_SEED_MS then rt
          else add_served (p @ 0 # i)
            (max 1 (lu_input u + lu_cacheRead u + lu_cacheWrite u + lu_output u + lu_reasoning u))
            (min (lc_at entry) now) now rt
      | _ \<Rightarrow> rt)"

text \<open>
  \<open>list_calls limit cursor\<close> is the store's page from \<open>cursor\<close> on: its calls and the next cursor;
  \<open>None\<close> where the read fails, which ends the seeding with the counts so far. The value \<open>None\<close> of the
  loop is a loop that does not end.
\<close>

partial_function (option) seed_loop ::
    "(nat \<Rightarrow> jstring option \<Rightarrow> (ledger_call list \<times> jstring option) option) \<Rightarrow> real \<Rightarrow>
     jstring option \<Rightarrow> nat \<Rightarrow> router \<Rightarrow> router option" where
  "seed_loop list_calls now cursor read rt =
     (case list_calls (min 1000 (USAGE_SEED_CALLS - read)) cursor of
        None \<Rightarrow> Some rt
      | Some (items, nextCursor) \<Rightarrow>
          (let rt = foldl (seed_call now) rt items; read = read + length items in
           if nextCursor = None \<or> read \<ge> USAGE_SEED_CALLS then Some rt
           else seed_loop list_calls now nextCursor read rt))"

definition seed ::
    "(nat \<Rightarrow> jstring option \<Rightarrow> (ledger_call list \<times> jstring option) option) \<Rightarrow> real \<Rightarrow> router \<Rightarrow>
     router option" where
  "seed list_calls now rt =
     (if rt_seeding rt then Some rt else seed_loop list_calls now None 0 (rt\<lparr>rt_seeding := True\<rparr>))"

section \<open>The order of a group's members\<close>

definition latency_score :: "router \<Rightarrow> jstring \<Rightarrow> real" where
  "latency_score rt ref =
     (case jget (rt_latency rt) ref of
        None \<Rightarrow> -1
      | Some s \<Rightarrow> if la_samples s < 5 then -1 else la_average s)"

definition order :: "route_group \<Rightarrow> router \<Rightarrow> jstring list \<times> router" where
  "order grp rt =
     (let members = g_members grp in
      case g_strategy grp of
        Rotate \<Rightarrow>
          (let turn = (case jget (rt_rotation rt) (g_id grp) of Some t \<Rightarrow> t | None \<Rightarrow> 0);
               start = (if members \<noteq> [] then turn mod length members else 0)
           in (drop start members @ take start members,
               rt\<lparr>rt_rotation := jset (g_id grp) (turn + 1) (rt_rotation rt)\<rparr>))
      | Latency \<Rightarrow> (sort_key (latency_score rt) members, rt)
      | _ \<Rightarrow> (members, rt))"

section \<open>Weighing candidates\<close>

record ranked =
  rk_candidate :: candidate
  rk_index :: nat
  rk_share :: int
  rk_tokens :: real
  rk_learns :: bool

definition rank :: "real \<Rightarrow> router \<Rightarrow> candidate list \<Rightarrow> ranked list" where
  "rank now rt cs =
     map (\<lambda>(i, c). \<lparr>rk_candidate = c, rk_index = i, rk_share = share c now rt, rk_tokens = tokens c now rt,
       rk_learns = (pv_subscription (ca_provider c) \<noteq> None \<and> readings c now rt = [])\<rparr>) (enumerate 0 cs)"

definition hour_floor :: "real \<Rightarrow> real" where
  "hour_floor t = of_int \<lfloor>t / 3600000\<rfloor> * 3600000"

definition renews :: "real \<Rightarrow> reading \<Rightarrow> real" where
  "renews now r =
     (let later = (case rd_spanSeconds r of Some s \<Rightarrow> now + s * 1000 | None \<Rightarrow> 0);
          t = (case rd_resetsAt r of Some resets \<Rightarrow> if resets > now then resets else later | None \<Rightarrow> later)
      in if t = 0 then 0 else hour_floor t)"

definition span_of :: "reading \<Rightarrow> real" where
  "span_of r = (case rd_spanSeconds r of Some s \<Rightarrow> s | None \<Rightarrow> 0)"

definition renewals :: "candidate \<Rightarrow> real \<Rightarrow> router \<Rightarrow> real list" where
  "renewals c now rt =
     map (renews now) (sort_key (\<lambda>r. - span_of r) (map snd (windows_of rt (credentialKey c))))"

definition pace_of :: "candidate \<Rightarrow> real \<Rightarrow> router \<Rightarrow> real" where
  "pace_of c now rt =
     (if pv_subscription (ca_provider c) = None then 0
      else
        (let budget = filter (\<lambda>r. span_of r \<ge> BUDGET_SPAN_S) (map snd (windows_of rt (credentialKey c)));
             pace = (\<lambda>r.
               let current = (case rd_resetsAt r of Some resets \<Rightarrow> resets > now | None \<Rightarrow> False);
                   hours = (if current then (the (rd_resetsAt r) - now) / 3600000 else span_of r / 3600);
                   left = 100 - (if current then rd_usedPercent r else 0)
               in left / max hours 1)
         in case map pace budget of
              [] \<Rightarrow> (100 - of_int (share c now rt)) / WEEK_HOURS
            | p # ps \<Rightarrow> foldl min p ps))"

text \<open>The comparison of \<open>smart\<close>: learning ones first, then by renewal, 0 (unknown) after the known.\<close>

fun renewals_less :: "real list \<Rightarrow> real list \<Rightarrow> bool option" where
  "renewals_less [] [] = None"
| "renewals_less (x # xs) [] = (if x = 0 then renewals_less xs [] else Some True)"
| "renewals_less [] (y # ys) = (if y = 0 then renewals_less [] ys else Some False)"
| "renewals_less (x # xs) (y # ys) =
     (if x = y then renewals_less xs ys
      else if x = 0 \<or> y = 0 then Some (x \<noteq> 0)
      else Some (x < y))"

definition smart_less :: "(ranked \<Rightarrow> real list) \<Rightarrow> ranked \<Rightarrow> ranked \<Rightarrow> bool" where
  "smart_less rs a b =
     (if rk_learns a \<noteq> rk_learns b then rk_learns a
      else case renewals_less (rs a) (rs b) of
        Some earlier \<Rightarrow> earlier
      | None \<Rightarrow> rk_index a < rk_index b)"

definition usage_less :: "ranked \<Rightarrow> ranked \<Rightarrow> bool" where
  "usage_less a b \<longleftrightarrow>
     rk_share a < rk_share b \<or> rk_share a = rk_share b \<and>
       (rk_tokens a < rk_tokens b \<or> rk_tokens a = rk_tokens b \<and> rk_index a < rk_index b)"

definition share_less :: "ranked \<Rightarrow> ranked \<Rightarrow> bool" where
  "share_less a b \<longleftrightarrow> rk_share a < rk_share b \<or> rk_share a = rk_share b \<and> rk_index a < rk_index b"

definition tokens_less :: "ranked \<Rightarrow> ranked \<Rightarrow> bool" where
  "tokens_less a b \<longleftrightarrow> rk_tokens a < rk_tokens b \<or> rk_tokens a = rk_tokens b \<and> rk_index a < rk_index b"

definition pace_less :: "(ranked \<Rightarrow> real) \<Rightarrow> ranked \<Rightarrow> ranked \<Rightarrow> bool" where
  "pace_less pace a b \<longleftrightarrow> pace b < pace a \<or> pace b = pace a \<and> rk_index a < rk_index b"

text \<open>Bands of 90% of each band's best, each by tokens; \<open>top_pace\<close> counts once a band has begun.\<close>

fun band_loop :: "(ranked \<Rightarrow> real) \<Rightarrow> ranked list \<Rightarrow> ranked list \<Rightarrow> ranked list \<Rightarrow> real \<Rightarrow> ranked list" where
  "band_loop pace [] banded band top_pace = banded @ sort_by tokens_less band"
| "band_loop pace (e # es) banded band top_pace =
     (let ends = (band \<noteq> [] \<and> pace e < top_pace * 0.9);
          banded = (if ends then banded @ sort_by tokens_less band else banded);
          band = (if ends then [] else band);
          top_pace = (if band = [] then pace e else top_pace)
      in band_loop pace es banded (band @ [e]) top_pace)"

definition weigh :: "route_group option \<Rightarrow> candidate list \<Rightarrow> real \<Rightarrow> router \<Rightarrow> candidate list" where
  "weigh grp cs now rt =
     (case map_option g_strategy grp of
        None \<Rightarrow> cs
      | Some strategy \<Rightarrow>
          if strategy \<notin> {LeastUsed, Smart, Pace} \<or> length cs < 2 then cs
          else
            (let ranked = rank now rt cs;
                 fine = filter (\<lambda>e. rk_share e < SHARE_LOW) ranked;
                 low = sort_by share_less (filter (\<lambda>e. rk_share e \<ge> SHARE_LOW \<and> rk_share e < SHARE_SPENT) ranked);
                 spent = sort_by share_less (filter (\<lambda>e. rk_share e \<ge> SHARE_SPENT) ranked);
                 pace = (\<lambda>e. pace_of (rk_candidate e) now rt);
                 ordered =
                   (if strategy = LeastUsed then sort_by usage_less ranked
                    else if strategy = Smart
                    then sort_by (smart_less (\<lambda>e. renewals (rk_candidate e) now rt)) fine @ low @ spent
                    else sort_key rk_index (filter rk_learns fine) @
                      band_loop pace (sort_by (pace_less pace) (filter (\<lambda>e. \<not> rk_learns e) fine)) [] [] 0 @
                      low @ spent)
             in map rk_candidate ordered))"

end
