(* ===== verification/CandidateProps.thy ===== *)
theory CandidateProps
  imports Candidates RouteGroupProps
begin

text \<open>
  The candidates of a model: each is a way the provider really offers, and none is lost between the
  credentials and the order they are tried in.
\<close>

lemma lefts_rights [simp]:
  "lefts [] = []" "rights [] = []"
  "lefts (Inl a # xs) = a # lefts xs" "lefts (Inr b # xs) = lefts xs"
  "rights (Inl a # xs) = rights xs" "rights (Inr b # xs) = b # rights xs"
  by (simp_all add: lefts_def rights_def)

lemma set_rights: "set (rights xs) = {b. Inr b \<in> set xs}"
  by (induction xs) (auto split: sum.splits simp: rights_def)

lemma mset_pool_first:
  "mset (map (\<lambda>c. c\<lparr>ca_aside := False\<rparr>) (pool_first kept)) = mset (map (\<lambda>c. c\<lparr>ca_aside := False\<rparr>) kept)"
proof (cases kept)
  case (Cons best rest)
  define first where "first = limitedTo (ca_credential best)"
  have "mset (map (\<lambda>c. c\<lparr>ca_aside := False\<rparr>) (filter (\<lambda>c. limitedTo (ca_credential c) = first) kept)) +
      mset (map (\<lambda>c. c\<lparr>ca_aside := False\<rparr>) (filter (\<lambda>c. limitedTo (ca_credential c) \<noteq> first) kept)) =
      mset (map (\<lambda>c. c\<lparr>ca_aside := False\<rparr>) kept)"
    by (simp flip: image_mset_union)
  then show ?thesis by (simp add: pool_first_def Cons first_def [symmetric] comp_def Let_def)
qed (simp add: pool_first_def)

lemma candidate_of_fresh:
  "candidate_of p m inbound cred = Inr c \<Longrightarrow>
   ca_provider c = p \<and> ca_credential c = cred \<and> ca_ref c = pv_id p @ 47 # m \<and> ca_effort c = None \<and>
   \<not> ca_fast c \<and> ca_path c = None \<and> \<not> ca_aside c"
  by (auto simp: candidate_of_def Let_def split: option.splits if_splits)

definition serves :: "protocol \<Rightarrow> candidate \<Rightarrow> bool" where
  "serves inbound c \<longleftrightarrow>
     (case pv_subscription (ca_provider c) of
        Some backend \<Rightarrow> accountUsable (c_account (ca_credential c)) \<and> ca_mode c = Translated \<and>
          (if backend = Copilot then ca_upstream c = Chat \<and> ca_endpoint c = COPILOT_ENDPOINT
           else ca_upstream c = Responses \<and> jget (pv_endpoints (ca_provider c)) Responses = Some (ca_endpoint c))
      | None \<Rightarrow> validFor (ca_credential c) (ca_upstream c) \<and>
          jget (pv_endpoints (ca_provider c)) (ca_upstream c) = Some (ca_endpoint c) \<and>
          (ca_mode c = Passthrough \<longrightarrow> ca_upstream c = inbound \<and> \<not> pv_translateOnly (ca_provider c)))"

lemma serves_aside [simp]: "serves inbound (c\<lparr>ca_aside := b\<rparr>) = serves inbound c"
  by (cases c) (simp only: serves_def candidate.simps)

lemma candidate_of_serves: "candidate_of p m inbound cred = Inr c \<Longrightarrow> serves inbound c"
  by (auto simp: candidate_of_def serves_def given_text_def Let_def find_Some_iff split: option.splits if_splits)

definition tried_candidates :: "provider \<Rightarrow> jstring \<Rightarrow> protocol \<Rightarrow> candidate list" where
  "tried_candidates p m inbound =
     rights (map (candidate_of p m inbound) (filter c_enabled (all_credentials p)))"

definition lists_model :: "provider \<Rightarrow> jstring \<Rightarrow> candidate \<Rightarrow> bool" where
  "lists_model p m c \<longleftrightarrow> \<not> credentialUnlisted p (c_id (ca_credential c)) m"

text \<open>The candidates before they are ordered: those that may serve the model, or all of them.\<close>

definition kept_candidates :: "provider \<Rightarrow> jstring \<Rightarrow> protocol \<Rightarrow> candidate list" where
  "kept_candidates p m inbound =
     (let tried = tried_candidates p m inbound
      in if list_ex (lists_model p m) tried then filter (lists_model p m) tried else tried)"

lemma tried_fact:
  assumes "c \<in> set (tried_candidates p m inbound)"
  shows "ca_provider c = p" "ca_credential c \<in> set (all_credentials p)" "c_enabled (ca_credential c)"
    "ca_ref c = pv_id p @ 47 # m" "ca_effort c = None" "\<not> ca_fast c" "ca_path c = None" "\<not> ca_aside c"
    "serves inbound c"
proof -
  obtain cred where "cred \<in> set (all_credentials p)" "c_enabled cred" "candidate_of p m inbound cred = Inr c"
    using assms by (auto simp: tried_candidates_def set_rights image_iff)
  with candidate_of_fresh candidate_of_serves
  show "ca_provider c = p" "ca_credential c \<in> set (all_credentials p)" "c_enabled (ca_credential c)"
    "ca_ref c = pv_id p @ 47 # m" "ca_effort c = None" "\<not> ca_fast c" "ca_path c = None" "\<not> ca_aside c"
    "serves inbound c"
    by blast+
qed

lemma candidates_pool:
  assumes "providerEnabled p"
  shows "mc_candidates (modelCandidates p m inbound) =
    pool_first (sort_key (\<lambda>c. keyFit c m inbound) (kept_candidates p m inbound))"
proof -
  let ?tried = "tried_candidates p m inbound"
  have "(length ?tried - length (filter (lists_model p m) ?tried) > 0 \<and> filter (lists_model p m) ?tried = []) \<longleftrightarrow>
      (?tried \<noteq> [] \<and> \<not> list_ex (lists_model p m) ?tried)"
    by (auto simp: list_ex_iff filter_empty_conv)
  then show ?thesis
    using assms
    by (auto simp: modelCandidates_def tried_candidates_def [symmetric] lists_model_def [symmetric]
        kept_candidates_def Let_def)
qed

lemma set_kept: "set (kept_candidates p m inbound) \<subseteq> set (tried_candidates p m inbound)"
  by (auto simp: kept_candidates_def Let_def)

lemma set_pool_first: "c \<in> set (pool_first kept) \<Longrightarrow> \<exists>k \<in> set kept. c = k \<or> c = k\<lparr>ca_aside := True\<rparr>"
  by (cases kept) (auto simp: pool_first_def Let_def split: if_splits)

lemma candidate_from_kept:
  assumes "c \<in> set (mc_candidates (modelCandidates p m inbound))"
  shows "providerEnabled p \<and> (\<exists>k \<in> set (kept_candidates p m inbound). c = k \<or> c = k\<lparr>ca_aside := True\<rparr>)"
proof -
  have "providerEnabled p" using assms by (cases "providerEnabled p") (simp_all add: modelCandidates_def)
  with assms set_pool_first show ?thesis by (fastforce simp: candidates_pool)
qed

lemma candidate_facts:
  assumes "c \<in> set (mc_candidates (modelCandidates p m inbound))"
  shows "ca_provider c = p" "ca_credential c \<in> set (all_credentials p)" "c_enabled (ca_credential c)"
    "ca_ref c = pv_id p @ 47 # m" "ca_effort c = None" "\<not> ca_fast c" "ca_path c = None"
    "serves inbound c" "providerEnabled p"
proof -
  from candidate_from_kept [OF assms] obtain k where k: "k \<in> set (tried_candidates p m inbound)"
    "c = k \<or> c = k\<lparr>ca_aside := True\<rparr>" "providerEnabled p" using set_kept by blast
  with tried_fact [OF k(1)]
  show "ca_provider c = p" "ca_credential c \<in> set (all_credentials p)" "c_enabled (ca_credential c)"
    "ca_ref c = pv_id p @ 47 # m" "ca_effort c = None" "\<not> ca_fast c" "ca_path c = None"
    "serves inbound c" "providerEnabled p"
    by auto
qed

text \<open>
  Every candidate of a model is a way its provider offers: the provider is switched on, the
  credential is one of its own (or the keyless one), enabled and valid for the protocol it is asked
  in, at an endpoint the provider has; a subscription serves only through a usable account, and
  nothing passes untranslated but in the protocol it came in.
\<close>

theorem candidates_serve:
  assumes "c \<in> set (mc_candidates (modelCandidates p m inbound))"
  shows "providerEnabled p \<and> ca_credential c \<in> set (all_credentials p) \<and> c_enabled (ca_credential c) \<and>
    ca_ref c = pv_id p @ 47 # m \<and> serves inbound c"
  using candidate_facts [OF assms] by simp

definition demo_credential :: "string \<Rightarrow> protocol list option \<Rightarrow> credential" where
  "demo_credential i ps = \<lparr>c_id = js i, c_name = js i, c_ref = (js ''env'', js i), c_protocols = ps,
     c_enabled = True, c_account = None\<rparr>"

definition demo_provider :: "string \<Rightarrow> credential list \<Rightarrow> provider" where
  "demo_provider i creds = \<lparr>pv_id = js i, pv_name = js i,
     pv_endpoints = [(Chat, js ''https://c''), (Anthropic, js ''https://a'')], pv_credentials = creds,
     pv_models = \<lparr>ms_source = SourceStatic, ms_list = [], ms_expose = ExposeAll, ms_listedFor = None\<rparr>,
     pv_wire = None, pv_translateOnly = False, pv_subscription = None, pv_enabled = None\<rparr>"

lemmas demo_candidates = modelCandidates_def providerEnabled_def all_credentials_def candidate_of_def
  validFor_def given_text_def TRANSLATION_TARGETS_def credentialUnlisted_def keyFit_def modelFamily_def
  pool_first_def limitedTo_def demo_provider_def demo_credential_def Let_def

theorem candidates_serve_witness:
  "\<exists>c. mc_candidates (modelCandidates (demo_provider ''p'' [demo_credential ''k'' None]) (js ''m'') Chat) = [c] \<and>
     serves Chat c"
proof -
  let ?p = "demo_provider ''p'' [demo_credential ''k'' None]"
  have "\<exists>c. mc_candidates (modelCandidates ?p (js ''m'') Chat) = [c]"
    by (simp add: demo_candidates)
  then obtain c where "mc_candidates (modelCandidates ?p (js ''m'') Chat) = [c]" ..
  with candidates_serve [of c ?p "js ''m''" Chat] show ?thesis by simp
qed

lemma pool_first_split:
  assumes "sorted (map f kept)"
  shows "\<exists>pool late. pool_first kept = pool @ map (\<lambda>c. c\<lparr>ca_aside := True\<rparr>) late \<and>
    sorted (map f pool) \<and> set pool \<union> set late = set kept \<and>
    (\<forall>c \<in> set pool. \<forall>d \<in> set pool. limitedTo (ca_credential c) = limitedTo (ca_credential d)) \<and>
    (\<forall>c \<in> set kept. pool \<noteq> [] \<and> f (hd pool) \<le> f c)"
proof (cases kept)
  case (Cons best rest)
  let ?P = "\<lambda>c. limitedTo (ca_credential c) = limitedTo (ca_credential best)"
  have "pool_first kept = filter ?P kept @ map (\<lambda>c. c\<lparr>ca_aside := True\<rparr>) (filter (\<lambda>c. \<not> ?P c) kept)"
    by (simp add: pool_first_def Cons Let_def)
  moreover have "sorted (map f (filter ?P kept))" by (rule sorted_filter [OF assms])
  moreover have "\<forall>c \<in> set kept. f best \<le> f c" using assms by (auto simp: Cons)
  moreover have "hd (filter ?P kept) = best" by (simp add: Cons)
  moreover have "filter ?P kept \<noteq> []" by (simp add: Cons)
  moreover have "set (filter ?P kept) \<union> set (filter (\<lambda>c. \<not> ?P c) kept) = set kept" by auto
  ultimately show ?thesis
    by (intro exI [of _ "filter ?P kept"] exI [of _ "filter (\<lambda>c. \<not> ?P c) kept"]) (auto simp: Cons)
qed (simp add: pool_first_def)

text \<open>
  No credential is lost and none is favoured wrongly: the candidates are those of the enabled
  credentials whose list has the model, all of them if no list has it; the best fit is asked first,
  those with its limits by fit, and only then, marked, the rest.
\<close>

theorem candidates_complete:
  assumes "providerEnabled p"
  shows "mset (map (\<lambda>c. c\<lparr>ca_aside := False\<rparr>) (mc_candidates (modelCandidates p m inbound))) =
      mset (kept_candidates p m inbound) \<and>
    (\<exists>pool late. mc_candidates (modelCandidates p m inbound) = pool @ map (\<lambda>c. c\<lparr>ca_aside := True\<rparr>) late \<and>
       sorted (map (\<lambda>c. keyFit c m inbound) pool) \<and> (\<forall>c \<in> set pool. \<not> ca_aside c) \<and>
       (\<forall>c \<in> set pool \<union> set late. pool \<noteq> [] \<and> keyFit (hd pool) m inbound \<le> keyFit c m inbound) \<and>
       (\<forall>c \<in> set pool. limitedTo (ca_credential c) = limitedTo (ca_credential (hd pool))))"
proof
  let ?f = "\<lambda>c. keyFit c m inbound" and ?kept = "kept_candidates p m inbound"
  have plain: "\<forall>c \<in> set ?kept. \<not> ca_aside c" using tried_fact(8) set_kept by blast
  then have same: "map (\<lambda>c. c\<lparr>ca_aside := False\<rparr>) ?kept = ?kept"
    by (intro map_idI) (simp add: candidate.equality)
  have "mset (map (\<lambda>c. c\<lparr>ca_aside := False\<rparr>) (mc_candidates (modelCandidates p m inbound))) =
      mset (map (\<lambda>c. c\<lparr>ca_aside := False\<rparr>) (sort_key ?f ?kept))"
    unfolding candidates_pool [OF assms] by (rule mset_pool_first)
  also have "\<dots> = mset (map (\<lambda>c. c\<lparr>ca_aside := False\<rparr>) ?kept)" by simp
  finally show "mset (map (\<lambda>c. c\<lparr>ca_aside := False\<rparr>) (mc_candidates (modelCandidates p m inbound))) = mset ?kept"
    unfolding same .
  obtain pool late where split: "pool_first (sort_key ?f ?kept) = pool @ map (\<lambda>c. c\<lparr>ca_aside := True\<rparr>) late"
    "sorted (map ?f pool)" "set pool \<union> set late = set ?kept"
    "\<forall>c \<in> set pool. \<forall>d \<in> set pool. limitedTo (ca_credential c) = limitedTo (ca_credential d)"
    "\<forall>c \<in> set ?kept. pool \<noteq> [] \<and> ?f (hd pool) \<le> ?f c"
    using pool_first_split [of ?f "sort_key ?f ?kept"] by (auto simp del: sorted_map)
  then have "\<forall>c \<in> set pool. \<not> ca_aside c" using plain by blast
  moreover have "\<forall>c \<in> set pool \<union> set late. pool \<noteq> [] \<and> ?f (hd pool) \<le> ?f c" using split(3,5) by simp
  moreover have "\<forall>c \<in> set pool. limitedTo (ca_credential c) = limitedTo (ca_credential (hd pool))"
    using split(4) by (metis empty_iff empty_set hd_in_set)
  ultimately show "\<exists>pool late. mc_candidates (modelCandidates p m inbound) = pool @ map (\<lambda>c. c\<lparr>ca_aside := True\<rparr>) late \<and>
       sorted (map ?f pool) \<and> (\<forall>c \<in> set pool. \<not> ca_aside c) \<and>
       (\<forall>c \<in> set pool \<union> set late. pool \<noteq> [] \<and> ?f (hd pool) \<le> ?f c) \<and>
       (\<forall>c \<in> set pool. limitedTo (ca_credential c) = limitedTo (ca_credential (hd pool)))"
    unfolding candidates_pool [OF assms] using split(1,2) by blast
qed

theorem candidates_complete_witness:
  "mset (map (\<lambda>c. c\<lparr>ca_aside := False\<rparr>) (mc_candidates (modelCandidates
      (demo_provider ''p'' [demo_credential ''k'' (Some [Anthropic]), demo_credential ''l'' None]) (js ''m'') Chat))) =
    mset (kept_candidates (demo_provider ''p'' [demo_credential ''k'' (Some [Anthropic]), demo_credential ''l'' None])
      (js ''m'') Chat)"
  by (rule candidates_complete [THEN conjunct1]) (simp add: providerEnabled_def demo_provider_def)

end
