(* ===== verification/GroupPlanProps.thy ===== *)
theory GroupPlanProps
  imports GroupPlans CandidateProps
begin

text \<open>
  The interface a plan weighs with, as a locale: whatever order a group tries its members in, it
  tries its members; whatever it weighs, it weighs a permutation. From these two laws: a plan holds
  exactly what the members offer, each model once per credential and effort, and every candidate is
  there by a way of members that leads to it.
\<close>

section \<open>What the members of a group offer\<close>

definition member_offers ::
    "(jstring \<Rightarrow> provider option) \<Rightarrow> protocol \<Rightarrow> jstring \<Rightarrow> jstring \<Rightarrow> jstring set" where
  "member_offers provider_of inbound written p =
     (case provider_of p of
        None \<Rightarrow> {}
      | Some found \<Rightarrow>
          (case parseGroupMember written (\<lambda>_ model. list_ex (\<lambda>m. m_id m = model) (ms_list (pv_models found))) of
             Some (ModelMember member) \<Rightarrow>
               seen_key (mm_effort member) ` set (mc_candidates (modelCandidates found (mm_model member) inbound))
           | _ \<Rightarrow> {}))"

function offers ::
    "'s planning \<Rightarrow> protocol \<Rightarrow> jstring \<Rightarrow> jstring list \<Rightarrow> jstring list \<Rightarrow> jstring set" where
  "offers planning inbound self via [] = {}"
| "offers planning inbound self via (written # rest) =
     (case parseGroupMember written notListed of
        None \<Rightarrow> {}
      | Some (GroupMember i) \<Rightarrow>
          if i = self \<or> i \<in> set via \<or> length via \<ge> GROUP_NEST_LIMIT then {}
          else (case pl_group planning i of
              None \<Rightarrow> {}
            | Some inner \<Rightarrow> offers planning inbound self (via @ [i]) (g_members inner))
      | Some (ModelMember m) \<Rightarrow> member_offers (pl_provider planning) inbound written (mm_provider m)) \<union>
     offers planning inbound self via rest"
  by pat_completeness auto

termination
  by (relation "measures [\<lambda>(_, _, _, via, _). GROUP_NEST_LIMIT - length via,
      \<lambda>(_, _, _, _, members). length members]") auto

lemma finite_member_offers [simp]: "finite (member_offers provider_of inbound written p)"
  by (auto simp: member_offers_def split: option.splits group_member.splits)

lemma finite_offers [simp]: "finite (offers planning inbound self via members)"
  by (induction planning inbound self via members rule: offers.induct)
    (auto split: option.splits group_member.splits)

lemma offers_one: "offers planning inbound self via (w # ws) =
    offers planning inbound self via [w] \<union> offers planning inbound self via ws"
  by simp

definition offers_each ::
    "'s planning \<Rightarrow> protocol \<Rightarrow> jstring \<Rightarrow> jstring list \<Rightarrow> jstring \<Rightarrow> jstring set" where
  "offers_each planning inbound self via w = offers planning inbound self via [w]"

lemma offers_by_member:
  "offers planning inbound self via members = (\<Union>w \<in> set members. offers_each planning inbound self via w)"
proof (induction members)
  case (Cons w ws)
  then show ?case
    using offers_one [of planning inbound self via w ws]
    by (simp only: list.set UN_insert offers_each_def)
qed simp

lemma offers_cong: "set xs = set ys \<Longrightarrow> offers planning inbound self via xs = offers planning inbound self via ys"
  by (simp only: offers_by_member)

section \<open>Collecting the candidates of a level\<close>

definition ckey :: "candidate \<Rightarrow> jstring" where
  "ckey c = seen_key (ca_effort c) c"

type_synonym 's collected = "candidate list list \<times> candidate list \<times> 's plan_state"

definition collected_of :: "'s collected \<Rightarrow> candidate list" where
  "collected_of acc = concat (fst acc) @ fst (snd acc)"

definition seen_of :: "'s collected \<Rightarrow> jstring set" where
  "seen_of acc = set (ps_seen (snd (snd acc)))"

definition acc_ok :: "'s collected \<Rightarrow> bool" where
  "acc_ok acc \<longleftrightarrow> distinct (map ckey (collected_of acc)) \<and> ckey ` set (collected_of acc) \<subseteq> seen_of acc \<and>
     [] \<notin> set (fst acc)"

definition grows :: "jstring set \<Rightarrow> 's collected \<Rightarrow> 's collected \<Rightarrow> bool" where
  "grows A acc acc' \<longleftrightarrow> (acc_ok acc \<longrightarrow> acc_ok acc') \<and>
     mset (map ckey (collected_of acc')) = mset (map ckey (collected_of acc)) + mset_set (A - seen_of acc) \<and>
     seen_of acc' = seen_of acc \<union> A"

lemma grows_refl [simp]: "grows {} acc acc"
  by (simp add: grows_def)

lemma grows_trans:
  assumes "finite A" "finite B" "grows A a b" "grows B b c"
  shows "grows (A \<union> B) a c"
proof -
  have "(A \<union> B) - S = (A - S) \<union> (B - (S \<union> A))" "(A - S) \<inter> (B - (S \<union> A)) = {}" for S by auto
  then have "mset_set ((A \<union> B) - S) = mset_set (A - S) + mset_set (B - (S \<union> A))" for S
    using assms(1,2) by (metis finite_Diff mset_set_Union)
  with assms(3,4) show ?thesis by (auto simp: grows_def add.assoc)
qed

lemma growsI:
  assumes "mset (map ckey (collected_of acc')) = mset (map ckey (collected_of acc)) + mset_set (A - seen_of acc)"
    and "seen_of acc' = seen_of acc \<union> A" "[] \<notin> set (fst acc) \<Longrightarrow> [] \<notin> set (fst acc')" "finite A"
  shows "grows A acc acc'"
proof -
  have "acc_ok acc'" if ok: "acc_ok acc"
  proof -
    obtain new where new: "set new = A - seen_of acc" "distinct new"
      using assms(4) finite_distinct_list [of "A - seen_of acc"] by auto
    then have "mset (map ckey (collected_of acc')) = mset (map ckey (collected_of acc) @ new)"
      using assms(1) mset_set_set [of new] by simp
    moreover have "distinct (map ckey (collected_of acc) @ new)"
      using ok new by (auto simp: acc_ok_def)
    ultimately have "distinct (map ckey (collected_of acc'))" using mset_eq_imp_distinct_iff by blast
    moreover have "set (map ckey (collected_of acc')) = set (map ckey (collected_of acc)) \<union> (A - seen_of acc)"
      using arg_cong [OF assms(1), of set_mset] assms(4) by (simp del: set_map mset_map)
    ultimately show ?thesis using ok assms(2,3) by (auto simp: acc_ok_def)
  qed
  with assms show ?thesis by (simp add: grows_def)
qed

lemma seen_key_placed [simp]:
  "seen_key e (c\<lparr>ca_path := p, ca_effort := x, ca_fast := b\<rparr>) = seen_key e c"
  by (simp add: seen_key_def credentialKey_def)

lemma place_candidate_grows:
  assumes "ca_effort c = None"
  shows "grows {seen_key (mm_effort member) c} acc
    (place_candidate hostname found weighed path written member c acc)"
proof (rule growsI)
  let ?key = "seen_key (mm_effort member) c"
  obtain units late st where acc: "acc = (units, late, st)" by (cases acc)
  let ?placed = "c\<lparr>ca_path := Some (path @ [written]),
      ca_effort := (case mm_effort member of Some e \<Rightarrow> Some e | None \<Rightarrow> ca_effort c),
      ca_fast := (mm_fast member \<and> fastMode hostname found (ca_wireModel c) (ca_upstream c) \<noteq> None \<or> ca_fast c)\<rparr>"
  have placed: "ckey ?placed = ?key"
    using assms unfolding ckey_def seen_key_placed by (simp split: option.split)
  show "mset (map ckey (collected_of (place_candidate hostname found weighed path written member c acc))) =
      mset (map ckey (collected_of acc)) + mset_set ({?key} - seen_of acc)"
  proof (cases "?key \<in> set (ps_seen st)")
    case True
    then show ?thesis by (simp add: acc place_candidate_def seen_of_def Let_def)
  next
    case False
    then have "collected_of (place_candidate hostname found weighed path written member c acc) =
        (if ca_aside ?placed \<and> weighed then concat units @ late @ [?placed] else concat units @ [?placed] @ late)"
      by (simp add: acc place_candidate_def collected_of_def Let_def)
    moreover have "{?key} - seen_of acc = {?key}" using False by (auto simp: acc seen_of_def)
    ultimately show ?thesis
      using placed by (simp add: acc collected_of_def del: candidate.simps)
  qed
qed (auto simp: place_candidate_def seen_of_def Let_def split: prod.splits)

lemma place_all_grows:
  assumes "\<forall>c \<in> set cs. ca_effort c = None"
  shows "grows (seen_key (mm_effort member) ` set cs) acc
    (foldl (\<lambda>acc c. place_candidate hostname found weighed path written member c acc) acc cs)"
  using assms
proof (induction cs arbitrary: acc)
  case (Cons c cs)
  let ?acc = "place_candidate hostname found weighed path written member c acc"
  have "grows ({seen_key (mm_effort member) c} \<union> seen_key (mm_effort member) ` set cs) acc
      (foldl (\<lambda>acc c. place_candidate hostname found weighed path written member c acc) ?acc cs)"
    by (rule grows_trans [OF _ _ place_candidate_grows Cons.IH]) (use Cons.prems in auto)
  then show ?case by simp
qed simp

lemma grows_same_candidates:
  "fst acc' = fst acc \<Longrightarrow> fst (snd acc') = fst (snd acc) \<Longrightarrow>
   ps_seen (snd (snd acc')) = ps_seen (snd (snd acc)) \<Longrightarrow> grows {} acc acc'"
  by (simp add: grows_def acc_ok_def collected_of_def seen_of_def)

lemma grows_from_same:
  "fst acc' = fst acc \<Longrightarrow> fst (snd acc') = fst (snd acc) \<Longrightarrow>
   ps_seen (snd (snd acc')) = ps_seen (snd (snd acc)) \<Longrightarrow> grows A acc' r \<Longrightarrow> grows A acc r"
proof -
  assume same: "fst acc' = fst acc" "fst (snd acc') = fst (snd acc)"
    "ps_seen (snd (snd acc')) = ps_seen (snd (snd acc))"
  then have "collected_of acc' = collected_of acc" "seen_of acc' = seen_of acc" "acc_ok acc' = acc_ok acc"
    by (simp_all add: acc_ok_def collected_of_def seen_of_def)
  then show "grows A acc' r \<Longrightarrow> grows A acc r" by (simp add: grows_def)
qed

lemma place_model_grows:
  "grows (member_offers provider_of inbound written p) acc
     (place_model hostname provider_of inbound weighed path written p acc)"
proof (cases "provider_of p")
  case None
  then show ?thesis
    by (auto simp: member_offers_def place_model_def split: prod.split intro: grows_same_candidates)
next
  case (Some found)
  obtain units late st where acc: "acc = (units, late, st)" by (cases acc)
  let ?parsed = "parseGroupMember written (\<lambda>_ model. list_ex (\<lambda>m. m_id m = model) (ms_list (pv_models found)))"
  show ?thesis
  proof (cases "\<exists>member. ?parsed = Some (ModelMember member)")
    case False
    then show ?thesis
      by (auto simp: Some acc member_offers_def place_model_def split: option.split group_member.split)
  next
    case True
    then obtain member where parsed: "?parsed = Some (ModelMember member)" ..
    define result where "result = modelCandidates found (mm_model member) inbound"
    define st' where "st' = st\<lparr>ps_skipped := ps_skipped st @ mc_skipped result,
       ps_unlisted := ps_unlisted st + mc_unlisted result,
       ps_unlistedTried := (ps_unlistedTried st \<or> mc_unlistedTried result)\<rparr>"
    have "grows (seen_key (mm_effort member) ` set (mc_candidates result)) (units, late, st')
        (foldl (\<lambda>acc c. place_candidate hostname found weighed path written member c acc) (units, late, st')
          (mc_candidates result))"
      by (rule place_all_grows) (use candidate_facts(5) in \<open>auto simp: result_def\<close>)
    then have "grows (seen_key (mm_effort member) ` set (mc_candidates result)) (units, late, st)
        (foldl (\<lambda>acc c. place_candidate hostname found weighed path written member c acc) (units, late, st')
          (mc_candidates result))"
      by (rule grows_from_same [rotated 3]) (simp_all add: st'_def)
    then show ?thesis
      by (simp add: Some acc parsed member_offers_def place_model_def Let_def result_def st'_def)
  qed
qed

section \<open>Ways to a candidate\<close>

text \<open>Member \<open>w\<close>, a model, gives the candidate: one of its model's, marked with the member's suffixes.\<close>

definition gives_candidate :: "(jstring \<Rightarrow> provider option) \<Rightarrow> protocol \<Rightarrow> jstring \<Rightarrow> candidate \<Rightarrow> bool" where
  "gives_candidate provider_of inbound w c \<longleftrightarrow>
     (\<exists>m found member k. parseGroupMember w notListed = Some (ModelMember m) \<and>
        provider_of (mm_provider m) = Some found \<and>
        parseGroupMember w (\<lambda>_ model. list_ex (\<lambda>m. m_id m = model) (ms_list (pv_models found))) =
          Some (ModelMember member) \<and>
        k \<in> set (mc_candidates (modelCandidates found (mm_model member) inbound)) \<and>
        ca_effort c = mm_effort member \<and> (ca_fast c \<longrightarrow> mm_fast member) \<and>
        c = k\<lparr>ca_path := ca_path c, ca_effort := ca_effort c, ca_fast := ca_fast c\<rparr>)"

text \<open>The members of a way: groups, each stored and met once, at most eight deep, then a model.\<close>

fun leads ::
    "'s planning \<Rightarrow> protocol \<Rightarrow> jstring \<Rightarrow> jstring list \<Rightarrow> jstring list \<Rightarrow> jstring list \<Rightarrow> candidate \<Rightarrow> bool" where
  "leads planning inbound self via members [] c = False"
| "leads planning inbound self via members [w] c =
     (w \<in> set members \<and> gives_candidate (pl_provider planning) inbound w c)"
| "leads planning inbound self via members (w # v # p) c =
     (w \<in> set members \<and> length via < GROUP_NEST_LIMIT \<and>
      (\<exists>i inner. parseGroupMember w notListed = Some (GroupMember i) \<and> i \<noteq> self \<and> i \<notin> set via \<and>
         pl_group planning i = Some inner \<and>
         leads planning inbound self (via @ [i]) (g_members inner) (v # p) c))"

lemma leads_mono: "set xs \<subseteq> set ys \<Longrightarrow> leads planning inbound self via xs p c \<Longrightarrow> leads planning inbound self via ys p c"
  by (cases "(planning, inbound, self, via, xs, p, c)" rule: leads.cases) auto

lemma leads_length: "leads planning inbound self via members p c \<Longrightarrow> length via \<le> GROUP_NEST_LIMIT \<Longrightarrow> length p + length via \<le> GROUP_NEST_LIMIT + 1"
  by (induction planning inbound self via members p c rule: leads.induct) auto

lemma place_candidate_ok:
  assumes "\<forall>d \<in> set (collected_of acc). good d" "ca_effort c = None" "\<not> ca_fast c"
    and "\<And>b. (b \<longrightarrow> mm_fast member) \<Longrightarrow>
      good (c\<lparr>ca_path := Some (path @ [written]), ca_effort := mm_effort member, ca_fast := b\<rparr>)"
  shows "\<forall>d \<in> set (collected_of (place_candidate hostname found weighed path written member c acc)). good d"
proof -
  obtain units late st where acc: "acc = (units, late, st)" by (cases acc)
  define placed where "placed = c\<lparr>ca_path := Some (path @ [written]),
      ca_effort := (case mm_effort member of Some e \<Rightarrow> Some e | None \<Rightarrow> ca_effort c),
      ca_fast := (mm_fast member \<and> fastMode hostname found (ca_wireModel c) (ca_upstream c) \<noteq> None \<or> ca_fast c)\<rparr>"
  have "placed = c\<lparr>ca_path := Some (path @ [written]), ca_effort := mm_effort member, ca_fast := ca_fast placed\<rparr>"
    using assms(2) by (simp add: placed_def split: option.split)
  moreover have "ca_fast placed \<longrightarrow> mm_fast member" using assms(3) by (simp add: placed_def)
  ultimately have "good placed" using assms(4) by metis
  moreover have "set (collected_of (place_candidate hostname found weighed path written member c acc)) \<subseteq>
      set (collected_of acc) \<union> {placed}"
    by (auto simp: acc place_candidate_def collected_of_def Let_def placed_def)
  ultimately show ?thesis using assms(1) by blast
qed

lemma place_all_ok:
  assumes "\<forall>d \<in> set (collected_of acc). good d" "\<forall>c \<in> set cs. ca_effort c = None \<and> \<not> ca_fast c"
    and "\<And>c b. c \<in> set cs \<Longrightarrow> (b \<longrightarrow> mm_fast member) \<Longrightarrow>
      good (c\<lparr>ca_path := Some (path @ [written]), ca_effort := mm_effort member, ca_fast := b\<rparr>)"
  shows "\<forall>d \<in> set (collected_of (foldl (\<lambda>acc c. place_candidate hostname found weighed path written member c acc) acc cs)). good d"
  using assms
proof (induction cs arbitrary: acc)
  case (Cons c cs)
  have "\<forall>d \<in> set (collected_of (place_candidate hostname found weighed path written member c acc)). good d"
    by (rule place_candidate_ok) (use Cons.prems in auto)
  with Cons show ?case by simp
qed simp

lemma place_model_ok:
  assumes "\<forall>d \<in> set (collected_of acc). good d" "parseGroupMember written notListed = Some (ModelMember m)"
    and "\<And>d. gives_candidate provider_of inbound written d \<Longrightarrow> ca_path d = Some (path @ [written]) \<Longrightarrow> good d"
  shows "\<forall>d \<in> set (collected_of (place_model hostname provider_of inbound weighed path written (mm_provider m) acc)). good d"
proof -
  obtain units late st where acc: "acc = (units, late, st)" by (cases acc)
  show ?thesis
  proof (cases "provider_of (mm_provider m)")
    case None
    with assms(1) show ?thesis by (simp add: acc place_model_def collected_of_def)
  next
    case (Some found)
    let ?parsed = "parseGroupMember written (\<lambda>_ model. list_ex (\<lambda>m. m_id m = model) (ms_list (pv_models found)))"
    show ?thesis
    proof (cases "\<exists>member. ?parsed = Some (ModelMember member)")
      case False
      with assms(1) show ?thesis
        by (auto simp: Some acc place_model_def split: option.split group_member.split)
    next
      case True
      then obtain member where parsed: "?parsed = Some (ModelMember member)" ..
      define result where "result = modelCandidates found (mm_model member) inbound"
      define st' where "st' = st\<lparr>ps_skipped := ps_skipped st @ mc_skipped result,
         ps_unlisted := ps_unlisted st + mc_unlisted result,
         ps_unlistedTried := (ps_unlistedTried st \<or> mc_unlistedTried result)\<rparr>"
      have "\<forall>d \<in> set (collected_of (foldl (\<lambda>acc c. place_candidate hostname found weighed path written member c acc)
          (units, late, st') (mc_candidates result))). good d"
      proof (rule place_all_ok)
        show "\<forall>d \<in> set (collected_of (units, late, st')). good d"
          using assms(1) by (simp add: acc collected_of_def)
        show "\<forall>c \<in> set (mc_candidates result). ca_effort c = None \<and> \<not> ca_fast c"
          using candidate_facts(5,6) by (auto simp: result_def)
      next
        fix c b
        assume c: "c \<in> set (mc_candidates result)" and fast: "b \<longrightarrow> mm_fast member"
        let ?d = "c\<lparr>ca_path := Some (path @ [written]), ca_effort := mm_effort member, ca_fast := b\<rparr>"
        have "gives_candidate provider_of inbound written ?d"
          unfolding gives_candidate_def
          using assms(2) Some parsed c fast
          by (intro exI [of _ m] exI [of _ found] exI [of _ member] exI [of _ c]) (simp add: result_def)
        then show "good ?d" by (rule assms(3)) simp
      qed
      then show ?thesis
        by (simp add: Some acc parsed place_model_def Let_def result_def st'_def)
    qed
  qed
qed

section \<open>Induction over the levels of a plan\<close>

text \<open>A member by which a level is given nothing: it is only noted as skipped.\<close>

definition gives_nothing :: "'s planning \<Rightarrow> jstring \<Rightarrow> jstring list \<Rightarrow> jstring \<Rightarrow> bool" where
  "gives_nothing planning self via written \<longleftrightarrow>
     (case parseGroupMember written notListed of
        None \<Rightarrow> True
      | Some (GroupMember i) \<Rightarrow> i = self \<or> i \<in> set via \<or> length via \<ge> GROUP_NEST_LIMIT \<or> pl_group planning i = None
      | Some (ModelMember m) \<Rightarrow> False)"

definition enter_group :: "route_group \<Rightarrow> 's collected \<Rightarrow> 's plan_state" where
  "enter_group inner acc = (snd (snd acc))\<lparr>ps_groups := jset (g_id inner) inner (ps_groups (snd (snd acc)))\<rparr>"

definition add_unit :: "candidate list \<times> 's plan_state \<Rightarrow> 's collected \<Rightarrow> 's collected" where
  "add_unit r acc = (if fst r \<noteq> [] then fst acc @ [fst r] else fst acc, fst (snd acc), snd r)"

text \<open>What one turn of the loop makes of what was collected.\<close>

definition next_acc ::
    "(jstring \<Rightarrow> jstring option) \<Rightarrow> 's planning \<Rightarrow> protocol \<Rightarrow> jstring \<Rightarrow> route_group \<Rightarrow> jstring list \<Rightarrow> jstring list \<Rightarrow>
     jstring \<Rightarrow> 's collected \<Rightarrow> 's collected" where
  "next_acc hostname planning inbound self current via path written acc =
     (case parseGroupMember written notListed of
        None \<Rightarrow> (fst acc, fst (snd acc), skip (NeitherModelNorGroup written) (snd (snd acc)))
      | Some (GroupMember i) \<Rightarrow>
          if i = self \<or> i \<in> set via then (fst acc, fst (snd acc), skip (OnTheWayDown written) (snd (snd acc)))
          else if length via \<ge> GROUP_NEST_LIMIT then (fst acc, fst (snd acc), skip (NestsTooDeep written) (snd (snd acc)))
          else (case pl_group planning i of
              None \<Rightarrow> (fst acc, fst (snd acc), skip (UnknownGroup written) (snd (snd acc)))
            | Some inner \<Rightarrow>
                (let st = enter_group inner acc; ordered = pl_order planning inner (ps_outer st)
                 in add_unit (level hostname planning inbound self inner (via @ [i]) (path @ [written]) (fst ordered)
                      ([], [], st\<lparr>ps_outer := snd ordered\<rparr>)) acc))
      | Some (ModelMember m) \<Rightarrow>
          place_model hostname (pl_provider planning) inbound (g_strategy current \<in> set WEIGHED) path written (mm_provider m) acc)"

lemma level_Cons:
  "level hostname planning inbound self current via path (written # rest) acc =
     level hostname planning inbound self current via path rest
       (next_acc hostname planning inbound self current via path written acc)"
  by (simp only: level.simps(2) next_acc_def enter_group_def add_unit_def Let_def)

lemma next_skips:
  "gives_nothing planning self via written \<Longrightarrow>
    \<exists>reason. next_acc hostname planning inbound self current via path written acc =
      (fst acc, fst (snd acc), skip reason (snd (snd acc)))"
  by (auto simp: gives_nothing_def next_acc_def split: option.splits group_member.splits)

lemma level_induct:
  assumes last: "\<And>current via path acc. P current via path [] acc (level_end planning current acc)"
    and skipped: "\<And>current via path written rest acc reason r. gives_nothing planning self via written \<Longrightarrow>
      P current via path rest (fst acc, fst (snd acc), skip reason (snd (snd acc))) r \<Longrightarrow>
      P current via path (written # rest) acc r"
    and placed: "\<And>current via path written rest acc m r. parseGroupMember written notListed = Some (ModelMember m) \<Longrightarrow>
      P current via path rest (place_model hostname (pl_provider planning) inbound (g_strategy current \<in> set WEIGHED) path
        written (mm_provider m) acc) r \<Longrightarrow>
      P current via path (written # rest) acc r"
    and nested: "\<And>current via path written rest acc i inner outer members inner_r r.
      parseGroupMember written notListed = Some (GroupMember i) \<Longrightarrow> \<not> gives_nothing planning self via written \<Longrightarrow>
      pl_group planning i = Some inner \<Longrightarrow>
      (members, outer) = pl_order planning inner (ps_outer (enter_group inner acc)) \<Longrightarrow>
      P inner (via @ [i]) (path @ [written]) members ([], [], (enter_group inner acc)\<lparr>ps_outer := outer\<rparr>) inner_r \<Longrightarrow>
      P current via path rest (add_unit inner_r acc) r \<Longrightarrow>
      P current via path (written # rest) acc r"
  shows "P current via path members acc (level hostname planning inbound self current via path members acc)"
proof -
  have "h = hostname \<Longrightarrow> pl = planning \<Longrightarrow> ib = inbound \<Longrightarrow> sf = self \<Longrightarrow>
      P current via path members acc (level h pl ib sf current via path members acc)" for h pl ib sf
  proof (induction h pl ib sf current via path members acc rule: level.induct)
    case (2 h pl ib sf current via path written rest acc)
    let ?next = "next_acc hostname planning inbound self current via path written acc"
    let ?r = "level hostname planning inbound self current via path (written # rest) acc"
    have rest: "P current via path rest ?next ?r"
      using "2.IH"(2) [OF "2.prems"] by (simp only: "2.prems" level_Cons next_acc_def enter_group_def add_unit_def Let_def)
    have "P current via path (written # rest) acc ?r"
    proof (cases "gives_nothing planning self via written")
      case True
      with next_skips [OF this, of hostname inbound current path acc] rest show ?thesis by (metis skipped)
    next
      case False
      then obtain member where member: "parseGroupMember written notListed = Some member"
        by (cases "parseGroupMember written notListed") (simp_all add: gives_nothing_def)
      show ?thesis
      proof (cases member)
        case (ModelMember m)
        show ?thesis
          by (rule placed) (use member ModelMember rest in \<open>simp_all add: next_acc_def\<close>)
      next
        case (GroupMember i)
        with False member obtain inner where inner: "pl_group planning i = Some inner"
            and way: "\<not> (i = self \<or> i \<in> set via)" "\<not> length via \<ge> GROUP_NEST_LIMIT" by (auto simp: gives_nothing_def)
        let ?o = "pl_order planning inner (ps_outer (enter_group inner acc))"
        let ?acc = "([], [], (enter_group inner acc)\<lparr>ps_outer := snd ?o\<rparr>)"
        have "P inner (via @ [i]) (path @ [written]) (fst ?o) ?acc
            (level hostname planning inbound self inner (via @ [i]) (path @ [written]) (fst ?o) ?acc)"
          using "2.IH"(1) [of member i inner] member GroupMember way inner "2.prems" by (simp add: enter_group_def)
        moreover have "P current via path rest
            (add_unit (level hostname planning inbound self inner (via @ [i]) (path @ [written]) (fst ?o) ?acc) acc) ?r"
          using rest member GroupMember way inner by (simp add: next_acc_def Let_def cong: if_cong)
        ultimately show ?thesis
          using nested [of written i via inner "fst ?o" "snd ?o"] member GroupMember False inner by simp
      qed
    qed
    with "2.prems" show ?case by simp
  qed (simp add: last)
  then show ?thesis by simp
qed

section \<open>The interface and what a plan has from it\<close>

locale group_planning =
  fixes planning :: "'s planning"
  assumes order_members: "mset (fst (pl_order planning grp outer)) = mset (g_members grp)"
    and weigh_same: "mset (fst (pl_weigh planning grp cs outer)) = mset cs"
begin

lemma order_set: "set (fst (pl_order planning grp outer)) = set (g_members grp)"
  by (metis order_members set_mset_mset)

lemma head_in: "unit \<noteq> [] \<Longrightarrow> head_of blocked unit \<in> set unit"
  by (auto simp: head_of_def dest: find_Some_set split: option.split)

lemma heads_distinct:
  "distinct (map ckey (concat units)) \<Longrightarrow> [] \<notin> set units \<Longrightarrow> distinct (map (head_of blocked) units)"
proof (induction units)
  case (Cons u us)
  have "head_of blocked u \<notin> head_of blocked ` set us"
  proof
    assume "head_of blocked u \<in> head_of blocked ` set us"
    then obtain v where "v \<in> set us" "head_of blocked u = head_of blocked v" by auto
    moreover from this Cons.prems(2) have "u \<noteq> []" "v \<noteq> []" by auto
    then have "head_of blocked u \<in> set u" "head_of blocked v \<in> set v" using head_in by blast+
    ultimately have "ckey (head_of blocked u) \<in> ckey ` set u \<inter> ckey ` set (concat us)" by auto
    with Cons.prems(1) show False by auto
  qed
  with Cons show ?case by auto
qed simp

lemma weighed_units:
  assumes "distinct (map ckey (concat units))" "[] \<notin> set units"
    and heads: "heads = map (head_of blocked) units" and order: "mset order = mset heads"
  shows "mset (concat (map (\<lambda>h. case map_of (rev (zip heads units)) h of Some unit \<Rightarrow> unit | None \<Rightarrow> [h]) order)) =
    mset (concat units)"
proof -
  let ?f = "\<lambda>h. case map_of (rev (zip heads units)) h of Some unit \<Rightarrow> unit | None \<Rightarrow> [h]"
  have distinct: "distinct heads" using heads_distinct [OF assms(1,2)] heads by simp
  have lengths: "length heads = length units" by (simp add: heads)
  have by_head: "?f (heads ! k) = units ! k" if "k < length units" for k
  proof -
    have "(heads ! k, units ! k) \<in> set (rev (zip heads units))" using that lengths by (auto simp: set_zip)
    moreover have "distinct (map fst (rev (zip heads units)))"
      using distinct lengths by (simp flip: rev_map)
    ultimately have "map_of (rev (zip heads units)) (heads ! k) = Some (units ! k)" by simp
    then show ?thesis by simp
  qed
  have "mset (concat (map g hs)) = (\<Sum>h \<in># mset hs. mset (g h))" for g :: "candidate \<Rightarrow> candidate list" and hs
    by (induction hs) auto
  then have "mset (concat (map ?f order)) = mset (concat (map ?f heads))" by (simp only: order)
  also have "map ?f heads = units" by (rule nth_equalityI) (use by_head lengths in auto)
  finally show ?thesis .
qed

lemma level_end_all:
  assumes "acc_ok acc"
  shows "mset (fst (level_end planning current acc)) = mset (collected_of acc) \<and>
    ps_seen (snd (level_end planning current acc)) = ps_seen (snd (snd acc))"
proof -
  obtain units late st where acc: "acc = (units, late, st)" by (cases acc)
  show ?thesis
  proof (cases "g_strategy current \<notin> set WEIGHED \<or> length units < 2")
    case True
    then show ?thesis by (simp add: acc level_end_def collected_of_def)
  next
    case False
    define heads where "heads = map (head_of (\<lambda>c. pl_blocked planning c (ps_outer st))) units"
    define weighed where "weighed = pl_weigh planning current heads (ps_outer st)"
    have "mset (concat (map (\<lambda>h. case map_of (rev (zip heads units)) h of Some unit \<Rightarrow> unit | None \<Rightarrow> [h])
        (fst weighed))) = mset (concat units)"
      by (rule weighed_units [OF _ _ heads_def])
        (use assms in \<open>auto simp: acc acc_ok_def collected_of_def weighed_def weigh_same\<close>)
    then show ?thesis
      using False
      by (simp add: acc level_end_def collected_of_def heads_def [symmetric] weighed_def [symmetric]
          Let_def case_prod_beta del: mset_concat)
  qed
qed

text \<open>What a level gives: the keys it collected and those its members offer, each once.\<close>

definition level_gives ::
    "jstring set \<Rightarrow> 's collected \<Rightarrow> candidate list \<times> 's plan_state \<Rightarrow> bool" where
  "level_gives A acc r \<longleftrightarrow>
     mset (map ckey (fst r)) = mset (map ckey (collected_of acc)) + mset_set (A - seen_of acc) \<and>
     set (ps_seen (snd r)) = seen_of acc \<union> A"

lemma level_gives_step:
  assumes "grows A a b" "level_gives B b r" "finite A" "finite B"
  shows "level_gives (A \<union> B) a r"
proof -
  have "(A \<union> B) - S = (A - S) \<union> (B - (S \<union> A))" "(A - S) \<inter> (B - (S \<union> A)) = {}" for S by auto
  then have "mset_set ((A \<union> B) - S) = mset_set (A - S) + mset_set (B - (S \<union> A))" for S
    using assms(3,4) by (metis finite_Diff mset_set_Union)
  with assms(1,2) show ?thesis by (auto simp: level_gives_def grows_def add.assoc)
qed

lemma nested_grows:
  assumes "level_gives A ([], [], st) r" "seen_of acc = set (ps_seen st)" "finite A"
  shows "grows A acc (if fst r \<noteq> [] then fst acc @ [fst r] else fst acc, fst (snd acc), snd r)"
  by (rule growsI) (use assms in \<open>auto simp: level_gives_def collected_of_def seen_of_def\<close>)

lemma offers_skipped:
  "gives_nothing planning self via written \<Longrightarrow> offers planning inbound self via (written # rest) = offers planning inbound self via rest"
  by (auto simp: gives_nothing_def split: option.splits group_member.splits)

lemma offers_entered:
  "parseGroupMember written notListed = Some (GroupMember i) \<Longrightarrow> \<not> gives_nothing planning self via written \<Longrightarrow>
    pl_group planning i = Some inner \<Longrightarrow>
    offers planning inbound self via (written # rest) =
      offers planning inbound self (via @ [i]) (g_members inner) \<union> offers planning inbound self via rest"
  by (simp add: gives_nothing_def)

lemma level_all:
  "acc_ok acc \<Longrightarrow>
   level_gives (offers planning inbound self via members) acc
     (level hostname planning inbound self current via path members acc)"
proof -
  have step: "acc_ok acc \<longrightarrow> level_gives (A \<union> B) acc r"
    if "grows A acc acc'" "finite A" "finite B" "acc_ok acc' \<longrightarrow> level_gives B acc' r" for A B acc acc' and r :: "candidate list \<times> 's plan_state"
    using level_gives_step [OF that(1) _ that(2,3), of r] that(1,4) by (simp add: grows_def)
  have "acc_ok acc \<longrightarrow> level_gives (offers planning inbound self via members) acc
      (level hostname planning inbound self current via path members acc)"
  proof (rule level_induct [where P = "\<lambda>current via path members acc r. acc_ok acc \<longrightarrow>
      level_gives (offers planning inbound self via members) acc r"])
    show "acc_ok acc \<longrightarrow> level_gives (offers planning inbound self via []) acc (level_end planning current acc)" for current via acc
      using level_end_all [of acc current] by (auto simp: level_gives_def seen_of_def)
  next
    fix via written rest and acc :: "'s collected" and reason and r :: "candidate list \<times> 's plan_state"
    assume "gives_nothing planning self via written"
      and IH: "acc_ok (fst acc, fst (snd acc), skip reason (snd (snd acc))) \<longrightarrow>
        level_gives (offers planning inbound self via rest) (fst acc, fst (snd acc), skip reason (snd (snd acc))) r"
    then show "acc_ok acc \<longrightarrow> level_gives (offers planning inbound self via (written # rest)) acc r"
      using step [OF _ _ _ IH, of "{}" acc] by (simp add: offers_skipped grows_same_candidates skip_def del: offers.simps(2))
  next
    fix current :: route_group and via path written rest and acc :: "'s collected" and m and r :: "candidate list \<times> 's plan_state"
    assume m: "parseGroupMember written notListed = Some (ModelMember m)"
    assume "acc_ok (place_model hostname (pl_provider planning) inbound (g_strategy current \<in> set WEIGHED) path written (mm_provider m) acc) \<longrightarrow>
      level_gives (offers planning inbound self via rest)
        (place_model hostname (pl_provider planning) inbound (g_strategy current \<in> set WEIGHED) path written (mm_provider m) acc) r"
    from step [OF place_model_grows finite_member_offers finite_offers this] m
    show "acc_ok acc \<longrightarrow> level_gives (offers planning inbound self via (written # rest)) acc r" by simp
  next
    fix via written rest and acc :: "'s collected" and i inner outer members and inner_r r :: "candidate list \<times> 's plan_state"
    let ?st = "(enter_group inner acc)\<lparr>ps_outer := outer\<rparr>"
    assume entered: "parseGroupMember written notListed = Some (GroupMember i)" "\<not> gives_nothing planning self via written"
        "pl_group planning i = Some inner"
      and order: "(members, outer) = pl_order planning inner (ps_outer (enter_group inner acc))"
      and inner: "acc_ok ([], [], ?st) \<longrightarrow> level_gives (offers planning inbound self (via @ [i]) members) ([], [], ?st) inner_r"
      and IH: "acc_ok (add_unit inner_r acc) \<longrightarrow> level_gives (offers planning inbound self via rest) (add_unit inner_r acc) r"
    have "offers planning inbound self (via @ [i]) members = offers planning inbound self (via @ [i]) (g_members inner)"
      using order_set [of inner "ps_outer (enter_group inner acc)"] order by (intro offers_cong) (metis fst_conv)
    with inner have "grows (offers planning inbound self (via @ [i]) (g_members inner)) acc (add_unit inner_r acc)"
      unfolding add_unit_def
      by (intro nested_grows [where st = ?st]) (simp_all add: seen_of_def enter_group_def acc_ok_def collected_of_def)
    from step [OF this finite_offers finite_offers IH] offers_entered [OF entered]
    show "acc_ok acc \<longrightarrow> level_gives (offers planning inbound self via (written # rest)) acc r" by simp
  qed
  then show "acc_ok acc \<Longrightarrow> ?thesis" by simp
qed

lemma level_end_subset: "set (fst (level_end planning current acc)) \<subseteq> set (collected_of acc)"
proof -
  obtain units late st where acc: "acc = (units, late, st)" by (cases acc)
  define heads where "heads = map (head_of (\<lambda>c. pl_blocked planning c (ps_outer st))) units"
  define order where "order = fst (pl_weigh planning current heads (ps_outer st))"
  have "set order = set heads" unfolding order_def by (metis weigh_same set_mset_mset)
  moreover have "\<exists>unit \<in> set units. map_of (rev (zip heads units)) h = Some unit" if "h \<in> set heads" for h
  proof -
    have "h \<in> fst ` set (rev (zip heads units))" using that by (simp add: heads_def flip: set_map)
    then obtain unit where "map_of (rev (zip heads units)) h = Some unit"
      by (cases "map_of (rev (zip heads units)) h") (simp_all only: map_of_eq_None_iff not_None_eq, simp)
    moreover from this have "unit \<in> set units" using map_of_SomeD set_zip_rightD by fastforce
    ultimately show ?thesis by blast
  qed
  ultimately have "set (concat (map (\<lambda>h. case map_of (rev (zip heads units)) h of Some unit \<Rightarrow> unit | None \<Rightarrow> [h]) order))
      \<subseteq> set (concat units)" by fastforce
  then show ?thesis
    by (auto simp: acc level_end_def collected_of_def heads_def [symmetric] order_def [symmetric] Let_def
        case_prod_beta)
qed

text \<open>Every candidate a level gives was collected before, or is there by a way from its members.\<close>

definition reached :: "protocol \<Rightarrow> jstring \<Rightarrow> jstring list \<Rightarrow> jstring list \<Rightarrow> jstring list \<Rightarrow> candidate set" where
  "reached inbound self via path members = {d. \<exists>p. leads planning inbound self via members p d \<and> ca_path d = Some (path @ p)}"

lemma reached_mono: "set xs \<subseteq> set ys \<Longrightarrow> reached inbound self via path xs \<subseteq> reached inbound self via path ys"
  unfolding reached_def by (blast intro: leads_mono)

lemma reached_rest: "x \<in> reached inbound self via path rest \<Longrightarrow> x \<in> reached inbound self via path (written # rest)"
  using reached_mono [of rest "written # rest" inbound self via path] by auto

lemma reached_below:
  assumes "parseGroupMember written notListed = Some (GroupMember i)" "\<not> gives_nothing planning self via written"
    and "pl_group planning i = Some inner" "set members \<subseteq> set (g_members inner)"
  shows "reached inbound self (via @ [i]) (path @ [written]) members \<subseteq> reached inbound self via path (written # rest)"
proof
  fix d assume "d \<in> reached inbound self (via @ [i]) (path @ [written]) members"
  then obtain p where p: "leads planning inbound self (via @ [i]) (g_members inner) p d" "ca_path d = Some (path @ written # p)"
    unfolding reached_def using leads_mono [OF assms(4), of planning inbound self "via @ [i]" _ d] by auto
  then have "leads planning inbound self via (written # rest) (written # p) d"
    using assms(1-3) by (cases p) (auto simp: gives_nothing_def)
  with p(2) show "d \<in> reached inbound self via path (written # rest)" by (auto simp: reached_def)
qed

lemma collected_skip [simp]: "collected_of (fst acc, fst (snd acc), st) = collected_of acc"
  by (simp add: collected_of_def)

lemma collected_add_unit: "set (collected_of (add_unit r acc)) = set (collected_of acc) \<union> set (fst r)"
  by (auto simp: collected_of_def add_unit_def)

lemma placed_ways:
  assumes "parseGroupMember written notListed = Some (ModelMember m)"
  shows "set (collected_of (place_model hostname (pl_provider planning) inbound weighed path written (mm_provider m) acc)) \<subseteq>
    set (collected_of acc) \<union> reached inbound self via path (written # rest)"
proof -
  have "d \<in> reached inbound self via path (written # rest)"
    if "gives_candidate (pl_provider planning) inbound written d" "ca_path d = Some (path @ [written])" for d
    using that by (auto simp: reached_def intro!: exI [of _ "[written]"])
  with place_model_ok [of acc "\<lambda>d. d \<in> set (collected_of acc) \<union> reached inbound self via path (written # rest)" written m
      "pl_provider planning" inbound path hostname weighed] assms
  show ?thesis by blast
qed

lemma level_ways:
  "set (fst (level hostname planning inbound self current via path members acc)) \<subseteq>
     set (collected_of acc) \<union> reached inbound self via path members"
proof (rule level_induct [where P = "\<lambda>current via path members acc r.
    set (fst r) \<subseteq> set (collected_of acc) \<union> reached inbound self via path members"])
  show "set (fst (level_end planning current acc)) \<subseteq> set (collected_of acc) \<union> reached inbound self via path []" for current via path acc
    using level_end_subset by blast
next
  fix via path written rest and acc :: "'s collected" and reason and r :: "candidate list \<times> 's plan_state"
  assume "set (fst r) \<subseteq> set (collected_of (fst acc, fst (snd acc), skip reason (snd (snd acc)))) \<union> reached inbound self via path rest"
  then show "set (fst r) \<subseteq> set (collected_of acc) \<union> reached inbound self via path (written # rest)" by (auto intro: reached_rest)
next
  fix current :: route_group and via path written rest and acc :: "'s collected" and m and r :: "candidate list \<times> 's plan_state"
  assume "parseGroupMember written notListed = Some (ModelMember m)"
    and "set (fst r) \<subseteq> set (collected_of (place_model hostname (pl_provider planning) inbound (g_strategy current \<in> set WEIGHED)
      path written (mm_provider m) acc)) \<union> reached inbound self via path rest"
  with placed_ways
  show "set (fst r) \<subseteq> set (collected_of acc) \<union> reached inbound self via path (written # rest)" by (blast intro: reached_rest)
next
  fix via path written rest and acc :: "'s collected" and i inner outer members and inner_r r :: "candidate list \<times> 's plan_state"
  assume entered: "parseGroupMember written notListed = Some (GroupMember i)" "\<not> gives_nothing planning self via written"
      "pl_group planning i = Some inner"
    and order: "(members, outer) = pl_order planning inner (ps_outer (enter_group inner acc))"
  have "set members = set (g_members inner)" using order_set [of inner "ps_outer (enter_group inner acc)"] order by (metis fst_conv)
  then have below: "reached inbound self (via @ [i]) (path @ [written]) members \<subseteq> reached inbound self via path (written # rest)"
    by (intro reached_below [OF entered]) simp
  assume "set (fst inner_r) \<subseteq> set (collected_of ([], [], (enter_group inner acc)\<lparr>ps_outer := outer\<rparr>)) \<union>
      reached inbound self (via @ [i]) (path @ [written]) members"
  then have inner: "set (fst inner_r) \<subseteq> reached inbound self via path (written # rest)"
    using below by (simp add: collected_of_def)
  assume "set (fst r) \<subseteq> set (collected_of (add_unit inner_r acc)) \<union> reached inbound self via path rest"
  with inner show "set (fst r) \<subseteq> set (collected_of acc) \<union> reached inbound self via path (written # rest)"
    unfolding collected_add_unit by (blast intro: reached_rest)
qed

end

end
