(* ===== verification/RouterPlans.thy ===== *)
theory RouterPlans
  imports Router GroupPlanProps "HOL-Library.Product_Lexorder"
begin

text \<open>
  The router as what a plan weighs with: it keeps the two laws of \<open>group_planning\<close>, so what the plan of
  a group is, is known whatever the strategy (\<open>plan\<close> in \<open>packages/gateway/src/server.ts\<close>).
\<close>

section \<open>The planning of the gateway\<close>

text \<open>
  \<open>list_calls\<close> is the ledger a \<open>least-used\<close> group is first seeded from, \<open>provider_of\<close> and \<open>group_of\<close>
  the store's lookups (a visible automatic group among them), \<open>blocked\<close> the breakers' answer.
\<close>

definition router_planning ::
    "(nat \<Rightarrow> jstring option \<Rightarrow> (ledger_call list \<times> jstring option) option) \<Rightarrow>
     (jstring \<Rightarrow> provider option) \<Rightarrow> (jstring \<Rightarrow> route_group option) \<Rightarrow> (candidate \<Rightarrow> bool) \<Rightarrow> real \<Rightarrow>
     router planning" where
  "router_planning list_calls provider_of group_of blocked now =
     \<lparr>pl_provider = provider_of, pl_group = group_of, pl_order = order,
      pl_weigh = (\<lambda>grp cs rt.
        let rt = (if g_strategy grp = LeastUsed
          then (case seed list_calls now rt of Some rt' \<Rightarrow> rt' | None \<Rightarrow> rt) else rt)
        in (weigh (Some grp) cs now rt, rt)),
      pl_blocked = (\<lambda>c _. blocked c)\<rparr>"

datatype plan_error = ModelInvalid | ModelNotFound

record call_plan =
  cp_candidates :: "candidate list"
  cp_skipped :: "skip_reason list"
  cp_unlisted :: nat
  cp_unlistedTried :: bool
  cp_group :: "route_group option"
  cp_groups :: "(jstring, route_group) jmap"

definition plan ::
    "(jstring \<Rightarrow> jstring option) \<Rightarrow> router planning \<Rightarrow> jstring \<Rightarrow> protocol \<Rightarrow> router \<Rightarrow>
     (plan_error + call_plan) \<times> router" where
  "plan hostname planning requested inbound rt =
     (case parseModelRef requested of
        None \<Rightarrow> (Inl ModelInvalid, rt)
      | Some (RefModel m) \<Rightarrow>
          (case pl_provider planning (mr_provider m) of
             None \<Rightarrow> (Inl ModelNotFound, rt)
           | Some found \<Rightarrow>
               (let r = modelCandidates found (mr_model m) inbound
                in (Inr \<lparr>cp_candidates = mc_candidates r, cp_skipped = mc_skipped r,
                  cp_unlisted = mc_unlisted r, cp_unlistedTried = mc_unlistedTried r,
                  cp_group = None, cp_groups = []\<rparr>, rt)))
      | Some (RefGroup g) \<Rightarrow>
          (case pl_group planning g of
             None \<Rightarrow> (Inl ModelNotFound, rt)
           | Some grp \<Rightarrow>
               (let (candidates, st) = planGroup hostname planning grp inbound rt
                in (Inr \<lparr>cp_candidates = candidates, cp_skipped = ps_skipped st,
                  cp_unlisted = ps_unlisted st, cp_unlistedTried = ps_unlistedTried st,
                  cp_group = Some grp, cp_groups = ps_groups st\<rparr>, ps_outer st))))"

section \<open>Weighing is a permutation\<close>

lemma sort_by_key: "(\<And>a b. lt a b \<longleftrightarrow> key a < key b) \<Longrightarrow> sort_by lt xs = sort_key key xs"
proof -
  assume lt: "\<And>a b. lt a b \<longleftrightarrow> (key a :: 'b :: linorder) < key b"
  have "insert_by lt x ys = insort_key key x ys" for x ys
    by (induction ys) (auto simp: lt not_less)
  then show ?thesis by (induction xs) (simp_all add: sort_by_def)
qed

lemma usage_key: "sort_by usage_less = sort_key (\<lambda>e. (rk_share e, rk_tokens e, rk_index e))"
  by (rule ext, rule sort_by_key) (auto simp: usage_less_def less_prod_def)

lemma share_key: "sort_by share_less = sort_key (\<lambda>e. (rk_share e, rk_index e))"
  by (rule ext, rule sort_by_key) (auto simp: share_less_def less_prod_def)

lemma mset_band_loop: "mset (band_loop pace es banded band top_pace) = mset es + mset banded + mset band"
  by (induction pace es banded band top_pace rule: band_loop.induct) (auto simp: Let_def)

lemma mset_tiers:
  assumes "\<And>x. x \<in> set xs \<Longrightarrow> (P x \<and> \<not> Q x \<and> \<not> R x) \<or> (\<not> P x \<and> Q x \<and> \<not> R x) \<or> (\<not> P x \<and> \<not> Q x \<and> R x)"
  shows "mset (filter P xs) + mset (filter Q xs) + mset (filter R xs) = mset xs"
  using assms by (induction xs) auto

lemma map_rank [simp]: "map rk_candidate (rank now rt cs) = cs"
  by (simp add: rank_def comp_def case_prod_beta)

lemma rank_facts:
  "e \<in> set (rank now rt cs) \<Longrightarrow> rk_share e = share (rk_candidate e) now rt \<and>
    rk_tokens e = tokens (rk_candidate e) now rt"
  by (auto simp: rank_def)

definition tier :: "int \<Rightarrow> nat" where
  "tier s = (if s < SHARE_LOW then 0 else if s < SHARE_SPENT then 1 else 2)"

lemma sorted_by_share: "sorted (map rk_share (sort_by share_less xs))"
proof -
  let ?keys = "map (\<lambda>e. (rk_share e, rk_index e)) (sort_by share_less xs)"
  have "sorted ?keys" by (simp add: share_key)
  then have "sorted (map fst ?keys)"
    by (rule sorted_map_mono) (auto simp: mono_on_def less_eq_prod_def)
  then show ?thesis by (simp add: comp_def)
qed

text \<open>The candidates of the three tiers, in the order of each.\<close>

lemma weigh_split:
  assumes "grp = Some g" "g_strategy g \<in> {Smart, Pace}" "2 \<le> length cs"
  shows "\<exists>fine low spent. weigh grp cs now rt = map rk_candidate (fine @ low @ spent) \<and>
    mset (fine @ low @ spent) = mset (rank now rt cs) \<and>
    (\<forall>e \<in> set fine. tier (rk_share e) = 0) \<and> (\<forall>e \<in> set low. tier (rk_share e) = 1) \<and>
    (\<forall>e \<in> set spent. tier (rk_share e) = 2) \<and>
    sorted (map rk_share low) \<and> sorted (map rk_share spent)"
proof -
  let ?ranked = "rank now rt cs"
  let ?fine = "filter (\<lambda>e. rk_share e < SHARE_LOW) ?ranked"
  let ?low = "sort_by share_less (filter (\<lambda>e. rk_share e \<ge> SHARE_LOW \<and> rk_share e < SHARE_SPENT) ?ranked)"
  let ?spent = "sort_by share_less (filter (\<lambda>e. rk_share e \<ge> SHARE_SPENT) ?ranked)"
  let ?ordered_fine = "if g_strategy g = Smart
      then sort_by (smart_less (\<lambda>e. renewals (rk_candidate e) now rt)) ?fine
      else sort_key rk_index (filter rk_learns ?fine) @
        band_loop (\<lambda>e. pace_of (rk_candidate e) now rt)
          (sort_by (pace_less (\<lambda>e. pace_of (rk_candidate e) now rt)) (filter (\<lambda>e. \<not> rk_learns e) ?fine)) [] [] 0"
  have fine: "mset ?ordered_fine = mset ?fine"
  proof -
    have "mset (filter rk_learns ?fine) + mset (filter (\<lambda>e. \<not> rk_learns e) ?fine) = mset ?fine"
      by (simp only: mset_filter multiset_partition [symmetric])
    then show ?thesis by (simp add: mset_band_loop del: filter_filter mset_filter)
  qed
  have "mset ?fine + mset ?low + mset ?spent = mset ?ranked"
    by (simp only: mset_sort_by, rule mset_tiers) (auto simp: SHARE_LOW_def SHARE_SPENT_def)
  with fine have all: "mset (?ordered_fine @ ?low @ ?spent) = mset ?ranked" by (simp add: add.assoc)
  have "weigh grp cs now rt = map rk_candidate (?ordered_fine @ ?low @ ?spent)"
    using assms by (auto simp: weigh_def Let_def)
  moreover have "\<forall>e \<in> set ?ordered_fine. tier (rk_share e) = 0"
    using mset_eq_setD [OF fine] by (simp add: tier_def)
  moreover have "\<forall>e \<in> set ?low. tier (rk_share e) = 1" "\<forall>e \<in> set ?spent. tier (rk_share e) = 2"
    by (auto simp: tier_def SHARE_LOW_def SHARE_SPENT_def)
  ultimately show ?thesis using all sorted_by_share by blast
qed

lemma weigh_cases:
  "weigh grp cs now rt = cs \<or>
   (\<exists>g. grp = Some g \<and> 2 \<le> length cs \<and> (g_strategy g = LeastUsed \<or> g_strategy g \<in> {Smart, Pace}))"
  by (cases grp) (auto simp: weigh_def)

lemma weigh_least_used:
  assumes "grp = Some g" "g_strategy g = LeastUsed" "2 \<le> length cs"
  shows "weigh grp cs now rt =
    map rk_candidate (sort_key (\<lambda>e. (rk_share e, rk_tokens e, rk_index e)) (rank now rt cs))"
  using assms by (simp add: weigh_def Let_def usage_key)

lemma mset_rank [simp]: "image_mset rk_candidate (mset (rank now rt cs)) = mset cs"
  by (simp flip: mset_map)

lemma mset_weigh [simp]: "mset (weigh grp cs now rt) = mset cs"
proof -
  consider "weigh grp cs now rt = cs"
    | g where "grp = Some g" "2 \<le> length cs" "g_strategy g = LeastUsed"
    | g where "grp = Some g" "2 \<le> length cs" "g_strategy g \<in> {Smart, Pace}"
    using weigh_cases [of grp cs now rt] by blast
  then show ?thesis
  proof cases
    case 2
    then show ?thesis by (simp add: weigh_least_used)
  next
    case 3
    then obtain es where "weigh grp cs now rt = map rk_candidate es" "mset es = mset (rank now rt cs)"
      using weigh_split by blast
    then show ?thesis by (metis mset_map mset_rank)
  qed simp
qed

lemma mset_order [simp]: "mset (fst (order grp rt)) = mset (g_members grp)"
proof -
  have "mset (drop n xs @ take n xs) = mset xs" for n and xs :: "jstring list"
    by (metis append_take_drop_id mset_append union_commute)
  then show ?thesis by (simp add: order_def Let_def split: strategy.split)
qed

text \<open>The router keeps the laws a plan relies on.\<close>

interpretation rp: group_planning "router_planning list_calls provider_of group_of blocked now"
  for list_calls provider_of group_of blocked now
  by unfold_locales (simp_all add: router_planning_def Let_def)

end
