(* ===== verification/RouterProps.thy ===== *)
theory RouterProps
  imports RouterPlans Machines
begin

text \<open>
  What a plan holds and how the router orders it; the readings the router keeps over any sequence of
  its operations, and that its start from the ledger ends.
\<close>

section \<open>Plans\<close>

lemma planGroup_gives:
  "distinct (map ckey (fst (planGroup hostname (router_planning list_calls provider_of group_of blocked now) grp inbound rt))) \<and>
   ckey ` set (fst (planGroup hostname (router_planning list_calls provider_of group_of blocked now) grp inbound rt)) =
     offers (router_planning list_calls provider_of group_of blocked now) inbound (g_id grp) [] (g_members grp)"
proof -
  let ?pl = "router_planning list_calls provider_of group_of blocked now"
  define ordered where "ordered = pl_order ?pl grp rt"
  define acc :: "router collected" where
    "acc = ([], [], \<lparr>ps_skipped = [], ps_unlisted = 0, ps_unlistedTried = False, ps_groups = [],
       ps_seen = [], ps_outer = snd ordered\<rparr>)"
  define r where "r = level hostname ?pl inbound (g_id grp) grp [] [] (fst ordered) acc"
  let ?offers = "offers ?pl inbound (g_id grp) [] (fst ordered)"
  have ok: "acc_ok acc" by (simp add: acc_def acc_ok_def collected_of_def)
  have "mset (map ckey (fst r)) = mset_set ?offers"
    using rp.level_all [where list_calls = list_calls and provider_of = provider_of and group_of = group_of and
        blocked = blocked and now = now, OF ok, where inbound = inbound and self = "g_id grp" and via = "[]"
        and members = "fst ordered" and hostname = hostname and current = grp and path = "[]"]
    by (simp add: rp.level_gives_def r_def acc_def collected_of_def seen_of_def)
  moreover obtain ks where "set ks = ?offers" "distinct ks" using finite_distinct_list finite_offers by metis
  ultimately have "mset (map ckey (fst r)) = mset ks" by (metis mset_set_set)
  then have "distinct (map ckey (fst r)) \<and> set (map ckey (fst r)) = set ks"
    using \<open>distinct ks\<close> mset_eq_imp_distinct_iff mset_eq_setD by blast
  moreover have "?offers = offers ?pl inbound (g_id grp) [] (g_members grp)"
    by (rule offers_cong) (simp add: ordered_def rp.order_set)
  moreover have "planGroup hostname ?pl grp inbound rt = r"
    by (simp add: planGroup_def ordered_def r_def acc_def Let_def)
  ultimately show ?thesis using \<open>set ks = ?offers\<close> by simp
qed

text \<open>
  C23: the plan of a group is complete, whatever the strategies on the way: it holds each model its
  members lead to, through each credential that can serve it, at each effort asked, exactly once,
  and nothing else. Ordering and weighing lose and repeat nothing.
\<close>

theorem plan_is_complete:
  "distinct (map ckey (fst (planGroup hostname (router_planning list_calls provider_of group_of blocked now) grp inbound rt))) \<and>
   ckey ` set (fst (planGroup hostname (router_planning list_calls provider_of group_of blocked now) grp inbound rt)) =
     offers (router_planning list_calls provider_of group_of blocked now) inbound (g_id grp) [] (g_members grp)"
  by (rule planGroup_gives)

text \<open>
  Every candidate of a plan carries the way it was reached: stored groups, none the group itself
  and none twice, at most eight of them, then a member whose model, effort and fast mode it is.
\<close>

theorem plan_ways:
  assumes "c \<in> set (fst (planGroup hostname (router_planning list_calls provider_of group_of blocked now) grp inbound rt))"
  shows "\<exists>p. ca_path c = Some p \<and> length p \<le> GROUP_NEST_LIMIT + 1 \<and>
    leads (router_planning list_calls provider_of group_of blocked now) inbound (g_id grp) [] (g_members grp) p c"
proof -
  let ?pl = "router_planning list_calls provider_of group_of blocked now"
  let ?good = "\<lambda>d. \<exists>p. ca_path d = Some p \<and> leads ?pl inbound (g_id grp) [] (g_members grp) p d"
  let ?ordered = "fst (pl_order ?pl grp rt)"
  let ?acc = "([], [], \<lparr>ps_skipped = [], ps_unlisted = 0, ps_unlistedTried = False, ps_groups = [], ps_seen = [],
    ps_outer = snd (pl_order ?pl grp rt)\<rparr>)"
  have plan: "planGroup hostname ?pl grp inbound rt = level hostname ?pl inbound (g_id grp) grp [] [] ?ordered ?acc"
    by (simp add: planGroup_def Let_def)
  have collected: "collected_of ?acc = []" by (simp add: collected_of_def)
  have "?good d" if "d \<in> set (fst (planGroup hostname ?pl grp inbound rt))" for d
  proof -
    from that rp.level_ways [of hostname list_calls provider_of group_of blocked now inbound "g_id grp" grp "[]" "[]" ?ordered ?acc]
    have "d \<in> rp.reached list_calls provider_of group_of blocked now inbound (g_id grp) [] [] ?ordered"
      unfolding plan collected by auto
    then obtain p where "leads ?pl inbound (g_id grp) [] ?ordered p d" "ca_path d = Some p"
      by (auto simp: rp.reached_def)
    with leads_mono [of ?ordered "g_members grp", OF _ this(1)] rp.order_set show ?thesis by auto
  qed
  with assms obtain p where p: "ca_path c = Some p" "leads ?pl inbound (g_id grp) [] (g_members grp) p c" by blast
  with leads_length [OF p(2)] show ?thesis by auto
qed

theorem plan_ways_witness:
  "\<exists>c \<in> set (fst (planGroup (\<lambda>_. None) (router_planning (\<lambda>_ _. None)
      (\<lambda>_. Some (demo_provider ''p'' [demo_credential ''k'' None])) (\<lambda>_. None) (\<lambda>_. False) 0)
      (demo_group ''a'' [''p/m'']) Chat new_router)). \<exists>p. ca_path c = Some p \<and> length p \<le> 9"
proof -
  let ?pl = "router_planning (\<lambda>_ _. None) (\<lambda>_. Some (demo_provider ''p'' [demo_credential ''k'' None]))
    (\<lambda>_. None) (\<lambda>_. False) 0"
  have "mc_candidates (modelCandidates (demo_provider ''p'' [demo_credential ''k'' None]) (js ''m'') Chat) \<noteq> []"
    by (simp add: demo_candidates)
  then have "offers ?pl Chat (js ''a'') [] [js ''p/m''] \<noteq> {}"
    by (simp add: member_offers_def router_planning_def member_eval demo_provider_def)
  then obtain c where "c \<in> set (fst (planGroup (\<lambda>_. None) ?pl (demo_group ''a'' [''p/m'']) Chat new_router))"
    using planGroup_gives [of "\<lambda>_. None" "\<lambda>_ _. None" "\<lambda>_. Some (demo_provider ''p'' [demo_credential ''k'' None])"
      "\<lambda>_. None" "\<lambda>_. False" 0 "demo_group ''a'' [''p/m'']" Chat new_router]
    by (fastforce simp: demo_group_def)
  with plan_ways [OF this] show ?thesis by (auto simp: GROUP_NEST_LIMIT_def)
qed

section \<open>The order of candidates\<close>

text \<open>
  Weighing only orders. \<open>least-used\<close> goes by the share of the allowance used, then by the tokens
  served; \<open>smart\<close> and \<open>pace\<close> never put an account whose allowance is low before one that is fine, nor
  one that is spent before one that is not, and within the low and the spent the less used comes
  first.
\<close>

theorem weigh_by_allowance:
  "mset (weigh (Some g) cs now rt) = mset cs \<and>
   (g_strategy g = LeastUsed \<longrightarrow>
      sorted_wrt (\<lambda>c d. share c now rt < share d now rt \<or>
        share c now rt = share d now rt \<and> tokens c now rt \<le> tokens d now rt) (weigh (Some g) cs now rt)) \<and>
   (g_strategy g \<in> {Smart, Pace} \<longrightarrow>
      sorted_wrt (\<lambda>c d. tier (share c now rt) < tier (share d now rt) \<or>
        tier (share c now rt) = tier (share d now rt) \<and>
        (tier (share c now rt) = 0 \<or> share c now rt \<le> share d now rt)) (weigh (Some g) cs now rt))"
proof -
  consider "length cs < 2" | "2 \<le> length cs" by linarith
  then show ?thesis
  proof cases
    case 1
    then have "weigh (Some g) cs now rt = cs" by (auto simp: weigh_def)
    moreover from 1 have "sorted_wrt P cs" for P by (cases cs) auto
    ultimately show ?thesis by simp
  next
    case 2
    have least: "sorted_wrt (\<lambda>c d. share c now rt < share d now rt \<or>
        share c now rt = share d now rt \<and> tokens c now rt \<le> tokens d now rt) (weigh (Some g) cs now rt)"
      if strategy: "g_strategy g = LeastUsed"
    proof -
      let ?key = "\<lambda>e. (rk_share e, rk_tokens e, rk_index e)" and ?ranked = "rank now rt cs"
      have "sorted (map ?key (sort_key ?key ?ranked))" by simp
      then have "sorted_wrt (\<lambda>e f. ?key e \<le> ?key f) (sort_key ?key ?ranked)" by (simp only: sorted_map)
      then have "sorted_wrt (\<lambda>e f. share (rk_candidate e) now rt < share (rk_candidate f) now rt \<or>
          share (rk_candidate e) now rt = share (rk_candidate f) now rt \<and>
          tokens (rk_candidate e) now rt \<le> tokens (rk_candidate f) now rt) (sort_key ?key ?ranked)"
        by (rule sorted_wrt_mono_rel [rotated])
          (auto simp: less_eq_prod_def less_prod_def rank_facts)
      then show ?thesis
        by (simp add: weigh_least_used [OF refl strategy 2] sorted_wrt_map)
    qed
    have tiers: "sorted_wrt (\<lambda>c d. tier (share c now rt) < tier (share d now rt) \<or>
        tier (share c now rt) = tier (share d now rt) \<and>
        (tier (share c now rt) = 0 \<or> share c now rt \<le> share d now rt)) (weigh (Some g) cs now rt)"
      if strategy: "g_strategy g \<in> {Smart, Pace}"
    proof -
      obtain fine low spent where split: "weigh (Some g) cs now rt = map rk_candidate (fine @ low @ spent)"
        "mset (fine @ low @ spent) = mset (rank now rt cs)"
        "\<forall>e \<in> set fine. tier (rk_share e) = 0" "\<forall>e \<in> set low. tier (rk_share e) = 1"
        "\<forall>e \<in> set spent. tier (rk_share e) = 2"
        "sorted (map rk_share low)" "sorted (map rk_share spent)"
        using weigh_split [OF refl strategy 2, of now rt] by blast
      have shares: "rk_share e = share (rk_candidate e) now rt" if "e \<in> set (fine @ low @ spent)" for e
        using that mset_eq_setD [OF split(2)] rank_facts by metis
      let ?R = "\<lambda>e f. tier (rk_share e) < tier (rk_share f) \<or> tier (rk_share e) = tier (rk_share f) \<and>
          (tier (rk_share e) = 0 \<or> rk_share e \<le> rk_share f)"
      have "sorted_wrt ?R fine"
        using split(3) by (auto simp: sorted_wrt_iff_nth_less)
      moreover have "sorted_wrt ?R low" "sorted_wrt ?R spent"
        using split(4-7) by (auto simp: sorted_wrt_iff_nth_less)
      ultimately have "sorted_wrt ?R (fine @ low @ spent)"
        using split(3-5) by (auto simp: sorted_wrt_append)
      then have "sorted_wrt (\<lambda>e f. tier (share (rk_candidate e) now rt) < tier (share (rk_candidate f) now rt) \<or>
          tier (share (rk_candidate e) now rt) = tier (share (rk_candidate f) now rt) \<and>
          (tier (share (rk_candidate e) now rt) = 0 \<or>
           share (rk_candidate e) now rt \<le> share (rk_candidate f) now rt)) (fine @ low @ spent)"
        by (rule sorted_wrt_mono_rel [rotated]) (simp only: shares)
      then show ?thesis by (simp only: split(1) sorted_wrt_map)
    qed
    show ?thesis using least tiers by simp
  qed
qed

theorem weigh_by_allowance_witness:
  "sorted_wrt (\<lambda>c d. share c 0 new_router < share d 0 new_router \<or>
      share c 0 new_router = share d 0 new_router \<and> tokens c 0 new_router \<le> tokens d 0 new_router)
    (weigh (Some ((demo_group ''a'' [])\<lparr>g_strategy := LeastUsed\<rparr>))
      (mc_candidates (modelCandidates (demo_provider ''p'' [demo_credential ''k'' None]) (js ''m'') Chat)) 0 new_router)"
  using weigh_by_allowance [of "(demo_group ''a'' [])\<lparr>g_strategy := LeastUsed\<rparr>"] by simp

end
