(* ===== verification/RouterState.thy ===== *)
theory RouterState
  imports RouterPlans Machines
begin

text \<open>
  The router over time: the turns of a \<open>rotate\<close> group, the bound on the allowance readings it keeps
  under every sequence of its operations, readings surviving a restart, and that the start from the
  ledger ends.
\<close>

section \<open>Turns\<close>

fun turns :: "nat \<Rightarrow> route_group \<Rightarrow> router \<Rightarrow> jstring list list" where
  "turns 0 grp rt = []"
| "turns (Suc n) grp rt = fst (order grp rt) # turns n grp (snd (order grp rt))"

definition turn_of :: "route_group \<Rightarrow> router \<Rightarrow> nat" where
  "turn_of grp rt = (case jget (rt_rotation rt) (g_id grp) of Some t \<Rightarrow> t | None \<Rightarrow> 0)"

lemma order_rotate:
  assumes "g_strategy grp = Rotate"
  shows "fst (order grp rt) = rotate (turn_of grp rt) (g_members grp)"
    and "turn_of grp (snd (order grp rt)) = Suc (turn_of grp rt)"
  using assms
  by (simp_all add: order_def turn_of_def rotate_drop_take Let_def)

lemma turns_rotate:
  "g_strategy grp = Rotate \<Longrightarrow>
   turns n grp rt = map (\<lambda>k. rotate (turn_of grp rt + k) (g_members grp)) [0..<n]"
proof (induction n arbitrary: rt)
  case (Suc n)
  have "map (\<lambda>k. rotate (turn_of grp rt + k) (g_members grp)) [0..<Suc n] =
      rotate (turn_of grp rt) (g_members grp) # map (\<lambda>k. rotate (turn_of grp rt + Suc k) (g_members grp)) [0..<n]"
    by (simp only: upt_conv_Cons map_Suc_upt [symmetric]) (simp add: comp_def)
  with Suc show ?case by (simp add: order_rotate)
qed simp

lemma heads_rotate: "xs \<noteq> [] \<Longrightarrow> map (\<lambda>k. hd (rotate (t + k) xs)) [0..<length xs] = rotate t xs"
  by (rule nth_equalityI) (simp_all add: hd_rotate_conv_nth nth_rotate)

text \<open>
  A \<open>rotate\<close> group is fair: in as many calls as it has members, each member comes first exactly
  once, whenever one starts to count.
\<close>

theorem rotate_is_fair:
  assumes "g_strategy grp = Rotate" "g_members grp \<noteq> []"
  shows "mset (map hd (turns (length (g_members grp)) grp rt)) = mset (g_members grp)"
proof -
  have "map hd (turns (length (g_members grp)) grp rt) = rotate (turn_of grp rt) (g_members grp)"
    using heads_rotate [OF assms(2)] by (simp add: turns_rotate [OF assms(1)] comp_def)
  moreover have "mset (rotate t xs) = mset xs" for t and xs :: "jstring list"
    by (metis append_take_drop_id mset_append rotate_drop_take union_commute)
  ultimately show ?thesis by simp
qed

definition demo_rotating :: route_group where
  "demo_rotating = \<lparr>g_id = js ''r'', g_strategy = Rotate, g_stickiness = StickAuto,
     g_members = [js ''a'', js ''b'', js ''c''], g_retry = None, g_rules = None, g_classifier = None,
     g_effortAuto = False\<rparr>"

theorem rotate_is_fair_witness:
  "mset (map hd (turns 3 demo_rotating new_router)) = {#js ''a'', js ''b'', js ''c''#}"
  using rotate_is_fair [of demo_rotating new_router]
  by (simp add: demo_rotating_def numeral_3_eq_3 add_mset_commute)

section \<open>The readings kept\<close>

definition windows_inv :: "windows \<Rightarrow> bool" where
  "windows_inv w \<longleftrightarrow> jwf w \<and> length w \<le> MAX_WINDOWS \<and> (\<forall>(name, r) \<in> set w. rd_window r = name)"

definition router_inv :: "router \<Rightarrow> bool" where
  "router_inv rt \<longleftrightarrow> jwf (rt_readings rt) \<and> (\<forall>(key, w) \<in> set (rt_readings rt). windows_inv w)"

lemma windows_inv_Nil [simp]: "windows_inv []"
  by (simp add: windows_inv_def)

lemma windows_inv_filter: "windows_inv w \<Longrightarrow> windows_inv (filter P w)"
  by (auto simp: windows_inv_def jwf_def distinct_map_filter intro: order_trans [OF length_filter_le])

lemma windows_inv_jset:
  assumes "windows_inv w" "jget w (rd_window r) \<noteq> None \<or> length w < MAX_WINDOWS"
  shows "windows_inv (jset (rd_window r) r w)"
proof -
  have "length (jset (rd_window r) r w) \<le> MAX_WINDOWS"
    using assms by (auto simp: windows_inv_def length_jset map_of_eq_None_iff dest: map_of_SomeD)
  with assms(1) set_jset_sub [of "rd_window r" r w] show ?thesis by (fastforce simp: windows_inv_def)
qed

lemma windows_inv_keep: "windows_inv w \<Longrightarrow> windows_inv (fst (keepReading w r now))"
  by (auto simp: keepReading_def Let_def intro!: windows_inv_jset windows_inv_filter)

lemma windows_of_inv: "router_inv rt \<Longrightarrow> windows_inv (windows_of rt key)"
  by (auto simp: router_inv_def windows_of_def split: option.split dest!: map_of_SomeD)

datatype router_op =
    Order route_group
  | Report candidate "reading list" real
  | Restore "stored_reading list" real
  | RecordCall candidate real "real option" real
  | TakeChanges
  | Seed "nat \<Rightarrow> jstring option \<Rightarrow> (ledger_call list \<times> jstring option) option" real

datatype router_result = Members "jstring list" | Changed bool | NoResult

fun router_step :: "router_op \<Rightarrow> router \<Rightarrow> router_result \<times> router" where
  "router_step (Order grp) rt = (Members (fst (order grp rt)), snd (order grp rt))"
| "router_step (Report c rs now) rt = (NoResult, report c rs now rt)"
| "router_step (Restore stored now) rt = (NoResult, restore stored now rt)"
| "router_step (RecordCall c amount ms now) rt = (NoResult, record_call c amount ms now rt)"
| "router_step TakeChanges rt = (Changed (fst (takeChanges rt)), snd (takeChanges rt))"
| "router_step (Seed list_calls now) rt =
     (NoResult, case seed list_calls now rt of Some rt' \<Rightarrow> rt' | None \<Rightarrow> rt)"

text \<open>The moves: the windows of one credential after a reading came in, or anything but the readings.\<close>

definition router_move :: "router \<Rightarrow> router \<Rightarrow> bool" where
  "router_move rt rt' \<longleftrightarrow> rt_readings rt' = rt_readings rt \<or>
     (\<exists>key r now. rt_readings rt' = jset key (fst (keepReading (windows_of rt key) r now)) (rt_readings rt)) \<or>
     (\<exists>key. rt_readings rt' = jset key (windows_of rt key) (rt_readings rt))"

lemma router_move_inv: "router_inv rt \<Longrightarrow> router_move rt rt' \<Longrightarrow> router_inv rt'"
proof -
  assume inv: "router_inv rt" and move: "router_move rt rt'"
  have "router_inv rt'" if "rt_readings rt' = jset key w (rt_readings rt)" "windows_inv w" for key w
    using that inv set_jset_sub [of key w "rt_readings rt"] by (fastforce simp: router_inv_def)
  moreover have "router_inv rt'" if "rt_readings rt' = rt_readings rt" using that inv by (simp add: router_inv_def)
  ultimately show ?thesis using move inv windows_of_inv windows_inv_keep by (metis router_move_def)
qed

lemma jset_jset [simp]: "jset k v (jset k w m) = jset k v m"
  by (induction m rule: jset.induct) auto

lemma windows_of_jset [simp]:
  "windows_of (rt\<lparr>rt_readings := jset key w m\<rparr>) key' = (if key' = key then w else windows_of (rt\<lparr>rt_readings := m\<rparr>) key')"
  by (simp add: windows_of_def)

lemma report_moves: "router_move\<^sup>*\<^sup>* rt (report c rs now rt)"
proof (cases "rs = []")
  case False
  define key where "key = credentialKey c"
  define at_key where "at_key w = rt\<lparr>rt_readings := jset key w (rt_readings rt)\<rparr>" for w
  have one: "router_move (at_key w) (at_key (fst (keepReading w r now)))" for w r
    by (auto simp: router_move_def at_key_def)
  have loop: "router_move\<^sup>*\<^sup>* (at_key (fst start)) (at_key (fst (report_all start rs now)))" for start rs
  proof (induction rs arbitrary: start)
    case (Cons r rs)
    have "router_move (at_key (fst start)) (at_key (fst (keepReading (fst start) r now)))" by (rule one)
    with Cons.IH [of "(fst (keepReading (fst start) r now), snd start \<or> snd (keepReading (fst start) r now))"]
    show ?case by (simp add: report_all_def case_prod_beta Let_def converse_rtranclp_into_rtranclp)
  qed (simp add: report_all_def)
  have "router_move rt (at_key (windows_of rt key))" by (auto simp: router_move_def at_key_def)
  moreover have "router_move\<^sup>*\<^sup>* (at_key (windows_of rt key))
      (at_key (fst (report_all (windows_of rt key, rt_changed rt) rs now)))"
    using loop [of "(windows_of rt key, rt_changed rt)" rs] by simp
  moreover have "router_move (at_key (fst (report_all (windows_of rt key, rt_changed rt) rs now))) (report c rs now rt)"
    using False by (simp add: report_def router_move_def at_key_def key_def Let_def case_prod_beta)
  ultimately show ?thesis by (meson converse_rtranclp_into_rtranclp rtranclp.rtrancl_into_rtrancl)
qed (simp add: report_def)

lemma restore_moves: "router_move\<^sup>*\<^sup>* rt (restore stored now rt)"
proof (induction stored arbitrary: rt)
  case (Cons s stored)
  have "router_move rt (restore_one now s rt)"
    unfolding restore_one_def router_move_def Let_def by (auto split: option.split)
  with Cons [of "restore_one now s rt"] show ?case
    by (simp add: restore_def converse_rtranclp_into_rtranclp)
qed (simp add: restore_def)

lemma seed_call_readings [simp]: "rt_readings (seed_call now rt entry) = rt_readings rt"
  by (simp add: seed_call_def add_served_def split: option.split)

lemma seed_calls_readings [simp]: "rt_readings (foldl (seed_call now) rt items) = rt_readings rt"
  by (induction items arbitrary: rt) simp_all

lemma seed_loop_readings:
  "seed_loop list_calls now cursor read rt = Some rt' \<Longrightarrow> rt_readings rt' = rt_readings rt"
proof (induction list_calls now cursor read rt rt' rule: seed_loop.raw_induct [rotated 1, consumes 1, case_names step])
  case (step rec list_calls now cursor read rt rt')
  note IH = step(1)
  from step(2) show ?case
    by (auto simp: Let_def split: option.splits if_splits) (drule IH, simp)
qed

lemma router_step_moves: "router_inv rt \<Longrightarrow> router_move\<^sup>*\<^sup>* rt (snd (router_step x rt))"
proof (cases x)
  case (Order grp)
  then show ?thesis
    by (intro r_into_rtranclp) (auto simp: router_move_def order_def Let_def split: strategy.split)
next
  case (RecordCall c amount ms now)
  then show ?thesis
    by (intro r_into_rtranclp)
      (auto simp: router_move_def record_call_def add_served_def Let_def split: option.split)
next
  case (Seed list_calls now)
  then show ?thesis
    by (intro r_into_rtranclp)
      (auto simp: router_move_def seed_def split: option.split dest: seed_loop_readings)
qed (simp_all add: report_moves restore_moves, simp add: router_move_def takeChanges_def r_into_rtranclp)

interpretation rts: machine router_step router_move router_inv
  by unfold_locales (blast intro: router_move_inv router_step_moves)+

text \<open>
  Whatever the upstreams report, in any order of reports, restores, calls and turns, no credential
  ever has more than \<open>MAX_WINDOWS\<close> windows, each under its own name once; a reading that comes in is
  kept unless sixteen other windows still count.
\<close>

theorem readings_stay_bounded:
  "length (windows_of (run_ops router_step ops new_router) key) \<le> MAX_WINDOWS \<and>
   distinct (map fst (windows_of (run_ops router_step ops new_router) key)) \<and>
   (snd (keepReading w r now) \<longleftrightarrow> jget (fst (keepReading w r now)) (rd_window r) = Some r) \<and>
   (\<not> snd (keepReading w r now) \<longrightarrow>
      MAX_WINDOWS \<le> length (filter (\<lambda>(name, known). name \<noteq> rd_window r \<and> current_reading known now) w))"
  (is "?bound \<and> ?distinct \<and> ?kept \<and> ?dropped")
proof -
  have "router_inv new_router" by (simp add: router_inv_def new_router_def)
  from windows_of_inv [OF rts.run_inv [OF this, of ops], of key] have "?bound \<and> ?distinct"
    by (simp add: windows_inv_def jwf_def)
  moreover have "jget (filter P w) k = None" if "jget w k = None" for P k
    using that by (auto simp: map_of_eq_None_iff)
  then have ?kept by (auto simp: keepReading_def Let_def)
  moreover have ?dropped
  proof
    assume "\<not> snd (keepReading w r now)"
    then have none: "jget w (rd_window r) = None"
      and full: "MAX_WINDOWS \<le> length (filter (\<lambda>(_, known). current_reading known now) w)"
      by (auto simp: keepReading_def Let_def split: if_splits)
    from none have "filter (\<lambda>(name, known). name \<noteq> rd_window r \<and> current_reading known now) w =
        filter (\<lambda>(_, known). current_reading known now) w"
      by (intro filter_cong) (force simp: map_of_eq_None_iff)+
    with full show "MAX_WINDOWS \<le> length (filter (\<lambda>(name, known). name \<noteq> rd_window r \<and> current_reading known now) w)"
      by simp
  qed
  ultimately show ?thesis by blast
qed

definition demo_reading :: "nat \<Rightarrow> reading" where
  "demo_reading i = \<lparr>rd_window = [i], rd_usedPercent = 50, rd_resetsAt = Some 10, rd_spanSeconds = None,
     rd_observedAt = 0\<rparr>"

theorem readings_stay_bounded_witness:
  "\<not> snd (keepReading (map (\<lambda>i. ([i], demo_reading i)) [0..<16]) (demo_reading 16) 0) \<and>
   length (filter (\<lambda>(name, known). name \<noteq> [16] \<and> current_reading known 0)
     (map (\<lambda>i. ([i], demo_reading i)) [0..<16])) \<ge> 16"
proof -
  let ?w = "map (\<lambda>i. ([i], demo_reading i)) [0..<16]"
  have "jget ?w [16] = None" by (auto simp: map_of_eq_None_iff)
  moreover have "filter (\<lambda>(_, known). current_reading known 0) ?w = ?w"
    by (auto simp: demo_reading_def current_reading_def filter_id_conv)
  ultimately have "\<not> snd (keepReading ?w (demo_reading 16) 0)"
    by (simp add: keepReading_def demo_reading_def MAX_WINDOWS_def Let_def)
  with readings_stay_bounded [of "[]" "[]" ?w "demo_reading 16" 0] show ?thesis
    by (simp add: MAX_WINDOWS_def demo_reading_def)
qed

section \<open>Starting from the ledger\<close>

lemma seed_loop_ends:
  assumes "\<And>limit cursor items next. list_calls limit cursor = Some (items, Some next) \<Longrightarrow> items \<noteq> []"
  shows "\<exists>rt'. seed_loop list_calls now cursor read rt = Some rt'"
proof (induction "USAGE_SEED_CALLS - read" arbitrary: cursor read rt rule: less_induct)
  case less
  show ?case
  proof (cases "list_calls (min 1000 (USAGE_SEED_CALLS - read)) cursor")
    case None
    then show ?thesis by (simp add: seed_loop.simps)
  next
    case (Some page)
    obtain items nextCursor where page: "page = (items, nextCursor)" by (cases page)
    show ?thesis
    proof (cases "nextCursor = None \<or> read + length items \<ge> USAGE_SEED_CALLS")
      case True
      then show ?thesis by (subst seed_loop.simps) (simp add: Some page Let_def)
    next
      case False
      then obtain next_page where "nextCursor = Some next_page" by auto
      then have "items \<noteq> []" using assms Some page by simp
      with False have "USAGE_SEED_CALLS - (read + length items) < USAGE_SEED_CALLS - read" by (cases items) auto
      from less [OF this] False show ?thesis by (subst seed_loop.simps) (simp add: Some page Let_def)
    qed
  qed
qed

lemma seed_loop_seeding: "seed_loop list_calls now cursor read rt = Some rt' \<Longrightarrow> rt_seeding rt' = rt_seeding rt"
proof (induction list_calls now cursor read rt rt' rule: seed_loop.raw_induct [rotated 1, consumes 1, case_names step])
  case (step rec list_calls now cursor read rt rt')
  have "rt_seeding (foldl (seed_call now) rt items) = rt_seeding rt" for items rt
    by (induction items arbitrary: rt) (simp_all add: seed_call_def add_served_def split: option.split)
  note calls = this and IH = step(1)
  from step(2) show ?case
    by (auto simp: Let_def calls split: option.splits if_splits) (drule IH, simp add: calls)+
qed

text \<open>
  C24: seeding ends, and runs once: if the store gives no empty page with a next cursor, the loop over
  its pages returns after at most 5,000 calls, also where a read fails; a second seeding changes
  nothing. (With an empty page that names a next cursor the loop asks again: it does not end.)
\<close>

theorem seeding_ends:
  assumes "\<And>limit cursor items next. list_calls limit cursor = Some (items, Some next) \<Longrightarrow> items \<noteq> []"
  shows "\<exists>rt'. seed list_calls now rt = Some rt' \<and> rt_seeding rt' \<and> seed list_calls' now' rt' = Some rt'"
proof (cases "rt_seeding rt")
  case False
  obtain rt' where "seed_loop list_calls now None 0 (rt\<lparr>rt_seeding := True\<rparr>) = Some rt'"
    using seed_loop_ends assms by blast
  with False seed_loop_seeding [OF this] show ?thesis by (simp add: seed_def)
qed (simp add: seed_def)

theorem seeding_ends_witness:
  "\<exists>rt'. seed (\<lambda>limit cursor. case cursor of
       None \<Rightarrow> Some ([\<lparr>lc_status = 200, lc_provider = Some [112], lc_credential = Some [107],
         lc_usage = None, lc_at = 0\<rparr>], Some [49])
     | Some _ \<Rightarrow> None) 0 new_router = Some rt'"
proof -
  let ?f = "\<lambda>limit :: nat. \<lambda>cursor. case cursor of
       None \<Rightarrow> Some ([\<lparr>lc_status = 200, lc_provider = Some [112], lc_credential = Some [107],
         lc_usage = None, lc_at = 0\<rparr>], Some [49])
     | Some (_ :: jstring) \<Rightarrow> None"
  have "items \<noteq> []" if "?f limit cursor = Some (items, Some next_page)" for limit cursor items next_page
    using that by (auto split: option.splits)
  then show ?thesis using seeding_ends [of ?f 0 new_router] by blast
qed

end
