(* ===== verification/Breakers.thy ===== *)
theory Breakers
  imports Candidates
begin

text \<open>
  Per-credential breakers and per-model marks (\<open>class Breakers\<close> of \<open>packages/gateway/src/routing.ts\<close>),
  which rest a credential that failed.

  Every operation takes the clock's reading (\<open>now\<close>, milliseconds). \<open>br_log\<close> holds the calls of the
  \<open>changed\<close> callback in their order; the text of a refusal is a constructor. \<open>keyId\<close> is the Gateway
  Key, \<open>None\<close> for the gateway's own requests. A credential's reference is compared as the pair of its
  kind and value, of which the code's \<open>credentialRef\<close> is the JSON text.
\<close>

record failure =
  fl_status :: int
  fl_code :: jstring
  fl_message :: jstring
  fl_contextOverflow :: bool

datatype breaker_effect = NoEffect | CountFailure | Cooldown real | AuthFailed | MarkModel real

datatype breaker_state = ClosedState | OpenState | HalfOpenState

record last_failure =
  lf_failure :: failure
  lf_class :: jstring
  lf_at :: real

record breaker =
  bk_state :: breaker_state
  bk_failures :: nat
  bk_opens :: nat
  bk_until :: real
  bk_probing :: bool
  bk_authRef :: "(jstring \<times> jstring) option"
  bk_provisional :: "jstring option"
  bk_last :: "last_failure option"

record mark =
  mk_until :: real
  mk_provisional :: "jstring option"

record breaker_change =
  bc_provider :: jstring
  bc_credential :: jstring
  bc_state :: breaker_state
  bc_until :: "real option"
  bc_reason :: jstring

record breakers =
  br_states :: "(jstring, breaker) jmap"
  br_marks :: "(jstring, mark) jmap"
  br_log :: "breaker_change list"

definition OPEN_MAX_MS :: real where "OPEN_MAX_MS = 600000"
definition PROVISIONAL_MS :: real where "PROVISIONAL_MS = 60000"

definition new_breakers :: breakers where
  "new_breakers = \<lparr>br_states = [], br_marks = [], br_log = []\<rparr>"

definition markKey :: "candidate \<Rightarrow> jstring" where
  "markKey c = credentialKey c @ 0 # ca_wireModel c"

definition credentialRef :: "credential \<Rightarrow> jstring \<times> jstring" where
  "credentialRef c = c_ref c"

definition key_text :: "jstring option \<Rightarrow> jstring" where
  "key_text keyId = (case keyId of Some k \<Rightarrow> k | None \<Rightarrow> [])"

definition markFor :: "candidate \<Rightarrow> jstring option \<Rightarrow> real \<Rightarrow> breakers \<Rightarrow> mark option" where
  "markFor c keyId now br =
     (case jget (br_marks br) (markKey c) of
        None \<Rightarrow> None
      | Some m \<Rightarrow>
          if mk_until m > now \<and> (mk_provisional m = None \<or> mk_provisional m = Some (key_text keyId))
          then Some m else None)"

definition report_change :: "candidate \<Rightarrow> breaker \<Rightarrow> jstring \<Rightarrow> breakers \<Rightarrow> breakers" where
  "report_change c b reason br =
     br\<lparr>br_log := br_log br @ [\<lparr>bc_provider = pv_id (ca_provider c), bc_credential = c_id (ca_credential c),
       bc_state = bk_state b, bc_until = (if bk_state b = OpenState then Some (bk_until b) else None),
       bc_reason = reason\<rparr>]\<rparr>"

definition put_state :: "candidate \<Rightarrow> breaker \<Rightarrow> breakers \<Rightarrow> breakers" where
  "put_state c b br = br\<lparr>br_states := jset (credentialKey c) b (br_states br)\<rparr>"

definition close_breaker :: "candidate \<Rightarrow> breaker \<Rightarrow> jstring \<Rightarrow> breakers \<Rightarrow> breakers" where
  "close_breaker c b reason br =
     report_change c (b\<lparr>bk_state := ClosedState, bk_failures := 0, bk_opens := 0\<rparr>) reason
       (br\<lparr>br_states := jdelete (credentialKey c) (br_states br)\<rparr>)"

definition opened :: "breaker \<Rightarrow> real option \<Rightarrow> real \<Rightarrow> breaker" where
  "opened b ms now =
     b\<lparr>bk_state := OpenState, bk_opens := bk_opens b + 1, bk_failures := 0,
       bk_until := now + (case ms of Some d \<Rightarrow> d | None \<Rightarrow> min (60000 * 2 ^ bk_opens b) OPEN_MAX_MS),
       bk_authRef := None\<rparr>"

definition open_breaker ::
    "candidate \<Rightarrow> breaker \<Rightarrow> real option \<Rightarrow> jstring \<Rightarrow> real \<Rightarrow> breakers \<Rightarrow> breakers" where
  "open_breaker c b ms reason now br =
     report_change c (opened b ms now) reason (put_state c (opened b ms now) br)"

section \<open>Asking\<close>

definition cooldown_text :: jstring where "cooldown_text = js ''cooldown''"
definition not_found_text :: jstring where "not_found_text = js ''model_not_found''"

definition restOf :: "candidate \<Rightarrow> jstring option \<Rightarrow> real \<Rightarrow> breakers \<Rightarrow> (real \<times> jstring) option" where
  "restOf c keyId now br =
     (case markFor c keyId now br of
        Some m \<Rightarrow> Some (mk_until m, not_found_text)
      | None \<Rightarrow>
          (case jget (br_states br) (credentialKey c) of
             Some b \<Rightarrow>
               if bk_state b = OpenState \<and> now < bk_until b
               then Some (bk_until b, case bk_last b of Some l \<Rightarrow> lf_class l | None \<Rightarrow> cooldown_text)
               else None
           | None \<Rightarrow> None))"

definition blocked :: "candidate \<Rightarrow> jstring option \<Rightarrow> real \<Rightarrow> breakers \<Rightarrow> bool" where
  "blocked c keyId now br \<longleftrightarrow>
     (markFor c keyId now br \<noteq> None \<or>
      (case jget (br_states br) (credentialKey c) of
         Some b \<Rightarrow> bk_state b = OpenState \<and> now < bk_until b
       | None \<Rightarrow> False))"

datatype refusal = MarkedUnavailable | BeingProbed | CoolingDown

datatype admission = Admitted | Refused refusal real "last_failure option"

definition admit ::
    "candidate \<Rightarrow> jstring option \<Rightarrow> real \<Rightarrow> breakers \<Rightarrow> admission \<times> breakers" where
  "admit c keyId now br =
     (case markFor c keyId now br of
        Some m \<Rightarrow> (Refused MarkedUnavailable (mk_until m) None, br)
      | None \<Rightarrow>
          (case jget (br_states br) (credentialKey c) of
             None \<Rightarrow> (Admitted, br)
           | Some b \<Rightarrow>
               if bk_state b = OpenState \<and> bk_authRef b \<noteq> None \<and>
                  bk_authRef b \<noteq> Some (credentialRef (ca_credential c))
               then (Admitted, close_breaker c b (js ''credential changed'') br)
               else
                 (let elapsed = (bk_state b = OpenState \<and> now \<ge> bk_until b);
                      b = (if elapsed then b\<lparr>bk_state := HalfOpenState, bk_probing := False\<rparr> else b);
                      br = (if elapsed
                        then report_change c b (js ''open time elapsed'') (put_state c b br) else br)
                  in case bk_state b of
                       HalfOpenState \<Rightarrow>
                         if bk_probing b then (Refused BeingProbed (now + 1000) (bk_last b), br)
                         else (Admitted, put_state c (b\<lparr>bk_probing := True\<rparr>) br)
                     | OpenState \<Rightarrow> (Refused CoolingDown (bk_until b) (bk_last b), br)
                     | ClosedState \<Rightarrow> (Admitted, br))))"

section \<open>Reporting\<close>

definition success :: "candidate \<Rightarrow> breakers \<Rightarrow> breakers" where
  "success c br =
     (let br = br\<lparr>br_marks := jdelete (markKey c) (br_marks br)\<rparr> in
      case jget (br_states br) (credentialKey c) of
        None \<Rightarrow> br
      | Some b \<Rightarrow>
          if bk_state b \<noteq> ClosedState then close_breaker c b (js ''success'') br
          else put_state c (b\<lparr>bk_failures := 0\<rparr>) br)"

definition release :: "candidate \<Rightarrow> breakers \<Rightarrow> breakers" where
  "release c br =
     (case jget (br_states br) (credentialKey c) of
        None \<Rightarrow> br
      | Some b \<Rightarrow> put_state c (b\<lparr>bk_probing := False\<rparr>) br)"

definition fresh_breaker :: breaker where
  "fresh_breaker = \<lparr>bk_state = ClosedState, bk_failures = 0, bk_opens = 0, bk_until = 0,
     bk_probing = False, bk_authRef = None, bk_provisional = None, bk_last = None\<rparr>"

definition set_mark :: "candidate \<Rightarrow> real \<Rightarrow> jstring \<Rightarrow> real \<Rightarrow> breakers \<Rightarrow> breakers" where
  "set_mark c ms by_key now br =
     (let previous = Option.bind (jget (br_marks br) (markKey c)) mk_provisional
      in br\<lparr>br_marks := jset (markKey c)
           (if ms > PROVISIONAL_MS \<and> (previous = None \<or> previous = Some by_key)
            then \<lparr>mk_until = now + PROVISIONAL_MS, mk_provisional = Some by_key\<rparr>
            else \<lparr>mk_until = now + ms, mk_provisional = None\<rparr>) (br_marks br)\<rparr>)"

text \<open>A long rest: short at first, in full when another key asks for it.\<close>

definition rest ::
    "candidate \<Rightarrow> breaker \<Rightarrow> real \<Rightarrow> jstring \<Rightarrow> jstring \<Rightarrow> real \<Rightarrow> breakers \<Rightarrow> breaker \<times> breakers" where
  "rest c b ms by_key errorClass now br =
     (let provisional = (ms > PROVISIONAL_MS \<and>
            (bk_provisional b = None \<or> bk_provisional b = Some by_key));
          d = (if provisional then PROVISIONAL_MS else ms)
      in ((opened b (Some d) now)\<lparr>bk_provisional := (if provisional then Some by_key else None)\<rparr>,
          open_breaker c b (Some d) errorClass now br))"

definition failure ::
    "candidate \<Rightarrow> breaker_effect \<Rightarrow> failure \<Rightarrow> jstring \<Rightarrow> jstring option \<Rightarrow> real \<Rightarrow> breakers \<Rightarrow> breakers" where
  "failure c effect fl errorClass keyId now br =
     (let by_key = key_text keyId in
      case effect of
        MarkModel ms \<Rightarrow> release c (set_mark c ms by_key now br)
      | _ \<Rightarrow>
          (let b = (case jget (br_states br) (credentialKey c) of Some b \<Rightarrow> b | None \<Rightarrow> fresh_breaker)
                 \<lparr>bk_probing := False\<rparr>;
               noted = b\<lparr>bk_last := Some \<lparr>lf_failure = fl, lf_class = errorClass, lf_at = now\<rparr>\<rparr>
           in case effect of
                NoEffect \<Rightarrow> put_state c b br
              | CountFailure \<Rightarrow>
                  (let counted = noted\<lparr>bk_failures := bk_failures noted + 1\<rparr>
                   in if bk_state counted = HalfOpenState \<or> bk_failures counted \<ge> 3
                      then open_breaker c counted None errorClass now br
                      else put_state c counted br)
              | Cooldown ms \<Rightarrow>
                  (let (rested, br) = rest c noted ms by_key errorClass now br
                   in put_state c rested br)
              | AuthFailed \<Rightarrow>
                  (let (rested, br) = rest c noted OPEN_MAX_MS by_key errorClass now br
                   in put_state c (rested\<lparr>bk_authRef := Some (credentialRef (ca_credential c))\<rparr>) br)
              | MarkModel ms \<Rightarrow> br))"

text \<open>
  Forgetting the rests of a provider's credential, or of all of them. The credential's part of a key
  is what follows the provider's name and a NUL.
\<close>

definition lift_prefix :: "jstring \<Rightarrow> jstring option \<Rightarrow> jstring" where
  "lift_prefix provider credential =
     provider @ 0 # (case credential of None \<Rightarrow> [] | Some c \<Rightarrow> c @ [0])"

definition lift :: "jstring \<Rightarrow> jstring option \<Rightarrow> jstring \<Rightarrow> breakers \<Rightarrow> breakers" where
  "lift provider credential reason br =
     (let prefix = lift_prefix provider credential;
          lifted = (\<lambda>key. startsWith (key @ [0]) prefix)
      in br\<lparr>br_marks := filter (\<lambda>(key, _). \<not> startsWith key prefix) (br_marks br),
           br_states := filter (\<lambda>(key, _). \<not> lifted key) (br_states br),
           br_log := br_log br @
             concat (map (\<lambda>(key, b).
                 if lifted key \<and> bk_state b \<noteq> ClosedState
                 then [\<lparr>bc_provider = provider, bc_credential = drop (length provider + 1) key,
                   bc_state = ClosedState, bc_until = None, bc_reason = reason\<rparr>]
                 else []) (br_states br))\<rparr>)"

record breaker_view =
  bv_provider :: jstring
  bv_credential :: jstring
  bv_state :: breaker_state
  bv_until :: "real option"
  bv_last :: "(jstring \<times> int \<times> real) option"

definition breakers_snapshot :: "real \<Rightarrow> breakers \<Rightarrow> breaker_view list" where
  "breakers_snapshot now br =
     map (\<lambda>(key, b).
       let parts = split_at (\<lambda>c. c = 0) key;
           is_open = (bk_state b = OpenState \<and> now < bk_until b)
       in \<lparr>bv_provider = hd parts, bv_credential = (case parts of _ # c # _ \<Rightarrow> c | _ \<Rightarrow> []),
           bv_state = (if bk_state b = OpenState \<and> \<not> is_open then HalfOpenState else bk_state b),
           bv_until = (if is_open then Some (bk_until b) else None),
           bv_last = map_option (\<lambda>l. (lf_class l, fl_status (lf_failure l), lf_at l)) (bk_last b)\<rparr>) (br_states br)"

end
