(* ===== verification/BreakerProps.thy ===== *)
theory BreakerProps
  imports Breakers Machines CandidateProps
begin

text \<open>
  The breakers against an abstract circuit breaker: what each operation does to the circuit of its
  credential, and to no other; one probe at a time; every rest ends; and one Gateway Key cannot rest
  a shared credential for long.
\<close>

section \<open>The circuit\<close>

text \<open>Closed and open with the failures counted since, half open with whether the probe is out.\<close>

datatype circuit = Closed nat | Open real nat | HalfOpen bool

fun circuit_admit :: "real \<Rightarrow> bool \<Rightarrow> circuit \<Rightarrow> bool \<times> circuit" where
  "circuit_admit now changed (Closed n) = (True, Closed n)"
| "circuit_admit now changed (Open u n) =
     (if changed then (True, Closed 0)
      else if now < u then (False, Open u n)
      else (True, HalfOpen True))"
| "circuit_admit now changed (HalfOpen probing) = (\<not> probing, HalfOpen True)"

fun circuit_release :: "circuit \<Rightarrow> circuit" where
  "circuit_release (HalfOpen probing) = HalfOpen False"
| "circuit_release c = c"

fun circuit_count :: "real \<Rightarrow> circuit \<Rightarrow> circuit" where
  "circuit_count until (Closed n) = (if n + 1 \<ge> 3 then Open until 0 else Closed (n + 1))"
| "circuit_count until (Open u n) = (if n + 1 \<ge> 3 then Open until 0 else Open u (n + 1))"
| "circuit_count until (HalfOpen probing) = Open until 0"

definition circuit_of :: "breaker option \<Rightarrow> circuit" where
  "circuit_of b =
     (case b of
        None \<Rightarrow> Closed 0
      | Some b \<Rightarrow> (case bk_state b of
            ClosedState \<Rightarrow> Closed (bk_failures b)
          | OpenState \<Rightarrow> Open (bk_until b) (bk_failures b)
          | HalfOpenState \<Rightarrow> HalfOpen (bk_probing b)))"

definition circuit :: "breakers \<Rightarrow> jstring \<Rightarrow> circuit" where
  "circuit br key = circuit_of (jget (br_states br) key)"

definition ref_changed :: "candidate \<Rightarrow> breakers \<Rightarrow> bool" where
  "ref_changed c br \<longleftrightarrow>
     (case jget (br_states br) (credentialKey c) of
        Some b \<Rightarrow> bk_authRef b \<noteq> None \<and> bk_authRef b \<noteq> Some (credentialRef (ca_credential c))
      | None \<Rightarrow> False)"

named_theorems breaker_simps \<open>the breakers after an elementary step\<close>

lemma states_after [breaker_simps, simp]:
  "br_states (report_change c b reason br) = br_states br"
  "br_states (put_state c b br) = jset (credentialKey c) b (br_states br)"
  "br_states (close_breaker c b reason br) = jdelete (credentialKey c) (br_states br)"
  "br_states (open_breaker c b ms reason now br) = jset (credentialKey c) (opened b ms now) (br_states br)"
  "br_states (set_mark c t by_key now br) = br_states br"
  by (simp_all add: report_change_def put_state_def close_breaker_def open_breaker_def set_mark_def Let_def)

lemma marks_after [breaker_simps, simp]:
  "br_marks (report_change c b reason br) = br_marks br"
  "br_marks (put_state c b br) = br_marks br"
  "br_marks (close_breaker c b reason br) = br_marks br"
  "br_marks (open_breaker c b ms reason now br) = br_marks br"
  by (simp_all add: report_change_def put_state_def close_breaker_def open_breaker_def)

lemma circuit_put [simp]: "circuit (put_state c b br) = (circuit br)(credentialKey c := circuit_of (Some b))"
  by (simp add: circuit_def fun_eq_iff)

lemma circuit_close [simp]: "circuit (close_breaker c b reason br) = (circuit br)(credentialKey c := Closed 0)"
  by (simp add: circuit_def fun_eq_iff circuit_of_def)

lemma circuit_report [simp]: "circuit (report_change c b reason br) = circuit br"
  by (simp add: circuit_def fun_eq_iff)

lemma circuit_open [simp]:
  "circuit (open_breaker c b ms reason now br) = (circuit br)(credentialKey c := circuit_of (Some (opened b ms now)))"
  by (simp add: circuit_def fun_eq_iff)

lemma circuit_marks [simp]: "circuit (br\<lparr>br_marks := m\<rparr>) = circuit br"
  by (simp add: circuit_def fun_eq_iff)

lemma circuit_set_mark [simp]: "circuit (set_mark c ms by_key now br) = circuit br"
  by (simp add: circuit_def fun_eq_iff)

lemma circuit_opened [simp]:
  "circuit_of (Some (opened b ms now)) = Open (now + (case ms of Some d \<Rightarrow> d | None \<Rightarrow> min (60000 * 2 ^ bk_opens b) OPEN_MAX_MS)) 0"
  by (simp add: circuit_of_def opened_def)

lemma circuit_of_fields [simp]:
  "circuit_of (Some (b\<lparr>bk_provisional := p\<rparr>)) = circuit_of (Some b)"
  "circuit_of (Some (b\<lparr>bk_authRef := a\<rparr>)) = circuit_of (Some b)"
  "circuit_of (Some (b\<lparr>bk_last := l\<rparr>)) = circuit_of (Some b)"
  "circuit_of (Some (b\<lparr>bk_probing := False\<rparr>)) = circuit_release (circuit_of (Some b))"
  by (simp_all add: circuit_of_def split: breaker_state.split)

section \<open>Each operation on the circuit\<close>

lemma admit_circuit:
  assumes "markFor c keyId now br = None"
  shows "(fst (admit c keyId now br) = Admitted) =
      fst (circuit_admit now (ref_changed c br) (circuit br (credentialKey c)))"
    and "circuit (snd (admit c keyId now br)) =
      (circuit br)(credentialKey c := snd (circuit_admit now (ref_changed c br) (circuit br (credentialKey c))))"
proof -
  have "(fst (admit c keyId now br) = Admitted) =
      fst (circuit_admit now (ref_changed c br) (circuit br (credentialKey c))) \<and>
    circuit (snd (admit c keyId now br)) =
      (circuit br)(credentialKey c := snd (circuit_admit now (ref_changed c br) (circuit br (credentialKey c))))"
  proof (cases "jget (br_states br) (credentialKey c)")
    case None
    with assms show ?thesis
      by (simp add: admit_def circuit_def circuit_of_def fun_eq_iff)
  next
    case (Some b)
    have own: "circuit br (credentialKey c) = circuit_of (Some b)" by (simp add: circuit_def Some)
    show ?thesis
      using assms
      by (cases "bk_state b")
        (auto simp: admit_def own Some circuit_of_def ref_changed_def Let_def fun_upd_idem_iff)
  qed
  then show "(fst (admit c keyId now br) = Admitted) =
      fst (circuit_admit now (ref_changed c br) (circuit br (credentialKey c)))"
    and "circuit (snd (admit c keyId now br)) =
      (circuit br)(credentialKey c := snd (circuit_admit now (ref_changed c br) (circuit br (credentialKey c))))"
    by blast+
qed

lemma admit_marked:
  assumes "markFor c keyId now br = Some m"
  shows "fst (admit c keyId now br) \<noteq> Admitted" "snd (admit c keyId now br) = br"
  using assms by (simp_all add: admit_def)

lemma success_circuit [simp]: "circuit (success c br) = (circuit br)(credentialKey c := Closed 0)"
  by (cases "jget (br_states br) (credentialKey c)")
    (auto simp: success_def circuit_def circuit_of_def fun_eq_iff Let_def split: breaker_state.split)

lemma release_circuit [simp]:
  "circuit (release c br) = (circuit br)(credentialKey c := circuit_release (circuit br (credentialKey c)))"
  by (cases "jget (br_states br) (credentialKey c)")
    (auto simp: release_def circuit_def circuit_of_def fun_eq_iff split: breaker_state.split)

definition back_off :: "candidate \<Rightarrow> breakers \<Rightarrow> real" where
  "back_off c br =
     min (60000 * 2 ^ (case jget (br_states br) (credentialKey c) of Some b \<Rightarrow> bk_opens b | None \<Rightarrow> 0)) OPEN_MAX_MS"

lemma count_circuit:
  "circuit (failure c CountFailure fl errorClass keyId now br) =
     (circuit br)(credentialKey c := circuit_count (now + back_off c br) (circuit br (credentialKey c)))"
proof (cases "jget (br_states br) (credentialKey c)")
  case None
  then show ?thesis
    by (simp add: failure_def circuit_def circuit_of_def fresh_breaker_def Let_def fun_eq_iff)
next
  case (Some b)
  have own: "circuit br (credentialKey c) = circuit_of (Some b)" by (simp add: circuit_def Some)
  show ?thesis
    unfolding own
    by (cases "bk_state b")
      (auto simp: failure_def Some circuit_of_def Let_def back_off_def opened_def circuit_def fun_eq_iff)
qed

definition rest_time :: "candidate \<Rightarrow> real \<Rightarrow> jstring option \<Rightarrow> breakers \<Rightarrow> real" where
  "rest_time c ms keyId br =
     (let p = (case jget (br_states br) (credentialKey c) of Some b \<Rightarrow> bk_provisional b | None \<Rightarrow> None)
      in if ms > PROVISIONAL_MS \<and> (p = None \<or> p = Some (key_text keyId)) then PROVISIONAL_MS else ms)"

lemma cooldown_circuit:
  "circuit (failure c (Cooldown ms) fl errorClass keyId now br) =
     (circuit br)(credentialKey c := Open (now + rest_time c ms keyId br) 0)"
  by (auto simp: failure_def Let_def case_prod_beta rest_def rest_time_def fresh_breaker_def split: option.split)

lemma auth_circuit:
  "circuit (failure c AuthFailed fl errorClass keyId now br) =
     (circuit br)(credentialKey c := Open (now + rest_time c OPEN_MAX_MS keyId br) 0)"
  by (auto simp: failure_def Let_def case_prod_beta rest_def rest_time_def fresh_breaker_def split: option.split)

lemma other_circuit:
  "circuit (failure c NoEffect fl errorClass keyId now br) =
     (circuit br)(credentialKey c := circuit_release (circuit br (credentialKey c)))"
  "circuit (failure c (MarkModel ms) fl errorClass keyId now br) =
     (circuit br)(credentialKey c := circuit_release (circuit br (credentialKey c)))"
  by (cases "jget (br_states br) (credentialKey c)")
    (simp_all add: failure_def Let_def circuit_def circuit_of_def fresh_breaker_def split: breaker_state.split)

lemma back_off_range: "60000 \<le> back_off c br \<and> back_off c br \<le> OPEN_MAX_MS"
proof -
  have "(60000 :: real) * 1 \<le> 60000 * 2 ^ n" for n :: nat by (rule mult_left_mono) simp_all
  then show ?thesis by (simp add: back_off_def OPEN_MAX_MS_def)
qed

text \<open>
  C25: every operation is a step of a circuit breaker on its own credential and leaves the circuits of
  all others alone: a request passes a closed circuit, and an open one only once its time is over (or
  the credential changed), as the one probe; a counted failure opens it at the third in a row or when
  the probe failed, for one to ten minutes; success closes it; a request without a verdict gives the
  probe back.
\<close>

theorem breaker_refines_circuit:
  "(markFor c keyId now br = None \<longrightarrow>
      (fst (admit c keyId now br) = Admitted) =
        fst (circuit_admit now (ref_changed c br) (circuit br (credentialKey c))) \<and>
      circuit (snd (admit c keyId now br)) =
        (circuit br)(credentialKey c := snd (circuit_admit now (ref_changed c br) (circuit br (credentialKey c))))) \<and>
   (markFor c keyId now br \<noteq> None \<longrightarrow> fst (admit c keyId now br) \<noteq> Admitted \<and> snd (admit c keyId now br) = br) \<and>
   circuit (success c br) = (circuit br)(credentialKey c := Closed 0) \<and>
   circuit (release c br) = (circuit br)(credentialKey c := circuit_release (circuit br (credentialKey c))) \<and>
   (\<exists>d. 60000 \<le> d \<and> d \<le> 600000 \<and> circuit (failure c CountFailure fl errorClass keyId now br) =
      (circuit br)(credentialKey c := circuit_count (now + d) (circuit br (credentialKey c)))) \<and>
   circuit (failure c (Cooldown ms) fl errorClass keyId now br) =
      (circuit br)(credentialKey c := Open (now + rest_time c ms keyId br) 0) \<and>
   circuit (failure c AuthFailed fl errorClass keyId now br) =
      (circuit br)(credentialKey c := Open (now + rest_time c OPEN_MAX_MS keyId br) 0) \<and>
   circuit (failure c NoEffect fl errorClass keyId now br) =
      (circuit br)(credentialKey c := circuit_release (circuit br (credentialKey c))) \<and>
   circuit (failure c (MarkModel ms) fl errorClass keyId now br) =
      (circuit br)(credentialKey c := circuit_release (circuit br (credentialKey c)))"
proof (intro conjI)
  show "\<exists>d. 60000 \<le> d \<and> d \<le> 600000 \<and> circuit (failure c CountFailure fl errorClass keyId now br) =
      (circuit br)(credentialKey c := circuit_count (now + d) (circuit br (credentialKey c)))"
    using back_off_range [of c br] count_circuit [of c fl errorClass keyId now br]
    by (intro exI [of _ "back_off c br"]) (simp add: OPEN_MAX_MS_def)
  show "markFor c keyId now br \<noteq> None \<longrightarrow> fst (admit c keyId now br) \<noteq> Admitted \<and> snd (admit c keyId now br) = br"
    using admit_marked by blast
  show "markFor c keyId now br = None \<longrightarrow>
      (fst (admit c keyId now br) = Admitted) =
        fst (circuit_admit now (ref_changed c br) (circuit br (credentialKey c))) \<and>
      circuit (snd (admit c keyId now br)) =
        (circuit br)(credentialKey c := snd (circuit_admit now (ref_changed c br) (circuit br (credentialKey c))))"
    using admit_circuit [of c keyId now br] by blast
qed (simp_all only: success_circuit release_circuit cooldown_circuit auth_circuit other_circuit)

definition demo_candidate :: candidate where
  "demo_candidate = \<lparr>ca_provider = demo_provider ''p'' [], ca_credential = demo_credential ''k'' None,
     ca_model = None, ca_ref = js ''p/m'', ca_wireModel = js ''m'', ca_mode = Passthrough, ca_upstream = Chat,
     ca_endpoint = js ''https://c'', ca_effort = None, ca_fast = False, ca_path = None, ca_aside = False\<rparr>"

theorem breaker_refines_circuit_witness:
  "fst (admit demo_candidate None 0 new_breakers) = Admitted"
  using breaker_refines_circuit [of demo_candidate None 0 new_breakers]
  by (simp add: markFor_def new_breakers_def circuit_def circuit_of_def)

section \<open>Sequences of operations\<close>

datatype breaker_op =
    Admit candidate "jstring option"
  | Success candidate
  | Release candidate
  | Failure candidate breaker_effect failure jstring "jstring option"
  | Lift jstring "jstring option" jstring

fun breaker_step :: "real \<times> breaker_op \<Rightarrow> breakers \<Rightarrow> admission option \<times> breakers" where
  "breaker_step (now, Admit c keyId) br = (Some (fst (admit c keyId now br)), snd (admit c keyId now br))"
| "breaker_step (now, Success c) br = (None, success c br)"
| "breaker_step (now, Release c) br = (None, release c br)"
| "breaker_step (now, Failure c effect fl errorClass keyId) br = (None, failure c effect fl errorClass keyId now br)"
| "breaker_step (now, Lift provider credential reason) br = (None, lift provider credential reason br)"

lemma map_of_filter_key: "map_of (filter (\<lambda>(k, _). P k) m) k = (if P k then map_of m k else None)"
  by (induction m) auto

lemma lift_circuit:
  "circuit (lift provider credential reason br) key =
     (if startsWith (key @ [0]) (lift_prefix provider credential) then Closed 0 else circuit br key)"
  by (simp add: lift_def circuit_def circuit_of_def map_of_filter_key Let_def)

text \<open>An operation reports on a credential, or lifts its rest.\<close>

fun reports :: "jstring \<Rightarrow> breaker_op \<Rightarrow> bool" where
  "reports key (Admit c keyId) = False"
| "reports key (Success c) = (credentialKey c = key)"
| "reports key (Release c) = (credentialKey c = key)"
| "reports key (Failure c effect fl errorClass keyId) = (credentialKey c = key)"
| "reports key (Lift provider credential reason) = startsWith (key @ [0]) (lift_prefix provider credential)"

lemma failure_other: "credentialKey c \<noteq> key \<Longrightarrow> circuit (failure c effect fl errorClass keyId now br) key = circuit br key"
  by (cases effect) (simp_all add: count_circuit cooldown_circuit auth_circuit other_circuit)

lemma probe_stays:
  assumes "circuit br key = HalfOpen True" "\<not> reports key op"
  shows "circuit (snd (breaker_step (now, op) br)) key = HalfOpen True"
proof (cases op)
  case (Admit c keyId)
  then show ?thesis
    using assms admit_circuit(2) [of c keyId now br] admit_marked(2) [of c keyId now br]
    by (cases "markFor c keyId now br"; cases "credentialKey c = key") auto
qed (use assms in \<open>auto simp: failure_other lift_circuit\<close>)

text \<open>
  C26: while the probe of a half-open breaker is out, nobody else is admitted on its credential,
  whoever asks and whatever happens to other credentials, as long as no request reports on that
  credential (a success, a failure or an end without a verdict) and its rest is not lifted. The report need
  not be the probe's: lemma \<open>late_end_frees_probe\<close> below.
\<close>

theorem one_probe_at_a_time:
  assumes "circuit br (credentialKey c) = HalfOpen True"
    and "\<forall>(now, op) \<in> set ops. \<not> reports (credentialKey c) op"
  shows "fst (admit c keyId now (run_ops breaker_step ops br)) \<noteq> Admitted"
proof -
  have "circuit (run_ops breaker_step ops br) (credentialKey c) = HalfOpen True"
    using assms
  proof (induction ops arbitrary: br)
    case (Cons x ops)
    obtain now op where x: "x = (now, op)" by (cases x)
    from Cons.prems x have "circuit (snd (breaker_step x br)) (credentialKey c) = HalfOpen True"
      using probe_stays by simp
    with Cons show ?case by simp
  qed simp
  then show ?thesis
    using admit_circuit(1) [of c keyId now "run_ops breaker_step ops br"] admit_marked(1)
    by (cases "markFor c keyId now (run_ops breaker_step ops br)") auto
qed

definition probed :: breakers where
  "probed = run_ops breaker_step
     [(0, Failure demo_candidate (Cooldown 1000) \<lparr>fl_status = 429, fl_code = [], fl_message = [], fl_contextOverflow = False\<rparr> [] None),
      (2000, Admit demo_candidate None)] new_breakers"

lemma probed_half_open: "circuit probed (credentialKey demo_candidate) = HalfOpen True"
proof -
  let ?fl = "\<lparr>fl_status = 429, fl_code = [], fl_message = [], fl_contextOverflow = False\<rparr>"
  let ?br = "failure demo_candidate (Cooldown 1000) ?fl [] None 0 new_breakers"
  have "circuit ?br (credentialKey demo_candidate) = Open 1000 0"
    by (simp add: cooldown_circuit rest_time_def PROVISIONAL_MS_def)
  moreover have "markFor demo_candidate None 2000 ?br = None" "\<not> ref_changed demo_candidate ?br"
    by (simp_all add: markFor_def failure_def rest_def new_breakers_def fresh_breaker_def ref_changed_def
        Let_def put_state_def open_breaker_def report_change_def opened_def PROVISIONAL_MS_def)
  ultimately show ?thesis
    using admit_circuit(2) [of demo_candidate None 2000 ?br] by (simp add: probed_def)
qed

theorem one_probe_at_a_time_witness:
  "fst (admit demo_candidate (Some [1]) 5000 (run_ops breaker_step [(3000, Admit demo_candidate None)] probed)) \<noteq> Admitted"
  by (rule one_probe_at_a_time [OF probed_half_open]) simp

text \<open>
  The breaker does not know whose report it gets: a request that was admitted before the rest and ends without a
  verdict while the probe is out frees the probe's place, and a second probe is admitted beside the first.
\<close>

lemma late_end_frees_probe:
  "fst (admit demo_candidate None 0 new_breakers) = Admitted \<and>
   circuit probed (credentialKey demo_candidate) = HalfOpen True \<and>
   fst (admit demo_candidate None 3000 (run_ops breaker_step [(2500, Release demo_candidate)] probed)) = Admitted"
proof (intro conjI)
  show "fst (admit demo_candidate None 0 new_breakers) = Admitted" by (simp add: admit_circuit(1) markFor_def new_breakers_def circuit_def circuit_of_def)
  have "br_marks probed = []"
    by (simp add: probed_def admit_def failure_def rest_def new_breakers_def fresh_breaker_def markFor_def
        Let_def put_state_def open_breaker_def report_change_def opened_def PROVISIONAL_MS_def)
  then have "markFor demo_candidate None 3000 (release demo_candidate probed) = None"
    by (simp add: markFor_def release_def put_state_def split: option.split)
  then show "fst (admit demo_candidate None 3000 (run_ops breaker_step [(2500, Release demo_candidate)] probed)) = Admitted"
    using probed_half_open by (simp add: admit_circuit(1))
qed (rule probed_half_open)

text \<open>
  C27: every rest ends. A candidate whose breaker has no probe out is admitted from some time on; a
  success clears its rest and its mark at once; and \<open>blocked\<close> (which takes no step) says what \<open>admit\<close>
  would: a blocked candidate is refused, unless its credential changed since, and one not blocked is
  admitted, unless a probe is out.
\<close>

theorem rests_end:
  "(circuit br (credentialKey c) \<noteq> HalfOpen True \<longrightarrow>
      (\<exists>since. \<forall>now \<ge> since. fst (admit c keyId now br) = Admitted)) \<and>
   fst (admit c keyId now (success c br)) = Admitted \<and>
   blocked c keyId now br = (restOf c keyId now br \<noteq> None) \<and>
   (blocked c keyId now br \<and> \<not> ref_changed c br \<longrightarrow> fst (admit c keyId now br) \<noteq> Admitted) \<and>
   (\<not> blocked c keyId now br \<and> circuit br (credentialKey c) \<noteq> HalfOpen True \<longrightarrow>
      fst (admit c keyId now br) = Admitted)"
proof (intro conjI impI)
  assume free: "circuit br (credentialKey c) \<noteq> HalfOpen True"
  define marked where "marked = (case jget (br_marks br) (markKey c) of Some m \<Rightarrow> mk_until m | None \<Rightarrow> 0)"
  define opens where "opens = (case circuit br (credentialKey c) of Open u n \<Rightarrow> u | _ \<Rightarrow> 0)"
  have "fst (admit c keyId now br) = Admitted" if "now \<ge> max marked opens" for now
  proof -
    have "markFor c keyId now br = None"
      using that by (auto simp: markFor_def marked_def split: option.splits)
    moreover have "fst (circuit_admit now (ref_changed c br) (circuit br (credentialKey c)))"
      using that free by (cases "circuit br (credentialKey c)") (auto simp: opens_def)
    ultimately show ?thesis using admit_circuit(1) by blast
  qed
  then show "\<exists>since. \<forall>now \<ge> since. fst (admit c keyId now br) = Admitted" by blast
next
  have "markFor c keyId now (success c br) = None"
    by (simp add: markFor_def success_def Let_def put_state_def close_breaker_def report_change_def split: option.split)
  then show "fst (admit c keyId now (success c br)) = Admitted" by (simp add: admit_circuit(1))
next
  show "blocked c keyId now br = (restOf c keyId now br \<noteq> None)"
    by (auto simp: blocked_def restOf_def split: option.split)
next
  assume "blocked c keyId now br \<and> \<not> ref_changed c br"
  then show "fst (admit c keyId now br) \<noteq> Admitted"
    using admit_circuit(1) [of c keyId now br] admit_marked(1) [of c keyId now br]
    by (cases "markFor c keyId now br")
      (auto simp: blocked_def circuit_def circuit_of_def split: option.splits)
next
  assume "\<not> blocked c keyId now br \<and> circuit br (credentialKey c) \<noteq> HalfOpen True"
  then show "fst (admit c keyId now br) = Admitted"
    using admit_circuit(1) [of c keyId now br]
    by (cases "circuit br (credentialKey c)")
      (auto simp: blocked_def circuit_def circuit_of_def split: option.splits breaker_state.splits)
qed

theorem rests_end_witness:
  "\<exists>since. \<forall>now \<ge> since. fst (admit demo_candidate None now new_breakers) = Admitted"
  using rests_end [of new_breakers demo_candidate None 0]
  by (simp add: circuit_def circuit_of_def new_breakers_def)

end
