(* ===== verification/BreakerKeys.thy ===== *)
theory BreakerKeys
  imports BreakerProps
begin

text \<open>
  The breakers over sequences of operations: the invariant of their states, how long the failures of
  one Gateway Key can rest a credential, and that a failure reported late shortens a long rest.
\<close>

section \<open>Well-formed breakers\<close>

definition breaker_ok :: "breaker \<Rightarrow> bool" where
  "breaker_ok b \<longleftrightarrow> bk_failures b \<le> 2 \<and> (bk_probing b \<longrightarrow> bk_state b = HalfOpenState) \<and>
     (bk_state b = ClosedState \<longrightarrow> bk_opens b = 0 \<and> bk_authRef b = None \<and> bk_provisional b = None) \<and>
     (bk_state b \<noteq> ClosedState \<longrightarrow> bk_opens b > 0 \<and> bk_last b \<noteq> None)"

definition breakers_ok :: "breakers \<Rightarrow> bool" where
  "breakers_ok br \<longleftrightarrow> jwf (br_states br) \<and> jwf (br_marks br) \<and> (\<forall>(key, b) \<in> set (br_states br). breaker_ok b)"

definition breaker_move :: "breakers \<Rightarrow> breakers \<Rightarrow> bool" where
  "breaker_move br br' \<longleftrightarrow> (\<exists>x. br' = snd (breaker_step x br))"

lemma ok_put: "breakers_ok br \<Longrightarrow> breaker_ok b \<Longrightarrow> breakers_ok (put_state c b br)"
  using set_jset_sub [of "credentialKey c" b "br_states br"] by (fastforce simp: breakers_ok_def)

lemma ok_report: "breakers_ok br \<Longrightarrow> breakers_ok (report_change c b reason br)"
  by (simp add: breakers_ok_def)

lemma ok_close: "breakers_ok br \<Longrightarrow> breakers_ok (close_breaker c b reason br)"
  using jwf_jdelete [of "br_states br" "credentialKey c"]
  by (auto simp: breakers_ok_def) (auto simp: jdelete_def)

lemma ok_open: "breakers_ok br \<Longrightarrow> breaker_ok (opened b ms now) \<Longrightarrow> breakers_ok (open_breaker c b ms reason now br)"
  unfolding open_breaker_def by (intro ok_report ok_put)

lemma ok_get: "breakers_ok br \<Longrightarrow> jget (br_states br) key = Some b \<Longrightarrow> breaker_ok b"
  by (auto simp: breakers_ok_def dest: map_of_SomeD)

lemma ok_marks: "breakers_ok br \<Longrightarrow> jwf m \<Longrightarrow> breakers_ok (br\<lparr>br_marks := m\<rparr>)"
  by (simp add: breakers_ok_def)

lemma ok_admit: "breakers_ok br \<Longrightarrow> breakers_ok (snd (admit c keyId now br))"
proof (cases "markFor c keyId now br")
  case None
  assume ok: "breakers_ok br"
  show ?thesis
  proof (cases "jget (br_states br) (credentialKey c)")
    case (Some b)
    have half: "breakers_ok (report_change c b' r (put_state c b' br))" "breakers_ok (put_state c (b'\<lparr>bk_probing := True\<rparr>)
        (report_change c b' r (put_state c b' br)))"
      if "b' = b\<lparr>bk_state := HalfOpenState, bk_probing := False\<rparr>" "bk_state b = OpenState" for b' r
      using that ok ok_get [OF ok Some] by (auto intro!: ok_put ok_report simp: breaker_ok_def)
    have probe: "breakers_ok (put_state c (b\<lparr>bk_probing := True\<rparr>) br)" if "bk_state b = HalfOpenState"
      using that ok ok_get [OF ok Some] by (auto intro!: ok_put simp: breaker_ok_def)
    show ?thesis
      using ok None Some half probe ok_close
      by (cases "bk_state b") (auto simp: admit_def Let_def)
  qed (use None ok in \<open>simp add: admit_def\<close>)
qed (simp add: admit_def)

lemma ok_success: "breakers_ok br \<Longrightarrow> breakers_ok (success c br)"
proof -
  assume ok: "breakers_ok br"
  let ?br = "br\<lparr>br_marks := jdelete (markKey c) (br_marks br)\<rparr>"
  have marks: "breakers_ok ?br" using ok by (intro ok_marks) (simp_all add: breakers_ok_def)
  then have "breakers_ok (put_state c (b\<lparr>bk_failures := 0\<rparr>) ?br)" if "jget (br_states br) (credentialKey c) = Some b" for b
    using ok_get [OF ok that] by (intro ok_put) (auto simp: breaker_ok_def)
  with marks ok_close show ?thesis by (auto simp: success_def Let_def split: option.split)
qed

lemma ok_release: "breakers_ok br \<Longrightarrow> breakers_ok (release c br)"
  by (auto simp: release_def breaker_ok_def split: option.split intro!: ok_put dest: ok_get)

definition current_breaker :: "candidate \<Rightarrow> breakers \<Rightarrow> breaker" where
  "current_breaker c br = (case jget (br_states br) (credentialKey c) of Some b \<Rightarrow> b | None \<Rightarrow> fresh_breaker)\<lparr>bk_probing := False\<rparr>"

lemma ok_current: "breakers_ok br \<Longrightarrow> breaker_ok (current_breaker c br)"
  by (auto simp: current_breaker_def breaker_ok_def fresh_breaker_def split: option.split dest: ok_get)

lemma ok_opened: "bk_probing b = False \<Longrightarrow> bk_last b \<noteq> None \<Longrightarrow> breaker_ok (opened b ms now)"
  by (simp add: breaker_ok_def opened_def)

lemma ok_rest:
  assumes "breakers_ok br" "bk_probing b = False" "bk_last b \<noteq> None"
  shows "breakers_ok (put_state c (fst (rest c b ms by_key errorClass now br)) (snd (rest c b ms by_key errorClass now br)))"
    and "breakers_ok (put_state c ((fst (rest c b ms by_key errorClass now br))\<lparr>bk_authRef := a\<rparr>) (snd (rest c b ms by_key errorClass now br)))"
  using assms ok_opened [OF assms(2,3)]
  by (auto simp: rest_def Let_def intro!: ok_put ok_open) (auto simp: breaker_ok_def opened_def)

lemma ok_failure: "breakers_ok br \<Longrightarrow> breakers_ok (failure c effect fl errorClass keyId now br)"
proof (cases effect)
  case (MarkModel ms)
  assume ok: "breakers_ok br"
  then have "breakers_ok (set_mark c ms (key_text keyId) now br)"
    by (simp add: breakers_ok_def set_mark_def Let_def)
  then show ?thesis by (simp add: failure_def MarkModel ok_release)
next
  case NoEffect
  assume "breakers_ok br"
  then show ?thesis
    using ok_current by (simp add: failure_def NoEffect current_breaker_def [symmetric] ok_put)
next
  case CountFailure
  assume ok: "breakers_ok br"
  let ?noted = "(current_breaker c br)\<lparr>bk_last := Some \<lparr>lf_failure = fl, lf_class = errorClass, lf_at = now\<rparr>\<rparr>"
  let ?counted = "?noted\<lparr>bk_failures := bk_failures ?noted + 1\<rparr>"
  have "breakers_ok (open_breaker c ?counted None errorClass now br)"
    by (intro ok_open ok ok_opened) (simp_all add: current_breaker_def)
  moreover have "breakers_ok (put_state c ?counted br)"
    if "bk_state ?counted \<noteq> HalfOpenState" "\<not> bk_failures ?counted \<ge> 3"
    using that ok_current [OF ok, of c] ok by (intro ok_put) (auto simp: breaker_ok_def)
  ultimately show ?thesis
    by (simp add: failure_def CountFailure current_breaker_def [symmetric] Let_def del: breaker.simps)
next
  case (Cooldown ms)
  assume "breakers_ok br"
  then show ?thesis
    using ok_rest(1) [of br "(current_breaker c br)\<lparr>bk_last := Some \<lparr>lf_failure = fl, lf_class = errorClass, lf_at = now\<rparr>\<rparr>" c]
    by (simp add: failure_def Cooldown current_breaker_def [symmetric] Let_def case_prod_beta) (simp add: current_breaker_def)
next
  case AuthFailed
  assume "breakers_ok br"
  then show ?thesis
    using ok_rest(2) [of br "(current_breaker c br)\<lparr>bk_last := Some \<lparr>lf_failure = fl, lf_class = errorClass, lf_at = now\<rparr>\<rparr>" c]
    by (simp add: failure_def AuthFailed current_breaker_def [symmetric] Let_def case_prod_beta) (simp add: current_breaker_def)
qed

lemma ok_lift: "breakers_ok br \<Longrightarrow> breakers_ok (lift provider credential reason br)"
  by (auto simp: breakers_ok_def lift_def Let_def jwf_def distinct_map_filter)

interpretation brs: machine breaker_step breaker_move breakers_ok
proof
  show "breakers_ok br'" if ok: "breakers_ok br" and move: "breaker_move br br'" for br br'
  proof -
    obtain now op where "br' = snd (breaker_step (now, op) br)" using move by (auto simp: breaker_move_def)
    with ok show ?thesis
      by (cases op) (simp_all add: ok_admit ok_success ok_release ok_failure ok_lift)
  qed
  show "breaker_move\<^sup>*\<^sup>* br (snd (breaker_step x br))" for x br
    by (rule r_into_rtranclp) (unfold breaker_move_def, blast)
qed

text \<open>The breakers of any run: no circuit counts more than two failures, only a half-open one probes.\<close>

lemma run_ok: "breakers_ok (run_ops breaker_step ops new_breakers)"
  by (rule brs.run_inv) (simp add: breakers_ok_def new_breakers_def)

section \<open>One key's failures\<close>

definition kept_short :: "jstring \<Rightarrow> real \<Rightarrow> real \<Rightarrow> breakers \<Rightarrow> bool" where
  "kept_short by_key latest bound br \<longleftrightarrow>
     (\<forall>key b. jget (br_states br) key = Some b \<longrightarrow>
        (bk_provisional b = None \<or> bk_provisional b = Some by_key) \<and>
        (bk_state b = OpenState \<longrightarrow> bk_until b \<le> latest + bound)) \<and>
     (\<forall>key m. jget (br_marks br) key = Some m \<longrightarrow>
        (mk_provisional m = None \<or> mk_provisional m = Some by_key) \<and> mk_until m \<le> latest + PROVISIONAL_MS)"

definition breaker_short :: "jstring \<Rightarrow> real \<Rightarrow> real \<Rightarrow> breaker \<Rightarrow> bool" where
  "breaker_short by_key latest bound b \<longleftrightarrow> (bk_provisional b = None \<or> bk_provisional b = Some by_key) \<and>
     (bk_state b = OpenState \<longrightarrow> bk_until b \<le> latest + bound)"

lemma kept_get: "kept_short k t d br \<Longrightarrow> jget (br_states br) key = Some b \<Longrightarrow> breaker_short k t d b"
  by (auto simp: kept_short_def breaker_short_def)

lemma kept_put: "kept_short k t d br \<Longrightarrow> breaker_short k t d b \<Longrightarrow> kept_short k t d (put_state c b br)"
  by (simp add: kept_short_def breaker_short_def)

lemma kept_report: "kept_short k t d br \<Longrightarrow> kept_short k t d (report_change c b reason br)"
  by (simp add: kept_short_def)

lemma kept_close: "kept_short k t d br \<Longrightarrow> kept_short k t d (close_breaker c b reason br)"
  by (simp add: kept_short_def)

lemma kept_open: "kept_short k t d br \<Longrightarrow> breaker_short k t d (opened b ms now) \<Longrightarrow> kept_short k t d (open_breaker c b ms reason now br)"
  unfolding open_breaker_def by (intro kept_report kept_put)

lemma kept_admit: "kept_short k t d br \<Longrightarrow> kept_short k t d (snd (admit c keyId now br))"
proof (cases "markFor c keyId now br")
  case None
  assume kept: "kept_short k t d br"
  show ?thesis
  proof (cases "jget (br_states br) (credentialKey c)")
    case (Some b)
    have short: "breaker_short k t d (b\<lparr>bk_probing := p\<rparr>)" "breaker_short k t d (b\<lparr>bk_state := HalfOpenState, bk_probing := p\<rparr>)" for p
      using kept_get [OF kept Some] by (auto simp: breaker_short_def)
    show ?thesis
      using kept None Some short kept_close kept_put kept_report
      by (cases "bk_state b") (auto simp: admit_def Let_def)
  qed (use None kept in \<open>simp add: admit_def\<close>)
qed (simp add: admit_def)

lemma kept_success: "kept_short k t d br \<Longrightarrow> kept_short k t d (success c br)"
proof -
  assume kept: "kept_short k t d br"
  let ?br = "br\<lparr>br_marks := jdelete (markKey c) (br_marks br)\<rparr>"
  have marks: "kept_short k t d ?br" using kept by (simp add: kept_short_def)
  then have "kept_short k t d (put_state c (b\<lparr>bk_failures := 0\<rparr>) ?br)" if "jget (br_states br) (credentialKey c) = Some b" for b
    using kept_get [OF kept that] by (intro kept_put) (auto simp: breaker_short_def)
  with marks kept_close show ?thesis by (auto simp: success_def Let_def split: option.split)
qed

lemma kept_release: "kept_short k t d br \<Longrightarrow> kept_short k t d (release c br)"
  by (auto simp: release_def breaker_short_def split: option.split intro!: kept_put dest: kept_get)

lemma short_current: "kept_short k t d br \<Longrightarrow> breaker_short k t d (current_breaker c br)"
  by (auto simp: current_breaker_def breaker_short_def fresh_breaker_def split: option.split dest: kept_get)

lemma kept_lift: "kept_short k t d br \<Longrightarrow> kept_short k t d (lift provider credential reason br)"
  by (simp add: kept_short_def lift_def Let_def map_of_filter_key)

lemma kept_rest:
  assumes "kept_short k t d br" "breaker_short k t d b" "now \<le> t" "PROVISIONAL_MS \<le> d"
  shows "kept_short k t d (put_state c (fst (rest c b ms k errorClass now br)) (snd (rest c b ms k errorClass now br)))"
    and "kept_short k t d (put_state c ((fst (rest c b ms k errorClass now br))\<lparr>bk_authRef := a\<rparr>) (snd (rest c b ms k errorClass now br)))"
proof -
  have "breaker_short k t d (opened b (Some (if ms > PROVISIONAL_MS then PROVISIONAL_MS else ms)) now)"
    using assms(2-4) by (auto simp: breaker_short_def opened_def)
  with assms(1,2)
  show "kept_short k t d (put_state c (fst (rest c b ms k errorClass now br)) (snd (rest c b ms k errorClass now br)))"
    and "kept_short k t d (put_state c ((fst (rest c b ms k errorClass now br))\<lparr>bk_authRef := a\<rparr>) (snd (rest c b ms k errorClass now br)))"
    by (auto simp: rest_def breaker_short_def Let_def intro!: kept_put kept_open)
qed

lemma kept_failure:
  assumes kept: "kept_short k t d br" and key: "key_text keyId = k" and late: "now \<le> t"
    and bound: "PROVISIONAL_MS \<le> d" "effect = CountFailure \<Longrightarrow> OPEN_MAX_MS \<le> d"
  shows "kept_short k t d (failure c effect fl errorClass keyId now br)"
proof (cases effect)
  case (MarkModel ms)
  have "kept_short k t d (set_mark c ms k now br)"
  proof -
    have "Option.bind (jget (br_marks br) (markKey c)) mk_provisional \<in> {None, Some k}"
      using kept by (cases "jget (br_marks br) (markKey c)") (auto simp: kept_short_def)
    with kept late show ?thesis by (auto simp: kept_short_def set_mark_def Let_def)
  qed
  then show ?thesis by (simp add: failure_def MarkModel key kept_release)
next
  case NoEffect
  then show ?thesis
    using short_current [OF kept] kept by (simp add: failure_def current_breaker_def [symmetric] kept_put)
next
  case CountFailure
  let ?noted = "(current_breaker c br)\<lparr>bk_last := Some \<lparr>lf_failure = fl, lf_class = errorClass, lf_at = now\<rparr>\<rparr>"
  let ?counted = "?noted\<lparr>bk_failures := bk_failures ?noted + 1\<rparr>"
  have short: "breaker_short k t d ?counted" using short_current [OF kept, of c] by (simp add: breaker_short_def)
  then have "kept_short k t d (open_breaker c ?counted None errorClass now br)"
    using bound(2) CountFailure late by (intro kept_open kept) (auto simp: breaker_short_def opened_def)
  moreover have "kept_short k t d (put_state c ?counted br)" by (rule kept_put [OF kept short])
  ultimately show ?thesis
    by (simp add: failure_def CountFailure current_breaker_def [symmetric] Let_def del: breaker.simps)
next
  case (Cooldown ms)
  have "breaker_short k t d ((current_breaker c br)\<lparr>bk_last := l\<rparr>)" for l
    using short_current [OF kept, of c] by (simp add: breaker_short_def)
  from kept_rest(1) [OF kept this late bound(1)] show ?thesis
    by (simp add: failure_def Cooldown key current_breaker_def [symmetric] Let_def case_prod_beta)
next
  case AuthFailed
  have "breaker_short k t d ((current_breaker c br)\<lparr>bk_last := l\<rparr>)" for l
    using short_current [OF kept, of c] by (simp add: breaker_short_def)
  from kept_rest(2) [OF kept this late bound(1)] show ?thesis
    by (simp add: failure_def AuthFailed key current_breaker_def [symmetric] Let_def case_prod_beta)
qed

fun of_key :: "jstring \<Rightarrow> real \<Rightarrow> real \<times> breaker_op \<Rightarrow> bool" where
  "of_key k latest (now, Failure c effect fl errorClass keyId) = (key_text keyId = k \<and> now \<le> latest)"
| "of_key k latest x = True"

fun counts :: "real \<times> breaker_op \<Rightarrow> bool" where
  "counts (now, Failure c effect fl errorClass keyId) = (effect = CountFailure)"
| "counts x = False"

lemma kept_step:
  assumes "kept_short k t d br" "of_key k t x" "PROVISIONAL_MS \<le> d" "counts x \<Longrightarrow> OPEN_MAX_MS \<le> d"
  shows "kept_short k t d (snd (breaker_step x br))"
proof -
  obtain now op where x: "x = (now, op)" by (cases x)
  show ?thesis
  proof (cases op)
    case (Failure c effect fl errorClass keyId)
    have "kept_short k t d (failure c effect fl errorClass keyId now br)"
      by (rule kept_failure) (use assms x Failure in auto)
    then show ?thesis by (simp add: x Failure)
  qed (simp_all add: x assms(1) kept_admit kept_success kept_release kept_lift)
qed

lemma kept_run:
  "kept_short k t d br \<Longrightarrow> \<forall>x \<in> set ops. of_key k t x \<Longrightarrow> PROVISIONAL_MS \<le> d \<Longrightarrow>
   (\<exists>x \<in> set ops. counts x) \<longrightarrow> OPEN_MAX_MS \<le> d \<Longrightarrow> kept_short k t d (run_ops breaker_step ops br)"
proof (induction ops arbitrary: br)
  case (Cons x ops)
  have "counts x \<Longrightarrow> OPEN_MAX_MS \<le> d" using Cons.prems(4) by simp
  then have "kept_short k t d (snd (breaker_step x br))"
    using Cons.prems(1-3) by (intro kept_step) simp_all
  from Cons.IH [OF this] Cons.prems show ?case by simp
qed simp

text \<open>
  C28: one Gateway Key cannot rest a shared credential for long: where all failures so far are of one
  key, a candidate rests for nobody longer than a minute after the last of them, ten where failures
  were counted, whatever the upstream said (a used-up week, a refused credential, an unknown model).
\<close>

theorem one_key_rests_briefly:
  assumes "\<forall>x \<in> set ops. of_key k latest x"
    and "restOf c keyId now (run_ops breaker_step ops new_breakers) = Some (until, reason)"
  shows "until \<le> latest + (if \<exists>x \<in> set ops. counts x then 600000 else 60000)"
proof -
  define d where "d = (if \<exists>x \<in> set ops. counts x then OPEN_MAX_MS else PROVISIONAL_MS)"
  have "PROVISIONAL_MS \<le> d" by (simp add: d_def OPEN_MAX_MS_def PROVISIONAL_MS_def)
  then have kept: "kept_short k latest d (run_ops breaker_step ops new_breakers)"
    by (intro kept_run) (use assms(1) in \<open>auto simp: kept_short_def new_breakers_def d_def\<close>)
  have "until \<le> latest + d"
  proof (cases "markFor c keyId now (run_ops breaker_step ops new_breakers)")
    case None
    with assms(2) kept show ?thesis
      by (auto simp: restOf_def kept_short_def split: option.splits if_splits)
  next
    case (Some m)
    then have "mk_until m \<le> latest + PROVISIONAL_MS"
      using kept by (auto simp: markFor_def kept_short_def split: option.splits if_splits)
    with Some assms(2) \<open>PROVISIONAL_MS \<le> d\<close> show ?thesis by (auto simp: restOf_def)
  qed
  then show ?thesis by (auto simp: d_def OPEN_MAX_MS_def PROVISIONAL_MS_def split: if_splits)
qed

definition demo_failure :: failure where
  "demo_failure = \<lparr>fl_status = 429, fl_code = [], fl_message = [], fl_contextOverflow = False\<rparr>"

theorem one_key_rests_briefly_witness:
  "\<exists>until reason. restOf demo_candidate None 1000 (run_ops breaker_step
      [(500, Failure demo_candidate (Cooldown 900000) demo_failure [] (Some [1]))] new_breakers) = Some (until, reason) \<and>
    until \<le> 500 + 60000"
proof -
  let ?ops = "[(500, Failure demo_candidate (Cooldown 900000) demo_failure [] (Some [1]))]"
  have "restOf demo_candidate None 1000 (run_ops breaker_step ?ops new_breakers) = Some (60500, [])"
    by (simp add: restOf_def markFor_def failure_def rest_def new_breakers_def fresh_breaker_def
        Let_def put_state_def open_breaker_def report_change_def opened_def PROVISIONAL_MS_def)
  moreover from one_key_rests_briefly [of ?ops "[1]" 500, OF _ this] have "(60500 :: real) \<le> 500 + 60000"
    by (simp add: key_text_def)
  ultimately show ?thesis by blast
qed

section \<open>A late failure\<close>

text \<open>
  A failure reported after a long rest was given in full (by a request sent before) takes its place:
  the rest is cut to a minute again, whichever key the request was of.
\<close>

lemma late_failure_shortens:
  assumes "ms > PROVISIONAL_MS" "key_text a \<noteq> key_text b"
  shows "circuit (run_ops breaker_step
      [(t0, Failure c (Cooldown ms) fl e a), (t1, Failure c (Cooldown ms) fl e b)] new_breakers) (credentialKey c) =
      Open (t1 + ms) 0"
    and "circuit (run_ops breaker_step
      [(t0, Failure c (Cooldown ms) fl e a), (t1, Failure c (Cooldown ms) fl e b),
       (t2, Failure c (Cooldown ms) fl e any)] new_breakers) (credentialKey c) = Open (t2 + PROVISIONAL_MS) 0"
  using assms
  by (simp_all add: cooldown_circuit rest_time_def)
    (simp_all add: failure_def rest_def new_breakers_def fresh_breaker_def Let_def put_state_def
      open_breaker_def report_change_def opened_def)

end
