(* ===== verification/BudgetWindows.thy ===== *)
theory BudgetWindows
  imports ModelPlane
begin

text \<open>
  The calendar windows of Gateway Key budgets (\<open>budgetWindow\<close> of \<open>packages/gateway/src/quota.ts\<close>).

  What the code uses of JavaScript's dates is written out as ECMAScript defines it: the day a year
  starts on, the year, month and date of a day, \<open>Date.UTC\<close>. A time zone is the function \<open>zone\<close> from
  an instant to the milliseconds the zone is ahead of UTC then, which is what \<open>Intl.DateTimeFormat\<close>
  knows of it; its parts are those of the local time \<open>at + zone at\<close>. Instants are milliseconds since
  1970.
\<close>

section \<open>Dates\<close>

definition MS_DAY :: int where "MS_DAY = 86400000"

text \<open>\<open>DayFromYear\<close>: the day, counted from 1970, a year starts on.\<close>

definition day_of_year :: "int \<Rightarrow> int" where
  "day_of_year y = 365 * (y - 1970) + (y - 1969) div 4 - (y - 1901) div 100 + (y - 1601) div 400"

definition leap_year :: "int \<Rightarrow> bool" where
  "leap_year y \<longleftrightarrow> y mod 4 = 0 \<and> (y mod 100 \<noteq> 0 \<or> y mod 400 = 0)"

text \<open>The day of the year the months start on, the next year's start last.\<close>

definition month_starts :: "bool \<Rightarrow> int list" where
  "month_starts leap =
     (if leap then [0, 31, 60, 91, 121, 152, 182, 213, 244, 274, 305, 335, 366]
      else [0, 31, 59, 90, 120, 151, 181, 212, 243, 273, 304, 334, 365])"

text \<open>\<open>MakeDay\<close>: months (from 0) and days (from 1) may overflow.\<close>

definition make_day :: "int \<Rightarrow> int \<Rightarrow> int \<Rightarrow> int" where
  "make_day year month d =
     (let y = year + month div 12
      in day_of_year y + month_starts (leap_year y) ! nat (month mod 12) + d - 1)"

text \<open>\<open>YearFromTime\<close>: the last year that starts by this day.\<close>

definition year_of :: "int \<Rightarrow> int" where
  "year_of day =
     (let y = 1970 + (400 * day) div 146097
      in if day_of_year (y + 1) \<le> day then y + 1 else if day_of_year y \<le> day then y else y - 1)"

text \<open>\<open>MonthFromTime\<close> and \<open>DateFromTime\<close>.\<close>

definition month_of :: "int \<Rightarrow> int" where
  "month_of day =
     (let y = year_of day
      in int (length (takeWhile (\<lambda>m. m \<le> day - day_of_year y) (tl (month_starts (leap_year y))))))"

definition date_of :: "int \<Rightarrow> int" where
  "date_of day =
     (let y = year_of day
      in day - day_of_year y - month_starts (leap_year y) ! nat (month_of day) + 1)"

text \<open>\<open>Date.UTC\<close>, with its reading of the years 0 to 99 as those of the last century.\<close>

definition date_UTC :: "int \<Rightarrow> int \<Rightarrow> int \<Rightarrow> int \<Rightarrow> int \<Rightarrow> int \<Rightarrow> int" where
  "date_UTC year month d hour minute second =
     make_day (if 0 \<le> year \<and> year \<le> 99 then 1900 + year else year) month d * MS_DAY +
     hour * 3600000 + minute * 60000 + second * 1000"

section \<open>Windows\<close>

record wall =
  wl_year :: int
  wl_month :: int
  wl_day :: int
  wl_hour :: int
  wl_minute :: int
  wl_second :: int
  wl_weekday :: int

type_synonym zone = "int \<Rightarrow> int"

text \<open>\<open>local\<close>: the wall-clock date and time at an instant; Sunday is weekday 0.\<close>

definition wall_clock :: "int \<Rightarrow> zone \<Rightarrow> wall" where
  "wall_clock instant zone =
     (let t = instant + zone instant; day = t div MS_DAY; rest = t mod MS_DAY
      in \<lparr>wl_year = year_of day, wl_month = month_of day, wl_day = date_of day,
          wl_hour = rest div 3600000, wl_minute = rest mod 3600000 div 60000,
          wl_second = rest mod 60000 div 1000, wl_weekday = (day + 4) mod 7\<rparr>)"

text \<open>\<open>offset\<close> and \<open>midnight\<close>.\<close>

definition zone_offset :: "int \<Rightarrow> zone \<Rightarrow> int" where
  "zone_offset instant zone =
     (let w = wall_clock instant zone
      in date_UTC (wl_year w) (wl_month w) (wl_day w) (wl_hour w) (wl_minute w) (wl_second w) -
         instant div 1000 * 1000)"

definition midnight :: "int \<Rightarrow> int \<Rightarrow> int \<Rightarrow> zone \<Rightarrow> int" where
  "midnight year month d zone =
     (let utc = date_UTC year month d 0 0 0;
          first = utc - zone_offset utc zone
      in utc - zone_offset first zone)"

record budget_window =
  wd_start :: int
  wd_reset :: int

definition budgetWindow :: "period \<Rightarrow> int \<Rightarrow> zone \<Rightarrow> budget_window" where
  "budgetWindow p now zone =
     (let w = wall_clock now zone; y = wl_year w; m = wl_month w; d = wl_day w
      in case p of
           PeriodDay \<Rightarrow> \<lparr>wd_start = midnight y m d zone, wd_reset = midnight y m (d + 1) zone\<rparr>
         | PeriodWeek \<Rightarrow>
             (let back = (wl_weekday w + 6) mod 7
              in \<lparr>wd_start = midnight y m (d - back) zone, wd_reset = midnight y m (d - back + 7) zone\<rparr>)
         | PeriodMonth \<Rightarrow> \<lparr>wd_start = midnight y m 1 zone, wd_reset = midnight y (m + 1) 1 zone\<rparr>)"

end
