(* ===== verification/WindowProps.thy ===== *)
theory WindowProps
  imports BudgetWindows
begin

text \<open>
  The dates of BudgetWindows are those of the Gregorian calendar, and the window of a budget is the
  local day, week or month it is now.
\<close>

section \<open>Years and months\<close>

lemma div_bounds:
  fixes a b :: int
  assumes "0 < b"
  shows "b * (a div b) \<le> a" and "a < b * (a div b) + b"
  using pos_mod_bound [OF assms, of a] pos_mod_sign [OF assms, of a] mult_div_mod_eq [of b a]
  by linarith+

lemma div_step:
  fixes a b :: int
  assumes "1 < b"
  shows "(a + 1) div b = a div b + (if (a + 1) mod b = 0 then 1 else 0)"
proof (cases "a mod b + 1 = b")
  case True
  then have "a + 1 = b * (a div b + 1)" using mult_div_mod_eq [of b a]
    unfolding distrib_left by linarith
  then have "(a + 1) div b = a div b + 1 \<and> (a + 1) mod b = 0"
    using assms by (metis nonzero_mult_div_cancel_left mod_mult_self1_is_0 not_one_less_zero)
  then show ?thesis by simp
next
  case False
  with assms have r: "0 \<le> a mod b + 1" "a mod b + 1 < b"
    using pos_mod_bound [of b a] pos_mod_sign [of b a] by linarith+
  have "a + 1 = b * (a div b) + (a mod b + 1)" using mult_div_mod_eq [of b a] by linarith
  then have "(a + 1) div b = a div b" "(a + 1) mod b = a mod b + 1"
    using r by (simp_all only: int_div_pos_eq [OF _ r] int_mod_pos_eq [OF _ r])
  moreover have "a mod b + 1 \<noteq> 0" using pos_mod_sign [of b a] assms by linarith
  ultimately show ?thesis by simp
qed

lemma leap_sum:
  fixes a b c t :: int
  assumes "X = a + (if P then 1 else 0)" "Y = b + (if Q then 1 else 0)"
    "Z = c + (if R then 1 else 0)" "R \<Longrightarrow> Q" "Q \<Longrightarrow> P"
  shows "t + 365 + X - Y + Z = t + a - b + c + (if P \<and> (\<not> Q \<or> R) then 366 else 365)"
  using assms by auto

lemma day_of_year_Suc:
  "day_of_year (y + 1) = day_of_year y + (if leap_year y then 366 else 365)"
proof -
  have 4: "(y - 1968) div 4 = (y - 1969) div 4 + (if y mod 4 = 0 then 1 else 0)"
    using div_step [of 4 "y - 1969"] mod_mult_self1 [of y "-492" 4] by simp
  have 100: "(y - 1900) div 100 = (y - 1901) div 100 + (if y mod 100 = 0 then 1 else 0)"
    using div_step [of 100 "y - 1901"] mod_mult_self1 [of y "-19" 100] by simp
  have 400: "(y - 1600) div 400 = (y - 1601) div 400 + (if y mod 400 = 0 then 1 else 0)"
    using div_step [of 400 "y - 1601"] mod_mult_self1 [of y "-4" 400] by simp
  have "y mod 400 mod 100 = y mod 100" "y mod 100 mod 4 = y mod 4"
    by (simp_all add: mod_mod_cancel)
  then have mods: "y mod 400 = 0 \<Longrightarrow> y mod 100 = 0" "y mod 100 = 0 \<Longrightarrow> y mod 4 = 0" by auto
  have next_day: "day_of_year (y + 1) =
      365 * (y - 1970) + 365 + (y - 1968) div 4 - (y - 1900) div 100 + (y - 1600) div 400"
    by (simp add: day_of_year_def)
  show ?thesis
    unfolding next_day day_of_year_def [of y] leap_year_def by (rule leap_sum [OF 4 100 400 mods])
qed

lemma day_of_year_less: "y < y' \<Longrightarrow> day_of_year y < day_of_year y'"
proof (induction "nat (y' - y)" arbitrary: y')
  case (Suc n)
  show ?case
  proof (cases "y = y' - 1")
    case True
    then show ?thesis using day_of_year_Suc [of y] by (simp split: if_splits)
  next
    case False
    with Suc have "day_of_year y < day_of_year (y' - 1)" by simp
    then show ?thesis using day_of_year_Suc [of "y' - 1"] by (simp split: if_splits)
  qed
qed simp

lemma day_of_year_near:
  "400 * day_of_year (1970 + k) \<le> 146097 * k + 600" "146097 * k - 600 \<le> 400 * day_of_year (1970 + k)"
  using div_bounds [of 4 "k + 1"] div_bounds [of 100 "k + 69"] div_bounds [of 400 "k + 369"]
  by (simp_all add: day_of_year_def algebra_simps)

lemma year_of_bounds:
  "day_of_year (year_of n) \<le> n \<and> n < day_of_year (year_of n + 1)"
proof -
  define k where "k = (400 * n) div 146097"
  have k: "146097 * k \<le> 400 * n" "400 * n < 146097 * (k + 1)"
    using div_bounds [of 146097 "400 * n"] by (simp_all add: k_def algebra_simps)
  have "day_of_year (1970 + (k - 1)) \<le> n"
    using day_of_year_near(1) [of "k - 1"] k(1) by (simp add: right_diff_distrib)
  moreover have "n < day_of_year (1970 + (k + 2))"
    using day_of_year_near(2) [of "k + 2"] k(2) by (simp add: distrib_left)
  ultimately show ?thesis
    by (simp add: year_of_def Let_def add.assoc add.commute flip: k_def)
qed

lemma year_of_unique:
  assumes "day_of_year y \<le> n" "n < day_of_year (y + 1)"
  shows "year_of n = y"
proof (rule ccontr)
  assume "year_of n \<noteq> y"
  then consider "year_of n + 1 \<le> y" | "y + 1 \<le> year_of n" by linarith
  then show False
    using day_of_year_less [of "year_of n + 1" y] day_of_year_less [of "y + 1" "year_of n"]
      year_of_bounds [of n] assms by cases (auto simp: order_le_less)
qed

lemma year_of_mono: "m \<le> n \<Longrightarrow> year_of m \<le> year_of n"
  using year_of_bounds [of m] year_of_bounds [of n] day_of_year_less [of "year_of n + 1" "year_of m"]
  by (cases "year_of n + 1 = year_of m") fastforce+

lemma year_of_since_1969: "-365 \<le> n \<Longrightarrow> 1969 \<le> year_of n"
  using year_of_mono [of "-365" n] by (simp add: year_of_def day_of_year_def)

lemma month_lengths:
  "k < 12 \<Longrightarrow> month_starts leap ! k + 28 \<le> month_starts leap ! Suc k \<and>
    month_starts leap ! Suc k \<le> month_starts leap ! k + 31"
  by (auto simp: month_starts_def less_Suc_eq numeral_eq_Suc)

lemma month_starts_ends [simp]:
  "month_starts leap ! 0 = 0" "month_starts leap ! nat 12 = (if leap then 366 else 365)"
  by (simp_all add: month_starts_def)

lemma year_day_bounds:
  "0 \<le> n - day_of_year (year_of n)"
  "n - day_of_year (year_of n) < (if leap_year (year_of n) then 366 else 365)"
  using year_of_bounds [of n] by (simp_all add: day_of_year_Suc split: if_splits)

lemma last_start:
  fixes xs :: "int list"
  assumes "xs = x # ys" "x \<le> r" "ys \<noteq> []" "r < last ys"
  shows "length (takeWhile (\<lambda>y. y \<le> r) ys) < length ys"
    and "xs ! length (takeWhile (\<lambda>y. y \<le> r) ys) \<le> r"
    and "r < xs ! Suc (length (takeWhile (\<lambda>y. y \<le> r) ys))"
proof -
  let ?t = "takeWhile (\<lambda>y. y \<le> r) ys"
  have "?t \<noteq> ys"
    using assms(3,4) set_takeWhileD [of "last ys" "\<lambda>y. y \<le> r" ys] last_in_set [of ys] by force
  then show len: "length ?t < length ys"
    by (metis length_takeWhile_le nat_less_le takeWhile_eq_take take_all_iff)
  show "r < xs ! Suc (length ?t)"
    using nth_length_takeWhile [OF len] assms(1) by simp
  show "xs ! length ?t \<le> r"
  proof (cases "length ?t")
    case 0
    then show ?thesis using assms(1,2) by simp
  next
    case (Suc k)
    then have "?t ! k = ys ! k" "?t ! k \<in> set ?t"
      using nth_mem [of k ?t] by (simp_all add: takeWhile_nth del: nth_mem)
    then show ?thesis using assms(1) Suc set_takeWhileD by fastforce
  qed
qed

lemma month_of_bounds:
  defines "r \<equiv> \<lambda>n. n - day_of_year (year_of n)" and "l \<equiv> \<lambda>n. leap_year (year_of n)"
  shows "0 \<le> month_of n \<and> month_of n < 12 \<and> month_starts (l n) ! nat (month_of n) \<le> r n \<and>
    r n < month_starts (l n) ! nat (month_of n + 1)"
proof -
  let ?xs = "month_starts (l n)"
  have "?xs = 0 # tl ?xs" "tl ?xs \<noteq> []" "last (tl ?xs) = (if l n then 366 else 365)" "length (tl ?xs) = 12"
    by (simp_all add: month_starts_def)
  then show ?thesis
    using last_start [of ?xs 0 "tl ?xs" "r n"] year_day_bounds [of n]
    by (simp add: month_of_def Let_def r_def l_def nat_add_distrib)
qed

lemma make_day_of [simp]: "make_day (year_of n) (month_of n) (date_of n) = n"
  using month_of_bounds [of n] by (simp add: make_day_def date_of_def Let_def)

lemma make_day_add: "make_day y m (d + k) = make_day y m d + k"
  by (simp add: make_day_def Let_def)

lemma date_of_pos: "1 \<le> date_of n"
  using month_of_bounds [of n] by (simp add: date_of_def Let_def)

lemma month_starts_less:
  "i < j \<Longrightarrow> j \<le> 12 \<Longrightarrow> month_starts leap ! i < month_starts leap ! j"
proof (induction j)
  case (Suc j)
  then show ?case using month_lengths [of j leap] by (cases "i = j") auto
qed simp

lemma month_starts_le:
  "i \<le> j \<Longrightarrow> j \<le> 12 \<Longrightarrow> month_starts leap ! i \<le> month_starts leap ! j"
  using month_starts_less [of i j leap] by (cases "i = j") auto

lemma day_in_month:
  assumes k: "k < 12" and lo: "day_of_year y + month_starts (leap_year y) ! k \<le> n"
    and hi: "n < day_of_year y + month_starts (leap_year y) ! Suc k"
  shows "year_of n = y" "month_of n = int k"
    "date_of n = n - day_of_year y - month_starts (leap_year y) ! k + 1"
proof -
  let ?s = "\<lambda>i. month_starts (leap_year y) ! i"
  have "?s 0 \<le> ?s k" "?s (Suc k) \<le> ?s 12"
    by (rule month_starts_le; use k in simp)+
  then have "day_of_year y \<le> n" "n < day_of_year (y + 1)"
    using lo hi by (simp_all add: day_of_year_Suc month_starts_def split: if_splits)
  then show y: "year_of n = y" by (rule year_of_unique)
  obtain j where j: "month_of n = int j" "j < 12" "?s j \<le> n - day_of_year y" "n - day_of_year y < ?s (Suc j)"
    using month_of_bounds [of n] y by (cases "month_of n") (auto simp: nat_add_distrib)
  have "j = k"
  proof (rule ccontr)
    assume "j \<noteq> k"
    then consider "Suc j \<le> k" | "Suc k \<le> j" by linarith
    then show False
    proof cases
      case 1
      from month_starts_le [OF this, of "leap_year y"] j(4) k lo show False by linarith
    next
      case 2
      from month_starts_le [OF this, of "leap_year y"] j(2,3) hi show False by linarith
    qed
  qed
  with j(1) show "month_of n = int k" by simp
  then show "date_of n = n - day_of_year y - ?s k + 1" by (simp add: date_of_def y)
qed

section \<open>The calendar\<close>

text \<open>The days a window of a period starts on: every day, Mondays, the 1st of a month.\<close>

definition boundary :: "period \<Rightarrow> int \<Rightarrow> bool" where
  "boundary p day =
     (case p of PeriodDay \<Rightarrow> True | PeriodWeek \<Rightarrow> (day + 4) mod 7 = 1 | PeriodMonth \<Rightarrow> date_of day = 1)"

text \<open>From one such day to before the next, with \<open>day\<close> between, no more than a month long.\<close>

definition calendar_days :: "period \<Rightarrow> int \<Rightarrow> int \<Rightarrow> int \<Rightarrow> bool" where
  "calendar_days p day lo hi \<longleftrightarrow>
     lo \<le> day \<and> day < hi \<and> hi \<le> lo + 31 \<and> boundary p lo \<and> boundary p hi \<and>
     (\<forall>d. lo < d \<longrightarrow> d < hi \<longrightarrow> \<not> boundary p d)"

lemma calendar_day: "calendar_days PeriodDay day day (day + 1)"
  by (simp add: calendar_days_def boundary_def)

lemma calendar_week:
  assumes "since = ((day + 4) mod 7 + 6) mod 7"
  shows "calendar_days PeriodWeek day (day - since) (day - since + 7)"
proof -
  have "0 \<le> since" "since < 7" "(day - since + 4) mod 7 = 1"
    unfolding assms by presburger+
  moreover have "lo < d \<Longrightarrow> d < lo + 7 \<Longrightarrow> (lo + 4) mod 7 = 1 \<Longrightarrow> (d + 4) mod 7 \<noteq> 1" for lo d :: int
    by presburger
  moreover have "(day - since + 7 + 4) mod 7 = 1" using calculation(3) by presburger
  ultimately show ?thesis by (simp add: calendar_days_def boundary_def)
qed

lemma make_day_month:
  assumes "k < 12"
  shows "make_day y (int k) d = day_of_year y + month_starts (leap_year y) ! k + d - 1"
    and "make_day y (int k + 1) 1 = day_of_year y + month_starts (leap_year y) ! Suc k"
proof -
  show "make_day y (int k) d = day_of_year y + month_starts (leap_year y) ! k + d - 1"
    using assms by (simp add: make_day_def Let_def)
  show "make_day y (int k + 1) 1 = day_of_year y + month_starts (leap_year y) ! Suc k"
  proof (cases "k = 11")
    case True
    then show ?thesis by (simp add: make_day_def Let_def day_of_year_Suc month_starts_def)
  next
    case False
    with assms have "int k + 1 < 12" "nat (int k + 1) = Suc k" by simp_all
    then show ?thesis by (simp add: make_day_def Let_def)
  qed
qed

lemma calendar_month:
  "calendar_days PeriodMonth day (make_day (year_of day) (month_of day) 1)
     (make_day (year_of day) (month_of day + 1) 1)"
proof -
  define y where "y = year_of day"
  define k where "k = nat (month_of day)"
  let ?s = "\<lambda>i. day_of_year y + month_starts (leap_year y) ! i"
  have m: "month_of day = int k" and k: "k < 12" "?s k \<le> day" "day < ?s (Suc k)"
    using month_of_bounds [of day] by (auto simp: k_def y_def nat_add_distrib)
  have first: "date_of (?s j) = 1" if "j \<le> 12" for j
  proof (cases "j = 12")
    case True
    have "?s j = day_of_year (y + 1) + month_starts (leap_year (y + 1)) ! 0"
      using True by (simp add: day_of_year_Suc month_starts_def)
    then show ?thesis using day_in_month(3) [of 0 "y + 1" "?s j"] month_lengths [of 0 "leap_year (y + 1)"]
      by simp
  next
    case False
    with that show ?thesis
      using day_in_month(3) [of j y "?s j"] month_lengths [of j "leap_year y"] by simp
  qed
  have "date_of d \<noteq> 1" if "?s k < d" "d < ?s (Suc k)" for d
    using day_in_month(3) [of k y d] k that by simp
  moreover have "?s (Suc k) \<le> ?s k + 31" using month_lengths [of k "leap_year y"] k by simp
  ultimately show ?thesis
    using k first [of k] first [of "Suc k"]
    by (simp add: calendar_days_def boundary_def m make_day_month flip: y_def)
qed

section \<open>Local midnights\<close>

text \<open>
  Zones are ahead or behind by whole seconds and less than a day. The local clock strikes the
  midnight a day starts with once, at the instant \<open>t\<close>, and within a day of it the zone changes
  between two offsets at most.
\<close>

definition whole_seconds :: "zone \<Rightarrow> bool" where
  "whole_seconds zone \<longleftrightarrow> (\<forall>x. zone x mod 1000 = 0 \<and> \<bar>zone x\<bar> < MS_DAY)"

definition strikes :: "zone \<Rightarrow> int \<Rightarrow> int \<Rightarrow> bool" where
  "strikes zone day t \<longleftrightarrow>
     t + zone t = day * MS_DAY \<and>
     (\<forall>x < t. x + zone x < day * MS_DAY) \<and> (\<forall>x > t. day * MS_DAY < x + zone x) \<and>
     (\<exists>z. \<forall>x. \<bar>x - day * MS_DAY\<bar> < MS_DAY \<longrightarrow> zone x = z \<or> zone x = zone t)"

lemma struck_before: "strikes zone day t \<Longrightarrow> day * MS_DAY \<le> x + zone x \<Longrightarrow> t \<le> x"
  unfolding strikes_def by (metis linorder_not_less)

lemma struck_after:
  assumes "strikes zone day t" "x + zone x < day * MS_DAY"
  shows "x < t"
proof (rule ccontr)
  assume "\<not> x < t"
  then consider "x = t" | "t < x" by linarith
  then show False using assms by cases (auto simp: strikes_def)
qed

lemma clock_parts:
  fixes t :: int
  shows "t div MS_DAY * MS_DAY + t mod MS_DAY div 3600000 * 3600000 +
    t mod MS_DAY mod 3600000 div 60000 * 60000 + t mod MS_DAY mod 60000 div 1000 * 1000 = t div 1000 * 1000"
proof -
  let ?r = "t mod MS_DAY"
  have "?r mod 3600000 mod 60000 = ?r mod 60000" "?r mod 60000 mod 1000 = ?r mod 1000"
    "?r mod 1000 = t mod 1000"
    by (simp_all add: MS_DAY_def mod_mod_cancel)
  then show ?thesis
    unfolding minus_mod_eq_div_mult [symmetric] by linarith
qed

lemma zone_offset_eq:
  assumes "whole_seconds zone" "-365 \<le> (x + zone x) div MS_DAY"
  shows "zone_offset x zone = zone x"
proof -
  let ?t = "x + zone x"
  have "1969 \<le> year_of (?t div MS_DAY)" using assms(2) by (rule year_of_since_1969)
  then have "zone_offset x zone = ?t div 1000 * 1000 - x div 1000 * 1000"
    unfolding clock_parts [of ?t, symmetric]
    by (simp add: zone_offset_def wall_clock_def date_UTC_def Let_def)
  moreover have "zone x mod 1000 = 0" using assms(1) by (simp add: whole_seconds_def)
  then obtain q where "zone x = q * 1000" by (metis mod_0_imp_dvd dvd_def mult.commute)
  then have "?t div 1000 * 1000 = x div 1000 * 1000 + zone x" by (simp add: distrib_right)
  ultimately show ?thesis by linarith
qed

lemma local_day_near:
  assumes "whole_seconds zone" "-100 \<le> d" "d * MS_DAY - MS_DAY \<le> x"
  shows "-365 \<le> (x + zone x) div MS_DAY"
proof -
  have "-MS_DAY < zone x" using assms(1) by (simp add: whole_seconds_def abs_less_iff minus_less_iff)
  with assms(3) have "(d - 2) * MS_DAY \<le> x + zone x" by (simp add: left_diff_distrib)
  then have "(d - 2) * MS_DAY div MS_DAY \<le> (x + zone x) div MS_DAY"
    by (rule zdiv_mono1) (simp add: MS_DAY_def)
  with assms(2) show ?thesis by (simp add: MS_DAY_def)
qed

text \<open>The instant the code finds is the one the midnight is struck at.\<close>

lemma midnight_struck:
  assumes zone: "whole_seconds zone" and day: "make_day y m d = day" "-100 \<le> day" "1969 \<le> y"
    and t: "strikes zone day t"
  shows "midnight y m d zone = t"
proof -
  let ?u = "day * MS_DAY"
  have off: "zone_offset x zone = zone x" if "?u - MS_DAY \<le> x" for x
    by (rule zone_offset_eq [OF zone local_day_near [OF zone day(2) that]])
  have near: "\<bar>zone x\<bar> < MS_DAY" for x using zone by (simp add: whole_seconds_def)
  have "midnight y m d zone = ?u - zone (?u - zone ?u)"
    using day near [of ?u]
    by (simp add: midnight_def date_UTC_def Let_def off)
  moreover have "zone (?u - zone ?u) = zone t"
  proof (cases "?u - zone ?u = t")
    case False
    then have "zone ?u \<noteq> zone t" using t by (auto simp: strikes_def)
    moreover have "zone (?u - zone ?u) \<noteq> zone ?u"
    proof
      assume "zone (?u - zone ?u) = zone ?u"
      then have "?u - zone ?u + zone (?u - zone ?u) = ?u" by simp
      with False t show False
        by (metis less_irrefl linorder_neqE strikes_def)
    qed
    moreover obtain z where z: "\<And>x. \<bar>x - ?u\<bar> < MS_DAY \<Longrightarrow> zone x = z \<or> zone x = zone t"
      using t by (auto simp: strikes_def)
    moreover have "\<bar>?u - ?u\<bar> < MS_DAY" by (simp add: MS_DAY_def)
    moreover have "\<bar>?u - zone ?u - ?u\<bar> < MS_DAY" using near [of ?u] by simp
    ultimately show ?thesis by metis
  qed simp
  ultimately show ?thesis using t by (simp add: strikes_def)
qed

text \<open>The window in terms of days.\<close>

lemma window_of_days:
  obtains lo_year lo_month lo_day hi_month hi_day
  where "budgetWindow p now zone =
      \<lparr>wd_start = midnight lo_year lo_month lo_day zone, wd_reset = midnight lo_year hi_month hi_day zone\<rparr>"
    and "lo_year = year_of ((now + zone now) div MS_DAY)"
    and "calendar_days p ((now + zone now) div MS_DAY)
      (make_day lo_year lo_month lo_day) (make_day lo_year hi_month hi_day)"
proof -
  let ?day = "(now + zone now) div MS_DAY"
  note unfold = budgetWindow_def wall_clock_def Let_def
  show thesis
  proof (cases p)
    case PeriodDay
    then show thesis
      by (intro that [of "year_of ?day" "month_of ?day" "date_of ?day" "month_of ?day" "date_of ?day + 1"])
        (simp_all add: unfold make_day_add calendar_day)
  next
    case PeriodWeek
    let ?since = "((?day + 4) mod 7 + 6) mod 7"
    have "make_day y m (d - k) = make_day y m d - k" for y m d k
      using make_day_add [of y m d "-k"] by simp
    with PeriodWeek show thesis
      using calendar_week [OF refl, of ?day]
      by (intro that [of "year_of ?day" "month_of ?day" "date_of ?day - ?since" "month_of ?day"
          "date_of ?day - ?since + 7"])
        (simp_all add: unfold make_day_add)
  next
    case PeriodMonth
    then show thesis
      using calendar_month [of ?day]
      by (intro that [of "year_of ?day" "month_of ?day" 1 "month_of ?day + 1" 1]) (simp_all add: unfold)
  qed
qed

text \<open>A zone with one change has a clean midnight wherever the change neither skips nor repeats it.\<close>

definition one_change :: "int \<Rightarrow> int \<Rightarrow> int \<Rightarrow> zone" where
  "one_change c z z' = (\<lambda>x. if x < c then z else z')"

lemma one_change_strikes:
  assumes "day * MS_DAY < c + min z z' \<or> c + max z z' \<le> day * MS_DAY"
  shows "\<exists>t. strikes (one_change c z z') day t"
  using assms
proof
  assume "day * MS_DAY < c + min z z'"
  then have "strikes (one_change c z z') day (day * MS_DAY - z)"
    by (auto simp: strikes_def one_change_def)
  then show ?thesis ..
next
  assume "c + max z z' \<le> day * MS_DAY"
  then have "strikes (one_change c z z') day (day * MS_DAY - z')"
    by (auto simp: strikes_def one_change_def)
  then show ?thesis ..
qed

text \<open>
  C29: wherever the local midnights around are struck once, the window of a budget begins at the
  midnight of the last boundary of its period (the day itself, its Monday, the 1st of its month) by
  the local calendar and resets at the midnight of the next one, and it contains now, across
  changes of the zone's offset too.
\<close>

theorem window_is_calendar:
  assumes "0 \<le> now" "whole_seconds zone"
    and midnights: "\<And>d. boundary p d \<Longrightarrow> \<bar>d - (now + zone now) div MS_DAY\<bar> \<le> 31 \<Longrightarrow> \<exists>t. strikes zone d t"
  shows "\<exists>lo hi. calendar_days p ((now + zone now) div MS_DAY) lo hi \<and>
    strikes zone lo (wd_start (budgetWindow p now zone)) \<and>
    strikes zone hi (wd_reset (budgetWindow p now zone)) \<and>
    wd_start (budgetWindow p now zone) \<le> now \<and> now < wd_reset (budgetWindow p now zone)"
proof -
  let ?clock = "now + zone now" and ?w = "budgetWindow p now zone"
  obtain y m d m' d' where w: "?w = \<lparr>wd_start = midnight y m d zone, wd_reset = midnight y m' d' zone\<rparr>"
    and y: "y = year_of (?clock div MS_DAY)"
    and days: "calendar_days p (?clock div MS_DAY) (make_day y m d) (make_day y m' d')"
    by (rule window_of_days)
  define lo where "lo = make_day y m d"
  define hi where "hi = make_day y m' d'"
  have "-MS_DAY < zone now" using assms(2) unfolding whole_seconds_def by (metis abs_less_iff minus_less_iff)
  with assms(1) have "-MS_DAY \<le> ?clock" by linarith
  then have "-1 \<le> ?clock div MS_DAY"
    using zdiv_mono1 [of "-MS_DAY" ?clock MS_DAY] by (simp add: MS_DAY_def)
  moreover from this have "1969 \<le> y" unfolding y by (intro year_of_since_1969) simp
  moreover have range: "lo \<le> ?clock div MS_DAY" "?clock div MS_DAY < hi" "hi \<le> lo + 31"
    "boundary p lo" "boundary p hi"
    using days by (simp_all add: calendar_days_def lo_def hi_def)
  ultimately have start: "strikes zone lo (wd_start ?w)" and reset: "strikes zone hi (wd_reset ?w)"
    using midnights [of lo] midnights [of hi] midnight_struck [OF assms(2) lo_def [symmetric]]
      midnight_struck [OF assms(2) hi_def [symmetric]] by (auto simp: w)
  have "lo * MS_DAY \<le> ?clock" "?clock < hi * MS_DAY"
    using range(1,2) by (simp_all add: MS_DAY_def)
  then have "wd_start ?w \<le> now" "now < wd_reset ?w"
    using struck_before [OF start] struck_after [OF reset] by blast+
  with start reset days show ?thesis unfolding lo_def hi_def by blast
qed

text \<open>New York on 8 March 2026, the day its clocks go forward at two in the morning.\<close>

definition new_york :: zone where
  "new_york = one_change 1772953200000 (-18000000) (-14400000)"

theorem window_is_calendar_witness:
  "wd_start (budgetWindow PeriodWeek 1772985600000 new_york) \<le> 1772985600000 \<and>
   1772985600000 < wd_reset (budgetWindow PeriodWeek 1772985600000 new_york)"
proof -
  have "\<exists>t. strikes new_york d t" for d
    unfolding new_york_def by (rule one_change_strikes) (simp add: MS_DAY_def; linarith)
  moreover have "whole_seconds new_york"
    by (auto simp: whole_seconds_def new_york_def one_change_def MS_DAY_def)
  ultimately show ?thesis
    using window_is_calendar [of 1772985600000 new_york PeriodWeek] by auto
qed

text \<open>
  Santiago on 7 September 2025, whose clocks go from midnight to one in the morning: the code puts
  the start of the day an hour before it, at eleven in the evening, so that hour is after the reset
  of its own day and counts in the next.
\<close>

definition santiago :: zone where
  "santiago = one_change 1757217600000 (-14400000) (-10800000)"

lemma skipped_midnight:
  "wd_reset (budgetWindow PeriodDay 1757215800000 santiago) = 1757214000000"
  "wd_start (budgetWindow PeriodDay 1757246400000 santiago) = 1757214000000"
  by code_simp+

end
