(* ===== verification/Quotas.thy ===== *)
theory Quotas
  imports BudgetWindows
begin

text \<open>
  Gateway Key quotas (\<open>class Quotas\<close> of \<open>packages/gateway/src/quota.ts\<close>): budgets per calendar window,
  counted from the ledger, with reservations for the requests in flight, and the per-minute bucket.

  The sums of a window are objects: the cache, and the admissions that wait for another load, hold
  the same one, and \<open>record\<close> adds to it in place. They live in \<open>qs_objects\<close> and are named by their
  position there. So are the closures \<open>release\<close> of admitted requests (\<open>qs_releases\<close>, each with its
  flag \<open>released\<close>). An awaited call splits an operation: \<open>admit\<close> loads the sums of each budget
  (\<open>cachedSums\<close>, else \<open>loadSums\<close> with the ledger's answer), then checks and reserves without waiting
  (\<open>checkAdmission\<close>), so other operations may come between.

  Tokens and calls are whole numbers; costs, caps and the bucket, which the code keeps in doubles,
  are \<open>real\<close>. The ledger's answer, the price of the model and the zone are arguments. The text of a
  refusal is a constructor with the values it shows; an ISO date is its instant.
\<close>

section \<open>Records\<close>

record usage_sums =
  sm_start :: int
  sm_reset :: int
  sm_calls :: int
  sm_input :: int
  sm_cacheRead :: int
  sm_cacheWrite :: int
  sm_output :: int
  sm_reasoning :: int
  sm_cost :: real

record window_sums = usage_sums +
  sm_fetchedAt :: int

record held =
  hd_n :: int
  hd_tokens :: int
  hd_cost :: real

record bucket =
  bt_tokens :: real
  bt_at :: int

record hold =
  ho_slot :: jstring
  ho_tokens :: int
  ho_cost :: real

record call_usage =
  us_input :: int
  us_cacheRead :: int
  us_cacheWrite :: int
  us_output :: int
  us_reasoning :: int

text \<open>What the code reads of a ledger entry, and of the ledger's sums.\<close>

record call_entry =
  ce_keyId :: "jstring option"
  ce_occurredAt :: int
  ce_usage :: "call_usage option"
  ce_status :: int
  ce_cost :: "real option"

record usage_bucket =
  ub_calls :: int
  ub_failedCalls :: int
  ub_usage :: call_usage
  ub_costUsd :: real

record quotas =
  qs_objects :: "window_sums list"
  qs_sums :: "(jstring, nat) jmap"
  qs_held :: "(jstring, held) jmap"
  qs_buckets :: "(jstring, bucket) jmap"
  qs_unrecorded :: "(jstring, usage_sums) jmap"
  qs_releases :: "(hold list \<times> bool) list"

definition new_quotas :: quotas where
  "new_quotas = \<lparr>qs_objects = [], qs_sums = [], qs_held = [], qs_buckets = [], qs_unrecorded = [],
     qs_releases = []\<rparr>"

datatype quota_limit = PerMinuteLimit | BudgetLimit period

datatype quota_message =
    AlwaysRefused jstring period bool
  | BudgetUsed jstring period bool int real bool int
  | MinuteUsed int

record quota_refusal =
  qr_limit :: quota_limit
  qr_retryAfterMs :: int
  qr_resetsAt :: "int option"
  qr_message :: quota_message

text \<open>An admitted request's \<open>release\<close> is named by its place; \<open>None\<close> is the one that does nothing.\<close>

datatype quota_admission = Granted "nat option" | Denied quota_refusal

definition QUOTA_REFRESH_MS :: int where "QUOTA_REFRESH_MS = 10000"
definition SUMS_LIMIT :: nat where "SUMS_LIMIT = 30000"
definition BUCKETS_LIMIT :: nat where "BUCKETS_LIMIT = 10000"

definition EMPTY_SUMS :: usage_sums where
  "EMPTY_SUMS = \<lparr>sm_start = 0, sm_reset = 0, sm_calls = 0, sm_input = 0, sm_cacheRead = 0,
     sm_cacheWrite = 0, sm_output = 0, sm_reasoning = 0, sm_cost = 0\<rparr>"

text \<open>\<open>add\<close>: an entry's usage, answered call and cost.\<close>

definition add_entry :: "call_entry \<Rightarrow> 'a usage_sums_scheme \<Rightarrow> 'a usage_sums_scheme" where
  "add_entry e s =
     (let used = (case ce_usage e of
            None \<Rightarrow> s
          | Some u \<Rightarrow> s\<lparr>sm_input := sm_input s + us_input u, sm_cacheRead := sm_cacheRead s + us_cacheRead u,
              sm_cacheWrite := sm_cacheWrite s + us_cacheWrite u, sm_output := sm_output s + us_output u,
              sm_reasoning := sm_reasoning s + us_reasoning u\<rparr>);
          called = (if ce_status e < 400 then used\<lparr>sm_calls := sm_calls used + 1\<rparr> else used)
      in called\<lparr>sm_cost := sm_cost called + (case ce_cost e of Some c \<Rightarrow> c | None \<Rightarrow> 0)\<rparr>)"

definition counted :: "'a usage_sums_scheme \<Rightarrow> key_budget \<Rightarrow> int" where
  "counted s b = sm_input s + sm_output s + sm_reasoning s + sm_cacheWrite s +
     (if b_cacheReads b = Some True then sm_cacheRead s else 0)"

definition period_text :: "period \<Rightarrow> jstring" where
  "period_text p = (case p of PeriodDay \<Rightarrow> js ''day'' | PeriodWeek \<Rightarrow> js ''week'' | PeriodMonth \<Rightarrow> js ''month'')"

definition slot :: "jstring \<Rightarrow> period \<Rightarrow> jstring" where
  "slot keyId p = keyId @ 0 # period_text p"

definition budgetPeriods :: "period list" where
  "budgetPeriods = [PeriodDay, PeriodWeek, PeriodMonth]"

section \<open>Reading the ledger\<close>

text \<open>\<open>#read\<close>, once the ledger answered.\<close>

definition readSums :: "zone \<Rightarrow> jstring \<Rightarrow> period \<Rightarrow> int \<Rightarrow> usage_bucket option \<Rightarrow> quotas \<Rightarrow> window_sums" where
  "readSums zone keyId p now answer q =
     (let w = budgetWindow p now zone;
          extra = (case jget (qs_unrecorded q) (slot keyId p) of
             Some kept \<Rightarrow> if sm_start kept = wd_start w then kept else EMPTY_SUMS
           | None \<Rightarrow> EMPTY_SUMS);
          u = (case answer of Some b \<Rightarrow> ub_usage b
            | None \<Rightarrow> \<lparr>us_input = 0, us_cacheRead = 0, us_cacheWrite = 0, us_output = 0, us_reasoning = 0\<rparr>)
      in \<lparr>sm_start = wd_start w, sm_reset = wd_reset w,
          sm_calls = (case answer of Some b \<Rightarrow> ub_calls b - ub_failedCalls b | None \<Rightarrow> 0) + sm_calls extra,
          sm_input = us_input u + sm_input extra, sm_cacheRead = us_cacheRead u + sm_cacheRead extra,
          sm_cacheWrite = us_cacheWrite u + sm_cacheWrite extra, sm_output = us_output u + sm_output extra,
          sm_reasoning = us_reasoning u + sm_reasoning extra,
          sm_cost = (case answer of Some b \<Rightarrow> ub_costUsd b | None \<Rightarrow> 0) + sm_cost extra,
          sm_fetchedAt = now\<rparr>)"

text \<open>\<open>#load\<close>: the cached object while it is good, else what was read, cached.\<close>

definition cachedSums :: "jstring \<Rightarrow> period \<Rightarrow> int \<Rightarrow> quotas \<Rightarrow> nat option" where
  "cachedSums keyId p now q =
     (case jget (qs_sums q) (slot keyId p) of
        None \<Rightarrow> None
      | Some a \<Rightarrow>
          (let s = qs_objects q ! a
           in if sm_start s \<le> now \<and> now < sm_reset s \<and> now - sm_fetchedAt s < QUOTA_REFRESH_MS
              then Some a else None))"

definition loadSums :: "zone \<Rightarrow> jstring \<Rightarrow> period \<Rightarrow> int \<Rightarrow> usage_bucket option \<Rightarrow> quotas \<Rightarrow> nat \<times> quotas" where
  "loadSums zone keyId p now answer q =
     (let s = readSums zone keyId p now answer q; a = length (qs_objects q);
          cached = jset (slot keyId p) a (qs_sums q)
      in (a, q\<lparr>qs_objects := qs_objects q @ [s],
          qs_sums := (if length cached > SUMS_LIMIT then [] else cached)\<rparr>))"

section \<open>The per-minute bucket\<close>

text \<open>Requests a bucket holds now.\<close>

definition bucket_level :: "jstring \<Rightarrow> real \<Rightarrow> int \<Rightarrow> quotas \<Rightarrow> real" where
  "bucket_level keyId perMinute now q =
     min perMinute (case jget (qs_buckets q) keyId of
         Some previous \<Rightarrow> bt_tokens previous + real_of_int (now - bt_at previous) * (perMinute / 60000)
       | None \<Rightarrow> perMinute)"

definition perMinute :: "key_record \<Rightarrow> int \<Rightarrow> quotas \<Rightarrow> quota_refusal option \<times> quotas" where
  "perMinute key now q =
     (case Option.bind (k_quota key) q_requestsPerMinute of
        None \<Rightarrow> (None, q)
      | Some limit \<Rightarrow>
          (let rate = real_of_int limit / 60000; tokens = bucket_level (k_keyId key) (real_of_int limit) now q
           in if tokens < 1
              then (Some \<lparr>qr_limit = PerMinuteLimit,
                  qr_retryAfterMs = (if rate > 0 then \<lceil>(1 - tokens) / rate\<rceil> else 60000),
                  qr_resetsAt = None, qr_message = MinuteUsed limit\<rparr>, q)
              else (let taken = jset (k_keyId key) \<lparr>bt_tokens = tokens - 1, bt_at = now\<rparr> (qs_buckets q)
                in (None, q\<lparr>qs_buckets := (if length taken > BUCKETS_LIMIT then [] else taken)\<rparr>))))"

section \<open>Admission\<close>

record quota_request =
  qr_bytes :: int

text \<open>Whether the model's input price is asked for before the check.\<close>

definition needsPrice :: "(key_budget \<times> window_sums) list \<Rightarrow> bool" where
  "needsPrice loaded \<longleftrightarrow> list_ex (\<lambda>(b, s). (case b_costUsd b of
     Some cap \<Rightarrow> cap > 0 \<and> \<not> (sm_cost s > 0 \<and> counted s b > 0) | None \<Rightarrow> False)) loaded"

definition held_tokens :: "jstring \<Rightarrow> quotas \<Rightarrow> int" where
  "held_tokens sl q = (case jget (qs_held q) sl of Some h \<Rightarrow> hd_tokens h | None \<Rightarrow> 0)"

definition held_cost :: "jstring \<Rightarrow> quotas \<Rightarrow> real" where
  "held_cost sl q = (case jget (qs_held q) sl of Some h \<Rightarrow> hd_cost h | None \<Rightarrow> 0)"

definition held_n :: "jstring \<Rightarrow> quotas \<Rightarrow> int" where
  "held_n sl q = (case jget (qs_held q) sl of Some h \<Rightarrow> hd_n h | None \<Rightarrow> 0)"

definition overTokens :: "jstring \<Rightarrow> key_budget \<Rightarrow> window_sums \<Rightarrow> quotas \<Rightarrow> bool" where
  "overTokens keyId b s q \<longleftrightarrow>
     (case b_tokens b of
        Some cap \<Rightarrow> real_of_int (counted s b + held_tokens (slot keyId (b_period b)) q) \<ge> cap
      | None \<Rightarrow> False)"

definition overCost :: "jstring \<Rightarrow> key_budget \<Rightarrow> window_sums \<Rightarrow> quotas \<Rightarrow> bool" where
  "overCost keyId b s q \<longleftrightarrow>
     (case b_costUsd b of
        Some cap \<Rightarrow> sm_cost s + held_cost (slot keyId (b_period b)) q \<ge> cap
      | None \<Rightarrow> False)"

definition budget_refusal :: "key_record \<Rightarrow> int \<Rightarrow> key_budget \<Rightarrow> window_sums \<Rightarrow> quotas \<Rightarrow> quota_refusal" where
  "budget_refusal key now b s q =
     (let used = counted s b; tokens = overTokens (k_keyId key) b s q;
          spent = (if tokens then real_of_int used \<ge> the (b_tokens b) else sm_cost s \<ge> the (b_costUsd b));
          blocked = (if tokens then b_tokens b = Some 0 else b_costUsd b = Some 0)
      in \<lparr>qr_limit = BudgetLimit (b_period b), qr_retryAfterMs = max 1000 (sm_reset s - now),
          qr_resetsAt = Some (sm_reset s),
          qr_message = (if blocked then AlwaysRefused (k_name key) (b_period b) tokens
            else BudgetUsed (k_name key) (b_period b) tokens used (sm_cost s) spent
              (held_n (slot (k_keyId key) (b_period b)) q))\<rparr>)"

fun budgets_refuse :: "key_record \<Rightarrow> int \<Rightarrow> (key_budget \<times> window_sums) list \<Rightarrow> quotas \<Rightarrow> quota_refusal option" where
  "budgets_refuse key now [] q = None"
| "budgets_refuse key now ((b, s) # loaded) q =
     (if overTokens (k_keyId key) b s q \<or> overCost (k_keyId key) b s q
      then Some (budget_refusal key now b s q)
      else budgets_refuse key now loaded q)"

text \<open>What a request holds of one budget.\<close>

definition reserved_tokens :: "int \<Rightarrow> window_sums \<Rightarrow> int" where
  "reserved_tokens bytes s = max 0 bytes div 4 +
     (if sm_calls s > 0 then (sm_output s + sm_reasoning s) div sm_calls s else 0)"

definition hold_of :: "jstring \<Rightarrow> int \<Rightarrow> real option \<Rightarrow> key_budget \<times> window_sums \<Rightarrow> hold" where
  "hold_of keyId bytes price = (\<lambda>(b, s).
     (let used = counted s b; tokens = reserved_tokens bytes s
      in \<lparr>ho_slot = slot keyId (b_period b), ho_tokens = tokens,
          ho_cost = (if b_costUsd b = None then 0
            else if used > 0 \<and> sm_cost s > 0 then real_of_int tokens * sm_cost s / real_of_int used
            else (case price of Some p \<Rightarrow> real_of_int tokens * p / 1000000 | None \<Rightarrow> 0))\<rparr>))"

definition reserve :: "hold \<Rightarrow> (jstring, held) jmap \<Rightarrow> (jstring, held) jmap" where
  "reserve h m =
     (let old = (case jget m (ho_slot h) of Some x \<Rightarrow> x | None \<Rightarrow> \<lparr>hd_n = 0, hd_tokens = 0, hd_cost = 0\<rparr>)
      in jset (ho_slot h) \<lparr>hd_n = hd_n old + 1, hd_tokens = hd_tokens old + ho_tokens h,
           hd_cost = hd_cost old + ho_cost h\<rparr> m)"

definition give_back :: "hold \<Rightarrow> (jstring, held) jmap \<Rightarrow> (jstring, held) jmap" where
  "give_back h m =
     (case jget m (ho_slot h) of
        None \<Rightarrow> m
      | Some old \<Rightarrow>
          (let left = \<lparr>hd_n = hd_n old - 1, hd_tokens = hd_tokens old - ho_tokens h,
             hd_cost = hd_cost old - ho_cost h\<rparr>
           in if hd_n left \<le> 0 then jdelete (ho_slot h) m else jset (ho_slot h) left m))"

definition key_budgets :: "key_record \<Rightarrow> key_budget list" where
  "key_budgets key = (case Option.bind (k_quota key) q_budgets of Some bs \<Rightarrow> bs | None \<Rightarrow> [])"

definition unlimited :: "key_record \<Rightarrow> bool" where
  "unlimited key \<longleftrightarrow>
     (case k_quota key of None \<Rightarrow> True | Some qu \<Rightarrow> key_budgets key = [] \<and> q_requestsPerMinute qu = None)"

text \<open>
  The part of \<open>admit\<close> that nothing comes into: check and reserve. \<open>loaded\<close> names the sums of each of
  the key's budgets, \<open>price\<close> is the model's where it was asked for.
\<close>

definition checkAdmission ::
    "key_record \<Rightarrow> int \<Rightarrow> int \<Rightarrow> real option \<Rightarrow> nat list \<Rightarrow> quotas \<Rightarrow> quota_admission \<times> quotas" where
  "checkAdmission key now bytes price loaded q =
     (let pairs = zip (key_budgets key) (map (\<lambda>a. qs_objects q ! a) loaded)
      in case budgets_refuse key now pairs q of
           Some refusal \<Rightarrow> (Denied refusal, q)
         | None \<Rightarrow>
             (case perMinute key now q of
                (Some refusal, q') \<Rightarrow> (Denied refusal, q')
              | (None, q') \<Rightarrow>
                  (let holds = map (hold_of (k_keyId key) bytes price) pairs
                   in (Granted (Some (length (qs_releases q'))),
                       q'\<lparr>qs_held := fold reserve holds (qs_held q'),
                          qs_releases := qs_releases q' @ [(holds, False)]\<rparr>))))"

text \<open>\<open>release\<close>: the first call gives back, a second does nothing.\<close>

definition release_hold :: "nat \<Rightarrow> quotas \<Rightarrow> quotas" where
  "release_hold i q =
     (case qs_releases q ! i of
        (holds, released) \<Rightarrow>
          if released then q
          else q\<lparr>qs_held := fold give_back holds (qs_held q),
                 qs_releases := (qs_releases q)[i := (holds, True)]\<rparr>)"

text \<open>\<open>admit\<close> where nothing comes between: the ledger's answers in the order of the budgets.\<close>

fun load_budgets ::
    "zone \<Rightarrow> jstring \<Rightarrow> int \<Rightarrow> (key_budget \<times> usage_bucket option) list \<Rightarrow> quotas \<Rightarrow> nat list \<times> quotas" where
  "load_budgets zone keyId now [] q = ([], q)"
| "load_budgets zone keyId now ((b, answer) # rest) q =
     (let (a, q') = (case cachedSums keyId (b_period b) now q of
            Some a \<Rightarrow> (a, q)
          | None \<Rightarrow> loadSums zone keyId (b_period b) now answer q);
          (as, q'') = load_budgets zone keyId now rest q'
      in (a # as, q''))"

definition admit_request ::
    "zone \<Rightarrow> key_record \<Rightarrow> int \<Rightarrow> int \<Rightarrow> real option \<Rightarrow> usage_bucket option list \<Rightarrow> quotas \<Rightarrow> quota_admission \<times> quotas" where
  "admit_request zone key now bytes inputPrice answers q =
     (if unlimited key then (Granted None, q)
      else
        (let (loaded, q') = load_budgets zone (k_keyId key) now (zip (key_budgets key) answers) q;
             price = (if needsPrice (zip (key_budgets key) (map (\<lambda>a. qs_objects q' ! a) loaded))
               then inputPrice else None)
         in checkAdmission key now bytes price loaded q'))"

text \<open>\<open>take\<close>: one request of the bucket for a web search.\<close>

definition take_one :: "key_record \<Rightarrow> int \<Rightarrow> quotas \<Rightarrow> quota_refusal option \<times> quotas" where
  "take_one key now q = perMinute key now q"

section \<open>Counting calls\<close>

text \<open>\<open>record\<close>: a committed entry, added to the cached sums of its key's windows.\<close>

definition record_period :: "jstring \<Rightarrow> call_entry \<Rightarrow> period \<Rightarrow> quotas \<Rightarrow> quotas" where
  "record_period keyId e p q =
     (case jget (qs_sums q) (slot keyId p) of
        None \<Rightarrow> q
      | Some a \<Rightarrow>
          (let s = qs_objects q ! a
           in if sm_start s \<le> ce_occurredAt e \<and> ce_occurredAt e < sm_reset s
              then q\<lparr>qs_objects := (qs_objects q)[a := add_entry e s]\<rparr> else q))"

definition entry_key :: "call_entry \<Rightarrow> jstring option" where
  "entry_key e = (case ce_keyId e of Some k \<Rightarrow> if k = [] then None else Some k | None \<Rightarrow> None)"

definition record_entry :: "call_entry \<Rightarrow> quotas \<Rightarrow> quotas" where
  "record_entry e q =
     (case entry_key e of None \<Rightarrow> q | Some keyId \<Rightarrow> fold (record_period keyId e) budgetPeriods q)"

text \<open>
  \<open>unrecorded\<close>: an entry the ledger could not take is kept apart. What is kept for a window goes when
  an entry of another window of the period comes.
\<close>

definition keep_unrecorded :: "zone \<Rightarrow> jstring \<Rightarrow> call_entry \<Rightarrow> period \<Rightarrow> quotas \<Rightarrow> quotas" where
  "keep_unrecorded zone keyId e p q =
     (let w = budgetWindow p (ce_occurredAt e) zone; sl = slot keyId p;
          fresh = EMPTY_SUMS\<lparr>sm_start := wd_start w, sm_reset := wd_reset w\<rparr>;
          renewed = (let m = jset sl fresh (qs_unrecorded q) in if length m > SUMS_LIMIT then [] else m);
          kept = (case jget (qs_unrecorded q) sl of
              None \<Rightarrow> renewed
            | Some k \<Rightarrow> if sm_start k \<noteq> wd_start w then renewed else qs_unrecorded q)
      in q\<lparr>qs_unrecorded := (case jget kept sl of None \<Rightarrow> kept | Some k \<Rightarrow> jset sl (add_entry e k) kept)\<rparr>)"

definition unrecorded_entry :: "zone \<Rightarrow> call_entry \<Rightarrow> quotas \<Rightarrow> quotas" where
  "unrecorded_entry zone e q =
     (case entry_key e of
        None \<Rightarrow> q
      | Some keyId \<Rightarrow> record_entry e (fold (keep_unrecorded zone keyId e) budgetPeriods q))"

section \<open>Status\<close>

record budget_status =
  bs_period :: period
  bs_start :: int
  bs_resetsAt :: int
  bs_calls :: int
  bs_tokens :: int
  bs_costUsd :: real
  bs_tokenLimit :: "real option"
  bs_costLimitUsd :: "real option"
  bs_cacheReads :: bool
  bs_tokensLeft :: "real option"
  bs_costLeftUsd :: "real option"
  bs_inFlight :: int
  bs_reservedTokens :: int
  bs_reservedCostUsd :: real
  bs_spent :: bool

record key_status =
  ks_keyId :: jstring
  ks_name :: jstring
  ks_requestsPerMinute :: "int option"
  ks_budgets :: "budget_status list"

definition budget_status_of :: "jstring \<Rightarrow> key_budget \<Rightarrow> window_sums \<Rightarrow> quotas \<Rightarrow> budget_status" where
  "budget_status_of keyId b s q =
     (let tokens = counted s b; sl = slot keyId (b_period b)
      in \<lparr>bs_period = b_period b, bs_start = sm_start s, bs_resetsAt = sm_reset s, bs_calls = sm_calls s,
          bs_tokens = tokens, bs_costUsd = sm_cost s, bs_tokenLimit = b_tokens b,
          bs_costLimitUsd = b_costUsd b, bs_cacheReads = (b_cacheReads b = Some True),
          bs_tokensLeft = map_option (\<lambda>cap. max 0 (cap - real_of_int tokens)) (b_tokens b),
          bs_costLeftUsd = map_option (\<lambda>cap. max 0 (cap - sm_cost s)) (b_costUsd b),
          bs_inFlight = held_n sl q, bs_reservedTokens = held_tokens sl q, bs_reservedCostUsd = held_cost sl q,
          bs_spent = ((case b_tokens b of Some cap \<Rightarrow> real_of_int tokens \<ge> cap | None \<Rightarrow> False) \<or>
            (case b_costUsd b of Some cap \<Rightarrow> sm_cost s \<ge> cap | None \<Rightarrow> False))\<rparr>)"

definition quota_status :: "zone \<Rightarrow> key_record \<Rightarrow> int \<Rightarrow> usage_bucket option list \<Rightarrow> quotas \<Rightarrow> key_status" where
  "quota_status zone key now answers q =
     \<lparr>ks_keyId = k_keyId key, ks_name = k_name key,
      ks_requestsPerMinute = Option.bind (k_quota key) q_requestsPerMinute,
      ks_budgets = map (\<lambda>(b, answer).
          budget_status_of (k_keyId key) b (readSums zone (k_keyId key) (b_period b) now answer q) q)
        (zip (key_budgets key) answers)\<rparr>"

section \<open>The operations in any order\<close>

text \<open>
  What may come between two awaits of other requests. A check names sums that a load gave it; a
  release names a request admitted before.
\<close>

datatype quota_op =
    Load jstring period int "usage_bucket option"
  | Check key_record int int "real option" "nat list"
  | Release nat
  | TakeOne key_record int
  | Record call_entry
  | Unrecorded call_entry

definition quota_step :: "zone \<Rightarrow> quota_op \<Rightarrow> quotas \<Rightarrow> quota_admission option \<times> quotas" where
  "quota_step zone x q =
     (case x of
        Load keyId p now answer \<Rightarrow> (None, snd (loadSums zone keyId p now answer q))
      | Check key now bytes price loaded \<Rightarrow>
          if unlimited key then (Some (Granted None), q)
          else (case checkAdmission key now bytes price loaded q of (r, q') \<Rightarrow> (Some r, q'))
      | Release i \<Rightarrow> (None, if i < length (qs_releases q) then release_hold i q else q)
      | TakeOne key now \<Rightarrow> (case take_one key now q of (Some r, q') \<Rightarrow> (Some (Denied r), q') | (None, q') \<Rightarrow> (None, q'))
      | Record e \<Rightarrow> (None, record_entry e q)
      | Unrecorded e \<Rightarrow> (None, unrecorded_entry zone e q))"

end
