(* ===== verification/QuotaProps.thy ===== *)
theory QuotaProps
  imports Quotas Machines
begin

text \<open>
  What Gateway Key quotas promise: the reservations are those of the requests in flight, an admitted
  request found room beside them under every cap and a refused one takes nothing, and a key gets no
  more requests in a span of time than its bucket allows.
\<close>

section \<open>Reservations\<close>

text \<open>The abstract state: what the requests in flight hold, as a multiset.\<close>

definition open_holds :: "(hold list \<times> bool) list \<Rightarrow> hold multiset" where
  "open_holds rs = mset (concat (map fst (filter (\<lambda>r. \<not> snd r) rs)))"

definition holds_on :: "jstring \<Rightarrow> hold multiset \<Rightarrow> hold multiset" where
  "holds_on sl M = filter_mset (\<lambda>h. ho_slot h = sl) M"

definition outstanding :: "jstring \<Rightarrow> hold multiset \<Rightarrow> held option" where
  "outstanding sl M =
     (if holds_on sl M = {#} then None
      else Some \<lparr>hd_n = int (size (holds_on sl M)), hd_tokens = sum_mset (image_mset ho_tokens (holds_on sl M)),
        hd_cost = sum_mset (image_mset ho_cost (holds_on sl M))\<rparr>)"

definition held_matches :: "(jstring, held) jmap \<Rightarrow> hold multiset \<Rightarrow> bool" where
  "held_matches m M \<longleftrightarrow> (\<forall>sl. jget m sl = outstanding sl M)"

definition held_ok :: "quotas \<Rightarrow> bool" where
  "held_ok q \<longleftrightarrow> held_matches (qs_held q) (open_holds (qs_releases q))"

lemma holds_on_add [simp]:
  "holds_on sl (add_mset h M) = (if ho_slot h = sl then add_mset h (holds_on sl M) else holds_on sl M)"
  by (simp add: holds_on_def)

lemma open_holds_simps [simp]:
  "open_holds [] = {#}" "open_holds (rs @ [(hs, False)]) = mset hs + open_holds rs"
  by (simp_all add: open_holds_def)

lemma open_holds_release:
  assumes "i < length rs" "rs ! i = (hs, False)"
  shows "open_holds rs = mset hs + open_holds (rs[i := (hs, True)])"
  using assms by (simp add: open_holds_def upd_conv_take_nth_drop
    arg_cong [OF id_take_nth_drop [OF assms(1)], of "\<lambda>rs. mset (concat (map fst (filter (\<lambda>r. \<not> snd r) rs)))"])

lemma reserve_matches: "held_matches m M \<Longrightarrow> held_matches (reserve h m) (add_mset h M)"
  by (auto simp: held_matches_def reserve_def outstanding_def Let_def)

lemma give_back_matches:
  assumes "held_matches m (add_mset h M)"
  shows "held_matches (give_back h m) M"
proof -
  let ?sl = "ho_slot h"
  have get: "jget m sl = outstanding sl (add_mset h M)" for sl using assms by (simp add: held_matches_def)
  have others: "jget m sl = outstanding sl M" if "sl \<noteq> ?sl" for sl
    using get [of sl] that by (simp add: outstanding_def)
  have left: "give_back h m = (if holds_on ?sl M = {#} then jdelete ?sl m
      else jset ?sl (the (outstanding ?sl M)) m)"
    using get [of ?sl] by (simp add: give_back_def outstanding_def Let_def)
  show ?thesis
    unfolding held_matches_def
  proof
    show "jget (give_back h m) sl = outstanding sl M" for sl
      by (cases "sl = ?sl") (simp_all add: left others, simp add: outstanding_def)
  qed
qed

lemma reserve_all: "held_matches m M \<Longrightarrow> held_matches (fold reserve hs m) (mset hs + M)"
proof (induction hs arbitrary: m M)
  case (Cons h hs)
  then show ?case using Cons.IH [OF reserve_matches [OF Cons.prems]] by simp
qed simp

lemma give_back_all: "held_matches m (mset hs + M) \<Longrightarrow> held_matches (fold give_back hs m) M"
proof (induction hs arbitrary: m)
  case (Cons h hs)
  then show ?case using Cons.IH [OF give_back_matches] by simp
qed simp

text \<open>What an operation leaves alone.\<close>

lemma perMinute_frame [simp]:
  "qs_held (snd (perMinute key now q)) = qs_held q"
  "qs_releases (snd (perMinute key now q)) = qs_releases q"
  "qs_objects (snd (perMinute key now q)) = qs_objects q"
  by (auto simp: perMinute_def Let_def split: option.splits)

lemma perMinute_refused: "perMinute key now q = (Some r, q') \<Longrightarrow> q' = q"
  by (auto simp: perMinute_def Let_def split: option.splits if_splits)

lemma loadSums_frame [simp]:
  "qs_held (snd (loadSums zone k p now answer q)) = qs_held q"
  "qs_releases (snd (loadSums zone k p now answer q)) = qs_releases q"
  "qs_buckets (snd (loadSums zone k p now answer q)) = qs_buckets q"
  by (simp_all add: loadSums_def Let_def)

lemma fold_frame: "(\<And>x q. f (g x q) = f q) \<Longrightarrow> f (fold g xs q) = f q"
  by (induction xs arbitrary: q) simp_all

lemma record_frame [simp]:
  "qs_held (record_entry e q) = qs_held q" "qs_releases (record_entry e q) = qs_releases q"
  "qs_buckets (record_entry e q) = qs_buckets q"
proof -
  have "qs_held (record_period k e p q) = qs_held q" "qs_releases (record_period k e p q) = qs_releases q"
    "qs_buckets (record_period k e p q) = qs_buckets q" for k p q
    by (simp_all add: record_period_def Let_def split: option.split)
  then show "qs_held (record_entry e q) = qs_held q" "qs_releases (record_entry e q) = qs_releases q"
    "qs_buckets (record_entry e q) = qs_buckets q"
    by (simp_all add: record_entry_def fold_frame split: option.split)
qed

lemma unrecorded_frame [simp]:
  "qs_held (unrecorded_entry zone e q) = qs_held q" "qs_releases (unrecorded_entry zone e q) = qs_releases q"
  "qs_buckets (unrecorded_entry zone e q) = qs_buckets q"
proof -
  have "qs_held (keep_unrecorded zone k e p q) = qs_held q"
    "qs_releases (keep_unrecorded zone k e p q) = qs_releases q"
    "qs_buckets (keep_unrecorded zone k e p q) = qs_buckets q" for k p q
    by (simp_all add: keep_unrecorded_def Let_def)
  then show "qs_held (unrecorded_entry zone e q) = qs_held q"
    "qs_releases (unrecorded_entry zone e q) = qs_releases q"
    "qs_buckets (unrecorded_entry zone e q) = qs_buckets q"
    by (simp_all add: unrecorded_entry_def fold_frame split: option.split)
qed

lemmas quota_frames = perMinute_frame loadSums_frame record_frame unrecorded_frame

text \<open>What a check does, refused or admitted.\<close>

abbreviation (input) loaded_pairs :: "key_record \<Rightarrow> nat list \<Rightarrow> quotas \<Rightarrow> (key_budget \<times> window_sums) list" where
  "loaded_pairs key loaded q \<equiv> zip (key_budgets key) (map (\<lambda>a. qs_objects q ! a) loaded)"

lemma check_cases:
  obtains (refused) r where "checkAdmission key now bytes price loaded q = (Denied r, q)"
  | (admitted) q' holds where
      "checkAdmission key now bytes price loaded q = (Granted (Some (length (qs_releases q))), q')"
      "budgets_refuse key now (loaded_pairs key loaded q) q = None"
      "fst (perMinute key now q) = None" "qs_buckets q' = qs_buckets (snd (perMinute key now q))"
      "holds = map (hold_of (k_keyId key) bytes price) (loaded_pairs key loaded q)"
      "qs_held q' = fold reserve holds (qs_held q)" "qs_releases q' = qs_releases q @ [(holds, False)]"
proof (cases "budgets_refuse key now (loaded_pairs key loaded q) q")
  case (Some r)
  then show thesis by (intro refused [of r]) (simp add: checkAdmission_def Let_def)
next
  case None
  obtain r q1 where pm: "perMinute key now q = (r, q1)" by (cases "perMinute key now q") auto
  show thesis
  proof (cases r)
    case (Some refusal)
    with None pm perMinute_refused [of key now q refusal q1] show thesis
      by (intro refused [of refusal]) (simp add: checkAdmission_def Let_def)
  next
    case r: None
    with pm perMinute_frame [of key now q] have "qs_held q1 = qs_held q" "qs_releases q1 = qs_releases q"
      by simp_all
    let ?holds = "map (hold_of (k_keyId key) bytes price) (loaded_pairs key loaded q)"
    let ?q' = "q1\<lparr>qs_held := fold reserve ?holds (qs_held q1), qs_releases := qs_releases q1 @ [(?holds, False)]\<rparr>"
    from pm r \<open>qs_held q1 = _\<close> \<open>qs_releases q1 = _\<close> None show thesis
      by (intro admitted [of ?q' ?holds]) (simp_all add: checkAdmission_def Let_def)
  qed
qed

lemma step_take [simp]: "snd (quota_step zone (TakeOne key now) q) = snd (perMinute key now q)"
  by (auto simp: quota_step_def take_one_def split: option.split prod.split)

lemma held_ok_step: "held_ok q \<Longrightarrow> held_ok (snd (quota_step zone x q))"
proof (cases x)
  case (Check key now bytes price loaded)
  assume ok: "held_ok q"
  show ?thesis
  proof (cases "unlimited key")
    case True
    with Check ok show ?thesis by (simp add: quota_step_def)
  next
    case False
    then show ?thesis
    proof (cases rule: check_cases [of key now bytes price loaded q])
      case (admitted q' holds)
      from ok have "held_matches (qs_held q') (open_holds (qs_releases q'))"
        unfolding held_ok_def admitted(6,7) by (simp only: open_holds_simps reserve_all)
      with admitted(1) False Check show ?thesis by (simp add: quota_step_def held_ok_def)
    qed (use Check ok in \<open>simp add: quota_step_def\<close>)
  qed
next
  case (Release i)
  assume ok: "held_ok q"
  obtain hs r where i: "qs_releases q ! i = (hs, r)" by (cases "qs_releases q ! i")
  show ?thesis
  proof (cases "i < length (qs_releases q) \<and> \<not> r")
    case True
    with i ok open_holds_release [of i "qs_releases q" hs] have
      "held_matches (qs_held q) (mset hs + open_holds ((qs_releases q)[i := (hs, True)]))"
      by (simp add: held_ok_def)
    from give_back_all [OF this] True i Release show ?thesis
      by (simp add: quota_step_def release_hold_def held_ok_def)
  next
    case False
    with i ok Release show ?thesis by (auto simp: quota_step_def release_hold_def)
  qed
next
  case (TakeOne key now)
  then show "held_ok q \<Longrightarrow> ?thesis" by (simp add: held_ok_def)
qed (auto simp: quota_step_def held_ok_def)

interpretation qt: machine "quota_step zone" "\<lambda>q q'. \<exists>x. q' = snd (quota_step zone x q)" held_ok for zone
  by unfold_locales (auto intro: held_ok_step)

lemma held_ok_new: "held_ok new_quotas"
  by (simp add: held_ok_def new_quotas_def held_matches_def outstanding_def holds_on_def)

definition in_flight_tokens :: "jstring \<Rightarrow> quotas \<Rightarrow> int" where
  "in_flight_tokens sl q = sum_mset (image_mset ho_tokens (holds_on sl (open_holds (qs_releases q))))"

definition in_flight_cost :: "jstring \<Rightarrow> quotas \<Rightarrow> real" where
  "in_flight_cost sl q = sum_mset (image_mset ho_cost (holds_on sl (open_holds (qs_releases q))))"

lemma held_in_flight:
  assumes "held_ok q"
  shows "held_tokens sl q = in_flight_tokens sl q" "held_cost sl q = in_flight_cost sl q"
  using assms by (auto simp: held_ok_def held_matches_def outstanding_def held_tokens_def held_cost_def
      in_flight_tokens_def in_flight_cost_def)

lemma budgets_refuse_None:
  "budgets_refuse key now pairs q = None \<Longrightarrow> (b, s) \<in> set pairs \<Longrightarrow>
    \<not> overTokens (k_keyId key) b s q \<and> \<not> overCost (k_keyId key) b s q"
  by (induction key now pairs q rule: budgets_refuse.induct) (auto split: if_splits)

text \<open>A budget of a key has room beside what is in flight.\<close>

definition has_room :: "jstring \<Rightarrow> key_budget \<times> window_sums \<Rightarrow> quotas \<Rightarrow> bool" where
  "has_room keyId = (\<lambda>(b, s) q.
     (case b_tokens b of Some cap \<Rightarrow> real_of_int (counted s b + in_flight_tokens (slot keyId (b_period b)) q) < cap
      | None \<Rightarrow> True) \<and>
     (case b_costUsd b of Some cap \<Rightarrow> sm_cost s + in_flight_cost (slot keyId (b_period b)) q < cap
      | None \<Rightarrow> True))"

abbreviation quotas_after :: "zone \<Rightarrow> quota_op list \<Rightarrow> quotas" where
  "quotas_after zone xs \<equiv> run_ops (quota_step zone) xs new_quotas"

lemma held_ok_after: "held_ok (quotas_after zone xs)"
  by (rule qt.run_inv) (rule held_ok_new)

text \<open>
  C30: however loads, checks, releases and counted calls interleave, a refused request changes
  nothing; an admitted one found, in every budget of its key, what was used and what the requests
  then in flight hold under the caps, and joins them with one hold per budget. What the code has
  as held is at all times the sum over the requests in flight.
\<close>

theorem admission_within_caps:
  "(case checkAdmission key now bytes price loaded (quotas_after zone xs) of
      (Denied r, q') \<Rightarrow> q' = quotas_after zone xs
    | (Granted i, q') \<Rightarrow>
        (\<forall>pair \<in> set (loaded_pairs key loaded (quotas_after zone xs)).
           has_room (k_keyId key) pair (quotas_after zone xs)) \<and>
        open_holds (qs_releases q') =
          mset (map (hold_of (k_keyId key) bytes price) (loaded_pairs key loaded (quotas_after zone xs))) +
          open_holds (qs_releases (quotas_after zone xs)) \<and>
        held_ok q')"
proof -
  let ?q = "quotas_after zone xs"
  have ok: "held_ok ?q" by (rule held_ok_after)
  show ?thesis
  proof (cases rule: check_cases [of key now bytes price loaded ?q])
    case (refused r)
    then show ?thesis by simp
  next
    case (admitted q' holds)
    have "has_room (k_keyId key) pair ?q" if "pair \<in> set (loaded_pairs key loaded ?q)" for pair
      using budgets_refuse_None [OF admitted(2), of "fst pair" "snd pair"] that
      by (auto simp: has_room_def overTokens_def overCost_def held_in_flight [OF ok] not_le
          split: option.splits prod.splits)
    moreover have "held_ok q'"
      using ok unfolding held_ok_def admitted(6,7) by (simp only: open_holds_simps reserve_all)
    ultimately show ?thesis using admitted(1,5,7) by simp
  qed
qed

definition day_key :: key_record where
  "day_key = \<lparr>k_keyId = js ''k1'', k_name = js ''ci'', k_scope = ScopeClient, k_modelAllow = [js ''openai/*''],
     k_modelDeny = None,
     k_quota = Some \<lparr>q_requestsPerMinute = None, q_budgets = Some [\<lparr>b_period = PeriodDay,
       b_tokens = Some 1000, b_costUsd = None, b_cacheReads = None\<rparr>]\<rparr>,
     k_allowLan = None, k_secretHash = [], k_expiresAt = None, k_revokedAt = None, k_suspendedAt = None\<rparr>"

lemma day_key_simps [simp]:
  "k_keyId day_key = js ''k1''" "unlimited day_key = False"
  "key_budgets day_key = [\<lparr>b_period = PeriodDay, b_tokens = Some 1000, b_costUsd = None, b_cacheReads = None\<rparr>]"
  "Option.bind (k_quota day_key) q_requestsPerMinute = None"
  by (simp_all add: day_key_def unlimited_def key_budgets_def)

theorem admission_within_caps_witness:
  "case checkAdmission day_key 0 400 None [0]
      (quotas_after (\<lambda>_. 0) [Load (js ''k1'') PeriodDay 0 None, Check day_key 0 400 None [0]]) of
     (Denied r, q') \<Rightarrow> False
   | (Granted i, q') \<Rightarrow> in_flight_tokens (slot (js ''k1'') PeriodDay) q' = 200"
proof -
  let ?xs = "[Load (js ''k1'') PeriodDay 0 None, Check day_key 0 400 None [0]]"
  have once: "checkAdmission day_key 0 400 None [0] q = (Granted (Some (length (qs_releases q))),
      q\<lparr>qs_held := reserve \<lparr>ho_slot = slot (js ''k1'') PeriodDay, ho_tokens = 100, ho_cost = 0\<rparr> (qs_held q),
        qs_releases := qs_releases q @ [([\<lparr>ho_slot = slot (js ''k1'') PeriodDay, ho_tokens = 100, ho_cost = 0\<rparr>], False)]\<rparr>)"
    if "sm_calls (qs_objects q ! 0) = 0" "sm_input (qs_objects q ! 0) = 0" "sm_output (qs_objects q ! 0) = 0"
      "sm_reasoning (qs_objects q ! 0) = 0" "sm_cacheWrite (qs_objects q ! 0) = 0"
      "held_tokens (slot (js ''k1'') PeriodDay) q < 1000" for q
    using that
    by (simp add: checkAdmission_def Let_def overTokens_def overCost_def perMinute_def hold_of_def
        reserved_tokens_def counted_def)
  show ?thesis
    using admission_within_caps [where key = day_key and now = 0 and bytes = 400 and price = None and loaded = "[0]" and zone = "\<lambda>_. 0" and xs = ?xs]
    by (simp add: new_quotas_def quota_step_def loadSums_def readSums_def EMPTY_SUMS_def SUMS_LIMIT_def
        Let_def once held_tokens_def reserve_def) (auto dest!: held_in_flight(1) [where sl = "slot (js ''k1'') PeriodDay"] simp: held_tokens_def)
qed

end
