(* ===== verification/QuotaRate.thy ===== *)
theory QuotaRate
  imports QuotaProps
begin

text \<open>
  The per-minute bucket of a Gateway Key: in any span of time it gives no more requests than its size
  and what flows in meanwhile, and a refused request that comes again after \<open>retryAfterMs\<close> finds one.
\<close>

section \<open>The level of a bucket\<close>

definition minute_limit :: "key_record \<Rightarrow> int option" where
  "minute_limit key = Option.bind (k_quota key) q_requestsPerMinute"

lemma bucket_level_le: "bucket_level k R now q \<le> R"
  by (simp add: bucket_level_def)

text \<open>It rises with the rate at most.\<close>

lemma bucket_level_rises:
  assumes "0 \<le> R" "t \<le> u"
  shows "bucket_level k R u q \<le> bucket_level k R t q + real_of_int (u - t) * (R / 60000)"
proof -
  define rate where "rate = R / 60000"
  define d where "d = real_of_int (u - t) * rate"
  have d: "0 \<le> d" using assms by (simp add: rate_def d_def)
  then have shift: "min R (x + d) \<le> min R x + d" for x by (simp add: min_def)
  have split: "real_of_int (u - a) * rate = real_of_int (t - a) * rate + d" for a
    unfolding d_def by (simp add: left_diff_distrib)
  show ?thesis
    unfolding bucket_level_def rate_def [symmetric] d_def [symmetric]
  proof (cases "jget (qs_buckets q) k")
    case None
    with d show "min R (case jget (qs_buckets q) k of
          Some p \<Rightarrow> bt_tokens p + real_of_int (u - bt_at p) * rate | None \<Rightarrow> R)
        \<le> min R (case jget (qs_buckets q) k of
          Some p \<Rightarrow> bt_tokens p + real_of_int (t - bt_at p) * rate | None \<Rightarrow> R) + d" by simp
  next
    case (Some p)
    show "min R (case jget (qs_buckets q) k of
          Some p \<Rightarrow> bt_tokens p + real_of_int (u - bt_at p) * rate | None \<Rightarrow> R)
        \<le> min R (case jget (qs_buckets q) k of
          Some p \<Rightarrow> bt_tokens p + real_of_int (t - bt_at p) * rate | None \<Rightarrow> R) + d"
      unfolding Some option.case split add.assoc [symmetric] by (rule shift)
  qed
qed

text \<open>A map that stays within its bound is never cleared.\<close>

definition buckets_within :: "jstring set \<Rightarrow> quotas \<Rightarrow> bool" where
  "buckets_within K q \<longleftrightarrow> jwf (qs_buckets q) \<and> fst ` set (qs_buckets q) \<subseteq> K"

lemma buckets_within_length:
  assumes "buckets_within K q" "finite K" "card K \<le> n"
  shows "length (qs_buckets q) \<le> n"
proof -
  have "length (qs_buckets q) = card (fst ` set (qs_buckets q))"
    using assms(1) by (metis buckets_within_def distinct_card jwf_def length_map list.set_map)
  also have "\<dots> \<le> card K" using assms(1,2) by (intro card_mono) (auto simp: buckets_within_def)
  finally show ?thesis using assms(3) by simp
qed

text \<open>One request more or less.\<close>

lemma perMinute_cases:
  obtains (none) "minute_limit key = None" "perMinute key now q = (None, q)"
  | (refused) R r where "minute_limit key = Some R" "bucket_level (k_keyId key) (real_of_int R) now q < 1"
      "perMinute key now q = (Some r, q)"
      "qr_retryAfterMs r = (if R > 0 then \<lceil>(1 - bucket_level (k_keyId key) (real_of_int R) now q) / (real_of_int R / 60000)\<rceil>
        else 60000)"
  | (taken) R m where "minute_limit key = Some R" "1 \<le> bucket_level (k_keyId key) (real_of_int R) now q"
      "m = jset (k_keyId key) \<lparr>bt_tokens = bucket_level (k_keyId key) (real_of_int R) now q - 1, bt_at = now\<rparr> (qs_buckets q)"
      "perMinute key now q = (None, q\<lparr>qs_buckets := (if length m > BUCKETS_LIMIT then [] else m)\<rparr>)"
proof (cases "minute_limit key")
  case None
  then show thesis by (intro none) (simp_all add: perMinute_def minute_limit_def)
next
  case (Some R)
  show thesis
  proof (cases "bucket_level (k_keyId key) (real_of_int R) now q < 1")
    case True
    let ?r = "\<lparr>qr_limit = PerMinuteLimit,
      qr_retryAfterMs = (if R > 0 then \<lceil>(1 - bucket_level (k_keyId key) (real_of_int R) now q) / (real_of_int R / 60000)\<rceil>
        else 60000), qr_resetsAt = None, qr_message = MinuteUsed R\<rparr>"
    from Some True have "perMinute key now q = (Some ?r, q)"
      by (simp add: perMinute_def minute_limit_def Let_def)
    then show thesis by (rule refused [OF Some True]) simp
  next
    case False
    with Some show thesis
      by (intro taken [OF Some _ refl]) (simp_all add: perMinute_def minute_limit_def Let_def)
  qed
qed

text \<open>The hint of a refusal is right.\<close>

lemma retry_hint:
  assumes "fst (perMinute key now q) = Some r" "minute_limit key = Some R" "1 \<le> R"
  shows "fst (perMinute key (now + qr_retryAfterMs r) q) = None"
proof (cases rule: perMinute_cases [of key now q])
  case (refused R' r')
  with assms have R: "R' = R" "r' = r" by simp_all
  define rate where "rate = real_of_int R / 60000"
  define level where "level = bucket_level (k_keyId key) (real_of_int R) now q"
  have rate: "0 < rate" using assms(3) by (simp add: rate_def)
  have "qr_retryAfterMs r = \<lceil>(1 - level) / rate\<rceil>"
    using refused(4) R assms(3) by (simp add: rate_def level_def)
  then have "(1 - level) / rate \<le> real_of_int (qr_retryAfterMs r)" by linarith
  then have wait: "1 - level \<le> real_of_int (qr_retryAfterMs r) * rate"
    using rate by (simp add: pos_divide_le_eq)
  have low: "level < 1" using refused(2) R by (simp add: level_def)
  obtain b where b: "jget (qs_buckets q) (k_keyId key) = Some b"
    "level = bt_tokens b + real_of_int (now - bt_at b) * rate"
    using low assms(3) by (auto simp: level_def bucket_level_def rate_def min_def split: option.splits if_splits)
  have "1 \<le> bt_tokens b + real_of_int (now + qr_retryAfterMs r - bt_at b) * rate"
    using wait b(2) by (simp add: algebra_simps)
  then have "1 \<le> bucket_level (k_keyId key) (real_of_int R) (now + qr_retryAfterMs r) q"
    using b(1) assms(3) by (simp add: bucket_level_def rate_def)
  then show ?thesis
    by (cases rule: perMinute_cases [of key "now + qr_retryAfterMs r" q]) (use assms(2) in auto)
qed (use assms in simp_all)

section \<open>Requests over time\<close>

text \<open>The key and the time of an operation that may take a request, and whether it does.\<close>

definition request :: "quota_op \<Rightarrow> (key_record \<times> int) option" where
  "request x =
     (case x of
        Check key now bytes price loaded \<Rightarrow> if unlimited key then None else Some (key, now)
      | TakeOne key now \<Rightarrow> Some (key, now)
      | _ \<Rightarrow> None)"

definition takes_minute :: "zone \<Rightarrow> jstring \<Rightarrow> quota_op \<Rightarrow> quotas \<Rightarrow> bool" where
  "takes_minute zone k x q \<longleftrightarrow>
     (case request x of Some (key, now) \<Rightarrow> k_keyId key = k | None \<Rightarrow> False) \<and>
     (case fst (quota_step zone x q) of Some (Denied r) \<Rightarrow> False | _ \<Rightarrow> True)"

fun minute_count :: "zone \<Rightarrow> jstring \<Rightarrow> quota_op list \<Rightarrow> quotas \<Rightarrow> nat" where
  "minute_count zone k [] q = 0"
| "minute_count zone k (x # xs) q =
     (if takes_minute zone k x q then 1 else 0) + minute_count zone k xs (snd (quota_step zone x q))"

text \<open>The clock of the requests runs forward, from \<open>t\<close> to \<open>u\<close>.\<close>

fun clock_runs :: "int \<Rightarrow> quota_op list \<Rightarrow> int \<Rightarrow> bool" where
  "clock_runs t [] u \<longleftrightarrow> t \<le> u"
| "clock_runs t (x # xs) u \<longleftrightarrow>
     (case request x of Some (key, now) \<Rightarrow> t \<le> now \<and> clock_runs now xs u | None \<Rightarrow> clock_runs t xs u)"

lemma clock_runs_le: "clock_runs t xs u \<Longrightarrow> t \<le> u"
proof (induction xs arbitrary: t)
  case (Cons x xs)
  then show ?case by (cases "request x") (auto intro: order_trans)
qed simp

definition requests :: "quota_op list \<Rightarrow> (key_record \<times> int) list" where
  "requests xs = List.map_filter request xs"

definition request_keys :: "quota_op list \<Rightarrow> jstring set" where
  "request_keys xs = (\<lambda>r. k_keyId (fst r)) ` set (requests xs)"

lemma requests_simps [simp]:
  "requests [] = []" "requests (x # xs) = (case request x of None \<Rightarrow> requests xs | Some r \<Rightarrow> r # requests xs)"
  by (simp_all add: requests_def List.map_filter_simps split: option.split)

lemma requests_append [simp]: "requests (xs @ ys) = requests xs @ requests ys"
  by (induction xs) (auto split: option.split)

lemma step_buckets:
  obtains (same) "qs_buckets (snd (quota_step zone x q)) = qs_buckets q" "\<not> takes_minute zone k x q"
  | (asked) key now where "request x = Some (key, now)" "fst (perMinute key now q) = None"
      "qs_buckets (snd (quota_step zone x q)) = qs_buckets (snd (perMinute key now q))"
      "takes_minute zone k x q \<longleftrightarrow> k_keyId key = k"
proof (cases x)
  case (Check key now bytes price loaded)
  show thesis
  proof (cases "unlimited key")
    case True
    then show thesis by (intro same) (simp_all add: Check quota_step_def takes_minute_def request_def)
  next
    case False
    then show thesis
      by (cases rule: check_cases [of key now bytes price loaded q])
        (use Check in \<open>auto simp: quota_step_def takes_minute_def request_def intro: same asked\<close>)
  qed
next
  case (TakeOne key now)
  show thesis
  proof (cases "perMinute key now q")
    case (Pair r q')
    then show thesis
      using perMinute_refused [of key now q] TakeOne
      by (cases r) (auto simp: quota_step_def take_one_def takes_minute_def request_def intro: same asked)
  qed
qed (auto simp: quota_step_def takes_minute_def request_def intro!: same split: if_splits
    simp: release_hold_def split: prod.splits)

text \<open>With no more keys than the bound, the buckets are never cleared.\<close>

lemma perMinute_within:
  assumes q: "buckets_within K q" and K: "finite K" "card K \<le> BUCKETS_LIMIT" and key: "k_keyId key \<in> K"
  shows "buckets_within K (snd (perMinute key now q))"
    and "fst (perMinute key now q) = None \<Longrightarrow> minute_limit key = Some R \<Longrightarrow>
      1 \<le> bucket_level (k_keyId key) (real_of_int R) now q \<and>
      qs_buckets (snd (perMinute key now q)) =
        jset (k_keyId key) \<lparr>bt_tokens = bucket_level (k_keyId key) (real_of_int R) now q - 1, bt_at = now\<rparr> (qs_buckets q)"
proof -
  have within: "buckets_within K (q\<lparr>qs_buckets := jset (k_keyId key) b (qs_buckets q)\<rparr>)" for b
  proof -
    have "fst ` set (jset (k_keyId key) b (qs_buckets q)) \<subseteq> insert (k_keyId key) (fst ` set (qs_buckets q))"
      using arg_cong [OF keys_jset [of "k_keyId key" b "qs_buckets q"], of set] by (auto split: if_splits)
    moreover have "insert (k_keyId key) (fst ` set (qs_buckets q)) \<subseteq> K"
      using q key by (simp add: buckets_within_def)
    ultimately have "fst ` set (jset (k_keyId key) b (qs_buckets q)) \<subseteq> K" by (rule subset_trans)
    then show ?thesis using q by (simp add: buckets_within_def)
  qed
  then have short [simp]: "\<not> BUCKETS_LIMIT < length (jset (k_keyId key) b (qs_buckets q))" for b
    using buckets_within_length [OF within K] by (simp add: not_less)
  show "buckets_within K (snd (perMinute key now q))"
    by (cases rule: perMinute_cases [of key now q]) (use within q in simp_all)
  show "fst (perMinute key now q) = None \<Longrightarrow> minute_limit key = Some R \<Longrightarrow>
      1 \<le> bucket_level (k_keyId key) (real_of_int R) now q \<and>
      qs_buckets (snd (perMinute key now q)) =
        jset (k_keyId key) \<lparr>bt_tokens = bucket_level (k_keyId key) (real_of_int R) now q - 1, bt_at = now\<rparr> (qs_buckets q)"
    by (cases rule: perMinute_cases [of key now q]) simp_all
qed

lemma bucket_level_cong: "jget (qs_buckets q) k = jget (qs_buckets q') k \<Longrightarrow> bucket_level k R t q = bucket_level k R t q'"
  by (simp add: bucket_level_def)

lemma within_cong: "qs_buckets q = qs_buckets q' \<Longrightarrow> buckets_within K q = buckets_within K q'"
  by (simp add: buckets_within_def)

text \<open>A step keeps the bound on the keys and takes at most one from the level of a bucket.\<close>

lemma step_level:
  assumes q: "buckets_within K q" and K: "finite K" "card K \<le> BUCKETS_LIMIT"
    and x: "\<forall>key now. request x = Some (key, now) \<longrightarrow> k_keyId key \<in> K"
  shows "buckets_within K (snd (quota_step zone x q))"
    and "\<not> takes_minute zone k x q \<Longrightarrow> bucket_level k R t (snd (quota_step zone x q)) = bucket_level k R t q"
    and "takes_minute zone k x q \<Longrightarrow> request x = Some (key, now) \<Longrightarrow> minute_limit key = Some L \<Longrightarrow> 0 \<le> L \<Longrightarrow>
      1 \<le> bucket_level k (real_of_int L) now q \<and>
      bucket_level k (real_of_int L) now (snd (quota_step zone x q)) = bucket_level k (real_of_int L) now q - 1"
proof -
  note cases = step_buckets [of zone x q k]
  show "buckets_within K (snd (quota_step zone x q))"
  proof (cases rule: cases)
    case same
    with q show ?thesis by (simp add: within_cong [OF same(1)])
  next
    case (asked key now)
    with perMinute_within(1) [OF q K x [rule_format, OF asked(1)]] show ?thesis by (simp add: within_cong [OF asked(3)])
  qed
  show "bucket_level k R t (snd (quota_step zone x q)) = bucket_level k R t q" if "\<not> takes_minute zone k x q"
  proof (cases rule: cases)
    case same
    then show ?thesis by (intro bucket_level_cong) simp
  next
    case (asked key now)
    with that have "k_keyId key \<noteq> k" by simp
    then have "jget (qs_buckets (snd (perMinute key now q))) k = jget (qs_buckets q) k"
      using perMinute_within(2) [OF q K x [rule_format, OF asked(1)] asked(2)]
      by (cases rule: perMinute_cases [of key now q]) simp_all
    with asked(3) show ?thesis by (intro bucket_level_cong) simp
  qed
  show "1 \<le> bucket_level k (real_of_int L) now q \<and>
      bucket_level k (real_of_int L) now (snd (quota_step zone x q)) = bucket_level k (real_of_int L) now q - 1"
    if "takes_minute zone k x q" "request x = Some (key, now)" "minute_limit key = Some L" "0 \<le> L"
  proof (cases rule: cases)
    case same
    with that(1) show ?thesis by simp
  next
    case (asked key' now')
    with that have key: "key' = key" "now' = now" "k_keyId key = k" by simp_all
    have level: "bucket_level k (real_of_int L) now q \<le> real_of_int L" by (rule bucket_level_le)
    have taken: "1 \<le> bucket_level k (real_of_int L) now q \<and> qs_buckets (snd (perMinute key now q)) =
        jset k \<lparr>bt_tokens = bucket_level k (real_of_int L) now q - 1, bt_at = now\<rparr> (qs_buckets q)"
      using perMinute_within(2) [OF q K x [rule_format, OF asked(1)] asked(2)] that(3) unfolding key by blast
    have "jget (qs_buckets (snd (quota_step zone x q))) k =
        Some \<lparr>bt_tokens = bucket_level k (real_of_int L) now q - 1, bt_at = now\<rparr>"
      unfolding asked(3) key using taken by simp
    then have "bucket_level k (real_of_int L) now (snd (quota_step zone x q)) =
        min (real_of_int L) (bucket_level k (real_of_int L) now q - 1)"
      unfolding bucket_level_def [of k _ _ "snd (quota_step zone x q)"] by simp
    with level taken show ?thesis by linarith
  qed
qed

lemma minute_count_bound:
  assumes K: "finite K" "card K \<le> BUCKETS_LIMIT" and R: "0 \<le> R"
  shows "buckets_within K q \<Longrightarrow> request_keys xs \<subseteq> K \<Longrightarrow> clock_runs t xs u \<Longrightarrow>
    (\<And>key now. (key, now) \<in> set (requests xs) \<Longrightarrow> k_keyId key = k \<Longrightarrow> minute_limit key = Some R) \<Longrightarrow>
    real (minute_count zone k xs q) \<le>
      max 0 (bucket_level k (real_of_int R) t q + real_of_int (u - t) * (real_of_int R / 60000))"
proof (induction xs arbitrary: q t)
  case Nil
  then show ?case by simp
next
  case (Cons x xs)
  let ?q' = "snd (quota_step zone x q)" and ?rate = "real_of_int R / 60000"
  have x: "\<forall>key now. request x = Some (key, now) \<longrightarrow> k_keyId key \<in> K"
    using Cons.prems(2) by (auto simp: request_keys_def)
  note step = step_level [OF Cons.prems(1) K x]
  have keys: "request_keys xs \<subseteq> K"
    using Cons.prems(2) by (auto simp: request_keys_def split: option.splits)
  have limits: "minute_limit key = Some R" if "(key, now) \<in> set (requests xs)" "k_keyId key = k" for key now
    using Cons.prems(4) [of key now] that by (simp split: option.split)
  have within: "buckets_within K ?q'" by (rule step(1))
  have IH: "clock_runs t' xs u \<Longrightarrow> real (minute_count zone k xs ?q') \<le>
      max 0 (bucket_level k (real_of_int R) t' ?q' + real_of_int (u - t') * ?rate)" for t'
    using Cons.IH [OF within keys] limits by blast
  show ?case
  proof (cases "request x")
    case None
    then have no: "\<not> takes_minute zone k x q" by (simp add: takes_minute_def)
    from None Cons.prems(3) have "clock_runs t xs u" by simp
    from IH [OF this] no step(2) [OF no] show ?thesis by simp
  next
    case (Some r)
    then obtain key now where r: "request x = Some (key, now)" by (cases r) auto
    with Cons.prems(3) have now: "t \<le> now" and runs: "clock_runs now xs u" by simp_all
    have up: "now \<le> u" using runs by (rule clock_runs_le)
    have rise: "bucket_level k (real_of_int R) now q + real_of_int (u - now) * ?rate
        \<le> bucket_level k (real_of_int R) t q + real_of_int (u - t) * ?rate"
    proof -
      have "real_of_int (now - t) * ?rate + real_of_int (u - now) * ?rate = real_of_int (u - t) * ?rate"
        unfolding distrib_right [symmetric] of_int_add [symmetric] by simp
      with bucket_level_rises [of "real_of_int R" t now k q] R now show ?thesis by linarith
    qed
    show ?thesis
    proof (cases "takes_minute zone k x q")
      case False
      from IH [OF runs] False step(2) [OF False] rise show ?thesis by simp
    next
      case True
      then have "minute_limit key = Some R" using Cons.prems(4) [of key now] r by (auto simp: takes_minute_def)
      note taken = step(3) [OF True r this R]
      have "0 \<le> real_of_int (u - now) * ?rate" using up R by simp
      with IH [OF runs] True taken rise show ?thesis by simp
    qed
  qed
qed

text \<open>Every reachable state keeps its buckets within the keys that asked.\<close>

lemma within_after:
  assumes "finite K" "card K \<le> BUCKETS_LIMIT"
  shows "buckets_within K q \<Longrightarrow> request_keys xs \<subseteq> K \<Longrightarrow> buckets_within K (run_ops (quota_step zone) xs q)"
proof (induction xs arbitrary: q)
  case (Cons x xs)
  have "\<forall>key now. request x = Some (key, now) \<longrightarrow> k_keyId key \<in> K"
    using Cons.prems(2) by (auto simp: request_keys_def)
  note step = step_level(1) [OF Cons.prems(1) assms this]
  have "request_keys xs \<subseteq> K"
    using Cons.prems(2) by (auto simp: request_keys_def split: option.splits)
  with Cons.IH [OF step] show ?case by simp
qed simp

text \<open>
  C31: while the buckets of no more than 10000 keys are kept, a key limited to \<open>R\<close> requests a minute
  gets, over any operations from \<open>t\<close> to \<open>u\<close>, at most \<open>R\<close> requests and those that flow in meanwhile.
\<close>

theorem minute_limit_holds:
  assumes "clock_runs t ys u" and "0 \<le> R"
    and "\<And>key now. (key, now) \<in> set (requests ys) \<Longrightarrow> k_keyId key = k \<Longrightarrow> minute_limit key = Some R"
    and "card (request_keys (xs @ ys)) \<le> 10000"
  shows "real (minute_count zone k ys (quotas_after zone xs)) \<le>
    real_of_int R + real_of_int (u - t) * (real_of_int R / 60000)"
proof -
  let ?K = "request_keys (xs @ ys)"
  have K: "finite ?K" "card ?K \<le> BUCKETS_LIMIT"
    using assms(4) by (simp_all add: request_keys_def BUCKETS_LIMIT_def)
  have sub: "request_keys xs \<subseteq> ?K" "request_keys ys \<subseteq> ?K" by (auto simp: request_keys_def)
  have "buckets_within ?K (quotas_after zone xs)"
    by (rule within_after [OF K _ sub(1)]) (simp add: buckets_within_def new_quotas_def)
  from minute_count_bound [OF K assms(2) this sub(2) assms(1,3)]
  have "real (minute_count zone k ys (quotas_after zone xs)) \<le> max 0
      (bucket_level k (real_of_int R) t (quotas_after zone xs) + real_of_int (u - t) * (real_of_int R / 60000))" .
  moreover have "t \<le> u"
    using assms(1) by (induction ys arbitrary: t) (auto split: option.splits intro: order_trans)
  then have "0 \<le> real_of_int (u - t) * (real_of_int R / 60000)" using assms(2) by simp
  ultimately show ?thesis
    using bucket_level_le [of k "real_of_int R" t "quotas_after zone xs"] assms(2) by linarith
qed

definition minute_key :: key_record where
  "minute_key = day_key\<lparr>k_quota := Some \<lparr>q_requestsPerMinute = Some 60, q_budgets = None\<rparr>\<rparr>"

theorem minute_limit_holds_witness:
  "real (minute_count (\<lambda>_. 0) (js ''k1'') [TakeOne minute_key 1000, Check minute_key 3000 5 None []]
      (quotas_after (\<lambda>_. 0) [TakeOne minute_key 0])) \<le> 60 + 3"
proof -
  have limit: "minute_limit minute_key = Some 60" "k_keyId minute_key = js ''k1''" "\<not> unlimited minute_key"
    by (simp_all add: minute_limit_def minute_key_def day_key_def unlimited_def key_budgets_def)
  have "clock_runs 1000 [TakeOne minute_key 1000, Check minute_key 3000 5 None []] 4000"
    by (simp add: request_def limit)
  moreover have "card (request_keys ([TakeOne minute_key 0] @
      [TakeOne minute_key 1000, Check minute_key 3000 5 None []])) \<le> 10000"
    by (simp add: request_keys_def request_def limit)
  ultimately show ?thesis
    using minute_limit_holds [of 1000 "[TakeOne minute_key 1000, Check minute_key 3000 5 None []]" 4000 60
        "js ''k1''" "[TakeOne minute_key 0]" "\<lambda>_. 0"] limit
    by (auto simp: request_def)
qed

section \<open>Entries of an earlier window\<close>

text \<open>
  An entry the ledger could not take, of a call that started yesterday and ended today, puts away
  what was kept of today: the key's next load counts nothing of it, though its window has not reset.
\<close>

definition lost_call :: "int \<Rightarrow> call_entry" where
  "lost_call start = \<lparr>ce_keyId = Some (js ''k1''), ce_occurredAt = start,
     ce_usage = Some \<lparr>us_input = 900, us_cacheRead = 0, us_cacheWrite = 0, us_output = 0, us_reasoning = 0\<rparr>,
     ce_status = 200, ce_cost = None\<rparr>"

definition after_lost_calls :: "call_entry list \<Rightarrow> quotas" where
  "after_lost_calls es = fold (unrecorded_entry (\<lambda>_. 0)) es new_quotas"

lemma utc_days:
  "budgetWindow PeriodDay 172850000 (\<lambda>_. 0) = \<lparr>wd_start = 172800000, wd_reset = 259200000\<rparr>"
  "budgetWindow PeriodDay 172900000 (\<lambda>_. 0) = \<lparr>wd_start = 172800000, wd_reset = 259200000\<rparr>"
  "budgetWindow PeriodDay 172700000 (\<lambda>_. 0) = \<lparr>wd_start = 86400000, wd_reset = 172800000\<rparr>"
  by code_simp+

lemma slots_differ [simp]: "slot k p = slot k p' \<longleftrightarrow> p = p'"
  by (cases p; cases p') (simp_all add: slot_def period_text_def)

definition kept_for :: "zone \<Rightarrow> call_entry \<Rightarrow> period \<Rightarrow> usage_sums option \<Rightarrow> usage_sums" where
  "kept_for zone e p old =
     (let w = budgetWindow p (ce_occurredAt e) zone;
          fresh = EMPTY_SUMS\<lparr>sm_start := wd_start w, sm_reset := wd_reset w\<rparr>
      in add_entry e (case old of Some k \<Rightarrow> if sm_start k = wd_start w then k else fresh | None \<Rightarrow> fresh))"

lemma jset_has: "k \<in> fst ` set (jset k v m)"
  by (induction m rule: jset.induct) auto

lemma keep_unrecorded_get:
  assumes "length (qs_unrecorded q) < SUMS_LIMIT"
  shows "jget (qs_unrecorded (keep_unrecorded zone k e p q)) =
      (jget (qs_unrecorded q))(slot k p \<mapsto> kept_for zone e p (jget (qs_unrecorded q) (slot k p)))"
    and "length (qs_unrecorded (keep_unrecorded zone k e p q)) \<le> Suc (length (qs_unrecorded q))"
  using assms
  by (auto simp: keep_unrecorded_def kept_for_def Let_def length_jset jset_has fun_eq_iff split: option.splits)

lemma record_unrecorded [simp]: "qs_unrecorded (record_entry e q) = qs_unrecorded q"
proof -
  have "qs_unrecorded (record_period k e p q) = qs_unrecorded q" for k p q
    by (simp add: record_period_def Let_def split: option.split)
  then show ?thesis by (simp add: record_entry_def fold_frame split: option.split)
qed

lemma unrecorded_day:
  assumes "entry_key e = Some k" "length (qs_unrecorded q) + 3 \<le> SUMS_LIMIT"
  shows "jget (qs_unrecorded (unrecorded_entry zone e q)) (slot k PeriodDay) =
      Some (kept_for zone e PeriodDay (jget (qs_unrecorded q) (slot k PeriodDay)))"
    and "length (qs_unrecorded (unrecorded_entry zone e q)) \<le> length (qs_unrecorded q) + 3"
proof -
  let ?first = "keep_unrecorded zone k e PeriodDay q"
  let ?second = "keep_unrecorded zone k e PeriodWeek ?first"
  have 1: "length (qs_unrecorded ?first) \<le> Suc (length (qs_unrecorded q))"
    using keep_unrecorded_get(2) [of q] assms(2) by simp
  moreover have "length (qs_unrecorded ?first) < SUMS_LIMIT" using 1 assms(2) by linarith
  then have "length (qs_unrecorded ?second) \<le> Suc (length (qs_unrecorded ?first))"
    by (rule keep_unrecorded_get(2))
  ultimately have 2: "length (qs_unrecorded ?second) \<le> length (qs_unrecorded q) + 2" by linarith
  show "jget (qs_unrecorded (unrecorded_entry zone e q)) (slot k PeriodDay) =
      Some (kept_for zone e PeriodDay (jget (qs_unrecorded q) (slot k PeriodDay)))"
    using assms 1 2
    by (simp add: unrecorded_entry_def budgetPeriods_def keep_unrecorded_get(1))
  show "length (qs_unrecorded (unrecorded_entry zone e q)) \<le> length (qs_unrecorded q) + 3"
    using assms 2 keep_unrecorded_get(2) [of ?second zone k e PeriodMonth]
    by (simp add: unrecorded_entry_def budgetPeriods_def)
qed

lemma late_entry_puts_away:
  "sm_input (readSums (\<lambda>_. 0) (js ''k1'') PeriodDay 172900000 None (after_lost_calls [lost_call 172850000])) = 900"
  "sm_input (readSums (\<lambda>_. 0) (js ''k1'') PeriodDay 172900000 None
     (after_lost_calls [lost_call 172850000, lost_call 172700000])) = 0"
proof -
  have key: "entry_key (lost_call t) = Some (js ''k1'')" for t
    by (simp add: lost_call_def entry_key_def)
  have start: "qs_unrecorded new_quotas = []" by (simp add: new_quotas_def)
  let ?first = "unrecorded_entry (\<lambda>_. 0) (lost_call 172850000) new_quotas"
  have one: "jget (qs_unrecorded ?first) (slot (js ''k1'') PeriodDay) = Some (kept_for (\<lambda>_. 0) (lost_call 172850000) PeriodDay None)"
    "length (qs_unrecorded ?first) \<le> 3"
    using unrecorded_day [OF key, of new_quotas "\<lambda>_. 0" 172850000] by (simp_all add: start SUMS_LIMIT_def)
  let ?second = "unrecorded_entry (\<lambda>_. 0) (lost_call 172700000) ?first"
  have two: "jget (qs_unrecorded ?second) (slot (js ''k1'') PeriodDay) =
      Some (kept_for (\<lambda>_. 0) (lost_call 172700000) PeriodDay
        (Some (kept_for (\<lambda>_. 0) (lost_call 172850000) PeriodDay None)))"
    using unrecorded_day(1) [OF key, of ?first "\<lambda>_. 0" 172700000] one by (simp add: SUMS_LIMIT_def)
  note eval = after_lost_calls_def readSums_def Let_def utc_days kept_for_def lost_call_def add_entry_def EMPTY_SUMS_def
  show "sm_input (readSums (\<lambda>_. 0) (js ''k1'') PeriodDay 172900000 None (after_lost_calls [lost_call 172850000])) = 900"
    using one(1) by (simp add: eval)
  show "sm_input (readSums (\<lambda>_. 0) (js ''k1'') PeriodDay 172900000 None
     (after_lost_calls [lost_call 172850000, lost_call 172700000])) = 0"
    using two by (simp add: eval)
qed

end
