(* ===== verification/HandlerLimits.thy ===== *)
theory HandlerLimits
  imports Prelude
begin

text \<open>
  The resource limits of the gateway handler (\<open>packages/gateway/src/limits.ts\<close>) and the one resolver
  of \<open>gateway.limits\<close>.

  A limits object is the map of its fields in their order. An input is what the resolver tells apart:
  nothing, no object, or an object's entries; a value is a whole number (of any size) or not.
\<close>

type_synonym limits = "(jstring, int) jmap"

definition DEFAULT_HANDLER_LIMITS :: limits where
  "DEFAULT_HANDLER_LIMITS =
    [(js ''maxRequestBytes'', 67108864),
     (js ''maxUpstreamRequestBytes'', 33554432),
     (js ''maxResponseBytes'', 67108864),
     (js ''maxEventBytes'', 16777216),
     (js ''maxInflightRequestBytes'', 536870912),
     (js ''requestBodyTimeoutMs'', 120000),
     (js ''requestHeadersTimeoutMs'', 10000),
     (js ''upstreamHeaderTimeoutMs'', 300000),
     (js ''idleTimeoutMs'', 300000),
     (js ''keepaliveGapMs'', 10000),
     (js ''maxNoDataMs'', 300000),
     (js ''headerCommitMs'', 45000),
     (js ''holdMs'', 15000),
     (js ''holdBytes'', 1048576),
     (js ''maxConcurrentPerCredential'', 8),
     (js ''maxQueuedPerCredential'', 64),
     (js ''slotWaitMs'', 60000),
     (js ''reasoningEntries'', 256),
     (js ''reasoningBytes'', 4194304),
     (js ''reasoningTotalBytes'', 67108864),
     (js ''maxDescribedImages'', 16),
     (js ''maxInternalCalls'', 20),
     (js ''maxSearchesPerRound'', 5),
     (js ''maxSearchesPerRequest'', 20),
     (js ''redactionBudgetMs'', 1000)]"

definition RANGES :: "(jstring, int \<times> int) jmap" where
  "RANGES =
    [(js ''maxRequestBytes'', (1, 268435456)),
     (js ''maxUpstreamRequestBytes'', (1, 9007199254740991)),
     (js ''maxResponseBytes'', (1, 9007199254740991)),
     (js ''maxEventBytes'', (1, 9007199254740991)),
     (js ''maxInflightRequestBytes'', (1, 9007199254740991)),
     (js ''requestBodyTimeoutMs'', (1, 2147483647)),
     (js ''requestHeadersTimeoutMs'', (1, 2147483647)),
     (js ''upstreamHeaderTimeoutMs'', (1, 2147483647)),
     (js ''idleTimeoutMs'', (1, 2147483647)),
     (js ''keepaliveGapMs'', (1000, 30000)),
     (js ''maxNoDataMs'', (1, 2147483647)),
     (js ''headerCommitMs'', (1, 55000)),
     (js ''holdMs'', (1, 2147483647)),
     (js ''holdBytes'', (1, 9007199254740991)),
     (js ''maxConcurrentPerCredential'', (1, 9007199254740991)),
     (js ''maxQueuedPerCredential'', (0, 9007199254740991)),
     (js ''slotWaitMs'', (1, 2147483647)),
     (js ''reasoningEntries'', (0, 9007199254740991)),
     (js ''reasoningBytes'', (0, 9007199254740991)),
     (js ''reasoningTotalBytes'', (0, 9007199254740991)),
     (js ''maxDescribedImages'', (0, 9007199254740991)),
     (js ''maxInternalCalls'', (0, 9007199254740991)),
     (js ''maxSearchesPerRound'', (0, 9007199254740991)),
     (js ''maxSearchesPerRequest'', (0, 9007199254740991)),
     (js ''redactionBudgetMs'', (1, 60000))]"

datatype limit_value = Whole int | NotWhole

datatype limits_input = NoInput | NoObject | Entries "(jstring \<times> limit_value) list"

datatype range_error = NotAnObject | UnknownLimit jstring | OutOfRange jstring int int

text \<open>One entry, checked and set.\<close>

definition take_limit :: "jstring \<times> limit_value \<Rightarrow> limits \<Rightarrow> range_error + limits" where
  "take_limit = (\<lambda>(name, v) limits.
     (case jget RANGES name of
        None \<Rightarrow> Inl (UnknownLimit (take 64 name))
      | Some (lo, hi) \<Rightarrow>
          (case v of
             NotWhole \<Rightarrow> Inl (OutOfRange name lo hi)
           | Whole n \<Rightarrow>
               if \<bar>n\<bar> > max_safe \<or> n < lo \<or> n > hi then Inl (OutOfRange name lo hi)
               else Inr (jset name n limits))))"

fun take_limits :: "(jstring \<times> limit_value) list \<Rightarrow> limits \<Rightarrow> range_error + limits" where
  "take_limits [] limits = Inr limits"
| "take_limits (e # es) limits =
     (case take_limit e limits of Inl err \<Rightarrow> Inl err | Inr limits' \<Rightarrow> take_limits es limits')"

definition resolveHandlerLimits :: "limits_input \<Rightarrow> range_error + limits" where
  "resolveHandlerLimits input =
     (case input of
        NoInput \<Rightarrow> Inr DEFAULT_HANDLER_LIMITS
      | NoObject \<Rightarrow> Inl NotAnObject
      | Entries es \<Rightarrow> take_limits es DEFAULT_HANDLER_LIMITS)"

section \<open>What the resolver gives\<close>

text \<open>A limits object has every field once, in the order of the defaults, each within its range.\<close>

definition limit_ok :: "jstring \<times> int \<Rightarrow> bool" where
  "limit_ok = (\<lambda>(name, v). (case jget RANGES name of
     Some (lo, hi) \<Rightarrow> lo \<le> v \<and> v \<le> hi \<and> \<bar>v\<bar> \<le> max_safe | None \<Rightarrow> False))"

definition limits_ok :: "limits \<Rightarrow> bool" where
  "limits_ok limits \<longleftrightarrow> map fst limits = map fst RANGES \<and> list_all limit_ok limits"

lemma defaults_ok: "limits_ok DEFAULT_HANDLER_LIMITS"
  by (simp add: limits_ok_def DEFAULT_HANDLER_LIMITS_def RANGES_def limit_ok_def max_safe_def)

text \<open>The error of an entry that may not stand, \<open>None\<close> for one that may.\<close>

definition entry_error :: "jstring \<times> limit_value \<Rightarrow> range_error option" where
  "entry_error = (\<lambda>(name, v). (case jget RANGES name of
     None \<Rightarrow> Some (UnknownLimit (take 64 name))
   | Some (lo, hi) \<Rightarrow>
       (case v of
          Whole n \<Rightarrow> if limit_ok (name, n) then None else Some (OutOfRange name lo hi)
        | NotWhole \<Rightarrow> Some (OutOfRange name lo hi))))"

lemma take_limit_eq:
  "take_limit e limits = (case entry_error e of
     Some err \<Rightarrow> Inl err
   | None \<Rightarrow> Inr (case snd e of Whole n \<Rightarrow> jset (fst e) n limits | NotWhole \<Rightarrow> limits))"
  by (cases e) (auto simp: take_limit_def entry_error_def limit_ok_def not_less
      split: option.splits limit_value.splits)

lemma entry_fine: "entry_error e = None \<Longrightarrow> \<exists>n. snd e = Whole n \<and> limit_ok (fst e, n)"
  by (cases e) (auto simp: entry_error_def split: option.splits limit_value.splits if_splits)

lemma jset_all: "list_all P m \<Longrightarrow> P (k, v) \<Longrightarrow> list_all P (jset k v m)"
  by (induction k v m rule: jset.induct) auto

lemma set_limit_ok:
  assumes "limits_ok limits" "limit_ok (name, n)"
  shows "limits_ok (jset name n limits)"
proof -
  obtain lo hi where "jget RANGES name = Some (lo, hi)"
    using assms(2) by (auto simp: limit_ok_def split: option.splits)
  then have "name \<in> set (map fst RANGES)" by (force dest: map_of_SomeD)
  then have "name \<in> set (map fst limits)" using assms(1) by (simp only: limits_ok_def)
  then have "map fst (jset name n limits) = map fst limits" by (simp add: keys_jset)
  with assms show ?thesis unfolding limits_ok_def by (simp add: jset_all del: map_eq_conv)
qed

text \<open>The last entry of a name sets it.\<close>

definition named_value :: "(jstring \<times> limit_value) list \<Rightarrow> jstring \<Rightarrow> int option" where
  "named_value es name = (case find (\<lambda>e. fst e = name) (rev es) of Some (_, Whole n) \<Rightarrow> Some n | _ \<Rightarrow> None)"

lemma take_limits_fine:
  assumes "list_all (\<lambda>e. entry_error e = None) es" "limits_ok limits"
  obtains result where "take_limits es limits = Inr result" "limits_ok result"
    "\<And>name. jget result name = (case named_value es name of Some n \<Rightarrow> Some n | None \<Rightarrow> jget limits name)"
  using assms
proof (induction es arbitrary: limits thesis)
  case Nil
  then show ?case by (simp add: named_value_def)
next
  case (Cons e es)
  from Cons.prems(2) have fine: "entry_error e = None" by simp
  then obtain n where n: "snd e = Whole n" "limit_ok (fst e, n)" using entry_fine by blast
  obtain result where r: "take_limits es (jset (fst e) n limits) = Inr result" "limits_ok result"
    "\<And>name. jget result name = (case named_value es name of Some m \<Rightarrow> Some m | None \<Rightarrow> jget (jset (fst e) n limits) name)"
    using Cons.IH [OF _ _ set_limit_ok [OF Cons.prems(3) n(2)]] Cons.prems(2) by auto
  show ?case
  proof (rule Cons.prems(1))
    show "take_limits (e # es) limits = Inr result" using r(1) fine n(1) by (simp add: take_limit_eq)
    show "limits_ok result" by (rule r(2))
    have "entry_error x = None \<Longrightarrow> snd x = Whole m \<or> (\<exists>k. snd x = Whole k)" for x m
      using entry_fine by blast
    then have whole: "\<exists>k. x = (fst x, Whole k)" if "x \<in> set es" for x
      using Cons.prems(2) that entry_fine [of x] by (cases x) (auto simp: list_all_iff)
    show "jget result name = (case named_value (e # es) name of Some m \<Rightarrow> Some m | None \<Rightarrow> jget limits name)" for name
    proof (cases "find (\<lambda>x. fst x = name) (rev es)")
      case None
      with n(1) show ?thesis by (cases e) (auto simp: r(3) named_value_def find_append)
    next
      case (Some x)
      then have "x \<in> set es" using find_Some_set by fastforce
      with whole obtain k where "x = (fst x, Whole k)" by blast
      with Some show ?thesis by (cases x) (auto simp: r(3) named_value_def find_append)
    qed
  qed
qed

lemma take_limits_bad:
  "list_all (\<lambda>e. entry_error e = None) es \<Longrightarrow> entry_error e = Some err \<Longrightarrow> take_limits (es @ e # rest) limits = Inl err"
proof (induction es arbitrary: limits)
  case (Cons x es)
  then show ?case using entry_fine [of x] by (auto simp: take_limit_eq)
qed (simp add: take_limit_eq)

text \<open>
  C32: what is given for the limits either names its first entry that is unknown, no whole number or
  out of range, or resolves to an object with every limit within its range: the value named for it,
  else its default.
\<close>

theorem resolved_limits_in_range:
  "(case resolveHandlerLimits input of
      Inr limits \<Rightarrow> limits_ok limits \<and>
        (\<forall>name. jget limits name =
          (case (case input of Entries es \<Rightarrow> named_value es name | _ \<Rightarrow> None) of
             Some n \<Rightarrow> Some n | None \<Rightarrow> jget DEFAULT_HANDLER_LIMITS name))
    | Inl err \<Rightarrow>
        (case input of
           Entries es \<Rightarrow> Some err = Option.bind (find (\<lambda>e. entry_error e \<noteq> None) es) entry_error
         | _ \<Rightarrow> err = NotAnObject))"
proof (cases input)
  case (Entries es)
  show ?thesis
  proof (cases "list_all (\<lambda>e. entry_error e = None) es")
    case True
    then show ?thesis
      by (rule take_limits_fine [OF _ defaults_ok]) (simp add: resolveHandlerLimits_def Entries)
  next
    case False
    then obtain x where "find (\<lambda>e. entry_error e \<noteq> None) es = Some x"
      by (cases "find (\<lambda>e. entry_error e \<noteq> None) es") (auto simp: find_None_iff list_all_iff)
    then obtain i where i: "i < length es" "es ! i = x" "entry_error x \<noteq> None" "\<forall>j<i. entry_error (es ! j) = None"
      by (auto simp: find_Some_iff)
    then have "list_all (\<lambda>e. entry_error e = None) (take i es)"
      by (auto simp: list_all_length)
    moreover obtain err where err: "entry_error x = Some err" using i(3) by auto
    moreover have "es = take i es @ x # drop (Suc i) es" using i id_take_nth_drop by blast
    ultimately have "take_limits es DEFAULT_HANDLER_LIMITS = Inl err" using take_limits_bad by metis
    with err \<open>find _ es = Some x\<close> show ?thesis by (simp add: resolveHandlerLimits_def Entries)
  qed
qed (simp_all add: resolveHandlerLimits_def defaults_ok)

end
