(* ===== verification/Sticky.thy ===== *)
theory Sticky
  imports CandidateProps
begin

text \<open>
  Route stickiness (\<open>packages/gateway/src/sticky.ts\<close>): which conversation a request belongs to, and
  the credential that answered it last.

  A request is its parsed JSON object; a value the code reads but that is not there is \<open>None\<close>
  (\<open>undefined\<close>). \<open>digest\<close> stands for the hex SHA-256 of the JSON text of a list of values.
\<close>

section \<open>Reading a request\<close>

text \<open>\<open>record\<close>, a field of a record, \<open>list\<close> and the last item of a list.\<close>

fun as_record :: "json option \<Rightarrow> (jstring \<times> json) list option" where
  "as_record (Some (JObj fs)) = Some fs"
| "as_record v = None"

definition field_of :: "(jstring \<times> json) list option \<Rightarrow> string \<Rightarrow> json option" where
  "field_of r name = (case r of Some fs \<Rightarrow> map_of fs (js name) | None \<Rightarrow> None)"

fun as_list :: "json option \<Rightarrow> json list" where
  "as_list (Some (JArr xs)) = xs"
| "as_list v = []"

definition records :: "json option \<Rightarrow> (jstring \<times> json) list option list" where
  "records v = map (\<lambda>x. as_record (Some x)) (as_list v)"

definition last_record :: "json option \<Rightarrow> (jstring \<times> json) list option" where
  "last_record v = (if as_list v = [] then None else as_record (Some (last (as_list v))))"

definition is_text :: "json option \<Rightarrow> string \<Rightarrow> bool" where
  "is_text v s \<longleftrightarrow> v = Some (JStr (js s))"

text \<open>\<open>(v ?? "...") === "..."\<close>.\<close>

definition is_text_or_none :: "json option \<Rightarrow> string \<Rightarrow> bool" where
  "is_text_or_none v s \<longleftrightarrow> v = None \<or> v = Some JNull \<or> is_text v s"

definition first_with ::
    "((jstring \<times> json) list option \<Rightarrow> bool) \<Rightarrow> string \<Rightarrow> (jstring \<times> json) list option list \<Rightarrow> json option" where
  "first_with p name rs = (case find p rs of Some r \<Rightarrow> field_of r name | None \<Rightarrow> None)"

section \<open>Conversations\<close>

datatype conversation_source = FromHeader | FromClient | FromHash

record conversation =
  cv_key :: jstring
  cv_source :: conversation_source
  cv_withinTurn :: bool

text \<open>\<open>/session_([0-9a-zA-Z-]+)/\<close>: what it captures at its first match.\<close>

definition session_unit :: "nat \<Rightarrow> bool" where
  "session_unit c \<longleftrightarrow> is_digit c \<or> 97 \<le> c \<and> c \<le> 122 \<or> 65 \<le> c \<and> c \<le> 90 \<or> c = 45"

fun session_part :: "jstring \<Rightarrow> jstring option" where
  "session_part [] = None"
| "session_part (c # s) =
     (let rest = takeWhile session_unit (drop 8 (c # s))
      in if startsWith (c # s) (js ''session_'') \<and> rest \<noteq> [] then Some rest else session_part s)"

definition clientId :: "protocol \<Rightarrow> (jstring \<times> json) list \<Rightarrow> jstring option" where
  "clientId p raw =
     (case p of
        Anthropic \<Rightarrow>
          (case field_of (as_record (field_of (Some raw) ''metadata'')) ''user_id'' of
             Some (JStr user) \<Rightarrow> session_part user
           | _ \<Rightarrow> None)
      | Gemini \<Rightarrow> None
      | _ \<Rightarrow>
          (case field_of (Some raw) ''prompt_cache_key'' of
             Some (JStr i) \<Rightarrow> if i = [] then None else Some i
           | _ \<Rightarrow> None))"

text \<open>System text and first user message.\<close>

definition opening_of :: "protocol \<Rightarrow> (jstring \<times> json) list \<Rightarrow> json option \<times> json option" where
  "opening_of p raw =
     (let user = (\<lambda>r. is_text (field_of r ''role'') ''user'')
      in case p of
           Chat \<Rightarrow>
             (let messages = records (field_of (Some raw) ''messages'')
              in (first_with (\<lambda>r. is_text (field_of r ''role'') ''system'' \<or> is_text (field_of r ''role'') ''developer'')
                    ''content'' messages,
                  first_with user ''content'' messages))
         | Responses \<Rightarrow>
             (field_of (Some raw) ''instructions'',
              (case field_of (Some raw) ''input'' of
                 Some (JStr s) \<Rightarrow> Some (JStr s)
               | input \<Rightarrow> first_with (\<lambda>r. is_text_or_none (field_of r ''type'') ''message'' \<and> user r) ''content''
                   (records input)))
         | Anthropic \<Rightarrow>
             (field_of (Some raw) ''system'',
              first_with user ''content'' (records (field_of (Some raw) ''messages'')))
         | Gemini \<Rightarrow>
             (field_of (Some raw) ''systemInstruction'',
              first_with (\<lambda>r. is_text_or_none (field_of r ''role'') ''user'') ''parts''
                (records (field_of (Some raw) ''contents''))))"

definition returnsToolResults :: "protocol \<Rightarrow> (jstring \<times> json) list \<Rightarrow> bool" where
  "returnsToolResults p raw =
     (case p of
        Chat \<Rightarrow> is_text (field_of (last_record (field_of (Some raw) ''messages'')) ''role'') ''tool''
      | Responses \<Rightarrow>
          (let t = field_of (last_record (field_of (Some raw) ''input'')) ''type''
           in is_text t ''function_call_output'' \<or> is_text t ''custom_tool_call_output'')
      | Anthropic \<Rightarrow>
          (let l = last_record (field_of (Some raw) ''messages'')
           in is_text (field_of l ''role'') ''user'' \<and>
              list_ex (\<lambda>r. is_text (field_of r ''type'') ''tool_result'') (records (field_of l ''content'')))
      | Gemini \<Rightarrow>
          list_ex (\<lambda>r. field_of r ''functionResponse'' \<noteq> None)
            (records (field_of (last_record (field_of (Some raw) ''contents'')) ''parts'')))"

text \<open>In the JSON text of a list, what is not there is \<open>null\<close>.\<close>

definition json_or_null :: "json option \<Rightarrow> json" where
  "json_or_null v = (case v of Some x \<Rightarrow> x | None \<Rightarrow> JNull)"

definition conversationOf ::
    "(json list \<Rightarrow> jstring) \<Rightarrow> protocol \<Rightarrow> (jstring \<times> json) list \<Rightarrow> jstring option \<Rightarrow> jstring \<Rightarrow> conversation" where
  "conversationOf digest p raw header keyId =
     (let turn = returnsToolResults p raw;
          sent = (case header of Some h \<Rightarrow> trim h | None \<Rightarrow> []);
          i = (case clientId p raw of Some i \<Rightarrow> i | None \<Rightarrow> []);
          (system, first) = opening_of p raw
      in if sent \<noteq> [] then
           \<lparr>cv_key = digest [JStr keyId, JStr (js ''h''), JStr sent], cv_source = FromHeader, cv_withinTurn = turn\<rparr>
         else if i \<noteq> [] then
           \<lparr>cv_key = digest [JStr keyId, JStr (js ''c''), JStr i], cv_source = FromClient, cv_withinTurn = turn\<rparr>
         else
           \<lparr>cv_key = digest [JStr keyId, JStr (js ''o''), JStr (protocol_text p), json_or_null system,
              json_or_null first], cv_source = FromHash, cv_withinTurn = turn\<rparr>)"

section \<open>The last credential of a conversation\<close>

definition CACHE_WORTH_TOKENS :: int where "CACHE_WORTH_TOKENS = 1024"
definition CACHE_COLD_MS :: int where "CACHE_COLD_MS = 5 * 60000"
definition STICKY_ENTRIES :: nat where "STICKY_ENTRIES = 512"
definition STICKY_TTL_MS :: int where "STICKY_TTL_MS = 24 * 3600000"

record remembered =
  rm_requested :: jstring
  rm_candidate :: jstring
  rm_at :: int
  rm_cacheRead :: int

definition identity :: "candidate \<Rightarrow> jstring" where
  "identity c = pv_id (ca_provider c) @ 0 # c_id (ca_credential c) @ 0 # ca_ref c"

type_synonym sticky = "(jstring, remembered) jmap"

datatype sticky_patch =
    StickyHit | MissNew | MissModelChanged | MissNewTurn | MissCacheCold | BrokenUnavailable | BrokenBreaker

definition without_index :: "nat \<Rightarrow> 'a list \<Rightarrow> 'a list" where
  "without_index i xs = take i xs @ drop (Suc i) xs"

text \<open>\<open>StickyRoutes.apply\<close>: the candidates in their new order and the patch, if there was a choice.\<close>

definition sticky_apply ::
    "conversation \<Rightarrow> jstring \<Rightarrow> stickiness \<Rightarrow> candidate list \<Rightarrow> (candidate \<Rightarrow> bool) \<Rightarrow> int \<Rightarrow> sticky \<Rightarrow>
     candidate list \<times> sticky_patch option" where
  "sticky_apply conv requested mode cs is_blocked now entries =
     (if mode = StickOff \<or> length cs < 2 then (cs, None)
      else
        (case jget entries (cv_key conv) of
           None \<Rightarrow> (cs, Some MissNew)
         | Some l \<Rightarrow>
             if now - rm_at l > STICKY_TTL_MS then (cs, Some MissNew)
             else if rm_requested l \<noteq> requested then (cs, Some MissModelChanged)
             else
               (let warm = (rm_cacheRead l \<ge> CACHE_WORTH_TOKENS \<and> now - rm_at l < CACHE_COLD_MS);
                    stay = (mode = StickSession \<or> cv_withinTurn conv \<or> (mode = StickAuto \<and> warm))
                in if \<not> stay then (cs, Some (if mode = StickTurn then MissNewTurn else MissCacheCold))
                   else
                     (case find_index (\<lambda>c. identity c = rm_candidate l) cs of
                        None \<Rightarrow> (cs, Some BrokenUnavailable)
                      | Some i \<Rightarrow>
                          if is_blocked (cs ! i) then (cs, Some BrokenBreaker)
                          else (cs ! i # without_index i cs, Some StickyHit)))))"

text \<open>\<open>StickyRoutes.remember\<close>: the newest entry last, the oldest dropped beyond the bound.\<close>

definition sticky_remember ::
    "conversation \<Rightarrow> jstring \<Rightarrow> candidate \<Rightarrow> int \<Rightarrow> int \<Rightarrow> sticky \<Rightarrow> sticky" where
  "sticky_remember conv requested c cacheRead now entries =
     (let m = jset (cv_key conv)
          \<lparr>rm_requested = requested, rm_candidate = identity c, rm_at = now, rm_cacheRead = cacheRead\<rparr>
          (jdelete (cv_key conv) entries)
      in drop (length m - STICKY_ENTRIES) m)"

section \<open>What stickiness promises\<close>

text \<open>Conversations of different Gateway Keys, or known in different ways, are different ones.\<close>

lemma conversation_scoped:
  assumes "inj digest"
    and "cv_key (conversationOf digest p raw header keyId) = cv_key (conversationOf digest p' raw' header' keyId')"
  shows "keyId = keyId' \<and> cv_source (conversationOf digest p raw header keyId) =
    cv_source (conversationOf digest p' raw' header' keyId')"
  using assms(2)
  by (auto simp: conversationOf_def Let_def inj_eq [OF assms(1)] split: prod.splits if_splits)

lemma length_sticky_remember: "length (sticky_remember conv requested c r now entries) \<le> STICKY_ENTRIES"
  by (simp add: sticky_remember_def Let_def)

lemma jwf_sticky_remember: "jwf entries \<Longrightarrow> jwf (sticky_remember conv requested c r now entries)"
  by (simp add: sticky_remember_def Let_def jwf_drop)

text \<open>The candidates are never changed, only their order.\<close>

lemma mset_without_index: "i < length xs \<Longrightarrow> add_mset (xs ! i) (mset (without_index i xs)) = mset xs"
  unfolding without_index_def
  by (subst (4) id_take_nth_drop [of i xs]) simp_all

lemma sticky_apply_permutes: "mset (fst (sticky_apply conv requested mode cs b now entries)) = mset cs"
  by (auto simp: sticky_apply_def Let_def mset_without_index dest!: find_index_Some split: option.split)

text \<open>Calls answered one after another: whose, what they asked for, who answered, when.\<close>

type_synonym answered = "conversation \<times> jstring \<times> candidate \<times> int \<times> int"

definition answer :: "answered \<Rightarrow> sticky \<Rightarrow> sticky" where
  "answer = (\<lambda>(conv, requested, c, cacheRead, now). sticky_remember conv requested c cacheRead now)"

definition answered_keys :: "answered list \<Rightarrow> jstring set" where
  "answered_keys xs = (\<lambda>x. cv_key (fst x)) ` set xs"

lemma jwf_answers: "jwf entries \<Longrightarrow> jwf (fold answer xs entries)"
  by (induction xs arbitrary: entries) (auto simp: answer_def jwf_sticky_remember split: prod.split)

lemma length_answers: "length entries \<le> STICKY_ENTRIES \<Longrightarrow> length (fold answer xs entries) \<le> STICKY_ENTRIES"
  by (induction xs arbitrary: entries) (auto simp: answer_def length_sticky_remember split: prod.split)

text \<open>The entries from that of a key on: of those that were answered since.\<close>

definition newer :: "jstring \<Rightarrow> remembered \<Rightarrow> jstring set \<Rightarrow> sticky \<Rightarrow> bool" where
  "newer k v K m \<longleftrightarrow> jwf m \<and> (\<exists>pre post. m = pre @ (k, v) # post \<and> fst ` set post \<subseteq> K)"

lemma newer_get: "newer k v K m \<Longrightarrow> jget m k = Some v"
  by (auto simp: newer_def jget_Some_iff)

lemma newerI: "jwf m \<Longrightarrow> m = pre @ (k, v) # post \<Longrightarrow> fst ` set post \<subseteq> K \<Longrightarrow> newer k v K m"
  unfolding newer_def by blast

lemma newer_mono: "newer k v K m \<Longrightarrow> K \<subseteq> K' \<Longrightarrow> newer k v K' m"
  unfolding newer_def by blast

lemma newer_start:
  "jwf m \<Longrightarrow> newer (cv_key conv) \<lparr>rm_requested = requested, rm_candidate = identity c, rm_at = now, rm_cacheRead = r\<rparr>
    {} (sticky_remember conv requested c r now m)"
proof -
  assume m: "jwf m"
  let ?v = "\<lparr>rm_requested = requested, rm_candidate = identity c, rm_at = now, rm_cacheRead = r\<rparr>"
  let ?d = "jdelete (cv_key conv) m"
  have "jset (cv_key conv) ?v ?d = ?d @ [(cv_key conv, ?v)]" by (rule jset_fresh) (rule jdelete_notin)
  then have "sticky_remember conv requested c r now m = drop (length ?d + 1 - STICKY_ENTRIES) ?d @ [(cv_key conv, ?v)]"
    by (simp add: sticky_remember_def Let_def STICKY_ENTRIES_def)
  then show ?thesis by (intro newerI [OF jwf_sticky_remember [OF m]]) simp_all
qed

lemma newer_answer:
  assumes m: "newer k v K m" and other: "cv_key (fst x) \<noteq> k" "cv_key (fst x) \<in> K"
    and K: "finite K" "card K < STICKY_ENTRIES"
  shows "newer k v K (answer x m)"
proof -
  obtain conv requested c r now where x: "x = (conv, requested, c, r, now)" by (cases x)
  let ?k = "cv_key conv"
  let ?v = "\<lparr>rm_requested = requested, rm_candidate = identity c, rm_at = now, rm_cacheRead = r\<rparr>"
  obtain pre post where split: "m = pre @ (k, v) # post" "fst ` set post \<subseteq> K" and wf: "jwf m"
    using m by (auto simp: newer_def)
  have "jset ?k ?v (jdelete ?k m) = jdelete ?k m @ [(?k, ?v)]" by (rule jset_fresh) (rule jdelete_notin)
  also have "\<dots> = jdelete ?k pre @ (k, v) # (jdelete ?k post @ [(?k, ?v)])"
    using other(1) by (simp add: split(1) jdelete_def x)
  finally have set_eq: "jset ?k ?v (jdelete ?k m) = jdelete ?k pre @ (k, v) # (jdelete ?k post @ [(?k, ?v)])" .
  let ?post = "jdelete ?k post @ [(?k, ?v)]"
  have post_K: "fst ` set ?post \<subseteq> K"
    using split(2) other(2) by (auto simp: jdelete_def x)
  have "jwf (jset ?k ?v (jdelete ?k m))" using wf by simp
  then have "distinct (map fst ?post)" unfolding set_eq by (simp add: jwf_def)
  then have "length ?post = card (fst ` set ?post)" by (metis distinct_card length_map list.set_map)
  also have "\<dots> \<le> card K" using post_K K(1) by (rule card_mono [rotated])
  finally have short: "length ?post < STICKY_ENTRIES" using K(2) by simp
  have drop: "answer x m = drop (length (jdelete ?k pre @ (k, v) # ?post) - STICKY_ENTRIES) (jdelete ?k pre @ (k, v) # ?post)"
    by (simp only: answer_def x sticky_remember_def Let_def set_eq prod.case)
  also have "\<dots> = drop (length (jdelete ?k pre @ (k, v) # ?post) - STICKY_ENTRIES) (jdelete ?k pre) @ (k, v) # ?post"
    using short by (subst drop_append) (simp add: STICKY_ENTRIES_def)
  finally have "answer x m = drop (length (jdelete ?k pre @ (k, v) # ?post) - STICKY_ENTRIES) (jdelete ?k pre) @ (k, v) # ?post" .
  moreover have "jwf (answer x m)" using jwf_answers [OF wf, of "[x]"] by simp
  ultimately show ?thesis using post_K by (intro newerI)
qed

lemma newer_answers:
  assumes "finite K" "card K < STICKY_ENTRIES" "k \<notin> K"
  shows "newer k v K m \<Longrightarrow> answered_keys xs \<subseteq> K \<Longrightarrow> newer k v K (fold answer xs m)"
proof (induction xs arbitrary: m)
  case (Cons x xs)
  then have x: "cv_key (fst x) \<in> K" and xs: "answered_keys xs \<subseteq> K" by (simp_all add: answered_keys_def)
  then have "cv_key (fst x) \<noteq> k" using assms(3) by blast
  from Cons.IH [OF newer_answer [OF Cons.prems(1) this x assms(1,2)] xs] show ?case by simp
qed simp

definition entries_after ::
    "answered list \<Rightarrow> conversation \<Rightarrow> jstring \<Rightarrow> candidate \<Rightarrow> int \<Rightarrow> int \<Rightarrow> answered list \<Rightarrow> sticky" where
  "entries_after earlier conv requested c r t others =
     fold answer others (sticky_remember conv requested c r t (fold answer earlier []))"

text \<open>
  C33: no more than 512 conversations are remembered; a conversation goes back first to the
  candidate that answered it, the others keeping their order, as long as fewer than 512 other
  conversations were answered since, it asks for the same within a day, and the mode says to stay
  (always; inside a turn; or on a warm cache), if the candidate is offered and not blocked.
\<close>

theorem conversation_stays:
  assumes "cv_key conv \<notin> answered_keys others" "card (answered_keys others) < 512"
    and "now - t \<le> 24 * 3600000"
    and "mode = StickSession \<or> mode \<noteq> StickOff \<and> cv_withinTurn conv' \<or>
      mode = StickAuto \<and> 1024 \<le> r \<and> now - t < 5 * 60000"
    and "cv_key conv' = cv_key conv" "2 \<le> length cs" "c \<in> set cs"
    and "\<And>x. x \<in> set cs \<Longrightarrow> identity x = identity c \<Longrightarrow> \<not> blocked x"
  shows "length (entries_after earlier conv requested c r t others) \<le> 512 \<and> (\<exists>before x after. cs = before @ x # after \<and> identity x = identity c \<and>
    sticky_apply conv' requested mode cs blocked now (entries_after earlier conv requested c r t others) =
      (x # before @ after, Some StickyHit))"
proof -
  define entries where "entries = entries_after earlier conv requested c r t others"
  let ?v = "\<lparr>rm_requested = requested, rm_candidate = identity c, rm_at = t, rm_cacheRead = r\<rparr>"
  have "newer (cv_key conv) ?v {} (sticky_remember conv requested c r t (fold answer earlier []))"
    by (rule newer_start) (simp add: jwf_answers)
  then have "newer (cv_key conv) ?v (answered_keys others) (sticky_remember conv requested c r t (fold answer earlier []))"
    by (rule newer_mono) simp
  then have "newer (cv_key conv) ?v (answered_keys others) entries"
    unfolding entries_def entries_after_def using assms(1,2)
    by (intro newer_answers) (simp_all add: answered_keys_def STICKY_ENTRIES_def)
  then have get: "jget entries (cv_key conv') = Some ?v" unfolding assms(5) by (rule newer_get)
  obtain i where i: "find_index (\<lambda>x. identity x = identity c) cs = Some i"
    using find_index_None [of "\<lambda>x. identity x = identity c" cs] assms(7) by blast
  note found = find_index_Some [OF i]
  have "sticky_apply conv' requested mode cs blocked now entries = (cs ! i # without_index i cs, Some StickyHit)"
    using assms(3,4,6) assms(8) [of "cs ! i"] found
    by (auto simp: sticky_apply_def get i Let_def STICKY_TTL_MS_def CACHE_WORTH_TOKENS_def CACHE_COLD_MS_def)
  moreover have "cs = take i cs @ cs ! i # drop (Suc i) cs" using found id_take_nth_drop by blast
  moreover have "length entries \<le> 512"
    using length_answers [of "sticky_remember conv requested c r t (fold answer earlier [])" others]
      length_sticky_remember by (simp add: entries_def entries_after_def STICKY_ENTRIES_def)
  ultimately show ?thesis using found unfolding without_index_def entries_def by metis
qed

definition sticky_candidate :: "string \<Rightarrow> candidate" where
  "sticky_candidate k = \<lparr>ca_provider = demo_provider ''p'' [], ca_credential = demo_credential k None,
     ca_model = None, ca_ref = js ''p/m'', ca_wireModel = js ''m'', ca_mode = Passthrough, ca_upstream = Chat,
     ca_endpoint = js ''https://c'', ca_effort = None, ca_fast = False, ca_path = None, ca_aside = False\<rparr>"

definition sticky_conversation :: "string \<Rightarrow> conversation" where
  "sticky_conversation k = \<lparr>cv_key = js k, cv_source = FromHash, cv_withinTurn = False\<rparr>"

theorem conversation_stays_witness:
  "fst (sticky_apply (sticky_conversation ''a'') (js ''m'') StickAuto [sticky_candidate ''k2'', sticky_candidate ''k1'']
     (\<lambda>_. False) 5000
     (entries_after [] (sticky_conversation ''a'') (js ''m'') (sticky_candidate ''k1'') 2000 1000
        [(sticky_conversation ''b'', js ''m'', sticky_candidate ''k2'', 0, 2000)])) =
   [sticky_candidate ''k1'', sticky_candidate ''k2'']"
proof -
  have differ: "identity (sticky_candidate ''k2'') \<noteq> identity (sticky_candidate ''k1'')"
    by (simp add: identity_def sticky_candidate_def demo_provider_def demo_credential_def js_eval)
  from conversation_stays [of "sticky_conversation ''a''" "[(sticky_conversation ''b'', js ''m'', sticky_candidate ''k2'', 0, 2000)]"
      5000 1000 StickAuto "sticky_conversation ''a''" 2000 "[sticky_candidate ''k2'', sticky_candidate ''k1'']"
      "sticky_candidate ''k1''" "\<lambda>_. False" "[]" "js ''m''"]
  show ?thesis using differ by (auto simp: answered_keys_def sticky_conversation_def Cons_eq_append_conv)
qed

end
