(* ===== verification/Regexes.thy ===== *)
theory Regexes
  imports Prelude
begin

text \<open>
  Regular expressions as the source's literals use them, with a matcher that computes.

  A position is the code unit before it (if any) and the string after it. \<open>ends r p\<close> lists where
  \<open>r\<close> may stop when it starts at \<open>p\<close>, in the order in which JavaScript's backtracking tries them, so
  that its head is the match the engine takes; \<open>matches\<close> says the same as a relation, and the two
  agree. \<open>has_match\<close> is \<open>RegExp.test\<close>.

  Under the flag \<open>i\<close> (without \<open>u\<close>) two units are the same when their upper cases are, and no unit
  outside ASCII has an upper case inside it: for the ASCII and CJK literals used here the comparison
  folds ASCII letters only.
\<close>

type_synonym position = "nat option \<times> jstring"

datatype rx =
    Eps
  | Unit "nat \<Rightarrow> bool"
  | Then rx rx
  | Or rx rx
  | Star rx
  | Boundary
  | AtStart
  | AtEnd

section \<open>The matcher\<close>

definition word_unit :: "nat \<Rightarrow> bool" where
  "word_unit c \<longleftrightarrow> 48 \<le> c \<and> c \<le> 57 \<or> 65 \<le> c \<and> c \<le> 90 \<or> c = 95 \<or> 97 \<le> c \<and> c \<le> 122"

definition at_boundary :: "position \<Rightarrow> bool" where
  "at_boundary p \<longleftrightarrow>
     (case fst p of None \<Rightarrow> False | Some c \<Rightarrow> word_unit c) \<noteq>
     (case snd p of [] \<Rightarrow> False | c # _ \<Rightarrow> word_unit c)"

text \<open>Repeating as often as possible first; a round that consumes nothing is not repeated.\<close>

fun rounds :: "(position \<Rightarrow> position list) \<Rightarrow> nat \<Rightarrow> position \<Rightarrow> position list" where
  "rounds f 0 p = [p]"
| "rounds f (Suc n) p =
     concat (map (rounds f n) (filter (\<lambda>q. length (snd q) < length (snd p)) (f p))) @ [p]"

primrec ends :: "rx \<Rightarrow> position \<Rightarrow> position list" where
  "ends Eps p = [p]"
| "ends (Unit P) p = (case snd p of [] \<Rightarrow> [] | c # cs \<Rightarrow> if P c then [(Some c, cs)] else [])"
| "ends (Then r s) p = concat (map (ends s) (ends r p))"
| "ends (Or r s) p = ends r p @ ends s p"
| "ends (Star r) p = rounds (ends r) (length (snd p)) p"
| "ends Boundary p = (if at_boundary p then [p] else [])"
| "ends AtStart p = (if fst p = None then [p] else [])"
| "ends AtEnd p = (if snd p = [] then [p] else [])"

fun some_match :: "rx \<Rightarrow> nat option \<Rightarrow> jstring \<Rightarrow> bool" where
  "some_match r prev [] \<longleftrightarrow> ends r (prev, []) \<noteq> []"
| "some_match r prev (c # cs) \<longleftrightarrow> ends r (prev, c # cs) \<noteq> [] \<or> some_match r (Some c) cs"

definition has_match :: "rx \<Rightarrow> jstring \<Rightarrow> bool" where
  "has_match r s = some_match r None s"

section \<open>The relation\<close>

inductive matches :: "rx \<Rightarrow> position \<Rightarrow> position \<Rightarrow> bool" where
  eps: "matches Eps p p"
| unit: "P c \<Longrightarrow> matches (Unit P) (b, c # cs) (Some c, cs)"
| seq: "matches r p q \<Longrightarrow> matches s q q' \<Longrightarrow> matches (Then r s) p q'"
| left: "matches r p q \<Longrightarrow> matches (Or r s) p q"
| right: "matches s p q \<Longrightarrow> matches (Or r s) p q"
| none: "matches (Star r) p p"
| round: "matches r p q \<Longrightarrow> matches (Star r) q q' \<Longrightarrow> matches (Star r) p q'"
| boundary: "at_boundary p \<Longrightarrow> matches Boundary p p"
| start: "matches AtStart (None, s) (None, s)"
| finish: "matches AtEnd (b, []) (b, [])"

inductive_cases matches_elims:
  "matches Eps p q" "matches (Unit P) p q" "matches (Then r s) p q" "matches (Or r s) p q"
  "matches Boundary p q" "matches AtStart p q" "matches AtEnd p q"

text \<open>A match goes forward, and one that consumes nothing stays where it is.\<close>

lemma matches_forward: "matches r p q \<Longrightarrow> q = p \<or> length (snd q) < length (snd p)"
  by (induction rule: matches.induct) auto

lemma star_rounds:
  assumes f: "\<And>p q. q \<in> set (f p) \<longleftrightarrow> matches r p q"
  shows "q \<in> set (rounds f n p) \<Longrightarrow> matches (Star r) p q"
proof (induction n arbitrary: p)
  case 0
  then show ?case by (simp add: none)
next
  case (Suc n)
  then show ?case by (auto simp: f intro: none round)
qed

lemma rounds_star:
  assumes f: "\<And>p q. q \<in> set (f p) \<longleftrightarrow> matches r p q"
  shows "matches t p q \<Longrightarrow> t = Star r \<Longrightarrow> length (snd p) \<le> n \<Longrightarrow> q \<in> set (rounds f n p)"
proof (induction arbitrary: n rule: matches.induct)
  case (none r' p)
  then show ?case by (cases n) auto
next
  case (round r' p q q')
  show ?case
  proof (cases "q = p")
    case True
    with round show ?thesis by auto
  next
    case False
    with matches_forward [OF round.hyps(1)] have less: "length (snd q) < length (snd p)" by simp
    with round.prems obtain m where n: "n = Suc m" "length (snd q) \<le> m" by (cases n) auto
    with round have "q' \<in> set (rounds f m q)" by simp
    moreover have "q \<in> set (f p)" using round f by simp
    ultimately show ?thesis using less n by (cases q) auto
  qed
qed simp_all

lemma ends_iff: "q \<in> set (ends r p) \<longleftrightarrow> matches r p q"
proof (induction r arbitrary: p q)
  case (Unit P)
  then show ?case by (cases p) (auto split: list.splits intro: unit elim: matches_elims)
next
  case (Then r1 r2)
  then show ?case by (simp, blast intro: seq elim: matches_elims)
next
  case (Star r)
  show ?case
    unfolding ends.simps using star_rounds [of "ends r" r q "length (snd p)" p] rounds_star [of "ends r" r "Star r" p q]
      Star.IH by blast
next
  case AtStart
  then show ?case by (cases p) (auto intro: start elim: matches_elims)
next
  case AtEnd
  then show ?case by (cases p) (auto intro: finish elim: matches_elims)
qed (auto intro: matches.intros elim: matches_elims)

text \<open>A match from the start of the string is a match.\<close>

lemma has_match_from_start: "matches r (None, s) q \<Longrightarrow> has_match r s"
  by (cases s) (auto simp: has_match_def simp flip: ends_iff)

lemma star_units: "list_all P s \<Longrightarrow> \<exists>b'. matches (Star (Unit P)) (b, s) (b', [])"
proof (induction s arbitrary: b)
  case Nil
  then show ?case by (auto intro: none)
next
  case (Cons c s)
  then obtain b' where "matches (Star (Unit P)) (Some c, s) (b', [])" by fastforce
  with Cons.prems have "matches (Star (Unit P)) (b, c # s) (b', [])" by (auto intro: round unit)
  then show ?case ..
qed

section \<open>Writing expressions\<close>

definition fold_case :: "nat \<Rightarrow> nat" where
  "fold_case c = (if 97 \<le> c \<and> c \<le> 122 then c - 32 else c)"

text \<open>A literal, letter for letter (\<open>exactly\<close>) or under the flag \<open>i\<close> (\<open>word\<close>, \<open>units\<close>).\<close>

definition exactly :: "string \<Rightarrow> rx" where
  "exactly s = foldr (\<lambda>c. Then (Unit (\<lambda>x. x = of_char c))) s Eps"

definition units :: "nat list \<Rightarrow> rx" where
  "units cs = foldr (\<lambda>c. Then (Unit (\<lambda>x. fold_case x = fold_case c))) cs Eps"

definition word :: "string \<Rightarrow> rx" where
  "word s = units (js s)"

fun alternatives :: "rx list \<Rightarrow> rx" where
  "alternatives [] = Unit (\<lambda>_. False)"
| "alternatives [r] = r"
| "alternatives (r # rs) = Or r (alternatives rs)"

definition words :: "string list \<Rightarrow> rx" where
  "words ss = alternatives (map word ss)"

fun in_turn :: "rx list \<Rightarrow> rx" where
  "in_turn [] = Eps"
| "in_turn (r # rs) = Then r (in_turn rs)"

definition maybe :: "rx \<Rightarrow> rx" where
  "maybe r = Or r Eps"

text \<open>\<open>r{0,n}\<close>, as many as possible first, and \<open>r{0,n}?\<close>, as few as possible first.\<close>

fun up_to :: "nat \<Rightarrow> rx \<Rightarrow> rx" where
  "up_to 0 r = Eps"
| "up_to (Suc n) r = Or (Then r (up_to n r)) Eps"

fun up_to_lazy :: "nat \<Rightarrow> rx \<Rightarrow> rx" where
  "up_to_lazy 0 r = Eps"
| "up_to_lazy (Suc n) r = Or Eps (Then r (up_to_lazy n r))"

text \<open>\<open>.\<close>, \<open>\d\<close>, \<open>\d+\<close>, \<open>\s*\<close>, \<open>\d+(?:\.\d+)?\<close>.\<close>

definition dot :: rx where
  "dot = Unit (\<lambda>c. c \<notin> {10, 13, 8232, 8233})"

definition digit :: rx where "digit = Unit is_digit"
definition digits :: rx where "digits = Then digit (Star digit)"
definition spaces :: rx where "spaces = Star (Unit is_space)"
definition decimal :: rx where "decimal = Then digits (maybe (Then (exactly ''.'') digits))"

lemma digits_match: "s \<noteq> [] \<Longrightarrow> list_all is_digit s \<Longrightarrow> \<exists>b'. matches digits (b, s) (b', [])"
  using star_units [of is_digit "tl s" "Some (hd s)"]
  by (cases s) (auto simp: digits_def digit_def intro: matches.intros)

text \<open>The text between a position and a later one.\<close>

definition between :: "position \<Rightarrow> position \<Rightarrow> jstring" where
  "between p q = take (length (snd p) - length (snd q)) (snd p)"

lemmas rx_eval = has_match_def words_def word_def units_def exactly_def js_def fold_case_def maybe_def
  dot_def digit_def digits_def spaces_def decimal_def at_boundary_def word_unit_def is_digit_def

end
