(* ===== verification/FailureWords.thy ===== *)
theory FailureWords
  imports Regexes Sticky Breakers
begin

text \<open>
  Why an upstream refused (\<open>packages/gateway/src/routing.ts\<close>): the words by which vendors say it
  (\<open>FAILURE_WORDS\<close>, one definition per expression), the safety filter's refusals, and the kind of a
  failure from its status and text.

  \<open>parse\<close> is \<open>JSON.parse\<close> (\<open>None\<close> where it throws); a number of a body is an integer here. An
  object of JSON or an array is what \<open>typeof\<close> calls an object; an array has none of the fields read.
\<close>

datatype failure_kind =
    KProxy | KVerify | KAuth | KCredit | KQuota | KRate | KModel | KPolicy | KRefused | KShape | KOther | KRequest

section \<open>The words\<close>

definition words_credit :: rx where
  "words_credit =
     alternatives [in_turn [word ''insufficient'', maybe dot, words [''balance'', ''credit'', ''fund'']],
       words [''balance'', ''credit'', ''billing'', ''payment'', ''arrear'', ''overdue'', ''suspended''],
       units [20313, 39069], units [27424, 36153], units [20805, 20540],
       in_turn [units [36134, 25143], Star dot, Or (units [19981, 36275]) (units [20572])]]"

definition words_noCredit :: rx where
  "words_noCredit =
     exactly ''insufficient_quota''"

definition words_usedUp :: rx where
  "words_usedUp =
     alternatives [word ''quota'', in_turn [word ''usage'', maybe dot, word ''limit''],
       in_turn [word ''limit'', maybe dot, word ''reached''],
       in_turn [word ''hit your '', Star dot, word ''limit''],
       in_turn [word ''limit'', up_to 24 dot, word ''resets''],
       in_turn [word ''exceeded'', Star dot, words [''plan'', ''limit'']],
       units [39069, 24230], units [29992, 37327], units [22871, 39184], units [19978, 38480]]"

definition words_rate :: rx where
  "words_rate =
     alternatives [in_turn [word ''rate'', maybe dot, word ''limit''], word ''too many requests'',
       in_turn [word ''per'', maybe dot, words [''second'', ''sec'', ''minute'', ''min''], Boundary],
       in_turn [Boundary, Unit (\<lambda>c. fold_case c \<in> {82, 84}), word ''pm'', Boundary],
       units [39057, 29575], units [22826, 39057, 32321]]"

definition words_planned :: rx where
  "words_planned =
     alternatives [word ''quota'', in_turn [word ''usage'', maybe dot, word ''limit''],
       in_turn [word ''hit your '', Star dot, word ''limit''],
       in_turn [word ''limit'', up_to 24 dot, word ''resets''],
       in_turn [word ''per'', maybe dot, words [''day'', ''week'', ''month'']],
       words [''daily'', ''weekly'', ''monthly''],
       units [39069, 24230], units [29992, 37327], units [22871, 39184]]"

definition words_proxy :: rx where
  "words_proxy =
     Or (exactly ''proxyconnect '') (exactly ''socks connect '')"

definition words_verify :: rx where
  "words_verify =
     words [''VALIDATION_REQUIRED'', ''verify your account'', ''account verification required'']"

definition words_modelMissing :: rx where
  "words_modelMissing =
     alternatives [in_turn [word ''model'', up_to 80 (Unit (\<lambda>c. c \<noteq> 46)), alternatives [
         Then (word ''not '') (words [''found'', ''exist'', ''available'', ''supported'', ''enabled'', ''activated'',
           ''accessible'', ''allowed'']),
         in_turn [word ''does'', maybe (word '' ''), word ''n'', Unit (\<lambda>c. fold_case c = 79 \<or> c = 39), word ''t exist''],
         words [''unavailable'', ''unsupported'', ''unknown'', ''invalid'']]],
       words [''no such model'', ''unknown model'', ''unsupported model'', ''model_not_found'', ''invalid model''],
       in_turn [units [27169, 22411], up_to 12 dot, alternatives [units [19981, 23384, 22312], units [19981, 25903, 25345], units [26080, 26435],
         units [26410, 24320, 36890]]]]"

definition words_busy :: rx where
  "words_busy =
     alternatives [words [''quota'', ''insufficient'', ''balance'', ''credit'', ''billing'', ''exceeded''],
       in_turn [word ''rate'', maybe dot, word ''limit''], in_turn [word ''usage'', maybe dot, word ''limit''],
       in_turn [word ''limit'', maybe dot, word ''reached''],
       in_turn [word ''hit your '', Star dot, word ''limit''],
       in_turn [word ''limit'', up_to 24 dot, word ''resets''],
       words [''too many requests'', ''overloaded''],
       units [20313, 39069], units [39069, 24230], units [27424, 36153],
       units [38480, 27969], units [39057, 29575], units [22871, 39184],
       units [29992, 37327], units [19978, 38480]]"

definition words_refused :: rx where
  "words_refused =
     words [''unapproved channel'', ''illegal api invocation'']"

definition words_shape :: rx where
  "words_shape =
     alternatives [word ''failed to deserialize'',
       in_turn [word ''unknown '', maybe (words [''item '', ''content '', ''input '']),
         words [''type'', ''variant'', ''field'', ''parameter'']],
       word ''unknown_parameter'',
       in_turn [word ''unrecognized '', words [''request argument'', ''field'', ''parameter'']],
       in_turn [word ''extra '', words [''inputs'', ''fields''], word '' are not permitted''],
       word ''additional properties are not allowed'']"

definition request_parts :: rx where
  "request_parts = alternatives [Then (word ''message'') (maybe (word ''s'')), words [''contents'', ''input'']]"

definition words_clientFault :: rx where
  "words_clientFault =
     alternatives [
       in_turn [word ''missing '', maybe (word ''required ''), words [''field'', ''parameter'', ''property'', ''argument'']],
       word ''field required'',
       in_turn [word ''required '', words [''field'', ''parameter'', ''property'']],
       in_turn [Boundary, request_parts, word '' '', words [''is'', ''are''], word '' required''],
       in_turn [word ''at least '', words [''one'', ''1''], word '' message''],
       in_turn [request_parts, up_to 40 (Unit (\<lambda>c. c \<noteq> 46)),
         words [''must not'', ''cannot'', ''may not''], word '' be empty''],
       word ''expecting value'', in_turn [word ''json'', maybe (word '' ''), word ''decode''],
       in_turn [words [''invalid'', ''malformed''], word '' json''], word ''not valid json'',
       in_turn [word ''could not parse '', maybe (word ''the ''), words [''json'', ''request body'']],
       in_turn [word ''unexpected '', Or (word ''token'') (Then (word ''end of '') (words [''json'', ''input'']))],
       word ''eof while parsing'', word ''json syntax'']"

definition MODEL_CODE :: rx where
  "MODEL_CODE = in_turn [Boundary, word ''model_not_found'', Boundary]"

section \<open>What a body says\<close>

type_synonym json_parser = "jstring \<Rightarrow> json option"

fun object_of :: "json option \<Rightarrow> (jstring \<times> json) list option" where
  "object_of (Some (JObj fs)) = Some fs"
| "object_of (Some (JArr xs)) = Some []"
| "object_of v = None"

fun text_or_empty :: "json option \<Rightarrow> jstring" where
  "text_or_empty (Some (JStr s)) = s"
| "text_or_empty v = []"

definition FILTER_REASONS :: "jstring list" where
  "FILTER_REASONS = map js [''refusal'', ''content_filter'', ''content_policy_violation'', ''SAFETY'',
     ''PROHIBITED_CONTENT'', ''BLOCKLIST'', ''SPII'', ''IMAGE_SAFETY'']"

text \<open>The code and the message of an error: a body's, or of an in-stream error's \<open>code message\<close>.\<close>

definition code_and_message :: "json_parser \<Rightarrow> jstring \<Rightarrow> jstring \<times> jstring" where
  "code_and_message parse s =
     (case parse s of
        Some v \<Rightarrow>
          (let body = Some (case object_of (Some v) of Some fs \<Rightarrow> fs | None \<Rightarrow> []);
               inner = (case object_of (field_of body ''error'') of Some fs \<Rightarrow> Some fs | None \<Rightarrow> body);
               named = text_or_empty (field_of inner ''code'')
           in (if named \<noteq> [] then named else text_or_empty (field_of inner ''type''),
               text_or_empty (field_of inner ''message'')))
      | None \<Rightarrow>
          (case indexOf 32 s of
             None \<Rightarrow> (s, [])
           | Some i \<Rightarrow> (take i s, drop (i + 1) s)))"

definition policyRefusal :: "json_parser \<Rightarrow> jstring \<Rightarrow> bool" where
  "policyRefusal parse s =
     (let (code, message) = code_and_message parse s
      in code \<in> set FILTER_REASONS \<or>
         has_match (in_turn [AtStart, Then (Unit is_lower) (Star (Unit is_lower)), exactly ''_policy'', AtEnd]) code \<or>
         code = js ''invalid_prompt'' \<and> has_match (words [''flagged'', ''usage polic'']) message)"

fun field_text :: "json option \<Rightarrow> jstring" where
  "field_text (Some (JStr s)) = s"
| "field_text (Some (JNum n)) = show_int n"
| "field_text v = []"

definition vendorSaid :: "json_parser \<Rightarrow> jstring \<Rightarrow> jstring \<times> jstring" where
  "vendorSaid parse s =
     (case object_of (parse s) of
        None \<Rightarrow> (s, [])
      | Some outer \<Rightarrow>
          (let error = (case object_of (field_of (Some outer) ''error'') of Some fs \<Rightarrow> fs | None \<Rightarrow> outer)
           in (field_text (field_of (Some error) ''message''),
               join (js '' '') (map (\<lambda>f. field_text (field_of (Some error) f)) [''code'', ''type'', ''status'']))))"

section \<open>The kind of a failure\<close>

definition failureKind :: "json_parser \<Rightarrow> int \<Rightarrow> jstring \<Rightarrow> failure_kind" where
  "failureKind parse status s =
     (if status \<noteq> 429 \<and> policyRefusal parse s then KPolicy
      else if status = 502 \<and> has_match words_proxy s then KProxy
      else if (status = 401 \<or> status = 403) \<and> has_match words_verify s then KVerify
      else if status = 402 \<or> (status \<noteq> 429 \<and> has_match words_credit s) \<or> has_match words_noCredit s
      then KCredit
      else if status = 429 \<and> has_match words_rate s \<and> \<not> has_match words_planned s then KRate
      else if has_match words_usedUp s \<or> (status = 429 \<and> has_match words_planned s) then KQuota
      else if status = 429 then KRate
      else if status = 401 \<or> status = 403 then KAuth
      else if status = 404 then KModel
      else if status = 400 \<or> status = 422
      then (if has_match words_clientFault s then KRequest
            else if has_match words_modelMissing (fst (vendorSaid parse s)) \<or>
              has_match MODEL_CODE (snd (vendorSaid parse s))
            then KModel
            else if has_match words_refused s then KRefused
            else if has_match words_busy s then KOther
            else if has_match words_shape s then KShape
            else KRequest)
      else if status = 408 \<or> status \<ge> 500 then KOther
      else KRequest)"

definition failureClass :: "failure_kind \<Rightarrow> int \<Rightarrow> bool \<Rightarrow> jstring" where
  "failureClass kind status overflow =
     (case kind of
        KProxy \<Rightarrow> js ''proxy_failed''
      | KVerify \<Rightarrow> js ''verification_required''
      | KAuth \<Rightarrow> js ''auth_failed''
      | KCredit \<Rightarrow> js ''insufficient_balance''
      | KQuota \<Rightarrow> js ''quota_exhausted''
      | KRate \<Rightarrow> js ''rate_limited''
      | KModel \<Rightarrow> js ''model_not_found''
      | KPolicy \<Rightarrow> js ''safety_refused''
      | KRefused \<Rightarrow> js ''client_refused''
      | KShape \<Rightarrow> js ''request_shape_unsupported''
      | KOther \<Rightarrow> if status = 408 \<or> status = 504 then js ''upstream_timeout'' else js ''upstream_unavailable''
      | KRequest \<Rightarrow> if overflow then js ''context_length_exceeded'' else js ''upstream_rejected'')"

section \<open>A reply too short for the vendor\<close>

text \<open>The first position where the parts match, as the engine finds them.\<close>

fun first_at :: "(position \<Rightarrow> 'a list) \<Rightarrow> nat option \<Rightarrow> jstring \<Rightarrow> 'a option" where
  "first_at f prev [] = (case f (prev, []) of x # _ \<Rightarrow> Some x | [] \<Rightarrow> None)"
| "first_at f prev (c # cs) =
     (case f (prev, c # cs) of x # _ \<Rightarrow> Some x | [] \<Rightarrow> first_at f (Some c) cs)"

definition too_few_head :: rx where
  "too_few_head = in_turn [word ''max_'', maybe (words [''completion_'', ''output_'']), word ''tokens'',
     up_to_lazy 60 dot]"

definition too_few_sign :: rx where
  "too_few_sign = alternatives [words [''greater than'', ''more than'', ''larger than'', ''at least''],
     Then (Or (exactly ''>'') (units [92, 117, 48, 48, 51, 101])) (maybe (exactly ''=''))]"

definition too_few_tokens :: "position \<Rightarrow> (jstring \<times> jstring) list" where
  "too_few_tokens p =
     [(between q1 q2, between q3 q4). q1 \<leftarrow> ends too_few_head p, q2 \<leftarrow> ends too_few_sign q1,
        q3 \<leftarrow> ends spaces q2, q4 \<leftarrow> ends digits q3]"

definition tokenFloor :: "jstring \<Rightarrow> int" where
  "tokenFloor s =
     (case first_at too_few_tokens None s of
        None \<Rightarrow> 0
      | Some (sign, amount) \<Rightarrow>
          (let n = int (read_nat amount)
           in if n > 1024 then 0
              else if map fold_case sign = map fold_case (js ''at least'') \<or> (sign \<noteq> [] \<and> last sign = 61)
              then n else n + 1))"

definition raise_field :: "string \<Rightarrow> int \<Rightarrow> (jstring \<times> json) list \<Rightarrow> bool \<times> (jstring \<times> json) list" where
  "raise_field key least holder =
     (case map_of holder (js key) of
        Some (JNum n) \<Rightarrow> if n \<ge> least then (False, holder) else (True, jset (js key) (JNum least) holder)
      | _ \<Rightarrow> (False, holder))"

definition length_fields :: "string list" where
  "length_fields = [''max_tokens'', ''max_completion_tokens'', ''max_output_tokens'']"

definition raise_fields :: "int \<Rightarrow> (jstring \<times> json) list \<Rightarrow> bool \<times> (jstring \<times> json) list" where
  "raise_fields least request =
     foldl (\<lambda>(raised, holder) key.
         let (now_raised, holder) = raise_field key least holder in (now_raised \<or> raised, holder))
       (False, request) length_fields"

text \<open>The request as \<open>JSON.stringify\<close> gets it, \<open>None\<close> where the code returns \<open>undefined\<close>.\<close>

definition withTokenFloor :: "json_parser \<Rightarrow> jstring \<Rightarrow> int \<Rightarrow> json option" where
  "withTokenFloor parse body least =
     (if least \<le> 0 then None
      else case parse body of
        Some (JObj request) \<Rightarrow>
          (let (raised, request) = raise_fields least request;
               (raised, request) =
                 (case map_of request (js ''generationConfig'') of
                    Some (JObj config) \<Rightarrow>
                      (let (r, config) = raise_field ''maxOutputTokens'' least config
                       in (r \<or> raised, jset (js ''generationConfig'') (JObj config) request))
                  | _ \<Rightarrow> (raised, request))
           in if raised then Some (JObj request) else None)
      | _ \<Rightarrow> None)"

end
