(* ===== verification/EchoFree.thy ===== *)
theory EchoFree
  imports Prelude
begin

text \<open>
  An upstream's error without the words of the request (\<open>echoFree\<close> of \<open>packages/gateway/src/routing.ts\<close>), by
  which a rest is decided. The expression of a word reads code points; which of them are letters, numbers or
  of the scripts written without spaces is a parameter (Unicode's tables).
\<close>

record text_classes =
  tc_ideograph :: "nat \<Rightarrow> bool"  \<comment> \<open>Han, Hiragana, Katakana, Hangul\<close>
  tc_alnum :: "nat \<Rightarrow> bool"  \<comment> \<open>a letter or a number\<close>

section \<open>Code points\<close>

fun points :: "jstring \<Rightarrow> jstring list" where
  "points [] = []"
| "points [u] = [[u]]"
| "points (u # v # r) =
     (if 55296 \<le> u \<and> u < 56320 \<and> 56320 \<le> v \<and> v < 57344 then [u, v] # points r else [u] # points (v # r))"

fun point :: "jstring \<Rightarrow> nat" where
  "point [u, v] = 65536 + (u - 55296) * 1024 + (v - 56320)"
| "point (u # _) = u"
| "point [] = 0"

lemma concat_points [simp]: "concat (points s) = s"
  by (induction s rule: points.induct) auto

section \<open>Words\<close>

datatype piece = Word jstring | Other jstring

fun piece_text :: "piece \<Rightarrow> jstring" where
  "piece_text (Word w) = w"
| "piece_text (Other x) = x"

text \<open>
  A word is one code point of a script without spaces where it starts with one, else the longest run of letters and
  numbers.
\<close>

function pieces :: "text_classes \<Rightarrow> jstring list \<Rightarrow> piece list" where
  "pieces tc [] = []"
| "pieces tc (p # ps) =
     (if tc_ideograph tc (point p) then Word p # pieces tc ps
      else if tc_alnum tc (point p)
      then Word (concat (p # takeWhile (\<lambda>q. tc_alnum tc (point q)) ps)) # pieces tc (dropWhile (\<lambda>q. tc_alnum tc (point q)) ps)
      else Other p # pieces tc ps)"
  by pat_completeness auto
termination
  by (relation "measure (\<lambda>(_, ps). length ps)") (auto simp: le_imp_less_Suc length_dropWhile_le)

lemma concat_pieces: "concat (map piece_text (pieces tc ps)) = concat ps"
proof (induction tc ps rule: pieces.induct)
  case (2 tc p ps)
  have "concat ps = concat (takeWhile (\<lambda>q. tc_alnum tc (point q)) ps) @ concat (dropWhile (\<lambda>q. tc_alnum tc (point q)) ps)"
    by (metis concat_append takeWhile_dropWhile_id)
  then show ?case using 2 by (cases "tc_ideograph tc (point p)"; cases "tc_alnum tc (point p)") simp_all
qed simp

fun word_of :: "piece \<Rightarrow> jstring list" where
  "word_of (Word w) = [toLowerCase w]"
| "word_of (Other _) = []"

definition words_in :: "text_classes \<Rightarrow> jstring \<Rightarrow> jstring list" where
  "words_in tc s = concat (map word_of (pieces tc (points s)))"

section \<open>Echoes\<close>

definition KEPT_WORDS :: "jstring list" where
  "KEPT_WORDS = map js [''model'', ''error'', ''message'', ''code'', ''type'', ''status'']"

definition REST_TEXT_MAX :: nat where "REST_TEXT_MAX = 16 * 1024"

text \<open>The strings and the keys of a request.\<close>

fun request_texts :: "json \<Rightarrow> jstring list" where
  "request_texts (JStr s) = [s]"
| "request_texts (JArr items) = concat (map request_texts items)"
| "request_texts (JObj entries) = concat (map (\<lambda>(key, item). key # request_texts item) entries)"
| "request_texts _ = []"

definition echoed :: "text_classes \<Rightarrow> json \<Rightarrow> jstring \<Rightarrow> bool" where
  "echoed tc request w \<longleftrightarrow>
     w \<notin> set KEPT_WORDS \<and> list_ex (\<lambda>value. w \<in> set (words_in tc value)) (request_texts request)"

fun without_echo :: "text_classes \<Rightarrow> json \<Rightarrow> piece \<Rightarrow> jstring" where
  "without_echo tc request (Word w) = (if echoed tc request (toLowerCase w) then js '' '' else w)"
| "without_echo tc request (Other x) = x"

definition echoFree :: "text_classes \<Rightarrow> jstring \<Rightarrow> json \<Rightarrow> jstring" where
  "echoFree tc text request =
     concat (map (without_echo tc request) (pieces tc (points (take REST_TEXT_MAX text))))"

text \<open>A request that shares no word with the error leaves its head as it is.\<close>

lemma echoFree_unshared:
  assumes "\<forall>w \<in> set (words_in tc (take REST_TEXT_MAX text)). \<not> echoed tc request w"
  shows "echoFree tc text request = take REST_TEXT_MAX text"
proof -
  have "without_echo tc request x = piece_text x" if "x \<in> set (pieces tc (points (take REST_TEXT_MAX text)))" for x
    using assms that by (cases x) (force simp: words_in_def)+
  then have "echoFree tc text request = concat (map piece_text (pieces tc (points (take REST_TEXT_MAX text))))"
    by (simp add: echoFree_def cong: map_cong)
  then show ?thesis by (simp add: concat_pieces)
qed

text \<open>ASCII letters and digits, and a request that is quoted in the error.\<close>

definition ascii_classes :: text_classes where
  "ascii_classes = \<lparr>tc_ideograph = (\<lambda>_. False), tc_alnum = (\<lambda>c. 97 \<le> c \<and> c \<le> 122 \<or> is_digit c)\<rparr>"

lemma echoFree_example:
  "echoFree ascii_classes (js ''no field: quota, model'') (JObj [(js ''quota'', JNum 1), (js ''model'', JStr (js ''m''))]) =
     js ''no field:  , model''"
  by (simp add: echoFree_def REST_TEXT_MAX_def ascii_classes_def echoed_def words_in_def KEPT_WORDS_def is_digit_def
      toLowerCase_def lower_unit_def js_eval)

end
