(* ===== verification/Failures.thy ===== *)
theory Failures
  imports FailureWords Router EchoFree
begin

text \<open>
  What a failed attempt means for routing (\<open>packages/gateway/src/routing.ts\<close>): the vendor's waits and
  rate-limit windows read from headers, the verdict on a failure (\<open>classify\<close>), the retry policy, and
  the safety filter's refusals per Gateway Key (\<open>class PolicyRefusals\<close>).

  Headers are their name-ordered list, as \<open>Headers\<close> iterates it. \<open>parseDate\<close> is \<open>Date.parse\<close> (\<open>None\<close>
  for NaN), \<open>number\<close> is \<open>Number\<close> of a header's text (\<open>None\<close> unless finite), \<open>host_of\<close> the host of a URL
  (\<open>None\<close> where \<open>new URL\<close> throws). Times are real numbers of milliseconds.
\<close>

type_synonym headers = "(jstring, jstring) jmap"

section \<open>Waits in headers\<close>

text \<open>\<open>Number\<close> of a text of digits with an optional fraction.\<close>

definition read_decimal :: "jstring \<Rightarrow> real" where
  "read_decimal s =
     (case indexOf 46 s of
        None \<Rightarrow> real (read_nat s)
      | Some i \<Rightarrow> real (read_nat (take i s)) +
          real (read_nat (drop (i + 1) s)) / 10 ^ length (drop (i + 1) s))"

definition is_decimal :: "jstring \<Rightarrow> bool" where
  "is_decimal s = has_match (in_turn [AtStart, decimal, AtEnd]) s"

definition time_unit :: rx where
  "time_unit = alternatives [exactly ''h'', exactly ''ms'', exactly ''m'', exactly ''s'', exactly ''us'',
     units [181, 115], exactly ''ns'']"

definition unit_ms :: "jstring \<Rightarrow> real" where
  "unit_ms u =
     (if u = js ''h'' then 3600000 else if u = js ''m'' then 60000 else if u = js ''s'' then 1000
      else if u = js ''ms'' then 1 else if u = js ''us'' \<or> u = [181, 115] then 1 / 1000 else 1 / 1000000)"

text \<open>The amounts and units of a duration, one after another, and their sum in milliseconds.\<close>

definition duration_parts :: "position \<Rightarrow> (real \<times> position) list" where
  "duration_parts p =
     [(read_decimal (between p q) * unit_ms (between q q'), q'). q \<leftarrow> ends decimal p, q' \<leftarrow> ends time_unit q]"

fun duration_sum :: "nat \<Rightarrow> position \<Rightarrow> real" where
  "duration_sum 0 p = 0"
| "duration_sum (Suc n) p =
     (case duration_parts p of [] \<Rightarrow> 0 | (ms, q) # _ \<Rightarrow> ms + duration_sum n q)"

definition resetAt :: "(jstring \<Rightarrow> real option) \<Rightarrow> jstring \<Rightarrow> real \<Rightarrow> real option" where
  "resetAt parseDate value now =
     (let s = trim value
      in if is_decimal s
         then (let n = read_decimal s in Some (if n > 1000000000 then n * 1000 else now + n * 1000))
         else if has_match (in_turn [AtStart, Then decimal time_unit, Star (Then decimal time_unit), AtEnd]) s
         then Some (now + duration_sum (length s) (None, s))
         else parseDate s)"

definition LONGEST_WAIT_MS :: real where "LONGEST_WAIT_MS = 3600000"

definition ceil_real :: "real \<Rightarrow> real" where "ceil_real x = real_of_int \<lceil>x\<rceil>"

definition latest_reset :: "(jstring \<Rightarrow> real option) \<Rightarrow> real \<Rightarrow> real option \<Rightarrow> jstring \<times> jstring \<Rightarrow> real option" where
  "latest_reset parseDate now wait = (\<lambda>(name, value).
     if \<not> includes_text name (js ''ratelimit'') \<or> \<not> includes_text name (js ''reset'') then wait
     else (case resetAt parseDate value now of
         Some r \<Rightarrow>
           if r > now
           then Some (max (case wait of Some w \<Rightarrow> w | None \<Rightarrow> 0) (ceil_real (r - now))) else wait
       | None \<Rightarrow> wait))"

definition retryAfter :: "(jstring \<Rightarrow> real option) \<Rightarrow> headers \<Rightarrow> real \<Rightarrow> real option" where
  "retryAfter parseDate hs now =
     (let wait = (case jget hs (js ''retry-after-ms'') of
            Some ms \<Rightarrow> if is_decimal (trim ms) then Some (ceil_real (read_decimal (trim ms))) else None
          | None \<Rightarrow> None);
          wait = (case (wait, map_option trim (jget hs (js ''retry-after''))) of
              (None, Some value) \<Rightarrow>
                if value = [] then None
                else if is_decimal value then Some (ceil_real (read_decimal value * 1000))
                else map_option (\<lambda>date. max 0 (date - now)) (parseDate value)
            | _ \<Rightarrow> wait);
          wait = (if wait = None then foldl (latest_reset parseDate now) None hs else wait)
      in map_option (\<lambda>w. min w LONGEST_WAIT_MS) wait)"

section \<open>Rate-limit windows in headers\<close>

record rate_window =
  rw_limit :: "real option"
  rw_remaining :: "real option"
  rw_reset :: "real option"

fun find_text :: "jstring \<Rightarrow> jstring \<Rightarrow> nat option" where
  "find_text p [] = (if p = [] then Some 0 else None)"
| "find_text p (c # cs) = (if startsWith (c # cs) p then Some 0 else map_option Suc (find_text p cs))"

definition window_role :: "jstring \<Rightarrow> bool" where
  "window_role s \<longleftrightarrow> s = js ''limit'' \<or> s = js ''remaining'' \<or> s = js ''reset''"

definition set_role :: "jstring \<Rightarrow> real option \<Rightarrow> rate_window \<Rightarrow> rate_window" where
  "set_role role n w =
     (case n of
        None \<Rightarrow> w
      | Some x \<Rightarrow>
          if role = js ''limit'' then w\<lparr>rw_limit := Some x\<rparr>
          else if role = js ''remaining'' then w\<lparr>rw_remaining := Some x\<rparr> else w\<lparr>rw_reset := Some x\<rparr>)"

definition window_header ::
    "(jstring \<Rightarrow> real option) \<Rightarrow> (jstring \<Rightarrow> real option) \<Rightarrow> real \<Rightarrow> (jstring, rate_window) jmap \<Rightarrow>
     jstring \<times> jstring \<Rightarrow> (jstring, rate_window) jmap" where
  "window_header parseDate number now parts = (\<lambda>(name, value).
     case find_text (js ''ratelimit-'') name of
       None \<Rightarrow> parts
     | Some i \<Rightarrow>
         (let segments = split_at (\<lambda>c. c = 45) (drop (i + length (js ''ratelimit-'')) name)
          in case find window_role segments of
               None \<Rightarrow> parts
             | Some role \<Rightarrow>
                 (let window = join (js ''-'') (filter (\<lambda>s. s \<noteq> role) segments);
                      entry = (case jget parts window of Some e \<Rightarrow> e
                        | None \<Rightarrow> \<lparr>rw_limit = None, rw_remaining = None, rw_reset = None\<rparr>);
                      n = (if role = js ''reset'' then resetAt parseDate value now else number value)
                  in jset window (set_role role n entry) parts)))"

definition rateWindows ::
    "(jstring \<Rightarrow> real option) \<Rightarrow> (jstring \<Rightarrow> real option) \<Rightarrow> headers \<Rightarrow> real \<Rightarrow>
     (jstring \<times> real \<times> real \<times> real) list" where
  "rateWindows parseDate number hs now =
     concat (map (\<lambda>(name, w).
         case (rw_limit w, rw_remaining w, rw_reset w) of
           (Some limit, Some remaining, Some reset) \<Rightarrow>
             if limit > 0 then [(if name = [] then js ''requests'' else name, limit, remaining, reset)] else []
         | _ \<Rightarrow> [])
       (foldl (window_header parseDate number now) [] hs))"

text \<open>
  \<open>observe\<close>: a date outside what \<open>Date\<close> counts makes \<open>toISOString\<close> throw a \<open>RangeError\<close> (\<open>Inl\<close>), and
  no reading is then reported.
\<close>

datatype date_error = RangeError

definition max_date :: real where "max_date = 8640000000000000"

text \<open>A date is kept in whole milliseconds, cut towards zero.\<close>

definition whole_ms :: "real \<Rightarrow> real" where
  "whole_ms t = real_of_int (if t < 0 then \<lceil>t\<rceil> else \<lfloor>t\<rfloor>)"

definition window_reading :: "real \<Rightarrow> jstring \<times> real \<times> real \<times> real \<Rightarrow> reading" where
  "window_reading now = (\<lambda>(name, limit, remaining, reset).
     \<lparr>rd_window = name, rd_usedPercent = min 100 (max 0 ((limit - max 0 remaining) / limit * 100)),
      rd_resetsAt = Some (whole_ms reset), rd_spanSeconds = None, rd_observedAt = now\<rparr>)"

definition observe ::
    "(jstring \<Rightarrow> real option) \<Rightarrow> (jstring \<Rightarrow> real option) \<Rightarrow> candidate \<Rightarrow> headers \<Rightarrow> real \<Rightarrow> router \<Rightarrow>
     date_error + router" where
  "observe parseDate number c hs now rt =
     (let windows = rateWindows parseDate number hs now
      in if \<exists>w \<in> set windows. \<bar>snd (snd (snd w))\<bar> > max_date then Inl RangeError
         else Inr (report c (map (window_reading now) windows) now rt))"

section \<open>The reset in a body\<close>

definition claude_reset :: "position \<Rightarrow> jstring list" where
  "claude_reset p =
     [between q q'. q \<leftarrow> ends (word ''limit reached|'') p,
        q' \<leftarrow> ends (in_turn (replicate 10 digit @ [Boundary])) q]"

definition retry_delay :: "json \<Rightarrow> real option" where
  "retry_delay detail =
     (case field_of (object_of (Some detail)) ''retryDelay'' of
        Some (JStr s) \<Rightarrow>
          if has_match (in_turn [AtStart, decimal, exactly ''s'', AtEnd]) s
          then Some (ceil_real (read_decimal (butlast s) * 1000)) else None
      | _ \<Rightarrow> None)"

fun first_some :: "'a option list \<Rightarrow> 'a option" where
  "first_some [] = None"
| "first_some (Some x # xs) = Some x"
| "first_some (None # xs) = first_some xs"

definition error_reset :: "(jstring \<times> json) list \<Rightarrow> real \<Rightarrow> real option" where
  "error_reset error now =
     (let field = field_of (Some error)
      in first_some
        ([(case field ''resets_at'' of
             Some (JNum n) \<Rightarrow> if real_of_int n * 1000 > now then Some (real_of_int n * 1000 - now) else None
           | _ \<Rightarrow> None),
          (case field ''resets_in_seconds'' of
             Some (JNum m) \<Rightarrow> if m > 0 then Some (real_of_int m * 1000) else None
           | _ \<Rightarrow> None)] @
         map retry_delay (as_list (field ''details''))))"

definition resetIn :: "json_parser \<Rightarrow> jstring \<Rightarrow> real \<Rightarrow> jstring option \<Rightarrow> real option" where
  "resetIn parse body now plain =
     (case Option.bind plain (first_at claude_reset None) of
        Some unix \<Rightarrow>
          if real (read_nat unix) * 1000 > now then Some (real (read_nat unix) * 1000 - now)
          else Option.bind (object_of (field_of (object_of (parse body)) ''error'')) (\<lambda>e. error_reset e now)
      | None \<Rightarrow>
          Option.bind (object_of (field_of (object_of (parse body)) ''error'')) (\<lambda>e. error_reset e now))"
section \<open>Verdicts\<close>

datatype error_source = FromGateway | FromUpstream

datatype error_phase = PConnect | PHeaders | PResponse | PLocal | PCancelled

record attempt_error =
  ae_failure :: failure
  ae_class :: jstring
  ae_source :: error_source
  ae_phase :: error_phase
  ae_status :: "int option"
  ae_kind :: "failure_kind option"
  ae_restKind :: "failure_kind option"
  ae_retryAfterMs :: "real option"
  ae_resetMs :: "real option"
  ae_floor :: "int option"

datatype retry = RetryNo | RetryYes | RetryOnce

record classification =
  cl_retry :: retry
  cl_failover :: bool
  cl_breaker :: breaker_effect

definition rest_verify :: real where "rest_verify = 30 * 60000"
definition rest_credit :: real where "rest_credit = 30 * 60000"
definition rest_quota :: real where "rest_quota = 15 * 60000"
definition rest_quotaMax :: real where "rest_quotaMax = 8 * 24 * 3600000"
definition rest_rate :: real where "rest_rate = 60000"
definition rest_model :: real where "rest_model = 10 * 60000"

definition TRANSIENT :: "int list" where
  "TRANSIENT = [408, 500, 502, 503, 504, 529]"

definition or_else :: "'a option \<Rightarrow> 'a option \<Rightarrow> 'a option" where
  "or_else a b = (case a of Some x \<Rightarrow> Some x | None \<Rightarrow> b)"

definition the_or :: "'a option \<Rightarrow> 'a \<Rightarrow> 'a" where
  "the_or a b = (case a of Some x \<Rightarrow> x | None \<Rightarrow> b)"

definition fails_over :: "breaker_effect \<Rightarrow> retry \<Rightarrow> classification" where
  "fails_over effect retry = \<lparr>cl_retry = retry, cl_failover = True, cl_breaker = effect\<rparr>"

definition verdict_of :: "failure_kind \<Rightarrow> attempt_error \<Rightarrow> classification" where
  "verdict_of kind e =
     (case kind of
        KProxy \<Rightarrow> fails_over NoEffect RetryNo
      | KVerify \<Rightarrow> fails_over (Cooldown rest_verify) RetryNo
      | KAuth \<Rightarrow> fails_over AuthFailed RetryNo
      | KCredit \<Rightarrow> fails_over (Cooldown rest_credit) RetryNo
      | KQuota \<Rightarrow> fails_over
          (Cooldown (min (the_or (or_else (ae_resetMs e) (ae_retryAfterMs e)) rest_quota) rest_quotaMax)) RetryNo
      | KRate \<Rightarrow> fails_over (Cooldown (the_or (ae_retryAfterMs e) rest_rate)) RetryYes
      | KModel \<Rightarrow> fails_over (MarkModel rest_model) RetryNo
      | KPolicy \<Rightarrow> fails_over NoEffect RetryNo
      | KShape \<Rightarrow> fails_over NoEffect RetryNo
      | KRefused \<Rightarrow> fails_over CountFailure RetryNo
      | KOther \<Rightarrow> fails_over CountFailure
          (if ae_status e = None \<or> the (ae_status e) \<in> set TRANSIENT then RetryYes else RetryNo)
      | KRequest \<Rightarrow> \<lparr>cl_retry = RetryNo, cl_failover = False, cl_breaker = NoEffect\<rparr>)"

definition classifyAs :: "json_parser \<Rightarrow> attempt_error \<Rightarrow> failure_kind option \<Rightarrow> classification" where
  "classifyAs parse e given =
     (case ae_phase e of
        PCancelled \<Rightarrow> \<lparr>cl_retry = RetryNo, cl_failover = False, cl_breaker = NoEffect\<rparr>
      | PLocal \<Rightarrow> fails_over NoEffect RetryNo
      | PConnect \<Rightarrow>
          if ae_kind e = Some KProxy then fails_over NoEffect RetryNo else fails_over CountFailure RetryYes
      | PHeaders \<Rightarrow> fails_over CountFailure RetryOnce
      | PResponse \<Rightarrow>
          verdict_of
            (case given of Some kind \<Rightarrow> kind
             | None \<Rightarrow> (case ae_status e of
                 None \<Rightarrow> KOther
               | Some status \<Rightarrow> failureKind parse status (fl_message (ae_failure e)))) e)"

definition classify :: "json_parser \<Rightarrow> attempt_error \<Rightarrow> classification" where
  "classify parse e =
     (let verdict = classifyAs parse e (ae_kind e)
      in if ae_restKind e = None \<or> ae_phase e \<noteq> PResponse then verdict
         else verdict\<lparr>cl_breaker := cl_breaker (classifyAs parse e (ae_restKind e))\<rparr>)"

text \<open>
  \<open>upstreamFailure\<close> (\<open>call.ts\<close>): an upstream's refusal as an attempt's error. What the refusal rests is read
  from the text without the words of the request. \<open>clean\<close> is the message without secrets (\<open>sanitize\<close>).
\<close>

definition kept_code :: "jstring \<Rightarrow> bool" where
  "kept_code code \<longleftrightarrow> code = js ''upstream_invalid_response'' \<or> code = js ''upstream_protocol_error'' \<or>
     code = js ''response_too_large''"

definition upstreamFailure ::
    "json_parser \<Rightarrow> failure \<Rightarrow> (jstring \<Rightarrow> jstring) \<Rightarrow> text_classes \<Rightarrow> json \<Rightarrow> jstring \<Rightarrow> attempt_error" where
  "upstreamFailure parse err clean tc request body =
     (let overflow = (fl_contextOverflow err \<and> fl_status err \<noteq> 429);
          kind = (if overflow then KRequest else failureKind parse (fl_status err) body);
          restKind = (if overflow then KRequest else failureKind parse (fl_status err) (echoFree tc body request));
          errorClass = (if kept_code (fl_code err) then fl_code err
            else failureClass (if kind = KPolicy then kind else restKind) (fl_status err) overflow);
          least = (if fl_status err = 400 then tokenFloor body else 0)
      in \<lparr>ae_failure = \<lparr>fl_status = fl_status err, fl_code = errorClass, fl_message = clean (fl_message err),
            fl_contextOverflow = overflow\<rparr>,
          ae_class = errorClass, ae_source = FromUpstream, ae_phase = PResponse,
          ae_status = Some (fl_status err), ae_kind = Some kind,
          ae_restKind = (if restKind \<noteq> kind then Some restKind else None),
          ae_retryAfterMs = None, ae_resetMs = None,
          ae_floor = (if least \<noteq> 0 then Some least else None)\<rparr>)"

section \<open>Retries\<close>

definition RETRY_BUDGET_MS :: real where "RETRY_BUDGET_MS = 30000"

definition retryPolicy :: "retry_override option \<Rightarrow> retry_policy" where
  "retryPolicy overrides =
     (let d = DEFAULT_RETRY_POLICY;
          policy = (case overrides of
              None \<Rightarrow> d
            | Some r \<Rightarrow>
                \<lparr>rp_perCandidate = the_or (ro_perCandidate r) (rp_perCandidate d),
                 rp_totalAttempts = the_or (ro_totalAttempts r) (rp_totalAttempts d),
                 rp_baseBackoffMs = the_or (ro_baseBackoffMs r) (rp_baseBackoffMs d),
                 rp_maxBackoffMs = the_or (ro_maxBackoffMs r) (rp_maxBackoffMs d),
                 rp_retryAfterWaitCapMs = the_or (ro_retryAfterWaitCapMs r) (rp_retryAfterWaitCapMs d)\<rparr>)
      in policy\<lparr>rp_totalAttempts := min (rp_totalAttempts policy) 8\<rparr>)"

definition backoff :: "retry_policy \<Rightarrow> nat \<Rightarrow> real" where
  "backoff policy retry = real_of_int (rp_baseBackoffMs policy) * 2 ^ retry"

section \<open>Hidden models and vendors\<close>

definition hiddenBy :: "jstring list option \<Rightarrow> jstring \<Rightarrow> jstring list \<Rightarrow> bool" where
  "hiddenBy modelDeny ref path =
     (case modelDeny of
        None \<Rightarrow> False
      | Some deny \<Rightarrow>
          deny \<noteq> [] \<and>
          list_ex (\<lambda>step. \<not> modelAllowed [js ''*''] step deny)
            (ref # filter (\<lambda>step. startsWith step (js ''group/'')) path))"

definition vendorOf :: "(jstring \<Rightarrow> jstring option) \<Rightarrow> candidate \<Rightarrow> jstring" where
  "vendorOf host_of c =
     (case host_of (ca_endpoint c) of Some h \<Rightarrow> h | None \<Rightarrow> js ''provider:'' @ pv_id (ca_provider c))"

text \<open>The rest of the queue after a refused candidate.\<close>

definition dropVendor :: "(jstring \<Rightarrow> jstring option) \<Rightarrow> candidate \<Rightarrow> candidate list \<Rightarrow> candidate list" where
  "dropVendor host_of c queue = filter (\<lambda>next_one. vendorOf host_of next_one \<noteq> vendorOf host_of c) queue"

section \<open>Refusals of the safety filter per key\<close>

definition POLICY_FAILOVERS :: nat where "POLICY_FAILOVERS = 5"
definition POLICY_WINDOW_MS :: real where "POLICY_WINDOW_MS = 10 * 60000"
definition POLICY_KEYS :: nat where "POLICY_KEYS = 10000"

type_synonym policy_refusals = "(jstring, real list) jmap"

definition note_refusal :: "jstring \<Rightarrow> real \<Rightarrow> policy_refusals \<Rightarrow> bool \<times> policy_refusals" where
  "note_refusal keyId now noted =
     (let recent = filter (\<lambda>t. now - t < POLICY_WINDOW_MS) (the_or (jget noted keyId) []) @ [now];
          noted = jset keyId recent (jdelete keyId noted);
          noted = (if length noted > POLICY_KEYS then tl noted else noted)
      in (length recent \<le> POLICY_FAILOVERS, noted))"

end
