(* ===== verification/FailureProps.thy ===== *)
theory FailureProps
  imports Failures
begin

text \<open>
  The verdict on a failure: the rests it gives are bounded and the request's own words decide none of
  them, only the request's own faults end a call, and a key's refusals are counted in a sliding window.
\<close>

section \<open>Waits\<close>

lemma read_decimal_nonneg [simp]: "0 \<le> read_decimal s"
  by (auto simp: read_decimal_def split: option.split)

lemma ceil_real_nonneg: "0 \<le> x \<Longrightarrow> 0 \<le> ceil_real x"
  by (simp add: ceil_real_def)

lemma latest_reset_nonneg:
  "latest_reset parseDate now w h = Some x \<Longrightarrow> (\<And>y. w = Some y \<Longrightarrow> 0 \<le> y) \<Longrightarrow> 0 \<le> x"
  by (auto simp: latest_reset_def max_def ceil_real_def split: prod.splits if_splits option.splits)

lemma latest_resets_nonneg:
  "foldl (latest_reset parseDate now) w hs = Some x \<Longrightarrow> (\<And>y. w = Some y \<Longrightarrow> 0 \<le> y) \<Longrightarrow> 0 \<le> x"
proof (induction hs arbitrary: w)
  case (Cons h hs)
  then show ?case by (metis foldl_Cons latest_reset_nonneg)
qed simp

lemma retryAfter_range:
  assumes "retryAfter parseDate hs now = Some w"
  shows "0 \<le> w \<and> w \<le> LONGEST_WAIT_MS"
  using assms
  by (auto simp: retryAfter_def Let_def LONGEST_WAIT_MS_def ceil_real_nonneg
      dest: latest_resets_nonneg split: option.splits if_splits)

lemma first_some_set: "first_some xs = Some x \<Longrightarrow> Some x \<in> set xs"
  by (induction xs rule: first_some.induct) auto

lemma retry_delay_nonneg: "retry_delay d = Some x \<Longrightarrow> 0 \<le> x"
  by (auto simp: retry_delay_def ceil_real_nonneg split: option.splits json.splits if_splits)

lemma error_reset_nonneg: "error_reset e now = Some x \<Longrightarrow> 0 \<le> x"
  unfolding error_reset_def Let_def
  by (drule first_some_set) (auto split: option.splits json.splits if_splits dest: retry_delay_nonneg [OF sym])

lemma resetIn_nonneg: "resetIn parse body now plain = Some x \<Longrightarrow> 0 \<le> x"
  by (auto simp: resetIn_def bind_eq_Some_conv split: option.splits if_splits dest: error_reset_nonneg)

section \<open>Rests\<close>

text \<open>An upstream's refusal with what its headers and its body say of a wait, as \<open>send\<close> builds it.\<close>

definition refusal_of ::
    "json_parser \<Rightarrow> failure \<Rightarrow> (jstring \<Rightarrow> jstring) \<Rightarrow> text_classes \<Rightarrow> json \<Rightarrow> jstring \<Rightarrow>
     real option \<Rightarrow> real option \<Rightarrow> attempt_error" where
  "refusal_of parse err clean tc request body wait reset =
     (upstreamFailure parse err clean tc request body)\<lparr>ae_retryAfterMs := wait, ae_resetMs := reset\<rparr>"

definition kind_of_text :: "json_parser \<Rightarrow> failure \<Rightarrow> jstring \<Rightarrow> failure_kind" where
  "kind_of_text parse err body =
     (if fl_contextOverflow err \<and> fl_status err \<noteq> 429 then KRequest
      else failureKind parse (fl_status err) body)"

lemma refusal_fields:
  "ae_phase (refusal_of parse err clean tc request body wait reset) = PResponse"
  "ae_kind (refusal_of parse err clean tc request body wait reset) = Some (kind_of_text parse err body)"
  "ae_status (refusal_of parse err clean tc request body wait reset) = Some (fl_status err)"
  "ae_retryAfterMs (refusal_of parse err clean tc request body wait reset) = wait"
  "ae_resetMs (refusal_of parse err clean tc request body wait reset) = reset"
  "ae_restKind (refusal_of parse err clean tc request body wait reset) =
     (if kind_of_text parse err (echoFree tc body request) \<noteq> kind_of_text parse err body
      then Some (kind_of_text parse err (echoFree tc body request)) else None)"
  by (simp_all add: refusal_of_def upstreamFailure_def kind_of_text_def Let_def)

fun rest_effect :: "failure_kind \<Rightarrow> real option \<Rightarrow> real option \<Rightarrow> breaker_effect" where
  "rest_effect KVerify wait reset = Cooldown rest_verify"
| "rest_effect KAuth wait reset = AuthFailed"
| "rest_effect KCredit wait reset = Cooldown rest_credit"
| "rest_effect KQuota wait reset = Cooldown (min (the_or (or_else reset wait) rest_quota) rest_quotaMax)"
| "rest_effect KRate wait reset = Cooldown (the_or wait rest_rate)"
| "rest_effect KModel wait reset = MarkModel rest_model"
| "rest_effect KRefused wait reset = CountFailure"
| "rest_effect KOther wait reset = CountFailure"
| "rest_effect KProxy wait reset = NoEffect"
| "rest_effect KPolicy wait reset = NoEffect"
| "rest_effect KShape wait reset = NoEffect"
| "rest_effect KRequest wait reset = NoEffect"

lemma verdict_effect: "cl_breaker (verdict_of kind e) = rest_effect kind (ae_retryAfterMs e) (ae_resetMs e)"
  by (cases kind) (simp_all add: verdict_of_def fails_over_def)

lemma verdict_failover: "cl_failover (verdict_of kind e) \<longleftrightarrow> kind \<noteq> KRequest"
  by (cases kind) (simp_all add: verdict_of_def fails_over_def)

lemma refusal_effect:
  "cl_breaker (classify parse (refusal_of parse err clean tc request body wait reset)) =
     rest_effect (kind_of_text parse err (echoFree tc body request)) wait reset"
  by (simp add: classify_def classifyAs_def refusal_fields verdict_effect)

lemma refusal_failover:
  "cl_failover (classify parse (refusal_of parse err clean tc request body wait reset)) \<longleftrightarrow>
     kind_of_text parse err body \<noteq> KRequest"
  by (simp add: classify_def classifyAs_def refusal_fields verdict_failover Let_def)

definition demo_refusal :: failure where
  "demo_refusal = \<lparr>fl_status = 400, fl_code = js ''upstream_http_error'', fl_message = [], fl_contextOverflow = False\<rparr>"

text \<open>
  C34: however long a wait the vendor's headers and body name, the rest of the credential is neither
  negative nor longer than eight days, and a mark on one model is ten minutes.
\<close>

theorem rests_bounded:
  "case cl_breaker (classify parse (refusal_of parse err clean tc request body
       (retryAfter parseDate hs now) (resetIn parse body now said))) of
     Cooldown ms \<Rightarrow> 0 \<le> ms \<and> ms \<le> 8 * 24 * 3600000
   | MarkModel ms \<Rightarrow> ms = 600000
   | _ \<Rightarrow> True"
proof -
  have wait: "retryAfter parseDate hs now = None \<or>
      (\<exists>w. retryAfter parseDate hs now = Some w \<and> 0 \<le> w \<and> w \<le> 3600000)"
    using retryAfter_range [of parseDate hs now] by (cases "retryAfter parseDate hs now") (auto simp: LONGEST_WAIT_MS_def)
  have reset: "resetIn parse body now said = None \<or> (\<exists>r. resetIn parse body now said = Some r \<and> 0 \<le> r)"
    using resetIn_nonneg [of parse body now said] by (cases "resetIn parse body now said") auto
  show ?thesis
    unfolding refusal_effect using wait reset
    by (cases "kind_of_text parse err (echoFree tc body request)")
      (auto simp: the_or_def or_else_def rest_verify_def rest_credit_def rest_quota_def rest_quotaMax_def
        rest_rate_def rest_model_def)
qed

lemma fault_kinds:
  "failureKind parse 401 s \<noteq> KRequest" "failureKind parse 402 s \<noteq> KRequest"
  "failureKind parse 403 s \<noteq> KRequest" "failureKind parse 404 s \<noteq> KRequest"
  "failureKind parse 408 s \<noteq> KRequest" "failureKind parse 429 s \<noteq> KRequest"
  "500 \<le> status \<Longrightarrow> failureKind parse status s \<noteq> KRequest"
  by (simp_all add: failureKind_def)

text \<open>
  A failure of the upstream is never returned as it is while another candidate is left: an answer
  that is no context overflow fails over whatever it says, when its status is 401, 402, 403, 404, 408,
  429 or at least 500, and a context overflow (not said with 429) never does.
\<close>

theorem upstream_faults_fail_over:
  "(fl_status err \<in> {401, 402, 403, 404, 408, 429} \<or> fl_status err \<ge> 500 \<longrightarrow>
     cl_failover (classify parse (refusal_of parse err clean tc request body wait reset)) =
       (fl_contextOverflow err \<longrightarrow> fl_status err = 429))"
  unfolding refusal_failover by (auto simp: kind_of_text_def fault_kinds)

theorem upstream_faults_fail_over_witness:
  "cl_failover (classify (\<lambda>_. None) (refusal_of (\<lambda>_. None) (demo_refusal\<lparr>fl_status := 529\<rparr>) id ascii_classes JNull
     (js ''invalid json'') None None))"
  using upstream_faults_fail_over [of "demo_refusal\<lparr>fl_status := 529\<rparr>"] by (simp add: demo_refusal_def)

section \<open>Refusals of the safety filter\<close>

text \<open>Notes in their order, each a key and a time, with the answer to each.\<close>

fun note_all :: "(jstring \<times> real) list \<Rightarrow> policy_refusals \<Rightarrow> bool list" where
  "note_all [] m = []"
| "note_all ((k, t) # xs) m = fst (note_refusal k t m) # note_all xs (snd (note_refusal k t m))"

text \<open>The times of a key within the window before a time.\<close>

definition recent_of :: "jstring \<Rightarrow> real \<Rightarrow> (jstring \<times> real) list \<Rightarrow> real list" where
  "recent_of k t past = map snd (filter (\<lambda>(k', t'). k' = k \<and> t - t' < POLICY_WINDOW_MS) past)"

text \<open>What the map holds after \<open>past\<close>: no key too many, and every time that can still count.\<close>

definition noted_ok :: "(jstring \<times> real) list \<Rightarrow> policy_refusals \<Rightarrow> bool" where
  "noted_ok past m \<longleftrightarrow>
     jwf m \<and> fst ` set m \<subseteq> fst ` set past \<and>
     (\<forall>k t. (\<forall>e \<in> set past. snd e \<le> t) \<longrightarrow>
        filter (\<lambda>t'. t - t' < POLICY_WINDOW_MS) (the_or (jget m k) []) = recent_of k t past)"

text \<open>The answers a sliding window over the notes gives.\<close>

fun windowed :: "(jstring \<times> real) list \<Rightarrow> (jstring \<times> real) list \<Rightarrow> bool list" where
  "windowed past [] = []"
| "windowed past ((k, t) # xs) =
     (length (recent_of k t (past @ [(k, t)])) \<le> POLICY_FAILOVERS) # windowed (past @ [(k, t)]) xs"

lemma recent_of_snoc:
  "recent_of k t (past @ [(k', t')]) =
     recent_of k t past @ (if k' = k \<and> t - t' < POLICY_WINDOW_MS then [t'] else [])"
  by (simp add: recent_of_def)

lemma window_pos: "0 < POLICY_WINDOW_MS"
  by (simp add: POLICY_WINDOW_MS_def)

lemma keys_jset_jdelete: "fst ` set (jset k v (jdelete k m)) = insert k (fst ` set m)"
proof -
  have "fst ` set (jdelete k m) = fst ` set m - {k}" by (auto simp: jdelete_def image_iff)
  moreover have "fst ` set (jset k v xs) = insert k (fst ` set xs)" for xs
    using arg_cong [OF keys_jset [of k v xs], of set] by (auto split: if_splits)
  ultimately show ?thesis by simp
qed

lemma note_step:
  assumes ok: "noted_ok past m" and late: "\<forall>e \<in> set past. snd e \<le> t"
    and few: "card (insert k (fst ` set past)) \<le> POLICY_KEYS"
  shows "fst (note_refusal k t m) = (length (recent_of k t (past @ [(k, t)])) \<le> POLICY_FAILOVERS)"
    and "noted_ok (past @ [(k, t)]) (snd (note_refusal k t m))"
proof -
  have old: "filter (\<lambda>t'. u - t' < POLICY_WINDOW_MS) (the_or (jget m k') []) = recent_of k' u past"
    if "\<forall>e \<in> set past. snd e \<le> u" for k' u
    using ok that by (simp add: noted_ok_def)
  let ?m = "jset k (recent_of k t past @ [t]) (jdelete k m)"
  have wf: "jwf ?m" using ok by (simp add: noted_ok_def)
  have keys: "fst ` set ?m \<subseteq> insert k (fst ` set past)"
    using ok by (auto simp: noted_ok_def keys_jset_jdelete)
  have "length ?m = card (fst ` set ?m)" using wf by (simp add: jwf_def distinct_card flip: set_map)
  also have "\<dots> \<le> POLICY_KEYS" using keys few by (meson card_mono finite_insert finite_imageI finite_set le_trans)
  finally have noting: "note_refusal k t m = (length (recent_of k t past @ [t]) \<le> POLICY_FAILOVERS, ?m)"
    by (simp add: note_refusal_def old [OF late] Let_def)
  show "fst (note_refusal k t m) = (length (recent_of k t (past @ [(k, t)])) \<le> POLICY_FAILOVERS)"
    by (simp add: noting recent_of_snoc window_pos)
  have narrow: "filter (\<lambda>t'. u - t' < POLICY_WINDOW_MS) (recent_of k t past) = recent_of k u past" if "t \<le> u" for u
    using that by (auto simp: recent_of_def filter_map o_def intro!: arg_cong [where f = "map snd"] filter_cong)
  show "noted_ok (past @ [(k, t)]) (snd (note_refusal k t m))"
    using wf keys old narrow by (auto simp: noted_ok_def noting recent_of_snoc the_or_def)
qed

lemma note_all_windowed:
  assumes "noted_ok past m" "sorted (map snd (past @ xs))" "card (fst ` set (past @ xs)) \<le> POLICY_KEYS"
  shows "note_all xs m = windowed past xs"
  using assms
proof (induction xs arbitrary: past m)
  case (Cons e xs)
  obtain k t where e: "e = (k, t)" by (cases e)
  have "card (insert k (fst ` set past)) \<le> POLICY_KEYS"
    by (rule le_trans [OF card_mono Cons.prems(3)]) (auto simp: e)
  moreover have "\<forall>e \<in> set past. snd e \<le> t" using Cons.prems(2) by (auto simp: e sorted_append)
  ultimately show ?case
    using note_step [OF Cons.prems(1)] Cons.IH [of "past @ [(k, t)]"] Cons.prems(2,3) by (simp add: e)
qed simp

text \<open>Of the granted notes of a key inside one window the last counted all of them.\<close>

lemma filter_zip_le:
  "length ys = length xs \<Longrightarrow> (\<And>x y. x \<in> set xs \<Longrightarrow> P (x, y) \<Longrightarrow> Q x) \<Longrightarrow>
   length (filter P (zip xs ys)) \<le> length (filter Q xs)"
  by (induction ys xs rule: list_induct2) auto

definition granted_in :: "jstring \<Rightarrow> real \<Rightarrow> (jstring \<times> real) \<times> bool \<Rightarrow> bool" where
  "granted_in k u = (\<lambda>((k', t), ok). k' = k \<and> ok \<and> u \<le> t \<and> t < u + POLICY_WINDOW_MS)"

lemma granted_bound:
  assumes "sorted (map snd (past @ xs))" "length oks = length past"
    and "length (filter (granted_in k u) (zip past oks)) \<le> POLICY_FAILOVERS"
  shows "length (filter (granted_in k u) (zip (past @ xs) (oks @ windowed past xs))) \<le> POLICY_FAILOVERS"
  using assms
proof (induction xs arbitrary: past oks)
  case (Cons e xs)
  obtain k' t where e: "e = (k', t)" by (cases e)
  define ok where "ok = (length (recent_of k' t (past @ [(k', t)])) \<le> POLICY_FAILOVERS)"
  have late: "snd x \<le> t" if "x \<in> set past" for x using Cons.prems(1) that by (auto simp: e sorted_append)
  have "length (filter (granted_in k u) (zip (past @ [(k', t)]) (oks @ [ok]))) \<le> POLICY_FAILOVERS"
  proof (cases "granted_in k u ((k', t), ok)")
    case True
    have "length (filter (granted_in k u) (zip past oks)) \<le>
        length (filter (\<lambda>(k'', t'). k'' = k \<and> t - t' < POLICY_WINDOW_MS) past)"
      using True late Cons.prems(2) by (intro filter_zip_le) (auto simp: granted_in_def)
    then show ?thesis
      using True Cons.prems(2) by (auto simp: granted_in_def ok_def recent_of_snoc window_pos recent_of_def)
  next
    case False
    then show ?thesis using Cons.prems(2,3) by simp
  qed
  with Cons.IH [of "past @ [(k', t)]" "oks @ [ok]"] Cons.prems(1,2) show ?case by (simp add: e ok_def)
qed simp

text \<open>
  A safety filter's refusal of a key's request may fail over exactly when it is at most the fifth
  of that key within ten minutes, so that no ten minutes let more than five through (while the process
  sees at most 10000 keys).
\<close>

theorem refusals_are_windowed:
  assumes "sorted (map snd xs)" "card (fst ` set xs) \<le> POLICY_KEYS"
  shows "note_all xs [] = windowed [] xs \<and>
    length (filter (granted_in k u) (zip xs (note_all xs []))) \<le> POLICY_FAILOVERS"
proof -
  have "note_all xs [] = windowed [] xs"
    by (rule note_all_windowed) (use assms in \<open>auto simp: noted_ok_def recent_of_def the_or_def\<close>)
  with granted_bound [of "[]" xs "[]"] assms(1) show ?thesis by simp
qed

theorem refusals_are_windowed_witness:
  "note_all (map (\<lambda>t. (js ''k'', t)) [0, 0, 0, 0, 0, 599999, 600000]) [] =
     windowed [] (map (\<lambda>t. (js ''k'', t)) [0, 0, 0, 0, 0, 599999, 600000]) \<and>
   windowed [] (map (\<lambda>t. (js ''k'', t)) [0, 0, 0, 0, 0, 599999, 600000]) =
     [True, True, True, True, True, False, True]"
  using refusals_are_windowed [of "map (\<lambda>t. (js ''k'', t)) [0, 0, 0, 0, 0, 599999, 600000]"]
  by (simp add: POLICY_KEYS_def recent_of_def POLICY_WINDOW_MS_def POLICY_FAILOVERS_def)

section \<open>A reset that is no date\<close>

text \<open>
  A reset in microseconds, which \<open>resetAt\<close> takes for seconds, is outside the dates: \<open>observe\<close> throws.
\<close>

lemma all_digits_decimal: "s \<noteq> [] \<Longrightarrow> list_all is_digit s \<Longrightarrow> is_decimal s"
proof -
  assume "s \<noteq> []" "list_all is_digit s"
  then obtain b where "matches digits (None, s) (b, [])" using digits_match by blast
  then have "matches (in_turn [AtStart, decimal, AtEnd]) (None, s) (b, [])"
    by (auto simp: decimal_def maybe_def intro!: matches.intros)
  then show ?thesis unfolding is_decimal_def by (rule has_match_from_start)
qed

definition micro_headers :: headers where
  "micro_headers = [(js ''x-ratelimit-limit-requests'', js ''100''), (js ''x-ratelimit-remaining-requests'', js ''7''),
     (js ''x-ratelimit-reset-requests'', js ''1735689600000000'')]"

lemma micro_reset: "resetAt parseDate (js ''1735689600000000'') now = Some 1735689600000000000"
proof -
  have "trim (js ''1735689600000000'') = js ''1735689600000000''" by (simp add: trim_def js_def is_space_def)
  moreover have "is_decimal (js ''1735689600000000'')"
    by (rule all_digits_decimal) (simp_all add: js_def is_digit_def)
  ultimately show ?thesis by (simp add: resetAt_def read_decimal_def read_nat_def js_def)
qed

lemma micro_role:
  "find_text (js ''ratelimit-'') (js ''x-ratelimit-limit-requests'') = Some 2"
  "find_text (js ''ratelimit-'') (js ''x-ratelimit-remaining-requests'') = Some 2"
  "find_text (js ''ratelimit-'') (js ''x-ratelimit-reset-requests'') = Some 2"
  by (simp_all add: js_def startsWith_def)

lemma micro_segments:
  "split_at (\<lambda>c. c = 45) (drop 12 (js ''x-ratelimit-limit-requests'')) = [js ''limit'', js ''requests'']"
  "split_at (\<lambda>c. c = 45) (drop 12 (js ''x-ratelimit-remaining-requests'')) = [js ''remaining'', js ''requests'']"
  "split_at (\<lambda>c. c = 45) (drop 12 (js ''x-ratelimit-reset-requests'')) = [js ''reset'', js ''requests'']"
  by (simp_all add: js_def)

lemma micro_windows:
  "rateWindows parseDate (\<lambda>s. Some (real (read_nat s))) micro_headers now =
     [(js ''requests'', 100, 7, 1735689600000000000)]"
  by (simp add: rateWindows_def micro_headers_def window_header_def micro_role micro_segments window_role_def
      set_role_def micro_reset join_def Let_def) (simp add: js_def read_nat_def)

lemma observe_throws:
  "observe parseDate (\<lambda>s. Some (real (read_nat s))) c micro_headers now rt = Inl RangeError"
  by (simp add: observe_def micro_windows max_date_def Let_def)

end
