(* ===== verification/Calls.thy ===== *)
theory Calls
  imports Failures BreakerProps
begin

text \<open>
  The attempts of one model call (\<open>routeCall\<close> of \<open>packages/gateway/src/call.ts\<close>): candidates are tried
  in the plan's order until one answers; a failure moves on at once while another candidate can still be
  tried, the last one left is retried after a wait; exactly one outcome is published.

  One run of the inner loop is \<open>try_step\<close>; \<open>route_loop\<close> is the two loops. What the code awaits is the
  \<open>world\<close>, a function of the number of the run: whether the call was aborted, what the clock read when
  it asked the breakers (\<open>w_now\<close>) and when it settled the attempt (\<open>w_later\<close>), what the attempt gave, and
  what other calls did to the shared breakers and refusals while this one waited (\<open>w_vision_ops\<close>,
  \<open>w_attempt_ops\<close>, \<open>w_sleep_ops\<close>, \<open>w_notes\<close>). \<open>performance.now() - began\<close> is \<open>cs_elapsed\<close>: it grows by
  what a run took until it decides (\<open>w_took\<close>), by a wait and what the timer added to it (\<open>w_overslept\<close>). The readings of one stretch without an await are one
  reading. Preparing the request, asking the upstream and publishing are outside (\<open>w_prepare\<close>,
  \<open>w_attempt\<close>): an attempt fails before anything was sent to the client, or was published, or throws. Describing
  images and preparing a request are taken not to throw; what the code makes of a Responses request before its first
  attempt (\<open>codexInput\<close>) is part of the request.
\<close>

section \<open>What a call is made of\<close>

record answered =
  an_tokens :: real
  an_firstContentMs :: "real option"
  an_cacheRead :: int

datatype attempt_result = Failed attempt_error | Published "attempt_error option" answered | Throws

datatype decision = DStop | DFailover | DRetry | DSuccess

record call_attempt =
  at_candidate :: candidate
  at_error :: "attempt_error option"
  at_decision :: decision
  at_backoff :: "real option"

datatype vision = Described | DescribeFailed bool

type_synonym body = "(jstring \<times> json) list"

record call_env =
  ce_policy :: retry_policy
  ce_keyId :: "jstring option"
  ce_protocol :: protocol
  ce_parse :: json_parser
  ce_host :: "jstring \<Rightarrow> jstring option"
  ce_unserved :: jstring
  ce_vision_text :: "bool \<Rightarrow> candidate \<Rightarrow> jstring"
  ce_conversation :: "conversation option"
  ce_requested :: jstring
  ce_compact :: bool

record world =
  w_aborted :: "nat \<Rightarrow> bool"
  w_now :: "nat \<Rightarrow> real"
  w_search :: "candidate \<Rightarrow> bool"
  w_vision :: "nat \<Rightarrow> candidate \<Rightarrow> bool"
  w_describe :: "nat \<Rightarrow> vision"
  w_vision_ops :: "nat \<Rightarrow> (real \<times> breaker_op) list"
  w_prepare :: "nat \<Rightarrow> candidate \<Rightarrow> attempt_error option"
  w_body :: "nat \<Rightarrow> candidate \<Rightarrow> jstring"
  w_attempt :: "nat \<Rightarrow> candidate \<Rightarrow> bool \<Rightarrow> attempt_result"
  w_attempt_ops :: "nat \<Rightarrow> (real \<times> breaker_op) list"
  w_notes :: "nat \<Rightarrow> (jstring \<times> real) list"
  w_later :: "nat \<Rightarrow> real"
  w_took :: "nat \<Rightarrow> real"
  w_overslept :: "nat \<Rightarrow> real"
  w_sleeps :: "nat \<Rightarrow> bool"
  w_sleep_ops :: "nat \<Rightarrow> (real \<times> breaker_op) list"
  w_disconnected :: "nat \<Rightarrow> bool"

record call_state =
  cs_step :: nat
  cs_elapsed :: real
  cs_breakers :: breakers
  cs_refusals :: policy_refusals
  cs_attempts :: "call_attempt list"
  cs_last :: "attempt_error option"
  cs_skip :: "attempt_error option"
  cs_blocked :: "(jstring \<times> real \<times> last_failure option) option"
  cs_unreadable :: "jstring list"
  cs_refused :: nat
  cs_floor :: "int option"
  cs_unseal :: nat
  cs_raw :: body
  cs_patches :: "jstring list"
  cs_vision :: "vision option"

datatype outcome = Answered candidate answered | Broken attempt_error | Refusal attempt_error | Threw

definition localError :: "int \<Rightarrow> string \<Rightarrow> jstring \<Rightarrow> attempt_error" where
  "localError status errorClass message =
     \<lparr>ae_failure = \<lparr>fl_status = status, fl_code = js errorClass, fl_message = message, fl_contextOverflow = False\<rparr>,
      ae_class = js errorClass, ae_source = FromGateway, ae_phase = PLocal, ae_status = None, ae_kind = None,
      ae_restKind = None, ae_retryAfterMs = None, ae_resetMs = None, ae_floor = None\<rparr>"

definition cancelled_error :: "bool \<Rightarrow> attempt_error" where
  "cancelled_error disconnected =
     (localError 499 ''cancelled'' (js ''Model call was cancelled''))
       \<lparr>ae_class := (if disconnected then js ''engine_disconnected'' else js ''client_cancelled''),
        ae_phase := PCancelled\<rparr>"

section \<open>Sealed items\<close>

text \<open>\<open>refusesSeal\<close> and \<open>unsealed\<close> of \<open>packages/gateway/src/compacting.ts\<close>.\<close>

definition FOREIGN_SEAL :: rx where
  "FOREIGN_SEAL = alternatives [word ''invalid_encrypted_content'',
     in_turn [word ''encrypted'', words ['' '', ''_''], word ''content'', up_to 80 dot,
       word ''could not be '', words [''verified'', ''decrypted'']],
     in_turn [word ''could not '', words [''decrypt'', ''verify''], up_to 40 dot,
       word ''encrypted'', words ['' '', ''_''], word ''content'']]"

definition refusesSeal :: "jstring \<Rightarrow> bool" where
  "refusesSeal message = has_match FOREIGN_SEAL message"

datatype sealed_kind = SealedReasoning | SealedCompaction

definition kept_items :: "(body option \<Rightarrow> bool) \<Rightarrow> json list \<Rightarrow> json list" where
  "kept_items drops items =
     filter (\<lambda>v. as_record (Some v) = None \<or> \<not> drops (as_record (Some v))) items"

definition without_items :: "(body option \<Rightarrow> bool) \<Rightarrow> body \<Rightarrow> json list \<Rightarrow> body option" where
  "without_items drops raw items =
     (if length (kept_items drops items) < length items
      then Some (jset (js ''input'') (JArr (kept_items drops items)) raw) else None)"

definition is_reasoning_item :: "body option \<Rightarrow> bool" where
  "is_reasoning_item item \<longleftrightarrow> is_text (field_of item ''type'') ''reasoning''"

definition is_sealed_compaction :: "body option \<Rightarrow> bool" where
  "is_sealed_compaction item \<longleftrightarrow>
     (is_text (field_of item ''type'') ''compaction'' \<or> is_text (field_of item ''type'') ''compaction_summary'') \<and>
     text_or_empty (field_of item ''encrypted_content'') \<noteq> []"

definition unsealed :: "body \<Rightarrow> nat \<Rightarrow> (body \<times> nat \<times> sealed_kind) option" where
  "unsealed raw step =
     (case map_of raw (js ''input'') of
        Some (JArr items) \<Rightarrow>
          (case (if step = 0 then without_items is_reasoning_item raw items else None) of
             Some after \<Rightarrow> Some (after, 1, SealedReasoning)
           | None \<Rightarrow>
               if step \<le> 1
               then map_option (\<lambda>after. (after, 2, SealedCompaction)) (without_items is_sealed_compaction raw items)
               else None)
      | _ \<Rightarrow> None)"

section \<open>One try\<close>

definition api :: "candidate \<Rightarrow> jstring" where
  "api c = pv_id (ca_provider c) @ 0 # protocol_text (ca_upstream c)"

definition memberNeedsTranslation :: "candidate \<Rightarrow> protocol \<Rightarrow> bool" where
  "memberNeedsTranslation c inbound \<longleftrightarrow>
     ca_mode c = Passthrough \<and> ca_effort c \<noteq> None \<and> inbound \<noteq> Chat \<and> inbound \<noteq> Responses"

definition others :: "call_env \<Rightarrow> real \<Rightarrow> call_state \<Rightarrow> candidate list \<Rightarrow> bool" where
  "others env now st queue =
     list_ex (\<lambda>c. \<not> blocked c (ce_keyId env) now (cs_breakers st) \<and> api c \<notin> set (cs_unreadable st)) queue"

definition attempts_left :: "call_env \<Rightarrow> call_state \<Rightarrow> bool" where
  "attempts_left env st \<longleftrightarrow> int (length (cs_attempts st)) < rp_totalAttempts (ce_policy env)"

definition apply_ops :: "(real \<times> breaker_op) list \<Rightarrow> call_state \<Rightarrow> call_state" where
  "apply_ops ops st = st\<lparr>cs_breakers := run_ops breaker_step ops (cs_breakers st)\<rparr>"

definition release_try :: "candidate \<Rightarrow> call_state \<Rightarrow> call_state" where
  "release_try c st = st\<lparr>cs_breakers := release c (cs_breakers st)\<rparr>"

definition set_attempt :: "(call_attempt \<Rightarrow> call_attempt) \<Rightarrow> call_state \<Rightarrow> call_state" where
  "set_attempt f st = st\<lparr>cs_attempts := butlast (cs_attempts st) @ [f (last (cs_attempts st))]\<rparr>"

definition decide :: "decision \<Rightarrow> call_state \<Rightarrow> call_state" where
  "decide d = set_attempt (\<lambda>a. a\<lparr>at_decision := d\<rparr>)"

definition add_patch :: "jstring \<Rightarrow> call_state \<Rightarrow> call_state" where
  "add_patch p st = st\<lparr>cs_patches := cs_patches st @ [p]\<rparr>"

datatype next_try = Again candidate nat nat | Leave | Done outcome

text \<open>The text of a refused admission, and keeping the one whose last failure is the latest.\<close>

definition reason_text :: "candidate \<Rightarrow> refusal \<Rightarrow> jstring" where
  "reason_text c r =
     (case r of
        MarkedUnavailable \<Rightarrow>
          ca_ref c @ js '' is marked unavailable on credential '' @ c_id (ca_credential c)
      | BeingProbed \<Rightarrow>
          js ''credential '' @ c_id (ca_credential c) @ js '' of '' @ pv_id (ca_provider c) @ js '' is being probed''
      | CoolingDown \<Rightarrow>
          js ''credential '' @ c_id (ca_credential c) @ js '' of '' @ pv_id (ca_provider c) @ js '' is cooling down'')"

definition last_at :: "last_failure option \<Rightarrow> real" where
  "last_at l = (case l of Some f \<Rightarrow> lf_at f | None \<Rightarrow> 0)"

definition note_blocked :: "candidate \<Rightarrow> refusal \<Rightarrow> real \<Rightarrow> last_failure option \<Rightarrow> call_state \<Rightarrow> call_state" where
  "note_blocked c r until l st =
     (case cs_blocked st of
        Some (_, _, l') \<Rightarrow>
          if last_at l > last_at l' then st\<lparr>cs_blocked := Some (reason_text c r, until, l)\<rparr> else st
      | None \<Rightarrow> st\<lparr>cs_blocked := Some (reason_text c r, until, l)\<rparr>)"

definition note_skip :: "attempt_error \<Rightarrow> call_state \<Rightarrow> call_state" where
  "note_skip e st = st\<lparr>cs_skip := Some (the_or (cs_skip st) e)\<rparr>"

text \<open>The candidate as it is asked: translated where passing through does not do, or skipped.\<close>

definition translated :: "candidate \<Rightarrow> candidate" where
  "translated c = c\<lparr>ca_mode := Translated\<rparr>"

definition fit_mode :: "call_env \<Rightarrow> world \<Rightarrow> candidate \<Rightarrow> candidate" where
  "fit_mode env w c =
     (let c = (if memberNeedsTranslation c (ce_protocol env) then translated c else c)
      in if w_search w c \<and> ca_mode c = Passthrough then translated c else c)"

definition vision_error :: "call_env \<Rightarrow> bool \<Rightarrow> candidate \<Rightarrow> attempt_error" where
  "vision_error env refused c =
     (if refused then localError 429 ''quota_exceeded'' (ce_vision_text env True c)
      else localError 502 ''vision_failed'' (ce_vision_text env False c))"

definition fit ::
    "call_env \<Rightarrow> world \<Rightarrow> nat \<Rightarrow> candidate \<Rightarrow> call_state \<Rightarrow> (attempt_error + candidate) \<times> call_state" where
  "fit env w n c st =
     (let c = fit_mode env w c;
          needed = w_vision w n c;
          c = (if needed then translated c else c);
          asked = (needed \<and> cs_vision st = None);
          st = (if asked then (apply_ops (w_vision_ops w n) st)\<lparr>cs_vision := Some (w_describe w n)\<rparr> else st)
      in case (if needed then cs_vision st else None) of
           Some (DescribeFailed refused) \<Rightarrow> (Inl (vision_error env refused c), st)
         | _ \<Rightarrow> (case w_prepare w n c of Some e \<Rightarrow> (Inl e, st) | None \<Rightarrow> (Inr c, st)))"

section \<open>After a failed attempt\<close>

definition seal_text :: "sealed_kind \<Rightarrow> jstring" where
  "seal_text k = (case k of SealedReasoning \<Rightarrow> js ''sealed:reasoning'' | SealedCompaction \<Rightarrow> js ''sealed:compaction'')"

definition resealed :: "call_env \<Rightarrow> attempt_error \<Rightarrow> call_state \<Rightarrow> (body \<times> nat \<times> sealed_kind) option" where
  "resealed env e st =
     (if ce_protocol env = Responses \<and> ae_source e = FromUpstream \<and> refusesSeal (fl_message (ae_failure e)) \<and>
         attempts_left env st
      then unsealed (cs_raw st) (cs_unseal st) else None)"

definition floor_for :: "call_env \<Rightarrow> world \<Rightarrow> nat \<Rightarrow> candidate \<Rightarrow> attempt_error \<Rightarrow> call_state \<Rightarrow> int option" where
  "floor_for env w n c e st =
     (case ae_floor e of
        Some least \<Rightarrow>
          if cs_floor st = None \<and> attempts_left env st \<and> withTokenFloor (ce_parse env) (w_body w n c) least \<noteq> None
          then Some least else None
      | None \<Rightarrow> None)"

text \<open>The verdict on the candidate: its breaker, its API, its vendor.\<close>

definition settle ::
    "call_env \<Rightarrow> real \<Rightarrow> candidate list \<Rightarrow> candidate \<Rightarrow> attempt_error \<Rightarrow> call_state \<Rightarrow>
     bool \<times> candidate list \<times> call_state" where
  "settle env now queue c e st =
     (let verdict = classify (ce_parse env) e;
          st = st\<lparr>cs_breakers := failure c (cl_breaker verdict) (ae_failure e) (ae_class e) (ce_keyId env) now
                   (cs_breakers st),
                 cs_last := Some e,
                 cs_unreadable := (if ae_kind e = Some KShape then api c # cs_unreadable st else cs_unreadable st)\<rparr>
      in if ae_kind e = Some KPolicy
         then (let (allowed, noted) = note_refusal (key_text (ce_keyId env)) now (cs_refusals st);
                   st = st\<lparr>cs_refusals := noted, cs_refused := cs_refused st + 1\<rparr>
               in (cl_failover verdict \<and> allowed \<and> cs_refused st \<le> 1, dropVendor (ce_host env) c queue, st))
         else (cl_failover verdict, queue, st))"

definition retry_wait :: "call_env \<Rightarrow> attempt_error \<Rightarrow> nat \<Rightarrow> real" where
  "retry_wait env e retries = the_or (ae_retryAfterMs e) (backoff (ce_policy env) retries)"

definition may_retry :: "call_env \<Rightarrow> world \<Rightarrow> nat \<Rightarrow> candidate \<Rightarrow> attempt_error \<Rightarrow> nat \<Rightarrow> nat \<Rightarrow> call_state \<Rightarrow> bool" where
  "may_retry env w n c e retries headerRetries st \<longleftrightarrow>
     int retries < rp_perCandidate (ce_policy env) \<and>
     (case cl_retry (classify (ce_parse env) e) of
        RetryYes \<Rightarrow> True | RetryOnce \<Rightarrow> headerRetries < 1 | RetryNo \<Rightarrow> False) \<and>
     retry_wait env e retries \<le>
       real_of_int (if ae_retryAfterMs e = None then rp_maxBackoffMs (ce_policy env)
                    else rp_retryAfterWaitCapMs (ce_policy env)) \<and>
     cs_elapsed st + retry_wait env e retries \<le> RETRY_BUDGET_MS \<and>
     (ae_kind e = Some KRate \<or> \<not> blocked c (ce_keyId env) (w_later w n) (cs_breakers st))"

definition after_failure ::
    "call_env \<Rightarrow> world \<Rightarrow> nat \<Rightarrow> candidate list \<Rightarrow> candidate \<Rightarrow> nat \<Rightarrow> nat \<Rightarrow> attempt_error \<Rightarrow> call_state \<Rightarrow>
     next_try \<times> candidate list \<times> call_state" where
  "after_failure env w n queue c retries headerRetries e st =
     (let (failover, queue, st) = settle env (w_later w n) queue c e st
      in if attempts_left env st \<and> failover \<and> others env (w_later w n) st queue
         then (Leave, queue, decide DFailover st)
         else if attempts_left env st \<and> may_retry env w n c e retries headerRetries st
         then (let wait = retry_wait env e retries;
                   st = apply_ops (w_sleep_ops w n)
                     (set_attempt (\<lambda>a. a\<lparr>at_decision := DRetry, at_backoff := Some wait\<rparr>) st);
                   st = st\<lparr>cs_elapsed := cs_elapsed st + wait + w_overslept w n\<rparr>
               in (if w_sleeps w n
                   then Again c (retries + 1) (headerRetries + (if ae_phase e = PHeaders then 1 else 0))
                   else Done (Refusal (cancelled_error (w_disconnected w n))), queue, st))
         else (Done (Refusal e), queue, decide DStop st))"

definition failed_attempt ::
    "call_env \<Rightarrow> world \<Rightarrow> nat \<Rightarrow> candidate list \<Rightarrow> candidate \<Rightarrow> nat \<Rightarrow> nat \<Rightarrow> attempt_error \<Rightarrow> call_state \<Rightarrow>
     next_try \<times> candidate list \<times> call_state" where
  "failed_attempt env w n queue c retries headerRetries e st =
     (let st = set_attempt (\<lambda>a. a\<lparr>at_error := Some e\<rparr>) st
      in if ae_phase e = PCancelled then (Done (Refusal e), queue, release_try c st)
         else (case resealed env e st of
           Some (raw, step, kind) \<Rightarrow>
             (Again c 0 headerRetries, queue,
              decide DRetry (release_try c (add_patch (seal_text kind) (st\<lparr>cs_unseal := step, cs_raw := raw\<rparr>))))
         | None \<Rightarrow>
             (case floor_for env w n c e st of
                Some least \<Rightarrow>
                  (Again c 0 headerRetries, queue,
                   decide DRetry (release_try c
                     (add_patch (js ''max-tokens:floor:'' @ show_int least) (st\<lparr>cs_floor := Some least\<rparr>))))
              | None \<Rightarrow> after_failure env w n queue c retries headerRetries e st)))"

section \<open>One run of the loop\<close>

definition start_attempt :: "candidate \<Rightarrow> call_state \<Rightarrow> call_state" where
  "start_attempt c st = st\<lparr>cs_attempts := cs_attempts st @
     [\<lparr>at_candidate = c, at_error = None, at_decision = DStop, at_backoff = None\<rparr>]\<rparr>"

definition alternatives_left :: "call_env \<Rightarrow> real \<Rightarrow> candidate list \<Rightarrow> nat \<Rightarrow> call_state \<Rightarrow> bool" where
  "alternatives_left env now queue retries st \<longleftrightarrow>
     attempts_left env st \<and> (others env now st queue \<or> int retries < rp_perCandidate (ce_policy env))"

definition note_others :: "(jstring \<times> real) list \<Rightarrow> call_state \<Rightarrow> call_state" where
  "note_others notes st =
     st\<lparr>cs_refusals := fold (\<lambda>(k, t) m. snd (note_refusal k t m)) notes (cs_refusals st)\<rparr>"

definition run_attempt ::
    "call_env \<Rightarrow> world \<Rightarrow> nat \<Rightarrow> candidate list \<Rightarrow> candidate \<Rightarrow> nat \<Rightarrow> nat \<Rightarrow> call_state \<Rightarrow>
     next_try \<times> candidate list \<times> call_state" where
  "run_attempt env w n queue c retries headerRetries st =
     (let st = start_attempt c st;
          result = w_attempt w n c (alternatives_left env (w_now w n) queue retries st);
          st = note_others (w_notes w n) (apply_ops (w_attempt_ops w n) st)
      in case result of
           Throws \<Rightarrow> (Done Threw, queue, st)
         | Published None a \<Rightarrow>
             (Done (Answered c a), queue, decide DSuccess (st\<lparr>cs_breakers := success c (cs_breakers st)\<rparr>))
         | Published (Some e) a \<Rightarrow>
             (Done (Broken e), queue,
              set_attempt (\<lambda>x. x\<lparr>at_error := Some e\<rparr>)
                (st\<lparr>cs_breakers := failure c (cl_breaker (classify (ce_parse env) e)) (ae_failure e) (ae_class e)
                       (ce_keyId env) (w_later w n) (cs_breakers st)\<rparr>))
         | Failed e \<Rightarrow> failed_attempt env w n queue c retries headerRetries e st)"

definition attempts_exhausted :: attempt_error where
  "attempts_exhausted = localError 503 ''attempts_exhausted'' (js ''No attempt left'')"

definition try_step ::
    "call_env \<Rightarrow> world \<Rightarrow> candidate list \<Rightarrow> candidate \<Rightarrow> nat \<Rightarrow> nat \<Rightarrow> call_state \<Rightarrow>
     next_try \<times> candidate list \<times> call_state" where
  "try_step env w queue c retries headerRetries st =
     (let n = cs_step st; st = st\<lparr>cs_step := n + 1, cs_elapsed := cs_elapsed st + w_took w n\<rparr>
      in if w_aborted w n then (Done (Refusal (cancelled_error (w_disconnected w n))), queue, st)
         else if \<not> attempts_left env st
         then (Done (Refusal (the_or (cs_last st) attempts_exhausted)), queue, st)
         else case (if retries = 0 then admit c (ce_keyId env) (w_now w n) (cs_breakers st)
                    else (Admitted, cs_breakers st)) of
           (Refused r until l, br) \<Rightarrow> (Leave, queue, note_blocked c r until l (st\<lparr>cs_breakers := br\<rparr>))
         | (Admitted, br) \<Rightarrow>
             (case fit env w n c (st\<lparr>cs_breakers := br\<rparr>) of
                (Inl e, st) \<Rightarrow> (Leave, queue, note_skip e (release_try c st))
              | (Inr c, st) \<Rightarrow> run_attempt env w n queue c retries headerRetries st))"

section \<open>The call\<close>

definition all_open :: "call_env \<Rightarrow> world \<Rightarrow> call_state \<Rightarrow> jstring \<times> real \<times> last_failure option \<Rightarrow> attempt_error" where
  "all_open env w st = (\<lambda>(reason, until, cause).
     (let wait = Some (max 0 (until - w_now w (cs_step st)))
      in case cause of
           Some l \<Rightarrow>
             (localError 0 '''' [])\<lparr>ae_failure := (lf_failure l)\<lparr>fl_message :=
                 js ''All candidates are cooling down; the last failure was '' @ lf_class l @ js '' (HTTP '' @
                 show_int (fl_status (lf_failure l)) @ js '')''\<rparr>,
               ae_class := lf_class l, ae_retryAfterMs := wait\<rparr>
         | None \<Rightarrow> (localError 503 ''all_candidates_open'' reason)\<lparr>ae_retryAfterMs := wait\<rparr>))"

definition finish :: "call_env \<Rightarrow> world \<Rightarrow> call_state \<Rightarrow> outcome" where
  "finish env w st =
     Refusal
       (case cs_last st of
          Some e \<Rightarrow> e
        | None \<Rightarrow>
            (case cs_blocked st of
               Some b \<Rightarrow> all_open env w st b
             | None \<Rightarrow>
                 (case cs_skip st of
                    Some e \<Rightarrow> e
                  | None \<Rightarrow> localError 400 ''unsupported_route'' (ce_unserved env))))"

text \<open>
  A run either leaves the candidate, or ends the call, or made one attempt more; it only shortens the
  queue. That is why the loops end.
\<close>

named_theorems call_simps \<open>what the pieces of a run leave alone\<close>

lemma attempts_after [call_simps, simp]:
  "cs_attempts (apply_ops ops st) = cs_attempts st"
  "cs_attempts (release_try c st) = cs_attempts st"
  "cs_attempts (add_patch p st) = cs_attempts st"
  "cs_attempts (note_skip e st) = cs_attempts st"
  "cs_attempts (note_others notes st) = cs_attempts st"
  "cs_attempts (note_blocked c r until l st) = cs_attempts st"
  by (auto simp: apply_ops_def release_try_def add_patch_def note_skip_def note_others_def note_blocked_def
      split: option.split)

lemma attempts_fit [call_simps, simp]: "cs_attempts (snd (fit env w n c st)) = cs_attempts st"
  by (auto simp: fit_def Let_def split: option.split vision.split)

lemma length_set_attempt: "cs_attempts st \<noteq> [] \<Longrightarrow> length (cs_attempts (set_attempt f st)) = length (cs_attempts st)"
  by (simp add: set_attempt_def)

lemma set_attempt_nonempty [simp]: "cs_attempts (set_attempt f st) \<noteq> []"
  by (simp add: set_attempt_def)

lemma attempts_settle [call_simps]:
  "settle env now queue c e st = (failover, queue', st') \<Longrightarrow>
     cs_attempts st' = cs_attempts st \<and> set queue' \<subseteq> set queue \<and> length queue' \<le> length queue"
  by (auto simp: settle_def Let_def dropVendor_def split: prod.splits if_splits)

definition progress :: "call_state \<Rightarrow> candidate list \<Rightarrow> next_try \<times> candidate list \<times> call_state \<Rightarrow> bool" where
  "progress st queue r \<longleftrightarrow>
     length (fst (snd r)) \<le> length queue \<and> set (fst (snd r)) \<subseteq> set queue \<and>
     length (cs_attempts st) \<le> length (cs_attempts (snd (snd r)))"

lemma after_failure_progress:
  assumes "cs_attempts st \<noteq> []"
  shows "progress st queue (after_failure env w n queue c retries headerRetries e st) \<and>
    length (cs_attempts (snd (snd (after_failure env w n queue c retries headerRetries e st)))) = length (cs_attempts st)"
  using assms attempts_settle [of env "w_later w n" queue c e st]
  by (auto simp: after_failure_def progress_def Let_def length_set_attempt decide_def split: prod.split)

lemma failed_attempt_progress:
  assumes "cs_attempts st \<noteq> []"
  shows "progress st queue (failed_attempt env w n queue c retries headerRetries e st) \<and>
    length (cs_attempts (snd (snd (failed_attempt env w n queue c retries headerRetries e st)))) = length (cs_attempts st)"
proof -
  have [simp]: "length (cs_attempts (set_attempt f st)) = length (cs_attempts st)" for f
    by (rule length_set_attempt [OF assms])
  show ?thesis
    using after_failure_progress [of "set_attempt (\<lambda>a. a\<lparr>at_error := Some e\<rparr>) st" queue env w n c retries headerRetries e]
    by (auto simp: failed_attempt_def progress_def Let_def length_set_attempt decide_def split: option.split)
qed

lemma run_attempt_progress:
  "length (cs_attempts (snd (snd (run_attempt env w n queue c retries headerRetries st)))) = Suc (length (cs_attempts st)) \<and>
   progress st queue (run_attempt env w n queue c retries headerRetries st)"
proof -
  let ?st = "note_others (w_notes w n) (apply_ops (w_attempt_ops w n) (start_attempt c st))"
  have len: "length (cs_attempts ?st) = Suc (length (cs_attempts st))" "cs_attempts ?st \<noteq> []"
    by (simp_all add: start_attempt_def)
  show ?thesis
    using failed_attempt_progress [OF len(2), of queue env w n c retries headerRetries] len
    by (auto simp: run_attempt_def progress_def Let_def length_set_attempt decide_def start_attempt_def
        split: attempt_result.split option.split)
qed

lemma run_attempt_result:
  "run_attempt env w n queue c retries headerRetries st = (nx, queue', st') \<Longrightarrow>
   length queue' \<le> length queue \<and> set queue' \<subseteq> set queue \<and>
   length (cs_attempts st') = Suc (length (cs_attempts st))"
  using run_attempt_progress [of env w n queue c retries headerRetries st] by (simp add: progress_def)

lemma try_step_progress:
  assumes "try_step env w queue c retries headerRetries st = (nx, queue', st')"
  shows "length queue' \<le> length queue" "set queue' \<subseteq> set queue" "length (cs_attempts st) \<le> length (cs_attempts st')"
    and "nx = Again c' r' h' \<Longrightarrow>
      length (cs_attempts st') = Suc (length (cs_attempts st)) \<and> attempts_left env st"
proof -
  have fit: "cs_attempts st2 = cs_attempts st1" if "fit env w n c st1 = (r, st2)" for n st1 r st2
    using attempts_fit [of env w n c st1] that by simp
  have left: "attempts_left env (st\<lparr>cs_step := k, cs_elapsed := t\<rparr>) = attempts_left env st" for k t by (simp add: attempts_left_def)
  show "length queue' \<le> length queue" "set queue' \<subseteq> set queue" "length (cs_attempts st) \<le> length (cs_attempts st')"
    and "nx = Again c' r' h' \<Longrightarrow>
      length (cs_attempts st') = Suc (length (cs_attempts st)) \<and> attempts_left env st"
    using assms
    by (auto simp: try_step_def Let_def progress_def left
        dest!: fit run_attempt_result
        split: if_splits prod.splits admission.splits sum.splits)
qed

section \<open>The loops\<close>

type_synonym current_try = "(candidate \<times> nat \<times> nat) option"

function route_loop ::
    "call_env \<Rightarrow> world \<Rightarrow> current_try \<Rightarrow> candidate list \<Rightarrow> call_state \<Rightarrow> outcome \<times> call_state" where
  "route_loop env w None [] st = (finish env w st, st)"
| "route_loop env w None (c # queue) st =
     (if api c \<in> set (cs_unreadable st) then route_loop env w None queue st
      else route_loop env w (Some (c, 0, 0)) queue st)"
| "route_loop env w (Some (c, retries, headerRetries)) queue st =
     (case try_step env w queue c retries headerRetries st of
        (Done out, queue', st') \<Rightarrow> (out, st')
      | (Leave, queue', st') \<Rightarrow> route_loop env w None queue' st'
      | (Again c' r h, queue', st') \<Rightarrow> route_loop env w (Some (c', r, h)) queue' st')"
  by pat_completeness auto

definition loop_order ::
    "((call_env \<times> world \<times> current_try \<times> candidate list \<times> call_state) \<times>
      (call_env \<times> world \<times> current_try \<times> candidate list \<times> call_state)) set" where
  "loop_order = measures
    [\<lambda>(env, w, cur, queue, st). nat (rp_totalAttempts (ce_policy env) - int (length (cs_attempts st))),
     \<lambda>(env, w, cur, queue, st). 2 * length queue + (if cur = None then 0 else 1)]"

lemma skip_less:
  "((env, w, None, queue, st), (env, w, None, c # queue, st)) \<in> loop_order"
  "((env, w, Some x, queue, st), (env, w, None, c # queue, st)) \<in> loop_order"
  by (simp_all add: loop_order_def)

lemma leave_less:
  assumes "(Leave, queue', st') = try_step env w queue c retries headerRetries st"
  shows "((env, w, None, queue', st'), (env, w, Some x, queue, st)) \<in> loop_order"
proof -
  note p = try_step_progress [OF assms [symmetric]]
  have "nat (t - int (length (cs_attempts st'))) \<le> nat (t - int (length (cs_attempts st)))" for t
    using p(3) by (intro nat_mono) simp
  moreover have "2 * length queue' < Suc (2 * length queue)" using p(1) by simp
  ultimately show ?thesis unfolding loop_order_def by (simp only: measures_def in_inv_image) (auto simp: le_less)
qed

lemma again_less:
  assumes "(Again c' r h, queue', st') = try_step env w queue c retries headerRetries st"
  shows "((env, w, Some x, queue', st'), (env, w, Some y, queue, st)) \<in> loop_order"
  using try_step_progress(4) [OF assms [symmetric] refl] by (simp add: loop_order_def attempts_left_def)

lemma wf_loop_order: "wf loop_order"
  by (simp add: loop_order_def)

termination route_loop
  by (relation loop_order) (auto simp: wf_loop_order intro: skip_less leave_less again_less)

definition routeCall :: "call_env \<Rightarrow> world \<Rightarrow> candidate list \<Rightarrow> call_state \<Rightarrow> outcome \<times> call_state" where
  "routeCall env w candidates st = route_loop env w None candidates st"

definition start_call :: "breakers \<Rightarrow> policy_refusals \<Rightarrow> body \<Rightarrow> jstring list \<Rightarrow> call_state" where
  "start_call br refusals raw patches =
     \<lparr>cs_step = 0, cs_elapsed = 0, cs_breakers = br, cs_refusals = refusals, cs_attempts = [], cs_last = None,
      cs_skip = None, cs_blocked = None, cs_unreadable = [], cs_refused = 0, cs_floor = None, cs_unseal = 0,
      cs_raw = raw, cs_patches = patches, cs_vision = None\<rparr>"

text \<open>What an answer leaves behind in the router and the conversation's stickiness.\<close>

definition after_answer ::
    "call_env \<Rightarrow> outcome \<Rightarrow> int \<Rightarrow> router \<times> sticky \<Rightarrow> router \<times> sticky" where
  "after_answer env out now = (\<lambda>(rt, entries).
     case out of
       Answered c a \<Rightarrow>
         (record_call c (an_tokens a) (an_firstContentMs a) (real_of_int now) rt,
          case ce_conversation env of
            Some conv \<Rightarrow>
              if ce_compact env then entries
              else sticky_remember conv (ce_requested env) c (an_cacheRead a) now entries
          | None \<Rightarrow> entries)
     | _ \<Rightarrow> (rt, entries))"

text \<open>What holds as the loops start, every run keeps, and the outcome follows from it.\<close>

lemma route_loop_rule:
  assumes "I cur queue st"
    and "\<And>c queue st. I None (c # queue) st \<Longrightarrow> I None queue st \<and> I (Some (c, 0, 0)) queue st"
    and "\<And>c r h queue st queue' st'. I (Some (c, r, h)) queue st \<Longrightarrow>
      try_step env w queue c r h st = (Leave, queue', st') \<Longrightarrow> I None queue' st'"
    and "\<And>c r h queue st c' r' h' queue' st'. I (Some (c, r, h)) queue st \<Longrightarrow>
      try_step env w queue c r h st = (Again c' r' h', queue', st') \<Longrightarrow> I (Some (c', r', h')) queue' st'"
    and "\<And>c r h queue st out queue' st'. I (Some (c, r, h)) queue st \<Longrightarrow>
      try_step env w queue c r h st = (Done out, queue', st') \<Longrightarrow> P out st'"
    and "\<And>st. I None [] st \<Longrightarrow> P (finish env w st) st"
  shows "P (fst (route_loop env w cur queue st)) (snd (route_loop env w cur queue st))"
  using assms(1)
proof (induction env\<equiv>env w\<equiv>w cur queue st rule: route_loop.induct)
  case (1 st)
  then show ?case by (simp add: assms(6))
next
  case (2 c queue st)
  then show ?case using assms(2) [OF 2(3)] by simp
next
  case (3 c retries headerRetries queue st)
  obtain nx queue' st' where step: "try_step env w queue c retries headerRetries st = (nx, queue', st')"
    by (metis prod.exhaust)
  show ?case
  proof (cases nx)
    case (Again c' r h)
    with 3 assms(4) step show ?thesis by auto
  next
    case Leave
    with 3 assms(3) step show ?thesis by auto
  next
    case (Done out)
    with 3 assms(5) step show ?thesis by auto
  qed
qed

end
