(* ===== verification/CallProps.thy ===== *)
theory CallProps
  imports Calls
begin

text \<open>
  What one call does, whatever the upstreams answer and other calls do meanwhile: its attempts are few
  and each next one is justified by the failure before it, and a credential's probe is given back.
\<close>

section \<open>The cases of a run\<close>

definition begun :: "world \<Rightarrow> call_state \<Rightarrow> call_state" where
  "begun w st = st\<lparr>cs_step := cs_step st + 1, cs_elapsed := cs_elapsed st + w_took w (cs_step st)\<rparr>"

definition asked :: "call_env \<Rightarrow> world \<Rightarrow> candidate \<Rightarrow> nat \<Rightarrow> call_state \<Rightarrow> admission \<times> call_state" where
  "asked env w c retries st =
     (let (admission, br) = (if retries = 0 then admit c (ce_keyId env) (w_now w (cs_step st)) (cs_breakers st)
          else (Admitted, cs_breakers st))
      in (admission, (begun w st)\<lparr>cs_breakers := br\<rparr>))"

lemma try_stepE:
  assumes "try_step env w queue c r h st = (nx, queue', st')"
  obtains
    (Stopped) e where "nx = Done (Refusal e)" "queue' = queue" "st' = begun w st"
  | (Blocked) reason until l st1 where "asked env w c r st = (Refused reason until l, st1)" "nx = Leave"
      "queue' = queue" "st' = note_blocked c reason until l st1"
  | (Skipped) e st1 st2 where "asked env w c r st = (Admitted, st1)" "fit env w (cs_step st) c st1 = (Inl e, st2)"
      "nx = Leave" "queue' = queue" "st' = note_skip e (release_try c st2)"
  | (Tried) c' st1 st2 where "attempts_left env st" "asked env w c r st = (Admitted, st1)"
      "fit env w (cs_step st) c st1 = (Inr c', st2)"
      "run_attempt env w (cs_step st) queue c' r h st2 = (nx, queue', st')"
proof -
  have left: "attempts_left env (begun w st) = attempts_left env st" by (simp add: attempts_left_def begun_def)
  have step: "try_step env w queue c r h st =
      (if w_aborted w (cs_step st) then (Done (Refusal (cancelled_error (w_disconnected w (cs_step st)))), queue, begun w st)
       else if \<not> attempts_left env st
       then (Done (Refusal (the_or (cs_last st) attempts_exhausted)), queue, begun w st)
       else case asked env w c r st of
           (Refused reason until l, st1) \<Rightarrow> (Leave, queue, note_blocked c reason until l st1)
         | (Admitted, st1) \<Rightarrow>
             (case fit env w (cs_step st) c st1 of
                (Inl e, st2) \<Rightarrow> (Leave, queue, note_skip e (release_try c st2))
              | (Inr c', st2) \<Rightarrow> run_attempt env w (cs_step st) queue c' r h st2))"
    using left by (auto simp: try_step_def asked_def begun_def Let_def split: prod.split admission.split)
  show thesis
  proof (cases "w_aborted w (cs_step st) \<or> \<not> attempts_left env st")
    case True
    with step assms Stopped show thesis by (auto split: if_splits)
  next
    case False
    obtain ad st1 where asked: "asked env w c r st = (ad, st1)" by fastforce
    obtain f st2 where fit: "fit env w (cs_step st) c st1 = (f, st2)" by fastforce
    show thesis
      using False step assms asked fit Blocked Skipped Tried
      by (cases ad; cases f) auto
  qed
qed

lemma asked_attempts [simp]: "asked env w c r st = (ad, st1) \<Longrightarrow> cs_attempts st1 = cs_attempts st"
  by (auto simp: asked_def begun_def split: prod.splits)

section \<open>The log of attempts\<close>

text \<open>An attempt after which the call went on: to the next candidate, or to this one again.\<close>

definition moved_on :: "call_env \<Rightarrow> call_attempt \<Rightarrow> bool" where
  "moved_on env a \<longleftrightarrow>
     (\<exists>e. at_error a = Some e \<and> ae_phase e \<noteq> PCancelled \<and>
       (at_decision a = DFailover \<and> cl_failover (classify (ce_parse env) e) \<or>
        at_decision a = DRetry \<and> (at_backoff a \<noteq> None \<longrightarrow> cl_retry (classify (ce_parse env) e) \<noteq> RetryNo)))"

text \<open>The attempt that ended the call.\<close>

definition ended_by :: "call_attempt \<Rightarrow> outcome \<Rightarrow> bool" where
  "ended_by a out \<longleftrightarrow>
     (case out of
        Answered c x \<Rightarrow> at_decision a = DSuccess \<and> at_candidate a = c \<and> at_error a = None
      | Broken e \<Rightarrow> at_decision a = DStop \<and> at_error a = Some e
      | Refusal e \<Rightarrow> at_decision a = DStop \<and> at_error a = Some e
      | Threw \<Rightarrow> at_decision a = DStop \<and> at_error a = None)"

definition logged :: "call_env \<Rightarrow> next_try \<Rightarrow> call_attempt \<Rightarrow> bool" where
  "logged env nx a \<longleftrightarrow>
     (case nx of
        Done out \<Rightarrow> ended_by a out \<or> moved_on env a \<and> (\<exists>e. out = Refusal e)
      | _ \<Rightarrow> moved_on env a)"

definition adds :: "call_env \<Rightarrow> candidate \<Rightarrow> call_attempt list \<Rightarrow> next_try \<times> candidate list \<times> call_state \<Rightarrow> bool" where
  "adds env c before r \<longleftrightarrow>
     (\<exists>a. cs_attempts (snd (snd r)) = before @ [a] \<and> at_candidate a = c \<and> logged env (fst r) a)"

lemma set_attempt_snoc [simp]:
  "cs_attempts st = before @ [a] \<Longrightarrow> cs_attempts (set_attempt f st) = before @ [f a]"
  by (simp add: set_attempt_def)

lemma settle_result:
  assumes "settle env now queue c e st = (failover, queue', st')"
  shows "cs_attempts st' = cs_attempts st" "failover \<Longrightarrow> cl_failover (classify (ce_parse env) e)"
  using assms by (auto simp: settle_def Let_def split: prod.splits if_splits)

lemma may_retry_retries:
  "may_retry env w n c e r h st \<Longrightarrow> cl_retry (classify (ce_parse env) e) \<noteq> RetryNo"
  by (auto simp: may_retry_def)

lemma addsI:
  "cs_attempts st' = before @ [a] \<Longrightarrow> at_candidate a = c \<Longrightarrow> logged env nx a \<Longrightarrow> adds env c before (nx, queue', st')"
  by (auto simp: adds_def)

lemma logged_simps:
  "logged env Leave a = moved_on env a"
  "logged env (Again c r h) a = moved_on env a"
  "logged env (Done out) a \<longleftrightarrow> ended_by a out \<or> moved_on env a \<and> (\<exists>e. out = Refusal e)"
  by (simp_all add: logged_def)

lemma after_failure_adds:
  assumes a: "cs_attempts st = before @ [a]" "at_candidate a = c" "at_error a = Some e" "at_decision a = DStop"
    and phase: "ae_phase e \<noteq> PCancelled"
  shows "adds env c before (after_failure env w n queue c' r h e st)"
proof -
  obtain failover queue1 st1 where settle: "settle env (w_later w n) queue c' e st = (failover, queue1, st1)"
    by (metis prod.exhaust)
  have st1: "cs_attempts st1 = before @ [a]" using settle_result(1) [OF settle] a(1) by simp
  consider "attempts_left env st1 \<and> failover \<and> others env (w_later w n) st1 queue1"
    | "\<not> (attempts_left env st1 \<and> failover \<and> others env (w_later w n) st1 queue1)"
      "attempts_left env st1 \<and> may_retry env w n c' e r h st1"
    | "\<not> (attempts_left env st1 \<and> failover \<and> others env (w_later w n) st1 queue1)"
      "\<not> (attempts_left env st1 \<and> may_retry env w n c' e r h st1)"
    by blast
  then show ?thesis
  proof cases
    case 1
    then have "moved_on env (a\<lparr>at_decision := DFailover\<rparr>)"
      using settle_result(2) [OF settle] a phase by (simp add: moved_on_def)
    with 1 a st1 show ?thesis
      by (simp add: after_failure_def settle decide_def addsI [OF set_attempt_snoc] logged_simps)
  next
    case 2
    let ?f = "\<lambda>a. a\<lparr>at_decision := DRetry, at_backoff := Some (retry_wait env e r)\<rparr>"
    have "moved_on env (?f a)" using may_retry_retries [of env w n c' e r h st1] 2(2) a phase by (simp add: moved_on_def)
    with 2 a st1 show ?thesis
      by (auto simp: after_failure_def settle Let_def logged_simps intro!: addsI [where a = "?f a"])
  next
    case 3
    with a st1 show ?thesis
      by (auto simp: after_failure_def settle decide_def Let_def logged_simps ended_by_def intro!: addsI)
  qed
qed

lemma failed_attempt_adds:
  assumes a: "cs_attempts st = before @ [a]" "at_candidate a = c" "at_decision a = DStop" "at_backoff a = None"
  shows "adds env c before (failed_attempt env w n queue c' r h e st)"
proof -
  have st1: "cs_attempts (set_attempt (\<lambda>a. a\<lparr>at_error := Some e\<rparr>) st) = before @ [a\<lparr>at_error := Some e\<rparr>]"
    using a by simp
  have again: "logged env (Again c' r h) (a\<lparr>at_error := Some e, at_decision := DRetry\<rparr>)"
    if "ae_phase e \<noteq> PCancelled" for c' r h
    using a that by (simp add: logged_simps moved_on_def)
  show ?thesis
  proof (cases "ae_phase e = PCancelled")
    case True
    with a st1 show ?thesis
      by (auto simp: failed_attempt_def Let_def logged_simps ended_by_def intro!: addsI)
  next
    case False
    with a st1 again after_failure_adds [OF st1] show ?thesis
      by (auto simp: failed_attempt_def Let_def decide_def split: option.split
          intro!: addsI [where a = "a\<lparr>at_error := Some e, at_decision := DRetry\<rparr>"])
  qed
qed

lemma run_attempt_adds: "adds env c (cs_attempts st) (run_attempt env w n queue c r h st)"
proof -
  let ?a = "\<lparr>at_candidate = c, at_error = None, at_decision = DStop, at_backoff = None\<rparr>"
  let ?st = "note_others (w_notes w n) (apply_ops (w_attempt_ops w n) (start_attempt c st))"
  have st: "cs_attempts ?st = cs_attempts st @ [?a]" by (simp add: start_attempt_def)
  show ?thesis
  proof (cases "w_attempt w n c (alternatives_left env (w_now w n) queue r (start_attempt c st))")
    case (Failed e)
    with failed_attempt_adds [OF st, of c] show ?thesis by (simp add: run_attempt_def Let_def)
  next
    case (Published e a)
    with st show ?thesis
      by (cases e) (auto simp: run_attempt_def Let_def decide_def logged_simps ended_by_def intro!: addsI)
  next
    case Throws
    with st show ?thesis
      by (auto simp: run_attempt_def Let_def logged_simps ended_by_def intro!: addsI)
  qed
qed

text \<open>A run of the loop: no attempt, or one attempt more on the candidate as it fits the call.\<close>

definition same_candidate :: "candidate \<Rightarrow> candidate \<Rightarrow> bool" where
  "same_candidate c' c \<longleftrightarrow> c' = c \<or> c' = translated c"

lemma fit_same: "fit env w n c st = (Inr c', st') \<Longrightarrow> same_candidate c' c"
  by (auto simp: fit_def fit_mode_def Let_def same_candidate_def translated_def split: if_splits option.splits vision.splits)

lemma fit_attempts: "fit env w n c st = (r, st') \<Longrightarrow> cs_attempts st' = cs_attempts st"
  using attempts_fit [of env w n c st] by simp

lemma try_step_log:
  assumes "try_step env w queue c r h st = (nx, queue', st')"
  shows "cs_attempts st' = cs_attempts st \<and> (nx = Leave \<or> (\<exists>e. nx = Done (Refusal e))) \<or>
    attempts_left env st \<and>
    (\<exists>a. cs_attempts st' = cs_attempts st @ [a] \<and> same_candidate (at_candidate a) c \<and> logged env nx a)"
  using assms
proof (cases rule: try_stepE)
  case (Tried c' st1 st2)
  then have "cs_attempts st2 = cs_attempts st" using fit_attempts by simp
  with run_attempt_adds [of env c' st2 w "cs_step st" queue r h] Tried fit_same
  show ?thesis by (auto simp: adds_def)
next
  case (Skipped e st1 st2)
  then show ?thesis using fit_attempts by simp
qed (auto simp: begun_def)

text \<open>
  C35: however the upstreams answer, a call makes at most eight attempts and has one outcome. Every
  attempt but the one that ended it failed, with a failure that fails over where the next candidate
  was asked and one that may be retried where the same one was asked again after a wait; only the last
  attempt can have succeeded, and it did exactly when the outcome is its answer.
\<close>

theorem attempts_are_justified:
  assumes "ce_policy env = retryPolicy overrides"
    and "routeCall env w candidates (start_call br refusals raw patches) = (out, st)"
  shows "length (cs_attempts st) \<le> 8 \<and>
    ((\<forall>a \<in> set (cs_attempts st). moved_on env a) \<and> (\<exists>e. out = Refusal e) \<or>
     (\<exists>before a. cs_attempts st = before @ [a] \<and> (\<forall>b \<in> set before. moved_on env b) \<and> ended_by a out))"
proof -
  let ?P = "\<lambda>out st. length (cs_attempts st) \<le> 8 \<and>
    ((\<forall>a \<in> set (cs_attempts st). moved_on env a) \<and> (\<exists>e. out = Refusal e) \<or>
     (\<exists>before a. cs_attempts st = before @ [a] \<and> (\<forall>b \<in> set before. moved_on env b) \<and> ended_by a out))"
  let ?I = "\<lambda>cur queue st. length (cs_attempts st) \<le> 8 \<and> (\<forall>a \<in> set (cs_attempts st). moved_on env a)"
  have few: "attempts_left env st \<Longrightarrow> Suc (length (cs_attempts st)) \<le> 8" for st
    unfolding attempts_left_def assms(1) by (auto simp: retryPolicy_def Let_def)
  have "?P (fst (route_loop env w None candidates (start_call br refusals raw patches)))
      (snd (route_loop env w None candidates (start_call br refusals raw patches)))"
  proof (rule route_loop_rule [where I = ?I])
    show "?I None candidates (start_call br refusals raw patches)" by (simp add: start_call_def)
  next
    fix c r h queue st queue' st'
    assume inv: "?I (Some (c, r, h)) queue st" and step: "try_step env w queue c r h st = (Leave, queue', st')"
    show "?I None queue' st'" using inv try_step_log [OF step] few [of st] by (auto simp: logged_simps)
  next
    fix c r h queue st c' r' h' queue' st'
    assume inv: "?I (Some (c, r, h)) queue st"
      and step: "try_step env w queue c r h st = (Again c' r' h', queue', st')"
    show "?I (Some (c', r', h')) queue' st'" using inv try_step_log [OF step] few [of st] by (auto simp: logged_simps)
  next
    fix c r h queue st out queue' st'
    assume inv: "?I (Some (c, r, h)) queue st" and step: "try_step env w queue c r h st = (Done out, queue', st')"
    show "?P out st'" using inv try_step_log [OF step] few [of st] by (auto simp: logged_simps)
  qed (auto simp: finish_def)
  with assms(2) show ?thesis by (simp add: routeCall_def)
qed

section \<open>The probe of a half-open breaker\<close>

text \<open>No request has the probe of a credential out.\<close>

definition quiet :: "jstring \<Rightarrow> call_state \<Rightarrow> bool" where
  "quiet k st \<longleftrightarrow> circuit (cs_breakers st) k \<noteq> HalfOpen True"

text \<open>An operation of another call that may take the probe of the credential \<open>k\<close>.\<close>

fun takes_probe :: "jstring \<Rightarrow> breaker_op \<Rightarrow> bool" where
  "takes_probe k (Admit c keyId) = (credentialKey c = k)"
| "takes_probe k op = False"

definition leaves_alone :: "jstring \<Rightarrow> (real \<times> breaker_op) list \<Rightarrow> bool" where
  "leaves_alone k ops \<longleftrightarrow> list_all (\<lambda>(now, op). \<not> takes_probe k op) ops"

lemma breakers_after [call_simps, simp]:
  "cs_breakers (set_attempt f st) = cs_breakers st"
  "cs_breakers (decide d st) = cs_breakers st"
  "cs_breakers (add_patch p st) = cs_breakers st"
  "cs_breakers (note_skip e st) = cs_breakers st"
  "cs_breakers (note_others notes st) = cs_breakers st"
  "cs_breakers (note_blocked c r until l st) = cs_breakers st"
  "cs_breakers (start_attempt c st) = cs_breakers st"
  "cs_breakers (begun w st) = cs_breakers st"
  "cs_breakers (release_try c st) = release c (cs_breakers st)"
  "cs_breakers (apply_ops ops st) = run_ops breaker_step ops (cs_breakers st)"
  by (auto simp: set_attempt_def decide_def add_patch_def note_skip_def note_others_def note_blocked_def
      start_attempt_def begun_def release_try_def apply_ops_def split: option.split)

lemma given_back:
  "circuit (failure c effect fl errorClass keyId now br) (credentialKey c) \<noteq> HalfOpen True"
  "circuit (release c br) (credentialKey c) \<noteq> HalfOpen True"
  "circuit (success c br) (credentialKey c) \<noteq> HalfOpen True"
proof -
  have count: "circuit_count u x \<noteq> HalfOpen True" "circuit_release x \<noteq> HalfOpen True" for u x
    by (cases x; simp)+
  then show "circuit (failure c effect fl errorClass keyId now br) (credentialKey c) \<noteq> HalfOpen True"
    by (cases effect) (simp_all add: count_circuit cooldown_circuit auth_circuit other_circuit)
qed (auto, (cases "circuit br (credentialKey c)"; simp)+)

lemma admit_other:
  "credentialKey c \<noteq> k \<Longrightarrow> circuit (snd (admit c keyId now br)) k = circuit br k"
  using admit_circuit(2) [of c keyId now br] admit_marked(2) [of c keyId now br]
  by (cases "markFor c keyId now br") auto

lemma refused_quiet:
  assumes "fst (admit c keyId now br) \<noteq> Admitted" "circuit br k \<noteq> HalfOpen True"
  shows "circuit (snd (admit c keyId now br)) k \<noteq> HalfOpen True"
proof (cases "markFor c keyId now br")
  case None
  with assms admit_circuit [of c keyId now br] show ?thesis
    by (cases "circuit br (credentialKey c)") (auto split: if_splits)
next
  case (Some m)
  with assms(2) show ?thesis using admit_marked(2) by metis
qed

lemma quiet_step:
  assumes "\<not> takes_probe k op" "circuit br k \<noteq> HalfOpen True"
  shows "circuit (snd (breaker_step (now, op) br)) k \<noteq> HalfOpen True"
proof (cases op)
  case (Admit c keyId)
  with assms show ?thesis by (simp add: admit_other)
next
  case (Success c)
  with assms show ?thesis by simp
next
  case (Release c)
  with assms given_back(2) [of c br] show ?thesis by (cases "credentialKey c = k") auto
next
  case (Failure c effect fl errorClass keyId)
  with assms given_back(1) [of c effect fl errorClass keyId now br] show ?thesis
    by (cases "credentialKey c = k") (auto simp: failure_other)
next
  case (Lift provider credential reason)
  with assms show ?thesis by (simp add: lift_circuit)
qed

lemma quiet_ops:
  "leaves_alone k ops \<Longrightarrow> circuit br k \<noteq> HalfOpen True \<Longrightarrow> circuit (run_ops breaker_step ops br) k \<noteq> HalfOpen True"
proof (induction ops arbitrary: br)
  case (Cons x ops)
  obtain now op where x: "x = (now, op)" by (cases x)
  with Cons.prems have "leaves_alone k ops" "\<not> takes_probe k op" by (simp_all add: leaves_alone_def)
  with quiet_step [of k op br now] Cons x show ?case by simp
qed simp

text \<open>What a run does to the probe of \<open>k\<close>, from an admitted candidate to its end.\<close>

definition ours :: "jstring \<Rightarrow> candidate \<Rightarrow> call_state \<Rightarrow> bool" where
  "ours k c st \<longleftrightarrow> (credentialKey c \<noteq> k \<longrightarrow> quiet k st)"

definition alone :: "world \<Rightarrow> jstring \<Rightarrow> bool" where
  "alone w k \<longleftrightarrow> (\<forall>n. leaves_alone k (w_vision_ops w n) \<and> leaves_alone k (w_attempt_ops w n) \<and> leaves_alone k (w_sleep_ops w n))"

lemma ours_ops: "leaves_alone k ops \<Longrightarrow> ours k c st \<Longrightarrow> ours k c (apply_ops ops st)"
  by (simp add: ours_def quiet_def quiet_ops)

lemma quiet_apply: "leaves_alone k ops \<Longrightarrow> quiet k st \<Longrightarrow> quiet k (apply_ops ops st)"
  by (simp add: quiet_def quiet_ops)

lemma ours_settled:
  "ours k c st \<Longrightarrow> circuit (failure c effect fl errorClass keyId now (cs_breakers st)) k \<noteq> HalfOpen True"
  "ours k c st \<Longrightarrow> circuit (release c (cs_breakers st)) k \<noteq> HalfOpen True"
  "ours k c st \<Longrightarrow> circuit (success c (cs_breakers st)) k \<noteq> HalfOpen True"
  using given_back [of c] by (cases "credentialKey c = k"; auto simp: ours_def quiet_def failure_other)+

lemma settle_quiet: "ours k c st \<Longrightarrow> settle env now queue c e st = (f, q, st') \<Longrightarrow> quiet k st'"
  by (auto simp: settle_def Let_def quiet_def ours_settled split: prod.splits if_splits)

lemma after_failure_quiet:
  assumes "alone w k" "ours k c st"
  shows "quiet k (snd (snd (after_failure env w n queue c r h e st)))"
proof -
  obtain f q st1 where settle: "settle env (w_later w n) queue c e st = (f, q, st1)" by (metis prod.exhaust)
  with assms(2) have "quiet k st1" by (rule settle_quiet)
  moreover from this assms(1) have "circuit (run_ops breaker_step (w_sleep_ops w n) (cs_breakers st1)) k \<noteq> HalfOpen True"
    by (simp add: alone_def quiet_def quiet_ops)
  ultimately show ?thesis by (auto simp: after_failure_def settle Let_def quiet_def)
qed

lemma failed_attempt_quiet:
  assumes "alone w k" "ours k c st"
  shows "quiet k (snd (snd (failed_attempt env w n queue c r h e st)))"
proof -
  have "ours k c (set_attempt f st)" for f using assms(2) by (simp add: ours_def quiet_def)
  note after = after_failure_quiet [OF assms(1) this] and mine = ours_settled(2) [OF assms(2)]
  show ?thesis using after mine by (auto simp: failed_attempt_def Let_def quiet_def split: option.split)
qed

lemma run_attempt_quiet:
  assumes "alone w k" "ours k c st" "run_attempt env w n queue c r h st = (nx, queue', st')"
  shows "nx = Done Threw \<or> quiet k st'"
proof -
  let ?st = "note_others (w_notes w n) (apply_ops (w_attempt_ops w n) (start_attempt c st))"
  have mine: "ours k c ?st"
    using ours_ops [of k "w_attempt_ops w n" c "start_attempt c st"] assms(1,2)
    by (auto simp: ours_def quiet_def alone_def)
  show ?thesis
  proof (cases "w_attempt w n c (alternatives_left env (w_now w n) queue r (start_attempt c st))")
    case (Failed e)
    with assms(3) failed_attempt_quiet [OF assms(1) mine, of env n queue r h e] show ?thesis
      by (simp add: run_attempt_def Let_def)
  next
    case (Published e a)
    with assms(3) ours_settled [OF mine] show ?thesis
      by (cases e) (auto simp: run_attempt_def Let_def quiet_def)
  next
    case Throws
    with assms(3) show ?thesis by (auto simp: run_attempt_def Let_def)
  qed
qed

lemma same_key: "same_candidate c' c \<Longrightarrow> credentialKey c' = credentialKey c"
  by (auto simp: same_candidate_def translated_def credentialKey_def)

lemma fit_ours:
  assumes "alone w k" "ours k c st" "fit env w n c st = (f, st')"
  shows "ours k c st'"
proof -
  have "st' = st \<or> (\<exists>v. st' = (apply_ops (w_vision_ops w n) st)\<lparr>cs_vision := v\<rparr>)"
    using assms(3) by (auto simp: fit_def Let_def split: if_splits option.splits vision.splits)
  with assms(2) ours_ops [of k "w_vision_ops w n" c st] assms(1) show ?thesis
    by (auto simp: ours_def quiet_def alone_def)
qed

lemma asked_ours:
  assumes "quiet k st" "asked env w c r st = (ad, st1)"
  shows "ours k c st1" "ad \<noteq> Admitted \<Longrightarrow> quiet k st1"
proof -
  have ad: "r = 0 \<and> admit c (ce_keyId env) (w_now w (cs_step st)) (cs_breakers st) = (ad, cs_breakers st1) \<or>
      ad = Admitted \<and> cs_breakers st1 = cs_breakers st"
    using assms(2) by (auto simp: asked_def split: prod.splits if_splits)
  from ad show "ours k c st1"
    using assms(1) admit_other [of c k "ce_keyId env" "w_now w (cs_step st)" "cs_breakers st"]
    by (auto simp: ours_def quiet_def)
  from ad show "quiet k st1" if "ad \<noteq> Admitted"
    using assms(1) that refused_quiet [of c "ce_keyId env" "w_now w (cs_step st)" "cs_breakers st" k]
    by (auto simp: quiet_def)
qed

lemma try_step_quiet:
  assumes "alone w k" "quiet k st" "try_step env w queue c r h st = (nx, queue', st')"
  shows "nx = Done Threw \<or> quiet k st'"
  using assms(3)
proof (cases rule: try_stepE)
  case (Stopped e)
  with assms(2) show ?thesis by (simp add: quiet_def)
next
  case (Blocked reason until l st1)
  with asked_ours(2) [OF assms(2)] show ?thesis by (auto simp: quiet_def)
next
  case (Skipped e st1 st2)
  with fit_ours [OF assms(1) asked_ours(1) [OF assms(2)]] have "ours k c st2" by blast
  with Skipped show ?thesis using ours_settled(2) by (simp add: quiet_def)
next
  case (Tried c' st1 st2)
  with fit_ours [OF assms(1) asked_ours(1) [OF assms(2)]] have "ours k c st2" by blast
  moreover have "credentialKey c' = credentialKey c" using Tried fit_same same_key by blast
  ultimately have "ours k c' st2" by (simp add: ours_def)
  then show ?thesis by (rule run_attempt_quiet [OF assms(1) _ Tried(4)])
qed

text \<open>
  C36: a call gives back every probe it takes. When no other call has the probe of a credential out as
  the call starts, and none takes it meanwhile, nobody has it when the call has ended, whichever
  attempts it made, skipped, retried or gave up on, unless an attempt threw.
\<close>

theorem probes_are_given_back:
  assumes "alone w k" "circuit br k \<noteq> HalfOpen True"
    and "routeCall env w candidates (start_call br refusals raw patches) = (out, st)" "out \<noteq> Threw"
  shows "circuit (cs_breakers st) k \<noteq> HalfOpen True"
proof -
  let ?start = "start_call br refusals raw patches"
  have "(\<lambda>out st. out = Threw \<or> quiet k st) (fst (route_loop env w None candidates ?start))
      (snd (route_loop env w None candidates ?start))"
  proof (rule route_loop_rule [where I = "\<lambda>cur queue st. quiet k st"])
    show "quiet k ?start" using assms(2) by (simp add: quiet_def start_call_def)
  qed (auto dest: try_step_quiet [OF assms(1)])
  with assms(3,4) show ?thesis by (simp add: routeCall_def quiet_def)
qed

end
