(* ===== verification/CallLimits.thy ===== *)
theory CallLimits
  imports CallProps
begin

text \<open>
  The limit on the waits of one call: those before retries stay in their budget.
\<close>

section \<open>The waits\<close>

definition waited :: "call_attempt list \<Rightarrow> real" where
  "waited attempts = sum_list (map (\<lambda>a. the_or (at_backoff a) 0) attempts)"

lemma waited_snoc [simp]: "waited (before @ [a]) = waited before + the_or (at_backoff a) 0"
  by (simp add: waited_def)

lemma elapsed_after [call_simps, simp]:
  "cs_elapsed (set_attempt f st) = cs_elapsed st"
  "cs_elapsed (decide d st) = cs_elapsed st"
  "cs_elapsed (add_patch p st) = cs_elapsed st"
  "cs_elapsed (note_skip e st) = cs_elapsed st"
  "cs_elapsed (note_others notes st) = cs_elapsed st"
  "cs_elapsed (note_blocked c r until l st) = cs_elapsed st"
  "cs_elapsed (start_attempt c st) = cs_elapsed st"
  "cs_elapsed (release_try c st) = cs_elapsed st"
  "cs_elapsed (apply_ops ops st) = cs_elapsed st"
  by (auto simp: set_attempt_def decide_def add_patch_def note_skip_def note_others_def note_blocked_def
      start_attempt_def release_try_def apply_ops_def split: option.split)

lemma asked_elapsed: "asked env w c r st = (ad, st1) \<Longrightarrow> cs_elapsed st1 = cs_elapsed st + w_took w (cs_step st)"
  by (auto simp: asked_def begun_def split: prod.splits)

lemma fit_elapsed: "fit env w n c st = (f, st') \<Longrightarrow> cs_elapsed st' = cs_elapsed st"
  by (auto simp: fit_def Let_def split: if_splits option.splits vision.splits)

lemma settle_elapsed: "settle env now queue c e st = (f, q, st') \<Longrightarrow> cs_elapsed st' = cs_elapsed st"
  by (auto simp: settle_def Let_def split: prod.splits if_splits)

text \<open>What a run adds to the waits.\<close>

definition wait_cap :: "call_env \<Rightarrow> real" where
  "wait_cap env = real_of_int (max (rp_maxBackoffMs (ce_policy env)) (rp_retryAfterWaitCapMs (ce_policy env)))"

definition adds_wait :: "call_env \<Rightarrow> call_attempt list \<Rightarrow> real \<Rightarrow> call_state \<Rightarrow> bool" where
  "adds_wait env before elapsed st' \<longleftrightarrow>
     (\<exists>a. cs_attempts st' = before @ [a] \<and>
       (case at_backoff a of
          None \<Rightarrow> cs_elapsed st' = elapsed
        | Some wait \<Rightarrow> wait \<le> wait_cap env \<and> elapsed + wait \<le> RETRY_BUDGET_MS \<and> elapsed + wait \<le> cs_elapsed st'))"

lemma after_failure_waits:
  assumes a: "cs_attempts st = before @ [a]" "at_backoff a = None" and w: "0 \<le> w_overslept w n"
  shows "adds_wait env before (cs_elapsed st) (snd (snd (after_failure env w n queue c r h e st)))"
proof -
  obtain failover queue1 st1 where settle: "settle env (w_later w n) queue c e st = (failover, queue1, st1)"
    by (metis prod.exhaust)
  have st1: "cs_attempts st1 = before @ [a]" using settle_result(1) [OF settle] a(1) by simp
  have retry: "retry_wait env e r \<le> wait_cap env \<and> cs_elapsed st1 + retry_wait env e r \<le> RETRY_BUDGET_MS"
    if "may_retry env w n c e r h st1"
    using that by (auto simp: may_retry_def wait_cap_def split: if_splits)
  show ?thesis
    using a st1 w retry settle_elapsed [OF settle]
    by (auto simp: after_failure_def settle adds_wait_def decide_def Let_def)
qed

lemma failed_attempt_waits:
  assumes a: "cs_attempts st = before @ [a]" "at_backoff a = None" and w: "0 \<le> w_overslept w n"
  shows "adds_wait env before (cs_elapsed st) (snd (snd (failed_attempt env w n queue c r h e st)))"
proof -
  have "cs_attempts (set_attempt (\<lambda>a. a\<lparr>at_error := Some e\<rparr>) st) = before @ [a\<lparr>at_error := Some e\<rparr>]"
    using a by simp
  from after_failure_waits [OF this _ w, of env queue c r h e] a show ?thesis
    by (auto simp: failed_attempt_def Let_def adds_wait_def decide_def split: option.split)
qed

lemma run_attempt_waits:
  assumes w: "0 \<le> w_overslept w n"
  shows "adds_wait env (cs_attempts st) (cs_elapsed st) (snd (snd (run_attempt env w n queue c r h st)))"
proof -
  let ?a = "\<lparr>at_candidate = c, at_error = None, at_decision = DStop, at_backoff = None\<rparr>"
  let ?st = "note_others (w_notes w n) (apply_ops (w_attempt_ops w n) (start_attempt c st))"
  have st: "cs_attempts ?st = cs_attempts st @ [?a]" by (simp add: start_attempt_def)
  show ?thesis
  proof (cases "w_attempt w n c (alternatives_left env (w_now w n) queue r (start_attempt c st))")
    case (Failed e)
    with failed_attempt_waits [OF st _ w, of env queue c r h e] show ?thesis by (simp add: run_attempt_def Let_def)
  next
    case (Published e a)
    with st show ?thesis by (cases e) (auto simp: run_attempt_def Let_def decide_def adds_wait_def)
  next
    case Throws
    with st show ?thesis by (auto simp: run_attempt_def Let_def adds_wait_def)
  qed
qed

definition waits_ok :: "call_env \<Rightarrow> call_state \<Rightarrow> bool" where
  "waits_ok env st \<longleftrightarrow>
     waited (cs_attempts st) \<le> cs_elapsed st \<and> waited (cs_attempts st) \<le> RETRY_BUDGET_MS \<and>
     (\<forall>a \<in> set (cs_attempts st). \<forall>wait. at_backoff a = Some wait \<longrightarrow> wait \<le> wait_cap env)"

lemma try_step_waits:
  assumes ok: "waits_ok env st" and step: "try_step env w queue c r h st = (nx, queue', st')"
    and time: "\<forall>n. 0 \<le> w_took w n \<and> 0 \<le> w_overslept w n"
  shows "waits_ok env st'"
proof -
  have took: "0 \<le> w_took w (cs_step st)" using time by blast
  from step show ?thesis
  proof (cases rule: try_stepE)
    case (Tried c' st1 st2)
    then have "cs_attempts st2 = cs_attempts st" "cs_elapsed st2 = cs_elapsed st + w_took w (cs_step st)"
      using fit_attempts fit_elapsed asked_elapsed by (simp, metis)
    with run_attempt_waits [of w "cs_step st" env st2 queue c' r h] Tried(4) time
    have "adds_wait env (cs_attempts st) (cs_elapsed st + w_took w (cs_step st)) st'" by simp
    then show ?thesis
      using ok took by (auto simp: adds_wait_def waits_ok_def the_or_def split: option.splits)
  next
    case (Skipped e st1 st2)
    then have "cs_elapsed st' = cs_elapsed st + w_took w (cs_step st)" "cs_attempts st' = cs_attempts st"
      using fit_attempts fit_elapsed asked_elapsed by auto
    with ok took show ?thesis by (simp add: waits_ok_def)
  next
    case (Blocked reason until l st1)
    then have "cs_elapsed st' = cs_elapsed st + w_took w (cs_step st)" "cs_attempts st' = cs_attempts st"
      using asked_elapsed by auto
    with ok took show ?thesis by (simp add: waits_ok_def)
  qed (use ok took in \<open>simp add: waits_ok_def begun_def\<close>)
qed

text \<open>
  C37: the waits of one call, all together, never pass its budget of thirty seconds, and none of them
  is longer than the policy's caps, whatever waits the vendors ask for (a timer never fires early).
\<close>

theorem waits_stay_in_budget:
  assumes "\<forall>n. 0 \<le> w_took w n \<and> 0 \<le> w_overslept w n"
    and "routeCall env w candidates (start_call br refusals raw patches) = (out, st)"
  shows "waited (cs_attempts st) \<le> 30000 \<and>
    (\<forall>a \<in> set (cs_attempts st). \<forall>wait. at_backoff a = Some wait \<longrightarrow> wait \<le> wait_cap env)"
proof -
  let ?start = "start_call br refusals raw patches"
  have "(\<lambda>out st. waits_ok env st) (fst (route_loop env w None candidates ?start))
      (snd (route_loop env w None candidates ?start))"
  proof (rule route_loop_rule [where I = "\<lambda>cur queue st. waits_ok env st"])
    show "waits_ok env ?start" by (simp add: waits_ok_def start_call_def waited_def RETRY_BUDGET_MS_def)
  qed (auto dest: try_step_waits [OF _ _ assms(1)])
  with assms(2) show ?thesis by (simp add: routeCall_def waits_ok_def RETRY_BUDGET_MS_def)
qed

end
