(* ===== verification/CallAnswers.thy ===== *)
theory CallAnswers
  imports CallLimits
begin

text \<open>
  A call that can be answered is: the first candidate of the plan that answers serves it. A call that is
  worked through step by step is the witness of the properties of calls.
\<close>

section \<open>Breakers that know nothing of a candidate\<close>

definition unknown :: "breakers \<Rightarrow> candidate \<Rightarrow> bool" where
  "unknown br c \<longleftrightarrow> jget (br_states br) (credentialKey c) = None \<and> jget (br_marks br) (markKey c) = None"

lemma unknown_admit: "unknown br c \<Longrightarrow> admit c keyId now br = (Admitted, br)"
  by (simp add: unknown_def admit_def markFor_def)

lemma unknown_blocked: "unknown br c \<Longrightarrow> \<not> blocked c keyId now br"
  by (simp add: unknown_def blocked_def markFor_def)

lemma unknown_failure:
  assumes "unknown br c" "credentialKey d \<noteq> credentialKey c" "markKey d \<noteq> markKey c"
  shows "unknown (failure d effect fl errorClass keyId now br) c"
  using assms
  by (cases effect)
    (auto simp: unknown_def failure_def rest_def release_def set_mark_def put_state_def open_breaker_def
      report_change_def Let_def split: option.split)

section \<open>The first answer\<close>

text \<open>A failure that goes on to the next candidate and asks nothing else of the call.\<close>

definition passes_on :: "call_env \<Rightarrow> attempt_error \<Rightarrow> bool" where
  "passes_on env e \<longleftrightarrow>
     cl_failover (classify (ce_parse env) e) \<and> ae_phase e \<noteq> PCancelled \<and> ae_floor e = None \<and>
     ae_kind e \<noteq> Some KPolicy \<and> ae_kind e \<noteq> Some KShape"

text \<open>A world in which only the attempts matter: no abort, no images, nothing skipped, no other calls.\<close>

definition plain_world :: "world \<Rightarrow> bool" where
  "plain_world w \<longleftrightarrow>
     (\<forall>n c. \<not> w_aborted w n \<and> \<not> w_vision w n c \<and> w_prepare w n c = None \<and> w_attempt_ops w n = [])"

lemma plain_fit: "plain_world w \<Longrightarrow> fit env w n c st = (Inr (fit_mode env w c), st)"
  by (simp add: fit_def plain_world_def)

lemma fit_mode_same: "same_candidate (fit_mode env w c) c"
  by (simp add: fit_mode_def same_candidate_def translated_def Let_def)

lemma same_mark: "same_candidate c' c \<Longrightarrow> markKey c' = markKey c"
  by (auto simp: same_candidate_def translated_def markKey_def credentialKey_def)

lemma plain_tried:
  assumes "plain_world w" "attempts_left env st" "unknown (cs_breakers st) c"
  shows "try_step env w queue c 0 0 st =
    run_attempt env w (cs_step st) queue (fit_mode env w c) 0 0 (begun w st)"
  using assms unknown_admit [OF assms(3)]
  by (simp add: try_step_def Let_def plain_fit attempts_left_def begun_def) (simp add: plain_world_def)

lemma pass_on_leaves:
  assumes w: "plain_world w" and env: "ce_protocol env \<noteq> Responses"
    and e: "w_attempt w n c (alternatives_left env (w_now w n) queue 0 (start_attempt c st)) = Failed e" "passes_on env e"
    and left: "int (length (cs_attempts st)) + 1 < rp_totalAttempts (ce_policy env)"
    and next_one: "d \<in> set queue" "unknown (cs_breakers st) d" "credentialKey d \<noteq> credentialKey c" "markKey d \<noteq> markKey c"
    and readable: "cs_unreadable st = []"
  shows "\<exists>st'. run_attempt env w n queue c 0 0 st = (Leave, queue, st') \<and> cs_unreadable st' = [] \<and>
    length (cs_attempts st') = Suc (length (cs_attempts st)) \<and>
    (\<exists>effect fl errorClass now. cs_breakers st' =
       failure c effect fl errorClass (ce_keyId env) now (cs_breakers st))"
proof -
  let ?verdict = "classify (ce_parse env) e"
  let ?st1 = "set_attempt (\<lambda>a. a\<lparr>at_error := Some e\<rparr>)
    (note_others (w_notes w n) (apply_ops (w_attempt_ops w n) (start_attempt c st)))"
  let ?br = "failure c (cl_breaker ?verdict) (ae_failure e) (ae_class e) (ce_keyId env) (w_later w n) (cs_breakers st)"
  let ?st2 = "?st1\<lparr>cs_breakers := ?br, cs_last := Some e\<rparr>"
  have ops: "w_attempt_ops w n = []" using w by (simp add: plain_world_def)
  have fields: "cs_unreadable ?st1 = []" "cs_breakers ?st1 = cs_breakers st"
      "length (cs_attempts ?st1) = Suc (length (cs_attempts st))"
    using readable by (simp_all add: set_attempt_def note_others_def apply_ops_def start_attempt_def ops)
  have settle: "settle env (w_later w n) queue c e ?st1 = (True, queue, ?st2)"
    using e(2) fields(1,2) by (simp add: settle_def passes_on_def Let_def)
  have "unknown ?br d" using next_one by (intro unknown_failure) auto
  then have "others env (w_later w n) ?st2 queue"
    using next_one(1) fields(1) unknown_blocked [of ?br d] by (auto simp: others_def list_ex_iff)
  moreover have "attempts_left env ?st2" using left fields(3) by (simp add: attempts_left_def)
  ultimately have "run_attempt env w n queue c 0 0 st = (Leave, queue, decide DFailover ?st2)"
    using e env
    by (simp add: run_attempt_def failed_attempt_def after_failure_def settle resealed_def floor_for_def
        passes_on_def Let_def)
  moreover have "length (cs_attempts (decide DFailover ?st2)) = Suc (length (cs_attempts st))"
    using fields(3) by (simp add: decide_def set_attempt_def)
  ultimately show ?thesis
    using fields(1) by (intro exI [of _ "decide DFailover ?st2"]) (auto simp: decide_def set_attempt_def)
qed

lemma answered_run:
  assumes "plain_world w" "w_attempt w n c (alternatives_left env (w_now w n) queue 0 (start_attempt c st)) = Published None a"
  shows "\<exists>st'. run_attempt env w n queue c 0 0 st = (Done (Answered c a), queue, st') \<and>
    length (cs_attempts st') = Suc (length (cs_attempts st))"
  using assms
  by (auto simp: run_attempt_def Let_def decide_def set_attempt_def note_others_def apply_ops_def start_attempt_def)

text \<open>The plan up to the candidate that answers.\<close>

definition answers_after :: "call_env \<Rightarrow> world \<Rightarrow> candidate list \<Rightarrow> candidate \<Rightarrow> bool" where
  "answers_after env w before c \<longleftrightarrow>
     (\<forall>d \<in> set before. \<forall>n b d'. same_candidate d' d \<longrightarrow> (\<exists>e. w_attempt w n d' b = Failed e \<and> passes_on env e)) \<and>
     (\<forall>n b c'. same_candidate c' c \<longrightarrow> (\<exists>a. w_attempt w n c' b = Published None a))"

definition unknown_plan :: "breakers \<Rightarrow> candidate list \<Rightarrow> bool" where
  "unknown_plan br candidates \<longleftrightarrow>
     distinct (map credentialKey candidates) \<and> distinct (map markKey candidates) \<and>
     (\<forall>c \<in> set candidates. unknown br c)"

lemma unknown_plan_tail:
  assumes "unknown_plan br (d # candidates)" "same_candidate d' d"
  shows "unknown_plan (failure d' effect fl errorClass keyId now br) candidates"
proof -
  have "unknown (failure d' effect fl errorClass keyId now br) c" if "c \<in> set candidates" for c
    using assms(1) that same_key [OF assms(2)] same_mark [OF assms(2)]
    by (intro unknown_failure) (auto simp: unknown_plan_def)
  with assms(1) show ?thesis by (simp add: unknown_plan_def)
qed

lemma reaches_answer:
  assumes w: "plain_world w" and env: "ce_protocol env \<noteq> Responses"
  shows "answers_after env w before c \<Longrightarrow> unknown_plan (cs_breakers st) (before @ c # after) \<Longrightarrow>
    int (length (cs_attempts st) + length before) < rp_totalAttempts (ce_policy env) \<Longrightarrow> cs_unreadable st = [] \<Longrightarrow>
    \<exists>c' a st'. route_loop env w None (before @ c # after) st = (Answered c' a, st') \<and> same_candidate c' c \<and>
      length (cs_attempts st') = length (cs_attempts st) + length before + 1"
proof (induction before arbitrary: st)
  case Nil
  let ?c = "fit_mode env w c" and ?n = "cs_step st"
  have left: "attempts_left env st" using Nil.prems(3) by (simp add: attempts_left_def)
  obtain a where "w_attempt w ?n ?c (alternatives_left env (w_now w ?n) after 0 (start_attempt ?c (begun w st))) = Published None a"
    using Nil.prems(1) fit_mode_same by (meson answers_after_def)
  from answered_run [OF w this] obtain st' where
    "run_attempt env w ?n after ?c 0 0 (begun w st) = (Done (Answered ?c a), after, st')"
    "length (cs_attempts st') = Suc (length (cs_attempts st))" by (auto simp: begun_def)
  with plain_tried [OF w left] Nil.prems(2,4) fit_mode_same show ?case by (auto simp: unknown_plan_def)
next
  case (Cons d before)
  let ?d = "fit_mode env w d" and ?n = "cs_step st" and ?queue = "before @ c # after"
  have left: "attempts_left env st" using Cons.prems(3) by (simp add: attempts_left_def)
  obtain e where e: "w_attempt w ?n ?d (alternatives_left env (w_now w ?n) ?queue 0 (start_attempt ?d (begun w st))) = Failed e"
      "passes_on env e"
    using Cons.prems(1) fit_mode_same by (metis answers_after_def list.set_intros(1))
  have "credentialKey c \<noteq> credentialKey ?d" "markKey c \<noteq> markKey ?d" "unknown (cs_breakers st) c"
    using Cons.prems(2) same_key [OF fit_mode_same] same_mark [OF fit_mode_same] by (auto simp: unknown_plan_def)
  with pass_on_leaves [OF w env e, of c] Cons.prems(3,4)
  obtain st' effect fl errorClass now where st':
    "run_attempt env w ?n ?queue ?d 0 0 (begun w st) = (Leave, ?queue, st')" "cs_unreadable st' = []"
    "length (cs_attempts st') = Suc (length (cs_attempts st))"
    "cs_breakers st' = failure ?d effect fl errorClass (ce_keyId env) now (cs_breakers st)"
    by (fastforce simp: begun_def)
  have "unknown_plan (cs_breakers st') ?queue"
    unfolding st'(4) using unknown_plan_tail [OF _ fit_mode_same] Cons.prems(2) by simp
  moreover have "answers_after env w before c" using Cons.prems(1) by (simp add: answers_after_def)
  ultimately obtain c' a st'' where
    "route_loop env w None ?queue st' = (Answered c' a, st'')" "same_candidate c' c"
    "length (cs_attempts st'') = length (cs_attempts st) + length (d # before) + 1"
    using Cons.IH [of st'] Cons.prems(3) st'(2,3) by auto
  with plain_tried [OF w left] st'(1) Cons.prems(2,4) show ?case by (auto simp: unknown_plan_def)
qed

text \<open>
  In an undisturbed call (no images, no search, no abort, no other calls, nothing skipped) of another
  protocol than Responses, over a plan of distinct credentials none of which rests: when every candidate
  before one that answers fails with a failure that goes on to the next (of no policy, shape or floor), and
  they are fewer than the attempts a call has, then the call ends with that candidate's answer, after
  exactly one attempt on each.
\<close>

theorem first_answer_serves:
  assumes "plain_world w" "ce_protocol env \<noteq> Responses" "answers_after env w before c"
    and "unknown_plan br (before @ c # after)" "int (length before) < rp_totalAttempts (ce_policy env)"
  shows "\<exists>c' a st. routeCall env w (before @ c # after) (start_call br refusals raw patches) = (Answered c' a, st) \<and>
    same_candidate c' c \<and> length (cs_attempts st) = length before + 1"
  using reaches_answer [OF assms(1-3), of "start_call br refusals raw patches" after] assms(4,5)
  by (simp add: routeCall_def start_call_def)

section \<open>A call worked through\<close>

text \<open>Three candidates of one provider: the first cannot be reached, the others answer.\<close>

definition call_candidate :: "string \<Rightarrow> candidate" where
  "call_candidate name = demo_candidate\<lparr>ca_credential := (ca_credential demo_candidate)\<lparr>c_id := js name\<rparr>\<rparr>"

definition unreachable :: attempt_error where
  "unreachable = (localError 502 ''upstream_unreachable'' [])\<lparr>ae_source := FromUpstream, ae_phase := PConnect\<rparr>"

definition demo_env :: call_env where
  "demo_env = \<lparr>ce_policy = retryPolicy None, ce_keyId = Some (js ''k''), ce_protocol = Chat, ce_parse = (\<lambda>_. None),
     ce_host = (\<lambda>_. None), ce_unserved = [], ce_vision_text = (\<lambda>_ _. []), ce_conversation = None,
     ce_requested = js ''m'', ce_compact = False\<rparr>"

definition demo_answer :: answered where
  "demo_answer = \<lparr>an_tokens = 10, an_firstContentMs = None, an_cacheRead = 0\<rparr>"

definition demo_world :: world where
  "demo_world = \<lparr>w_aborted = (\<lambda>_. False), w_now = real, w_search = (\<lambda>_. False), w_vision = (\<lambda>_ _. False),
     w_describe = (\<lambda>_. Described), w_vision_ops = (\<lambda>_. []), w_prepare = (\<lambda>_ _. None), w_body = (\<lambda>_ _. []),
     w_attempt = (\<lambda>_ c _. if c_id (ca_credential c) = js ''a'' then Failed unreachable
       else Published None demo_answer),
     w_attempt_ops = (\<lambda>_. []), w_notes = (\<lambda>_. []), w_later = real, w_took = (\<lambda>_. 5), w_overslept = (\<lambda>_. 1),
     w_sleeps = (\<lambda>_. True), w_sleep_ops = (\<lambda>_. []), w_disconnected = (\<lambda>_. False)\<rparr>"

definition demo_start :: call_state where
  "demo_start = start_call new_breakers [] [] []"

abbreviation demo_plan :: "candidate list" where
  "demo_plan \<equiv> [call_candidate ''a'', call_candidate ''b'', call_candidate ''c'']"

lemma demo_plain: "plain_world demo_world"
  by (simp add: plain_world_def demo_world_def)

lemma demo_passes: "passes_on demo_env unreachable"
  by (simp add: passes_on_def unreachable_def localError_def classify_def classifyAs_def fails_over_def)

lemma demo_answers: "answers_after demo_env demo_world [call_candidate ''a''] (call_candidate ''b'')"
  using demo_passes
  by (auto simp: answers_after_def demo_world_def same_candidate_def translated_def call_candidate_def)

lemma demo_unknown: "unknown_plan new_breakers demo_plan"
  by (simp add: unknown_plan_def unknown_def new_breakers_def call_candidate_def credentialKey_def markKey_def)

theorem first_answer_serves_witness:
  "\<exists>c' a st. routeCall demo_env demo_world demo_plan demo_start = (Answered c' a, st) \<and>
    same_candidate c' (call_candidate ''b'') \<and> length (cs_attempts st) = 2"
  using first_answer_serves [OF demo_plain _ demo_answers, of new_breakers "[call_candidate ''c'']" "[]" "[]" "[]"]
    demo_unknown
  by (simp add: demo_start_def demo_env_def retryPolicy_def DEFAULT_RETRY_POLICY_def numeral_2_eq_2)

theorem attempts_are_justified_witness:
  "length (cs_attempts (snd (routeCall demo_env demo_world demo_plan (start_call new_breakers [] [] [])))) \<le> 8"
  using attempts_are_justified [of demo_env None demo_world demo_plan new_breakers "[]" "[]" "[]"]
  by (metis demo_env_def call_env.select_convs(1) prod.collapse)

theorem waits_stay_in_budget_witness:
  "waited (cs_attempts (snd (routeCall demo_env demo_world demo_plan (start_call new_breakers [] [] [])))) \<le> 30000"
  using waits_stay_in_budget [of demo_world demo_env demo_plan new_breakers "[]" "[]" "[]"
    "fst (routeCall demo_env demo_world demo_plan (start_call new_breakers [] [] []))"]
  by (simp add: demo_world_def)

text \<open>A credential whose rest is over: the call takes its probe and gives it back.\<close>

definition rested :: breakers where
  "rested = failure (call_candidate ''b'') (Cooldown 1000) (ae_failure unreachable) (js ''rate_limited'') None (-5000) new_breakers"

lemma rested_circuit: "circuit rested (credentialKey (call_candidate ''b'')) = Open (-4000) 0"
  by (simp add: rested_def cooldown_circuit rest_time_def PROVISIONAL_MS_def)

lemma never_throws:
  assumes "\<forall>n c b. w_attempt w n c b \<noteq> Throws"
  shows "fst (routeCall env w candidates st) \<noteq> Threw"
proof -
  have "(\<lambda>out st. out \<noteq> Threw) (fst (route_loop env w None candidates st)) (snd (route_loop env w None candidates st))"
  proof (rule route_loop_rule [where I = "\<lambda>_ _ _. True"])
    fix c r h queue st out queue' st'
    assume "try_step env w queue c r h st = (Done out, queue', st')"
    then show "out \<noteq> Threw"
      using assms
      by (cases rule: try_stepE)
        (auto simp: run_attempt_def failed_attempt_def after_failure_def Let_def
          split: attempt_result.splits option.splits prod.splits if_splits)
  qed (auto simp: finish_def)
  then show ?thesis by (simp add: routeCall_def)
qed

theorem probes_are_given_back_witness:
  "circuit rested (credentialKey (call_candidate ''b'')) = Open (-4000) 0 \<and>
   circuit (cs_breakers (snd (routeCall demo_env demo_world demo_plan (start_call rested [] [] []))))
     (credentialKey (call_candidate ''b'')) \<noteq> HalfOpen True"
proof
  show "circuit rested (credentialKey (call_candidate ''b'')) = Open (-4000) 0" by (rule rested_circuit)
  have alone: "alone demo_world k" for k by (simp add: alone_def demo_world_def leaves_alone_def)
  have "fst (routeCall demo_env demo_world demo_plan (start_call rested [] [] [])) \<noteq> Threw"
    by (rule never_throws) (simp add: demo_world_def)
  with probes_are_given_back [OF alone _ prod.collapse [symmetric], of rested "credentialKey (call_candidate ''b'')"
    demo_env demo_plan "[]" "[]" "[]"]
  show "circuit (cs_breakers (snd (routeCall demo_env demo_world demo_plan (start_call rested [] [] []))))
      (credentialKey (call_candidate ''b'')) \<noteq> HalfOpen True"
    by (simp add: rested_circuit)
qed

text \<open>
  An attempt that throws (such as one whose answer has a reset outside the dates, \<open>observe_throws\<close>)
  leaves the probe out: the credential is refused from then on, until its rests are lifted.
\<close>

lemma thrown_attempt_keeps_probe:
  assumes w: "plain_world w" "\<forall>n c b. w_attempt w n c b = Throws" and left: "attempts_left env st"
    and rest_over: "circuit (cs_breakers st) (credentialKey c) = Open until k" "until \<le> w_now w (cs_step st)"
      "markFor c (ce_keyId env) (w_now w (cs_step st)) (cs_breakers st) = None" "\<not> ref_changed c (cs_breakers st)"
  shows "\<exists>st'. route_loop env w (Some (c, 0, 0)) queue st = (Threw, st') \<and>
    circuit (cs_breakers st') (credentialKey c) = HalfOpen True"
proof -
  let ?now = "w_now w (cs_step st)" and ?br = "cs_breakers st"
  obtain ad br' where asked: "admit c (ce_keyId env) ?now ?br = (ad, br')" by fastforce
  have "ad = Admitted" using admit_circuit(1) [OF rest_over(3)] rest_over(1,2,4) asked by simp
  then have admitted: "admit c (ce_keyId env) ?now ?br = (Admitted, br')" using asked by simp
  have probe: "circuit br' (credentialKey c) = HalfOpen True"
    using admit_circuit(2) [OF rest_over(3)] rest_over(1,2,4) asked by simp
  have "try_step env w queue c 0 0 st =
      run_attempt env w (cs_step st) queue (fit_mode env w c) 0 0 ((begun w st)\<lparr>cs_breakers := br'\<rparr>)"
    using w(1) left by (simp add: try_step_def Let_def admitted plain_fit begun_def attempts_left_def)
      (simp add: plain_world_def)
  also have "\<dots> = (Done Threw, queue, note_others (w_notes w (cs_step st))
      (start_attempt (fit_mode env w c) ((begun w st)\<lparr>cs_breakers := br'\<rparr>)))"
    using w by (simp add: run_attempt_def Let_def plain_world_def apply_ops_def)
  finally show ?thesis using probe by simp
qed

end
