(* ===== verification/Slots.thy ===== *)
theory Slots
  imports Machines
begin

text \<open>
  Admission of upstream requests (\<open>class Slots\<close> and \<open>class MemoryBudget\<close> of
  \<open>packages/gateway/src/http.ts\<close>): a number of slots, a queue, and a slot that comes free going to the
  waiting call of the owner that holds the fewest.

  A waiting call is its owner and a ticket in place of the promise's closure; \<open>sl_admitted\<close> logs the
  tickets whose promise was resolved. A call that is aborted or waited too long leaves by its ticket.
\<close>

record slots =
  sl_limit :: nat
  sl_queue :: nat
  sl_active :: nat
  sl_held :: "(jstring, nat) jmap"
  sl_waiting :: "(jstring \<times> nat) list"
  sl_tickets :: nat
  sl_admitted :: "nat list"

definition new_slots :: "nat \<Rightarrow> nat \<Rightarrow> slots" where
  "new_slots limit queue = \<lparr>sl_limit = limit, sl_queue = queue, sl_active = 0, sl_held = [], sl_waiting = [],
     sl_tickets = 0, sl_admitted = []\<rparr>"

definition slots_load :: "slots \<Rightarrow> nat" where
  "slots_load s = sl_active s + length (sl_waiting s)"

definition held_by :: "jstring \<Rightarrow> slots \<Rightarrow> nat" where
  "held_by owner s = (case jget (sl_held s) owner of Some n \<Rightarrow> n | None \<Rightarrow> 0)"

text \<open>\<open>#hold\<close> with 1 and with -1.\<close>

definition hold_slot :: "jstring \<Rightarrow> slots \<Rightarrow> slots" where
  "hold_slot owner s = s\<lparr>sl_held := jset owner (held_by owner s + 1) (sl_held s)\<rparr>"

definition drop_hold :: "jstring \<Rightarrow> slots \<Rightarrow> slots" where
  "drop_hold owner s =
     s\<lparr>sl_held := (if held_by owner s > 1 then jset owner (held_by owner s - 1) (sl_held s)
        else jdelete owner (sl_held s))\<rparr>"

text \<open>\<open>#next\<close>: the place of the waiting call to admit, \<open>best\<close> being the place and the holds found so far.\<close>

fun fewest_from :: "slots \<Rightarrow> nat \<Rightarrow> (jstring \<times> nat) list \<Rightarrow> (nat \<times> nat) option \<Rightarrow> nat option" where
  "fewest_from s i [] best = map_option fst best"
| "fewest_from s i ((owner, ticket) # rest) best =
     fewest_from s (i + 1) rest
       (case best of
          Some (j, fewest) \<Rightarrow> if held_by owner s < fewest then Some (i, held_by owner s) else best
        | None \<Rightarrow> Some (i, held_by owner s))"

definition next_waiter :: "slots \<Rightarrow> nat option" where
  "next_waiter s = fewest_from s 0 (sl_waiting s) None"

definition remove_at :: "nat \<Rightarrow> 'a list \<Rightarrow> 'a list" where
  "remove_at i xs = take i xs @ drop (Suc i) xs"

text \<open>\<open>#admit\<close> of the waiting call at a place.\<close>

definition admit_waiter :: "nat \<Rightarrow> slots \<Rightarrow> slots" where
  "admit_waiter i s =
     (let (owner, ticket) = sl_waiting s ! i
      in (hold_slot owner (s\<lparr>sl_waiting := remove_at i (sl_waiting s)\<rparr>))\<lparr>sl_admitted := sl_admitted s @ [ticket]\<rparr>)"

function admit_while :: "slots \<Rightarrow> slots" where
  "admit_while s =
     (if sl_active s < sl_limit s then
        (case next_waiter s of
           Some i \<Rightarrow> admit_while (admit_waiter i (s\<lparr>sl_active := sl_active s + 1\<rparr>))
         | None \<Rightarrow> s)
      else s)"
  by pat_completeness auto

lemma admit_waiter_fields [simp]:
  "sl_limit (admit_waiter i s) = sl_limit s"
  "sl_queue (admit_waiter i s) = sl_queue s"
  "sl_active (admit_waiter i s) = sl_active s"
  "sl_tickets (admit_waiter i s) = sl_tickets s"
  "sl_waiting (admit_waiter i s) = remove_at i (sl_waiting s)"
  by (simp_all add: admit_waiter_def hold_slot_def split: prod.split)

termination admit_while
  by (relation "measure (\<lambda>s. sl_limit s - sl_active s)") auto

declare admit_while.simps [simp del]

definition configure :: "nat \<Rightarrow> nat \<Rightarrow> slots \<Rightarrow> slots" where
  "configure limit queue s = admit_while (s\<lparr>sl_limit := limit, sl_queue := queue\<rparr>)"

datatype acquired = Taken | Busy | Waits nat

definition acquire :: "jstring \<Rightarrow> slots \<Rightarrow> acquired \<times> slots" where
  "acquire owner s =
     (if sl_active s < sl_limit s then (Taken, hold_slot owner (s\<lparr>sl_active := sl_active s + 1\<rparr>))
      else if length (sl_waiting s) \<ge> sl_queue s then (Busy, s)
      else (Waits (sl_tickets s),
        s\<lparr>sl_waiting := sl_waiting s @ [(owner, sl_tickets s)], sl_tickets := sl_tickets s + 1\<rparr>))"

definition leave_queue :: "nat \<Rightarrow> slots \<Rightarrow> slots" where
  "leave_queue ticket s = s\<lparr>sl_waiting := filter (\<lambda>w. snd w \<noteq> ticket) (sl_waiting s)\<rparr>"

definition release_slot :: "jstring \<Rightarrow> slots \<Rightarrow> slots" where
  "release_slot owner s =
     (let s = drop_hold owner s
      in case (if sl_active s \<le> sl_limit s then next_waiter s else None) of
           Some i \<Rightarrow> admit_waiter i s
         | None \<Rightarrow> s\<lparr>sl_active := sl_active s - 1\<rparr>)"

section \<open>Who is admitted\<close>

lemma held_after [simp]:
  "held_by owner (hold_slot other s) = held_by owner s + (if owner = other then 1 else 0)"
  "held_by owner (drop_hold other s) = held_by owner s - (if owner = other then 1 else 0)"
  "held_by owner (s\<lparr>sl_active := n\<rparr>) = held_by owner s"
  "held_by owner (s\<lparr>sl_waiting := w\<rparr>) = held_by owner s"
  "held_by owner (s\<lparr>sl_admitted := t\<rparr>) = held_by owner s"
  by (auto simp: held_by_def hold_slot_def drop_hold_def split: option.split)

lemma hold_fields [simp]:
  "sl_waiting (hold_slot owner s) = sl_waiting s" "sl_waiting (drop_hold owner s) = sl_waiting s"
  "sl_active (hold_slot owner s) = sl_active s" "sl_active (drop_hold owner s) = sl_active s"
  "sl_limit (hold_slot owner s) = sl_limit s" "sl_limit (drop_hold owner s) = sl_limit s"
  "sl_queue (hold_slot owner s) = sl_queue s" "sl_queue (drop_hold owner s) = sl_queue s"
  "sl_tickets (hold_slot owner s) = sl_tickets s" "sl_tickets (drop_hold owner s) = sl_tickets s"
  by (simp_all add: hold_slot_def drop_hold_def)

definition holds_of :: "slots \<Rightarrow> jstring \<times> nat \<Rightarrow> nat" where
  "holds_of s w = held_by (fst w) s"

text \<open>The first place of the least value.\<close>

definition first_least :: "('a \<Rightarrow> nat) \<Rightarrow> 'a list \<Rightarrow> nat \<Rightarrow> bool" where
  "first_least f xs j \<longleftrightarrow>
     j < length xs \<and> (\<forall>k < length xs. f (xs ! j) \<le> f (xs ! k)) \<and> (\<forall>k < j. f (xs ! j) < f (xs ! k))"

lemma first_least_snoc:
  "first_least f xs j \<Longrightarrow> first_least f (xs @ [x]) (if f x < f (xs ! j) then length xs else j)"
  by (fastforce simp: first_least_def nth_append less_Suc_eq)

lemma fewest_from_least:
  assumes "case best of Some (j, n) \<Rightarrow> first_least (holds_of s) before j \<and> n = holds_of s (before ! j) | None \<Rightarrow> before = []"
  shows "case fewest_from s (length before) ws best of
      Some j \<Rightarrow> first_least (holds_of s) (before @ ws) j | None \<Rightarrow> before @ ws = []"
  using assms
proof (induction ws arbitrary: before best)
  case Nil
  then show ?case by (auto split: option.splits)
next
  case (Cons w ws)
  obtain owner ticket where w: "w = (owner, ticket)" by (cases w)
  let ?h = "held_by owner s"
  let ?best = "case best of Some (j, fewest) \<Rightarrow> if ?h < fewest then Some (length before, ?h) else best
    | None \<Rightarrow> Some (length before, ?h)"
  have "case ?best of Some (j, n) \<Rightarrow> first_least (holds_of s) (before @ [w]) j \<and> n = holds_of s ((before @ [w]) ! j)
      | None \<Rightarrow> before @ [w] = []"
  proof (cases best)
    case None
    with Cons.prems show ?thesis by (simp add: first_least_def holds_of_def w)
  next
    case (Some b)
    obtain j n where b: "b = (j, n)" by (cases b)
    with Cons.prems Some have least: "first_least (holds_of s) before j" "n = holds_of s (before ! j)" by simp_all
    then have "j < length before" by (simp add: first_least_def)
    moreover have "holds_of s w = ?h" by (simp add: holds_of_def w)
    ultimately show ?thesis
      using first_least_snoc [OF least(1), of w] least Some b by (auto simp: nth_append split: if_splits)
  qed
  moreover have "fewest_from s (length before) (w # ws) best = fewest_from s (length (before @ [w])) ws ?best"
    by (simp add: w)
  ultimately show ?case using Cons.IH [where best = ?best and before = "before @ [w]"] by (simp only: append_assoc append_Cons append_Nil)
qed

lemma next_waiter_least:
  "next_waiter s = Some i \<Longrightarrow> first_least (holds_of s) (sl_waiting s) i"
  "next_waiter s = None \<longleftrightarrow> sl_waiting s = []"
  using fewest_from_least [where best = None and before = "[]" and s = s and ws = "sl_waiting s"]
  by (auto simp: next_waiter_def split: option.splits)

section \<open>Sequences of operations\<close>

text \<open>A call gives back a slot only while it holds one: \<open>release\<close> is the \<open>finally\<close> of \<open>acquire\<close>.\<close>

datatype slot_op = Acquire jstring | Give jstring | Leaves nat | Configure nat nat

fun slot_step :: "slot_op \<Rightarrow> slots \<Rightarrow> acquired option \<times> slots" where
  "slot_step (Acquire owner) s = (Some (fst (acquire owner s)), snd (acquire owner s))"
| "slot_step (Give owner) s = (None, if held_by owner s = 0 then s else release_slot owner s)"
| "slot_step (Leaves ticket) s = (None, leave_queue ticket s)"
| "slot_step (Configure limit queue) s = (None, configure limit queue s)"

text \<open>Every slot out is held by an owner, none is free while a call waits, and no ticket waits twice.\<close>

definition slots_ok :: "slots \<Rightarrow> bool" where
  "slots_ok s \<longleftrightarrow>
     jwf (sl_held s) \<and> (\<forall>e \<in> set (sl_held s). 0 < snd e) \<and>
     sum_list (map snd (sl_held s)) = sl_active s \<and>
     (sl_active s < sl_limit s \<longrightarrow> sl_waiting s = []) \<and>
     distinct (map snd (sl_waiting s)) \<and> (\<forall>w \<in> set (sl_waiting s). snd w < sl_tickets s)"

definition holds_ok :: "slots \<Rightarrow> bool" where
  "holds_ok s \<longleftrightarrow> jwf (sl_held s) \<and> (\<forall>e \<in> set (sl_held s). 0 < snd e)"

lemma hold_ok: "holds_ok s \<Longrightarrow> holds_ok (hold_slot owner s) \<and>
    sum_list (map snd (sl_held (hold_slot owner s))) = sum_list (map snd (sl_held s)) + 1"
proof -
  assume ok: "holds_ok s"
  have "\<forall>e \<in> set (jset owner (held_by owner s + 1) (sl_held s)). 0 < snd e"
    using ok set_jset_sub [of owner "held_by owner s + 1" "sl_held s"] by (auto simp: holds_ok_def)
  with ok sum_jset [where m = "sl_held s" and k = owner and v = "held_by owner s + 1" and f = id] show ?thesis
    by (auto simp: holds_ok_def hold_slot_def held_by_def split: option.splits)
qed

lemma drop_ok:
  assumes ok: "holds_ok s" and held: "held_by owner s \<noteq> 0"
  shows "holds_ok (drop_hold owner s) \<and>
    sum_list (map snd (sl_held (drop_hold owner s))) + 1 = sum_list (map snd (sl_held s))"
proof -
  obtain n where n: "jget (sl_held s) owner = Some n" "held_by owner s = n" "0 < n"
    using held by (auto simp: held_by_def split: option.splits)
  have "\<forall>e \<in> set (jset owner (n - 1) (sl_held s)). 0 < snd e" if "n > 1"
    using ok that set_jset_sub [of owner "n - 1" "sl_held s"] by (auto simp: holds_ok_def)
  moreover have "\<forall>e \<in> set (jdelete owner (sl_held s)). 0 < snd e"
    using ok by (auto simp: holds_ok_def jdelete_def)
  ultimately show ?thesis
    using ok n sum_jset [where m = "sl_held s" and k = owner and v = "n - 1" and f = id] sum_jdelete [where m = "sl_held s" and k = owner and f = id]
    by (auto simp: holds_ok_def drop_hold_def)
qed

text \<open>The elementary changes keep the invariant; a call is admitted with its slot already counted.\<close>

definition queue_ok :: "slots \<Rightarrow> bool" where
  "queue_ok s \<longleftrightarrow> distinct (map snd (sl_waiting s)) \<and> (\<forall>w \<in> set (sl_waiting s). snd w < sl_tickets s)"

definition held_total :: "slots \<Rightarrow> nat" where
  "held_total s = sum_list (map snd (sl_held s))"

lemma slots_ok_iff:
  "slots_ok s \<longleftrightarrow> holds_ok s \<and> held_total s = sl_active s \<and>
     (sl_active s < sl_limit s \<longrightarrow> sl_waiting s = []) \<and> queue_ok s"
  by (auto simp: slots_ok_def holds_ok_def held_total_def queue_ok_def)

lemma set_remove_at: "set (remove_at i xs) \<subseteq> set xs"
  by (auto simp: remove_at_def dest: in_set_takeD in_set_dropD)

lemma length_remove_at: "i < length xs \<Longrightarrow> length (remove_at i xs) = length xs - 1"
  by (simp add: remove_at_def)

lemma map_remove_at: "map f (remove_at i xs) = remove_at i (map f xs)"
  by (simp add: remove_at_def take_map drop_map)

lemma distinct_remove_at: "distinct xs \<Longrightarrow> distinct (remove_at i xs)"
proof (induction xs arbitrary: i)
  case (Cons x xs)
  then show ?case using set_remove_at [of "i - 1" xs] by (cases i) (auto simp: remove_at_def)
qed (simp add: remove_at_def)

lemma admit_waiter_ok:
  assumes "holds_ok s" "queue_ok s"
  shows "holds_ok (admit_waiter i s)" "held_total (admit_waiter i s) = held_total s + 1" "queue_ok (admit_waiter i s)"
proof -
  obtain owner ticket where w: "sl_waiting s ! i = (owner, ticket)" by fastforce
  have held: "sl_held (admit_waiter i s) = sl_held (hold_slot owner s)"
    by (simp add: admit_waiter_def w hold_slot_def held_by_def)
  show "holds_ok (admit_waiter i s)" "held_total (admit_waiter i s) = held_total s + 1"
    using hold_ok [OF assms(1), of owner] by (simp_all add: holds_ok_def held_total_def held)
  show "queue_ok (admit_waiter i s)"
    using assms(2) distinct_remove_at [of "map snd (sl_waiting s)" i] set_remove_at [of i "sl_waiting s"] by (auto simp: queue_ok_def map_remove_at)
qed

lemma holds_ok_cong [simp]:
  "holds_ok (s\<lparr>sl_active := n\<rparr>) = holds_ok s" "holds_ok (s\<lparr>sl_waiting := ws\<rparr>) = holds_ok s"
  "holds_ok (s\<lparr>sl_limit := l, sl_queue := q\<rparr>) = holds_ok s"
  "held_total (s\<lparr>sl_active := n\<rparr>) = held_total s" "held_total (s\<lparr>sl_waiting := ws\<rparr>) = held_total s"
  "held_total (s\<lparr>sl_limit := l, sl_queue := q\<rparr>) = held_total s"
  "queue_ok (s\<lparr>sl_active := n\<rparr>) = queue_ok s" "queue_ok (s\<lparr>sl_limit := l, sl_queue := q\<rparr>) = queue_ok s"
  "queue_ok (hold_slot owner s) = queue_ok s" "queue_ok (drop_hold owner s) = queue_ok s"
  by (simp_all add: holds_ok_def held_total_def queue_ok_def)

lemma admit_while_ok:
  "holds_ok s \<Longrightarrow> queue_ok s \<Longrightarrow> held_total s = sl_active s \<Longrightarrow> slots_ok (admit_while s)"
proof (induction s rule: admit_while.induct)
  case (1 s)
  show ?case
  proof (cases "sl_active s < sl_limit s \<and> next_waiter s \<noteq> None")
    case True
    then obtain i where i: "sl_active s < sl_limit s" "next_waiter s = Some i" by blast
    with 1(1) [OF i] 1(2-4) show ?thesis by (subst admit_while.simps) (simp add: admit_waiter_ok)
  next
    case False
    with 1(2-4) next_waiter_least(2) [of s] show ?thesis
      by (subst admit_while.simps) (auto simp: slots_ok_iff split: option.split)
  qed
qed

lemma acquire_ok: "slots_ok s \<Longrightarrow> slots_ok (snd (acquire owner s))"
proof -
  assume ok: "slots_ok s"
  have "queue_ok (s\<lparr>sl_waiting := sl_waiting s @ [(owner, sl_tickets s)], sl_tickets := sl_tickets s + 1\<rparr>)"
    using ok by (auto simp: slots_ok_iff queue_ok_def intro: less_SucI)
  moreover have "holds_ok (hold_slot owner (s\<lparr>sl_active := n\<rparr>)) \<and> held_total (hold_slot owner (s\<lparr>sl_active := n\<rparr>)) = held_total s + 1" for n
    using hold_ok [of "s\<lparr>sl_active := n\<rparr>" owner] ok by (simp add: slots_ok_iff held_total_def)
  ultimately show ?thesis
    using ok by (auto simp: acquire_def slots_ok_iff holds_ok_def held_total_def)
qed

lemma release_ok: "slots_ok s \<Longrightarrow> held_by owner s \<noteq> 0 \<Longrightarrow> slots_ok (release_slot owner s)"
proof -
  assume ok: "slots_ok s" and held: "held_by owner s \<noteq> 0"
  have drop: "holds_ok (drop_hold owner s)" "held_total (drop_hold owner s) + 1 = held_total s"
    using drop_ok [OF _ held] ok by (simp_all add: slots_ok_iff held_total_def)
  have queue: "queue_ok (drop_hold owner s)" using ok by (simp add: slots_ok_iff)
  show ?thesis
    using ok drop queue next_waiter_least(2) [of "drop_hold owner s"]
    by (auto simp: release_slot_def Let_def slots_ok_iff admit_waiter_ok split: option.split)
qed

lemma leave_ok: "slots_ok s \<Longrightarrow> slots_ok (leave_queue ticket s)"
  by (auto simp: slots_ok_iff leave_queue_def queue_ok_def distinct_map_filter)

lemma configure_ok: "slots_ok s \<Longrightarrow> slots_ok (configure limit queue s)"
  unfolding configure_def by (rule admit_while_ok) (simp_all add: slots_ok_iff)

lemma new_limits [simp]: "sl_limit (new_slots limit queue) = limit" "sl_queue (new_slots limit queue) = queue"
  by (simp_all add: new_slots_def)

lemma new_ok: "slots_ok (new_slots limit queue)"
  by (simp add: slots_ok_def new_slots_def)

definition slot_move :: "slots \<Rightarrow> slots \<Rightarrow> bool" where
  "slot_move s s' \<longleftrightarrow> (\<exists>x. s' = snd (slot_step x s))"

interpretation sls: machine slot_step slot_move slots_ok
proof
  fix s s' assume "slots_ok s" "slot_move s s'"
  then obtain x where "slots_ok s" "s' = snd (slot_step x s)" by (auto simp: slot_move_def)
  then show "slots_ok s'" by (cases x) (auto simp: acquire_ok release_ok leave_ok configure_ok)
qed (auto simp: slot_move_def intro!: r_into_rtranclp)

text \<open>Within fixed limits neither the slots nor the queue are overrun.\<close>

definition within_limits :: "slots \<Rightarrow> bool" where
  "within_limits s \<longleftrightarrow> sl_active s \<le> sl_limit s \<and> length (sl_waiting s) \<le> sl_queue s"

fun reconfigures :: "slot_op \<Rightarrow> bool" where
  "reconfigures (Configure limit queue) = True"
| "reconfigures op = False"

lemma release_within:
  assumes "within_limits s"
  shows "within_limits (release_slot owner s)"
proof (cases "next_waiter (drop_hold owner s)")
  case None
  with assms show ?thesis by (auto simp: release_slot_def within_limits_def)
next
  case (Some i)
  then have "i < length (sl_waiting s)" using next_waiter_least(1) [OF Some] by (simp add: first_least_def)
  with assms Some show ?thesis by (auto simp: release_slot_def within_limits_def length_remove_at)
qed

lemma step_within:
  assumes "within_limits s" "\<not> reconfigures x"
  shows "within_limits (snd (slot_step x s)) \<and> sl_limit (snd (slot_step x s)) = sl_limit s \<and>
    sl_queue (snd (slot_step x s)) = sl_queue s"
proof (cases x)
  case (Give owner)
  have "sl_limit (release_slot owner s) = sl_limit s" "sl_queue (release_slot owner s) = sl_queue s"
    by (auto simp: release_slot_def Let_def split: option.split)
  with assms Give release_within show ?thesis by simp
next
  case (Leaves ticket)
  with assms show ?thesis by (auto simp: within_limits_def leave_queue_def intro: le_trans [OF length_filter_le])
qed (use assms in \<open>auto simp: acquire_def within_limits_def\<close>)

lemma run_within:
  "within_limits s \<Longrightarrow> list_all (\<lambda>x. \<not> reconfigures x) ops \<Longrightarrow>
   within_limits (run_ops slot_step ops s) \<and> sl_limit (run_ops slot_step ops s) = sl_limit s \<and>
   sl_queue (run_ops slot_step ops s) = sl_queue s"
proof (induction ops arbitrary: s)
  case (Cons x ops)
  then have "within_limits (snd (slot_step x s))" "sl_limit (snd (slot_step x s)) = sl_limit s"
    "sl_queue (snd (slot_step x s)) = sl_queue s" using step_within [of s x] by simp_all
  with Cons show ?case by simp
qed simp

text \<open>
  C38: whatever calls take, give back, wait for and leave slots, and however the limits are changed: the
  slots out are exactly those the owners hold, and none is free while a call waits. While the limits
  stay as they are, neither more slots are out than the limit nor more calls wait than the queue holds.
\<close>

theorem slots_are_used:
  "let s = run_ops slot_step ops (new_slots limit queue)
   in sum_list (map snd (sl_held s)) = sl_active s \<and>
     (sl_active s < sl_limit s \<longrightarrow> sl_waiting s = []) \<and>
     (list_all (\<lambda>x. \<not> reconfigures x) ops \<longrightarrow> sl_active s \<le> limit \<and> length (sl_waiting s) \<le> queue)"
proof -
  have "within_limits (new_slots limit queue)" by (simp add: within_limits_def new_slots_def)
  from run_within [OF this, of ops] sls.run_inv [OF new_ok, of ops limit queue] show ?thesis
    by (auto simp: Let_def slots_ok_def within_limits_def)
qed

definition demo_slot_ops :: "slot_op list" where
  "demo_slot_ops = [Acquire [1], Acquire [1], Acquire [2], Acquire [3], Acquire [1], Give [1]]"

lemma demo_slots_admitted: "sl_admitted (run_ops slot_step demo_slot_ops (new_slots 1 2)) = [0]"
  by code_simp

theorem slots_are_used_witness:
  "sl_active (run_ops slot_step demo_slot_ops (new_slots 1 2)) \<le> 1 \<and>
   length (sl_waiting (run_ops slot_step demo_slot_ops (new_slots 1 2))) \<le> 2 \<and>
   sl_admitted (run_ops slot_step demo_slot_ops (new_slots 1 2)) = [0]"
  using slots_are_used [of demo_slot_ops 1 2] demo_slots_admitted by (simp add: Let_def demo_slot_ops_def)

section \<open>No owner starves\<close>

text \<open>The slots given back while a sequence of operations runs.\<close>

fun given_back_in :: "slot_op list \<Rightarrow> slots \<Rightarrow> nat" where
  "given_back_in [] s = 0"
| "given_back_in (x # xs) s =
     (case x of Give owner \<Rightarrow> if held_by owner s = 0 then 0 else 1 | _ \<Rightarrow> 0) + given_back_in xs (snd (slot_step x s))"

definition waits_by :: "jstring \<times> nat \<Rightarrow> nat \<Rightarrow> slots \<Rightarrow> bool" where
  "waits_by w k s \<longleftrightarrow> w \<in> set (take (Suc k) (sl_waiting s))"

lemma take_filter_subset: "set (filter P (take n xs)) \<subseteq> set (take n (filter P xs))"
proof (induction xs arbitrary: n)
  case (Cons x xs)
  show ?case
  proof (cases n)
    case (Suc m)
    with Cons [of m] set_take_subset_set_take [of m "Suc m" "filter P xs"] show ?thesis by auto
  qed simp
qed simp

lemma take_remove_at:
  "j \<le> i \<Longrightarrow> i < length xs \<Longrightarrow> j \<noteq> i \<Longrightarrow> xs ! i \<in> set (take i (remove_at j xs))"
proof (induction xs arbitrary: i j)
  case (Cons x xs)
  obtain i' where i: "i = Suc i'" using Cons.prems by (cases i) auto
  show ?case
  proof (cases j)
    case 0
    with Cons.prems i show ?thesis by (auto simp: remove_at_def in_set_conv_nth)
  next
    case (Suc j')
    with Cons.IH [of j' i'] Cons.prems i show ?thesis by (simp add: remove_at_def)
  qed
qed simp

text \<open>One step while an owner that holds none waits: it gets a slot, or its call stays at most as far back.\<close>

lemma least_before:
  assumes "next_waiter s = Some j" "waits_by w k s" "held_by (fst w) s = 0"
  shows "sl_waiting s ! j = w \<or> fst (sl_waiting s ! j) = fst w \<or>
    (0 < k \<and> w \<in> set (take k (remove_at j (sl_waiting s))))"
proof -
  note least = next_waiter_least(1) [OF assms(1)]
  obtain i where i: "i < length (sl_waiting s)" "i \<le> k" "sl_waiting s ! i = w"
    using assms(2) by (auto simp: waits_by_def in_set_conv_nth)
  have "j \<le> i"
  proof (rule ccontr)
    assume "\<not> j \<le> i"
    with least have "holds_of s (sl_waiting s ! j) < holds_of s (sl_waiting s ! i)" by (simp add: first_least_def)
    with i(3) assms(3) show False by (simp add: holds_of_def)
  qed
  show ?thesis
  proof (cases "j = i")
    case True
    with i show ?thesis by simp
  next
    case False
    with take_remove_at [OF \<open>j \<le> i\<close> i(1)] i(2,3) \<open>j \<le> i\<close> show ?thesis
      using set_take_subset_set_take [of i k "remove_at j (sl_waiting s)"] by auto
  qed
qed

lemma fair_step:
  assumes waits: "waits_by w k s" "held_by (fst w) s = 0"
    and full: "sl_active s = sl_limit s"
    and x: "\<not> reconfigures x" "x \<noteq> Leaves (snd w)"
  shows "0 < held_by (fst w) (snd (slot_step x s)) \<or>
    held_by (fst w) (snd (slot_step x s)) = 0 \<and> sl_active (snd (slot_step x s)) = sl_limit (snd (slot_step x s)) \<and>
    given_back_in [x] s \<le> k \<and> waits_by w (k - given_back_in [x] s) (snd (slot_step x s))"
proof (cases x)
  case (Acquire owner)
  have "set (take (Suc k) (sl_waiting s)) \<subseteq> set (take (Suc k) (sl_waiting s @ [y]))" for y by simp
  with Acquire waits full show ?thesis by (auto simp: acquire_def waits_by_def held_by_def)
next
  case (Give owner)
  show ?thesis
  proof (cases "held_by owner s = 0")
    case True
    with Give waits full show ?thesis by simp
  next
    case False
    let ?s = "drop_hold owner s"
    have other: "owner \<noteq> fst w" using False waits(2) by blast
    have w: "waits_by w k ?s" "held_by (fst w) ?s = 0" using waits other by (simp_all add: waits_by_def)
    then have "next_waiter ?s \<noteq> None" using next_waiter_least(2) [of ?s] by (auto simp: waits_by_def)
    then obtain j where j: "next_waiter ?s = Some j" by blast
    obtain o' t' where o': "sl_waiting s ! j = (o', t')" by fastforce
    have step: "snd (slot_step x s) = admit_waiter j ?s" using Give False full j by (simp add: release_slot_def)
    have held: "held_by (fst w) (admit_waiter j ?s) = (if fst w = o' then 1 else 0)"
      using w(2) by (simp add: admit_waiter_def o')
    show ?thesis
    proof (cases "fst w = o'")
      case True
      with step held show ?thesis by simp
    next
      case False
      with least_before [OF j w] o' have "0 < k" "w \<in> set (take k (remove_at j (sl_waiting s)))" by auto
      with step held False Give \<open>held_by owner s \<noteq> 0\<close> full show ?thesis by (simp add: waits_by_def)
    qed
  qed
next
  case (Leaves ticket)
  have "w \<in> set (filter (\<lambda>w. snd w \<noteq> ticket) (take (Suc k) (sl_waiting s)))"
    using waits(1) x(2) Leaves by (auto simp: waits_by_def)
  then have "w \<in> set (take (Suc k) (filter (\<lambda>w. snd w \<noteq> ticket) (sl_waiting s)))"
    by (rule subsetD [OF take_filter_subset])
  with Leaves waits(2) full show ?thesis by (simp add: leave_queue_def waits_by_def)
next
  case (Configure limit queue)
  with x show ?thesis by simp
qed

text \<open>
  C39: no owner starves. A key that holds no slot and whose call waits with \<open>k\<close> calls before it has a
  slot by the time \<open>k + 1\<close> slots were given back, however many calls of other keys arrive meanwhile and
  whoever gives up waiting (but it).
\<close>

theorem no_owner_starves:
  assumes "waits_by (owner, ticket) k s" "held_by owner s = 0" "sl_active s = sl_limit s"
    and "\<forall>x \<in> set ops. \<not> reconfigures x \<and> x \<noteq> Leaves ticket" "k < given_back_in ops s"
  shows "\<exists>n \<le> length ops. 0 < held_by owner (run_ops slot_step (take n ops) s)"
  using assms
proof (induction ops arbitrary: k s)
  case (Cons x ops)
  let ?s = "snd (slot_step x s)"
  from fair_step [OF Cons.prems(1) _ Cons.prems(3), of x] Cons.prems(2,4)
  consider "0 < held_by owner ?s"
    | "held_by owner ?s = 0" "sl_active ?s = sl_limit ?s" "given_back_in [x] s \<le> k"
      "waits_by (owner, ticket) (k - given_back_in [x] s) ?s" by auto
  then show ?case
  proof cases
    case 1
    then show ?thesis by (intro exI [of _ 1]) simp
  next
    case 2
    have "k - given_back_in [x] s < given_back_in ops ?s" using Cons.prems(5) 2(3) by simp
    with Cons.IH [OF 2(4) 2(1,2)] Cons.prems(4)
    obtain n where "n \<le> length ops" "0 < held_by owner (run_ops slot_step (take n ops) ?s)" by auto
    then show ?thesis by (intro exI [of _ "Suc n"]) simp
  qed
qed simp

definition demo_waiting :: slots where
  "demo_waiting = \<lparr>sl_limit = 1, sl_queue = 4, sl_active = 1, sl_held = [([1], 1)],
     sl_waiting = [([2], 0), ([3], 1), ([1], 2)], sl_tickets = 3, sl_admitted = []\<rparr>"

definition demo_gives :: "slot_op list" where
  "demo_gives = [Give [1], Acquire [4], Give [2]]"

lemma demo_given: "given_back_in demo_gives demo_waiting = 2"
  by code_simp

theorem no_owner_starves_witness:
  "given_back_in demo_gives demo_waiting = 2 \<and>
   (\<exists>n \<le> length demo_gives. 0 < held_by [3] (run_ops slot_step (take n demo_gives) demo_waiting))"
proof
  show "given_back_in demo_gives demo_waiting = 2" by (rule demo_given)
  show "\<exists>n \<le> length demo_gives. 0 < held_by [3] (run_ops slot_step (take n demo_gives) demo_waiting)"
    by (rule no_owner_starves [where k = 1 and ticket = 1])
      (use demo_given in \<open>simp_all add: waits_by_def demo_gives_def demo_waiting_def held_by_def\<close>)
qed

section \<open>The memory budget\<close>

text \<open>Bytes of request bodies in memory: \<open>take\<close> reserves them or refuses, \<open>give\<close> gives them back.\<close>

record memory_budget =
  mb_limit :: nat
  mb_used :: nat

definition take_bytes :: "nat \<Rightarrow> memory_budget \<Rightarrow> bool \<times> memory_budget" where
  "take_bytes bytes m =
     (if mb_used m + bytes > mb_limit m then (False, m) else (True, m\<lparr>mb_used := mb_used m + bytes\<rparr>))"

definition give_bytes :: "nat \<Rightarrow> memory_budget \<Rightarrow> memory_budget" where
  "give_bytes bytes m = m\<lparr>mb_used := mb_used m - bytes\<rparr>"

end
