(* ===== verification/Ledger.thy ===== *)
theory Ledger
  imports Sticky Machines
begin

text \<open>
  The ledger's helpers (\<open>packages/gateway/src/ledger.ts\<close>): the usage of an answer in five fields that
  count no token twice, its cost, and the throttle of rejection records.

  A number of a usage object is an integer here. A price is in USD per million tokens, a real number.
\<close>

section \<open>Usage\<close>

record usage_parts =
  up_input :: "int option"
  up_cacheRead :: "int option"
  up_cacheWrite :: "int option"
  up_output :: "int option"
  up_reasoning :: "int option"

fun count_of :: "json option \<Rightarrow> int option" where
  "count_of (Some (JNum n)) = (if n \<ge> 0 then Some n else None)"
| "count_of v = None"

definition minus_part :: "int option \<Rightarrow> int option \<Rightarrow> int option" where
  "minus_part whole part =
     (case whole of None \<Rightarrow> None | Some t \<Rightarrow> Some (max 0 (t - (case part of Some p \<Rightarrow> p | None \<Rightarrow> 0))))"

definition or_count :: "int option \<Rightarrow> int option \<Rightarrow> int option" where
  "or_count a b = (case a of Some n \<Rightarrow> Some n | None \<Rightarrow> b)"

definition no_parts :: usage_parts where
  "no_parts = \<lparr>up_input = None, up_cacheRead = None, up_cacheWrite = None, up_output = None, up_reasoning = None\<rparr>"

definition usageParts :: "protocol \<Rightarrow> json option \<Rightarrow> usage_parts" where
  "usageParts p raw =
     (case as_record raw of
        None \<Rightarrow> no_parts
      | Some fs \<Rightarrow>
          (let usage = Some fs;
               num = (\<lambda>name. count_of (field_of usage name));
               detail = (\<lambda>name inner. count_of (field_of (as_record (field_of usage name)) inner))
           in case p of
             Chat \<Rightarrow>
               (let cached = or_count (detail ''prompt_tokens_details'' ''cached_tokens'') (num ''prompt_cache_hit_tokens'');
                    reasoning = or_count (detail ''completion_tokens_details'' ''reasoning_tokens'') (num ''reasoning_tokens'');
                    written = num ''cache_creation_input_tokens''
                in \<lparr>up_input = minus_part (minus_part (num ''prompt_tokens'') cached) written,
                    up_cacheRead = cached, up_cacheWrite = written,
                    up_output = minus_part (num ''completion_tokens'') reasoning, up_reasoning = reasoning\<rparr>)
           | Responses \<Rightarrow>
               (let cached = detail ''input_tokens_details'' ''cached_tokens'';
                    reasoning = detail ''output_tokens_details'' ''reasoning_tokens''
                in \<lparr>up_input = minus_part (num ''input_tokens'') cached, up_cacheRead = cached, up_cacheWrite = None,
                    up_output = minus_part (num ''output_tokens'') reasoning, up_reasoning = reasoning\<rparr>)
           | Anthropic \<Rightarrow>
               \<lparr>up_input = num ''input_tokens'', up_cacheRead = num ''cache_read_input_tokens'',
                up_cacheWrite = num ''cache_creation_input_tokens'', up_output = num ''output_tokens'',
                up_reasoning = None\<rparr>
           | Gemini \<Rightarrow>
               (let cached = num ''cachedContentTokenCount''
                in \<lparr>up_input = minus_part (num ''promptTokenCount'') cached, up_cacheRead = cached, up_cacheWrite = None,
                    up_output = num ''candidatesTokenCount'', up_reasoning = num ''thoughtsTokenCount''\<rparr>)))"

record call_usage =
  cu_input :: int
  cu_cacheRead :: int
  cu_cacheWrite :: int
  cu_output :: int
  cu_reasoning :: int
  cu_reported :: bool

definition or_zero :: "int option \<Rightarrow> int" where
  "or_zero n = (case n of Some k \<Rightarrow> k | None \<Rightarrow> 0)"

definition callUsage :: "usage_parts \<Rightarrow> call_usage" where
  "callUsage parts =
     \<lparr>cu_input = or_zero (up_input parts), cu_cacheRead = or_zero (up_cacheRead parts),
      cu_cacheWrite = or_zero (up_cacheWrite parts), cu_output = or_zero (up_output parts),
      cu_reasoning = or_zero (up_reasoning parts), cu_reported = (parts \<noteq> no_parts)\<rparr>"

record model_price =
  mp_input :: "real option"
  mp_output :: "real option"
  mp_cacheRead :: "real option"
  mp_cacheWrite :: "real option"

definition add_cost :: "real option \<Rightarrow> int \<times> real option \<Rightarrow> real option" where
  "add_cost amount = (\<lambda>(tokens, perMillion).
     if tokens = 0 then amount
     else case (amount, perMillion) of
       (Some a, Some p) \<Rightarrow> Some (a + real_of_int tokens * p / 1000000)
     | _ \<Rightarrow> None)"

definition callCost :: "call_usage option \<Rightarrow> model_price option \<Rightarrow> real option" where
  "callCost usage price =
     (case (usage, price) of
        (Some u, Some p) \<Rightarrow>
          if \<not> cu_reported u then None
          else foldl add_cost (Some 0)
            [(cu_input u, mp_input p), (cu_cacheRead u, mp_cacheRead p), (cu_cacheWrite u, mp_cacheWrite p),
             (cu_output u + cu_reasoning u, mp_output p)]
      | _ \<Rightarrow> None)"

lemma count_nonneg: "count_of v = Some n \<Longrightarrow> 0 \<le> n"
  by (cases v; cases "the v") (auto split: if_splits)

lemma or_zero_count [simp]: "0 \<le> or_zero (count_of v)" "0 \<le> or_zero (or_count (count_of v) (count_of v'))"
  using count_nonneg by (auto simp: or_zero_def or_count_def split: option.split)

lemma or_zero_minus [simp]: "or_zero (minus_part (Some n) part) = max 0 (n - or_zero part)"
  by (simp add: minus_part_def or_zero_def)

lemma or_zero_minus_minus [simp]:
  "or_zero (minus_part (minus_part (Some n) a) b) = max 0 (max 0 (n - or_zero a) - or_zero b)"
  by (simp add: minus_part_def or_zero_def)

lemma or_zero_None [simp]: "or_zero None = 0"
  by (simp add: or_zero_def)

lemma usage_nonneg:
  "0 \<le> cu_cacheRead (callUsage (usageParts p raw))"
  "0 \<le> cu_cacheWrite (callUsage (usageParts p raw))"
  "0 \<le> cu_reasoning (callUsage (usageParts p raw))"
  by (auto simp: callUsage_def usageParts_def no_parts_def Let_def split: option.split protocol.split)

definition prompt_field :: "protocol \<Rightarrow> jstring" where
  "prompt_field p = js (if p = Chat then ''prompt_tokens'' else ''input_tokens'')"

definition completion_field :: "protocol \<Rightarrow> jstring" where
  "completion_field p = js (if p = Chat then ''completion_tokens'' else ''output_tokens'')"

text \<open>
  The normalised usage counts every reported token once: the parts are not negative, a protocol
  that counts cached and written tokens inside the prompt gets input and cached parts that add up to
  the prompt again (while no more were cached than the prompt has), and likewise for reasoning inside
  the output.
\<close>

theorem usage_adds_up:
  assumes "p = Chat \<or> p = Responses" "u = callUsage (usageParts p (Some (JObj usage)))"
    and "count_of (map_of usage (prompt_field p)) = Some prompt"
    and "count_of (map_of usage (completion_field p)) = Some completion"
    and "cu_cacheRead u + cu_cacheWrite u \<le> prompt" "cu_reasoning u \<le> completion"
  shows "cu_input u + cu_cacheRead u + cu_cacheWrite u = prompt \<and> cu_output u + cu_reasoning u = completion \<and>
    0 \<le> cu_input u \<and> 0 \<le> cu_cacheRead u \<and> 0 \<le> cu_cacheWrite u \<and> 0 \<le> cu_output u \<and> 0 \<le> cu_reasoning u"
proof -
  have nonneg: "0 \<le> cu_cacheRead u" "0 \<le> cu_cacheWrite u" "0 \<le> cu_reasoning u"
    unfolding assms(2) by (rule usage_nonneg)+
  have "cu_input u = max 0 (max 0 (prompt - cu_cacheRead u) - cu_cacheWrite u) \<and>
      cu_output u = max 0 (completion - cu_reasoning u)"
    using assms(1,3,4) nonneg
    by (auto simp: assms(2) usageParts_def callUsage_def field_of_def prompt_field_def completion_field_def Let_def)
  with nonneg assms(5,6) show ?thesis by (simp add: max_def)
qed

theorem usage_adds_up_witness:
  "cu_input (callUsage (usageParts Chat (Some (JObj [(js ''prompt_tokens'', JNum 100), (js ''completion_tokens'', JNum 20),
     (js ''prompt_cache_hit_tokens'', JNum 60), (js ''cache_creation_input_tokens'', JNum 30)])))) + 60 + 30 = 100"
  using usage_adds_up [of Chat _ "[(js ''prompt_tokens'', JNum 100), (js ''completion_tokens'', JNum 20),
     (js ''prompt_cache_hit_tokens'', JNum 60), (js ''cache_creation_input_tokens'', JNum 30)]" 100 20, OF _ refl]
  by (simp add: prompt_field_def completion_field_def usageParts_def callUsage_def field_of_def or_count_def or_zero_def
      Let_def)

section \<open>Rejection records\<close>

text \<open>
  The throttle per Gateway Key and reason. A record of the ledger is what the throttle reads and
  writes of it, and the rest; \<open>Summed\<close> marks the one that stands for several.
\<close>

definition REJECTIONS_PER_MINUTE :: nat where "REJECTIONS_PER_MINUTE = 20"

record 'e rejection =
  rj_callId :: jstring
  rj_at :: int
  rj_error :: jstring
  rj_rest :: 'e

datatype 'e emitted = Detailed "'e rejection" | Summed nat "'e rejection"

record 'e reject_window =
  wi_start :: int
  wi_recorded :: nat
  wi_suppressed :: nat
  wi_sample :: "'e rejection"

type_synonym 'e throttle = "(jstring, 'e reject_window) jmap"

definition window_name :: "jstring option \<Rightarrow> jstring \<Rightarrow> jstring" where
  "window_name keyId reason = (case keyId of Some k \<Rightarrow> k | None \<Rightarrow> js ''-'') @ 0 # reason"

definition aggregate_of :: "'e reject_window \<Rightarrow> 'e emitted list" where
  "aggregate_of w =
     (if wi_suppressed w = 0 then []
      else [Summed (wi_suppressed w) ((wi_sample w)
        \<lparr>rj_callId := rj_callId (wi_sample w) @ js ''_x'' @ show_nat (wi_suppressed w), rj_at := wi_start w,
         rj_error := show_nat (wi_suppressed w) @
           js '' further rejections for the same key and reason within one minute were not recorded individually''\<rparr>)])"

definition expired :: "int \<Rightarrow> 'e reject_window \<Rightarrow> bool" where
  "expired now w \<longleftrightarrow> now - wi_start w \<ge> 60000"

definition prune :: "int \<Rightarrow> 'e throttle \<Rightarrow> 'e emitted list \<times> 'e throttle" where
  "prune now ws =
     (concat (map (\<lambda>(name, w). if expired now w then aggregate_of w else []) ws),
      filter (\<lambda>(name, w). \<not> expired now w) ws)"

definition THROTTLE_WINDOWS :: nat where "THROTTLE_WINDOWS = 4096"

definition reject_admit ::
    "jstring option \<Rightarrow> jstring \<Rightarrow> 'e rejection \<Rightarrow> int \<Rightarrow> 'e throttle \<Rightarrow> 'e emitted list \<times> 'e throttle" where
  "reject_admit keyId reason entry now ws =
     (let name = window_name keyId reason;
          (over, live) = (case jget ws name of
              Some w \<Rightarrow> if expired now w then (aggregate_of w, None) else ([], Some w)
            | None \<Rightarrow> ([], None));
          (pruned, ws, w) = (case live of
              Some w \<Rightarrow> ([], ws, w)
            | None \<Rightarrow>
                (let (pruned, ws) = (if length ws \<ge> THROTTLE_WINDOWS then prune now ws else ([], ws))
                 in (pruned, ws, \<lparr>wi_start = now, wi_recorded = 0, wi_suppressed = 0, wi_sample = entry\<rparr>)))
      in if wi_recorded w < REJECTIONS_PER_MINUTE
         then (over @ pruned @ [Detailed entry], jset name (w\<lparr>wi_recorded := wi_recorded w + 1\<rparr>) ws)
         else (over @ pruned, jset name (w\<lparr>wi_suppressed := wi_suppressed w + 1\<rparr>) ws))"

definition drain :: "'e throttle \<Rightarrow> 'e emitted list \<times> 'e throttle" where
  "drain ws = (concat (map (\<lambda>(name, w). aggregate_of w) ws), [])"

section \<open>Every rejection is accounted for\<close>

datatype 'e throttle_op = Reject "jstring option" jstring "'e rejection" int | Drain

fun throttle_step :: "'e throttle_op \<Rightarrow> 'e throttle \<Rightarrow> 'e emitted list \<times> 'e throttle" where
  "throttle_step (Reject keyId reason entry now) ws = reject_admit keyId reason entry now ws"
| "throttle_step Drain ws = drain ws"

fun emitted_by :: "'e throttle_op list \<Rightarrow> 'e throttle \<Rightarrow> 'e emitted list" where
  "emitted_by [] ws = []"
| "emitted_by (x # xs) ws = fst (throttle_step x ws) @ emitted_by xs (snd (throttle_step x ws))"

fun names_of :: "'e throttle_op list \<Rightarrow> jstring set" where
  "names_of [] = {}"
| "names_of (Reject keyId reason entry now # xs) = insert (window_name keyId reason) (names_of xs)"
| "names_of (Drain # xs) = names_of xs"

fun rejections_in :: "'e throttle_op list \<Rightarrow> nat" where
  "rejections_in [] = 0"
| "rejections_in (Reject keyId reason entry now # xs) = Suc (rejections_in xs)"
| "rejections_in (Drain # xs) = rejections_in xs"

text \<open>The rejections a record stands for.\<close>

fun stands_for :: "'e emitted \<Rightarrow> nat" where
  "stands_for (Detailed e) = 1"
| "stands_for (Summed n e) = n"

definition accounted :: "'e emitted list \<Rightarrow> nat" where
  "accounted es = sum_list (map stands_for es)"

definition pending :: "'e throttle \<Rightarrow> nat" where
  "pending ws = sum_list (map (wi_suppressed \<circ> snd) ws)"

definition window_full :: "'e reject_window \<Rightarrow> bool" where
  "window_full w \<longleftrightarrow> wi_recorded w \<le> REJECTIONS_PER_MINUTE \<and>
     (0 < wi_suppressed w \<longrightarrow> wi_recorded w = REJECTIONS_PER_MINUTE)"

definition throttle_ok :: "'e throttle \<Rightarrow> bool" where
  "throttle_ok ws \<longleftrightarrow> jwf ws \<and> (\<forall>e \<in> set ws. window_full (snd e))"

lemma accounted_append [simp]: "accounted (xs @ ys) = accounted xs + accounted ys" "accounted [] = 0"
  by (simp_all add: accounted_def)

lemma accounted_aggregate [simp]: "accounted (aggregate_of w) = wi_suppressed w"
  by (simp add: aggregate_of_def accounted_def)

lemma accounted_windows: "accounted (concat (map (\<lambda>(name, w). aggregate_of w) ws)) = pending ws"
  by (induction ws) (auto simp: pending_def)

lemma reject_accounts:
  assumes ok: "throttle_ok ws" and few: "length ws < THROTTLE_WINDOWS"
    and step: "reject_admit keyId reason entry now ws = (es, ws')"
  shows "accounted es + pending ws' = pending ws + 1 \<and> throttle_ok ws' \<and>
    fst ` set ws' \<subseteq> insert (window_name keyId reason) (fst ` set ws)"
proof -
  let ?name = "window_name keyId reason"
  define fresh where "fresh = \<lparr>wi_start = now, wi_recorded = 0, wi_suppressed = 0, wi_sample = entry\<rparr>"
  define live where "live = (case jget ws ?name of Some w \<Rightarrow> if expired now w then None else Some w | None \<Rightarrow> None)"
  define w where "w = (case live of Some w \<Rightarrow> w | None \<Rightarrow> fresh)"
  define over where "over = (case jget ws ?name of Some w \<Rightarrow> if expired now w then aggregate_of w else [] | None \<Rightarrow> [])"
  have jwf: "jwf ws" using ok by (simp add: throttle_ok_def)
  have full: "window_full w"
  proof (cases live)
    case None
    then show ?thesis by (simp add: w_def fresh_def window_full_def)
  next
    case (Some v)
    then have "(?name, v) \<in> set ws" by (auto simp: live_def dest: map_of_SomeD split: option.splits if_splits)
    with ok Some show ?thesis by (auto simp: throttle_ok_def w_def)
  qed
  have eq: "reject_admit keyId reason entry now ws =
      (if wi_recorded w < REJECTIONS_PER_MINUTE
       then (over @ [Detailed entry], jset ?name (w\<lparr>wi_recorded := wi_recorded w + 1\<rparr>) ws)
       else (over, jset ?name (w\<lparr>wi_suppressed := wi_suppressed w + 1\<rparr>) ws))"
    using few
    by (auto simp: reject_admit_def Let_def w_def live_def over_def fresh_def split: option.splits)
  have keys: "fst ` set (jset ?name v ws) \<subseteq> insert ?name (fst ` set ws)" for v
    using set_jset_sub [of ?name v ws] by auto
  have kept: "throttle_ok (jset ?name v ws)" if "window_full v" for v
    using ok that set_jset_sub [of ?name v ws] by (fastforce simp: throttle_ok_def)
  have suppressed: "accounted over + wi_suppressed w = (case jget ws ?name of Some v \<Rightarrow> wi_suppressed v | None \<Rightarrow> 0)"
    by (auto simp: over_def w_def live_def fresh_def split: option.split)
  have sum: "pending (jset ?name v ws) + (case jget ws ?name of Some u \<Rightarrow> wi_suppressed u | None \<Rightarrow> 0) =
      pending ws + wi_suppressed v" for v
    unfolding pending_def by (rule sum_jset [OF jwf])
  show ?thesis
  proof (cases "wi_recorded w < REJECTIONS_PER_MINUTE")
    case True
    with step eq have "es = over @ [Detailed entry]" "ws' = jset ?name (w\<lparr>wi_recorded := wi_recorded w + 1\<rparr>) ws" by simp_all
    moreover have "window_full (w\<lparr>wi_recorded := wi_recorded w + 1\<rparr>)" using full True by (auto simp: window_full_def)
    ultimately show ?thesis
      using sum [of "w\<lparr>wi_recorded := wi_recorded w + 1\<rparr>"] suppressed keys kept by (simp add: accounted_def [of "[_]"])
  next
    case False
    with step eq have "es = over" "ws' = jset ?name (w\<lparr>wi_suppressed := wi_suppressed w + 1\<rparr>) ws" by simp_all
    moreover have "window_full (w\<lparr>wi_suppressed := wi_suppressed w + 1\<rparr>)" using full False by (auto simp: window_full_def)
    ultimately show ?thesis
      using sum [of "w\<lparr>wi_suppressed := wi_suppressed w + 1\<rparr>"] suppressed keys kept by simp
  qed
qed

lemma throttle_accounts:
  assumes "throttle_ok ws" "card (fst ` set ws \<union> names_of ops) < THROTTLE_WINDOWS"
  shows "accounted (emitted_by ops ws) + pending (run_ops throttle_step ops ws) = rejections_in ops + pending ws \<and>
    throttle_ok (run_ops throttle_step ops ws)"
  using assms
proof (induction ops arbitrary: ws)
  case (Cons x ops)
  have fin: "finite (names_of xs)" for xs :: "'a throttle_op list" by (induction xs rule: names_of.induct) auto
  show ?case
  proof (cases x)
    case (Reject keyId reason entry now)
    obtain es ws' where step: "reject_admit keyId reason entry now ws = (es, ws')" by fastforce
    have "length ws = card (fst ` set ws)"
      using Cons.prems(1) by (simp add: throttle_ok_def jwf_def distinct_card flip: set_map)
    also have "\<dots> \<le> card (fst ` set ws \<union> names_of (x # ops))" by (rule card_mono) (simp_all add: fin)
    finally have "length ws < THROTTLE_WINDOWS" using Cons.prems(2) by simp
    with reject_accounts [OF Cons.prems(1) _ step] have
      one: "accounted es + pending ws' = pending ws + 1" "throttle_ok ws'"
        "fst ` set ws' \<subseteq> insert (window_name keyId reason) (fst ` set ws)" by simp_all
    have "card (fst ` set ws' \<union> names_of ops) \<le> card (fst ` set ws \<union> names_of (x # ops))"
      using one(3) Reject by (intro card_mono) (auto simp: fin)
    with Cons.IH [OF one(2)] Cons.prems(2) one(1) Reject step show ?thesis by simp
  next
    case Drain
    have "throttle_ok []" "card (fst ` set ([] :: 'a throttle) \<union> names_of ops) < THROTTLE_WINDOWS"
      using Cons.prems(2) card_mono [of "fst ` set ws \<union> names_of ops" "names_of ops"] Drain
      by (simp_all add: throttle_ok_def jwf_def fin)
    from Cons.IH [OF this] Drain show ?thesis by (simp add: drain_def accounted_windows pending_def)
  qed
qed simp

text \<open>
  With 4096 windows or more the bound is void: a window that expired under the rejection is still in the map
  when the map is pruned, so that what it held back is written twice.
\<close>

lemma accounted_member: "es \<in> set parts \<Longrightarrow> accounted es \<le> accounted (concat parts)"
  by (induction parts) auto

lemma full_throttle_counts_twice:
  assumes "THROTTLE_WINDOWS \<le> length ws" and w: "jget ws (window_name keyId reason) = Some w" and "expired now w"
  shows "2 * wi_suppressed w < accounted (fst (reject_admit keyId reason entry now ws))"
proof -
  have "aggregate_of w \<in> set (map (\<lambda>(name, w). if expired now w then aggregate_of w else []) ws)"
    using map_of_SomeD [OF w] assms(3) by (force simp: image_iff)
  from accounted_member [OF this] have "wi_suppressed w \<le> accounted (fst (prune now ws))" by (simp add: prune_def)
  with assms show ?thesis
    by (cases "prune now ws") (auto simp: reject_admit_def Let_def REJECTIONS_PER_MINUTE_def accounted_def [of "[_]"])
qed

text \<open>
  C40: no rejection is lost and none counted twice: over any rejections and drains of fewer than 4096
  keys and reasons, the records written stand for exactly the rejections that are not still being
  counted, and no window has more than twenty in detail.
\<close>

theorem rejections_are_accounted:
  assumes "card (names_of ops) < THROTTLE_WINDOWS"
  shows "accounted (emitted_by ops []) + pending (run_ops throttle_step ops []) = rejections_in ops \<and>
    (\<forall>e \<in> set (run_ops throttle_step ops []). wi_recorded (snd e) \<le> 20)"
  using throttle_accounts [of "[]" ops] assms
  by (auto simp: throttle_ok_def pending_def jwf_def window_full_def REJECTIONS_PER_MINUTE_def)

definition demo_rejection :: "nat rejection" where
  "demo_rejection = \<lparr>rj_callId = [99], rj_at = 0, rj_error = [101], rj_rest = 0\<rparr>"

theorem rejections_are_accounted_witness:
  "let ops = [Reject None [1] demo_rejection 0, Reject None [2] demo_rejection 0, Reject None [1] demo_rejection 60000, Drain] in
   accounted (emitted_by ops []) + pending (run_ops throttle_step ops []) = 3"
  using rejections_are_accounted
    [of "[Reject None [1] demo_rejection 0, Reject None [2] demo_rejection 0, Reject None [1] demo_rejection 60000, Drain]"]
  by (simp add: window_name_def THROTTLE_WINDOWS_def card_insert_if)

end
