(* ===== verification/WorkflowPlans.thy ===== *)
theory WorkflowPlans
  imports RunTypes
begin

text \<open>
  What a planner's answer must be to become the plan of a workflow (\<open>parseWorkflowPlan\<close> of
  \<open>packages/core/src/workflows.ts\<close>, \<open>validateFileOutputs\<close> of \<open>packages/core/src/files.ts\<close>).

  Parameters: \<open>decode\<close>, the document that \<open>JSON.parse\<close> reads from the text without its markdown fence,
  where the text is one that the bounded schema (checked by Ajv) accepts; \<open>folded\<close>, the string that
  \<open>normalize("NFC").toLowerCase()\<close> gives.
\<close>

section \<open>Declared files\<close>

definition media_unit :: "nat \<Rightarrow> bool" where
  "media_unit c \<longleftrightarrow> 48 \<le> c \<and> c \<le> 57 \<or> 65 \<le> c \<and> c \<le> 90 \<or> 97 \<le> c \<and> c \<le> 122 \<or> c \<in> set (js ''!#$&^_.+-'')"

definition media_type_ok :: "jstring \<Rightarrow> bool" where
  "media_type_ok s =
     (let main = takeWhile media_unit s; s = dropWhile media_unit s;
          sub = takeWhile media_unit (drop 1 s); tail = dropWhile media_unit (drop 1 s)
      in main \<noteq> [] \<and> take 1 s = js ''/'' \<and> sub \<noteq> [] \<and>
         (tail = [] \<or> take 1 tail = js '';'' \<and> 1 < length tail \<and> list_all (\<lambda>c. 32 \<le> c \<and> c \<le> 126) (drop 1 tail)))"

definition validateFileOutputs :: "(jstring \<Rightarrow> jstring) \<Rightarrow> file_output list \<Rightarrow> bool" where
  "validateFileOutputs folded outputs \<longleftrightarrow>
     outputs \<noteq> [] \<and> length outputs \<le> 32 \<and>
     distinct (map (folded \<circ> out_name) outputs) \<and> distinct (map (folded \<circ> out_path) outputs) \<and>
     list_all (\<lambda>out. isRelativeFilePath (out_path out) \<and> isRelativeFilePath (out_name out) \<and>
       47 \<notin> set (out_name out) \<and> length (out_name out) \<le> 255 \<and>
       (case out_mediaType out of None \<Rightarrow> True | Some m \<Rightarrow> media_type_ok m)) outputs"

section \<open>Plans\<close>

datatype workflow_capability = NeedsPermissions | NeedsImages

record plan_step =
  ps_id :: jstring
  ps_title :: jstring
  ps_instructions :: jstring
  ps_dependsOn :: "jstring list"
  ps_outputs :: "file_output list"
  ps_capabilities :: "workflow_capability list option"
  ps_timeoutMs :: "int option"

record workflow_plan =
  pl_title :: jstring
  pl_steps :: "plan_step list"

datatype plan_error =
    PlanTooLong
  | PlanNotJson
  | PlanNotInSchema
  | IdsNotUnique
  | BadDependency
  | BadOutputs
  | PlanCycle
  | UnorderedOverwrite

text \<open>The schema's answer to a document, or none where the text is no JSON.\<close>

datatype decoded = NotJson | NotInSchema | Plan workflow_plan

definition find_step :: "plan_step list \<Rightarrow> jstring \<Rightarrow> plan_step option" where
  "find_step steps i = find (\<lambda>s. ps_id s = i) steps"

fun check_steps :: "(jstring \<Rightarrow> jstring) \<Rightarrow> jstring list \<Rightarrow> plan_step list \<Rightarrow> plan_error option" where
  "check_steps folded ids [] = None"
| "check_steps folded ids (s # steps) =
     (if list_ex (\<lambda>d. d \<notin> set ids \<or> d = ps_id s) (ps_dependsOn s) then Some BadDependency
      else if ps_outputs s \<noteq> [] \<and> \<not> validateFileOutputs folded (ps_outputs s) then Some BadOutputs
      else check_steps folded ids steps)"

text \<open>\<open>reached\<close> is a JavaScript set, the oldest element first.\<close>

definition set_add :: "'a list \<Rightarrow> 'a \<Rightarrow> 'a list" where
  "set_add xs x = (if x \<in> set xs then xs else xs @ [x])"

definition ready_steps :: "plan_step list \<Rightarrow> jstring list \<Rightarrow> plan_step list" where
  "ready_steps steps reached =
     filter (\<lambda>s. ps_id s \<notin> set reached \<and> list_all (\<lambda>d. d \<in> set reached) (ps_dependsOn s)) steps"

lemma set_adds: "\<exists>zs. foldl set_add xs ys = xs @ zs \<and> set zs = set ys - set xs \<and> distinct zs"
proof (induction ys arbitrary: xs)
  case (Cons y ys)
  obtain zs where zs: "foldl set_add (set_add xs y) ys = set_add xs y @ zs" "set zs = set ys - set (set_add xs y)" "distinct zs"
    using Cons.IH by blast
  show ?case
  proof (cases "y \<in> set xs")
    case True
    then have "set_add xs y = xs" by (simp add: set_add_def)
    with zs True show ?thesis by auto
  next
    case False
    then have "set_add xs y = xs @ [y]" by (simp add: set_add_def)
    with zs False show ?thesis by (auto intro: exI [of _ "y # zs"])
  qed
qed simp

lemma set_set_adds [simp]: "set (foldl set_add xs ys) = set xs \<union> set ys"
proof -
  obtain zs where "foldl set_add xs ys = xs @ zs" "set zs = set ys - set xs"
    using set_adds [of xs ys] by blast
  then show ?thesis by (metis Un_Diff_cancel set_append)
qed

lemma distinct_set_adds [simp]: "distinct (foldl set_add xs ys) = distinct xs"
proof -
  obtain zs where zs: "foldl set_add xs ys = xs @ zs" "set zs = set ys - set xs" "distinct zs"
    using set_adds [of xs ys] by blast
  have "set xs \<inter> set zs = {}" by (simp add: zs(2) Diff_Int_distrib)
  with zs(3) show ?thesis by (simp add: zs(1))
qed

lemma length_set_adds:
  assumes "ys \<noteq> []" "set ys \<inter> set xs = {}"
  shows "length xs < length (foldl set_add xs ys)"
proof -
  obtain zs where zs: "foldl set_add xs ys = xs @ zs" "set zs = set ys - set xs"
    using set_adds [of xs ys] by blast
  have "zs \<noteq> []" using assms zs(2) by (cases ys) auto
  then show ?thesis by (simp add: zs(1))
qed

function all_reached :: "plan_step list \<Rightarrow> jstring list \<Rightarrow> bool" where
  "all_reached steps reached =
     (if length reached < length steps then
        (let ready = ready_steps steps reached
         in if ready = [] then False else all_reached steps (foldl set_add reached (map ps_id ready)))
      else True)"
  by pat_completeness auto

termination
proof (relation "measure (\<lambda>(steps, reached). length steps - length reached)", simp)
  fix steps :: "plan_step list" and reached ready
  assume less: "length reached < length steps" and ready: "ready = ready_steps steps reached" "ready \<noteq> []"
  then have "length reached < length (foldl set_add reached (map ps_id ready))"
    by (intro length_set_adds) (auto simp: ready_steps_def)
  with less show "((steps, foldl set_add reached (map ps_id ready)), steps, reached)
      \<in> measure (\<lambda>(steps, reached). length steps - length reached)" by simp
qed

declare all_reached.simps [simp del]

text \<open>
  \<open>dependsOn\<close>, which calls itself along the dependencies: with fuel for a chain of them. A plan has
  no longer chain than steps, so that the fuel given is enough in a plan without cycles.
\<close>

fun depends :: "nat \<Rightarrow> plan_step list \<Rightarrow> jstring \<Rightarrow> jstring \<Rightarrow> bool option"
  and depends_some :: "nat \<Rightarrow> plan_step list \<Rightarrow> jstring list \<Rightarrow> jstring \<Rightarrow> bool option" where
  "depends 0 steps i ancestor = None"
| "depends (Suc n) steps i ancestor =
     (case find_step steps i of
        Some s \<Rightarrow> depends_some n steps (ps_dependsOn s) ancestor
      | None \<Rightarrow> None)"
| "depends_some n steps [] ancestor = Some False"
| "depends_some n steps (d # ds) ancestor =
     (if d = ancestor then Some True
      else case depends n steps d ancestor of
        Some b \<Rightarrow> if b then Some True else depends_some n steps ds ancestor
      | None \<Rightarrow> None)"

definition dependsOn :: "plan_step list \<Rightarrow> jstring \<Rightarrow> jstring \<Rightarrow> bool" where
  "dependsOn steps i ancestor \<longleftrightarrow> depends (length steps) steps i ancestor = Some True"

text \<open>The declared files of a step against the owners so far, \<open>None\<close> where an order is missing.\<close>

fun claim_files :: "(jstring \<Rightarrow> jstring) \<Rightarrow> plan_step list \<Rightarrow> jstring \<Rightarrow> file_output list \<Rightarrow>
    (jstring, jstring list) jmap \<Rightarrow> (jstring, jstring list) jmap option" where
  "claim_files folded steps i [] owners = Some owners"
| "claim_files folded steps i (out # outs) owners =
     (let file = folded (out_path out);
          own = (case jget owners file of Some own \<Rightarrow> own | None \<Rightarrow> [])
      in if list_ex (\<lambda>owner. \<not> dependsOn steps i owner \<and> \<not> dependsOn steps owner i) own then None
         else claim_files folded steps i outs (jset file (own @ [i]) owners))"

fun claim_all :: "(jstring \<Rightarrow> jstring) \<Rightarrow> plan_step list \<Rightarrow> plan_step list \<Rightarrow> (jstring, jstring list) jmap \<Rightarrow> bool" where
  "claim_all folded steps [] owners = True"
| "claim_all folded steps (s # rest) owners =
     (case claim_files folded steps (ps_id s) (ps_outputs s) owners of
        Some owners \<Rightarrow> claim_all folded steps rest owners
      | None \<Rightarrow> False)"

definition check_plan :: "(jstring \<Rightarrow> jstring) \<Rightarrow> plan_step list \<Rightarrow> plan_error option" where
  "check_plan folded steps =
     (let ids = foldl set_add [] (map ps_id steps)
      in if length ids \<noteq> length steps then Some IdsNotUnique
         else case check_steps folded ids steps of
           Some e \<Rightarrow> Some e
         | None \<Rightarrow>
             (if \<not> all_reached steps [] then Some PlanCycle
              else if \<not> claim_all folded steps steps [] then Some UnorderedOverwrite
              else None))"

definition parseWorkflowPlan ::
    "(jstring \<Rightarrow> decoded) \<Rightarrow> (jstring \<Rightarrow> jstring) \<Rightarrow> jstring \<Rightarrow> plan_error + workflow_plan" where
  "parseWorkflowPlan decode folded output =
     (if int (length output) > 160000 then Inl PlanTooLong
      else case decode output of
        NotJson \<Rightarrow> Inl PlanNotJson
      | NotInSchema \<Rightarrow> Inl PlanNotInSchema
      | Plan plan \<Rightarrow>
          (case check_plan folded (pl_steps plan) of Some e \<Rightarrow> Inl e | None \<Rightarrow> Inr plan))"

end
