(* ===== verification/WorkflowEngines.thy ===== *)
theory WorkflowEngines
  imports WorkflowPlans
begin

text \<open>
  The choice of an engine for a planner or a step (\<open>selectWorkflowEngine\<close> of
  \<open>packages/runtime/src/application/workflows.ts\<close>). What the function asks of the application is a
  record here; the texts of the reasons are left out. Parameter: \<open>compare\<close>, \<open>localeCompare\<close> of two
  engine identifiers.
\<close>

datatype selection_mode = Auto | Explicit

record engine_option =
  eo_engineId :: jstring
  eo_profileRevision :: jstring
  eo_eligible :: bool
  eo_score :: "int option"

record engine_selection =
  se_engineId :: jstring
  se_profileRevision :: jstring
  se_mode :: selection_mode
  se_candidates :: "engine_option list"

text \<open>The part of the application that is read.\<close>

record app_view =
  av_engines :: "engine_profile list"
  av_sessions :: "session_record list"
  av_runs :: "run_record list"
  av_default :: jstring
  av_compare :: "jstring \<Rightarrow> jstring \<Rightarrow> int"

fun has_capability :: "engine_profile \<Rightarrow> workflow_capability \<Rightarrow> bool" where
  "has_capability engine NeedsPermissions = cap_permissions (ep_capabilities engine)"
| "has_capability engine NeedsImages = cap_images (ep_capabilities engine)"

definition engine_eligible :: "selection_mode \<Rightarrow> workflow_capability list \<Rightarrow> engine_profile \<Rightarrow> bool" where
  "engine_eligible mode needed engine \<longleftrightarrow>
     ep_enabled engine \<and> ep_driver engine \<noteq> FakeDriver \<and> \<not> (mode = Auto \<and> ep_driver engine = CliDriver) \<and>
     list_all (has_capability engine) needed"

text \<open>\<open>sessions\<close> is a map by identifier: of two records with one identifier the later counts.\<close>

definition session_of :: "app_view \<Rightarrow> jstring \<Rightarrow> session_record option" where
  "session_of app i = find (\<lambda>s. s_id s = i) (rev (av_sessions app))"

definition engine_runs :: "app_view \<Rightarrow> engine_profile \<Rightarrow> run_record list" where
  "engine_runs app engine =
     filter (\<lambda>r. map_option s_engineId (session_of app (r_sessionId r)) = Some (ep_id engine))
       (sort_by (\<lambda>a b. r_createdAt b < r_createdAt a) (av_runs app))"

definition recent_runs :: "app_view \<Rightarrow> engine_profile \<Rightarrow> run_record list" where
  "recent_runs app engine =
     take 20 (filter (\<lambda>r. isTerminal (r_status r) \<and>
       map_option s_profileRevision (session_of app (r_sessionId r)) = Some (ep_revision engine)) (engine_runs app engine))"

definition count_if :: "('a \<Rightarrow> bool) \<Rightarrow> 'a list \<Rightarrow> int" where
  "count_if p xs = int (length (filter p xs))"

definition engine_score :: "app_view \<Rightarrow> engine_profile \<Rightarrow> int" where
  "engine_score app engine =
     (let recent = recent_runs app engine;
          succeeded = count_if (\<lambda>r. r_status r = Ended Completed) recent;
          failed = count_if (\<lambda>r. r_status r \<in> set [Ended Failed, Ended TimedOut, Ended Interrupted]) recent;
          load = count_if (\<lambda>r. \<not> isTerminal (r_status r)) (engine_runs app engine)
      in (if ep_id engine = av_default app then 30 else 0) + 10 + succeeded * 3 - failed * 8 - load * 20)"

definition engine_option :: "app_view \<Rightarrow> selection_mode \<Rightarrow> workflow_capability list \<Rightarrow> engine_profile \<Rightarrow> engine_option" where
  "engine_option app mode needed engine =
     \<lparr>eo_engineId = ep_id engine, eo_profileRevision = ep_revision engine,
      eo_eligible = engine_eligible mode needed engine,
      eo_score = (if engine_eligible mode needed engine then Some (engine_score app engine) else None)\<rparr>"

definition option_score :: "engine_option \<Rightarrow> int" where
  "option_score c = (case eo_score c of Some n \<Rightarrow> n | None \<Rightarrow> 0)"

text \<open>The comparison of the sort: higher scores first, then by identifier.\<close>

definition better_option :: "app_view \<Rightarrow> engine_option \<Rightarrow> engine_option \<Rightarrow> bool" where
  "better_option app a b \<longleftrightarrow>
     (if option_score b - option_score a \<noteq> 0 then option_score b - option_score a < 0
      else av_compare app (eo_engineId a) (eo_engineId b) < 0)"

definition mode_of :: "jstring option \<Rightarrow> selection_mode" where
  "mode_of engineId = (case engineId of None \<Rightarrow> Auto | Some i \<Rightarrow> if i = [] \<or> i = js ''auto'' then Auto else Explicit)"

definition selectWorkflowEngine ::
    "app_view \<Rightarrow> jstring option \<Rightarrow> workflow_capability list \<Rightarrow> engine_selection option" where
  "selectWorkflowEngine app engineId needed =
     (let mode = mode_of engineId;
          candidates = map (engine_option app mode needed) (av_engines app);
          selected = (if mode = Explicit then find (\<lambda>c. Some (eo_engineId c) = engineId \<and> eo_eligible c) candidates
            else case sort_by (better_option app) (filter eo_eligible candidates) of [] \<Rightarrow> None | c # _ \<Rightarrow> Some c)
      in case selected of
           None \<Rightarrow> None
         | Some c \<Rightarrow> Some \<lparr>se_engineId = eo_engineId c, se_profileRevision = eo_profileRevision c,
             se_mode = mode, se_candidates = candidates\<rparr>)"

section \<open>The choice\<close>

lemma sort_by_head:
  assumes asym: "\<And>x y. lt x y \<Longrightarrow> \<not> lt y x" and weak: "\<And>x y z. lt x z \<Longrightarrow> lt x y \<or> lt y z"
  shows "sort_by lt xs = c # cs \<Longrightarrow> \<forall>x \<in> set xs. \<not> lt x c"
proof (induction xs arbitrary: c cs)
  case (Cons x xs)
  show ?case
  proof (cases "sort_by lt xs")
    case Nil
    then have "xs = []" by (metis length_0_conv length_sort_by)
    with Cons.prems show ?thesis using asym by (auto simp: sort_by_def)
  next
    case (Cons d ds)
    with Cons.prems have "c = (if lt d x then d else x)" by (auto simp: sort_by_def split: if_splits)
    with Cons.IH [OF Cons] show ?thesis using asym weak by auto blast+
  qed
qed (simp add: sort_by_def)

text \<open>
  The engine chosen is one that is enabled, is no test engine and has what is needed, and it is the
  one named or, when none is named, none that could be chosen scores higher. There is no choice only where
  no such engine is.
\<close>

theorem engine_choice_is_best:
  assumes order: "\<And>x y. av_compare app x y < 0 \<Longrightarrow> \<not> av_compare app y x < 0"
      "\<And>x y z. av_compare app x z < 0 \<Longrightarrow> av_compare app x y < 0 \<or> av_compare app y z < 0"
  shows "case selectWorkflowEngine app engineId needed of
      Some sel \<Rightarrow> \<exists>e \<in> set (av_engines app). ep_id e = se_engineId sel \<and> ep_revision e = se_profileRevision sel \<and>
        engine_eligible (mode_of engineId) needed e \<and>
        (mode_of engineId = Explicit \<longrightarrow> engineId = Some (ep_id e)) \<and>
        (mode_of engineId = Auto \<longrightarrow> (\<forall>f \<in> set (av_engines app). engine_eligible Auto needed f \<longrightarrow>
           engine_score app f \<le> engine_score app e))
    | None \<Rightarrow> \<forall>e \<in> set (av_engines app). engine_eligible (mode_of engineId) needed e \<longrightarrow>
        mode_of engineId = Explicit \<and> engineId \<noteq> Some (ep_id e)"
proof (cases "mode_of engineId")
  case Explicit
  let ?cs = "map (engine_option app Explicit needed) (av_engines app)"
  have chosen: "selectWorkflowEngine app engineId needed = map_option (\<lambda>c. \<lparr>se_engineId = eo_engineId c,
      se_profileRevision = eo_profileRevision c, se_mode = Explicit, se_candidates = ?cs\<rparr>)
      (find (\<lambda>c. Some (eo_engineId c) = engineId \<and> eo_eligible c) ?cs)"
    using Explicit by (simp add: selectWorkflowEngine_def Let_def split: option.split)
  have real: "\<exists>e \<in> set (av_engines app). ep_id e = eo_engineId c \<and> ep_revision e = eo_profileRevision c \<and>
      engine_eligible Explicit needed e" if "c \<in> set ?cs" "eo_eligible c" for c
    using that by (auto simp: engine_option_def)
  show ?thesis
  proof (cases "find (\<lambda>c. Some (eo_engineId c) = engineId \<and> eo_eligible c) ?cs")
    case None
    then have "\<forall>e \<in> set (av_engines app). engine_eligible Explicit needed e \<longrightarrow> engineId \<noteq> Some (ep_id e)"
      by (auto simp: find_None_iff engine_option_def)
    with chosen None Explicit show ?thesis by simp
  next
    case (Some c)
    then have "c \<in> set ?cs" "Some (eo_engineId c) = engineId" "eo_eligible c" by (auto dest: find_Some_set)
    with real [of c] chosen Some Explicit show ?thesis by simp metis
  qed
next
  case Auto
  let ?cs = "map (engine_option app Auto needed) (av_engines app)"
  let ?sorted = "sort_by (better_option app) (filter eo_eligible ?cs)"
  show ?thesis
  proof (cases ?sorted)
    case Nil
    then have "filter eo_eligible ?cs = []" by (metis length_0_conv length_sort_by)
    then show ?thesis
      using Auto Nil by (auto simp: selectWorkflowEngine_def Let_def filter_empty_conv engine_option_def)
  next
    case (Cons c cs)
    then have "c \<in> set (filter eo_eligible ?cs)" by (metis list.set_intros(1) set_sort_by)
    then obtain e where e: "e \<in> set (av_engines app)" "c = engine_option app Auto needed e" "engine_eligible Auto needed e"
      by (auto simp: engine_option_def)
    have "\<forall>d \<in> set (filter eo_eligible ?cs). \<not> better_option app d c"
      by (rule sort_by_head [OF _ _ Cons]) (use order in \<open>auto simp: better_option_def split: if_splits\<close>)
    then have worse: "\<not> better_option app (engine_option app Auto needed f) c"
      if "f \<in> set (av_engines app)" "engine_eligible Auto needed f" for f
      using that by (auto simp: engine_option_def)
    have "engine_score app f \<le> engine_score app e" if f: "f \<in> set (av_engines app)" "engine_eligible Auto needed f" for f
      using worse [OF f] f(2) e(2,3) by (auto simp: better_option_def option_score_def engine_option_def split: if_splits)
    with e Auto Cons show ?thesis
      by (auto simp: selectWorkflowEngine_def Let_def engine_option_def)
  qed
qed

definition demo_engine :: "string \<Rightarrow> bool \<Rightarrow> engine_profile" where
  "demo_engine i enabled = \<lparr>ep_id = js i, ep_driver = AcpDriver, ep_revision = [49], ep_enabled = enabled, ep_command = None,
     ep_model = None, ep_credentialEnv = None, ep_configuration = None, ep_cli = None, ep_acp = None,
     ep_maxConcurrency = 1, ep_capabilities = \<lparr>cap_resume = False, cap_permissions = True, cap_images = False\<rparr>\<rparr>"

definition demo_app :: app_view where
  "demo_app = \<lparr>av_engines = [demo_engine ''a'' True, demo_engine ''b'' True, demo_engine ''c'' False], av_sessions = [],
     av_runs = [], av_default = js ''b'', av_compare = (\<lambda>x y. int (length x) - int (length y))\<rparr>"

theorem engine_choice_is_best_witness:
  "map_option se_engineId (selectWorkflowEngine demo_app None [NeedsPermissions]) = Some (js ''b'') \<and>
    engine_score demo_app (demo_engine ''a'' True) \<le> engine_score demo_app (demo_engine ''b'' True)"
proof -
  have chosen: "map_option se_engineId (selectWorkflowEngine demo_app None [NeedsPermissions]) = Some (js ''b'')"
    by (simp add: demo_app_def demo_engine_def selectWorkflowEngine_def mode_of_def engine_option_def engine_eligible_def
        engine_score_def recent_runs_def engine_runs_def count_if_def sort_by_def better_option_def option_score_def Let_def)
  have order: "av_compare demo_app x y < 0 \<Longrightarrow> \<not> av_compare demo_app y x < 0"
      "av_compare demo_app x z < 0 \<Longrightarrow> av_compare demo_app x y < 0 \<or> av_compare demo_app y z < 0" for x y z
    by (auto simp: demo_app_def)
  from engine_choice_is_best [of demo_app None "[NeedsPermissions]", OF order] chosen show ?thesis
    by (auto simp: mode_of_def demo_app_def demo_engine_def engine_eligible_def)
qed

end
