(* ===== verification/WorkflowStates.thy ===== *)
theory WorkflowStates
  imports WorkflowEngines
begin

text \<open>
  The durable record of a workflow (\<open>packages/core/src/workflows.ts\<close>), what its store accepts as an
  update (\<open>SqliteWorkflowStore.update\<close> of \<open>packages/store/src/storage/workflow-store.ts\<close>) and what the
  result of a Run makes of its step (\<open>applyResult\<close> of \<open>packages/runtime/src/application/workflows.ts\<close>).

  Sessions and Runs of the application are rows of two lists, their identifiers the places.
\<close>

datatype workflow_status =
    WPlanning | WDraft | WRunning | WCancelling | WCompleted | WFailed | WCancelled | WInterrupted

datatype step_status =
    StepPending | StepRunning | StepCompleted | StepFailed | StepCancelled | StepBlocked | StepInterrupted

definition isWorkflowTerminal :: "workflow_status \<Rightarrow> bool" where
  "isWorkflowTerminal status \<longleftrightarrow> status \<in> set [WCompleted, WFailed, WCancelled, WInterrupted]"

text \<open>The codes of public errors; \<open>RunError\<close> is the error of a Run, \<open>RUN_X\<close> where it has none.\<close>

datatype wf_error =
    GATEWAY_STOPPED
  | WORKFLOW_PLANNING_FAILED terminal_status
  | WORKFLOW_PLANNER_USED_TOOLS
  | INVALID_PLAN plan_error
  | NO_ELIGIBLE_ENGINE
  | WORKFLOW_CONTEXT_TOO_LARGE
  | WORKFLOW_SESSION_MISSING
  | WORKFLOW_OUTPUT_MISSING
  | WORKFLOW_INTERRUPTED
  | WORKFLOW_OWNERSHIP_CONFLICT
  | WORKFLOW_ENGINE_CHANGED
  | WORKFLOW_NOT_DRAFT
  | WORKFLOW_UNAVAILABLE
  | WORKFLOW_INTERNAL_ERROR
  | RunError public_error
  | RUN_X terminal_status

record workflow_step = plan_step +
  st_status :: step_status
  st_selection :: engine_selection
  st_sessionId :: "nat option"
  st_runId :: "nat option"
  st_output :: "jstring option"
  st_artifactIds :: "jstring list option"
  st_error :: "wf_error option"

record workflow =
  wf_id :: jstring
  wf_status :: workflow_status
  wf_goal :: jstring
  wf_workspaceId :: jstring
  wf_requestedEngineId :: jstring
  wf_plannerEngineId :: jstring
  wf_plannerProfileRevision :: jstring
  wf_plannerSelection :: engine_selection
  wf_plannerTimeoutMs :: int
  wf_planningSessionId :: "nat option"
  wf_planningRunId :: "nat option"
  wf_title :: "jstring option"
  wf_steps :: "workflow_step list"
  wf_createdAt :: int
  wf_updatedAt :: int
  wf_approvedAt :: "int option"
  wf_finishedAt :: "int option"
  wf_error :: "wf_error option"

section \<open>Sessions and Runs of the application\<close>

record app_session =
  as_engine :: jstring
  as_revision :: jstring
  as_workspace :: jstring

text \<open>\<open>ap_tools\<close>: a tool update or a request for permission was recorded among the events of the Run.\<close>

record app_run =
  ap_session :: nat
  ap_key :: jstring
  ap_status :: run_status
  ap_output :: "jstring option"
  ap_error :: "public_error option"
  ap_artifacts :: "(jstring \<times> jstring) list"
  ap_tools :: bool

section \<open>Updates of the store\<close>

definition same_or_unset :: "'a option \<Rightarrow> 'a option \<Rightarrow> bool" where
  "same_or_unset old new \<longleftrightarrow> old = None \<or> old = new"

definition request_kept :: "workflow \<Rightarrow> workflow \<Rightarrow> bool" where
  "request_kept old new \<longleftrightarrow>
     wf_goal old = wf_goal new \<and> wf_workspaceId old = wf_workspaceId new \<and>
     wf_requestedEngineId old = wf_requestedEngineId new \<and> wf_plannerEngineId old = wf_plannerEngineId new \<and>
     wf_plannerProfileRevision old = wf_plannerProfileRevision new \<and>
     wf_plannerTimeoutMs old = wf_plannerTimeoutMs new \<and> wf_createdAt old = wf_createdAt new \<and>
     same_or_unset (wf_approvedAt old) (wf_approvedAt new) \<and>
     \<not> (length (wf_steps old) > 0 \<and> length (wf_steps old) \<noteq> length (wf_steps new)) \<and>
     same_or_unset (wf_planningSessionId old) (wf_planningSessionId new) \<and>
     same_or_unset (wf_planningRunId old) (wf_planningRunId new)"

definition step_kept :: "workflow_step \<Rightarrow> workflow_step \<Rightarrow> bool" where
  "step_kept old new \<longleftrightarrow>
     ps_instructions old = ps_instructions new \<and> ps_title old = ps_title new \<and>
     ps_timeoutMs old = ps_timeoutMs new \<and> ps_capabilities old = ps_capabilities new \<and>
     st_selection old = st_selection new \<and> ps_dependsOn old = ps_dependsOn new \<and> ps_outputs old = ps_outputs new \<and>
     same_or_unset (st_sessionId old) (st_sessionId new) \<and> same_or_unset (st_runId old) (st_runId new)"

definition get_step :: "jstring \<Rightarrow> workflow_step list \<Rightarrow> workflow_step option" where
  "get_step i steps = find (\<lambda>s. ps_id s = i) steps"

definition steps_kept :: "workflow_step list \<Rightarrow> workflow_step list \<Rightarrow> bool" where
  "steps_kept old new \<longleftrightarrow>
     list_all (\<lambda>s. case get_step (ps_id s) new of None \<Rightarrow> False | Some t \<Rightarrow> step_kept s t) old"

record identity =
  id_session :: "nat option"
  id_run :: "nat option"
  id_key :: jstring
  id_engine :: jstring
  id_revision :: jstring

definition planning_key :: "workflow \<Rightarrow> jstring" where
  "planning_key w = wf_id w @ js '':planning''"

definition step_key :: "workflow \<Rightarrow> 'a plan_step_scheme \<Rightarrow> jstring" where
  "step_key w s = wf_id w @ js '':'' @ ps_id s"

definition identities :: "workflow \<Rightarrow> identity list" where
  "identities w =
     \<lparr>id_session = wf_planningSessionId w, id_run = wf_planningRunId w, id_key = planning_key w,
      id_engine = wf_plannerEngineId w, id_revision = wf_plannerProfileRevision w\<rparr> #
     map (\<lambda>s. \<lparr>id_session = st_sessionId s, id_run = st_runId s, id_key = step_key w s,
       id_engine = se_engineId (st_selection s), id_revision = se_profileRevision (st_selection s)\<rparr>) (wf_steps w)"

definition identity_ok :: "app_session list \<Rightarrow> app_run list \<Rightarrow> jstring \<Rightarrow> identity \<Rightarrow> bool" where
  "identity_ok sessions runs workspace i \<longleftrightarrow>
     (case id_session i of
        None \<Rightarrow> True
      | Some n \<Rightarrow> n < length sessions \<and>
          sessions ! n = \<lparr>as_engine = id_engine i, as_revision = id_revision i, as_workspace = workspace\<rparr>) \<and>
     (case id_run i of
        None \<Rightarrow> True
      | Some n \<Rightarrow> n < length runs \<and> Some (ap_session (runs ! n)) = id_session i \<and> ap_key (runs ! n) = id_key i)"

text \<open>Whether an update is accepted; otherwise it throws \<open>WORKFLOW_OWNERSHIP_CONFLICT\<close> and writes nothing.\<close>

definition update_ok :: "app_session list \<Rightarrow> app_run list \<Rightarrow> workflow \<Rightarrow> workflow \<Rightarrow> bool" where
  "update_ok sessions runs previous workflow \<longleftrightarrow>
     request_kept previous workflow \<and> steps_kept (wf_steps previous) (wf_steps workflow) \<and>
     list_all (identity_ok sessions runs (wf_workspaceId workflow)) (identities workflow)"

definition submittedRun :: "app_run list \<Rightarrow> nat \<Rightarrow> jstring \<Rightarrow> nat option" where
  "submittedRun runs session key = find (\<lambda>n. ap_session (runs ! n) = session \<and> ap_key (runs ! n) = key) [0..<length runs]"

section \<open>Results of Runs\<close>

definition missing_outputs :: "'a plan_step_scheme \<Rightarrow> app_run \<Rightarrow> file_output list" where
  "missing_outputs s run = filter (\<lambda>out. out_name out \<notin> snd ` set (ap_artifacts run)) (ps_outputs s)"

definition applyResult :: "app_run \<Rightarrow> workflow_step \<Rightarrow> workflow_step" where
  "applyResult run s =
     (case ap_status run of
        Ended t \<Rightarrow>
          (let s = s\<lparr>st_output := (case ap_output run of Some x \<Rightarrow> Some x | None \<Rightarrow> st_output s),
                 st_artifactIds := Some (map fst (ap_artifacts run))\<rparr>
           in if t \<noteq> Completed then
                s\<lparr>st_status := (if t = Cancelled then StepCancelled else if t = Interrupted then StepInterrupted else StepFailed),
                  st_error := Some (case ap_error run of Some e \<Rightarrow> RunError e | None \<Rightarrow> RUN_X t)\<rparr>
              else if missing_outputs s run \<noteq> [] then
                s\<lparr>st_status := StepFailed, st_error := Some WORKFLOW_OUTPUT_MISSING\<rparr>
              else s\<lparr>st_status := StepCompleted\<rparr>)
      | _ \<Rightarrow> s)"

definition map_step :: "jstring \<Rightarrow> (workflow_step \<Rightarrow> workflow_step) \<Rightarrow> workflow_step list \<Rightarrow> workflow_step list" where
  "map_step i f steps = map (\<lambda>s. if ps_id s = i then f s else s) steps"

definition block_pending :: "workflow_step \<Rightarrow> workflow_step" where
  "block_pending s = (if st_status s = StepPending then s\<lparr>st_status := StepBlocked\<rparr> else s)"

end
