(* ===== verification/WorkflowService.thy ===== *)
theory WorkflowService
  imports WorkflowStates
begin

text \<open>
  The life of a workflow (\<open>class WorkflowService\<close> of \<open>packages/runtime/src/application/workflows.ts\<close>):
  planning, approval, the execution of the steps, cancellation and what a restart makes of it.

  An asynchronous method runs from one \<open>await\<close> to the next without interruption, and anything may happen
  while it waits. The state here is that of one workflow: its stored record, the place at which its task
  waits (\<open>w_task\<close>, with the local variables that are read after the wait), the sessions and Runs of the
  application. A Tick is what the task does when its wait is over; the other operations are requests, the
  progress of a Run, the end of the service and its restart. What the outside answers during an operation,
  the failures included, comes with it (\<open>answers\<close>).

  A poll of \<open>waitRun\<close> that finds its Run ended is one piece with what follows it: the wait for \<open>cancel\<close>
  of a Run that has ended changes nothing. The first poll follows the submission at once and finds nothing.

  Writes of the store, submissions, cancellations and closing may fail; its reads (\<open>get\<close>, \<open>getRun\<close>, \<open>events\<close>) do not,
  and a stored record is taken to decode (\<open>isWorkflow\<close>). A handler that catches an error runs at once.
\<close>

section \<open>State\<close>

record answers =
  aw_now :: int
  aw_ready :: bool
  aw_app :: app_view
  aw_fits :: bool  \<comment> \<open>the evidence of the dependencies has at most 500000 characters\<close>
  aw_decode :: "jstring \<Rightarrow> decoded"
  aw_folded :: "jstring \<Rightarrow> jstring"
  aw_writes :: "bool list"  \<comment> \<open>which of the updates to come fail; so the next four for their calls\<close>
  aw_creates :: "bool list"
  aw_submits :: "bool list"
  aw_closes :: "bool list"
  aw_cancels :: "bool list"

text \<open>
  The waits: for the planner's Run; for the planner's session to close, with the plan; for the Run of a
  step; for a step's session to close, with the step's result and the status then read; for all sessions
  to close before the end, after a failure, before a cancellation is recorded, the same within the handler
  of errors, and in its \<open>finally\<close>.
\<close>

datatype task =
    NoTask
  | PlanWait nat bool
  | PlanClosing jstring "workflow_step list"
  | StepWait nat jstring
  | StepClosing workflow_step workflow_status
  | Settling
  | FailClosing
  | CancelClosing
  | HandlerCancel
  | CatchClosing

record world =
  w_row :: workflow
  w_task :: task
  w_owned :: "nat list"
  w_closing :: bool
  w_failure :: bool
  w_asking :: nat  \<comment> \<open>calls of \<open>cancel\<close> that still wait\<close>
  w_sessions :: "app_session list"
  w_runs :: "app_run list"
  w_submits :: "(nat \<times> jstring) list"  \<comment> \<open>the calls of \<open>submit\<close> that were accepted\<close>
  w_closed :: "nat list"  \<comment> \<open>the sessions asked to close\<close>
  w_cancels :: "nat list"  \<comment> \<open>the Runs asked to cancel\<close>
  w_ans :: answers

definition next_answer :: "bool list \<Rightarrow> bool \<times> bool list" where
  "next_answer xs = (case xs of [] \<Rightarrow> (False, []) | x # xs \<Rightarrow> (x, xs))"

section \<open>Calls of the store and the application\<close>

definition save :: "workflow \<Rightarrow> world \<Rightarrow> wf_error option \<times> world" where
  "save row w =
     (let (fails, rest) = next_answer (aw_writes (w_ans w));
          w = w\<lparr>w_ans := (w_ans w)\<lparr>aw_writes := rest\<rparr>\<rparr>;
          row = row\<lparr>wf_updatedAt := aw_now (w_ans w)\<rparr>
      in if fails then (Some WORKFLOW_INTERNAL_ERROR, w)
         else if \<not> update_ok (w_sessions w) (w_runs w) (w_row w) row then (Some WORKFLOW_OWNERSHIP_CONFLICT, w)
         else (None, w\<lparr>w_row := row\<rparr>))"

text \<open>A session is of the engine's present revision.\<close>

definition createSession :: "jstring \<Rightarrow> jstring \<Rightarrow> world \<Rightarrow> (wf_error + nat) \<times> world" where
  "createSession engine workspace w =
     (let (fails, rest) = next_answer (aw_creates (w_ans w));
          w = w\<lparr>w_ans := (w_ans w)\<lparr>aw_creates := rest\<rparr>\<rparr>
      in case (if fails then None else find (\<lambda>e. ep_id e = engine) (av_engines (aw_app (w_ans w)))) of
           None \<Rightarrow> (Inl WORKFLOW_INTERNAL_ERROR, w)
         | Some e \<Rightarrow> (Inr (length (w_sessions w)),
             w\<lparr>w_sessions := w_sessions w @ [\<lparr>as_engine = engine, as_revision = ep_revision e, as_workspace = workspace\<rparr>]\<rparr>))"

text \<open>A key that was used in the session gives its Run back.\<close>

definition submit :: "nat \<Rightarrow> jstring \<Rightarrow> world \<Rightarrow> (wf_error + nat) \<times> world" where
  "submit session key w =
     (let (fails, rest) = next_answer (aw_submits (w_ans w));
          w = w\<lparr>w_ans := (w_ans w)\<lparr>aw_submits := rest\<rparr>\<rparr>
      in if fails then (Inl WORKFLOW_INTERNAL_ERROR, w)
         else (let w = w\<lparr>w_submits := w_submits w @ [(session, key)]\<rparr>
               in case submittedRun (w_runs w) session key of
                    Some n \<Rightarrow> (Inr n, w)
                  | None \<Rightarrow> (Inr (length (w_runs w)),
                      w\<lparr>w_runs := w_runs w @ [\<lparr>ap_session = session, ap_key = key, ap_status = Queued, ap_output = None,
                        ap_error = None, ap_artifacts = [], ap_tools = False\<rparr>]\<rparr>)))"

definition cancelRun :: "nat \<Rightarrow> world \<Rightarrow> bool \<times> world" where
  "cancelRun n w =
     (let (fails, rest) = next_answer (aw_cancels (w_ans w))
      in (fails, w\<lparr>w_cancels := w_cancels w @ [n], w_ans := (w_ans w)\<lparr>aw_cancels := rest\<rparr>\<rparr>))"

definition ownSession :: "nat \<Rightarrow> world \<Rightarrow> world" where
  "ownSession n w = w\<lparr>w_owned := set_add (w_owned w) n\<rparr>"

text \<open>\<open>closeOwnedSessions\<close>: the sessions asked for, with the record given; the wait follows.\<close>

definition closeOwnedSessions :: "workflow \<Rightarrow> world \<Rightarrow> world" where
  "closeOwnedSessions row w =
     w\<lparr>w_closed := w_closed w @ foldl set_add (w_owned w)
        (List.map_filter id (wf_planningSessionId row # map st_sessionId (wf_steps row)))\<rparr>"

definition closeSession :: "nat \<Rightarrow> world \<Rightarrow> world" where
  "closeSession n w = w\<lparr>w_closed := w_closed w @ [n]\<rparr>"

definition close_fails :: "world \<Rightarrow> bool" where
  "close_fails w = fst (next_answer (aw_closes (w_ans w)))"

section \<open>The task\<close>

text \<open>\<open>finally\<close> of \<open>launch\<close>.\<close>

definition task_over :: "world \<Rightarrow> world" where
  "task_over w = w\<lparr>w_task := NoTask, w_owned := []\<rparr>"

definition set_status :: "workflow_status \<Rightarrow> world \<Rightarrow> workflow \<Rightarrow> workflow" where
  "set_status status w row = row\<lparr>wf_status := status, wf_finishedAt := Some (aw_now (w_ans w))\<rparr>"

text \<open>The handler of \<open>launch\<close>.\<close>

definition caught :: "wf_error \<Rightarrow> world \<Rightarrow> world" where
  "caught e w =
     (if wf_status (w_row w) = WCancelling \<and> \<not> w_closing w then (closeOwnedSessions (w_row w) w)\<lparr>w_task := HandlerCancel\<rparr>
      else
        (let row = (w_row w)\<lparr>wf_status := (if w_closing w then WInterrupted else WFailed),
               wf_error := Some (if w_closing w then GATEWAY_STOPPED else e),
               wf_finishedAt := Some (aw_now (w_ans w)),
               wf_steps := map block_pending (wf_steps (w_row w))\<rparr>
         in case save row w of
              (None, w) \<Rightarrow> (closeOwnedSessions row w)\<lparr>w_task := CatchClosing\<rparr>
            | (Some e, w) \<Rightarrow> (closeOwnedSessions row w)\<lparr>w_failure := True, w_task := CatchClosing\<rparr>))"

text \<open>\<open>finishCancelled\<close>, up to its wait and after it.\<close>

definition finishCancelled :: "world \<Rightarrow> world" where
  "finishCancelled w = (closeOwnedSessions (w_row w) w)\<lparr>w_task := CancelClosing\<rparr>"

definition cancel_step :: "world \<Rightarrow> workflow_step \<Rightarrow> workflow_step" where
  "cancel_step w s =
     (case st_runId s of
        Some n \<Rightarrow> applyResult (w_runs w ! n) s
      | None \<Rightarrow> if st_status s = StepPending then s\<lparr>st_status := StepCancelled\<rparr> else s)"

definition cancelled_row :: "world \<Rightarrow> workflow" where
  "cancelled_row w = set_status WCancelled w ((w_row w)\<lparr>wf_steps := map (cancel_step w) (wf_steps (w_row w))\<rparr>)"

definition ready_step :: "workflow_step list \<Rightarrow> workflow_step option" where
  "ready_step steps =
     find (\<lambda>s. st_status s = StepPending \<and>
       list_all (\<lambda>d. map_option st_status (get_step d steps) = Some StepCompleted) (ps_dependsOn s)) steps"

text \<open>A turn of the loop of \<open>execute\<close>, up to the wait for the Run it submits.\<close>

definition execute :: "world \<Rightarrow> world" where
  "execute w =
     (let row = w_row w
      in if wf_status row = WCancelling then finishCancelled w
         else if w_closing w then caught GATEWAY_STOPPED w
         else case ready_step (wf_steps row) of
           None \<Rightarrow> (closeOwnedSessions row w)\<lparr>w_task := Settling\<rparr>
         | Some s \<Rightarrow>
             (case st_sessionId s of
                None \<Rightarrow> caught WORKFLOW_SESSION_MISSING w
              | Some session \<Rightarrow>
                  if \<not> aw_fits (w_ans w) then caught WORKFLOW_CONTEXT_TOO_LARGE w
                  else case submit session (step_key row s) w of
                    (Inl e, w) \<Rightarrow> caught e w
                  | (Inr n, w) \<Rightarrow>
                      (case save (row\<lparr>wf_steps := map_step (ps_id s)
                          (\<lambda>s. s\<lparr>st_runId := Some n, st_status := StepRunning\<rparr>) (wf_steps row)\<rparr>) w of
                         (Some e, w) \<Rightarrow> caught e w
                       | (None, w) \<Rightarrow> w\<lparr>w_task := StepWait n (ps_id s)\<rparr>)))"

text \<open>The task of \<open>create\<close>: \<open>plan\<close>, up to the wait for the planner's Run.\<close>

definition plan_start :: "world \<Rightarrow> world" where
  "plan_start w =
     (let row = w_row w
      in case createSession (wf_plannerEngineId row) (wf_workspaceId row) w of
        (Inl e, w) \<Rightarrow> caught e w
      | (Inr session, w) \<Rightarrow>
          (let w = ownSession session w; row = row\<lparr>wf_planningSessionId := Some session\<rparr>
           in case save row w of
             (Some e, w) \<Rightarrow> caught e w
           | (None, w) \<Rightarrow>
               (case submit session (planning_key row) w of
                  (Inl e, w) \<Rightarrow> caught e w
                | (Inr n, w) \<Rightarrow>
                    (case save (row\<lparr>wf_planningRunId := Some n\<rparr>) w of
                       (Some e, w) \<Rightarrow> caught e w
                     | (None, w) \<Rightarrow> w\<lparr>w_task := PlanWait n False\<rparr>))))"

definition plan_steps :: "world \<Rightarrow> plan_step list \<Rightarrow> workflow_step list option" where
  "plan_steps w steps =
     those (map (\<lambda>s.
       let needed = (case ps_capabilities s of Some c \<Rightarrow> c | None \<Rightarrow> [])
       in map_option (\<lambda>selection.
         \<lparr>ps_id = ps_id s, ps_title = ps_title s, ps_instructions = ps_instructions s, ps_dependsOn = ps_dependsOn s,
          ps_outputs = ps_outputs s, ps_capabilities = Some needed,
          ps_timeoutMs = Some (case ps_timeoutMs s of Some t \<Rightarrow> t | None \<Rightarrow> 180000),
          st_status = StepPending, st_selection = selection, st_sessionId = None, st_runId = None, st_output = None,
          st_artifactIds = None, st_error = None\<rparr>)
         (selectWorkflowEngine (aw_app (w_ans w)) (Some (wf_requestedEngineId (w_row w))) needed)) steps)"

text \<open>\<open>plan\<close> after the planner's Run ended, up to the wait for its session, and after that.\<close>

definition planned :: "app_run \<Rightarrow> terminal_status \<Rightarrow> world \<Rightarrow> world" where
  "planned run t w =
     (if wf_status (w_row w) = WCancelling then finishCancelled w
      else if w_closing w then caught GATEWAY_STOPPED w
      else if t \<noteq> Completed then caught (WORKFLOW_PLANNING_FAILED t) w
      else case parseWorkflowPlan (aw_decode (w_ans w)) (aw_folded (w_ans w))
          (case ap_output run of Some text \<Rightarrow> text | None \<Rightarrow> []) of
        Inl e \<Rightarrow> caught (INVALID_PLAN e) w
      | Inr plan \<Rightarrow>
          (case plan_steps w (pl_steps plan) of
             None \<Rightarrow> caught NO_ELIGIBLE_ENGINE w
           | Some steps \<Rightarrow>
               (closeSession (ap_session run) w)\<lparr>w_task := PlanClosing (pl_title plan) steps\<rparr>))"

definition plan_closed :: "jstring \<Rightarrow> workflow_step list \<Rightarrow> world \<Rightarrow> world" where
  "plan_closed title steps w =
     (if close_fails w then caught WORKFLOW_INTERNAL_ERROR w
      else if wf_status (w_row w) = WCancelling then finishCancelled w
      else case save ((w_row w)\<lparr>wf_title := Some title, wf_steps := steps, wf_status := WDraft\<rparr>) w of
        (Some e, w) \<Rightarrow> caught e w
      | (None, w) \<Rightarrow> task_over w)"

text \<open>A poll of \<open>waitRun\<close>, for the planner with the tools seen so far.\<close>

definition poll_cancels :: "nat \<Rightarrow> bool \<Rightarrow> world \<Rightarrow> bool \<times> world" where
  "poll_cancels n tools w =
     (if w_closing w \<or> wf_status (w_row w) = WCancelling \<or> tools then cancelRun n w else (False, w))"

definition poll_planner :: "nat \<Rightarrow> bool \<Rightarrow> world \<Rightarrow> world" where
  "poll_planner n tools w =
     (let run = w_runs w ! n;
          tools = (tools \<or> ap_tools run);
          (fails, w) = poll_cancels n tools w
      in if fails then caught WORKFLOW_INTERNAL_ERROR w
         else case ap_status run of
           Ended t \<Rightarrow> if tools then caught WORKFLOW_PLANNER_USED_TOOLS w else planned run t w
         | _ \<Rightarrow> w\<lparr>w_task := PlanWait n tools\<rparr>)"

text \<open>The result of a step's Run, up to the wait for its session.\<close>

definition step_ended :: "app_run \<Rightarrow> jstring \<Rightarrow> world \<Rightarrow> world" where
  "step_ended run i w =
     (case get_step i (wf_steps (w_row w)) of
        None \<Rightarrow> caught WORKFLOW_INTERNAL_ERROR w
      | Some s \<Rightarrow>
          (let finished = applyResult run s
           in case save ((w_row w)\<lparr>wf_steps := map_step i (\<lambda>s. finished) (wf_steps (w_row w))\<rparr>) w of
                (Some e, w) \<Rightarrow> caught e w
              | (None, w) \<Rightarrow>
                  (closeSession (ap_session run) w)\<lparr>w_task := StepClosing finished (wf_status (w_row w))\<rparr>))"

definition poll_step :: "nat \<Rightarrow> jstring \<Rightarrow> world \<Rightarrow> world" where
  "poll_step n i w =
     (let run = w_runs w ! n;
          (fails, w) = poll_cancels n False w
      in if fails then caught WORKFLOW_INTERNAL_ERROR w
         else case ap_status run of
           Ended t \<Rightarrow> step_ended run i w
         | _ \<Rightarrow> w)"

text \<open>The end of a turn of \<open>execute\<close>: \<open>status\<close> was read before the wait.\<close>

definition step_closed :: "workflow_step \<Rightarrow> workflow_status \<Rightarrow> world \<Rightarrow> world" where
  "step_closed finished status w =
     (if close_fails w then caught WORKFLOW_INTERNAL_ERROR w
      else if w_closing w then caught GATEWAY_STOPPED w
      else if status = WCancelling then finishCancelled w
      else if st_status finished \<noteq> StepCompleted then
        (let stopped = set_status WFailed w ((w_row w)\<lparr>wf_error := st_error finished,
               wf_steps := map block_pending (wf_steps (w_row w))\<rparr>)
         in case save stopped w of
              (Some e, w) \<Rightarrow> caught e w
            | (None, w) \<Rightarrow> (closeOwnedSessions stopped w)\<lparr>w_task := FailClosing\<rparr>)
      else execute w)"

text \<open>No step is left to start and all sessions are closed.\<close>

definition settled_row :: "world \<Rightarrow> workflow" where
  "settled_row w =
     (let steps = wf_steps (w_row w)
      in set_status (if list_all (\<lambda>s. st_status s = StepCompleted) steps then WCompleted else WFailed) w
           ((w_row w)\<lparr>wf_steps := map block_pending steps\<rparr>))"

definition save_and_end :: "workflow \<Rightarrow> world \<Rightarrow> world" where
  "save_and_end row w = (case save row w of (Some e, w) \<Rightarrow> caught e w | (None, w) \<Rightarrow> task_over w)"

definition settle_all :: "world \<Rightarrow> world" where
  "settle_all w =
     (if close_fails w then caught WORKFLOW_INTERNAL_ERROR w
      else if wf_status (w_row w) = WCancelling then finishCancelled w
      else save_and_end (settled_row w) w)"

text \<open>Within the handler an error is kept in \<open>failure\<close>; its \<open>finally\<close> closes the sessions again.\<close>

definition handler_cancelled :: "world \<Rightarrow> world" where
  "handler_cancelled w =
     (let row = w_row w; w' = (if close_fails w then w\<lparr>w_failure := True\<rparr>
        else case save (cancelled_row w) w of (Some e, w) \<Rightarrow> w\<lparr>w_failure := True\<rparr> | (None, w) \<Rightarrow> w)
      in (closeOwnedSessions row w')\<lparr>w_task := CatchClosing\<rparr>)"

definition tick :: "world \<Rightarrow> world" where
  "tick w =
     (case w_task w of
        NoTask \<Rightarrow> w
      | PlanWait n tools \<Rightarrow> poll_planner n tools w
      | PlanClosing title steps \<Rightarrow> plan_closed title steps w
      | StepWait n i \<Rightarrow> poll_step n i w
      | StepClosing finished status \<Rightarrow> step_closed finished status w
      | Settling \<Rightarrow> settle_all w
      | FailClosing \<Rightarrow> if close_fails w then caught WORKFLOW_INTERNAL_ERROR w else task_over w
      | CancelClosing \<Rightarrow>
          if close_fails w then caught WORKFLOW_INTERNAL_ERROR w else save_and_end (cancelled_row w) w
      | HandlerCancel \<Rightarrow> handler_cancelled w
      | CatchClosing \<Rightarrow> task_over (if close_fails w then w\<lparr>w_failure := True\<rparr> else w))"

section \<open>Requests\<close>

text \<open>\<open>approve\<close>: a session for every step, each recorded before the next.\<close>

fun bind_sessions :: "workflow_step list \<Rightarrow> workflow \<Rightarrow> world \<Rightarrow> wf_error option \<times> workflow \<times> world" where
  "bind_sessions [] row w = (None, row, w)"
| "bind_sessions (s # rest) row w =
     (case createSession (se_engineId (st_selection s)) (wf_workspaceId row) w of
        (Inl e, w) \<Rightarrow> (Some e, row, w)
      | (Inr session, w) \<Rightarrow>
          (let row = row\<lparr>wf_steps := map_step (ps_id s) (\<lambda>s. s\<lparr>st_sessionId := Some session\<rparr>) (wf_steps row)\<rparr>
           in case save row (ownSession session w) of
                (Some e, w) \<Rightarrow> (Some e, row, w)
              | (None, w) \<Rightarrow> bind_sessions rest row w))"

definition isReady :: "world \<Rightarrow> bool" where
  "isReady w \<longleftrightarrow> \<not> w_closing w \<and> \<not> w_failure w \<and> aw_ready (w_ans w)"

definition engine_unchanged :: "world \<Rightarrow> workflow_step \<Rightarrow> bool" where
  "engine_unchanged w s \<longleftrightarrow>
     (case find (\<lambda>e. ep_id e = se_engineId (st_selection s)) (av_engines (aw_app (w_ans w))) of
        None \<Rightarrow> False
      | Some e \<Rightarrow> ep_enabled e \<and> ep_revision e = se_profileRevision (st_selection s))"

definition approve_failed :: "wf_error \<Rightarrow> workflow \<Rightarrow> world \<Rightarrow> world" where
  "approve_failed e row w =
     (let failed = set_status WFailed w (row\<lparr>wf_error := Some e\<rparr>);
          w = (case save failed w of (Some e, w) \<Rightarrow> w\<lparr>w_failure := True\<rparr> | (None, w) \<Rightarrow> w)
      in (closeOwnedSessions failed w)\<lparr>w_task := FailClosing\<rparr>)"

definition approve :: "world \<Rightarrow> (wf_error + workflow) \<times> world" where
  "approve w =
     (if \<not> isReady w then (Inl WORKFLOW_UNAVAILABLE, w)
      else if wf_approvedAt (w_row w) \<noteq> None then (Inr (w_row w), w)
      else if wf_status (w_row w) \<noteq> WDraft then (Inl WORKFLOW_NOT_DRAFT, w)
      else if list_ex (\<lambda>s. \<not> engine_unchanged w s) (wf_steps (w_row w)) then (Inl WORKFLOW_ENGINE_CHANGED, w)
      else
        (case bind_sessions (wf_steps (w_row w)) (w_row w) w of
           (Some e, row, w) \<Rightarrow> (Inl e, approve_failed e row w)
         | (None, row, w) \<Rightarrow>
             (let row = row\<lparr>wf_approvedAt := Some (aw_now (w_ans w)), wf_status := WRunning\<rparr>
              in case save row w of
                   (Some e, w) \<Rightarrow> (Inl e, approve_failed e row w)
                 | (None, w) \<Rightarrow> (let w = execute w in (Inr (w_row w), w)))))"

text \<open>\<open>cancel\<close> up to its waits for the Runs to cancel, and after them.\<close>

definition cancel_asked :: "world \<Rightarrow> (wf_error option) \<times> world" where
  "cancel_asked w =
     (if isWorkflowTerminal (wf_status (w_row w)) then (None, w)
      else case save ((w_row w)\<lparr>wf_status := WCancelling\<rparr>) w of
        (Some e, w) \<Rightarrow> (Some e, w)
      | (None, w) \<Rightarrow>
          (None, w\<lparr>w_asking := w_asking w + 1,
             w_cancels := w_cancels w @ List.map_filter id (wf_planningRunId (w_row w) #
               map (\<lambda>s. if st_status s = StepRunning then st_runId s else None) (wf_steps (w_row w)))\<rparr>))"

definition cancel_returns :: "world \<Rightarrow> world" where
  "cancel_returns w =
     (if w_asking w = 0 then w
      else
        (let w = w\<lparr>w_asking := w_asking w - 1\<rparr>
         in if fst (next_answer (aw_cancels (w_ans w))) \<or> w_task w \<noteq> NoTask then w else finishCancelled w))"

section \<open>Restart\<close>

definition recovered_run :: "world \<Rightarrow> nat option \<Rightarrow> nat option \<Rightarrow> jstring \<Rightarrow> nat option" where
  "recovered_run w session run key =
     (case (session, run) of
        (Some n, None) \<Rightarrow> submittedRun (w_runs w) n key
      | _ \<Rightarrow> run)"

definition reconcile_step :: "world \<Rightarrow> workflow_step \<Rightarrow> workflow_step" where
  "reconcile_step w s =
     (let s = s\<lparr>st_runId := recovered_run w (st_sessionId s) (st_runId s) (step_key (w_row w) s)\<rparr>;
          s = (case st_runId s of Some n \<Rightarrow> applyResult (w_runs w ! n) s | None \<Rightarrow> s);
          s = (if st_status s = StepRunning then s\<lparr>st_status := StepInterrupted\<rparr> else s)
      in block_pending s)"

definition reconcile :: "world \<Rightarrow> workflow" where
  "reconcile w =
     (let row = w_row w; steps = map (reconcile_step w) (wf_steps row);
          allCompleted = (steps \<noteq> [] \<and> list_all (\<lambda>s. st_status s = StepCompleted) steps)
      in set_status (if allCompleted then WCompleted else WInterrupted) w
           (row\<lparr>wf_planningRunId := recovered_run w (wf_planningSessionId row) (wf_planningRunId row) (planning_key row),
              wf_steps := steps,
              wf_error := (if allCompleted then wf_error row else Some WORKFLOW_INTERRUPTED)\<rparr>))"

text \<open>The process ended, and another one starts the service on what was stored.\<close>

definition restart :: "world \<Rightarrow> world" where
  "restart w =
     (let w = w\<lparr>w_task := NoTask, w_owned := [], w_closing := False, w_failure := False, w_asking := 0\<rparr>
      in if isWorkflowTerminal (wf_status (w_row w)) \<or> wf_status (w_row w) = WDraft then w
         else case save (reconcile w) w of (Some e, w) \<Rightarrow> w\<lparr>w_failure := True\<rparr> | (None, w) \<Rightarrow> w)"

text \<open>\<open>close\<close>, up to its wait for the task.\<close>

definition close_service :: "world \<Rightarrow> world" where
  "close_service w =
     w\<lparr>w_closing := True,
       w_cancels := w_cancels w @ (if w_task w = NoTask then [] else List.map_filter id (wf_planningRunId (w_row w) #
         map (\<lambda>s. if st_status s = StepRunning then st_runId s else None) (wf_steps (w_row w))))\<rparr>"

section \<open>Histories\<close>

text \<open>A Run moves on until it has ended.\<close>

definition run_moves :: "nat \<Rightarrow> run_status \<Rightarrow> jstring option \<Rightarrow> public_error option \<Rightarrow> (jstring \<times> jstring) list \<Rightarrow> bool \<Rightarrow> world \<Rightarrow> world" where
  "run_moves n status output error artifacts tools w =
     (if n < length (w_runs w) \<and> \<not> isTerminal (ap_status (w_runs w ! n))
      then w\<lparr>w_runs := (w_runs w)[n := (w_runs w ! n)\<lparr>ap_status := status, ap_output := output, ap_error := error,
        ap_artifacts := artifacts, ap_tools := ap_tools (w_runs w ! n) \<or> tools\<rparr>]\<rparr>
      else w)"

datatype wf_op =
    Tick answers
  | Approve answers
  | CancelAsked answers
  | CancelReturns answers
  | RunMoves nat run_status "jstring option" "public_error option" "(jstring \<times> jstring) list" bool
  | CloseService
  | Restart answers

fun wf_step :: "wf_op \<Rightarrow> world \<Rightarrow> unit \<times> world" where
  "wf_step (Tick a) w = ((), tick (w\<lparr>w_ans := a\<rparr>))"
| "wf_step (Approve a) w = ((), snd (approve (w\<lparr>w_ans := a\<rparr>)))"
| "wf_step (CancelAsked a) w = ((), snd (cancel_asked (w\<lparr>w_ans := a\<rparr>)))"
| "wf_step (CancelReturns a) w = ((), cancel_returns (w\<lparr>w_ans := a\<rparr>))"
| "wf_step (RunMoves n status output error artifacts tools) w = ((), run_moves n status output error artifacts tools w)"
| "wf_step CloseService w = ((), close_service w)"
| "wf_step (Restart a) w = ((), restart (w\<lparr>w_ans := a\<rparr>))"

text \<open>The world in which \<open>create\<close> stored a workflow and launched its task.\<close>

definition new_world :: "workflow \<Rightarrow> answers \<Rightarrow> world" where
  "new_world row a = \<lparr>w_row = row, w_task = NoTask, w_owned = [], w_closing = False, w_failure = False, w_asking = 0,
     w_sessions = [], w_runs = [], w_submits = [], w_closed = [], w_cancels = [], w_ans = a\<rparr>"

end
