(* ===== verification/WorkflowPlanProps.thy ===== *)
theory WorkflowPlanProps
  imports WorkflowPlans
begin

text \<open>
  Which plans \<open>parseWorkflowPlan\<close> accepts: the loops and the recursive search of the code against
  the relation \<open>dep\<close> of a plan.
\<close>

definition dep :: "'a plan_step_scheme list \<Rightarrow> (jstring \<times> jstring) set" where
  "dep steps = {(d, i). \<exists>s \<in> set steps. ps_id s = i \<and> d \<in> set (ps_dependsOn s)}"

abbreviation step_ids :: "'a plan_step_scheme list \<Rightarrow> jstring list" where
  "step_ids steps \<equiv> map ps_id steps"

definition deps_known :: "'a plan_step_scheme list \<Rightarrow> bool" where
  "deps_known steps \<longleftrightarrow> (\<forall>s \<in> set steps. set (ps_dependsOn s) \<subseteq> set (step_ids steps))"

lemma check_steps_None:
  "check_steps folded ids steps = None \<longleftrightarrow>
     (\<forall>s \<in> set steps. (\<forall>d \<in> set (ps_dependsOn s). d \<in> set ids \<and> d \<noteq> ps_id s) \<and>
        (ps_outputs s \<noteq> [] \<longrightarrow> validateFileOutputs folded (ps_outputs s)))"
  by (induction steps) (auto simp: list_ex_iff)

lemma ids_unique: "length (foldl set_add [] xs) = length xs \<longleftrightarrow> distinct xs"
proof -
  have "card (set xs) = length (foldl set_add [] xs)"
    using distinct_card [of "foldl set_add [] xs"] by simp
  then show ?thesis by (metis card_distinct distinct_card)
qed

lemma dep_of:
  assumes "distinct (step_ids steps)" "s \<in> set steps" "(d, ps_id s) \<in> dep steps"
  shows "d \<in> set (ps_dependsOn s)"
proof -
  obtain t where t: "t \<in> set steps" "ps_id t = ps_id s" "d \<in> set (ps_dependsOn t)"
    using assms(3) by (auto simp: dep_def)
  then have "t = s" using assms(1,2) by (auto simp: distinct_map dest: inj_onD)
  with t(3) show ?thesis by simp
qed

lemma card_ids: "distinct (step_ids steps) \<Longrightarrow> card (ps_id ` set steps) = length steps"
  using distinct_card [of "step_ids steps"] by simp

lemma dep_ids: "deps_known steps \<Longrightarrow> dep steps \<subseteq> set (step_ids steps) \<times> set (step_ids steps)"
  by (auto simp: dep_def deps_known_def)

lemma finite_dep: "deps_known steps \<Longrightarrow> finite (dep steps)"
  by (rule finite_subset [OF dep_ids]) auto

section \<open>The search for a cycle\<close>

lemma reached_accessible:
  assumes "all_reached steps reached" "distinct (step_ids steps)" "distinct reached"
    and "set reached \<subseteq> set (step_ids steps)" "set reached \<subseteq> Wellfounded.acc (dep steps)"
  shows "set (step_ids steps) \<subseteq> Wellfounded.acc (dep steps)"
  using assms
proof (induction steps reached rule: all_reached.induct)
  case (1 steps reached)
  let ?ready = "ready_steps steps reached"
  show ?case
  proof (cases "length reached < length steps")
    case True
    with "1.prems"(1) have more: "?ready \<noteq> []" "all_reached steps (foldl set_add reached (map ps_id ?ready))"
      by (subst (asm) all_reached.simps, simp add: Let_def split: if_splits)+
    have "ps_id s \<in> Wellfounded.acc (dep steps)" if s: "s \<in> set ?ready" for s
    proof (rule accI)
      fix d
      assume "(d, ps_id s) \<in> dep steps"
      with dep_of [OF "1.prems"(2)] s have "d \<in> set (ps_dependsOn s)" by (auto simp: ready_steps_def)
      with s "1.prems"(5) show "d \<in> Wellfounded.acc (dep steps)" by (auto simp: ready_steps_def list_all_iff)
    qed
    then show ?thesis
      using "1.IH" [OF True refl more(1) more(2)] "1.prems" by (auto simp: ready_steps_def)
  next
    case False
    then have "card (set (step_ids steps)) \<le> card (set reached)"
      using "1.prems"(2,3) by (simp add: distinct_card card_ids)
    with "1.prems"(4,5) show ?thesis using card_seteq [of "set (step_ids steps)" "set reached"] by auto
  qed
qed

lemma reaches_all:
  assumes "wf (dep steps)" "deps_known steps" "distinct (step_ids steps)"
    and "distinct reached" "set reached \<subseteq> set (step_ids steps)"
  shows "all_reached steps reached"
  using assms
proof (induction steps reached rule: all_reached.induct)
  case (1 steps reached)
  let ?ready = "ready_steps steps reached"
  show ?case
  proof (cases "length reached < length steps")
    case True
    have "set (step_ids steps) - set reached \<noteq> {}"
    proof
      assume "set (step_ids steps) - set reached = {}"
      then have "card (set (step_ids steps)) \<le> card (set reached)" by (auto intro: card_mono)
      with True "1.prems"(3,4) show False by (simp add: distinct_card card_ids)
    qed
    then obtain i where "i \<in> set (step_ids steps) - set reached"
        and least: "\<And>d. (d, i) \<in> dep steps \<Longrightarrow> d \<notin> set (step_ids steps) - set reached"
      using "1.prems"(1) by (metis ex_in_conv wfE_min)
    then obtain s where s: "s \<in> set steps" "ps_id s = i" "i \<notin> set reached" by auto
    have "\<forall>d \<in> set (ps_dependsOn s). d \<in> set reached"
    proof
      fix d assume d: "d \<in> set (ps_dependsOn s)"
      with s have "(d, i) \<in> dep steps" by (auto simp: dep_def)
      moreover have "d \<in> set (step_ids steps)" using "1.prems"(2) d s(1) by (auto simp: deps_known_def)
      ultimately show "d \<in> set reached" using least by blast
    qed
    with s have "s \<in> set ?ready" by (simp add: ready_steps_def list_all_iff)
    then have ready: "?ready \<noteq> []" by auto
    have "all_reached steps (foldl set_add reached (map ps_id ?ready))"
      using "1.prems" by (intro "1.IH" [OF True refl ready]) (auto simp: ready_steps_def)
    with True ready show ?thesis by (subst all_reached.simps) simp
  next
    case False
    then show ?thesis by (subst all_reached.simps) simp
  qed
qed

lemma acyclic_iff_reached:
  assumes "distinct (step_ids steps)" "deps_known steps"
  shows "all_reached steps [] \<longleftrightarrow> acyclic (dep steps)"
proof
  assume "all_reached steps []"
  from reached_accessible [OF this assms(1)] have acc: "set (step_ids steps) \<subseteq> Wellfounded.acc (dep steps)" by simp
  have "i \<in> Wellfounded.acc (dep steps)" for i
  proof (cases "i \<in> set (step_ids steps)")
    case False
    then have "(d, i) \<notin> dep steps" for d by (auto simp: dep_def)
    then show ?thesis by (blast intro: accI)
  qed (use acc in blast)
  then have "wf (dep steps)" by (simp add: wf_iff_acc)
  then show "acyclic (dep steps)" by (rule wf_acyclic)
next
  assume "acyclic (dep steps)"
  with finite_dep [OF assms(2)] have "wf (dep steps)" by (rule finite_acyclic_wf)
  then show "all_reached steps []" by (rule reaches_all) (simp_all add: assms)
qed

section \<open>The search for an ancestor\<close>

lemma trancl_last: "(a, i) \<in> r\<^sup>+ \<longleftrightarrow> (\<exists>d. (d, i) \<in> r \<and> (a = d \<or> (a, d) \<in> r\<^sup>+))"
proof
  assume "(a, i) \<in> r\<^sup>+"
  then show "\<exists>d. (d, i) \<in> r \<and> (a = d \<or> (a, d) \<in> r\<^sup>+)" by (cases rule: tranclE) blast+
qed (auto intro: trancl_into_trancl)

lemma find_step_found: "i \<in> set (step_ids steps) \<Longrightarrow> \<exists>s. find_step steps i = Some s \<and> s \<in> set steps \<and> ps_id s = i"
  unfolding find_step_def by (induction steps) auto

definition ancestors :: "'a plan_step_scheme list \<Rightarrow> jstring \<Rightarrow> jstring set" where
  "ancestors steps i = {a. (a, i) \<in> (dep steps)\<^sup>+}"

definition sound_plan :: "'a plan_step_scheme list \<Rightarrow> bool" where
  "sound_plan steps \<longleftrightarrow> distinct (step_ids steps) \<and> deps_known steps \<and> acyclic (dep steps)"

lemma ancestors_ids: "deps_known steps \<Longrightarrow> ancestors steps i \<subseteq> set (step_ids steps)"
  using trancl_subset_Sigma [OF dep_ids, of steps] by (auto simp: ancestors_def)

lemma fewer_ancestors:
  assumes "sound_plan steps" "(d, i) \<in> dep steps"
  shows "card (ancestors steps d) < card (ancestors steps i)"
proof (rule psubset_card_mono)
  show "finite (ancestors steps i)"
    using assms(1) ancestors_ids [of steps i] by (auto simp: sound_plan_def intro: finite_subset)
  have "d \<in> ancestors steps i" "d \<notin> ancestors steps d"
    using assms by (auto simp: ancestors_def sound_plan_def acyclic_def)
  moreover have "ancestors steps d \<subseteq> ancestors steps i"
    using assms(2) by (auto simp: ancestors_def intro: trancl_into_trancl)
  ultimately show "ancestors steps d \<subset> ancestors steps i" by blast
qed

lemma depends_finds:
  assumes "sound_plan steps"
  shows "i \<in> set (step_ids steps) \<Longrightarrow> card (ancestors steps i) < n \<Longrightarrow>
      depends n steps i a = Some (a \<in> ancestors steps i)"
    and "set ds \<subseteq> set (step_ids steps) \<Longrightarrow> \<forall>d \<in> set ds. card (ancestors steps d) < n \<Longrightarrow>
      depends_some n steps ds a = Some (\<exists>d \<in> set ds. a = d \<or> a \<in> ancestors steps d)"
  using assms
proof (induction n steps i a and n steps ds a rule: depends_depends_some.induct)
  case (2 n steps i a)
  have sound: "distinct (step_ids steps)" "deps_known steps" using "2.prems"(3) by (auto simp: sound_plan_def)
  obtain s where s: "find_step steps i = Some s" "s \<in> set steps" "ps_id s = i"
    using find_step_found [OF "2.prems"(1)] by blast
  have dep_i: "(d, i) \<in> dep steps \<longleftrightarrow> d \<in> set (ps_dependsOn s)" for d
    using dep_of [OF sound(1) s(2)] s by (auto simp: dep_def)
  have "\<forall>d \<in> set (ps_dependsOn s). card (ancestors steps d) < n"
    using fewer_ancestors [OF "2.prems"(3), of _ i] "2.prems"(2) dep_i by fastforce
  moreover have "set (ps_dependsOn s) \<subseteq> set (step_ids steps)" using sound(2) s(2) by (auto simp: deps_known_def)
  ultimately have "depends (Suc n) steps i a = Some (\<exists>d \<in> set (ps_dependsOn s). a = d \<or> a \<in> ancestors steps d)"
    using "2.IH" [OF s(1)] "2.prems"(3) s(1) by simp
  moreover have "a \<in> ancestors steps i \<longleftrightarrow> (\<exists>d. d \<in> set (ps_dependsOn s) \<and> (a = d \<or> a \<in> ancestors steps d))"
    unfolding ancestors_def mem_Collect_eq dep_i [symmetric] by (rule trancl_last)
  ultimately show ?case by (simp add: Bex_def)
next
  case (4 n steps d ds a)
  then have "d \<noteq> a \<Longrightarrow> depends n steps d a = Some (a \<in> ancestors steps d)" by simp
  with 4 show ?case by (cases "d = a") auto
qed simp_all

lemma dependsOn_iff:
  assumes "sound_plan steps" "i \<in> set (step_ids steps)"
  shows "dependsOn steps i a \<longleftrightarrow> (a, i) \<in> (dep steps)\<^sup>+"
proof -
  have "i \<notin> ancestors steps i" using assms(1) by (auto simp: ancestors_def sound_plan_def acyclic_def)
  with assms have "ancestors steps i \<subset> set (step_ids steps)"
    using ancestors_ids [of steps i] by (auto simp: sound_plan_def)
  from psubset_card_mono [OF _ this] have "card (ancestors steps i) < length steps"
    using assms(1) card_ids [of steps] by (simp add: sound_plan_def)
  from depends_finds(1) [OF assms this] show ?thesis by (simp add: dependsOn_def ancestors_def)
qed

section \<open>Files that several steps write\<close>

definition ordered :: "plan_step list \<Rightarrow> jstring \<Rightarrow> jstring \<Rightarrow> bool" where
  "ordered steps i j \<longleftrightarrow> dependsOn steps i j \<or> dependsOn steps j i"

text \<open>The files claimed so far, in order, each with the step that writes it.\<close>

definition claims :: "(jstring \<Rightarrow> jstring) \<Rightarrow> jstring \<Rightarrow> file_output list \<Rightarrow> (jstring \<times> jstring) list" where
  "claims folded i outs = map (\<lambda>out. (folded (out_path out), i)) outs"

definition claims_of :: "(jstring \<Rightarrow> jstring) \<Rightarrow> plan_step list \<Rightarrow> (jstring \<times> jstring) list" where
  "claims_of folded steps = concat (map (\<lambda>s. claims folded (ps_id s) (ps_outputs s)) steps)"

definition compatible :: "plan_step list \<Rightarrow> jstring \<times> jstring \<Rightarrow> jstring \<times> jstring \<Rightarrow> bool" where
  "compatible steps p q \<longleftrightarrow> (fst p = fst q \<longrightarrow> ordered steps (snd p) (snd q))"

definition owners_are :: "(jstring, jstring list) jmap \<Rightarrow> (jstring \<times> jstring) list \<Rightarrow> bool" where
  "owners_are owners ps \<longleftrightarrow>
     (\<forall>f. (case jget owners f of Some own \<Rightarrow> own | None \<Rightarrow> []) = map snd (filter (\<lambda>p. fst p = f) ps))"

lemma claim_files_checks:
  assumes "owners_are owners ps" "sorted_wrt (compatible steps) ps"
  shows "case claim_files folded steps i outs owners of
      Some owners' \<Rightarrow> owners_are owners' (ps @ claims folded i outs) \<and>
        sorted_wrt (compatible steps) (ps @ claims folded i outs)
    | None \<Rightarrow> \<not> sorted_wrt (compatible steps) (ps @ claims folded i outs)"
  using assms
proof (induction outs arbitrary: owners ps)
  case Nil
  then show ?case by (simp add: claims_def)
next
  case (Cons out outs)
  let ?file = "folded (out_path out)"
  let ?own = "case jget owners ?file of Some own \<Rightarrow> own | None \<Rightarrow> []"
  have own: "?own = map snd (filter (\<lambda>p. fst p = ?file) ps)" using Cons.prems(1) by (simp add: owners_are_def)
  have apart: "ps @ claims folded i (out # outs) = (ps @ [(?file, i)]) @ claims folded i outs"
    by (simp add: claims_def)
  have free: "list_ex (\<lambda>owner. \<not> dependsOn steps i owner \<and> \<not> dependsOn steps owner i) ?own \<longleftrightarrow>
      \<not> sorted_wrt (compatible steps) (ps @ [(?file, i)])"
    using Cons.prems(2)
    by (auto simp: own list_ex_iff sorted_wrt_append compatible_def [of steps _ "(?file, i)"] ordered_def image_iff intro: rev_bexI)
  have step: "claim_files folded steps i (out # outs) owners =
      (if sorted_wrt (compatible steps) (ps @ [(?file, i)])
       then claim_files folded steps i outs (jset ?file (?own @ [i]) owners) else None)"
    unfolding claim_files.simps Let_def free by simp
  show ?case
  proof (cases "sorted_wrt (compatible steps) (ps @ [(?file, i)])")
    case True
    moreover have "owners_are (jset ?file (?own @ [i]) owners) (ps @ [(?file, i)])"
      using Cons.prems(1) own by (auto simp: owners_are_def)
    ultimately show ?thesis using Cons.IH [of _ "ps @ [(?file, i)]"] by (simp only: step apart if_True)
  next
    case False
    then have "\<not> sorted_wrt (compatible steps) (ps @ claims folded i (out # outs))"
      unfolding apart by (subst sorted_wrt_append) blast
    with False show ?thesis by (simp add: step del: claim_files.simps)
  qed
qed

lemma claim_all_checks:
  assumes "owners_are owners ps" "sorted_wrt (compatible steps) ps"
  shows "claim_all folded steps ss owners \<longleftrightarrow> sorted_wrt (compatible steps) (ps @ claims_of folded ss)"
  using assms
proof (induction ss arbitrary: owners ps)
  case (Cons s ss)
  have apart: "ps @ claims_of folded (s # ss) = (ps @ claims folded (ps_id s) (ps_outputs s)) @ claims_of folded ss"
    by (simp add: claims_of_def)
  from claim_files_checks [OF Cons.prems, of folded "ps_id s" "ps_outputs s"] show ?case
  proof (cases "claim_files folded steps (ps_id s) (ps_outputs s) owners")
    case None
    with claim_files_checks [OF Cons.prems, of folded "ps_id s" "ps_outputs s"] show ?thesis
      unfolding apart by (subst sorted_wrt_append) simp
  next
    case (Some owners')
    with claim_files_checks [OF Cons.prems, of folded "ps_id s" "ps_outputs s"] show ?thesis
      using Cons.IH [of owners' "ps @ claims folded (ps_id s) (ps_outputs s)"] by (simp add: apart)
  qed
qed (simp add: claims_of_def)

definition shares_file :: "(jstring \<Rightarrow> jstring) \<Rightarrow> plan_step \<Rightarrow> plan_step \<Rightarrow> bool" where
  "shares_file folded s t \<longleftrightarrow>
     (\<exists>a \<in> set (ps_outputs s). \<exists>b \<in> set (ps_outputs t). folded (out_path a) = folded (out_path b))"

lemma claims_ordered:
  assumes "distinct (step_ids ss)" "\<forall>s \<in> set ss. distinct (map (folded \<circ> out_path) (ps_outputs s))"
  shows "sorted_wrt (compatible steps) (claims_of folded ss) \<longleftrightarrow>
    (\<forall>s \<in> set ss. \<forall>t \<in> set ss. ps_id s \<noteq> ps_id t \<and> shares_file folded s t \<longrightarrow> ordered steps (ps_id s) (ps_id t))"
  using assms
proof (induction ss)
  case (Cons s ss)
  have one: "sorted_wrt (compatible steps) (claims folded (ps_id s) (ps_outputs s))"
    using Cons.prems(2)
    by (auto simp: claims_def sorted_wrt_iff_nth_less compatible_def distinct_conv_nth)
  have across: "(\<forall>p \<in> set (claims folded (ps_id s) (ps_outputs s)). \<forall>q \<in> set (claims_of folded ss). compatible steps p q) \<longleftrightarrow>
      (\<forall>t \<in> set ss. shares_file folded s t \<longrightarrow> ordered steps (ps_id s) (ps_id t))"
    by (fastforce simp: claims_def claims_of_def compatible_def shares_file_def)
  have other: "\<forall>t \<in> set ss. ps_id t \<noteq> ps_id s" using Cons.prems(1) by (auto simp: image_iff)
  define both where "both t u \<longleftrightarrow> (ps_id t \<noteq> ps_id u \<and> shares_file folded t u \<longrightarrow> ordered steps (ps_id t) (ps_id u))" for t u
  have "both t u = both u t" for t u by (auto simp: both_def ordered_def shares_file_def) metis+
  then have "(\<forall>t \<in> set (s # ss). \<forall>u \<in> set (s # ss). both t u) \<longleftrightarrow>
      both s s \<and> (\<forall>t \<in> set ss. both s t) \<and> (\<forall>t \<in> set ss. \<forall>u \<in> set ss. both t u)" by auto
  also have "\<dots> \<longleftrightarrow> (\<forall>t \<in> set ss. shares_file folded s t \<longrightarrow> ordered steps (ps_id s) (ps_id t)) \<and>
      (\<forall>t \<in> set ss. \<forall>u \<in> set ss. both t u)" using other by (fastforce simp: both_def)
  finally have "(\<forall>t \<in> set (s # ss). \<forall>u \<in> set (s # ss). both t u) \<longleftrightarrow>
      (\<forall>t \<in> set ss. shares_file folded s t \<longrightarrow> ordered steps (ps_id s) (ps_id t)) \<and>
      (\<forall>t \<in> set ss. \<forall>u \<in> set ss. both t u)" .
  moreover have "claims_of folded (s # ss) = claims folded (ps_id s) (ps_outputs s) @ claims_of folded ss"
    by (simp add: claims_of_def)
  ultimately show ?case using Cons.IH Cons.prems one across by (simp add: sorted_wrt_append flip: both_def) blast
qed (simp add: claims_of_def)

lemma check_plan_iff:
  "check_plan folded steps = None \<longleftrightarrow>
     distinct (step_ids steps) \<and> deps_known steps \<and> acyclic (dep steps) \<and>
     (\<forall>s \<in> set steps. ps_outputs s \<noteq> [] \<longrightarrow> validateFileOutputs folded (ps_outputs s)) \<and>
     (\<forall>s \<in> set steps. \<forall>t \<in> set steps. ps_id s \<noteq> ps_id t \<and> shares_file folded s t \<longrightarrow>
        (ps_id s, ps_id t) \<in> (dep steps)\<^sup>+ \<or> (ps_id t, ps_id s) \<in> (dep steps)\<^sup>+)"
    (is "_ \<longleftrightarrow> _ \<and> _ \<and> _ \<and> ?files \<and> ?ordered")
proof (cases "distinct (step_ids steps) \<and> deps_known steps \<and> acyclic (dep steps) \<and> ?files")
  case True
  then have sound: "sound_plan steps" by (simp add: sound_plan_def)
  have "ps_id s \<notin> set (ps_dependsOn s)" if "s \<in> set steps" for s
    using True that by (auto simp: acyclic_def dep_def)
  then have "check_steps folded (foldl set_add [] (step_ids steps)) steps = None"
    using True by (auto simp: check_steps_None deps_known_def)
  moreover have "claim_all folded steps steps [] \<longleftrightarrow> sorted_wrt (compatible steps) (claims_of folded steps)"
    using claim_all_checks [of "[]" "[]" steps folded steps] by (simp add: owners_are_def)
  moreover have "\<forall>s \<in> set steps. distinct (map (folded \<circ> out_path) (ps_outputs s))"
    using True by (auto simp: validateFileOutputs_def)
  ultimately have "check_plan folded steps = None \<longleftrightarrow>
      (\<forall>s \<in> set steps. \<forall>t \<in> set steps. ps_id s \<noteq> ps_id t \<and> shares_file folded s t \<longrightarrow> ordered steps (ps_id s) (ps_id t))"
    using True acyclic_iff_reached [of steps] claims_ordered [of steps folded steps]
    by (simp only: check_plan_def Let_def option.case) (use ids_unique [of "step_ids steps"] in auto)
  also have "\<dots> \<longleftrightarrow> ?ordered" using dependsOn_iff [OF sound] by (auto simp: ordered_def)
  finally show ?thesis using True by blast
next
  case False
  have "check_plan folded steps \<noteq> None"
  proof
    assume "check_plan folded steps = None"
    then have "distinct (step_ids steps)" "check_steps folded (foldl set_add [] (step_ids steps)) steps = None"
        "all_reached steps []"
      using ids_unique [of "step_ids steps"] by (auto simp: check_plan_def Let_def split: if_splits option.splits)
    moreover from this have "deps_known steps" "?files"
      by (auto simp: check_steps_None deps_known_def)
    ultimately show False using False acyclic_iff_reached by blast
  qed
  with False show ?thesis by blast
qed

lemma plan_is_sound: "check_plan folded steps = None \<Longrightarrow> sound_plan steps"
  by (simp add: check_plan_iff sound_plan_def)

text \<open>
  C12: a plan is accepted exactly when no two of its steps have the same identifier, every dependency is
  a step, every step's files are portable and distinct, no step depends on itself over others, and of
  two steps that write the same file one depends on the other, directly or over others. So the loop of
  the code finds every cycle and its recursive search ends.
\<close>

theorem plan_is_accepted_iff:
  "check_plan folded steps = None \<longleftrightarrow>
     distinct (step_ids steps) \<and> deps_known steps \<and> acyclic (dep steps) \<and>
     (\<forall>s \<in> set steps. ps_outputs s \<noteq> [] \<longrightarrow> validateFileOutputs folded (ps_outputs s)) \<and>
     (\<forall>s \<in> set steps. \<forall>t \<in> set steps. ps_id s \<noteq> ps_id t \<and> shares_file folded s t \<longrightarrow>
        (ps_id s, ps_id t) \<in> (dep steps)\<^sup>+ \<or> (ps_id t, ps_id s) \<in> (dep steps)\<^sup>+)"
  by (rule check_plan_iff)

definition demo_step :: "string \<Rightarrow> string list \<Rightarrow> plan_step" where
  "demo_step i ds = \<lparr>ps_id = js i, ps_title = [116], ps_instructions = [105], ps_dependsOn = map js ds,
     ps_outputs = [], ps_capabilities = None, ps_timeoutMs = None\<rparr>"

theorem plan_is_accepted_iff_witness:
  "acyclic (dep [demo_step ''a'' [''b'', ''c''], demo_step ''b'' [''c''], demo_step ''c'' []])"
proof -
  have "check_plan id [demo_step ''a'' [''b'', ''c''], demo_step ''b'' [''c''], demo_step ''c'' []] = None"
    by (simp add: check_plan_def demo_step_def set_add_def all_reached.simps ready_steps_def Let_def)
  then show ?thesis by (simp only: plan_is_accepted_iff)
qed

end
