(* ===== verification/WorkflowInv.thy ===== *)
theory WorkflowInv
  imports WorkflowService WorkflowPlanProps Machines
begin

text \<open>
  The invariant of a workflow's life. Its \<open>core\<close> relates the recorded steps to the Runs and sessions of
  the application, whatever the task does; an update of the record that only lets steps advance keeps it.
\<close>

definition run_of :: "jstring \<Rightarrow> app_run list \<Rightarrow> workflow_step \<Rightarrow> nat \<Rightarrow> bool" where
  "run_of i runs s n \<longleftrightarrow>
     n < length runs \<and> st_sessionId s = Some (ap_session (runs ! n)) \<and> ap_key (runs ! n) = i @ js '':'' @ ps_id s"

text \<open>A completed step has a Run of its own that completed and left every file declared.\<close>

definition justified :: "app_run list \<Rightarrow> workflow_step \<Rightarrow> bool" where
  "justified runs s \<longleftrightarrow>
     (\<exists>n. st_runId s = Some n \<and> n < length runs \<and> ap_status (runs ! n) = Ended Completed \<and>
        missing_outputs s (runs ! n) = [])"

definition deps_done :: "workflow_step list \<Rightarrow> workflow_step \<Rightarrow> bool" where
  "deps_done steps s \<longleftrightarrow> (\<forall>d \<in> set (ps_dependsOn s). \<exists>t \<in> set steps. ps_id t = d \<and> st_status t = StepCompleted)"

definition step_inv :: "jstring \<Rightarrow> nat option \<Rightarrow> app_run list \<Rightarrow> app_session list \<Rightarrow> workflow_step \<Rightarrow> bool" where
  "step_inv i p runs sessions s \<longleftrightarrow>
     (\<forall>n. st_runId s = Some n \<longrightarrow> run_of i runs s n) \<and>
     (st_status s = StepCompleted \<longrightarrow> justified runs s) \<and>
     (\<forall>n. st_sessionId s = Some n \<longrightarrow> n < length sessions \<and> p \<noteq> Some n)"

definition run_inv :: "jstring \<Rightarrow> nat option \<Rightarrow> workflow_step list \<Rightarrow> app_session list \<Rightarrow> app_run \<Rightarrow> bool" where
  "run_inv i p steps sessions r \<longleftrightarrow>
     ap_session r < length sessions \<and>
     (p = Some (ap_session r) \<and> ap_key r = i @ js '':planning'' \<or>
      (\<exists>s \<in> set steps. st_sessionId s = Some (ap_session r) \<and> ap_key r = i @ js '':'' @ ps_id s \<and> deps_done steps s))"

definition core :: "jstring \<Rightarrow> nat option \<Rightarrow> workflow_step list \<Rightarrow> app_run list \<Rightarrow> app_session list \<Rightarrow>
    (nat \<times> jstring) list \<Rightarrow> bool" where
  "core i p steps runs sessions submits \<longleftrightarrow>
     sound_plan steps \<and>
     (\<forall>s \<in> set steps. step_inv i p runs sessions s) \<and>
     (\<forall>s \<in> set steps. \<forall>t \<in> set steps. st_sessionId s \<noteq> None \<and> st_sessionId s = st_sessionId t \<longrightarrow> ps_id s = ps_id t) \<and>
     (\<forall>r \<in> set runs. run_inv i p steps sessions r) \<and>
     (\<forall>n. p = Some n \<longrightarrow> n < length sessions) \<and>
     submits = map (\<lambda>r. (ap_session r, ap_key r)) runs \<and> distinct submits"

section \<open>Steps by identifier\<close>

lemma get_step_Some:
  assumes "distinct (step_ids steps)"
  shows "get_step i steps = Some s \<longleftrightarrow> s \<in> set steps \<and> ps_id s = i"
proof
  show "get_step i steps = Some s \<Longrightarrow> s \<in> set steps \<and> ps_id s = i"
    by (auto simp: get_step_def dest: find_Some_set)
  show "s \<in> set steps \<and> ps_id s = i \<Longrightarrow> get_step i steps = Some s"
    using assms unfolding get_step_def by (induction steps) auto
qed

lemma ready_stepD:
  assumes "distinct (step_ids steps)" "ready_step steps = Some s"
  shows "s \<in> set steps \<and> st_status s = StepPending \<and> deps_done steps s"
  using assms find_Some_set [OF assms(2) [unfolded ready_step_def]]
  by (auto simp: list_all_iff deps_done_def get_step_Some)

lemma ready_step_None:
  assumes "distinct (step_ids steps)" "ready_step steps = None" "s \<in> set steps" "st_status s = StepPending"
  shows "\<not> deps_done steps s"
proof
  assume all: "deps_done steps s"
  have "map_option st_status (get_step d steps) = Some StepCompleted" if d: "d \<in> set (ps_dependsOn s)" for d
  proof -
    obtain t where "t \<in> set steps" "ps_id t = d" "st_status t = StepCompleted" using all d by (auto simp: deps_done_def)
    then have "get_step d steps = Some t" using assms(1) by (simp add: get_step_Some)
    with \<open>st_status t = StepCompleted\<close> show ?thesis by simp
  qed
  with assms(3,4) have "\<exists>s \<in> set steps. st_status s = StepPending \<and>
      list_all (\<lambda>d. map_option st_status (get_step d steps) = Some StepCompleted) (ps_dependsOn s)"
    by (auto simp: list_all_iff)
  with assms(2) show False unfolding ready_step_def find_None_iff by blast
qed

text \<open>While every step is pending or completed, one is ready or all are completed.\<close>

lemma no_step_is_stuck:
  assumes "sound_plan steps" "\<forall>s \<in> set steps. st_status s = StepPending \<or> st_status s = StepCompleted"
    and "ready_step steps = None"
  shows "\<forall>s \<in> set steps. st_status s = StepCompleted"
proof (rule ccontr)
  assume stuck: "\<not> ?thesis"
  have sound: "distinct (step_ids steps)" "deps_known steps" "acyclic (dep steps)"
    using assms(1) by (auto simp: sound_plan_def)
  from sound(3) finite_dep [OF sound(2)] have wf: "wf (dep steps)" by (rule finite_acyclic_wf [rotated])
  define P where "P = {ps_id s |s. s \<in> set steps \<and> st_status s = StepPending}"
  have "P \<noteq> {}" using stuck assms(2) by (auto simp: P_def)
  then obtain i where "i \<in> P" and least: "\<And>d. (d, i) \<in> dep steps \<Longrightarrow> d \<notin> P"
    using wf by (metis ex_in_conv wfE_min)
  then obtain s where s: "s \<in> set steps" "st_status s = StepPending" "ps_id s = i" by (auto simp: P_def)
  have "deps_done steps s"
    unfolding deps_done_def
  proof
    fix d assume d: "d \<in> set (ps_dependsOn s)"
    then obtain t where t: "t \<in> set steps" "ps_id t = d" using sound(2) s(1) by (auto simp: deps_known_def)
    have "(d, i) \<in> dep steps" using s d by (auto simp: dep_def)
    with least t assms(2) have "st_status t = StepCompleted" by (auto simp: P_def)
    with t show "\<exists>t \<in> set steps. ps_id t = d \<and> st_status t = StepCompleted" by blast
  qed
  with ready_step_None [OF sound(1) assms(3) s(1,2)] show False by blast
qed

section \<open>Steps that advance\<close>

definition advances :: "jstring \<Rightarrow> app_run list \<Rightarrow> workflow_step \<Rightarrow> workflow_step \<Rightarrow> bool" where
  "advances i runs s t \<longleftrightarrow>
     ps_id t = ps_id s \<and> ps_dependsOn t = ps_dependsOn s \<and> ps_outputs t = ps_outputs s \<and>
     st_sessionId t = st_sessionId s \<and>
     (\<forall>n. st_runId t = Some n \<longrightarrow> run_of i runs t n) \<and>
     (st_status s = StepCompleted \<longrightarrow> st_status t = StepCompleted) \<and>
     (st_status t = StepCompleted \<longrightarrow> justified runs t)"

lemma advances_refl: "step_inv i p runs sessions s \<Longrightarrow> advances i runs s s"
  by (simp add: advances_def step_inv_def)

lemma justified_cong: "st_runId s = st_runId t \<Longrightarrow> ps_outputs s = ps_outputs t \<Longrightarrow> justified runs s = justified runs t"
  by (simp add: justified_def missing_outputs_def)

lemma run_of_cong: "st_sessionId s = st_sessionId t \<Longrightarrow> ps_id s = ps_id t \<Longrightarrow> run_of i runs s n = run_of i runs t n"
  by (simp add: run_of_def)

lemma applyResult_fields [simp]:
  "ps_id (applyResult run s) = ps_id s" "ps_dependsOn (applyResult run s) = ps_dependsOn s"
  "ps_outputs (applyResult run s) = ps_outputs s" "st_sessionId (applyResult run s) = st_sessionId s"
  "st_runId (applyResult run s) = st_runId s"
  by (auto simp: applyResult_def Let_def split: run_status.split)

lemma applyResult_completed:
  "st_status (applyResult run s) = StepCompleted \<longleftrightarrow>
     (case ap_status run of Ended t \<Rightarrow> t = Completed \<and> missing_outputs s run = [] | _ \<Rightarrow> st_status s = StepCompleted)"
  by (auto simp: applyResult_def Let_def missing_outputs_def split: run_status.split)

lemma applyResult_ended:
  "ap_status run = Ended t \<Longrightarrow> st_status (applyResult run s) \<noteq> StepPending \<and> st_status (applyResult run s) \<noteq> StepRunning"
  by (auto simp: applyResult_def Let_def)

lemma advances_applyResult:
  assumes "step_inv i p runs sessions s" "st_runId s = Some n"
  shows "advances i runs s (applyResult (runs ! n) s)"
proof -
  have run: "run_of i runs s n" using assms by (simp add: step_inv_def)
  have "justified runs (applyResult (runs ! n) s)" if "st_status (applyResult (runs ! n) s) = StepCompleted"
  proof (cases "ap_status (runs ! n)")
    case (Ended t)
    with that run assms(2) show ?thesis by (auto simp: applyResult_completed justified_def run_of_def missing_outputs_def)
  qed (use that assms in \<open>auto simp: applyResult_completed step_inv_def justified_def missing_outputs_def\<close>)
  moreover have "st_status (applyResult (runs ! n) s) = StepCompleted" if "st_status s = StepCompleted"
    using assms that by (auto simp: applyResult_completed step_inv_def justified_def)
  ultimately show ?thesis using run assms(2) by (auto simp: advances_def run_of_def)
qed

lemma advances_status:
  assumes "advances i runs s t" "st_status t \<noteq> StepCompleted" "x \<noteq> StepCompleted"
  shows "advances i runs s (t\<lparr>st_status := x\<rparr>)"
  using assms by (auto simp: advances_def run_of_def)

lemma advances_block: "advances i runs s t \<Longrightarrow> advances i runs s (block_pending t)"
  by (simp add: block_pending_def advances_status)

lemma advances_cancel:
  assumes "step_inv i p (w_runs w) sessions s"
  shows "advances i (w_runs w) s (cancel_step w s)"
  using advances_applyResult [OF assms] advances_status [OF advances_refl [OF assms]] advances_refl [OF assms]
  by (auto simp: cancel_step_def split: option.split)

lemma submittedRun_Some:
  "submittedRun runs session key = Some n \<Longrightarrow> n < length runs \<and> ap_session (runs ! n) = session \<and> ap_key (runs ! n) = key"
  by (auto simp: submittedRun_def dest!: find_Some_set)

lemma submittedRun_None:
  "submittedRun runs session key = None \<longleftrightarrow> (session, key) \<notin> (\<lambda>r. (ap_session r, ap_key r)) ` set runs"
  by (fastforce simp: submittedRun_def find_None_iff in_set_conv_nth image_iff)

lemma advances_reconcile:
  assumes inv: "step_inv (wf_id (w_row w)) p (w_runs w) sessions s"
  shows "advances (wf_id (w_row w)) (w_runs w) s (reconcile_step w s)"
proof -
  let ?i = "wf_id (w_row w)"
  define t where "t = s\<lparr>st_runId := recovered_run w (st_sessionId s) (st_runId s) (step_key (w_row w) s)\<rparr>"
  have t: "step_inv ?i p (w_runs w) sessions t"
    using inv
    by (auto simp: t_def step_inv_def recovered_run_def run_of_def justified_def step_key_def missing_outputs_def
        dest: submittedRun_Some split: option.splits)
  then have "advances ?i (w_runs w) s t" by (simp add: t_def advances_def step_inv_def)
  have same: "ps_id t = ps_id s" "ps_dependsOn t = ps_dependsOn s" "ps_outputs t = ps_outputs s"
      "st_sessionId t = st_sessionId s" "st_status t = st_status s" by (simp_all add: t_def)
  define u where "u = (case st_runId t of Some n \<Rightarrow> applyResult (w_runs w ! n) t | None \<Rightarrow> t)"
  have "advances ?i (w_runs w) t u"
    using advances_applyResult [OF t] advances_refl [OF t] by (simp add: u_def split: option.split)
  then have "advances ?i (w_runs w) s u" by (simp add: advances_def same)
  then have "advances ?i (w_runs w) s (if st_status u = StepRunning then u\<lparr>st_status := StepInterrupted\<rparr> else u)"
    by (auto intro: advances_status)
  from advances_block [OF this] show ?thesis unfolding reconcile_step_def Let_def t_def [symmetric] u_def [symmetric] .
qed

lemma dep_map:
  assumes "\<And>s. s \<in> set steps \<Longrightarrow> ps_id (f s) = ps_id s \<and> ps_dependsOn (f s) = ps_dependsOn s"
  shows "sound_plan (map f steps) = sound_plan steps"
proof -
  have "step_ids (map f steps) = step_ids steps" using assms by simp
  moreover have "dep (map f steps) = dep steps" using assms by (auto simp: dep_def)
  moreover have "deps_known (map f steps) = deps_known steps" using assms by (auto simp: deps_known_def)
  ultimately show ?thesis unfolding sound_plan_def by (simp only:)
qed

lemma core_advances:
  assumes core: "core i p steps runs sessions submits" and adv: "\<And>s. s \<in> set steps \<Longrightarrow> advances i runs s (f s)"
  shows "core i p (map f steps) runs sessions submits"
proof -
  have deps: "deps_done (map f steps) (f s)" if "deps_done steps s" "s \<in> set steps" for s
    using that adv by (fastforce simp: deps_done_def advances_def)
  have runs: "run_inv i p (map f steps) sessions r" if "run_inv i p steps sessions r" for r
    using that deps adv by (fastforce simp: run_inv_def advances_def)
  have "step_inv i p runs sessions (f s)" if "s \<in> set steps" "step_inv i p runs sessions s" for s
    using adv [OF that(1)] that(2) by (auto simp: step_inv_def advances_def)
  moreover have "sound_plan (map f steps) = sound_plan steps" using adv by (intro dep_map) (simp add: advances_def)
  ultimately show ?thesis using core runs adv by (auto simp: core_def advances_def)
qed

end
