(* ===== verification/WorkflowLife.thy ===== *)
theory WorkflowLife
  imports WorkflowInv
begin

text \<open>
  Every operation of the service keeps the invariant and moves the status of the workflow only forward:
  planning, draft, running, cancelling, ended.
\<close>

section \<open>The invariant\<close>

definition unsent :: "app_run list \<Rightarrow> workflow_step \<Rightarrow> bool" where
  "unsent runs s \<longleftrightarrow> st_status s = StepPending \<and> st_runId s = None \<and> (\<forall>r \<in> set runs. st_sessionId s \<noteq> Some (ap_session r))"

definition all_done :: "workflow_step list \<Rightarrow> bool" where
  "all_done steps \<longleftrightarrow> (\<forall>s \<in> set steps. st_status s = StepCompleted)"

definition base :: "workflow \<Rightarrow> app_run list \<Rightarrow> app_session list \<Rightarrow> (nat \<times> jstring) list \<Rightarrow> bool" where
  "base row runs sessions submits \<longleftrightarrow>
     core (wf_id row) (wf_planningSessionId row) (wf_steps row) runs sessions submits \<and>
     (wf_status row = WPlanning \<longrightarrow> wf_steps row = []) \<and>
     (wf_status row = WDraft \<longrightarrow> (\<forall>s \<in> set (wf_steps row). unsent runs s)) \<and>
     (wf_status row = WCompleted \<longrightarrow> all_done (wf_steps row))"

text \<open>The steps while they are executed: \<open>other\<close> is any step but the one at work.\<close>

definition executing :: "workflow \<Rightarrow> app_run list \<Rightarrow> bool" where
  "executing row runs \<longleftrightarrow>
     wf_status row \<in> {WRunning, WCancelling} \<and>
     (\<forall>s \<in> set (wf_steps row). st_sessionId s \<noteq> None \<and> (st_status s = StepPending \<longrightarrow> unsent runs s))"

definition others_wait :: "jstring \<Rightarrow> workflow_step list \<Rightarrow> bool" where
  "others_wait i steps \<longleftrightarrow> (\<forall>t \<in> set steps. ps_id t \<noteq> i \<longrightarrow> st_status t = StepPending \<or> st_status t = StepCompleted)"

definition new_step :: "workflow_step \<Rightarrow> bool" where
  "new_step s \<longleftrightarrow> st_status s = StepPending \<and> st_runId s = None \<and> st_sessionId s = None"

fun task_inv :: "workflow \<Rightarrow> app_run list \<Rightarrow> task \<Rightarrow> bool" where
  "task_inv row runs (PlanWait n tools) \<longleftrightarrow>
     wf_status row \<in> {WPlanning, WCancelling} \<and> wf_steps row = [] \<and> n < length runs"
| "task_inv row runs (PlanClosing title steps) \<longleftrightarrow>
     wf_status row \<in> {WPlanning, WCancelling} \<and> wf_steps row = [] \<and> sound_plan steps \<and> (\<forall>s \<in> set steps. new_step s)"
| "task_inv row runs (StepWait n i) \<longleftrightarrow>
     executing row runs \<and> others_wait i (wf_steps row) \<and>
     (\<exists>s \<in> set (wf_steps row). ps_id s = i \<and> st_runId s = Some n \<and> st_status s = StepRunning)"
| "task_inv row runs (StepClosing finished status) \<longleftrightarrow>
     executing row runs \<and> others_wait (ps_id finished) (wf_steps row) \<and> finished \<in> set (wf_steps row) \<and>
     st_status finished \<noteq> StepPending \<and> st_status finished \<noteq> StepRunning \<and>
     (status = WCancelling \<longrightarrow> wf_status row = WCancelling)"
| "task_inv row runs Settling \<longleftrightarrow> executing row runs \<and> all_done (wf_steps row)"
| "task_inv row runs task \<longleftrightarrow> True"

definition wf_inv :: "world \<Rightarrow> bool" where
  "wf_inv w \<longleftrightarrow>
     base (w_row w) (w_runs w) (w_sessions w) (w_submits w) \<and> task_inv (w_row w) (w_runs w) (w_task w) \<and>
     (wf_status (w_row w) = WCompleted \<longrightarrow> w_task w = NoTask \<and> w_asking w = 0)"

fun stage :: "workflow_status \<Rightarrow> nat" where
  "stage WPlanning = 0"
| "stage WDraft = 1"
| "stage WRunning = 2"
| "stage WCancelling = 3"
| "stage _ = 4"

definition forward :: "world \<Rightarrow> world \<Rightarrow> bool" where
  "forward w w' \<longleftrightarrow>
     stage (wf_status (w_row w)) \<le> stage (wf_status (w_row w')) \<and>
     (3 \<le> stage (wf_status (w_row w)) \<longrightarrow> w_submits w' = w_submits w)"

text \<open>A call of \<open>cancel\<close> waits only for a workflow that is being cancelled, or was.\<close>

definition asked_inv :: "world \<Rightarrow> bool" where
  "asked_inv w \<longleftrightarrow> (0 < w_asking w \<longrightarrow> 3 \<le> stage (wf_status (w_row w)))"

text \<open>What a step of the task does.\<close>

definition later :: "world \<Rightarrow> world \<Rightarrow> bool" where
  "later w w' \<longleftrightarrow>
     stage (wf_status (w_row w)) \<le> stage (wf_status (w_row w')) \<and>
     (3 \<le> stage (wf_status (w_row w)) \<longrightarrow> w_submits w' = w_submits w) \<and> w_asking w' = w_asking w"

definition good :: "world \<Rightarrow> world \<Rightarrow> bool" where
  "good w w' \<longleftrightarrow> wf_inv w' \<and> later w w'"

lemma later_same [simp]: "later w w"
  by (simp add: later_def)

lemma later_trans: "later u v \<Longrightarrow> later v w \<Longrightarrow> later u w"
  by (auto simp: later_def)

lemma good_trans: "later u v \<Longrightarrow> good v w \<Longrightarrow> good u w"
  by (auto simp: good_def intro: later_trans)

lemma terminal_stage: "isWorkflowTerminal status \<longleftrightarrow> stage status = 4"
  by (cases status) (auto simp: isWorkflowTerminal_def)

section \<open>Calls\<close>

lemma base_updates [simp]:
  "base (row\<lparr>wf_updatedAt := t\<rparr>) runs sessions submits = base row runs sessions submits"
  "base (row\<lparr>wf_error := e\<rparr>) runs sessions submits = base row runs sessions submits"
  "base (row\<lparr>wf_finishedAt := f\<rparr>) runs sessions submits = base row runs sessions submits"
  "base (row\<lparr>wf_approvedAt := f\<rparr>) runs sessions submits = base row runs sessions submits"
  "base (row\<lparr>wf_planningRunId := n\<rparr>) runs sessions submits = base row runs sessions submits"
  by (simp_all add: base_def)

lemma executing_updates [simp]: "executing (row\<lparr>wf_updatedAt := t\<rparr>) runs = executing row runs"
  by (simp add: executing_def)

lemma task_inv_updates [simp]: "task_inv (row\<lparr>wf_updatedAt := t\<rparr>) runs task = task_inv row runs task"
  by (cases task) (simp_all add: executing_def)

lemma save_cases:
  obtains (failed) e a where "save row w = (Some e, w\<lparr>w_ans := a\<rparr>)"
  | (saved) a t where "save row w = (None, w\<lparr>w_ans := a, w_row := row\<lparr>wf_updatedAt := t\<rparr>\<rparr>)"
  by (cases "save row w")
    (auto simp: save_def Let_def split: prod.splits if_splits)

lemma createSession_cases:
  obtains (failed) e a where "createSession engine workspace w = (Inl e, w\<lparr>w_ans := a\<rparr>)"
  | (created) a x where "createSession engine workspace w =
      (Inr (length (w_sessions w)), w\<lparr>w_ans := a, w_sessions := w_sessions w @ [x]\<rparr>)"
  by (cases "createSession engine workspace w")
    (auto simp: createSession_def Let_def split: prod.splits if_splits option.splits)

lemma submit_cases:
  assumes "\<forall>r \<in> set (w_runs w). ap_session r \<noteq> session"
  obtains (failed) e a where "submit session key w = (Inl e, w\<lparr>w_ans := a\<rparr>)"
  | (accepted) a r where "submit session key w = (Inr (length (w_runs w)),
      w\<lparr>w_ans := a, w_submits := w_submits w @ [(session, key)], w_runs := w_runs w @ [r]\<rparr>)"
      "ap_session r = session" "ap_key r = key"
proof -
  have "submittedRun (w_runs w) session key = None" using assms by (auto simp: submittedRun_None)
  then show thesis
    by (cases "submit session key w")
      (auto simp: submit_def Let_def split: prod.splits if_splits intro: that)
qed

lemma core_more_sessions:
  "core i p steps runs sessions submits \<Longrightarrow> core i p steps runs (sessions @ [x]) submits"
  by (fastforce simp: core_def step_inv_def run_inv_def)

lemma core_submit:
  assumes core: "core i p steps runs sessions submits" and fresh: "\<forall>r \<in> set runs. ap_session r \<noteq> ap_session x"
    and inv: "run_inv i p steps sessions x"
  shows "core i p steps (runs @ [x]) sessions (submits @ [(ap_session x, ap_key x)])"
proof -
  have nth: "(runs @ [x]) ! n = runs ! n" if "n < length runs" for n using that by (simp add: nth_append)
  have "step_inv i p (runs @ [x]) sessions s" if "step_inv i p runs sessions s" for s
    using that by (auto simp: step_inv_def run_of_def justified_def nth)
  with core fresh inv show ?thesis by (auto simp: core_def)
qed

lemma stage_le [simp]: "stage status \<le> 4"
  by (cases status) simp_all

section \<open>Ends of the task\<close>

lemma base_cong:
  "wf_steps row = wf_steps row' \<Longrightarrow> wf_status row = wf_status row' \<Longrightarrow> wf_id row = wf_id row' \<Longrightarrow>
    wf_planningSessionId row = wf_planningSessionId row' \<Longrightarrow>
    base row runs sessions submits = base row' runs sessions submits"
  by (simp add: base_def)

lemma base_steps:
  assumes "base row runs sessions submits" "\<And>s. s \<in> set (wf_steps row) \<Longrightarrow> advances (wf_id row) runs s (f s)"
    and "status = WPlanning \<Longrightarrow> wf_steps row = []" "status = WCompleted \<Longrightarrow> all_done (map f (wf_steps row))"
    and "status \<noteq> WDraft"
  shows "base (row\<lparr>wf_steps := map f (wf_steps row), wf_status := status\<rparr>) runs sessions submits"
  using assms core_advances by (simp add: base_def)

lemma base_same_steps:
  assumes "base row runs sessions submits" "status \<notin> {WPlanning, WDraft, WCompleted}"
  shows "base (row\<lparr>wf_status := status\<rparr>) runs sessions submits"
  using assms by (auto simp: base_def)

lemma step_inv_base:
  "base row runs sessions submits \<Longrightarrow> s \<in> set (wf_steps row) \<Longrightarrow>
    step_inv (wf_id row) (wf_planningSessionId row) runs sessions s"
  by (simp add: base_def core_def)

lemma closeOwned_fields [simp]:
  "w_row (closeOwnedSessions row w) = w_row w" "w_runs (closeOwnedSessions row w) = w_runs w"
  "w_sessions (closeOwnedSessions row w) = w_sessions w" "w_submits (closeOwnedSessions row w) = w_submits w"
  "w_asking (closeOwnedSessions row w) = w_asking w" "w_closing (closeOwnedSessions row w) = w_closing w"
  "w_ans (closeOwnedSessions row w) = w_ans w" "w_failure (closeOwnedSessions row w) = w_failure w"
  "w_owned (closeOwnedSessions row w) = w_owned w"
  by (simp_all add: closeOwnedSessions_def)

definition ongoing :: "world \<Rightarrow> bool" where
  "ongoing w \<longleftrightarrow> base (w_row w) (w_runs w) (w_sessions w) (w_submits w) \<and> wf_status (w_row w) \<noteq> WCompleted"

lemma caught_good: "ongoing w \<Longrightarrow> good w (caught e w)"
proof -
  assume on: "ongoing w"
  then have base: "base (w_row w) (w_runs w) (w_sessions w) (w_submits w)" by (simp add: ongoing_def)
  let ?status = "if w_closing w then WInterrupted else WFailed"
  let ?row = "(w_row w)\<lparr>wf_status := ?status, wf_error := Some (if w_closing w then GATEWAY_STOPPED else e),
    wf_finishedAt := Some (aw_now (w_ans w)), wf_steps := map block_pending (wf_steps (w_row w))\<rparr>"
  have "base ((w_row w)\<lparr>wf_steps := map block_pending (wf_steps (w_row w)), wf_status := ?status\<rparr>)
      (w_runs w) (w_sessions w) (w_submits w)"
    by (rule base_steps [OF base]) (use step_inv_base [OF base] in \<open>auto intro: advances_block advances_refl split: if_splits\<close>)
  then have row: "base ?row (w_runs w) (w_sessions w) (w_submits w)" by (simp add: base_def)
  show ?thesis
  proof (cases "wf_status (w_row w) = WCancelling \<and> \<not> w_closing w")
    case True
    with on show ?thesis by (simp add: caught_def good_def wf_inv_def ongoing_def later_def)
  next
    case False
    with on row show ?thesis
      by (cases rule: save_cases [of ?row w])
        (auto simp: caught_def Let_def good_def wf_inv_def ongoing_def later_def stage_le)
  qed
qed

lemma finishCancelled_good: "ongoing w \<Longrightarrow> good w (finishCancelled w)"
  by (simp add: good_def finishCancelled_def wf_inv_def ongoing_def later_def)

lemma task_over_good:
  "base (w_row w) (w_runs w) (w_sessions w) (w_submits w) \<Longrightarrow> wf_status (w_row w) = WCompleted \<longrightarrow> w_asking w = 0 \<Longrightarrow>
    good w (task_over w)"
  by (simp add: good_def task_over_def wf_inv_def later_def)

lemma save_and_end_good:
  assumes "ongoing w" "base row (w_runs w) (w_sessions w) (w_submits w)" "stage (wf_status row) = 4"
    and "wf_status row = WCompleted \<longrightarrow> w_asking w = 0"
  shows "good w (save_and_end row w)"
proof (cases rule: save_cases [of row w])
  case (failed e a)
  moreover have "ongoing (w\<lparr>w_ans := a\<rparr>)" using assms(1) by (simp add: ongoing_def)
  ultimately show ?thesis
    using caught_good [of "w\<lparr>w_ans := a\<rparr>" e] by (auto simp: save_and_end_def good_def later_def)
next
  case (saved a t)
  with assms show ?thesis by (auto simp: save_and_end_def good_def later_def wf_inv_def task_over_def)
qed

lemma cancelled_row_base:
  assumes "base (w_row w) (w_runs w) (w_sessions w) (w_submits w)"
  shows "base (cancelled_row w) (w_runs w) (w_sessions w) (w_submits w)"
proof -
  have "base ((w_row w)\<lparr>wf_steps := map (cancel_step w) (wf_steps (w_row w)), wf_status := WCancelled\<rparr>)
      (w_runs w) (w_sessions w) (w_submits w)"
    by (rule base_steps [OF assms]) (use step_inv_base [OF assms] in \<open>auto intro: advances_cancel\<close>)
  then show ?thesis by (simp add: cancelled_row_def set_status_def base_def)
qed

lemma settled_row_base:
  assumes "base (w_row w) (w_runs w) (w_sessions w) (w_submits w)"
  shows "base (settled_row w) (w_runs w) (w_sessions w) (w_submits w)"
proof -
  let ?status = "if list_all (\<lambda>s. st_status s = StepCompleted) (wf_steps (w_row w)) then WCompleted else WFailed"
  have "base ((w_row w)\<lparr>wf_steps := map block_pending (wf_steps (w_row w)), wf_status := ?status\<rparr>)
      (w_runs w) (w_sessions w) (w_submits w)"
  proof (rule base_steps [OF assms])
    show "advances (wf_id (w_row w)) (w_runs w) s (block_pending s)" if "s \<in> set (wf_steps (w_row w))" for s
      using step_inv_base [OF assms that] by (blast intro: advances_block advances_refl)
  qed (auto simp: all_done_def list_all_iff block_pending_def split: if_splits)
  then show ?thesis by (simp add: settled_row_def set_status_def base_def Let_def)
qed

section \<open>Steps\<close>

lemma good_cong_ans: "later w (w\<lparr>w_ans := a\<rparr>)"
  by (simp add: later_def)

lemma session_only:
  assumes "core i p steps runs sessions submits" "s \<in> set steps" "t \<in> set steps"
    "st_sessionId s = Some n" "st_sessionId t = Some n"
  shows "ps_id t = ps_id s"
proof -
  have "st_sessionId s \<noteq> None \<and> st_sessionId s = st_sessionId t" using assms(4,5) by simp
  with assms(1-3) show ?thesis unfolding core_def by metis
qed

lemma set_map_step: "set (map_step i f steps) = (\<lambda>s. if ps_id s = i then f s else s) ` set steps"
  by (simp add: map_step_def)

lemma submitted_step:
  assumes on: "base row runs sessions submits" and ex: "executing row runs"
    and waits: "\<forall>s \<in> set (wf_steps row). st_status s = StepPending \<or> st_status s = StepCompleted"
    and s: "s \<in> set (wf_steps row)" "st_status s = StepPending" "deps_done (wf_steps row) s"
      "st_sessionId s = Some (ap_session r)" "unsent runs s"
    and key: "ap_key r = step_key row s" and status: "wf_status row = WRunning"
  defines "steps \<equiv> map_step (ps_id s) (\<lambda>s. s\<lparr>st_runId := Some (length runs), st_status := StepRunning\<rparr>) (wf_steps row)"
    and "submits' \<equiv> submits @ [(ap_session r, step_key row s)]"
  shows "base row (runs @ [r]) sessions submits'" "base (row\<lparr>wf_steps := steps\<rparr>) (runs @ [r]) sessions submits'"
    "task_inv (row\<lparr>wf_steps := steps\<rparr>) (runs @ [r]) (StepWait (length runs) (ps_id s))"
proof -
  let ?i = "wf_id row" and ?p = "wf_planningSessionId row"
  have core: "core ?i ?p (wf_steps row) runs sessions submits" using on by (simp add: base_def)
  have ids: "distinct (step_ids (wf_steps row))" using core by (simp add: core_def sound_plan_def)
  have only: "t = s" if "t \<in> set (wf_steps row)" "ps_id t = ps_id s" for t
    using ids that s(1) by (auto simp: distinct_map dest: inj_onD)
  have fresh: "\<forall>x \<in> set runs. ap_session x \<noteq> ap_session r" using s(4,5) by (auto simp: unsent_def)
  have "ap_session r < length sessions" using core s(1,4) by (auto simp: core_def step_inv_def)
  then have "run_inv ?i ?p (wf_steps row) sessions r"
    using s key by (auto simp: run_inv_def step_key_def)
  from core_submit [OF core fresh this]
  have more: "core ?i ?p (wf_steps row) (runs @ [r]) sessions submits'" by (simp add: key submits'_def)
  then show "base row (runs @ [r]) sessions submits'" using status by (simp add: base_def)
  have "advances ?i (runs @ [r]) t (if ps_id t = ps_id s then t\<lparr>st_runId := Some (length runs), st_status := StepRunning\<rparr> else t)"
    if t: "t \<in> set (wf_steps row)" for t
  proof (cases "ps_id t = ps_id s")
    case True
    with only [OF t] have "t = s" by blast
    with s key show ?thesis by (simp add: advances_def run_of_def step_key_def)
  next
    case False
    then show ?thesis using more t advances_refl by (auto simp: core_def)
  qed
  from core_advances [OF more this] have "core ?i ?p steps (runs @ [r]) sessions submits'"
    by (simp add: steps_def map_step_def)
  then show "base (row\<lparr>wf_steps := steps\<rparr>) (runs @ [r]) sessions submits'" using status by (simp add: base_def)
  have "unsent (runs @ [r]) t" if t: "t \<in> set (wf_steps row)" "ps_id t \<noteq> ps_id s" "st_status t = StepPending" for t
    using ex t session_only [OF core s(1) t(1) s(4)] by (auto simp: executing_def unsent_def)
  then have "executing (row\<lparr>wf_steps := steps\<rparr>) (runs @ [r])"
    using ex status by (auto simp: executing_def steps_def set_map_step)
  moreover have "others_wait (ps_id s) steps" using waits by (auto simp: others_wait_def steps_def set_map_step)
  moreover have "s\<lparr>st_runId := Some (length runs), st_status := StepRunning\<rparr> \<in> set steps"
    using s(1) by (auto simp: steps_def set_map_step image_iff intro!: bexI [of _ s])
  ultimately show "task_inv (row\<lparr>wf_steps := steps\<rparr>) (runs @ [r]) (StepWait (length runs) (ps_id s))"
    by (auto intro!: bexI [of _ "s\<lparr>st_runId := Some (length runs), st_status := StepRunning\<rparr>"])
qed

lemma execute_good:
  assumes on: "base (w_row w) (w_runs w) (w_sessions w) (w_submits w)" and ex: "executing (w_row w) (w_runs w)"
    and waits: "\<forall>s \<in> set (wf_steps (w_row w)). st_status s = StepPending \<or> st_status s = StepCompleted"
  shows "good w (execute w)"
proof -
  let ?row = "w_row w"
  let ?steps = "wf_steps ?row"
  have ongoing: "ongoing w" using on ex by (auto simp: ongoing_def executing_def)
  have core: "core (wf_id ?row) (wf_planningSessionId ?row) ?steps (w_runs w) (w_sessions w) (w_submits w)"
    using on by (simp add: base_def)
  then have sound: "sound_plan ?steps" and ids: "distinct (step_ids ?steps)" by (auto simp: core_def sound_plan_def)
  consider (cancelling) "wf_status ?row = WCancelling" | (closing) "wf_status ?row \<noteq> WCancelling" "w_closing w"
    | (none) "wf_status ?row = WRunning" "\<not> w_closing w" "ready_step ?steps = None"
    | (some) s where "wf_status ?row = WRunning" "\<not> w_closing w" "ready_step ?steps = Some s"
    using ex by (cases "ready_step ?steps") (auto simp: executing_def)
  then show ?thesis
  proof cases
    case cancelling
    then show ?thesis using finishCancelled_good [OF ongoing] by (simp add: execute_def)
  next
    case closing
    then show ?thesis using caught_good [OF ongoing] by (simp add: execute_def)
  next
    case none
    from no_step_is_stuck [OF sound waits none(3)] have "all_done ?steps" by (simp add: all_done_def)
    with none on ex show ?thesis by (simp add: execute_def good_def wf_inv_def later_def)
  next
    case (some s)
    have s: "s \<in> set ?steps" "st_status s = StepPending" "deps_done ?steps s" using ready_stepD [OF ids some(3)] by auto
    then obtain session where session: "st_sessionId s = Some session" and unsent: "unsent (w_runs w) s"
      using ex by (auto simp: executing_def)
    have fresh: "\<forall>r \<in> set (w_runs w). ap_session r \<noteq> session" using unsent session by (auto simp: unsent_def)
    show ?thesis
    proof (cases "aw_fits (w_ans w)")
      case False
      with some session show ?thesis using caught_good [OF ongoing] by (simp add: execute_def)
    next
      case True
      let ?key = "step_key ?row s"
      from fresh show ?thesis
      proof (cases rule: submit_cases [of w session ?key])
        case (failed e a)
        have "ongoing (w\<lparr>w_ans := a\<rparr>)" using ongoing by (simp add: ongoing_def)
        from good_trans [OF good_cong_ans caught_good [OF this]] failed some session True show ?thesis
          by (simp add: execute_def)
      next
        case (accepted a r)
        let ?w = "w\<lparr>w_ans := a, w_submits := w_submits w @ [(session, ?key)], w_runs := w_runs w @ [r]\<rparr>"
        let ?set = "\<lambda>s. s\<lparr>st_runId := Some (length (w_runs w)), st_status := StepRunning\<rparr>"
        let ?next = "?row\<lparr>wf_steps := map_step (ps_id s) ?set ?steps\<rparr>"
        have key: "ap_key r = ?key" by (rule accepted(3))
        from submitted_step [OF on ex waits s _ unsent key some(1)] session accepted(2)
        have next_base: "base ?row (w_runs ?w) (w_sessions ?w) (w_submits ?w)" "base ?next (w_runs ?w) (w_sessions ?w) (w_submits ?w)"
            and next_task: "task_inv ?next (w_runs ?w) (StepWait (length (w_runs w)) (ps_id s))" by simp_all
        have moved: "later w ?w" using some(1) by (simp add: later_def)
        show ?thesis
        proof (cases rule: save_cases [of ?next ?w])
          case (failed e b)
          have "ongoing (?w\<lparr>w_ans := b\<rparr>)" using next_base(1) some(1) by (simp add: ongoing_def)
          from good_trans [OF later_trans [OF moved good_cong_ans] caught_good [OF this]] failed accepted(1) some session True
          show ?thesis by (simp add: execute_def)
        next
          case (saved b t)
          with next_base(2) next_task accepted(1) some session True show ?thesis
            by (simp add: execute_def good_def wf_inv_def later_def Let_def)
        qed
      qed
    qed
  qed
qed

section \<open>The planner\<close>

lemma poll_cancels_cases:
  obtains fails a cs where "poll_cancels n tools w = (fails, w\<lparr>w_cancels := cs, w_ans := a\<rparr>)"
proof (cases "w_closing w \<or> wf_status (w_row w) = WCancelling \<or> tools")
  case True
  obtain fails rest where ans: "next_answer (aw_cancels (w_ans w)) = (fails, rest)" by fastforce
  have "poll_cancels n tools w = (fails, w\<lparr>w_cancels := w_cancels w @ [n], w_ans := (w_ans w)\<lparr>aw_cancels := rest\<rparr>\<rparr>)"
    using True by (simp add: poll_cancels_def cancelRun_def ans)
  then show thesis by (rule that)
next
  case False
  then have "poll_cancels n tools w = (False, w\<lparr>w_cancels := w_cancels w, w_ans := w_ans w\<rparr>)" by (simp add: poll_cancels_def)
  then show thesis by (rule that)
qed

lemma sound_plan_cong:
  assumes "map (\<lambda>s. (ps_id s, ps_dependsOn s)) steps' = map (\<lambda>s. (ps_id s, ps_dependsOn s)) steps"
  shows "sound_plan steps' = sound_plan steps"
proof -
  have step_ids: "step_ids ss = map fst (map (\<lambda>s. (ps_id s, ps_dependsOn s)) ss)"
    and dep: "dep ss = {(d, i). \<exists>q \<in> set (map (\<lambda>s. (ps_id s, ps_dependsOn s)) ss). fst q = i \<and> d \<in> set (snd q)}"
    and known: "deps_known ss = (\<forall>q \<in> set (map (\<lambda>s. (ps_id s, ps_dependsOn s)) ss). set (snd q) \<subseteq> set (step_ids ss))"
    for ss :: "'c plan_step_scheme list"
    by (auto simp: dep_def deps_known_def)
  have ids: "step_ids steps' = step_ids steps" by (simp only: step_ids assms)
  have "dep steps' = dep steps" "deps_known steps' = deps_known steps" by (simp_all only: dep known ids assms)
  with ids show ?thesis by (simp only: sound_plan_def)
qed

lemma plan_steps_new:
  assumes "plan_steps w steps = Some steps'" "sound_plan steps"
  shows "sound_plan steps' \<and> (\<forall>s \<in> set steps'. new_step s)"
proof -
  have "map (\<lambda>s. (ps_id s, ps_dependsOn s)) steps' = map (\<lambda>s. (ps_id s, ps_dependsOn s)) steps \<and> (\<forall>s \<in> set steps'. new_step s)"
    using assms(1) unfolding plan_steps_def
    by (induction steps arbitrary: steps') (auto simp: Let_def new_step_def split: option.splits)
  with assms(2) sound_plan_cong show ?thesis by blast
qed

lemma accepted_plan_sound: "parseWorkflowPlan decode folded text = Inr plan \<Longrightarrow> sound_plan (pl_steps plan)"
  by (auto simp: parseWorkflowPlan_def plan_is_sound split: if_splits decoded.splits option.splits)

lemma inv_ongoing: "wf_inv w \<Longrightarrow> w_task w \<noteq> NoTask \<Longrightarrow> ongoing w"
  by (auto simp: wf_inv_def ongoing_def)

lemma ongoing_updates [simp]:
  "ongoing (w\<lparr>w_ans := a\<rparr>) = ongoing w" "ongoing (w\<lparr>w_cancels := cs\<rparr>) = ongoing w"
  by (simp_all add: ongoing_def)

lemma later_updates [simp]:
  "later w (v\<lparr>w_ans := a\<rparr>) = later w v" "later w (v\<lparr>w_cancels := cs\<rparr>) = later w v"
  "later (w\<lparr>w_ans := a\<rparr>) v = later w v" "later (w\<lparr>w_cancels := cs\<rparr>) v = later w v"
  "good (w\<lparr>w_ans := a\<rparr>) v = good w v" "good (w\<lparr>w_cancels := cs\<rparr>) v = good w v"
  by (simp_all add: later_def good_def)

lemma closeSession_fields [simp]:
  "w_row (closeSession n w) = w_row w" "w_runs (closeSession n w) = w_runs w"
  "w_sessions (closeSession n w) = w_sessions w" "w_submits (closeSession n w) = w_submits w"
  "w_asking (closeSession n w) = w_asking w" "w_task (closeSession n w) = w_task w"
  by (simp_all add: closeSession_def)

lemma planned_good:
  assumes "ongoing w" "wf_status (w_row w) \<in> {WPlanning, WCancelling}" "wf_steps (w_row w) = []"
  shows "good w (planned run t w)"
proof -
  have "sound_plan steps \<and> (\<forall>s \<in> set steps. new_step s)"
    if "parseWorkflowPlan (aw_decode (w_ans w)) (aw_folded (w_ans w)) out = Inr plan" "plan_steps w (pl_steps plan) = Some steps"
    for out plan steps
    using plan_steps_new [OF that(2) accepted_plan_sound [OF that(1)]] .
  then have awaits: "good w ((closeSession (ap_session run) w)\<lparr>w_task := PlanClosing title steps\<rparr>)"
    if "parseWorkflowPlan (aw_decode (w_ans w)) (aw_folded (w_ans w)) out = Inr plan" "plan_steps w (pl_steps plan) = Some steps"
    for out plan steps title
    using that assms by (auto simp: good_def wf_inv_def later_def ongoing_def)
  show ?thesis
    using awaits by (auto simp: planned_def caught_good [OF assms(1)] finishCancelled_good [OF assms(1)] split: sum.split option.split)
qed

lemma poll_planner_good:
  assumes "wf_inv w" "w_task w = PlanWait n tools"
  shows "good w (poll_planner n tools w)"
proof -
  have on: "ongoing w" using assms by (simp add: inv_ongoing)
  obtain fails a cs where polled: "poll_cancels n (tools \<or> ap_tools (w_runs w ! n)) w = (fails, w\<lparr>w_cancels := cs, w_ans := a\<rparr>)"
    by (rule poll_cancels_cases)
  let ?w = "w\<lparr>w_cancels := cs, w_ans := a\<rparr>"
  have "good ?w (caught e ?w)" for e using on by (intro caught_good) simp
  moreover have "good ?w (planned (w_runs w ! n) t ?w)" for t
    using assms on by (intro planned_good) (simp_all add: wf_inv_def)
  moreover have "wf_inv (?w\<lparr>w_task := PlanWait n tools'\<rparr>)" for tools' using assms by (simp add: wf_inv_def)
  ultimately show ?thesis
    by (auto simp: poll_planner_def Let_def polled good_def later_def split: run_status.split)
qed

lemma drafted_base:
  assumes "base row runs sessions submits" "wf_steps row = []" "sound_plan steps" "\<forall>s \<in> set steps. new_step s"
  shows "base (row\<lparr>wf_title := t, wf_steps := steps, wf_status := WDraft\<rparr>) runs sessions submits"
  using assms by (auto simp: base_def core_def step_inv_def run_inv_def new_step_def unsent_def)

lemma plan_closed_good:
  assumes "wf_inv w" "w_task w = PlanClosing title steps"
  shows "good w (plan_closed title steps w)"
proof -
  have on: "ongoing w" using assms by (simp add: inv_ongoing)
  let ?row = "(w_row w)\<lparr>wf_title := Some title, wf_steps := steps, wf_status := WDraft\<rparr>"
  have row: "base ?row (w_runs w) (w_sessions w) (w_submits w)"
    using assms by (intro drafted_base) (simp_all add: wf_inv_def)
  have status: "wf_status (w_row w) \<in> {WPlanning, WCancelling}" using assms by (simp add: wf_inv_def)
  show ?thesis
  proof (cases "close_fails w \<or> wf_status (w_row w) = WCancelling")
    case True
    then show ?thesis by (auto simp: plan_closed_def caught_good [OF on] finishCancelled_good [OF on])
  next
    case False
    with status have planning: "wf_status (w_row w) = WPlanning" by simp
    show ?thesis
    proof (cases rule: save_cases [of ?row w])
      case (failed e a)
      have "good (w\<lparr>w_ans := a\<rparr>) (caught e (w\<lparr>w_ans := a\<rparr>))" using on by (intro caught_good) simp
      with failed False show ?thesis by (simp add: plan_closed_def)
    next
      case (saved a t)
      with False row planning show ?thesis
        by (simp add: plan_closed_def good_def task_over_def wf_inv_def later_def)
    qed
  qed
qed

section \<open>The Run of a step\<close>

lemma unique_step:
  assumes "base row runs sessions submits" "s \<in> set (wf_steps row)" "t \<in> set (wf_steps row)" "ps_id t = ps_id s"
  shows "t = s"
  using assms by (auto simp: base_def core_def sound_plan_def distinct_map dest: inj_onD)

lemma step_ended_row:
  assumes on: "base row runs sessions submits" and ex: "executing row runs" "others_wait (ps_id s) (wf_steps row)"
    and s: "s \<in> set (wf_steps row)" "st_runId s = Some n" and run: "ap_status (runs ! n) = Ended t"
  defines "finished \<equiv> applyResult (runs ! n) s"
  defines "row' \<equiv> row\<lparr>wf_steps := map_step (ps_id s) (\<lambda>_. finished) (wf_steps row)\<rparr>"
  shows "base row' runs sessions submits" "task_inv row' runs (StepClosing finished (wf_status row'))"
proof -
  let ?f = "\<lambda>t. if ps_id t = ps_id s then finished else t"
  have "advances (wf_id row) runs u (?f u)" if u: "u \<in> set (wf_steps row)" for u
    using unique_step [OF on s(1) u] step_inv_base [OF on u] advances_applyResult [OF step_inv_base [OF on s(1)] s(2)]
    by (auto simp: finished_def intro: advances_refl)
  then have "base (row\<lparr>wf_steps := map ?f (wf_steps row), wf_status := wf_status row\<rparr>) runs sessions submits"
    by (rule base_steps [OF on]) (use ex in \<open>auto simp: executing_def\<close>)
  then show base': "base row' runs sessions submits" by (simp add: row'_def map_step_def base_def)
  have status: "st_status finished \<noteq> StepPending" "st_status finished \<noteq> StepRunning" "ps_id finished = ps_id s"
      "st_sessionId finished = st_sessionId s"
    using applyResult_ended [OF run, of s] by (simp_all add: finished_def)
  have "executing row' runs" using ex(1) s(1) status by (auto simp: executing_def row'_def set_map_step)
  moreover have "others_wait (ps_id s) (wf_steps row')" using ex(2) status by (auto simp: others_wait_def row'_def set_map_step)
  moreover have "finished \<in> set (wf_steps row')" using s(1) by (auto simp: row'_def set_map_step image_iff intro!: bexI [of _ s])
  ultimately show "task_inv row' runs (StepClosing finished (wf_status row'))" using status by simp
qed

lemma poll_step_good:
  assumes inv: "wf_inv w" "w_task w = StepWait n i"
  shows "good w (poll_step n i w)"
proof -
  have on: "ongoing w" using inv by (simp add: inv_ongoing)
  obtain fails a cs where polled: "poll_cancels n False w = (fails, w\<lparr>w_cancels := cs, w_ans := a\<rparr>)"
    by (rule poll_cancels_cases)
  let ?w = "w\<lparr>w_cancels := cs, w_ans := a\<rparr>"
  have catches: "good ?w (caught e ?w)" for e using on by (intro caught_good) simp
  have base: "base (w_row w) (w_runs w) (w_sessions w) (w_submits w)" using on by (simp add: ongoing_def)
  obtain s where s: "s \<in> set (wf_steps (w_row w))" "ps_id s = i" "st_runId s = Some n"
    using inv by (auto simp: wf_inv_def)
  have ex: "executing (w_row w) (w_runs w)" "others_wait (ps_id s) (wf_steps (w_row w))" using inv s(2) by (auto simp: wf_inv_def)
  have found: "get_step i (wf_steps (w_row w)) = Some s"
    using base s by (simp add: get_step_Some base_def core_def sound_plan_def)
  have "good w (step_ended (w_runs w ! n) i ?w)" if ended: "ap_status (w_runs w ! n) = Ended t" for t
  proof -
    let ?finished = "applyResult (w_runs w ! n) s"
    let ?row = "(w_row w)\<lparr>wf_steps := map_step i (\<lambda>_. ?finished) (wf_steps (w_row w))\<rparr>"
    from step_ended_row [OF base ex s(1,3) ended] s(2)
    have row: "base ?row (w_runs w) (w_sessions w) (w_submits w)" "task_inv ?row (w_runs w) (StepClosing ?finished (wf_status ?row))"
      by simp_all
    have status: "wf_status ?row \<noteq> WCompleted" using ex(1) by (auto simp: executing_def)
    show ?thesis
    proof (cases rule: save_cases [of ?row ?w])
      case (failed e b)
      have "good (?w\<lparr>w_ans := b\<rparr>) (caught e (?w\<lparr>w_ans := b\<rparr>))" using on by (intro caught_good) simp
      with failed found show ?thesis by (simp add: step_ended_def Let_def)
    next
      case (saved b t)
      with found row status show ?thesis by (simp add: step_ended_def Let_def good_def wf_inv_def later_def)
    qed
  qed
  moreover have "good w ?w" using inv by (simp add: good_def wf_inv_def)
  ultimately show ?thesis using catches by (auto simp: poll_step_def Let_def polled split: run_status.split)
qed

lemma step_closed_good:
  assumes inv: "wf_inv w" "w_task w = StepClosing finished status"
  shows "good w (step_closed finished status w)"
proof -
  have on: "ongoing w" using inv by (simp add: inv_ongoing)
  then have base: "base (w_row w) (w_runs w) (w_sessions w) (w_submits w)" by (simp add: ongoing_def)
  have t: "executing (w_row w) (w_runs w)" "others_wait (ps_id finished) (wf_steps (w_row w))"
      "finished \<in> set (wf_steps (w_row w))"
    using inv by (simp_all add: wf_inv_def)
  let ?stopped = "set_status WFailed w ((w_row w)\<lparr>wf_error := st_error finished, wf_steps := map block_pending (wf_steps (w_row w))\<rparr>)"
  have "base ((w_row w)\<lparr>wf_steps := map block_pending (wf_steps (w_row w)), wf_status := WFailed\<rparr>)
      (w_runs w) (w_sessions w) (w_submits w)"
    by (rule base_steps [OF base]) (use step_inv_base [OF base] in \<open>auto intro: advances_block advances_refl\<close>)
  then have stopped: "base ?stopped (w_runs w) (w_sessions w) (w_submits w)" by (simp add: base_def set_status_def)
  have fails: "good w (case save ?stopped w of (Some e, w) \<Rightarrow> caught e w
      | (None, w) \<Rightarrow> (closeOwnedSessions ?stopped w)\<lparr>w_task := FailClosing\<rparr>)"
  proof (cases rule: save_cases [of ?stopped w])
    case (failed e a)
    have "good (w\<lparr>w_ans := a\<rparr>) (caught e (w\<lparr>w_ans := a\<rparr>))" using on by (intro caught_good) simp
    with failed show ?thesis by simp
  next
    case (saved a t)
    with stopped show ?thesis by (simp add: good_def wf_inv_def later_def set_status_def)
  qed
  have "good w (execute w)" if "st_status finished = StepCompleted"
    using unique_step [OF base t(3)] t(2) that by (intro execute_good [OF base t(1)]) (auto simp: others_wait_def)
  then show ?thesis
    using fails by (auto simp: step_closed_def Let_def caught_good [OF on] finishCancelled_good [OF on])
qed

lemma handler_cancelled_good:
  assumes inv: "wf_inv w" "w_task w = HandlerCancel"
  shows "good w (handler_cancelled w)"
proof -
  have on: "ongoing w" using inv by (simp add: inv_ongoing)
  then have base: "base (w_row w) (w_runs w) (w_sessions w) (w_submits w)" by (simp add: ongoing_def)
  show ?thesis
  proof (cases rule: save_cases [of "cancelled_row w" w])
    case (failed e a)
    with on show ?thesis by (simp add: handler_cancelled_def Let_def good_def wf_inv_def ongoing_def later_def)
  next
    case (saved a t)
    with on cancelled_row_base [OF base] show ?thesis
      by (simp add: handler_cancelled_def Let_def good_def wf_inv_def ongoing_def later_def) (simp add: cancelled_row_def set_status_def)
  qed
qed

lemma tick_good:
  assumes inv: "wf_inv w" and asked: "asked_inv w"
  shows "good w (tick w)"
proof (cases "w_task w")
  case NoTask
  with inv show ?thesis by (simp add: tick_def good_def)
next
  case (PlanWait n tools)
  with inv show ?thesis by (simp add: tick_def poll_planner_good)
next
  case (PlanClosing title steps)
  with inv show ?thesis by (simp add: tick_def plan_closed_good)
next
  case (StepWait n i)
  with inv show ?thesis by (simp add: tick_def poll_step_good)
next
  case (StepClosing finished status)
  with inv show ?thesis by (simp add: tick_def step_closed_good)
next
  case HandlerCancel
  with inv show ?thesis by (simp add: tick_def handler_cancelled_good)
next
  case Settling
  with inv have on: "ongoing w" and ex: "executing (w_row w) (w_runs w)" by (auto simp: inv_ongoing wf_inv_def)
  then have base: "base (w_row w) (w_runs w) (w_sessions w) (w_submits w)" by (simp add: ongoing_def)
  have "good w (save_and_end (settled_row w) w)" if "wf_status (w_row w) = WRunning"
    using asked that by (intro save_and_end_good [OF on settled_row_base [OF base]])
      (auto simp: settled_row_def set_status_def asked_inv_def Let_def)
  with Settling ex show ?thesis
    by (auto simp: tick_def settle_all_def caught_good [OF on] finishCancelled_good [OF on] executing_def)
next
  case FailClosing
  with inv have on: "ongoing w" by (simp add: inv_ongoing)
  with FailClosing show ?thesis by (auto simp: tick_def caught_good ongoing_def intro: task_over_good)
next
  case CancelClosing
  with inv have on: "ongoing w" by (simp add: inv_ongoing)
  then have base: "base (w_row w) (w_runs w) (w_sessions w) (w_submits w)" by (simp add: ongoing_def)
  have "good w (save_and_end (cancelled_row w) w)"
    by (rule save_and_end_good [OF on cancelled_row_base [OF base]]) (simp_all add: cancelled_row_def set_status_def)
  with CancelClosing show ?thesis by (simp add: tick_def caught_good [OF on])
next
  case CatchClosing
  with inv have on: "ongoing w" by (simp add: inv_ongoing)
  with CatchClosing show ?thesis by (auto simp: tick_def good_def wf_inv_def ongoing_def later_def task_over_def)
qed

section \<open>Requests\<close>

definition steps_bound :: "jstring set \<Rightarrow> workflow \<Rightarrow> bool" where
  "steps_bound ids row \<longleftrightarrow> (\<forall>s \<in> set (wf_steps row). ps_id s \<in> ids \<longrightarrow> st_sessionId s \<noteq> None)"

lemma bound_session:
  fixes i :: jstring
  assumes on: "base row runs sessions submits" and draft: "wf_status row = WDraft"
  defines "row' \<equiv> row\<lparr>wf_steps := map_step i (\<lambda>s. s\<lparr>st_sessionId := Some (length sessions)\<rparr>) (wf_steps row)\<rparr>"
  shows "base row' runs (sessions @ [x]) submits"
proof -
  let ?i = "wf_id row" and ?p = "wf_planningSessionId row"
  let ?f = "\<lambda>s. if ps_id s = i then s\<lparr>st_sessionId := Some (length sessions)\<rparr> else s"
  have core: "core ?i ?p (wf_steps row) runs sessions submits" and unsent: "\<forall>s \<in> set (wf_steps row). unsent runs s"
    using on draft by (simp_all add: base_def)
  have distinct: "\<forall>s \<in> set (wf_steps row). \<forall>t \<in> set (wf_steps row).
      st_sessionId s \<noteq> None \<and> st_sessionId s = st_sessionId t \<longrightarrow> ps_id s = ps_id t"
    using core unfolding core_def by blast
  have runs: "ap_session r < length sessions \<and> ?p = Some (ap_session r) \<and> ap_key r = ?i @ js '':planning''"
    if "r \<in> set runs" for r
    using core unsent that by (fastforce simp: core_def run_inv_def unsent_def)
  have "sound_plan (map ?f (wf_steps row))" using core by (subst dep_map) (auto simp: core_def)
  moreover have "step_inv ?i ?p runs (sessions @ [x]) (?f s)" if s: "s \<in> set (wf_steps row)" for s
  proof -
    have "st_runId s = None" "st_status s = StepPending" using unsent s by (auto simp: unsent_def)
    moreover have "step_inv ?i ?p runs sessions s" "\<forall>n. ?p = Some n \<longrightarrow> n < length sessions" using core s by (auto simp: core_def)
    ultimately show ?thesis by (auto simp: step_inv_def)
  qed
  moreover have "ps_id (?f s) = ps_id (?f t)"
    if "s \<in> set (wf_steps row)" "t \<in> set (wf_steps row)" "st_sessionId (?f s) \<noteq> None" "st_sessionId (?f s) = st_sessionId (?f t)" for s t
  proof -
    have "st_sessionId u \<noteq> Some (length sessions)" if "u \<in> set (wf_steps row)" for u
      using core that by (auto simp: core_def step_inv_def)
    then have "st_sessionId s \<noteq> Some (length sessions)" "st_sessionId t \<noteq> Some (length sessions)" using that by simp_all
    with that(3,4) consider "ps_id s = ps_id t" | "st_sessionId s \<noteq> None" "st_sessionId s = st_sessionId t"
      by (auto split: if_splits)
    then have "ps_id s = ps_id t" using distinct that(1,2) by blast
    then show ?thesis by simp
  qed
  moreover have "run_inv ?i ?p (map ?f (wf_steps row)) (sessions @ [x]) r" if "r \<in> set runs" for r
    using runs [OF that] by (simp add: run_inv_def)
  moreover have "\<forall>n. ?p = Some n \<longrightarrow> n < length (sessions @ [x])" "submits = map (\<lambda>r. (ap_session r, ap_key r)) runs" "distinct submits"
    using core by (auto simp: core_def)
  ultimately have "core ?i ?p (map ?f (wf_steps row)) runs (sessions @ [x]) submits"
    unfolding core_def set_map ball_simps(9) by blast
  moreover have "\<forall>r \<in> set runs. ap_session r \<noteq> length sessions" using runs by (metis less_irrefl)
  then have "\<forall>s \<in> set (wf_steps row). unsent runs (?f s)"
    using unsent by (auto simp: unsent_def)
  then have "\<forall>s \<in> set (map ?f (wf_steps row)). unsent runs s" unfolding set_map ball_simps(9) .
  ultimately show ?thesis using draft by (simp add: base_def row'_def map_step_def del: set_map)
qed

lemma bind_sessions_good:
  assumes "bind_sessions rest row w = (error, row', w')" "base row (w_runs w) (w_sessions w) (w_submits w)"
    and "base (w_row w) (w_runs w) (w_sessions w) (w_submits w)" "wf_status row = WDraft" "wf_status (w_row w) = WDraft"
    and "steps_bound ids row"
  shows "base row' (w_runs w') (w_sessions w') (w_submits w') \<and> base (w_row w') (w_runs w') (w_sessions w') (w_submits w') \<and>
    wf_status row' = WDraft \<and> wf_status (w_row w') = WDraft \<and> w_asking w' = w_asking w \<and> w_task w' = w_task w \<and>
    step_ids (wf_steps row') = step_ids (wf_steps row) \<and>
    (error = None \<longrightarrow> steps_bound (ids \<union> ps_id ` set rest) row')"
  using assms
proof (induction rest row w arbitrary: ids rule: bind_sessions.induct)
  case (1 row w)
  then show ?case by (auto simp: steps_bound_def)
next
  case (2 s rest row w)
  show ?case
  proof (cases rule: createSession_cases [of "se_engineId (st_selection s)" "wf_workspaceId row" w])
    case (failed e a)
    with 2 show ?thesis by auto
  next
    case (created a x)
    let ?n = "length (w_sessions w)"
    let ?row = "row\<lparr>wf_steps := map_step (ps_id s) (\<lambda>s. s\<lparr>st_sessionId := Some ?n\<rparr>) (wf_steps row)\<rparr>"
    let ?w = "ownSession ?n (w\<lparr>w_ans := a, w_sessions := w_sessions w @ [x]\<rparr>)"
    have row: "base ?row (w_runs w) (w_sessions w @ [x]) (w_submits w)"
      by (rule bound_session [OF 2(3,5)])
    have old: "base (w_row w) (w_runs w) (w_sessions w @ [x]) (w_submits w)"
      using 2(4) core_more_sessions by (simp add: base_def)
    have bound: "steps_bound (insert (ps_id s) ids) ?row" using 2(7) by (auto simp: steps_bound_def set_map_step)
    show ?thesis
    proof (cases rule: save_cases [of ?row ?w])
      case (failed e b)
      with 2(2,5,6) created row old show ?thesis by (auto simp: ownSession_def map_step_def)
    next
      case (saved b t)
      let ?next = "?w\<lparr>w_ans := b, w_row := ?row\<lparr>wf_updatedAt := t\<rparr>\<rparr>"
      have more: "bind_sessions rest ?row ?next = (error, row', w')" using 2(2) created saved by (simp add: Let_def)
      have "step_ids (wf_steps ?row) = step_ids (wf_steps row)" by (simp add: map_step_def)
      then show ?thesis
        using "2.IH" [OF created [symmetric] refl refl saved [symmetric] refl more, of "insert (ps_id s) ids"] row bound 2(5)
        by (simp add: ownSession_def)
    qed
  qed
qed

lemma approve_good:
  assumes inv: "wf_inv w"
  shows "good w (snd (approve w))"
proof (cases "\<not> isReady w \<or> wf_approvedAt (w_row w) \<noteq> None \<or> wf_status (w_row w) \<noteq> WDraft \<or>
    list_ex (\<lambda>s. \<not> engine_unchanged w s) (wf_steps (w_row w))")
  case True
  with inv show ?thesis by (auto simp: approve_def good_def)
next
  case False
  let ?steps = "wf_steps (w_row w)"
  obtain error row w1 where bound: "bind_sessions ?steps (w_row w) w = (error, row, w1)" by (cases "bind_sessions ?steps (w_row w) w")
  have base: "base (w_row w) (w_runs w) (w_sessions w) (w_submits w)" using inv by (simp add: wf_inv_def)
  have draft: "wf_status (w_row w) = WDraft" using False by simp
  have one: "base row (w_runs w1) (w_sessions w1) (w_submits w1)" "base (w_row w1) (w_runs w1) (w_sessions w1) (w_submits w1)"
      "wf_status row = WDraft" "wf_status (w_row w1) = WDraft" "w_asking w1 = w_asking w"
      "step_ids (wf_steps row) = step_ids ?steps" "error = None \<Longrightarrow> steps_bound (ps_id ` set ?steps) row"
    using bind_sessions_good [OF bound base base draft draft, of "{}"] by (auto simp: steps_bound_def)
  have fails: "good w (approve_failed e row' v)"
    if "base row' (w_runs v) (w_sessions v) (w_submits v)" "base (w_row v) (w_runs v) (w_sessions v) (w_submits v)"
      "wf_status (w_row v) = WDraft" "w_asking v = w_asking w" for row' v e
  proof -
    let ?failed = "set_status WFailed v (row'\<lparr>wf_error := Some e\<rparr>)"
    have "base (row'\<lparr>wf_status := WFailed\<rparr>) (w_runs v) (w_sessions v) (w_submits v)"
      using that(1) by (rule base_same_steps) simp
    then have f: "base ?failed (w_runs v) (w_sessions v) (w_submits v)" "wf_status ?failed = WFailed"
      by (simp_all add: set_status_def base_def)
    show ?thesis
      by (cases rule: save_cases [of ?failed v])
        (use f that draft in \<open>simp_all add: approve_failed_def Let_def good_def wf_inv_def later_def\<close>)
  qed
  show ?thesis
  proof (cases error)
    case (Some e)
    then show ?thesis
      using False bound fails [OF one(1,2,4,5), of e] by (simp add: approve_def)
  next
    case None
    let ?row = "row\<lparr>wf_approvedAt := Some (aw_now (w_ans w1)), wf_status := WRunning\<rparr>"
    have "base (row\<lparr>wf_status := WRunning\<rparr>) (w_runs w1) (w_sessions w1) (w_submits w1)"
      using one(1) by (rule base_same_steps) simp
    then have running: "base ?row (w_runs w1) (w_sessions w1) (w_submits w1)" by (simp add: base_def)
    show ?thesis
    proof (cases rule: save_cases [of ?row w1])
      case (failed e a)
      let ?v = "w1\<lparr>w_ans := a\<rparr>"
      have "base ?row (w_runs ?v) (w_sessions ?v) (w_submits ?v)" using running by simp
      from fails [OF this, of e] False None bound failed one(2,4,5) show ?thesis by (simp add: approve_def)
    next
      case (saved a t)
      let ?v = "w1\<lparr>w_ans := a, w_row := ?row\<lparr>wf_updatedAt := t\<rparr>\<rparr>"
      have unsent: "\<forall>s \<in> set (wf_steps row). unsent (w_runs w1) s" using one(1,3) by (simp add: base_def)
      have "\<forall>s \<in> set (wf_steps row). ps_id s \<in> ps_id ` set ?steps" using one(6) by (metis image_eqI list.set_map)
      then have "executing (w_row ?v) (w_runs ?v)"
        using one(7) [OF None] unsent by (auto simp: executing_def steps_bound_def)
      then have "good ?v (execute ?v)"
        using running unsent by (intro execute_good) (auto simp: unsent_def)
      moreover have "later w ?v" using draft one(5) by (simp add: later_def)
      ultimately have "good w (execute ?v)" by (rule good_trans [rotated])
      with False None bound saved show ?thesis by (simp add: approve_def Let_def)
    qed
  qed
qed

lemma task_inv_cancelling:
  assumes "task_inv row runs task"
  shows "task_inv (row\<lparr>wf_status := WCancelling\<rparr>) runs task"
  using assms by (cases task) (auto simp: executing_def)

lemma cancel_asked_good:
  assumes inv: "wf_inv w" "asked_inv w"
  shows "wf_inv (snd (cancel_asked w)) \<and> asked_inv (snd (cancel_asked w)) \<and> forward w (snd (cancel_asked w))"
proof (cases "isWorkflowTerminal (wf_status (w_row w))")
  case True
  with inv show ?thesis by (simp add: cancel_asked_def forward_def)
next
  case False
  let ?row = "(w_row w)\<lparr>wf_status := WCancelling\<rparr>"
  have row: "base ?row (w_runs w) (w_sessions w) (w_submits w)" "task_inv ?row (w_runs w) (w_task w)"
    using inv by (auto simp: wf_inv_def intro: base_same_steps task_inv_cancelling)
  have stage: "stage (wf_status (w_row w)) \<le> 3" using False by (cases "wf_status (w_row w)") (auto simp: isWorkflowTerminal_def)
  show ?thesis
    by (cases rule: save_cases [of ?row w])
      (use False inv row stage in \<open>simp_all add: cancel_asked_def wf_inv_def asked_inv_def forward_def\<close>)
qed

lemma cancel_returns_good:
  assumes inv: "wf_inv w" "asked_inv w"
  shows "wf_inv (cancel_returns w) \<and> asked_inv (cancel_returns w) \<and> forward w (cancel_returns w)"
  using inv
  by (auto simp: cancel_returns_def Let_def finishCancelled_def wf_inv_def asked_inv_def forward_def)

lemma reconcile_base:
  assumes "base (w_row w) (w_runs w) (w_sessions w) (w_submits w)"
  shows "base (reconcile w) (w_runs w) (w_sessions w) (w_submits w) \<and> stage (wf_status (reconcile w)) = 4"
proof -
  let ?steps = "map (reconcile_step w) (wf_steps (w_row w))"
  let ?status = "if ?steps \<noteq> [] \<and> list_all (\<lambda>s. st_status s = StepCompleted) ?steps then WCompleted else WInterrupted"
  have "base ((w_row w)\<lparr>wf_steps := ?steps, wf_status := ?status\<rparr>) (w_runs w) (w_sessions w) (w_submits w)"
  proof (rule base_steps [OF assms])
    show "advances (wf_id (w_row w)) (w_runs w) s (reconcile_step w s)" if "s \<in> set (wf_steps (w_row w))" for s
      using step_inv_base [OF assms that] by (rule advances_reconcile)
  qed (auto simp: all_done_def list_all_iff split: if_splits)
  moreover have "wf_steps (reconcile w) = ?steps" "wf_status (reconcile w) = ?status" "wf_id (reconcile w) = wf_id (w_row w)"
      "wf_planningSessionId (reconcile w) = wf_planningSessionId (w_row w)"
    unfolding reconcile_def set_status_def Let_def by simp_all
  ultimately show ?thesis by (subst base_cong [where row' = "(w_row w)\<lparr>wf_steps := ?steps, wf_status := ?status\<rparr>"]) simp_all
qed

lemma restart_good:
  assumes inv: "wf_inv w"
  shows "wf_inv (restart w) \<and> asked_inv (restart w) \<and> forward w (restart w)"
proof -
  let ?w = "w\<lparr>w_task := NoTask, w_owned := [], w_closing := False, w_failure := False, w_asking := 0\<rparr>"
  have base: "base (w_row ?w) (w_runs ?w) (w_sessions ?w) (w_submits ?w)" using inv by (simp add: wf_inv_def)
  note row = reconcile_base [OF base]
  show ?thesis
    by (cases rule: save_cases [of "reconcile ?w" ?w])
      (use base row in \<open>simp_all add: restart_def Let_def wf_inv_def asked_inv_def forward_def\<close>)
qed

section \<open>The progress of a Run\<close>

lemma moved_run:
  assumes moved: "runs' = runs[n := x]" "ap_session x = ap_session (runs ! n)" "ap_key x = ap_key (runs ! n)"
    and open_run: "n < length runs" "\<not> isTerminal (ap_status (runs ! n))"
  shows "base row runs sessions submits \<Longrightarrow> base row runs' sessions submits"
    and "task_inv row runs task \<Longrightarrow> task_inv row runs' task"
proof -
  have same: "map (\<lambda>r. (ap_session r, ap_key r)) runs' = map (\<lambda>r. (ap_session r, ap_key r)) runs"
    using moved open_run by (simp add: list_eq_iff_nth_eq nth_list_update)
  have of_run: "run_of i runs' s k = run_of i runs s k" for i s k
    using moved open_run by (auto simp: run_of_def nth_list_update)
  have justified: "justified runs s \<Longrightarrow> justified runs' s" for s
    using moved(1) open_run by (auto simp: justified_def nth_list_update)
  have views: "(\<lambda>r. (ap_session r, ap_key r)) ` set runs' = (\<lambda>r. (ap_session r, ap_key r)) ` set runs"
    using same by (metis list.set_map)
  have all_runs: "(\<forall>r \<in> set runs'. P (ap_session r) (ap_key r)) \<longleftrightarrow> (\<forall>r \<in> set runs. P (ap_session r) (ap_key r))" for P
  proof -
    have "(\<forall>r \<in> set rs. P (ap_session r) (ap_key r)) \<longleftrightarrow> (\<forall>v \<in> (\<lambda>r. (ap_session r, ap_key r)) ` set rs. P (fst v) (snd v))"
      for rs by simp
    from this [of runs'] this [of runs] show ?thesis by (simp only: views)
  qed
  have unsent: "unsent runs' s = unsent runs s" for s
    using all_runs [of "\<lambda>session key. st_sessionId s \<noteq> Some session"] by (simp add: unsent_def)
  have run_invs: "(\<forall>r \<in> set runs'. run_inv i p steps sessions r) \<longleftrightarrow> (\<forall>r \<in> set runs. run_inv i p steps sessions r)" for i p steps
    unfolding run_inv_def by (rule all_runs)
  have "step_inv i p runs sessions s \<Longrightarrow> step_inv i p runs' sessions s" for i p s
    using justified by (auto simp: step_inv_def of_run)
  then have "core i p steps runs sessions submits \<Longrightarrow> core i p steps runs' sessions submits" for i p steps
    unfolding core_def run_invs same by blast
  then show "base row runs sessions submits \<Longrightarrow> base row runs' sessions submits"
    by (simp add: base_def unsent)
  have "executing row runs' = executing row runs" by (simp add: executing_def unsent)
  then show "task_inv row runs task \<Longrightarrow> task_inv row runs' task" using moved(1) by (cases task) simp_all
qed

lemma run_moves_good:
  assumes inv: "wf_inv w" "asked_inv w"
  shows "wf_inv (run_moves n status output error artifacts tools w) \<and> asked_inv (run_moves n status output error artifacts tools w) \<and>
    forward w (run_moves n status output error artifacts tools w)"
proof (cases "n < length (w_runs w) \<and> \<not> isTerminal (ap_status (w_runs w ! n))")
  case True
  note moved = moved_run [OF refl, of _ "w_runs w" n]
  from True inv show ?thesis
    by (auto simp: run_moves_def wf_inv_def asked_inv_def forward_def intro!: moved)
next
  case False
  with inv show ?thesis by (auto simp: run_moves_def forward_def)
qed

section \<open>Every operation\<close>

definition life_inv :: "world \<Rightarrow> bool" where
  "life_inv w \<longleftrightarrow> wf_inv w \<and> asked_inv w"

lemma life_inv_ans [simp]: "life_inv (w\<lparr>w_ans := a\<rparr>) = life_inv w"
  by (simp add: life_inv_def wf_inv_def asked_inv_def)

lemma good_life: "asked_inv w \<Longrightarrow> good w w' \<Longrightarrow> life_inv w' \<and> forward w w'"
  by (auto simp: life_inv_def good_def later_def asked_inv_def forward_def)

lemma wf_step_life: "life_inv w \<Longrightarrow> life_inv (snd (wf_step x w)) \<and> forward w (snd (wf_step x w))"
proof -
  assume life: "life_inv w"
  show ?thesis
  proof (cases x)
    case (Tick a)
    with life show ?thesis
      using good_life [OF _ tick_good, of "w\<lparr>w_ans := a\<rparr>"] by (simp add: life_inv_def wf_inv_def asked_inv_def forward_def)
  next
    case (Approve a)
    have "wf_inv (w\<lparr>w_ans := a\<rparr>)" "asked_inv (w\<lparr>w_ans := a\<rparr>)" using life by (simp_all add: life_inv_def wf_inv_def asked_inv_def)
    with good_life [OF _ approve_good, of "w\<lparr>w_ans := a\<rparr>"] Approve show ?thesis
      by (auto simp: asked_inv_def forward_def)
  next
    case (CancelAsked a)
    with life cancel_asked_good [of "w\<lparr>w_ans := a\<rparr>"] show ?thesis
      by (simp add: life_inv_def wf_inv_def asked_inv_def forward_def)
  next
    case (CancelReturns a)
    with life cancel_returns_good [of "w\<lparr>w_ans := a\<rparr>"] show ?thesis
      by (simp add: life_inv_def wf_inv_def asked_inv_def forward_def)
  next
    case (RunMoves n status out error artifacts tools)
    with life run_moves_good [of w] show ?thesis by (simp add: life_inv_def)
  next
    case CloseService
    with life show ?thesis by (simp add: close_service_def life_inv_def wf_inv_def asked_inv_def forward_def)
  next
    case (Restart a)
    with life restart_good [of "w\<lparr>w_ans := a\<rparr>"] show ?thesis
      by (simp add: life_inv_def wf_inv_def asked_inv_def forward_def)
  qed
qed

interpretation wfm: machine wf_step "\<lambda>w w'. \<exists>x. w' = snd (wf_step x w)" life_inv
  by unfold_locales (use wf_step_life in blast)+

end
