(* ===== verification/WorkflowSaves.thy ===== *)
theory WorkflowSaves
  imports WorkflowLife
begin

text \<open>
  The store accepts what the service writes. Whatever was accepted before keeps the record's sessions
  and Runs those of the application; so an update that only lets steps advance is accepted again.
\<close>

definition ident_inv :: "world \<Rightarrow> bool" where
  "ident_inv w \<longleftrightarrow> list_all (identity_ok (w_sessions w) (w_runs w) (wf_workspaceId (w_row w))) (identities (w_row w))"

lemma identities_updated [simp]: "identities (row\<lparr>wf_updatedAt := t\<rparr>) = identities row"
  by (simp add: identities_def planning_key_def step_key_def)

lemma identity_more:
  "identity_ok sessions runs workspace i \<Longrightarrow> identity_ok (sessions @ xs) runs workspace i"
  "identity_ok sessions runs workspace i \<Longrightarrow> identity_ok sessions (runs @ rs) workspace i"
  by (auto simp: identity_ok_def nth_append split: option.splits)

lemma save_ident: "save row w = (e, w') \<Longrightarrow> ident_inv w \<Longrightarrow> ident_inv w'"
  by (auto simp: save_def Let_def update_ok_def ident_inv_def split: prod.splits if_splits)

lemma ident_fields [simp]:
  "ident_inv (w\<lparr>w_task := t\<rparr>) = ident_inv w" "ident_inv (w\<lparr>w_failure := f\<rparr>) = ident_inv w"
  "ident_inv (w\<lparr>w_owned := os\<rparr>) = ident_inv w" "ident_inv (w\<lparr>w_ans := a\<rparr>) = ident_inv w"
  "ident_inv (w\<lparr>w_closed := cs\<rparr>) = ident_inv w" "ident_inv (w\<lparr>w_cancels := cs\<rparr>) = ident_inv w"
  "ident_inv (w\<lparr>w_asking := n\<rparr>) = ident_inv w" "ident_inv (w\<lparr>w_closing := c\<rparr>) = ident_inv w"
  "ident_inv (closeOwnedSessions row w) = ident_inv w" "ident_inv (closeSession n w) = ident_inv w"
  "ident_inv (ownSession n w) = ident_inv w"
  by (simp_all add: ident_inv_def ownSession_def)

lemma ident_more:
  assumes "ident_inv w"
  shows "ident_inv (w\<lparr>w_sessions := w_sessions w @ xs\<rparr>)" "ident_inv (w\<lparr>w_submits := ss, w_runs := w_runs w @ rs\<rparr>)"
  using assms by (simp_all add: ident_inv_def list_all_iff identity_more)

lemma createSession_ident:
  assumes "createSession engine workspace w = (n, w')" "ident_inv w"
  shows "ident_inv w'"
proof (cases rule: createSession_cases [of engine workspace w])
  case (failed e a)
  with assms show ?thesis by auto
next
  case (created a x)
  have "ident_inv (w\<lparr>w_ans := a\<rparr>)" using assms(2) by simp
  from ident_more(1) [OF this, of "[x]"] created assms(1) show ?thesis by auto
qed

lemma submit_ident:
  assumes "submit session key w = (n, w')" "ident_inv w"
  shows "ident_inv w'"
proof -
  obtain fails xs where xs: "next_answer (aw_submits (w_ans w)) = (fails, xs)" by fastforce
  let ?w = "w\<lparr>w_ans := (w_ans w)\<lparr>aw_submits := xs\<rparr>\<rparr>"
  have w: "ident_inv ?w" using assms(2) by simp
  then have "ident_inv (?w\<lparr>w_submits := ss\<rparr>)" for ss by (simp add: ident_inv_def)
  with assms(1) w ident_more(2) [OF w] show ?thesis
    by (auto simp: submit_def Let_def xs split: if_splits option.splits)
qed

lemmas ident_calls = save_ident createSession_ident submit_ident

lemma caught_ident: "ident_inv w \<Longrightarrow> ident_inv (caught e w)"
  by (auto simp: caught_def Let_def split: prod.split option.split dest: save_ident)

lemma finishCancelled_ident [simp]: "ident_inv (finishCancelled w) = ident_inv w"
  by (simp add: finishCancelled_def)

lemma task_over_ident [simp]: "ident_inv (task_over w) = ident_inv w"
  by (simp add: task_over_def)

lemma save_and_end_ident: "ident_inv w \<Longrightarrow> ident_inv (save_and_end row w)"
  by (auto simp: save_and_end_def split: prod.split option.split dest: save_ident intro: caught_ident)

lemma execute_ident: "ident_inv w \<Longrightarrow> ident_inv (execute w)"
  by (auto simp: execute_def Let_def split: prod.split option.split sum.split dest: ident_calls intro: caught_ident)

lemma planned_ident: "ident_inv w \<Longrightarrow> ident_inv (planned run t w)"
  by (auto simp: planned_def split: sum.split option.split intro: caught_ident)

lemma poll_cancels_ident: "poll_cancels n tools w = (b, w') \<Longrightarrow> ident_inv w' = ident_inv w"
  by (cases rule: poll_cancels_cases [of n tools w]) auto

lemma tick_ident: "ident_inv w \<Longrightarrow> ident_inv (tick w)"
proof (cases "w_task w")
  case (PlanWait n tools)
  then show "ident_inv w \<Longrightarrow> ident_inv (tick w)"
    by (auto simp: tick_def poll_planner_def Let_def split: prod.split run_status.split dest: poll_cancels_ident
        intro!: caught_ident planned_ident)
next
  case (StepWait n i)
  then show "ident_inv w \<Longrightarrow> ident_inv (tick w)"
    by (auto simp: tick_def poll_step_def step_ended_def Let_def split: prod.split run_status.split option.split
        dest: poll_cancels_ident save_ident intro!: caught_ident)
qed (auto simp: tick_def plan_closed_def step_closed_def settle_all_def handler_cancelled_def Let_def
      split: prod.split option.split dest: save_ident intro: caught_ident execute_ident save_and_end_ident)

lemma bind_sessions_ident: "bind_sessions rest row w = (e, row', w') \<Longrightarrow> ident_inv w \<Longrightarrow> ident_inv w'"
proof (induction rest row w rule: bind_sessions.induct)
  case (2 s rest row w)
  obtain n w1 where one: "createSession (se_engineId (st_selection s)) (wf_workspaceId row) w = (n, w1)" by fastforce
  show ?case
  proof (cases n)
    case (Inl e)
    with 2 one show ?thesis by (auto dest: createSession_ident)
  next
    case (Inr session)
    let ?row = "row\<lparr>wf_steps := map_step (ps_id s) (\<lambda>s. s\<lparr>st_sessionId := Some session\<rparr>) (wf_steps row)\<rparr>"
    obtain e2 w2 where two: "save ?row (ownSession session w1) = (e2, w2)" by fastforce
    have "ident_inv w2" using createSession_ident [OF one 2(3)] save_ident [OF two] by simp
    then show ?thesis
      using "2.IH" [OF one [symmetric] Inr refl two [symmetric]] 2(2) one Inr two by (cases e2) (auto simp: Let_def)
  qed
qed simp

lemma approve_failed_ident: "ident_inv w \<Longrightarrow> ident_inv (approve_failed e row w)"
  by (auto simp: approve_failed_def Let_def split: prod.split option.split dest: save_ident)

lemma approve_ident: "ident_inv w \<Longrightarrow> ident_inv (snd (approve w))"
  by (auto simp: approve_def Let_def split: prod.split option.split dest: save_ident bind_sessions_ident
      intro!: approve_failed_ident execute_ident)

lemma wf_step_ident: "ident_inv w \<Longrightarrow> ident_inv (snd (wf_step x w))"
proof (cases x)
  case (RunMoves n status out error artifacts tools)
  show "ident_inv w \<Longrightarrow> ident_inv (snd (wf_step x w))"
    unfolding RunMoves by (auto simp: run_moves_def ident_inv_def list_all_iff identity_ok_def nth_list_update split: option.splits)
qed (auto simp: tick_ident approve_ident cancel_asked_def cancel_returns_def restart_def close_service_def Let_def
    split: prod.split option.split dest: save_ident)

lemma run_ident: "ident_inv w \<Longrightarrow> ident_inv (run_ops wf_step xs w)"
  by (induction xs arbitrary: w) (simp_all add: wf_step_ident)

section \<open>Updates that are accepted\<close>

lemma same_or_unset_refl [simp]: "same_or_unset x x" "same_or_unset None x"
  by (simp_all add: same_or_unset_def)

definition step_identity_ok :: "world \<Rightarrow> workflow_step \<Rightarrow> bool" where
  "step_identity_ok w s \<longleftrightarrow> identity_ok (w_sessions w) (w_runs w) (wf_workspaceId (w_row w))
     \<lparr>id_session = st_sessionId s, id_run = st_runId s, id_key = step_key (w_row w) s,
      id_engine = se_engineId (st_selection s), id_revision = se_profileRevision (st_selection s)\<rparr>"

lemma ident_inv_steps:
  "ident_inv w \<longleftrightarrow>
     identity_ok (w_sessions w) (w_runs w) (wf_workspaceId (w_row w))
       \<lparr>id_session = wf_planningSessionId (w_row w), id_run = wf_planningRunId (w_row w), id_key = planning_key (w_row w),
        id_engine = wf_plannerEngineId (w_row w), id_revision = wf_plannerProfileRevision (w_row w)\<rparr> \<and>
     (\<forall>s \<in> set (wf_steps (w_row w)). step_identity_ok w s)"
  by (auto simp: ident_inv_def identities_def list_all_iff step_identity_ok_def)

text \<open>What an update of the steps must leave: \<open>row'\<close> is the record with other steps, status and end.\<close>

definition planner_ok :: "world \<Rightarrow> nat option \<Rightarrow> bool" where
  "planner_ok w n \<longleftrightarrow> same_or_unset (wf_planningRunId (w_row w)) n \<and>
     identity_ok (w_sessions w) (w_runs w) (wf_workspaceId (w_row w))
       \<lparr>id_session = wf_planningSessionId (w_row w), id_run = n, id_key = planning_key (w_row w),
        id_engine = wf_plannerEngineId (w_row w), id_revision = wf_plannerProfileRevision (w_row w)\<rparr>"

lemma planner_ok_same: "ident_inv w \<Longrightarrow> planner_ok w (wf_planningRunId (w_row w))"
  by (simp add: planner_ok_def ident_inv_steps)

lemma update_of_steps:
  assumes planner: "planner_ok w n" and ids: "distinct (step_ids (wf_steps (w_row w)))"
    and f: "\<And>s. s \<in> set (wf_steps (w_row w)) \<Longrightarrow> ps_id (f s) = ps_id s \<and> step_kept s (f s) \<and> step_identity_ok w (f s)"
    and row: "row' = (w_row w)\<lparr>wf_planningRunId := n, wf_steps := map f (wf_steps (w_row w)), wf_status := status, wf_finishedAt := t, wf_updatedAt := t',
      wf_error := e\<rparr>"
  shows "update_ok (w_sessions w) (w_runs w) (w_row w) row'"
proof -
  have "get_step (ps_id s) (map f (wf_steps (w_row w))) = Some (f s)" if s: "s \<in> set (wf_steps (w_row w))" for s
  proof -
    have "get_step (ps_id s) (map f (wf_steps (w_row w))) = map_option f (get_step (ps_id s) (wf_steps (w_row w)))"
      unfolding get_step_def using f by (intro find_map_same) simp
    also have "get_step (ps_id s) (wf_steps (w_row w)) = Some s" using s ids by (simp add: get_step_Some)
    finally show ?thesis by simp
  qed
  then have "steps_kept (wf_steps (w_row w)) (map f (wf_steps (w_row w)))"
    using f by (simp add: steps_kept_def list_all_iff)
  moreover have "request_kept (w_row w) row'" using planner by (simp add: request_kept_def row planner_ok_def)
  moreover have "list_all (identity_ok (w_sessions w) (w_runs w) (wf_workspaceId row')) (identities row')"
  proof -
    have "identity_ok (w_sessions w) (w_runs w) (wf_workspaceId (w_row w))
        \<lparr>id_session = st_sessionId (f s), id_run = st_runId (f s), id_key = wf_id (w_row w) @ js '':'' @ ps_id s,
         id_engine = se_engineId (st_selection (f s)), id_revision = se_profileRevision (st_selection (f s))\<rparr>"
      if "s \<in> set (wf_steps (w_row w))" for s
    proof -
      have "ps_id (f s) = ps_id s" "step_identity_ok w (f s)" using f [OF that] by simp_all
      then show ?thesis by (simp only: step_identity_ok_def step_key_def)
    qed
    with planner f show ?thesis
      by (auto simp: identities_def list_all_iff row planner_ok_def planning_key_def step_key_def)
  qed
  ultimately show ?thesis by (simp add: update_ok_def row)
qed

lemma save_passes:
  assumes "update_ok (w_sessions w) (w_runs w) (w_row w) (row\<lparr>wf_updatedAt := aw_now (w_ans w)\<rparr>)" "aw_writes (w_ans w) = []"
  shows "save row w = (None, w\<lparr>w_row := row\<lparr>wf_updatedAt := aw_now (w_ans w)\<rparr>\<rparr>)"
  using assms by (simp add: save_def next_answer_def Let_def)

section \<open>The changes of a step\<close>

definition changes_ok :: "world \<Rightarrow> workflow_step \<Rightarrow> workflow_step \<Rightarrow> bool" where
  "changes_ok w s t \<longleftrightarrow> ps_id t = ps_id s \<and> step_kept s t \<and> step_identity_ok w t"

lemma step_identity_cong:
  "st_sessionId s = st_sessionId t \<Longrightarrow> st_runId s = st_runId t \<Longrightarrow> st_selection s = st_selection t \<Longrightarrow> ps_id s = ps_id t \<Longrightarrow>
    step_identity_ok w s = step_identity_ok w t"
  by (simp add: step_identity_ok_def step_key_def)

lemma applyResult_kept: "step_kept s (applyResult run s)" "st_selection (applyResult run s) = st_selection s"
  by (auto simp: step_kept_def applyResult_def Let_def split: run_status.split)

lemma changes_refl: "step_identity_ok w s \<Longrightarrow> changes_ok w s s"
  by (simp add: changes_ok_def step_kept_def)

lemma changes_apply: "step_identity_ok w s \<Longrightarrow> changes_ok w s (applyResult run s)"
  using step_identity_cong [of "applyResult run s" s w] by (simp add: changes_ok_def applyResult_kept)

lemma changes_status: "changes_ok w s t \<Longrightarrow> changes_ok w s (t\<lparr>st_status := x\<rparr>)"
  using step_identity_cong [of "t\<lparr>st_status := x\<rparr>" t w] by (simp add: changes_ok_def step_kept_def)

lemma changes_trans: "changes_ok w s t \<Longrightarrow> changes_ok w t u \<Longrightarrow> changes_ok w s u"
  by (auto simp: changes_ok_def step_kept_def same_or_unset_def)

lemma changes_run:
  assumes "step_identity_ok w s" "st_runId s = None" "n < length (w_runs w)" "st_sessionId s = Some (ap_session (w_runs w ! n))"
    "ap_key (w_runs w ! n) = step_key (w_row w) s"
  shows "changes_ok w s (s\<lparr>st_runId := Some n\<rparr>)"
  using assms by (simp add: changes_ok_def step_kept_def step_identity_ok_def step_key_def identity_ok_def)

lemma changes_accepted:
  assumes "planner_ok w n" "distinct (step_ids (wf_steps (w_row w)))" "\<And>s. s \<in> set (wf_steps (w_row w)) \<Longrightarrow> changes_ok w s (f s)"
    and "row' = (w_row w)\<lparr>wf_planningRunId := n, wf_steps := map f (wf_steps (w_row w)), wf_status := status, wf_finishedAt := t,
      wf_updatedAt := t', wf_error := e\<rparr>"
  shows "update_ok (w_sessions w) (w_runs w) (w_row w) row'"
  using update_of_steps [OF assms(1,2) _ assms(4)] assms(3) by (simp add: changes_ok_def)

end
