(* ===== verification/WorkflowProps.thy ===== *)
theory WorkflowProps
  imports WorkflowSaves
begin

text \<open>
  What holds of a workflow through its whole life, whatever requests come in which order, however its
  Runs go, and whichever calls of the store and the application fail.
\<close>

definition launched :: "workflow \<Rightarrow> bool" where
  "launched row \<longleftrightarrow> wf_status row = WPlanning \<and> wf_steps row = [] \<and> wf_planningSessionId row = None \<and>
     wf_planningRunId row = None"

definition history :: "workflow \<Rightarrow> answers \<Rightarrow> wf_op list \<Rightarrow> world" where
  "history row a ops = run_ops wf_step ops (plan_start (new_world row a))"

section \<open>The start\<close>

lemma core_empty: "\<forall>n. p = Some n \<longrightarrow> n < length sessions \<Longrightarrow> core i p [] [] sessions []"
  by (simp add: core_def sound_plan_def deps_known_def dep_def acyclic_def)

lemma planning_base:
  assumes "wf_status row = WPlanning" "wf_steps row = []" "\<forall>n. wf_planningSessionId row = Some n \<longrightarrow> n < length sessions"
  shows "base row [] sessions []"
  using assms core_empty by (simp add: base_def)

lemma caught_life: "ongoing w \<Longrightarrow> w_asking w = 0 \<Longrightarrow> life_inv (caught e w)"
  using caught_good [of w e] by (auto simp: good_def later_def life_inv_def asked_inv_def)

lemma start_life:
  assumes "launched row"
  shows "life_inv (plan_start (new_world row a))"
proof -
  let ?w = "new_world row a"
  have on: "ongoing v" if "w_row v = row'" "w_runs v = []" "w_submits v = []" "wf_status row' = WPlanning" "wf_steps row' = []"
      "\<forall>n. wf_planningSessionId row' = Some n \<longrightarrow> n < length (w_sessions v)" for v row'
    using that planning_base [of row'] by (simp add: ongoing_def)
  show ?thesis
  proof (cases rule: createSession_cases [of "wf_plannerEngineId row" "wf_workspaceId row" ?w])
    case (failed e b)
    then show ?thesis
      using assms by (auto simp: plan_start_def Let_def new_world_def launched_def intro!: caught_life on)
  next
    case (created b x)
    let ?v = "ownSession 0 (?w\<lparr>w_ans := b, w_sessions := [x]\<rparr>)"
    let ?row = "row\<lparr>wf_planningSessionId := Some 0\<rparr>"
    have v: "createSession (wf_plannerEngineId row) (wf_workspaceId row) ?w = (Inr 0, ?w\<lparr>w_ans := b, w_sessions := [x]\<rparr>)"
      using created by (simp add: new_world_def)
    show ?thesis
    proof (cases rule: save_cases [of ?row ?v])
      case (failed e c)
      with v assms show ?thesis
        by (auto simp: plan_start_def Let_def new_world_def launched_def ownSession_def intro!: caught_life on)
    next
      case (saved c t)
      let ?u = "?v\<lparr>w_ans := c, w_row := ?row\<lparr>wf_updatedAt := t\<rparr>\<rparr>"
      have row: "w_row ?w = row" by (simp add: new_world_def)
      have start: "plan_start ?w = (case submit 0 (planning_key ?row) ?u of
          (Inl e, w) \<Rightarrow> caught e w
        | (Inr n, w) \<Rightarrow> (case save (?row\<lparr>wf_planningRunId := Some n\<rparr>) w of
            (Some e, w) \<Rightarrow> caught e w | (None, w) \<Rightarrow> w\<lparr>w_task := PlanWait n False\<rparr>))"
        using v saved by (simp add: plan_start_def row Let_def)
      have "\<forall>r \<in> set (w_runs ?u). ap_session r \<noteq> 0" by (simp add: new_world_def ownSession_def)
      then show ?thesis
      proof (cases rule: submit_cases [of ?u 0 "planning_key ?row"])
        case (failed e d)
        with start assms show ?thesis
          by (auto simp: new_world_def launched_def ownSession_def intro!: caught_life on)
      next
        case (accepted d r)
        let ?s = "?u\<lparr>w_ans := d, w_submits := [(0, planning_key ?row)], w_runs := [r]\<rparr>"
        have s: "submit 0 (planning_key ?row) ?u = (Inr 0, ?s)" using accepted(1) by (simp add: new_world_def ownSession_def)
        have "core (wf_id row) (Some 0) [] ([] @ [r]) [x] ([] @ [(ap_session r, ap_key r)])"
          by (rule core_submit [OF core_empty]) (use accepted in \<open>auto simp: run_inv_def planning_key_def\<close>)
        then have base: "base row' [r] [x] [(0, planning_key ?row)]"
          if "wf_id row' = wf_id row" "wf_planningSessionId row' = Some 0" "wf_steps row' = []" "wf_status row' = WPlanning" for row'
          using that accepted by (simp add: base_def)
        have planning: "wf_status row = WPlanning" "wf_steps row = []" using assms by (simp_all add: launched_def)
        show ?thesis
        proof (cases rule: save_cases [of "?row\<lparr>wf_planningRunId := Some 0\<rparr>" ?s])
          case (failed e f)
          have "ongoing (?s\<lparr>w_ans := f\<rparr>)" using planning by (simp add: ongoing_def base new_world_def ownSession_def)
          then show ?thesis using start s failed by (simp add: caught_life new_world_def ownSession_def)
        next
          case (saved f t)
          then show ?thesis
            using start s planning by (simp add: life_inv_def wf_inv_def asked_inv_def base new_world_def ownSession_def)
        qed
      qed
    qed
  qed
qed

lemma plan_start_ident:
  assumes "ident_inv w"
  shows "ident_inv (plan_start w)"
proof -
  obtain n w1 where one: "createSession (wf_plannerEngineId (w_row w)) (wf_workspaceId (w_row w)) w = (n, w1)" by fastforce
  note i1 = createSession_ident [OF one assms]
  show ?thesis
  proof (cases n)
    case (Inl e)
    with one i1 show ?thesis by (simp add: plan_start_def Let_def caught_ident)
  next
    case (Inr session)
    let ?row = "(w_row w)\<lparr>wf_planningSessionId := Some session\<rparr>"
    obtain e2 w2 where two: "save ?row (ownSession session w1) = (e2, w2)" by fastforce
    obtain r w3 where three: "submit session (planning_key ?row) w2 = (r, w3)" by fastforce
    obtain e4 w4 where four: "save (?row\<lparr>wf_planningRunId := Some (projr r)\<rparr>) w3 = (e4, w4)" by fastforce
    have i2: "ident_inv w2" using save_ident [OF two] i1 by simp
    note i3 = submit_ident [OF three i2]
    note i4 = save_ident [OF four i3]
    show ?thesis
      using one Inr two three four i2 i3 i4
      by (cases e2; cases r; cases e4) (simp_all add: plan_start_def Let_def caught_ident)
  qed
qed

lemma start_ident:
  assumes "launched row"
  shows "ident_inv (plan_start (new_world row a))"
proof -
  have "ident_inv (new_world row a)"
    using assms by (simp add: ident_inv_def identities_def launched_def new_world_def identity_ok_def)
  then show ?thesis by (rule plan_start_ident)
qed

lemma history_life: "launched row \<Longrightarrow> life_inv (history row a ops)"
  unfolding history_def by (rule wfm.run_inv) (rule start_life)

lemma history_ident: "launched row \<Longrightarrow> ident_inv (history row a ops)"
  unfolding history_def by (rule run_ident) (rule start_ident)

lemma history_append: "history row a (xs @ ys) = run_ops wf_step ys (history row a xs)"
  by (simp add: history_def)

lemma life_core:
  "life_inv w \<Longrightarrow> core (wf_id (w_row w)) (wf_planningSessionId (w_row w)) (wf_steps (w_row w)) (w_runs w) (w_sessions w) (w_submits w)"
  by (simp add: life_inv_def wf_inv_def base_def)

text \<open>A goal whose plan has two steps, in the order opposite to their dependency.\<close>

definition demo_goal :: workflow where
  "demo_goal = \<lparr>wf_id = js ''w'', wf_status = WPlanning, wf_goal = js ''g'', wf_workspaceId = js ''ws'',
     wf_requestedEngineId = js ''b'', wf_plannerEngineId = js ''b'', wf_plannerProfileRevision = [49],
     wf_plannerSelection = \<lparr>se_engineId = js ''b'', se_profileRevision = [49], se_mode = Explicit, se_candidates = []\<rparr>,
     wf_plannerTimeoutMs = 1000, wf_planningSessionId = None, wf_planningRunId = None, wf_title = None, wf_steps = [],
     wf_createdAt = 0, wf_updatedAt = 0, wf_approvedAt = None, wf_finishedAt = None, wf_error = None\<rparr>"

definition demo_answers :: answers where
  "demo_answers = \<lparr>aw_now = 1, aw_ready = True, aw_app = demo_app, aw_fits = True,
     aw_decode = (\<lambda>_. Plan \<lparr>pl_title = js ''t'', pl_steps = [demo_step ''y'' [''x''], demo_step ''x'' []]\<rparr>), aw_folded = id,
     aw_writes = [], aw_creates = [], aw_submits = [], aw_closes = [], aw_cancels = []\<rparr>"

definition demo_planned :: "wf_op list" where
  "demo_planned = [RunMoves 0 (Ended Completed) (Some []) None [] False, Tick demo_answers, Tick demo_answers, Approve demo_answers]"

definition demo_ops :: "wf_op list" where
  "demo_ops = demo_planned @ [RunMoves 1 (Ended Completed) (Some []) None [] False, Tick demo_answers, Tick demo_answers,
    RunMoves 2 (Ended Completed) (Some []) None [] False, Tick demo_answers, Tick demo_answers, Tick demo_answers]"

lemma demo_launched: "launched demo_goal"
  by (simp add: launched_def demo_goal_def)

section \<open>Order\<close>

text \<open>
  C13: whatever happens, no Run is submitted twice for the planner or a step, and a step's Run is
  submitted only after every step it depends on has completed.
\<close>

theorem steps_run_in_order:
  assumes "launched row"
  shows "let w = history row a ops
    in distinct (w_submits w) \<and>
      (\<forall>(session, key) \<in> set (w_submits w).
        wf_planningSessionId (w_row w) = Some session \<and> key = planning_key (w_row w) \<or>
        (\<exists>s \<in> set (wf_steps (w_row w)). st_sessionId s = Some session \<and> key = step_key (w_row w) s \<and>
           (\<forall>d \<in> set (ps_dependsOn s). \<exists>t \<in> set (wf_steps (w_row w)). ps_id t = d \<and> st_status t = StepCompleted)))"
proof -
  let ?w = "history row a ops"
  have core: "core (wf_id (w_row ?w)) (wf_planningSessionId (w_row ?w)) (wf_steps (w_row ?w)) (w_runs ?w) (w_sessions ?w) (w_submits ?w)"
    by (rule life_core) (rule history_life [OF assms])
  then have submits: "w_submits ?w = map (\<lambda>r. (ap_session r, ap_key r)) (w_runs ?w)" "distinct (w_submits ?w)"
    and runs: "\<forall>r \<in> set (w_runs ?w). run_inv (wf_id (w_row ?w)) (wf_planningSessionId (w_row ?w)) (wf_steps (w_row ?w)) (w_sessions ?w) r"
    unfolding core_def by blast+
  have "wf_planningSessionId (w_row ?w) = Some (ap_session r) \<and> ap_key r = planning_key (w_row ?w) \<or>
      (\<exists>s \<in> set (wf_steps (w_row ?w)). st_sessionId s = Some (ap_session r) \<and> ap_key r = step_key (w_row ?w) s \<and>
         (\<forall>d \<in> set (ps_dependsOn s). \<exists>t \<in> set (wf_steps (w_row ?w)). ps_id t = d \<and> st_status t = StepCompleted))"
    if "r \<in> set (w_runs ?w)" for r
    using runs that unfolding run_inv_def deps_done_def planning_key_def step_key_def by blast
  then show ?thesis by (simp only: Let_def submits(1) set_map ball_simps(9) case_prod_conv) (use submits in \<open>auto\<close>)
qed

theorem steps_run_in_order_witness:
  "distinct (w_submits (history demo_goal demo_answers demo_ops)) \<and>
    w_submits (history demo_goal demo_answers demo_ops) = [(0, js ''w:planning''), (2, js ''w:x''), (1, js ''w:y'')]"
proof -
  have "w_submits (history demo_goal demo_answers demo_ops) = [(0, js ''w:planning''), (2, js ''w:x''), (1, js ''w:y'')]" by code_simp
  with steps_run_in_order [OF demo_launched, of demo_answers demo_ops] show ?thesis by (simp only: Let_def)
qed

section \<open>Completion\<close>

lemma completed_step:
  assumes "life_inv w" "wf_status (w_row w) = WCompleted"
  shows "w_row (snd (wf_step x w)) = w_row w"
proof -
  have "w_task w = NoTask" "w_asking w = 0" using assms by (simp_all add: life_inv_def wf_inv_def)
  with assms(2) show ?thesis
    by (cases x) (simp_all add: tick_def approve_def cancel_asked_def cancel_returns_def restart_def run_moves_def
        close_service_def isWorkflowTerminal_def Let_def)
qed

text \<open>
  C14: a workflow recorded as completed has completed every step, each in a Run of its own session that
  ended completed and left every file the step declares; and nothing that happens afterwards changes the
  record.
\<close>

theorem completed_means_done:
  assumes "launched row" "wf_status (w_row (history row a ops)) = WCompleted"
  shows "let w = history row a ops
    in (\<forall>s \<in> set (wf_steps (w_row w)). st_status s = StepCompleted \<and>
          (\<exists>n < length (w_runs w). st_runId s = Some n \<and> st_sessionId s = Some (ap_session (w_runs w ! n)) \<and>
             ap_key (w_runs w ! n) = step_key (w_row w) s \<and> ap_status (w_runs w ! n) = Ended Completed \<and>
             (\<forall>out \<in> set (ps_outputs s). out_name out \<in> snd ` set (ap_artifacts (w_runs w ! n))))) \<and>
       w_row (history row a (ops @ later_ops)) = w_row w"
proof -
  let ?w = "history row a ops"
  have life: "life_inv ?w" by (rule history_life [OF assms(1)])
  note core = life_core [OF life]
  have all_completed: "\<forall>s \<in> set (wf_steps (w_row ?w)). st_status s = StepCompleted"
    using life assms(2) by (simp add: life_inv_def wf_inv_def base_def all_done_def)
  have justified: "\<exists>n < length (w_runs ?w). st_runId s = Some n \<and> st_sessionId s = Some (ap_session (w_runs ?w ! n)) \<and>
      ap_key (w_runs ?w ! n) = step_key (w_row ?w) s \<and> ap_status (w_runs ?w ! n) = Ended Completed \<and>
      (\<forall>out \<in> set (ps_outputs s). out_name out \<in> snd ` set (ap_artifacts (w_runs ?w ! n)))"
    if s: "s \<in> set (wf_steps (w_row ?w))" for s
  proof -
    have inv: "step_inv (wf_id (w_row ?w)) (wf_planningSessionId (w_row ?w)) (w_runs ?w) (w_sessions ?w) s"
      using core s by (simp add: core_def)
    then obtain n where n: "st_runId s = Some n" "n < length (w_runs ?w)" "ap_status (w_runs ?w ! n) = Ended Completed"
        "missing_outputs s (w_runs ?w ! n) = []"
      using all_completed s unfolding step_inv_def justified_def by blast
    have "run_of (wf_id (w_row ?w)) (w_runs ?w) s n" using inv n(1) by (simp add: step_inv_def)
    with n show ?thesis by (auto simp: run_of_def step_key_def missing_outputs_def filter_empty_conv)
  qed
  have "life_inv w \<Longrightarrow> wf_status (w_row w) = WCompleted \<Longrightarrow> w_row (run_ops wf_step xs w) = w_row w" for w xs
    by (induction xs arbitrary: w) (simp_all add: completed_step wf_step_life)
  from this [OF life assms(2)] all_completed justified show ?thesis by (simp add: Let_def history_append)
qed

theorem completed_means_done_witness:
  "wf_status (w_row (history demo_goal demo_answers demo_ops)) = WCompleted \<and>
    list_all (\<lambda>s. st_status s = StepCompleted) (wf_steps (w_row (history demo_goal demo_answers demo_ops))) \<and>
    w_row (history demo_goal demo_answers (demo_ops @ [CloseService, Restart demo_answers])) =
      w_row (history demo_goal demo_answers demo_ops)"
proof -
  have "wf_status (w_row (history demo_goal demo_answers demo_ops)) = WCompleted" by code_simp
  with completed_means_done [OF demo_launched this, of "[CloseService, Restart demo_answers]"] show ?thesis
    unfolding list_all_iff Let_def by blast
qed

section \<open>Cancellation\<close>

text \<open>
  C15: once a cancellation is recorded, or the workflow has ended, no Run is submitted any more and the
  workflow never runs again; a workflow that has ended stays ended.
\<close>

theorem cancelled_stays_cancelled:
  assumes "launched row" "wf_status (w_row (history row a ops)) = WCancelling \<or> isWorkflowTerminal (wf_status (w_row (history row a ops)))"
  shows "w_submits (history row a (ops @ later_ops)) = w_submits (history row a ops) \<and>
    (wf_status (w_row (history row a (ops @ later_ops))) = WCancelling \<or> isWorkflowTerminal (wf_status (w_row (history row a (ops @ later_ops))))) \<and>
    (isWorkflowTerminal (wf_status (w_row (history row a ops))) \<longrightarrow>
       isWorkflowTerminal (wf_status (w_row (history row a (ops @ later_ops)))))"
proof -
  have forward: "life_inv w \<Longrightarrow> forward w (run_ops wf_step xs w)" for w xs
    by (rule wfm.run_related) (use wf_step_life in \<open>auto simp: forward_def\<close>)
  have stages: "stage s = 3 \<longleftrightarrow> s = WCancelling" "stage s = 4 \<longleftrightarrow> isWorkflowTerminal s" "stage s \<le> 4" for s
    by (cases s; simp add: isWorkflowTerminal_def)+
  from forward [OF history_life [OF assms(1)], of a ops later_ops] assms(2) show ?thesis
    unfolding history_append forward_def stages(1,2) [symmetric]
    using stages(3) [of "wf_status (w_row (run_ops wf_step later_ops (history row a ops)))"] by (auto simp del: stage_le)
qed

theorem cancelled_stays_cancelled_witness:
  "wf_status (w_row (history demo_goal demo_answers (demo_planned @ [CancelAsked demo_answers]))) = WCancelling \<and>
    w_submits (history demo_goal demo_answers ((demo_planned @ [CancelAsked demo_answers]) @
      [RunMoves 1 (Ended Completed) (Some []) None [] False, Tick demo_answers, Tick demo_answers])) =
    w_submits (history demo_goal demo_answers (demo_planned @ [CancelAsked demo_answers]))"
proof -
  have "wf_status (w_row (history demo_goal demo_answers (demo_planned @ [CancelAsked demo_answers]))) = WCancelling" by code_simp
  with cancelled_stays_cancelled [OF demo_launched disjI1 [OF this]] show ?thesis by blast
qed

end
