(* ===== verification/WorkflowRuns.thy ===== *)
theory WorkflowRuns
  imports WorkflowProps
begin

text \<open>
  What the service gets done when the store and the application answer: a restart settles every
  workflow, and a workflow whose Runs complete is completed.
\<close>

lemma step_identities: "ident_inv w \<Longrightarrow> s \<in> set (wf_steps (w_row w)) \<Longrightarrow> step_identity_ok w s"
  by (simp add: ident_inv_steps)

lemma life_ids: "life_inv w \<Longrightarrow> distinct (step_ids (wf_steps (w_row w)))"
  by (drule life_core) (simp add: core_def sound_plan_def)

section \<open>Restart\<close>

lemma recovered_planner:
  assumes "ident_inv w"
  shows "planner_ok w (recovered_run w (wf_planningSessionId (w_row w)) (wf_planningRunId (w_row w)) (planning_key (w_row w)))"
  using planner_ok_same [OF assms] submittedRun_Some [of "w_runs w" _ "planning_key (w_row w)"]
  by (auto simp: recovered_run_def planner_ok_def same_or_unset_def identity_ok_def split: option.splits)

lemma changes_reconcile:
  assumes "step_identity_ok w s"
  shows "changes_ok w s (reconcile_step w s)"
proof -
  define t where "t = s\<lparr>st_runId := recovered_run w (st_sessionId s) (st_runId s) (step_key (w_row w) s)\<rparr>"
  have t: "changes_ok w s t"
  proof (cases "st_runId s = None \<and> (\<exists>session. st_sessionId s = Some session \<and>
      submittedRun (w_runs w) session (step_key (w_row w) s) \<noteq> None)")
    case True
    then obtain session n where "st_sessionId s = Some session" "submittedRun (w_runs w) session (step_key (w_row w) s) = Some n"
        "st_runId s = None" by blast
    with submittedRun_Some [OF this(2)] assms show ?thesis
      unfolding t_def by (auto simp: recovered_run_def intro!: changes_run)
  next
    case False
    then have "t = s" by (auto simp: t_def recovered_run_def split: option.split)
    with assms show ?thesis by (simp add: changes_refl)
  qed
  define u where "u = (case st_runId t of Some n \<Rightarrow> applyResult (w_runs w ! n) t | None \<Rightarrow> t)"
  have "step_identity_ok w t" using t by (simp add: changes_ok_def)
  then have "changes_ok w t u" by (simp add: u_def changes_apply changes_refl split: option.split)
  with t have "changes_ok w s u" by (rule changes_trans)
  then have "changes_ok w s (if st_status u = StepRunning then u\<lparr>st_status := StepInterrupted\<rparr> else u)"
    by (simp add: changes_status)
  then show ?thesis
    unfolding reconcile_step_def Let_def t_def [symmetric] u_def [symmetric] block_pending_def by (simp add: changes_status)
qed

lemma reconcile_settles:
  "st_status (reconcile_step w s) \<noteq> StepPending" "st_status (reconcile_step w s) \<noteq> StepRunning"
  "st_runId (reconcile_step w s) = recovered_run w (st_sessionId s) (st_runId s) (step_key (w_row w) s)"
  "st_sessionId (reconcile_step w s) = st_sessionId s" "ps_id (reconcile_step w s) = ps_id s"
  by (auto simp: reconcile_step_def Let_def block_pending_def split: option.split)

lemma restart_writes:
  assumes "life_inv w" "ident_inv w" "aw_writes (w_ans w) = []"
    and "\<not> isWorkflowTerminal (wf_status (w_row w))" "wf_status (w_row w) \<noteq> WDraft"
  defines "v \<equiv> w\<lparr>w_task := NoTask, w_owned := [], w_closing := False, w_failure := False, w_asking := 0\<rparr>"
  shows "restart w = v\<lparr>w_row := (reconcile v)\<lparr>wf_updatedAt := aw_now (w_ans w)\<rparr>\<rparr>"
proof -
  have same: "w_row v = w_row w" "w_ans v = w_ans w" by (simp_all add: v_def)
  have ident: "ident_inv v" using assms(2) by (simp add: v_def)
  have ids: "distinct (step_ids (wf_steps (w_row v)))" using life_ids [OF assms(1)] by (simp add: v_def)
  have "update_ok (w_sessions v) (w_runs v) (w_row v) ((reconcile v)\<lparr>wf_updatedAt := aw_now (w_ans v)\<rparr>)"
    by (rule changes_accepted [OF recovered_planner [OF ident] ids, where f = "reconcile_step v" and status = "wf_status (reconcile v)" and e = "wf_error (reconcile v)"
        and t = "wf_finishedAt (reconcile v)" and t' = "aw_now (w_ans v)"])
      (simp_all add: changes_reconcile step_identities [OF ident] reconcile_def set_status_def Let_def)
  from save_passes [OF this] assms(3) have "save (reconcile v) v = (None, v\<lparr>w_row := (reconcile v)\<lparr>wf_updatedAt := aw_now (w_ans w)\<rparr>\<rparr>)"
    by (simp add: same)
  then show ?thesis using assms(4,5) unfolding restart_def v_def [symmetric] Let_def by (simp add: same)
qed

text \<open>The Run a step is bound to, where its session has one of its key.\<close>

lemma recovered_only:
  assumes "life_inv w" "s \<in> set (wf_steps (w_row w))" "n < length (w_runs w)"
    and "st_sessionId s = Some (ap_session (w_runs w ! n))" "ap_key (w_runs w ! n) = step_key (w_row w) s"
  shows "recovered_run w (st_sessionId s) (st_runId s) (step_key (w_row w) s) = Some n"
proof -
  note core = life_core [OF assms(1)]
  have once: "m = n" if "m < length (w_runs w)" "ap_session (w_runs w ! m) = ap_session (w_runs w ! n)"
      "ap_key (w_runs w ! m) = ap_key (w_runs w ! n)" for m
    using core that assms(3) by (cases "m = n") (auto simp: core_def distinct_conv_nth)
  show ?thesis
  proof (cases "st_runId s")
    case None
    have "submittedRun (w_runs w) (ap_session (w_runs w ! n)) (step_key (w_row w) s) \<noteq> None"
      using assms(3,5) by (auto simp: submittedRun_None image_iff intro!: bexI [of _ "w_runs w ! n"])
    then obtain m where m: "submittedRun (w_runs w) (ap_session (w_runs w ! n)) (step_key (w_row w) s) = Some m" by blast
    with submittedRun_Some [OF this] once assms(5) have "m = n" by simp
    with m None assms(4) show ?thesis by (simp add: recovered_run_def)
  next
    case (Some m)
    then have "run_of (wf_id (w_row w)) (w_runs w) s m" using core assms(2) by (simp add: core_def step_inv_def)
    with once assms(4,5) have "m = n" by (simp add: run_of_def step_key_def)
    with Some show ?thesis by (simp add: recovered_run_def split: option.split)
  qed
qed

text \<open>
  C16: when the service is started again and the store takes its update, a workflow that was not a draft
  has ended, with no step pending or running; a step whose Run was submitted before the end of the process
  is bound to it, recorded or not; it is completed only if all its steps are. No Run is submitted.
\<close>

theorem restart_settles:
  assumes "launched row" "aw_writes b = []"
  shows "let w = history row a ops; w' = history row a (ops @ [Restart b])
    in w_submits w' = w_submits w \<and> w_task w' = NoTask \<and> \<not> w_failure w' \<and>
      (if isWorkflowTerminal (wf_status (w_row w)) \<or> wf_status (w_row w) = WDraft then w_row w' = w_row w
       else isWorkflowTerminal (wf_status (w_row w')) \<and>
         (wf_status (w_row w') = WCompleted \<longleftrightarrow>
            wf_steps (w_row w') \<noteq> [] \<and> (\<forall>s \<in> set (wf_steps (w_row w')). st_status s = StepCompleted)) \<and>
         (\<forall>s \<in> set (wf_steps (w_row w')). st_status s \<noteq> StepPending \<and> st_status s \<noteq> StepRunning \<and>
            (\<forall>n < length (w_runs w'). st_sessionId s = Some (ap_session (w_runs w' ! n)) \<and>
               ap_key (w_runs w' ! n) = step_key (w_row w') s \<longrightarrow> st_runId s = Some n)))"
proof -
  define w where "w = (history row a ops)\<lparr>w_ans := b\<rparr>"
  define v where "v = w\<lparr>w_task := NoTask, w_owned := [], w_closing := False, w_failure := False, w_asking := 0\<rparr>"
  have life: "life_inv w" "ident_inv w"
    using history_life [OF assms(1), of a ops] history_ident [OF assms(1), of a ops]
    by (simp_all add: w_def life_inv_def wf_inv_def asked_inv_def)
  have after: "history row a (ops @ [Restart b]) = restart w" by (simp add: history_append w_def)
  have same: "w_row v = w_row w" "w_runs v = w_runs w" "w_submits v = w_submits w" by (simp_all add: v_def)
  have v: "life_inv v" using life by (auto simp: v_def life_inv_def wf_inv_def asked_inv_def)
  have here: "w_row (history row a ops) = w_row w" "w_submits (history row a ops) = w_submits w" by (simp_all add: w_def)
  show ?thesis
  proof (cases "isWorkflowTerminal (wf_status (w_row w)) \<or> wf_status (w_row w) = WDraft")
    case True
    then show ?thesis unfolding after Let_def here by (auto simp: restart_def Let_def)
  next
    case False
    have "restart w = v\<lparr>w_row := (reconcile v)\<lparr>wf_updatedAt := aw_now (w_ans w)\<rparr>\<rparr>"
      unfolding v_def by (rule restart_writes) (use life False assms(2) in \<open>simp_all add: w_def\<close>)
    moreover have "wf_steps (reconcile v) = map (reconcile_step v) (wf_steps (w_row w))" "wf_id (reconcile v) = wf_id (w_row w)"
      by (simp_all add: reconcile_def set_status_def Let_def same)
    moreover have "isWorkflowTerminal (wf_status (reconcile v))"
        "wf_status (reconcile v) = WCompleted \<longleftrightarrow>
          wf_steps (reconcile v) \<noteq> [] \<and> (\<forall>s \<in> set (wf_steps (reconcile v)). st_status s = StepCompleted)"
      by (auto simp: reconcile_def set_status_def Let_def isWorkflowTerminal_def list_all_iff)
    moreover have "st_runId (reconcile_step v s) = Some n"
      if "s \<in> set (wf_steps (w_row w))" "n < length (w_runs w)" "st_sessionId s = Some (ap_session (w_runs w ! n))"
        "ap_key (w_runs w ! n) = wf_id (w_row w) @ js '':'' @ ps_id s" for s n
      using recovered_only [OF v, of s n] that by (simp add: reconcile_settles same step_key_def)
    ultimately show ?thesis
      using False unfolding after Let_def here
      by (simp add: reconcile_settles same step_key_def) (simp add: v_def)
  qed
qed

theorem restart_settles_witness:
  "w_submits (history demo_goal demo_answers (demo_planned @ [Restart demo_answers])) =
      w_submits (history demo_goal demo_answers demo_planned) \<and>
    wf_status (w_row (history demo_goal demo_answers (demo_planned @ [Restart demo_answers]))) = WInterrupted"
proof -
  have "wf_status (w_row (history demo_goal demo_answers (demo_planned @ [Restart demo_answers]))) = WInterrupted" by code_simp
  moreover have "aw_writes demo_answers = []" by (simp add: demo_answers_def)
  ultimately show ?thesis using restart_settles [OF demo_launched, of demo_answers demo_answers demo_planned] unfolding Let_def by blast
qed

section \<open>Completion\<close>






























section \<open>Two losses\<close>

text \<open>
  A cancellation that is recorded while the session of a failed step closes is overwritten: the workflow
  has failed and its other steps are blocked, not cancelled.
\<close>

lemma late_cancellation_is_overwritten:
  "let ops = demo_planned @ [RunMoves 1 (Ended Failed) None None [] False, Tick demo_answers, CancelAsked demo_answers]
    in wf_status (w_row (history demo_goal demo_answers ops)) = WCancelling \<and>
       wf_status (w_row (history demo_goal demo_answers (ops @ [Tick demo_answers]))) = WFailed"
  by code_simp

text \<open>
  An approval whose second write fails, and the write that records this too: the draft keeps the session
  of its first step, no later approval is accepted, and the first that is tried ends the service.
\<close>

lemma half_approved_draft_stops_the_service:
  "let ops = take 3 demo_planned @ [Approve (demo_answers\<lparr>aw_writes := [False, True, True]\<rparr>), Restart demo_answers];
      w = history demo_goal demo_answers ops; w' = history demo_goal demo_answers (ops @ [Approve demo_answers])
    in wf_status (w_row w) = WDraft \<and> isReady w \<and> wf_status (w_row w') = WDraft \<and> w_failure w' \<and> \<not> isReady w'"
  by code_simp

end
