(* ===== verification/WorkflowCreate.thy ===== *)
theory WorkflowCreate
  imports WorkflowProps RouteRules
begin

text \<open>
  A request for a workflow (\<open>WorkflowService.create\<close>, \<open>workflowRequestSchema\<close> of
  \<open>packages/core/src/workflows.ts\<close>): what is checked, what is recorded before anything is scheduled, and
  what a key that was used before gives. The store's rows are a list, each with its key.

  Parameters: whether the service is ready, the workspaces of the application, the identifier that
  \<open>randomUUID\<close> gives. Other fields than those of the schema, which it forbids, are not in the record.
\<close>

record workflow_request =
  rq_goal :: jstring
  rq_workspaceId :: "jstring option"
  rq_engineId :: "jstring option"
  rq_plannerEngineId :: "jstring option"
  rq_timeoutMs :: "int option"

text \<open>The schema counts code points.\<close>

definition bounded_text :: "int \<Rightarrow> jstring \<Rightarrow> bool" where
  "bounded_text most s \<longleftrightarrow> 1 \<le> code_points s \<and> int (code_points s) \<le> most"

definition if_given :: "('a \<Rightarrow> bool) \<Rightarrow> 'a option \<Rightarrow> bool" where
  "if_given ok x = (case x of Some y \<Rightarrow> ok y | None \<Rightarrow> True)"

definition isWorkflowRequest :: "workflow_request \<Rightarrow> bool" where
  "isWorkflowRequest input \<longleftrightarrow>
     bounded_text 16000 (rq_goal input) \<and> if_given (bounded_text 100) (rq_workspaceId input) \<and>
     if_given (bounded_text 100) (rq_engineId input) \<and> if_given (bounded_text 100) (rq_plannerEngineId input) \<and>
     if_given (\<lambda>t. 1000 \<le> t \<and> t \<le> 3600000) (rq_timeoutMs input)"

datatype create_error =
    CreateUnavailable
  | INVALID_WORKFLOW_REQUEST
  | INVALID_IDEMPOTENCY_KEY
  | IDEMPOTENCY_CONFLICT
  | WORKSPACE_NOT_FOUND
  | CreateNoEngine

record service_view =
  sv_ready :: bool
  sv_workspaces :: "jstring list"
  sv_defaultWorkspace :: jstring
  sv_uuid :: jstring
  sv_answers :: answers

definition or_else :: "'a option \<Rightarrow> 'a \<Rightarrow> 'a" where
  "or_else x d = (case x of Some y \<Rightarrow> y | None \<Rightarrow> d)"

definition findByKey :: "jstring \<Rightarrow> (jstring option \<times> workflow) list \<Rightarrow> workflow option" where
  "findByKey key rows = map_option snd (find (\<lambda>r. fst r = Some key) rows)"

definition same_request :: "workflow \<Rightarrow> workflow_request \<Rightarrow> bool" where
  "same_request existing input \<longleftrightarrow>
     \<not> (wf_goal existing \<noteq> rq_goal input \<or>
        wf_requestedEngineId existing \<noteq> or_else (rq_engineId input) (js ''auto'') \<or>
        wf_plannerTimeoutMs existing \<noteq> or_else (rq_timeoutMs input) 90000 \<or>
        (rq_workspaceId input \<noteq> None \<and> rq_workspaceId input \<noteq> Some (wf_workspaceId existing)) \<or>
        (rq_plannerEngineId input \<noteq> None \<and> rq_plannerEngineId input \<noteq> Some (js ''auto'') \<and>
         rq_plannerEngineId input \<noteq> Some (wf_plannerEngineId existing)))"

definition new_workflow :: "service_view \<Rightarrow> workflow_request \<Rightarrow> jstring \<Rightarrow> engine_selection \<Rightarrow> workflow" where
  "new_workflow v input workspace planner =
     \<lparr>wf_id = sv_uuid v, wf_status = WPlanning, wf_goal = rq_goal input, wf_workspaceId = workspace,
      wf_requestedEngineId = or_else (rq_engineId input) (js ''auto''), wf_plannerEngineId = se_engineId planner,
      wf_plannerProfileRevision = se_profileRevision planner, wf_plannerSelection = planner,
      wf_plannerTimeoutMs = or_else (rq_timeoutMs input) 90000, wf_planningSessionId = None, wf_planningRunId = None,
      wf_title = None, wf_steps = [], wf_createdAt = aw_now (sv_answers v), wf_updatedAt = aw_now (sv_answers v),
      wf_approvedAt = None, wf_finishedAt = None, wf_error = None\<rparr>"

text \<open>The record is stored, its task launched, and what is stored then is the answer.\<close>

definition create :: "service_view \<Rightarrow> workflow_request \<Rightarrow> jstring option \<Rightarrow> (jstring option \<times> workflow) list \<Rightarrow>
    (create_error + workflow) \<times> (jstring option \<times> workflow) list" where
  "create v input key rows =
     (let app = aw_app (sv_answers v)
      in if \<not> sv_ready v then (Inl CreateUnavailable, rows)
         else if \<not> isWorkflowRequest input \<or> trim (rq_goal input) = [] then (Inl INVALID_WORKFLOW_REQUEST, rows)
         else if (case key of Some k \<Rightarrow> k = [] \<or> 200 < int (length k) | None \<Rightarrow> False) then (Inl INVALID_IDEMPOTENCY_KEY, rows)
         else case (case key of Some k \<Rightarrow> findByKey k rows | None \<Rightarrow> None) of
           Some existing \<Rightarrow>
             if same_request existing input then (Inr existing, rows) else (Inl IDEMPOTENCY_CONFLICT, rows)
         | None \<Rightarrow>
             (case find (\<lambda>w. w = or_else (rq_workspaceId input) (sv_defaultWorkspace v)) (sv_workspaces v) of
                None \<Rightarrow> (Inl WORKSPACE_NOT_FOUND, rows)
              | Some workspace \<Rightarrow>
                  (case selectWorkflowEngine app (Some (or_else (rq_plannerEngineId input) (av_default app))) [] of
                     None \<Rightarrow> (Inl CreateNoEngine, rows)
                   | Some planner \<Rightarrow>
                       if or_else (rq_engineId input) (js ''auto'') \<noteq> js ''auto'' \<and>
                          selectWorkflowEngine app (rq_engineId input) [] = None
                       then (Inl CreateNoEngine, rows)
                       else (let row = w_row (plan_start (new_world (new_workflow v input workspace planner) (sv_answers v)))
                             in (Inr row, rows @ [(key, row)])))))"

section \<open>The recorded request\<close>

lemma request_kept_refl [simp]: "request_kept row row"
  by (simp add: request_kept_def)

lemma request_kept_trans: "request_kept a b \<Longrightarrow> request_kept b c \<Longrightarrow> request_kept a c"
  by (auto simp: request_kept_def same_or_unset_def)

lemma save_kept: "save row w = (e, w') \<Longrightarrow> request_kept (w_row w) (w_row w')"
  by (auto simp: save_def Let_def update_ok_def split: prod.splits if_splits)

lemma createSession_row: "createSession engine workspace w = (n, w') \<Longrightarrow> w_row w' = w_row w"
  by (auto simp: createSession_def Let_def split: prod.splits if_splits option.splits)

lemma submit_row: "submit session key w = (n, w') \<Longrightarrow> w_row w' = w_row w"
  by (auto simp: submit_def Let_def split: prod.splits if_splits option.splits)

lemma caught_kept: "request_kept (w_row w) (w_row (caught e w))"
  by (auto simp: caught_def Let_def split: prod.split option.split dest: save_kept)

lemma plan_start_kept: "request_kept (w_row w) (w_row (plan_start w))"
proof -
  obtain n w1 where one: "createSession (wf_plannerEngineId (w_row w)) (wf_workspaceId (w_row w)) w = (n, w1)" by fastforce
  note r1 = createSession_row [OF one]
  show ?thesis
  proof (cases n)
    case (Inl e)
    with one r1 show ?thesis using caught_kept [of w1 e] by (simp add: plan_start_def Let_def)
  next
    case (Inr session)
    let ?row = "(w_row w)\<lparr>wf_planningSessionId := Some session\<rparr>"
    obtain e2 w2 where two: "save ?row (ownSession session w1) = (e2, w2)" by fastforce
    obtain r w3 where three: "submit session (planning_key ?row) w2 = (r, w3)" by fastforce
    obtain e4 w4 where four: "save (?row\<lparr>wf_planningRunId := Some (projr r)\<rparr>) w3 = (e4, w4)" by fastforce
    have k2: "request_kept (w_row w) (w_row w2)" using save_kept [OF two] r1 by (simp add: ownSession_def)
    then have k3: "request_kept (w_row w) (w_row w3)" using submit_row [OF three] by simp
    from request_kept_trans [OF this save_kept [OF four]] have k4: "request_kept (w_row w) (w_row w4)" .
    show ?thesis
      using one Inr two three four k2 k3 k4 request_kept_trans [OF _ caught_kept]
      by (cases e2; cases r; cases e4) (simp_all add: plan_start_def Let_def)
  qed
qed

lemma same_request_kept: "same_request row input \<Longrightarrow> request_kept row row' \<Longrightarrow> same_request row' input"
  by (simp add: same_request_def request_kept_def)

lemma explicit_choice:
  assumes "selectWorkflowEngine app (Some i) needed = Some c" "i \<noteq> []" "i \<noteq> js ''auto''"
  shows "se_engineId c = i"
  using assms by (auto simp: selectWorkflowEngine_def mode_of_def Let_def split: option.splits dest: find_Some_set)

lemma new_is_launched: "launched (new_workflow v input workspace planner)"
  by (simp add: launched_def new_workflow_def)

lemma new_is_same_request:
  assumes "isWorkflowRequest input"
    and "find (\<lambda>w. w = or_else (rq_workspaceId input) (sv_defaultWorkspace v)) (sv_workspaces v) = Some workspace"
    and "selectWorkflowEngine app (Some (or_else (rq_plannerEngineId input) d)) [] = Some planner"
  shows "same_request (new_workflow v input workspace planner) input"
proof -
  have "se_engineId planner = i" if i: "rq_plannerEngineId input = Some i" "i \<noteq> js ''auto''" for i
  proof (rule explicit_choice [OF _ _ i(2)])
    show "selectWorkflowEngine app (Some i) [] = Some planner" using assms(3) i(1) by (simp add: or_else_def)
    show "i \<noteq> []" using assms(1) i(1) by (auto simp: isWorkflowRequest_def bounded_text_def if_given_def)
  qed
  moreover have "workspace = or_else (rq_workspaceId input) (sv_defaultWorkspace v)" using find_Some_set [OF assms(2)] by simp
  ultimately show ?thesis by (cases "rq_workspaceId input") (auto simp: same_request_def new_workflow_def or_else_def)
qed

lemma findByKey_append: "findByKey key rows = None \<Longrightarrow> findByKey key (rows @ [(Some key, row)]) = Some row"
  by (induction rows) (auto simp: findByKey_def)

text \<open>
  C18: A key answers the same request, whatever became of the workflow meanwhile: once a request was accepted
  with a key, the store finds what was recorded under it; and when the request comes again with the key,
  nothing is created, launched or changed, and the answer is the record as the store then has it, the
  updates it accepted since included.
\<close>

theorem create_is_idempotent:
  assumes "create v input (Some key) rows = (Inr row, rows')"
    and "findByKey key stored = Some row'" "request_kept row row'" "sv_ready v'"
  shows "findByKey key rows' = Some row \<and> create v' input (Some key) stored = (Inr row', stored)"
proof -
  have ok: "isWorkflowRequest input" "trim (rq_goal input) \<noteq> []" "key \<noteq> []" "int (length key) \<le> 200"
    using assms(1) by (auto simp: create_def Let_def not_less split: if_splits)
  have "findByKey key rows' = Some row \<and> same_request row input"
  proof (cases "findByKey key rows")
    case (Some existing)
    with assms(1) ok show ?thesis by (auto simp: create_def Let_def split: if_splits)
  next
    case None
    with assms(1) ok obtain workspace planner where made:
        "find (\<lambda>w. w = or_else (rq_workspaceId input) (sv_defaultWorkspace v)) (sv_workspaces v) = Some workspace"
        "selectWorkflowEngine (aw_app (sv_answers v)) (Some (or_else (rq_plannerEngineId input) (av_default (aw_app (sv_answers v))))) [] =
          Some planner"
        "row = w_row (plan_start (new_world (new_workflow v input workspace planner) (sv_answers v)))" "rows' = rows @ [(Some key, row)]"
      by (auto simp: create_def Let_def split: if_splits option.splits)
    have "request_kept (new_workflow v input workspace planner) row"
      using plan_start_kept [of "new_world (new_workflow v input workspace planner) (sv_answers v)"] made(3) by (simp add: new_world_def)
    from same_request_kept [OF new_is_same_request [OF ok(1) made(1,2)] this] findByKey_append [OF None] made(4)
    show ?thesis by simp
  qed
  with same_request_kept [OF _ assms(3)] assms(2,4) ok show ?thesis by (simp add: create_def Let_def)
qed

definition demo_request :: workflow_request where
  "demo_request = \<lparr>rq_goal = js ''g'', rq_workspaceId = None, rq_engineId = Some (js ''b''), rq_plannerEngineId = None,
     rq_timeoutMs = Some 1000\<rparr>"

definition demo_service :: service_view where
  "demo_service = \<lparr>sv_ready = True, sv_workspaces = [js ''ws''], sv_defaultWorkspace = js ''ws'', sv_uuid = js ''w'',
     sv_answers = demo_answers\<rparr>"

theorem create_is_idempotent_witness:
  "create (demo_service\<lparr>sv_uuid := js ''v''\<rparr>) demo_request (Some (js ''k''))
      [(None, demo_goal), (Some (js ''k''), (projr (fst (create demo_service demo_request (Some (js ''k'')) [])))\<lparr>wf_status := WDraft\<rparr>)] =
    (Inr ((projr (fst (create demo_service demo_request (Some (js ''k'')) [])))\<lparr>wf_status := WDraft\<rparr>),
     [(None, demo_goal), (Some (js ''k''), (projr (fst (create demo_service demo_request (Some (js ''k'')) [])))\<lparr>wf_status := WDraft\<rparr>)])"
proof -
  let ?new = "create demo_service demo_request (Some (js ''k'')) []"
  have good: "isWorkflowRequest demo_request" "trim (rq_goal demo_request) \<noteq> []"
    by (simp_all add: demo_request_def isWorkflowRequest_def bounded_text_def if_given_def js_eval trim_def is_space_def)
  have "selectWorkflowEngine demo_app (Some (js ''b'')) [] \<noteq> None" by code_simp
  then obtain c where "selectWorkflowEngine demo_app (Some (js ''b'')) [] = Some c" by blast
  with good have "(case fst ?new of Inr row \<Rightarrow> True | Inl e \<Rightarrow> False)"
    by (simp add: create_def demo_request_def demo_service_def demo_answers_def demo_app_def findByKey_def or_else_def Let_def)
  then have "?new = (Inr (projr (fst ?new)), snd ?new)" by (cases ?new) (auto split: sum.splits)
  from create_is_idempotent [OF this, of _ "(projr (fst ?new))\<lparr>wf_status := WDraft\<rparr>" "demo_service\<lparr>sv_uuid := js ''v''\<rparr>"]
  show ?thesis by (simp add: findByKey_def request_kept_def demo_service_def)
qed

end
