(* ===== verification/RunOutcome.thy ===== *)
theory RunOutcome
  imports RunTypes
begin

text \<open>
  What a driver reports of a Run and what the model calls of the Run make of it
  (\<open>packages/core/src/model-outcome.ts\<close>, the messages of a worker in \<open>packages/core/src/ports.ts\<close>).
\<close>

datatype driver_status = DriverCompleted | DriverCancelled | DriverFailed

record driver_result =
  dr_status :: driver_status
  dr_stopReason :: "jstring option"
  dr_output :: "jstring option"
  dr_error :: "public_error option"

datatype worker_payload =
    WorkerStarted
  | WorkerEvent event_draft
  | AsksPermission jstring jstring jstring "permission_option list"  \<comment> \<open>identifier, tool call, prompt, options\<close>
  | PermissionIsApplied jstring
  | WorkerArtifact
  | WorkerResult

section \<open>\<open>RunObservation\<close>\<close>

record observation =
  ob_textCharacters :: nat
  ob_toolActivity :: nat

definition new_observation :: observation where
  "new_observation = \<lparr>ob_textCharacters = 0, ob_toolActivity = 0\<rparr>"

definition observe :: "worker_payload \<Rightarrow> observation \<Rightarrow> observation" where
  "observe payload ob =
     (case payload of
        AsksPermission _ _ _ _ \<Rightarrow> ob\<lparr>ob_toolActivity := ob_toolActivity ob + 1\<rparr>
      | WorkerEvent event \<Rightarrow>
          (case map_of (d_data event) (js ''text'') of
             Some (JStr t) \<Rightarrow>
               if d_type event = js ''message.delta'' \<and> map_of (d_data event) (js ''stream'') \<noteq> Some (JStr (js ''thought'')) \<and>
                 trim t \<noteq> []
               then ob\<lparr>ob_textCharacters := ob_textCharacters ob + length t\<rparr>
               else if d_type event = js ''tool.update'' then ob\<lparr>ob_toolActivity := ob_toolActivity ob + 1\<rparr> else ob
           | _ \<Rightarrow> if d_type event = js ''tool.update'' then ob\<lparr>ob_toolActivity := ob_toolActivity ob + 1\<rparr> else ob)
      | _ \<Rightarrow> ob)"

definition producedOutput :: "observation \<Rightarrow> bool" where
  "producedOutput ob \<longleftrightarrow> 0 < ob_textCharacters ob \<or> 0 < ob_toolActivity ob"

section \<open>The outcome\<close>

record model_evidence =
  me_producedOutput :: bool
  me_modelCalls :: int
  me_successfulModelCalls :: int
  me_lastUpstreamError :: "jstring option"

text \<open>The message of \<open>ENGINE_NO_OUTPUT\<close>.\<close>

definition no_output_message :: jstring where
  "no_output_message = [24341, 25806, 26410, 35843, 29992, 27169, 22411, 20063, 26410, 20135, 29983, 36755, 20986]"

definition settleModelRun :: "driver_result \<Rightarrow> model_evidence \<Rightarrow> bool \<Rightarrow> driver_result" where
  "settleModelRun result evidence cancelled =
     (if cancelled \<or> dr_status result = DriverCancelled then result
      else if me_lastUpstreamError evidence \<noteq> None \<and> (\<not> me_producedOutput evidence \<or> me_successfulModelCalls evidence = 0)
      then result\<lparr>dr_status := DriverFailed, dr_stopReason := Some (js ''model_upstream_error''),
        dr_error := Some \<lparr>pe_code = js ''MODEL_UPSTREAM_ERROR'',
          pe_message = (case me_lastUpstreamError evidence of Some message \<Rightarrow> message | None \<Rightarrow> [])\<rparr>\<rparr>
      else if dr_status result = DriverCompleted \<and> me_modelCalls evidence = 0 \<and> \<not> me_producedOutput evidence
      then result\<lparr>dr_status := DriverFailed, dr_stopReason := Some (js ''engine_no_output''),
        dr_error := Some \<lparr>pe_code = js ''ENGINE_NO_OUTPUT'', pe_message = no_output_message\<rparr>\<rparr>
      else result)"

text \<open>A result is only ever made stricter.\<close>

lemma settled_only_fails:
  "settleModelRun result evidence cancelled = result \<or>
    dr_status (settleModelRun result evidence cancelled) = DriverFailed \<and> \<not> cancelled \<and> dr_status result \<noteq> DriverCancelled"
  by (simp add: settleModelRun_def)

end
