(* ===== verification/Runtime.thy ===== *)
theory Runtime
  imports RunStore RunOutcome WorkflowPlans
begin

text \<open>
  The execution of Runs (\<open>class Runtime\<close> of \<open>packages/runtime/src/runtime/runtime.ts\<close>): a queue, the
  Runs at work, their workers, and the outcome of each, all recorded in the store of RunStore.

  An asynchronous method runs from one \<open>await\<close> to the next without interruption. For each Run at work
  the state holds the place at which its \<open>execute\<close> waits, and that of the \<open>stopping\<close> begun for it; an
  operation is a request, a message of a worker, a timer, or the end of such a wait, with what the outside
  answers. An \<open>await\<close> of something already settled is no wait, and \<open>queueMicrotask\<close> runs the pump at the
  end of the operation that asks for it.

  Parameters: the catalog of engines (of which the code relies on that a revision never changes), the
  store's digest, new identifiers, the clock, and what workers, collectors and the model gateway answer.
\<close>

section \<open>State\<close>

record config =
  co_maxConcurrency :: nat
  co_maxQueuedRuns :: nat
  co_defaultTimeoutMs :: int
  co_defaultEngine :: jstring
  co_current :: "jstring \<Rightarrow> engine_profile option"  \<comment> \<open>what an engine's name stands for now\<close>
  co_profile :: "jstring \<Rightarrow> jstring \<Rightarrow> engine_profile option"  \<comment> \<open>a revision of it\<close>
  co_workspaces :: "workspace list"
  co_defaultWorkspace :: jstring
  co_inspects :: bool  \<comment> \<open>\<open>inspectInstallation\<close> is given\<close>
  co_collects :: bool  \<comment> \<open>\<open>collectArtifacts\<close> and \<open>discardArtifacts\<close> are\<close>
  co_digest :: "json \<Rightarrow> jstring"
  co_folded :: "jstring \<Rightarrow> jstring"

text \<open>What is thrown: by the store, as a \<open>HubError\<close> by others, or anything else with its code if any.\<close>

datatype fault = StoreFault store_error | HubFault jstring jstring | OtherFault "jstring option"

datatype stop_reason = StopCancelled | StopTimedOut

text \<open>The \<open>stopping\<close> of a Run waits for the backend to cancel, then for the worker to close.\<close>

datatype stopping = CancelsHandle | ClosesWorker | StoppedWith cleanup_status | StopThrew

text \<open>
  The waits of \<open>execute\<close>, with the variables read after them: the result so far (for the model calls'
  end whether output was seen), the cleanup, an error still to be thrown; in the handler the error and
  whether it waits for \<open>stopping\<close>; in \<open>finally\<close> whether the backend failed and the error on its way.
  At \<open>Broken\<close> the \<open>finally\<close> itself threw before it released the Run.
\<close>

datatype place =
    Inspecting
  | Beginning
  | StartingHost
  | CancelsAfterStart
  | AwaitsResult
  | EndingModels driver_result bool
  | Reclaiming driver_result
  | Collecting driver_result cleanup_status
  | Discarding driver_result cleanup_status "fault option"
  | AwaitsStop driver_result
  | Recovering fault bool
  | LastModels bool "fault option"
  | Broken

record active_run =
  ac_run :: run_record
  ac_profile :: engine_profile
  ac_session :: session_record
  ac_place :: place
  ac_handle :: bool
  ac_stop :: "stop_reason option"
  ac_stopping :: "stopping option"
  ac_cleanup :: "(int \<times> cleanup_status) option"
  ac_model :: "(observation \<times> bool) option"  \<comment> \<open>with whether it has ended\<close>

record runtime =
  rt_store :: store
  rt_active :: "active_run list"
  rt_queue :: "jstring list"
  rt_suspending :: "jstring list"
  rt_installations :: "(jstring, (jstring \<times> json) list) jmap"
  rt_deadlines :: "jstring list"  \<comment> \<open>the Runs whose timer is set and has not fired\<close>
  rt_observed :: "(jstring, (jstring \<times> json) list) jmap"
  rt_rejected :: "jstring list"  \<comment> \<open>the Runs whose \<open>settlement\<close> was rejected\<close>
  rt_closings :: "(jstring \<times> jstring option) list"  \<comment> \<open>the sessions being closed, with the Run waited for\<close>
  rt_closed :: bool
  rt_ends :: bool  \<comment> \<open>\<open>close\<close> has stopped every Run and waits for them\<close>
  rt_failed :: bool

definition ac_id :: "active_run \<Rightarrow> jstring" where
  "ac_id a = r_id (ac_run a)"

definition ac_sid :: "active_run \<Rightarrow> jstring" where
  "ac_sid a = r_sessionId (ac_run a)"

definition isReady :: "runtime \<Rightarrow> bool" where
  "isReady rt \<longleftrightarrow> \<not> rt_closed rt \<and> \<not> rt_failed rt"

definition active_of :: "jstring \<Rightarrow> runtime \<Rightarrow> active_run option" where
  "active_of sid rt = find (\<lambda>a. ac_sid a = sid) (rt_active rt)"

definition set_active :: "active_run \<Rightarrow> runtime \<Rightarrow> runtime" where
  "set_active a rt = rt\<lparr>rt_active := map (\<lambda>b. if ac_sid b = ac_sid a then a else b) (rt_active rt)\<rparr>"

definition perform :: "'a operation \<Rightarrow> runtime \<Rightarrow> 'a result \<times> runtime" where
  "perform f rt = (case f (rt_store rt) of (r, s) \<Rightarrow> (r, rt\<lparr>rt_store := s\<rparr>))"

text \<open>\<open>background\<close>: an error of the task is kept in \<open>failure\<close>.\<close>

definition in_background :: "fault option \<times> runtime \<Rightarrow> runtime" where
  "in_background x = (case fst x of None \<Rightarrow> snd x | Some _ \<Rightarrow> (snd x)\<lparr>rt_failed := True\<rparr>)"

text \<open>The \<open>settlement\<close> of a Run is rejected: \<open>background\<close> keeps the error.\<close>

definition reject :: "jstring \<Rightarrow> runtime \<Rightarrow> runtime" where
  "reject i rt = rt\<lparr>rt_failed := True, rt_rejected := i # rt_rejected rt\<rparr>"

section \<open>Errors\<close>

fun code_text :: "hub_code \<Rightarrow> jstring" where
  "code_text SESSION_NOT_FOUND = js ''SESSION_NOT_FOUND''"
| "code_text SESSION_STATE_CONFLICT = js ''SESSION_STATE_CONFLICT''"
| "code_text BACKEND_SESSION_INVALID = js ''BACKEND_SESSION_INVALID''"
| "code_text BACKEND_SESSION_CHANGED = js ''BACKEND_SESSION_CHANGED''"
| "code_text INVALID_IDEMPOTENCY_KEY = js ''INVALID_IDEMPOTENCY_KEY''"
| "code_text IDEMPOTENCY_CONFLICT = js ''IDEMPOTENCY_CONFLICT''"
| "code_text SESSION_CLOSED = js ''SESSION_CLOSED''"
| "code_text STORAGE_CORRUPT = js ''STORAGE_CORRUPT''"
| "code_text RUN_NOT_FOUND = js ''RUN_NOT_FOUND''"
| "code_text RUN_STATE_CONFLICT = js ''RUN_STATE_CONFLICT''"
| "code_text RESERVED_EVENT_TYPE = js ''RESERVED_EVENT_TYPE''"
| "code_text INVALID_SOURCE_SEQUENCE = js ''INVALID_SOURCE_SEQUENCE''"
| "code_text INVALID_EVENT_CURSOR = js ''INVALID_EVENT_CURSOR''"
| "code_text INVALID_EVENT_LIMIT = js ''INVALID_EVENT_LIMIT''"
| "code_text PERMISSION_OWNERSHIP_CONFLICT = js ''PERMISSION_OWNERSHIP_CONFLICT''"
| "code_text INVALID_PERMISSION = js ''INVALID_PERMISSION''"
| "code_text PERMISSION_EXPIRED = js ''PERMISSION_EXPIRED''"
| "code_text PERMISSION_CONFLICT = js ''PERMISSION_CONFLICT''"
| "code_text PERMISSION_NOT_FOUND = js ''PERMISSION_NOT_FOUND''"
| "code_text INVALID_PERMISSION_OPTION = js ''INVALID_PERMISSION_OPTION''"
| "code_text PERMISSION_DECISION_CONFLICT = js ''PERMISSION_DECISION_CONFLICT''"
| "code_text PERMISSION_STATE_CONFLICT = js ''PERMISSION_STATE_CONFLICT''"
| "code_text ARTIFACT_CONFLICT = js ''ARTIFACT_CONFLICT''"
| "code_text ARTIFACT_NOT_FOUND = js ''ARTIFACT_NOT_FOUND''"

fun fault_code :: "fault \<Rightarrow> jstring option" where
  "fault_code (StoreFault (HubError c _)) = Some (code_text c)"
| "fault_code (StoreFault SqliteConstraint) = Some (js ''ERR_SQLITE_ERROR'')"
| "fault_code (HubFault c _) = Some c"
| "fault_code (OtherFault c) = c"

fun public_code :: "fault \<Rightarrow> jstring" where
  "public_code (StoreFault (HubError c _)) = code_text c"
| "public_code (HubFault c _) = c"
| "public_code _ = js ''BACKEND_ERROR''"

definition storage_fault :: "fault \<Rightarrow> bool" where
  "storage_fault e =
     (case fault_code e of
        Some code \<Rightarrow> startsWith code (js ''ERR_SQLITE'') \<or> startsWith code (js ''STORAGE_'')
      | None \<Rightarrow> False)"

definition RUN_STOPPED :: fault where
  "RUN_STOPPED = HubFault (js ''RUN_STOPPED'') (js ''Run stopped before Worker startup'')"

section \<open>Outcomes\<close>

fun stop_terminal :: "stop_reason \<Rightarrow> terminal_status" where
  "stop_terminal StopCancelled = Cancelled"
| "stop_terminal StopTimedOut = TimedOut"

fun driver_terminal :: "driver_status \<Rightarrow> terminal_status" where
  "driver_terminal DriverCompleted = Completed"
| "driver_terminal DriverCancelled = Cancelled"
| "driver_terminal DriverFailed = Failed"

definition finish :: "int \<Rightarrow> jstring \<Rightarrow> terminal_status \<Rightarrow> jstring \<Rightarrow> cleanup_status \<Rightarrow> run_record operation" where
  "finish now i status reason cleanup =
     finishRun now i \<lparr>f_status = status, f_stopReason = reason, f_cleanupStatus = cleanup, f_output = None, f_error = None\<rparr>"

definition finish_stopped :: "int \<Rightarrow> jstring \<Rightarrow> stop_reason \<Rightarrow> cleanup_status \<Rightarrow> run_record operation" where
  "finish_stopped now i reason cleanup = finish now i (stop_terminal reason) (terminal_text (stop_terminal reason)) cleanup"

definition cleanup_event :: "int \<Rightarrow> cleanup_status \<Rightarrow> bool \<Rightarrow> event_draft" where
  "cleanup_event duration status performed = simple_draft ''runtime.cleanup''
     [(js ''durationMs'', JNum duration), (js ''status'', JStr (cleanup_text status)), (js ''performed'', JBool performed)]"

definition recordCleanup :: "int \<Rightarrow> active_run \<Rightarrow> cleanup_status \<Rightarrow> agent_event option operation" where
  "recordCleanup now a status =
     appendEvent now (ac_id a)
       (case ac_cleanup a of
          Some (duration, closed) \<Rightarrow> cleanup_event duration closed True
        | None \<Rightarrow> cleanup_event 0 status False)"

text \<open>Two steps of the store, one after the other.\<close>

definition then_do :: "'a operation \<Rightarrow> 'b operation \<Rightarrow> runtime \<Rightarrow> fault option \<times> runtime" where
  "then_do f g rt =
     (case perform f rt of
        (Inl e, rt) \<Rightarrow> (Some (StoreFault e), rt)
      | (Inr _, rt) \<Rightarrow>
          (case perform g rt of
             (Inl e, rt) \<Rightarrow> (Some (StoreFault e), rt)
           | (Inr _, rt) \<Rightarrow> (None, rt)))"

definition clear_deadline :: "jstring \<Rightarrow> runtime \<Rightarrow> runtime" where
  "clear_deadline i rt = rt\<lparr>rt_deadlines := removeAll i (rt_deadlines rt)\<rparr>"

section \<open>Stopping\<close>

definition stop_active :: "int \<Rightarrow> active_run \<Rightarrow> stop_reason \<Rightarrow> runtime \<Rightarrow> fault option \<times> runtime" where
  "stop_active now a reason rt =
     (if ac_stop a \<noteq> None then (None, rt)
      else
        (let a = a\<lparr>ac_stop := Some reason\<rparr>
         in case perform (setRunStatus now (ac_id a) Cancelling) (set_active a rt) of
              (Inl e, rt) \<Rightarrow> (Some (StoreFault e), rt)
            | (Inr _, rt) \<Rightarrow>
                (None, set_active (a\<lparr>ac_stopping := Some (if ac_handle a then CancelsHandle else ClosesWorker)\<rparr>) rt)))"

definition stop_queued :: "int \<Rightarrow> jstring \<Rightarrow> stop_reason \<Rightarrow> runtime \<Rightarrow> fault option \<times> runtime" where
  "stop_queued now i reason rt =
     (case then_do (appendEvent now i (cleanup_event 0 Confirmed False)) (finish_stopped now i reason Confirmed)
         (rt\<lparr>rt_queue := remove1 i (rt_queue rt)\<rparr>) of
        (Some e, rt) \<Rightarrow> (Some e, rt)
      | (None, rt) \<Rightarrow> (None, clear_deadline i rt))"

definition stop :: "int \<Rightarrow> jstring \<Rightarrow> stop_reason \<Rightarrow> runtime \<Rightarrow> fault option \<times> runtime" where
  "stop now i reason rt =
     (case getRun i (rt_store rt) of
        Inl e \<Rightarrow> (Some (StoreFault e), rt)
      | Inr run \<Rightarrow>
          if isTerminal (r_status run) then (None, rt)
          else (case active_of (r_sessionId run) rt of
              Some a \<Rightarrow> if ac_id a = i then stop_active now a reason rt else stop_queued now i reason rt
            | None \<Rightarrow> stop_queued now i reason rt))"

text \<open>The deadline is looked at; then \<open>active\<close> is what it is by then.\<close>

definition check_deadline :: "int \<Rightarrow> active_run \<Rightarrow> runtime \<Rightarrow> fault option \<times> active_run \<times> runtime" where
  "check_deadline now a rt =
     (let (e, rt') = (if ac_stop a = None \<and> r_deadlineAt (ac_run a) \<le> now then stop now (ac_id a) StopTimedOut rt else (None, rt))
      in (e, (case active_of (ac_sid a) rt' of Some b \<Rightarrow> b | None \<Rightarrow> a), rt'))"

section \<open>The start of a Run\<close>

text \<open>The handler of \<open>execute\<close>, up to its wait.\<close>

definition recover :: "fault \<Rightarrow> active_run \<Rightarrow> runtime \<Rightarrow> runtime" where
  "recover e a rt =
     (let rt = (if storage_fault e then rt\<lparr>rt_failed := True\<rparr> else rt)
      in set_active (a\<lparr>ac_place := Recovering e (ac_stopping a \<noteq> None)\<rparr>) rt)"

definition move_on :: "place \<Rightarrow> active_run \<Rightarrow> runtime \<Rightarrow> runtime" where
  "move_on p a rt = set_active (a\<lparr>ac_place := p\<rparr>) rt"

text \<open>The installation is known: for the first time or from an earlier Run of the session.\<close>

definition inspected :: "int \<Rightarrow> (jstring \<times> json) list \<Rightarrow> active_run \<Rightarrow> runtime \<Rightarrow> runtime" where
  "inspected now installation a rt =
     (case check_deadline now a rt of
        (Some e, a, rt) \<Rightarrow> recover e a rt
      | (None, a, rt) \<Rightarrow>
          if ac_stop a \<noteq> None then recover RUN_STOPPED a rt
          else (case perform (appendEvent now (ac_id a)
              (simple_draft ''engine.installation'' [(js ''installation'', JObj installation)])) rt of
              (Inl e, rt) \<Rightarrow> recover (StoreFault e) a rt
            | (Inr _, rt) \<Rightarrow> move_on Beginning a rt))"

text \<open>\<open>execute\<close> up to its first wait.\<close>

definition execute :: "config \<Rightarrow> int \<Rightarrow> active_run \<Rightarrow> runtime \<Rightarrow> runtime" where
  "execute c now a rt =
     (case perform (setRunStatus now (ac_id a) Starting) rt of
        (Inl e, rt) \<Rightarrow> recover (StoreFault e) a rt
      | (Inr _, rt) \<Rightarrow>
          if ep_driver (ac_profile a) \<noteq> FakeDriver \<and> co_inspects c
          then (case jget (rt_installations rt) (ac_sid a) of
              None \<Rightarrow> move_on Inspecting a rt
            | Some installation \<Rightarrow> inspected now installation a rt)
          else move_on Beginning a rt)"

definition new_active :: "run_record \<Rightarrow> engine_profile \<Rightarrow> session_record \<Rightarrow> active_run" where
  "new_active run profile session =
     \<lparr>ac_run = run, ac_profile = profile, ac_session = session, ac_place = Inspecting, ac_handle = False,
      ac_stop = None, ac_stopping = None, ac_cleanup = None, ac_model = None\<rparr>"

text \<open>How many Runs of an engine are at work, whatever the revision.\<close>

definition engine_count :: "engine_profile \<Rightarrow> active_run list \<Rightarrow> nat" where
  "engine_count profile as = length (filter (\<lambda>a. ep_id (ac_profile a) = ep_id profile) as)"

text \<open>The loop of \<open>pump\<close>: the entries passed over stay in the queue, before the rest.\<close>

fun pump_loop :: "config \<Rightarrow> int \<Rightarrow> jstring list \<Rightarrow> jstring list \<Rightarrow> runtime \<Rightarrow> runtime" where
  "pump_loop c now passed [] rt = rt"
| "pump_loop c now passed (i # rest) rt =
     (if co_maxConcurrency c \<le> length (rt_active rt) \<or> i = [] then rt
      else case getRun i (rt_store rt) of
        Inl e \<Rightarrow> rt\<lparr>rt_failed := True\<rparr>
      | Inr run \<Rightarrow>
          if isTerminal (r_status run) then pump_loop c now passed rest (rt\<lparr>rt_queue := passed @ rest\<rparr>)
          else (case getSession (r_sessionId run) (rt_store rt) of
              Inl e \<Rightarrow> rt\<lparr>rt_failed := True\<rparr>
            | Inr session \<Rightarrow>
                if s_status session \<noteq> SessionOpen
                then (case perform (finish now i Cancelled (js ''session_closed'') Confirmed) (rt\<lparr>rt_queue := passed @ rest\<rparr>) of
                    (Inl e, rt) \<Rightarrow> rt\<lparr>rt_failed := True\<rparr>
                  | (Inr _, rt) \<Rightarrow> pump_loop c now passed rest (clear_deadline i rt))
                else (case co_profile c (s_engineId session) (s_profileRevision session) of
                    None \<Rightarrow> rt\<lparr>rt_failed := True\<rparr>
                  | Some profile \<Rightarrow>
                      if active_of (r_sessionId run) rt \<noteq> None \<or>
                         ep_maxConcurrency profile \<le> int (engine_count profile (rt_active rt))
                      then pump_loop c now (passed @ [i]) rest rt
                      else
                        (let a = new_active run profile session
                         in pump_loop c now passed rest (execute c now a
                              (rt\<lparr>rt_queue := passed @ rest, rt_active := rt_active rt @ [a]\<rparr>))))))"

definition pump :: "config \<Rightarrow> int \<Rightarrow> runtime \<Rightarrow> runtime" where
  "pump c now rt = (if isReady rt then pump_loop c now [] (rt_queue rt) rt else rt)"

section \<open>The end of a Run\<close>

text \<open>The rest of \<open>finally\<close>, before the pump.\<close>

definition depart :: "int \<Rightarrow> bool \<Rightarrow> active_run \<Rightarrow> runtime \<Rightarrow> fault option \<times> runtime" where
  "depart now backendFailed a rt =
     (let rt = clear_deadline (ac_id a) rt;
          rt = rt\<lparr>rt_active := filter (\<lambda>b. ac_sid b \<noteq> ac_sid a) (rt_active rt)\<rparr>;
          rt = (if ep_driver (ac_profile a) = CliDriver \<or> ac_stop a \<noteq> None \<or> backendFailed
            then rt\<lparr>rt_installations := jdelete (ac_sid a) (rt_installations rt)\<rparr> else rt)
      in if ep_driver (ac_profile a) = AcpDriver \<and> (ac_stop a \<noteq> None \<or> backendFailed)
         then (case perform (setSessionStatus now (ac_sid a) SessionClosed) rt of
             (Inl e, rt) \<Rightarrow> (Some (StoreFault e), rt)
           | (Inr _, rt) \<Rightarrow> (None, rt))
         else (None, rt))"

text \<open>Then the pump is asked for, and the error on its way, if any, rejects the task.\<close>

definition leave :: "config \<Rightarrow> int \<Rightarrow> bool \<Rightarrow> fault option \<Rightarrow> active_run \<Rightarrow> runtime \<Rightarrow> runtime" where
  "leave c now backendFailed pending a rt =
     (case depart now backendFailed a rt of
        (Some e, rt) \<Rightarrow> reject (ac_id a) rt
      | (None, rt) \<Rightarrow> (if pending = None then pump c now rt else reject (ac_id a) (pump c now rt)))"

text \<open>\<open>finally\<close>, up to its wait if the model calls have not ended.\<close>

definition release :: "config \<Rightarrow> int \<Rightarrow> bool \<Rightarrow> fault option \<Rightarrow> active_run \<Rightarrow> runtime \<Rightarrow> runtime" where
  "release c now backendFailed pending a rt =
     (case ac_model a of
        Some (ob, False) \<Rightarrow>
          (let a = a\<lparr>ac_model := Some (ob, True)\<rparr>
           in case getRun (ac_id a) (rt_store rt) of
             Inl e \<Rightarrow> move_on Broken a (reject (ac_id a) rt)
           | Inr _ \<Rightarrow> move_on (LastModels backendFailed pending) a rt)
      | _ \<Rightarrow> leave c now backendFailed pending a rt)"

definition modelRunFailureCodes :: "jstring list" where
  "modelRunFailureCodes = [js ''MODEL_UPSTREAM_ERROR'', js ''ENGINE_NO_OUTPUT'']"

definition backend_failed :: "driver_result \<Rightarrow> bool" where
  "backend_failed r \<longleftrightarrow> dr_status r = DriverFailed \<and>
     (case dr_error r of Some e \<Rightarrow> pe_code e | None \<Rightarrow> []) \<notin> set modelRunFailureCodes"

text \<open>The outcome is recorded: that of a Run asked to stop is why it was, else that of the driver.\<close>

definition settle_stopped :: "config \<Rightarrow> int \<Rightarrow> driver_result \<Rightarrow> cleanup_status \<Rightarrow> active_run \<Rightarrow> runtime \<Rightarrow> runtime" where
  "settle_stopped c now r cleanup a rt =
     (case ac_stop a of
        None \<Rightarrow> rt
      | Some reason \<Rightarrow>
          (case then_do (recordCleanup now a cleanup) (finish_stopped now (ac_id a) reason cleanup) rt of
             (Some e, rt) \<Rightarrow> recover e a rt
           | (None, rt) \<Rightarrow> release c now (backend_failed r) None a rt))"

definition driver_finish :: "driver_result \<Rightarrow> cleanup_status \<Rightarrow> finish_input" where
  "driver_finish r cleanup =
     \<lparr>f_status = driver_terminal (dr_status r),
      f_stopReason = (case dr_stopReason r of Some s \<Rightarrow> s | None \<Rightarrow> terminal_text (driver_terminal (dr_status r))),
      f_cleanupStatus = cleanup, f_output = dr_output r, f_error = dr_error r\<rparr>"

definition collected :: "config \<Rightarrow> int \<Rightarrow> driver_result \<Rightarrow> cleanup_status \<Rightarrow> active_run \<Rightarrow> runtime \<Rightarrow> runtime" where
  "collected c now r cleanup a rt =
     (case check_deadline now a rt of
        (Some e, a, rt) \<Rightarrow> recover e a rt
      | (None, a, rt) \<Rightarrow>
          if ac_stop a \<noteq> None
          then (if ac_stopping a = None then settle_stopped c now r Unconfirmed a rt else move_on (AwaitsStop r) a rt)
          else (case then_do (recordCleanup now a cleanup) (finishRun now (ac_id a) (driver_finish r cleanup)) rt of
              (Some e, rt) \<Rightarrow> recover e a rt
            | (None, rt) \<Rightarrow> release c now (backend_failed r) None a rt))"

text \<open>The worker of a turn without state, or that failed, is closed; then declared files are collected.\<close>

definition reclaimed :: "config \<Rightarrow> int \<Rightarrow> driver_result \<Rightarrow> cleanup_status \<Rightarrow> active_run \<Rightarrow> runtime \<Rightarrow> runtime" where
  "reclaimed c now r cleanup a rt =
     (case check_deadline now a rt of
        (Some e, a, rt) \<Rightarrow> recover e a rt
      | (None, a, rt) \<Rightarrow>
          if ac_stop a = None \<and> dr_status r = DriverCompleted \<and> in_outputs (r_input (ac_run a)) \<noteq> None
          then (if \<not> co_collects c then recover (OtherFault None) a rt
                else case perform (setRunStatus now (ac_id a) Finalizing) rt of
                    (Inl e, rt) \<Rightarrow> recover (StoreFault e) a rt
                  | (Inr _, rt) \<Rightarrow> move_on (Collecting r cleanup) a rt)
          else collected c now r cleanup a rt)"

definition settled :: "config \<Rightarrow> int \<Rightarrow> driver_result \<Rightarrow> active_run \<Rightarrow> runtime \<Rightarrow> runtime" where
  "settled c now r a rt =
     (if ac_stop a = None \<and> (ep_driver (ac_profile a) = CliDriver \<or> backend_failed r)
      then move_on (Reclaiming r) a rt else reclaimed c now r Confirmed a rt)"

text \<open>The handler of \<open>execute\<close> after its wait.\<close>

definition recovered :: "config \<Rightarrow> int \<Rightarrow> fault \<Rightarrow> cleanup_status \<Rightarrow> active_run \<Rightarrow> runtime \<Rightarrow> runtime" where
  "recovered c now e cleanup a rt =
     (case then_do (recordCleanup now a cleanup)
         (case ac_stop a of
            Some reason \<Rightarrow> finish_stopped now (ac_id a) reason cleanup
          | None \<Rightarrow> finishRun now (ac_id a)
              \<lparr>f_status = Failed, f_stopReason = js ''backend_error'', f_cleanupStatus = cleanup, f_output = None,
               f_error = Some \<lparr>pe_code = public_code e,
                 pe_message = js ''Engine execution failed; inspect the local engine setup''\<rparr>\<rparr>) rt of
        (pending, rt) \<Rightarrow> release c now True pending a rt)"

section \<open>The ends of the waits\<close>

text \<open>What the outside answers: an error, or what was asked for.\<close>

record answer =
  an_now :: int
  an_fault :: "fault option"
  an_installation :: "(jstring \<times> json) list"
  an_gateway :: bool
  an_result :: driver_result
  an_calls :: int
  an_successfulCalls :: int
  an_lastError :: "jstring option"
  an_cleanup :: "cleanup_status option"  \<comment> \<open>\<open>None\<close>: closing the worker threw\<close>
  an_duration :: int
  an_artifacts :: "artifact_record list"
  an_missing :: "jstring list"

definition model_unavailable :: "config \<Rightarrow> int \<Rightarrow> jstring \<Rightarrow> jstring \<Rightarrow> active_run \<Rightarrow> runtime \<Rightarrow> runtime" where
  "model_unavailable c now code message a rt =
     (case then_do (recordCleanup now a Confirmed)
         (finishRun now (ac_id a) \<lparr>f_status = Failed, f_stopReason = js ''model_unavailable'', f_cleanupStatus = Confirmed,
           f_output = None, f_error = Some \<lparr>pe_code = code, pe_message = message\<rparr>\<rparr>) rt of
        (Some e, rt) \<Rightarrow> recover e a rt
      | (None, rt) \<Rightarrow> release c now False None a rt)"

definition result_came :: "config \<Rightarrow> answer \<Rightarrow> active_run \<Rightarrow> runtime \<Rightarrow> runtime" where
  "result_came c b a rt =
     (case ac_model a of
        None \<Rightarrow> settled c (an_now b) (an_result b) a rt
      | Some (ob, _) \<Rightarrow>
          (let a = a\<lparr>ac_model := Some (ob, True)\<rparr>
           in case getRun (ac_id a) (rt_store rt) of
             Inl e \<Rightarrow> recover (StoreFault e) a rt
           | Inr _ \<Rightarrow> move_on (EndingModels (an_result b) (producedOutput ob)) a rt))"

fun register_all :: "int \<Rightarrow> artifact_record list \<Rightarrow> runtime \<Rightarrow> fault option \<times> runtime" where
  "register_all now [] rt = (None, rt)"
| "register_all now (x # xs) rt =
     (case perform (registerArtifact now x) rt of
        (Inl e, rt) \<Rightarrow> (Some (StoreFault e), rt)
      | (Inr _, rt) \<Rightarrow> register_all now xs rt)"

fun note_missing :: "int \<Rightarrow> jstring \<Rightarrow> jstring list \<Rightarrow> runtime \<Rightarrow> fault option \<times> runtime" where
  "note_missing now i [] rt = (None, rt)"
| "note_missing now i (name # names) rt =
     (case perform (appendEvent now i (simple_draft ''ARTIFACT_MISSING'' [(js ''name'', JStr name)])) rt of
        (Inl e, rt) \<Rightarrow> (Some (StoreFault e), rt)
      | (Inr _, rt) \<Rightarrow> note_missing now i names rt)"

definition captured :: "answer \<Rightarrow> driver_result \<Rightarrow> cleanup_status \<Rightarrow> active_run \<Rightarrow> runtime \<Rightarrow> runtime" where
  "captured b r cleanup a rt =
     (case check_deadline (an_now b) a rt of
        (Some e, a, rt) \<Rightarrow> move_on (Discarding r cleanup (Some e)) a rt
      | (None, a, rt) \<Rightarrow>
          if ac_stop a \<noteq> None then move_on (Discarding r cleanup None) a rt
          else (case register_all (an_now b) (an_artifacts b) rt of
              (Some e, rt) \<Rightarrow> move_on (Discarding r cleanup (Some e)) a rt
            | (None, rt) \<Rightarrow>
                (case note_missing (an_now b) (ac_id a) (an_missing b) rt of
                   (e, rt) \<Rightarrow> move_on (Discarding r cleanup e) a rt)))"

text \<open>\<open>closeWorker\<close> after its wait: what it did is remembered whatever came of it.\<close>

definition worker_closed :: "answer \<Rightarrow> active_run \<Rightarrow> active_run" where
  "worker_closed b a = a\<lparr>ac_cleanup := Some (max 0 (an_duration b),
     (case an_cleanup b of Some status \<Rightarrow> status | None \<Rightarrow> CleanupFailed))\<rparr>"

definition advance :: "config \<Rightarrow> answer \<Rightarrow> active_run \<Rightarrow> runtime \<Rightarrow> runtime" where
  "advance c b a rt =
     (let now = an_now b
      in case ac_place a of
        LastModels backendFailed pending \<Rightarrow> leave c now backendFailed pending a rt
      | Broken \<Rightarrow> rt
      | AwaitsStop r \<Rightarrow>
          (case ac_stopping a of
             Some (StoppedWith status) \<Rightarrow> settle_stopped c now r status a rt
           | Some StopThrew \<Rightarrow> recover (OtherFault None) a rt
           | _ \<Rightarrow> rt)
      | Recovering e True \<Rightarrow>
          (case ac_stopping a of
             Some (StoppedWith status) \<Rightarrow> recovered c now e status a rt
           | Some StopThrew \<Rightarrow> recovered c now e CleanupFailed a rt
           | _ \<Rightarrow> rt)
      | Recovering e False \<Rightarrow>
          recovered c now e (case an_cleanup b of Some status \<Rightarrow> status | None \<Rightarrow> CleanupFailed) (worker_closed b a) rt
      | Reclaiming r \<Rightarrow>
          (let a = worker_closed b a
           in case an_cleanup b of
             Some status \<Rightarrow> reclaimed c now r status a (set_active a rt)
           | None \<Rightarrow> recover (OtherFault None) a rt)
      | Discarding r cleanup pending \<Rightarrow>
          (case (an_fault b, pending) of
             (Some e, _) \<Rightarrow> recover e a rt
           | (None, Some e) \<Rightarrow> recover e a rt
           | (None, None) \<Rightarrow> collected c now r cleanup a rt)
      | Beginning \<Rightarrow>
          (case an_fault b of
             Some (HubFault code message) \<Rightarrow> model_unavailable c now code message a rt
           | Some e \<Rightarrow> recover e a rt
           | None \<Rightarrow> move_on StartingHost (if an_gateway b then a\<lparr>ac_model := Some (new_observation, False)\<rparr> else a) rt)
      | p \<Rightarrow>
          (case an_fault b of
             Some e \<Rightarrow> recover e a rt
           | None \<Rightarrow>
               (case p of
                  Inspecting \<Rightarrow> inspected now (an_installation b) a
                    (rt\<lparr>rt_installations := jset (ac_sid a) (an_installation b) (rt_installations rt)\<rparr>)
                | StartingHost \<Rightarrow>
                    move_on (if ac_stop a \<noteq> None then CancelsAfterStart else AwaitsResult) (a\<lparr>ac_handle := True\<rparr>) rt
                | CancelsAfterStart \<Rightarrow> move_on AwaitsResult a rt
                | AwaitsResult \<Rightarrow> result_came c b a rt
                | EndingModels r produced \<Rightarrow>
                    settled c now (settleModelRun r
                      \<lparr>me_producedOutput = produced, me_modelCalls = an_calls b, me_successfulModelCalls = an_successfulCalls b,
                       me_lastUpstreamError = an_lastError b\<rparr> (ac_stop a \<noteq> None)) a rt
                | Collecting r cleanup \<Rightarrow> captured b r cleanup a rt
                | _ \<Rightarrow> rt)))"

text \<open>\<open>stopping\<close>: the backend cancelled, or the grace is over; then the worker has closed.\<close>

definition stop_advance :: "answer \<Rightarrow> active_run \<Rightarrow> runtime \<Rightarrow> runtime" where
  "stop_advance b a rt =
     (case ac_stopping a of
        Some CancelsHandle \<Rightarrow> set_active (a\<lparr>ac_stopping := Some ClosesWorker\<rparr>) rt
      | Some ClosesWorker \<Rightarrow>
          set_active ((worker_closed b a)\<lparr>ac_stopping :=
            Some (case an_cleanup b of Some status \<Rightarrow> StoppedWith status | None \<Rightarrow> StopThrew)\<rparr>) rt
      | _ \<Rightarrow> rt)"

end
