(* ===== verification/RuntimeService.thy ===== *)
theory RuntimeService
  imports Runtime
begin

text \<open>
  What is asked of \<open>class Runtime\<close> (\<open>packages/runtime/src/runtime/runtime.ts\<close>): sessions and Runs, decisions,
  the messages of workers, the timers, closing and the start of the next process; and one step of it.
\<close>

datatype reply =
    Quietly
  | TheSession session_record
  | TheRun run_record bool
  | ThePermission permission_record bool  \<comment> \<open>with whether it is forwarded to the worker\<close>

type_synonym answered = "(fault + reply) \<times> runtime"

definition refuse :: "string \<Rightarrow> string \<Rightarrow> runtime \<Rightarrow> answered" where
  "refuse code message rt = (Inl (HubFault (js code) (js message)), rt)"

definition unavailable :: "runtime \<Rightarrow> answered" where
  "unavailable = refuse ''UNAVAILABLE'' ''Runtime is stopping or storage is unavailable''"

fun reply_of :: "('a \<Rightarrow> reply) \<Rightarrow> 'a result \<times> runtime \<Rightarrow> answered" where
  "reply_of f (Inl e, rt) = (Inl (StoreFault e), rt)"
| "reply_of f (Inr v, rt) = (Inr (f v), rt)"

fun quiet_reply :: "fault option \<times> runtime \<Rightarrow> answered" where
  "quiet_reply (Some e, rt) = (Inl e, rt)"
| "quiet_reply (None, rt) = (Inr Quietly, rt)"

section \<open>Sessions and Runs\<close>

definition open_session :: "config \<Rightarrow> jstring \<Rightarrow> int \<Rightarrow> jstring option \<Rightarrow> jstring option \<Rightarrow> json option \<Rightarrow> runtime \<Rightarrow> answered" where
  "open_session c uuid now engineId workspaceId routing rt =
     (if \<not> isReady rt then unavailable rt
      else case co_current c (case engineId of Some i \<Rightarrow> i | None \<Rightarrow> co_defaultEngine c) of
        None \<Rightarrow> refuse ''ENGINE_UNAVAILABLE'' ''Engine is not enabled'' rt
      | Some profile \<Rightarrow>
          (case find (\<lambda>w. ws_id w = (case workspaceId of Some i \<Rightarrow> i | None \<Rightarrow> co_defaultWorkspace c)) (co_workspaces c) of
             None \<Rightarrow> refuse ''WORKSPACE_NOT_FOUND'' ''Workspace is not registered'' rt
           | Some ws \<Rightarrow> reply_of TheSession (perform (createSession (co_digest c) uuid now profile ws routing) rt)))"

text \<open>A Run just accepted: queued, with its timer; then the pump.\<close>

definition enqueue :: "config \<Rightarrow> int \<Rightarrow> jstring \<Rightarrow> runtime \<Rightarrow> runtime" where
  "enqueue c now i rt = pump c now (rt\<lparr>rt_queue := rt_queue rt @ [i], rt_deadlines := rt_deadlines rt @ [i]\<rparr>)"

definition accept_input :: "config \<Rightarrow> jstring \<Rightarrow> int \<Rightarrow> jstring \<Rightarrow> run_input \<Rightarrow> jstring option \<Rightarrow> runtime \<Rightarrow> answered" where
  "accept_input c uuid now sid input key rt =
     (case (case key of Some k \<Rightarrow> if k = [] then Inr None else findRunByKey sid k (rt_store rt) | None \<Rightarrow> Inr None) of
        Inl e \<Rightarrow> (Inl (StoreFault e), rt)
      | Inr (Some _) \<Rightarrow>
          reply_of (\<lambda>v. TheRun (acc_run v) (acc_created v)) (perform (acceptRun (co_digest c) uuid now sid input key) rt)
      | Inr None \<Rightarrow>
          if co_maxQueuedRuns c \<le> length (rt_queue rt) then refuse ''QUEUE_FULL'' ''Run queue is full'' rt
          else (case perform (acceptRun (co_digest c) uuid now sid input key) rt of
              (Inl e, rt) \<Rightarrow> (Inl (StoreFault e), rt)
            | (Inr v, rt) \<Rightarrow>
                (Inr (TheRun (acc_run v) (acc_created v)), if acc_created v then enqueue c now (r_id (acc_run v)) rt else rt)))"

definition submit :: "config \<Rightarrow> jstring \<Rightarrow> int \<Rightarrow> jstring \<Rightarrow> run_input \<Rightarrow> int option \<Rightarrow> jstring option \<Rightarrow> runtime \<Rightarrow> answered" where
  "submit c uuid now sid input timeoutMs key rt =
     (if \<not> isReady rt then unavailable rt
      else case getSession sid (rt_store rt) of
        Inl e \<Rightarrow> (Inl (StoreFault e), rt)
      | Inr session \<Rightarrow>
          if s_status session \<noteq> SessionOpen then refuse ''SESSION_CLOSED'' ''Session is closed'' rt
          else if sid \<in> set (rt_suspending rt) then refuse ''SESSION_BUSY'' ''Session is releasing its Worker'' rt
          else if (case in_outputs input of Some outs \<Rightarrow> \<not> validateFileOutputs (co_folded c) outs | None \<Rightarrow> False)
          then refuse ''INVALID_ARTIFACT_PATH'' ''Output paths and unique names must identify portable relative files'' rt
          else if in_outputs input \<noteq> None \<and> \<not> co_collects c
          then refuse ''UNSUPPORTED_CAPABILITY'' ''Workspace artifact collection is not configured'' rt
          else (case co_profile c (s_engineId session) (s_profileRevision session) of
              None \<Rightarrow> refuse ''ENGINE_UNAVAILABLE'' ''Engine is not enabled'' rt
            | Some profile \<Rightarrow>
                if in_fixture input \<noteq> None \<and> ep_driver profile \<noteq> FakeDriver
                then refuse ''UNSUPPORTED_CAPABILITY'' ''Fixture controls are only available in demo sessions'' rt
                else accept_input c uuid now sid
                  (input\<lparr>in_timeoutMs := (case timeoutMs of Some t \<Rightarrow> t | None \<Rightarrow> co_defaultTimeoutMs c)\<rparr>) key rt))"

definition cancel :: "int \<Rightarrow> jstring \<Rightarrow> runtime \<Rightarrow> answered" where
  "cancel now i rt =
     (case stop now i StopCancelled rt of
        (Some e, rt) \<Rightarrow> (Inl e, rt)
      | (None, rt) \<Rightarrow> (case getRun i (rt_store rt) of Inl e \<Rightarrow> (Inl (StoreFault e), rt) | Inr run \<Rightarrow> (Inr (TheRun run False), rt)))"

text \<open>The timer of a Run.\<close>

definition timed_out :: "int \<Rightarrow> jstring \<Rightarrow> runtime \<Rightarrow> runtime" where
  "timed_out now i rt = (if i \<in> set (rt_deadlines rt) then in_background (stop now i StopTimedOut (clear_deadline i rt)) else rt)"

section \<open>Messages of a worker\<close>

record message =
  m_sessionId :: jstring
  m_runId :: jstring
  m_generation :: int
  m_seq :: int
  m_payload :: worker_payload

text \<open>\<open>engineEvidence\<close>: what an engine's revision was last seen to be capable of.\<close>

definition observe_engine :: "active_run \<Rightarrow> event_draft \<Rightarrow> agent_event option \<Rightarrow> runtime \<Rightarrow> runtime" where
  "observe_engine a draft committed rt =
     (case committed of
        Some event \<Rightarrow>
          if d_type draft = js ''engine.capabilities''
          then rt\<lparr>rt_observed := jset (ep_id (ac_profile a) @ js '':'' @ ep_revision (ac_profile a))
            (jset (js ''observedAt'') (JNum (e_observedAt event))
              (jset (js ''profileRevision'') (JStr (ep_revision (ac_profile a)))
                (jset (js ''sourceRunId'') (JStr (ac_id a)) (d_data draft)))) (rt_observed rt)\<rparr>
          else rt
      | None \<Rightarrow> rt)"

definition receive_event :: "int \<Rightarrow> active_run \<Rightarrow> event_draft \<Rightarrow> runtime \<Rightarrow> answered" where
  "receive_event now a draft rt =
     (if d_type draft = js ''engine.session''
      then (case map_of (d_data draft) (js ''backendSessionId'') of
          Some (JStr b) \<Rightarrow>
            if b = [] \<or> ep_driver (ac_profile a) \<noteq> AcpDriver
            then refuse ''BACKEND_SESSION_INVALID'' ''ACP backend identity is invalid'' rt
            else (case perform (bindBackendSession now (ac_id a) b draft) rt of
                (Inl e, rt) \<Rightarrow> (Inl (StoreFault e), rt)
              | (Inr committed, rt) \<Rightarrow> (Inr Quietly, observe_engine a draft committed rt))
        | _ \<Rightarrow> refuse ''BACKEND_SESSION_INVALID'' ''ACP backend identity is invalid'' rt)
      else (case perform (appendEvent now (ac_id a) draft) rt of
          (Inl e, rt) \<Rightarrow> (Inl (StoreFault e), rt)
        | (Inr committed, rt) \<Rightarrow> (Inr Quietly, observe_engine a draft committed rt)))"

definition asked_permission :: "int \<Rightarrow> run_record \<Rightarrow> jstring \<Rightarrow> jstring \<Rightarrow> jstring \<Rightarrow> permission_option list \<Rightarrow> permission_record" where
  "asked_permission now run i tool prompt options =
     \<lparr>p_id = i, p_sessionId = r_sessionId run, p_runId = r_id run, p_generation = r_generation run, p_toolCallId = tool,
      p_prompt = prompt, p_options = options, p_status = Pending, p_decision = None, p_createdAt = now,
      p_expiresAt = r_deadlineAt run\<rparr>"

text \<open>A message that is another Run's, or comes after the Run has ended or been asked to stop, is ignored.\<close>

definition ignored :: "message \<Rightarrow> run_record \<Rightarrow> active_run \<Rightarrow> bool" where
  "ignored m run a \<longleftrightarrow>
     m_runId m \<noteq> r_id run \<or> m_sessionId m \<noteq> r_sessionId run \<or> m_generation m \<noteq> r_generation run \<or>
     isTerminal (r_status run) \<or> ac_stop a \<noteq> None"

definition observe_message :: "worker_payload \<Rightarrow> active_run \<Rightarrow> active_run" where
  "observe_message payload a = a\<lparr>ac_model := map_option (\<lambda>(ob, ended). (observe payload ob, ended)) (ac_model a)\<rparr>"

definition receive :: "int \<Rightarrow> message \<Rightarrow> active_run \<Rightarrow> runtime \<Rightarrow> answered" where
  "receive now m a rt =
     (case getRun (ac_id a) (rt_store rt) of
        Inl e \<Rightarrow> (Inl (StoreFault e), rt)
      | Inr run \<Rightarrow>
          if ignored m run a then (Inr Quietly, rt)
          else (let rt = set_active (observe_message (m_payload m) a) rt
            in case m_payload m of
              WorkerStarted \<Rightarrow> reply_of (\<lambda>_. Quietly) (perform (setRunStatus now (r_id run) Running) rt)
            | WorkerEvent draft \<Rightarrow> receive_event now a (draft\<lparr>d_sourceSeq := Some (m_seq m)\<rparr>) rt
            | AsksPermission i tool prompt options \<Rightarrow>
                quiet_reply (then_do (createPermission now (asked_permission now run i tool prompt options))
                  (setRunStatus now (r_id run) WaitingPermission) rt)
            | PermissionIsApplied i \<Rightarrow>
                quiet_reply (then_do (markPermissionApplied now i) (setRunStatus now (r_id run) Running) rt)
            | WorkerArtifact \<Rightarrow> (Inr Quietly, rt)
            | WorkerResult \<Rightarrow> (Inr Quietly, rt)))"

text \<open>
  The artifact of a message is published, outside; it is registered unless the Run has ended or been asked
  to stop meanwhile (and discarded otherwise).
\<close>

definition published :: "int \<Rightarrow> artifact_record \<Rightarrow> active_run \<Rightarrow> runtime \<Rightarrow> answered" where
  "published now x a rt =
     (case getRun (ac_id a) (rt_store rt) of
        Inl e \<Rightarrow> (Inl (StoreFault e), rt)
      | Inr run \<Rightarrow>
          if isTerminal (r_status run) \<or> ac_stop a \<noteq> None then (Inr Quietly, rt)
          else reply_of (\<lambda>_. Quietly) (perform (registerArtifact now x) rt))"

section \<open>Decisions\<close>

definition decide :: "int \<Rightarrow> jstring \<Rightarrow> jstring \<Rightarrow> runtime \<Rightarrow> answered" where
  "decide now i optionId rt =
     (case getPermission i (rt_store rt) of
        Inl e \<Rightarrow> (Inl (StoreFault e), rt)
      | Inr before \<Rightarrow>
          (case p_decision before of
             Some decision \<Rightarrow>
               if decision \<noteq> optionId then refuse ''PERMISSION_CONFLICT'' ''A different decision was already recorded'' rt
               else (Inr (ThePermission before False), rt)
           | None \<Rightarrow>
               (case active_of (p_sessionId before) rt of
                  None \<Rightarrow> refuse ''PERMISSION_EXPIRED'' ''Permission no longer belongs to an active run'' rt
                | Some a \<Rightarrow>
                    if \<not> ac_handle a \<or> ac_id a \<noteq> p_runId before \<or> r_generation (ac_run a) \<noteq> p_generation before \<or> ac_stop a \<noteq> None
                    then refuse ''PERMISSION_EXPIRED'' ''Permission no longer belongs to an active run'' rt
                    else reply_of (\<lambda>p. ThePermission p (p_status before = Pending)) (perform (decidePermission now i optionId) rt))))"

section \<open>Suspending and closing\<close>

fun resumable :: "engine_profile \<Rightarrow> session_record \<Rightarrow> bool" where
  "resumable profile session =
     ((case ep_acp profile of Some o' \<Rightarrow> acp_resume o' | None \<Rightarrow> False) \<and>
      (case s_backendSessionId session of Some b \<Rightarrow> b \<noteq> [] | None \<Rightarrow> False))"

definition suspend_asked :: "config \<Rightarrow> jstring \<Rightarrow> runtime \<Rightarrow> answered" where
  "suspend_asked c sid rt =
     (if \<not> isReady rt then unavailable rt
      else case getSession sid (rt_store rt) of
        Inl e \<Rightarrow> (Inl (StoreFault e), rt)
      | Inr session \<Rightarrow>
          if s_status session \<noteq> SessionOpen then refuse ''SESSION_CLOSED'' ''Session is closed'' rt
          else (case co_profile c (s_engineId session) (s_profileRevision session) of
              None \<Rightarrow> refuse ''ENGINE_UNAVAILABLE'' ''Engine is not enabled'' rt
            | Some profile \<Rightarrow>
                if \<not> resumable profile session
                then refuse ''UNSUPPORTED_CAPABILITY'' ''Session has no resumable ACP checkpoint'' rt
                else if sid \<in> set (rt_suspending rt) \<or> active_of sid rt \<noteq> None
                then refuse ''SESSION_BUSY'' ''Only an idle session can release its Worker'' rt
                else (case listRuns (Some sid) (rt_store rt) of
                    Inl e \<Rightarrow> (Inl (StoreFault e), rt)
                  | Inr rs \<Rightarrow>
                      if list_ex (\<lambda>r. \<not> isTerminal (r_status r)) rs
                      then refuse ''SESSION_BUSY'' ''Only an idle session can release its Worker'' rt
                      else (Inr Quietly, rt\<lparr>rt_suspending := rt_suspending rt @ [sid]\<rparr>))))"

text \<open>The worker of a session that is releasing it has closed.\<close>

definition suspended :: "answer \<Rightarrow> jstring \<Rightarrow> runtime \<Rightarrow> answered" where
  "suspended b sid rt =
     (if sid \<notin> set (rt_suspending rt) then (Inr Quietly, rt)
      else (let released = rt\<lparr>rt_suspending := removeAll sid (rt_suspending rt)\<rparr>
        in case an_cleanup b of
          None \<Rightarrow> (Inl (OtherFault None), released)
        | Some status \<Rightarrow>
            if status \<noteq> Confirmed
            then refuse ''SESSION_SUSPEND_UNCONFIRMED'' ''Worker cleanup could not be confirmed; resources remain quarantined'' released
            else (let idle = released\<lparr>rt_installations := jdelete sid (rt_installations rt)\<rparr>
              in case getSession sid (rt_store rt) of
                Inl e \<Rightarrow> (Inl (StoreFault e), idle)
              | Inr session \<Rightarrow> (Inr (TheSession session), idle))))"

fun stop_all :: "int \<Rightarrow> run_record list \<Rightarrow> runtime \<Rightarrow> fault option \<times> runtime" where
  "stop_all now [] rt = (None, rt)"
| "stop_all now (run # rest) rt =
     (if isTerminal (r_status run) then stop_all now rest rt
      else case stop now (r_id run) StopCancelled rt of
        (Some e, rt) \<Rightarrow> (Some e, rt)
      | (None, rt) \<Rightarrow> stop_all now rest rt)"

text \<open>\<open>closeSession\<close>: its Runs are stopped, then it waits for the one at work.\<close>

definition close_session_asked :: "int \<Rightarrow> jstring \<Rightarrow> runtime \<Rightarrow> answered" where
  "close_session_asked now sid rt =
     (let rt = rt\<lparr>rt_installations := jdelete sid (rt_installations rt)\<rparr>
      in case getSession sid (rt_store rt) of
        Inl e \<Rightarrow> (Inl (StoreFault e), rt)
      | Inr session \<Rightarrow>
          if s_status session = SessionClosed then (Inr (TheSession session), rt)
          else (case perform (setSessionStatus now sid SessionClosing) rt of
              (Inl e, rt) \<Rightarrow> (Inl (StoreFault e), rt)
            | (Inr _, rt) \<Rightarrow>
                (case listRuns (Some sid) (rt_store rt) of
                   Inl e \<Rightarrow> (Inl (StoreFault e), rt)
                 | Inr rs \<Rightarrow>
                     (case stop_all now rs rt of
                        (Some e, rt) \<Rightarrow> (Inl e, rt)
                      | (None, rt) \<Rightarrow>
                          (Inr Quietly, rt\<lparr>rt_closings := rt_closings rt @ [(sid, map_option ac_id (active_of sid rt))]\<rparr>)))))"

text \<open>
  The worker has closed (or the host threw), and the Run waited for has settled. While it has not, the call
  goes on waiting.
\<close>

definition session_closed :: "answer \<Rightarrow> nat \<Rightarrow> runtime \<Rightarrow> answered" where
  "session_closed b n rt =
     (if length (rt_closings rt) \<le> n then (Inr Quietly, rt)
      else (let (sid, awaited) = rt_closings rt ! n;
                over = rt\<lparr>rt_closings := take n (rt_closings rt) @ drop (Suc n) (rt_closings rt)\<rparr>
        in case an_fault b of
          Some e \<Rightarrow> (Inl e, over)
        | None \<Rightarrow>
            (case awaited of
               None \<Rightarrow> reply_of TheSession (perform (setSessionStatus (an_now b) sid SessionClosed) over)
             | Some i \<Rightarrow>
                 if i \<in> set (rt_rejected rt) then (Inl (OtherFault None), over)
                 else if list_ex (\<lambda>a. ac_id a = i) (rt_active rt) then (Inr Quietly, rt)
                 else reply_of TheSession (perform (setSessionStatus (an_now b) sid SessionClosed) over))))"

definition close :: "int \<Rightarrow> runtime \<Rightarrow> answered" where
  "close now rt =
     (let rt = rt\<lparr>rt_closed := True\<rparr>
      in case listRuns None (rt_store rt) of
        Inl e \<Rightarrow> (Inl (StoreFault e), rt)
      | Inr rs \<Rightarrow>
          (case stop_all now rs rt of
             (Some e, rt) \<Rightarrow> (Inl e, rt)
           | (None, rt) \<Rightarrow> (Inr Quietly, rt\<lparr>rt_ends := True\<rparr>)))"

text \<open>Every task has settled.\<close>

definition closed_down :: "runtime \<Rightarrow> runtime" where
  "closed_down rt =
     (if rt_closed rt \<and> rt_ends rt \<and> list_all (\<lambda>a. ac_id a \<in> set (rt_rejected rt)) (rt_active rt) then rt\<lparr>rt_deadlines := []\<rparr> else rt)"

section \<open>The next process\<close>

text \<open>The constructor: no Run of an earlier process goes on, and sessions that cannot are closed.\<close>

fun interrupt_open :: "int \<Rightarrow> (jstring \<Rightarrow> cleanup_status option) \<Rightarrow> run_record list \<Rightarrow> unit operation" where
  "interrupt_open now workers [] = give ()"
| "interrupt_open now workers (run # rest) =
     (if isTerminal (r_status run) then interrupt_open now workers rest
      else and_then (finish now (r_id run) Interrupted (js ''gateway_restarted'')
          (case workers (r_sessionId run) of Some status \<Rightarrow> status | None \<Rightarrow> Unconfirmed))
        (\<lambda>_. and_then (setSessionStatus now (r_sessionId run) SessionClosed)
        (\<lambda>_. interrupt_open now workers rest)))"

definition lost_backend :: "session_record \<Rightarrow> store \<Rightarrow> bool result" where
  "lost_backend session s =
     (case s_backendSessionId session of
        Some (_ # _) \<Rightarrow> Inr False
      | _ \<Rightarrow> map_sum id (list_ex (\<lambda>r. r_startedAt r \<noteq> None)) (listRuns (Some (s_id session)) s))"

fun close_unusable :: "config \<Rightarrow> int \<Rightarrow> session_record list \<Rightarrow> unit operation" where
  "close_unusable c now [] = give ()"
| "close_unusable c now (session # rest) =
     (let closing = and_then (setSessionStatus now (s_id session) SessionClosed) (\<lambda>_. close_unusable c now rest)
      in if s_status session \<noteq> SessionOpen then close_unusable c now rest
         else (case co_profile c (s_engineId session) (s_profileRevision session) of
             None \<Rightarrow> closing
           | Some profile \<Rightarrow>
               if ep_driver profile \<noteq> AcpDriver then close_unusable c now rest
               else if \<not> cap_resume (ep_capabilities profile) then closing
               else and_then (reading (lost_backend session))
                 (\<lambda>lost. if lost then closing else close_unusable c now rest)))"

definition recovery :: "config \<Rightarrow> int \<Rightarrow> (jstring \<Rightarrow> cleanup_status option) \<Rightarrow> unit operation" where
  "recovery c now workers =
     and_then (reading (listRuns None)) (\<lambda>rs. and_then (interrupt_open now workers rs)
       (\<lambda>_. and_then (reading listSessions) (close_unusable c now)))"

text \<open>Where the constructor throws there is no runtime: nothing is ready.\<close>

definition started :: "config \<Rightarrow> int \<Rightarrow> (jstring \<Rightarrow> cleanup_status option) \<Rightarrow> store \<Rightarrow> answered" where
  "started c now workers s =
     (case recovery c now workers s of
        (r, s) \<Rightarrow>
          (map_sum StoreFault (\<lambda>_. Quietly) r,
           \<lparr>rt_store = s, rt_active = [], rt_queue = [], rt_suspending = [], rt_installations = [], rt_deadlines = [],
            rt_observed = [], rt_rejected = [], rt_closings = [], rt_closed = (case r of Inl _ \<Rightarrow> True | Inr _ \<Rightarrow> False),
            rt_ends = False, rt_failed = False\<rparr>))"

section \<open>One step\<close>

datatype rt_op =
    OpenSession jstring int "jstring option" "jstring option" "json option"
  | Submit jstring int jstring run_input "int option" "jstring option"
  | Cancel int jstring
  | TimerFires int jstring
  | Advances answer jstring  \<comment> \<open>the wait of the Run at work in a session ends\<close>
  | StopAdvances answer jstring
  | Receives int message jstring
  | ArtifactPublished int artifact_record jstring
  | Decides int jstring jstring
  | Suspends jstring
  | SuspendEnds answer jstring
  | ClosesSession int jstring
  | ClosingEnds answer nat
  | Closes int
  | CloseEnds
  | Restarts int "jstring \<Rightarrow> cleanup_status option"

definition at_work :: "(active_run \<Rightarrow> answered) \<Rightarrow> jstring \<Rightarrow> runtime \<Rightarrow> answered" where
  "at_work f sid rt = (case active_of sid rt of None \<Rightarrow> (Inr Quietly, rt) | Some a \<Rightarrow> f a)"

fun rt_step :: "config \<Rightarrow> rt_op \<Rightarrow> runtime \<Rightarrow> answered" where
  "rt_step c (OpenSession uuid now engineId workspaceId routing) rt = open_session c uuid now engineId workspaceId routing rt"
| "rt_step c (Submit uuid now sid input timeoutMs key) rt = submit c uuid now sid input timeoutMs key rt"
| "rt_step c (Cancel now i) rt = cancel now i rt"
| "rt_step c (TimerFires now i) rt = (Inr Quietly, timed_out now i rt)"
| "rt_step c (Advances b sid) rt = at_work (\<lambda>a. (Inr Quietly, advance c b a rt)) sid rt"
| "rt_step c (StopAdvances b sid) rt = at_work (\<lambda>a. (Inr Quietly, stop_advance b a rt)) sid rt"
| "rt_step c (Receives now m sid) rt = at_work (\<lambda>a. receive now m a rt) sid rt"
| "rt_step c (ArtifactPublished now x sid) rt = at_work (\<lambda>a. published now x a rt) sid rt"
| "rt_step c (Decides now i optionId) rt = decide now i optionId rt"
| "rt_step c (Suspends sid) rt = suspend_asked c sid rt"
| "rt_step c (SuspendEnds b sid) rt = suspended b sid rt"
| "rt_step c (ClosesSession now sid) rt = close_session_asked now sid rt"
| "rt_step c (ClosingEnds b n) rt = session_closed b n rt"
| "rt_step c (Closes now) rt = close now rt"
| "rt_step c CloseEnds rt = (Inr Quietly, closed_down rt)"
| "rt_step c (Restarts now workers) rt = started c now workers (rt_store rt)"

end
