(* ===== verification/RunStoreTally.thy ===== *)
theory RunStoreTally
  imports RunStoreErrors RunStoreLife
begin

text \<open>
  What one operation of the store leaves as it is, for those who drive Runs through it: the Runs there are
  and how they ended. Only \<open>acceptRun\<close> adds a Run and only \<open>finishRun\<close> an ending. The proofs follow the
  text of the operations: what each step keeps, their sequence keeps.
\<close>

definition endings :: "store \<Rightarrow> (jstring \<times> jstring) list" where
  "endings s = map (\<lambda>e. (er_run e, er_type e)) (filter er_terminal (events s))"

definition tally :: "store \<Rightarrow> jstring list \<times> (jstring \<times> jstring) list" where
  "tally s = (map rr_id (runs s), endings s)"

definition keeps_tally :: "'a operation \<Rightarrow> bool" where
  "keeps_tally f \<longleftrightarrow> (\<forall>s. tally (snd (f s)) = tally s)"

lemma tally_writes [simp]:
  "tally (saveRun run s) = tally s" "tally (saveSession v s) = tally s" "tally (savePermission p s) = tally s"
  "tally (s\<lparr>permissions := ps\<rparr>) = tally s" "tally (s\<lparr>artifacts := as\<rparr>) = tally s" "tally (s\<lparr>sessions := ss\<rparr>) = tally s"
  by (simp_all add: tally_def endings_def saveRun_def saveSession_def savePermission_def)

lemma tally_insert [simp]: "tally (snd (insertEvent now run d False s)) = tally s"
  by (simp add: insertEvent_def Let_def draft_row_def) (simp add: tally_def endings_def)

lemma keeps_insert: "keeps_tally (insertEvent now run d False)"
  by (simp add: keeps_tally_def)

lemma keeps_steps:
  "keeps_tally (throw c n)" "keeps_tally (give a)" "keeps_tally (reading g)"
  by (simp_all add: keeps_tally_def throw_def give_def reading_def)

lemma keeps_and_then: "keeps_tally f \<Longrightarrow> (\<And>a. keeps_tally (g a)) \<Longrightarrow> keeps_tally (and_then f g)"
  by (auto simp: keeps_tally_def and_then_def split: prod.split sum.split) (metis snd_conv)+

lemma keeps_transaction: "keeps_tally f \<Longrightarrow> keeps_tally (transaction f)"
  by (auto simp: keeps_tally_def transaction_def split: prod.splits sum.splits) (metis snd_conv)

lemma keeps_if: "(b \<Longrightarrow> keeps_tally f) \<Longrightarrow> (\<not> b \<Longrightarrow> keeps_tally g) \<Longrightarrow> keeps_tally (if b then f else g)"
  by simp

lemma keeps_if_in: "keeps_tally f \<Longrightarrow> keeps_tally g \<Longrightarrow> keeps_tally (\<lambda>s. if b s then f s else g s)"
  by (simp add: keeps_tally_def)

lemma keeps_after:
  assumes "keeps_tally f"
  shows "keeps_tally (\<lambda>s. f (saveRun run s))" "keeps_tally (\<lambda>s. f (saveSession v s))"
    "keeps_tally (\<lambda>s. f (savePermission p s))" "keeps_tally (\<lambda>s. f (s\<lparr>permissions := permissions s @ ps\<rparr>))"
    "keeps_tally (\<lambda>s. f (s\<lparr>artifacts := artifacts s @ xs\<rparr>))"
  using assms by (simp_all add: keeps_tally_def)

lemma keeps_pair: "(\<And>s. tally (w s) = tally s) \<Longrightarrow> keeps_tally (\<lambda>s. (r s, w s))"
  by (simp add: keeps_tally_def)

lemmas keeps_rules = keeps_transaction keeps_and_then keeps_steps keeps_insert keeps_if keeps_if_in keeps_after keeps_pair

section \<open>The operations that neither add nor end a Run\<close>

lemma keeps_createSession: "keeps_tally (createSession digest uuid now engine ws routing)"
  by (simp add: keeps_tally_def createSession_def Let_def)

lemma keeps_setSessionStatus: "keeps_tally (setSessionStatus now i status)"
  unfolding setSessionStatus_def Let_def by (intro keeps_rules) simp

lemma keeps_setRunStatus: "keeps_tally (setRunStatus now i status)"
  unfolding setRunStatus_def Let_def by (intro keeps_rules)

lemma keeps_appendEvent: "keeps_tally (appendEvent now i draft)"
  unfolding appendEvent_def Let_def by (intro keeps_rules) (rule refl)

lemma keeps_bindBackendSession: "keeps_tally (bindBackendSession now i b ev)"
  unfolding bindBackendSession_def Let_def by (intro keeps_rules) (rule refl)

lemma keeps_insert_permission: "keeps_tally (insert_permission p)"
  by (simp add: keeps_tally_def insert_permission_def Let_def)

lemma keeps_insert_artifact: "keeps_tally (insert_artifact x)"
  by (simp add: keeps_tally_def insert_artifact_def Let_def)

lemma keeps_createPermission: "keeps_tally (createPermission now p)"
  unfolding createPermission_def Let_def by (intro keeps_rules keeps_insert_permission)

lemma keeps_registerArtifact: "keeps_tally (registerArtifact now x)"
  unfolding registerArtifact_def Let_def by (intro keeps_rules keeps_insert_artifact)

lemma keeps_markPermissionApplied: "keeps_tally (markPermissionApplied now i)"
  unfolding markPermissionApplied_def Let_def
  by (intro keeps_rules) (auto split: option.split intro!: keeps_rules)

lemma keeps_expirePermission: "keeps_tally (expirePermission now p)"
  unfolding expirePermission_def Let_def by (intro keeps_rules)

lemma keeps_decidePermission: "keeps_tally (decidePermission now i opt)"
proof -
  have "keeps_tally (transaction (decide_body now i opt))"
    unfolding decide_body_def Let_def by (intro keeps_rules keeps_expirePermission)
  moreover have "snd (decidePermission now i opt s) = snd (transaction (decide_body now i opt) s)" for s
    by (simp add: decidePermission_def split: prod.split sum.split)
  ultimately show ?thesis by (simp add: keeps_tally_def)
qed

lemma keeps_expire_open: "keeps_tally (expire_open now ps)"
proof (induction ps)
  case Nil
  then show ?case by (simp add: keeps_tally_def)
next
  case (Cons p ps)
  have "keeps_tally (and_then (expirePermission now p) (\<lambda>_. expire_open now ps))"
    by (intro keeps_and_then keeps_expirePermission Cons.IH)
  with Cons.IH show ?case by (simp add: keeps_tally_def)
qed

lemmas keeps_all = keeps_createSession keeps_setSessionStatus keeps_setRunStatus keeps_appendEvent
  keeps_bindBackendSession keeps_createPermission keeps_registerArtifact keeps_markPermissionApplied keeps_decidePermission

lemma keeps_tallyD: "keeps_tally f \<Longrightarrow> f s = (r, s') \<Longrightarrow> tally s' = tally s"
  unfolding keeps_tally_def by (metis snd_conv)

section \<open>The end of a Run\<close>

lemma butlast_or_last: "x \<in> set xs \<Longrightarrow> x \<in> set (butlast xs) \<or> x = last xs"
  by (induction xs) (auto split: if_splits)

lemma terminalEvent_inj [simp]: "terminalEvent a = terminalEvent b \<longleftrightarrow> a = b"
  by (cases a; cases b; simp add: js_def)

text \<open>In a store of the invariant, how a Run ended is what the log says.\<close>

lemma ended_iff:
  assumes inv: "store_inv s"
  shows "status_of i s = Some (Ended t) \<longleftrightarrow> (i, terminalEvent t) \<in> set (endings s)"
proof
  assume "status_of i s = Some (Ended t)"
  then obtain row where row: "find_run i s = Some row" "r_status (rr_record row) = Ended t"
    by (auto simp: status_of_def)
  with run_log [OF inv row(1)] have "run_events i s \<noteq> []" "er_terminal (last (run_events i s))"
    "er_type (last (run_events i s)) = terminalEvent t" by (auto simp: log_ok_def)
  moreover from this(1) have "last (run_events i s) \<in> set (run_events i s)" by simp
  ultimately show "(i, terminalEvent t) \<in> set (endings s)"
    by (force simp: endings_def run_events_def)
next
  assume "(i, terminalEvent t) \<in> set (endings s)"
  then obtain e where e: "e \<in> set (events s)" "er_run e = i" "er_type e = terminalEvent t" "er_terminal e"
    by (auto simp: endings_def)
  have "i \<in> rr_id ` set (runs s)" using event_ok_run [OF inv_event [OF inv e(1)]] e(2) by simp
  then have "find_run i s \<noteq> None" by (auto simp: find_None_iff)
  then obtain row where row: "find_run i s = Some row" by blast
  have "e \<in> set (run_events i s)" using e by (simp add: run_events_def)
  then have "e \<in> set (butlast (run_events i s)) \<or> e = last (run_events i s)"
    by (rule butlast_or_last)
  then obtain t' where "r_status (rr_record row) = Ended t'" "e = last (run_events i s)"
    using run_log [OF inv row] e(4) \<open>e \<in> set (run_events i s)\<close>
    by (cases "r_status (rr_record row)") (auto simp: log_ok_def list_all_iff)
  with run_log [OF inv row] e(3) row show "status_of i s = Some (Ended t)"
    by (simp add: log_ok_def status_of_def)
qed

lemma tally_finishing [simp]:
  "fst (tally (snd (insertEvent now run d True s))) = fst (tally s)"
  "insertEvent now run d True s = (Inr ev, s') \<Longrightarrow> endings s' = endings s @ [(r_id run, d_type d)]"
  by (auto simp: insertEvent_def Let_def draft_row_def draft_event_def tally_def endings_def saveRun_def split: if_splits)

lemma endings_saveRun [simp]: "endings (saveRun run s) = endings s"
  by (simp add: endings_def saveRun_def)

text \<open>\<open>finishRun\<close> changes nothing, or it adds the ending it was asked for.\<close>

lemma finish_tally:
  assumes inv: "store_inv s" and eq: "finishRun now i input s = (Inr run, s')"
  shows "fst (tally s') = fst (tally s)"
    and "endings s' = endings s \<or> endings s' = endings s @ [(i, terminalEvent (f_status input))]"
    and "\<exists>t. (i, terminalEvent t) \<in> set (endings s')"
proof -
  obtain first where first: "getRun i s = Inr first"
    using eq by (auto simp: finishRun_def)
  have "fst (tally s') = fst (tally s) \<and>
      (s' = s \<and> isTerminal (r_status first) \<or> endings s' = endings s @ [(i, terminalEvent (f_status input))])"
  proof (cases "isTerminal (r_status first)")
    case True
    with eq first show ?thesis by (simp add: finishRun_def)
  next
    case False
    then obtain ps u s1 again ev where ps: "listPermissions i s = Inr ps"
        and expired: "expire_open now ps s = (Inr u, s1)" and again: "getRun i s1 = Inr again"
        and event: "insertEvent now (finished_run now input again) (finish_draft input) True
           (saveRun (finished_run now input again) s1) = (Inr ev, s')"
      using eq first by (auto simp: finishRun_def Let_def)
    have "store_inv s1"
      using expire_open_moves [OF inv listPermissions_current [OF inv ps] expired] inv
      by (blast intro: store_moves_inv)
    with again have "r_id again = i" by (blast elim: getRun_row)
    moreover have "tally s1 = tally s" by (rule keeps_tallyD [OF keeps_expire_open expired])
    moreover have "fst (tally s') = fst (tally s1)"
      using tally_finishing(1) [of now "finished_run now input again" "finish_draft input"] event
      by (metis snd_conv tally_writes(1))
    ultimately show ?thesis
      using tally_finishing(2) [OF event] by (simp add: finished_run_def finish_draft_def tally_def)
  qed
  moreover have "\<exists>t. (i, terminalEvent t) \<in> set (endings s)" if "isTerminal (r_status first)"
    using that getRun_status [OF inv first] ended_iff [OF inv] by (auto simp: isTerminal_iff)
  ultimately show "fst (tally s') = fst (tally s)"
    "endings s' = endings s \<or> endings s' = endings s @ [(i, terminalEvent (f_status input))]"
    "\<exists>t. (i, terminalEvent t) \<in> set (endings s')" by auto
qed

section \<open>A Run is accepted\<close>

lemma failed_same: "f = transaction g \<Longrightarrow> f s = (Inl e, s') \<Longrightarrow> s' = s"
  by (auto simp: transaction_def split: prod.splits sum.splits)

lemma insert_run_tally:
  assumes "insert_run digest now run key s = (Inr v, s')"
  shows "acc_created v" "getRun (r_id run) s' = Inr (acc_run v)" "r_id run \<notin> rr_id ` set (runs s)"
    "tally s' = (map rr_id (runs s) @ [r_id run], endings s)"
proof -
  let ?row = "\<lparr>rr_id = r_id run, rr_session = r_sessionId run, rr_generation = r_generation run,
            rr_key = key, rr_hash = inputHash digest (r_input run), rr_created = now, rr_record = run\<rparr>"
  obtain d ev stored where steps: "\<not> run_conflict ?row s"
      "insertEvent now run d False (s\<lparr>runs := runs s @ [?row]\<rparr>) = (Inr ev, s')" "getRun (r_id run) s' = Inr stored"
      "v = \<lparr>acc_run = stored, acc_created = True\<rparr>"
    using assms by (auto simp: insert_run_def Let_def split: if_splits)
  then show "acc_created v" "getRun (r_id run) s' = Inr (acc_run v)" "r_id run \<notin> rr_id ` set (runs s)"
    by (auto simp: run_conflict_def list_ex_iff)
  show "tally s' = (map rr_id (runs s) @ [r_id run], endings s)"
    using keeps_tallyD [OF keeps_insert steps(2)] by (simp add: tally_def endings_def)
qed

lemma getRun_id: "store_inv s \<Longrightarrow> getRun i s = Inr run \<Longrightarrow> r_id run = i \<and> i \<noteq> []"
  by (erule (1) getRun_row) (auto simp: readRun_Inr run_record_ok_def nonempty_id_def)

lemma accept_tally:
  assumes inv: "store_inv s" and eq: "acceptRun digest uuid now sid input key s = (Inr v, s')"
  shows "acc_created v \<Longrightarrow> r_id (acc_run v) = uuid \<and> uuid \<noteq> [] \<and> uuid \<notin> rr_id ` set (runs s) \<and>
      tally s' = (map rr_id (runs s) @ [uuid], endings s)"
    and "\<not> acc_created v \<Longrightarrow> s' = s"
proof -
  have "store_inv s'"
    using store_moves_inv [OF acceptRun_moves [OF inv, of digest uuid now sid input key] inv] eq by simp
  have "s' = s \<and> \<not> acc_created v \<or> (\<exists>session key'. accept_new digest uuid now session sid input key' s = (Inr v, s'))"
  proof (cases key)
    case None
    with eq show ?thesis by (auto simp: acceptRun_def)
  next
    case (Some k)
    with eq show ?thesis
      by (cases "find (\<lambda>r. rr_session r = sid \<and> rr_key r = Some k) (runs s)")
        (auto simp: acceptRun_def split: if_splits)
  qed
  then consider "s' = s" "\<not> acc_created v"
    | session key' g where "insert_run digest now (new_run uuid now sid session input g) key' s = (Inr v, s')"
    by (auto simp: accept_new_def Let_def split: if_splits)
  then have "acc_created v \<and> r_id (acc_run v) = uuid \<and> uuid \<noteq> [] \<and> uuid \<notin> rr_id ` set (runs s) \<and>
      tally s' = (map rr_id (runs s) @ [uuid], endings s) \<or> \<not> acc_created v \<and> s' = s"
  proof cases
    case 2
    from insert_run_tally [OF this] getRun_id [OF \<open>store_inv s'\<close>] show ?thesis
      by (auto simp: new_run_def)
  qed simp
  then show "acc_created v \<Longrightarrow> r_id (acc_run v) = uuid \<and> uuid \<noteq> [] \<and> uuid \<notin> rr_id ` set (runs s) \<and>
      tally s' = (map rr_id (runs s) @ [uuid], endings s)" and "\<not> acc_created v \<Longrightarrow> s' = s" by auto
qed

text \<open>A key that a Run of the session has does not bring another Run.\<close>

lemma known_key:
  assumes "findRunByKey sid k s = Inr (Some run)" "acceptRun digest uuid now sid input (Some k) s = (r, s')"
  shows "s' = s"
  using assms by (auto simp: findRunByKey_def acceptRun_def transaction_def and_then_def reading_def throw_def give_def
      split: option.splits sum.splits if_splits prod.splits)

lemma accept_failed: "acceptRun digest uuid now sid input key s = (Inl e, s') \<Longrightarrow> s' = s"
  by (rule failed_same [OF acceptRun_def])

end
