(* ===== verification/RuntimeMoves.thy ===== *)
theory RuntimeMoves
  imports RuntimeService RunStoreTally
begin

text \<open>
  The elementary changes every step of the runtime is made of, and the invariant they keep: what is at work
  stays within the limits, no Run that has not ended is lost while the runtime is ready, the Runs of a
  session are taken in the order they were accepted, and one asked to stop does not end completed.
\<close>

section \<open>The invariant\<close>

definition ended :: "jstring \<Rightarrow> store \<Rightarrow> bool" where
  "ended i s \<longleftrightarrow> i \<in> fst ` set (endings s)"

definition completed :: "jstring \<Rightarrow> store \<Rightarrow> bool" where
  "completed i s \<longleftrightarrow> (i, terminalEvent Completed) \<in> set (endings s)"

definition run_ids :: "store \<Rightarrow> jstring set" where
  "run_ids s = rr_id ` set (runs s)"

text \<open>Of two Runs of a session, the first was accepted before the second.\<close>

definition precedes :: "store \<Rightarrow> jstring \<Rightarrow> jstring \<Rightarrow> bool" where
  "precedes s i j \<longleftrightarrow>
     (\<forall>r r'. find_run i s = Some r \<longrightarrow> find_run j s = Some r' \<longrightarrow> rr_session r = rr_session r' \<longrightarrow>
        rr_generation r < rr_generation r')"

text \<open>Each Run at work was started while fewer of its engine were at work than its revision allows.\<close>

fun within_limits :: "active_run list \<Rightarrow> active_run list \<Rightarrow> bool" where
  "within_limits before [] = True"
| "within_limits before (a # as) =
     (int (engine_count (ac_profile a) before) < ep_maxConcurrency (ac_profile a) \<and> within_limits (before @ [a]) as)"

definition active_ok :: "store \<Rightarrow> active_run \<Rightarrow> bool" where
  "active_ok s a \<longleftrightarrow>
     (\<forall>failed. ac_place a = LastModels failed None \<longrightarrow> ended (ac_id a) s) \<and>
     (ac_stop a \<noteq> None \<longrightarrow> \<not> completed (ac_id a) s)"

definition kept :: "jstring \<Rightarrow> runtime \<Rightarrow> bool" where
  "kept i rt \<longleftrightarrow>
     ended i (rt_store rt) \<or> i \<in> set (rt_queue rt) \<or> i \<in> ac_id ` set (rt_active rt) \<or> i \<in> set (rt_deadlines rt)"

definition rt_inv :: "config \<Rightarrow> runtime \<Rightarrow> bool" where
  "rt_inv c rt \<longleftrightarrow>
     store_inv (rt_store rt) \<and>
     length (rt_active rt) \<le> co_maxConcurrency c \<and> length (rt_queue rt) \<le> co_maxQueuedRuns c \<and>
     within_limits [] (rt_active rt) \<and> distinct (map ac_sid (rt_active rt)) \<and>
     distinct (rt_queue rt @ map ac_id (rt_active rt)) \<and>
     set (rt_queue rt) \<union> ac_id ` set (rt_active rt) \<subseteq> run_ids (rt_store rt) \<and> [] \<notin> set (rt_queue rt) \<and>
     sorted_wrt (precedes (rt_store rt)) (rt_queue rt) \<and>
     (\<forall>a \<in> set (rt_active rt). \<forall>j \<in> set (rt_queue rt). precedes (rt_store rt) (ac_id a) j) \<and>
     (\<forall>a \<in> set (rt_active rt). active_ok (rt_store rt) a) \<and>
     (isReady rt \<longrightarrow> (\<forall>i \<in> set (rt_queue rt). ended i (rt_store rt) \<or> i \<in> set (rt_deadlines rt))) \<and>
     (isReady rt \<longrightarrow> (\<forall>i \<in> run_ids (rt_store rt). kept i rt))"

section \<open>The moves\<close>

text \<open>\<open>a\<close> is what a Run at work may become.\<close>

definition follows :: "active_run \<Rightarrow> active_run \<Rightarrow> bool" where
  "follows a b \<longleftrightarrow>
     ac_run a = ac_run b \<and> ac_profile a = ac_profile b \<and> (ac_stop b \<noteq> None \<longrightarrow> ac_stop a = ac_stop b)"

inductive calm_move :: "config \<Rightarrow> runtime \<Rightarrow> runtime \<Rightarrow> bool" for c where
  storing:
    "store_moves (rt_store rt) s \<Longrightarrow> tally s = tally (rt_store rt) \<Longrightarrow> calm_move c rt (rt\<lparr>rt_store := s\<rparr>)"
| ending:
    "store_moves (rt_store rt) s \<Longrightarrow> fst (tally s) = fst (tally (rt_store rt)) \<Longrightarrow>
     endings s = endings (rt_store rt) @ [(i, terminalEvent t)] \<Longrightarrow>
     t \<noteq> Completed \<or> (\<exists>a \<in> set (rt_active rt). ac_id a = i \<and> ac_stop a = None) \<Longrightarrow>
     calm_move c rt (rt\<lparr>rt_store := s\<rparr>)"
| changing:
    "b \<in> set (rt_active rt) \<Longrightarrow> follows a b \<Longrightarrow> active_ok (rt_store rt) a \<Longrightarrow> calm_move c rt (set_active a rt)"
| aside:
    "rt_store rt' = rt_store rt \<Longrightarrow> rt_active rt' = rt_active rt \<Longrightarrow> rt_queue rt' = rt_queue rt \<Longrightarrow>
     rt_deadlines rt' = rt_deadlines rt \<Longrightarrow> (isReady rt' \<Longrightarrow> isReady rt) \<Longrightarrow> calm_move c rt rt'"
| dropping:
    "rt_queue rt = p @ i # q \<Longrightarrow> (isReady rt \<Longrightarrow> ended i (rt_store rt) \<or> i \<in> set (rt_deadlines rt)) \<Longrightarrow>
     calm_move c rt (rt\<lparr>rt_queue := p @ q\<rparr>)"
| disarming:
    "(isReady rt \<Longrightarrow> ended i (rt_store rt) \<or> i \<in> ac_id ` set (rt_active rt)) \<Longrightarrow>
     calm_move c rt (clear_deadline i rt)"
| silencing:
    "\<not> isReady rt \<Longrightarrow> calm_move c rt (rt\<lparr>rt_deadlines := ds\<rparr>)"
| starting:
    "rt_queue rt = p @ i # q \<Longrightarrow> ac_id a = i \<Longrightarrow> ac_stop a = None \<Longrightarrow> ac_place a = Inspecting \<Longrightarrow>
     length (rt_active rt) < co_maxConcurrency c \<Longrightarrow> ac_sid a \<notin> ac_sid ` set (rt_active rt) \<Longrightarrow>
     int (engine_count (ac_profile a) (rt_active rt)) < ep_maxConcurrency (ac_profile a) \<Longrightarrow>
     (\<And>j. j \<in> set p \<Longrightarrow> precedes (rt_store rt) i j) \<Longrightarrow>
     calm_move c rt (rt\<lparr>rt_queue := p @ q, rt_active := rt_active rt @ [a]\<rparr>)"

inductive rt_move :: "config \<Rightarrow> runtime \<Rightarrow> runtime \<Rightarrow> bool" for c where
  calm: "calm_move c rt rt' \<Longrightarrow> rt_move c rt rt'"
| accepting:
    "store_moves (rt_store rt) s \<Longrightarrow> tally s = (map rr_id (runs (rt_store rt)) @ [i], endings (rt_store rt)) \<Longrightarrow>
     i \<notin> run_ids (rt_store rt) \<Longrightarrow> i \<noteq> [] \<Longrightarrow> length (rt_queue rt) < co_maxQueuedRuns c \<Longrightarrow>
     rt_move c rt (rt\<lparr>rt_store := s, rt_queue := rt_queue rt @ [i], rt_deadlines := rt_deadlines rt @ [i]\<rparr>)"
| leaving:
    "a \<in> set (rt_active rt) \<Longrightarrow> (isReady rt \<Longrightarrow> ended (ac_id a) (rt_store rt)) \<Longrightarrow>
     rt_move c rt (rt\<lparr>rt_active := filter (\<lambda>b. ac_sid b \<noteq> ac_sid a) (rt_active rt)\<rparr>)"
| restarting:
    "store_moves (rt_store rt) (rt_store rt') \<Longrightarrow> fst (tally (rt_store rt')) = fst (tally (rt_store rt)) \<Longrightarrow>
     endings (rt_store rt') = endings (rt_store rt) @ map (\<lambda>i. (i, terminalEvent Interrupted)) gone \<Longrightarrow>
     (isReady rt' \<Longrightarrow> \<forall>i \<in> run_ids (rt_store rt'). ended i (rt_store rt')) \<Longrightarrow>
     rt_active rt' = [] \<Longrightarrow> rt_queue rt' = [] \<Longrightarrow> rt_move c rt rt'"

section \<open>They keep the invariant\<close>

lemma run_ids_find: "i \<in> run_ids s \<longleftrightarrow> (\<exists>r. find_run i s = Some r)"
proof
  assume "i \<in> run_ids s"
  then have "find_run i s \<noteq> None" by (auto simp: run_ids_def find_None_iff)
  then show "\<exists>r. find_run i s = Some r" by blast
qed (auto simp: run_ids_def dest: find_Some_set)

lemma run_ids_tally: "run_ids s = set (fst (tally s))"
  by (simp add: run_ids_def tally_def)

lemma ended_tally: "ended i s \<longleftrightarrow> i \<in> fst ` set (snd (tally s))"
  by (simp add: ended_def tally_def)

lemma completed_tally: "completed i s \<longleftrightarrow> (i, terminalEvent Completed) \<in> set (snd (tally s))"
  by (simp add: completed_def tally_def)

lemma moves_later:
  assumes "store_moves s s'" "store_inv s"
  shows "runs_later s s'" "sessions_later s s'" "store_inv s'"
proof -
  have "store_inv s' \<and> runs_later s s' \<and> sessions_later s s'"
    using assms
  proof (induction rule: rtranclp_induct)
    case base
    then show ?case by simp
  next
    case (step t u)
    then show ?case
      using store_move_later [of t u] by (blast intro: runs_later_trans sessions_later_trans store_move_inv)
  qed
  then show "runs_later s s'" "sessions_later s s'" "store_inv s'" by auto
qed

lemma precedes_later:
  assumes "runs_later s s'" "i \<in> run_ids s" "j \<in> run_ids s" "precedes s i j"
  shows "precedes s' i j"
proof -
  obtain r q where rows: "find_run i s = Some r" "find_run j s = Some q" using assms(2,3) run_ids_find by metis
  obtain r' q' where "find_run i s' = Some r'" "run_later r r'" "find_run j s' = Some q'" "run_later q q'"
    using runs_laterD(1) [OF assms(1)] rows by meson
  with assms(4) rows show ?thesis by (auto simp: precedes_def run_later_def)
qed

lemma precedes_new:
  assumes inv: "store_inv s" and ids: "map rr_id (runs s) = is @ [i]" and j: "j \<in> set is"
  shows "precedes s j i"
  unfolding precedes_def
proof (intro allI impI)
  fix r q
  assume rows: "find_run j s = Some r" "find_run i s = Some q" and same: "rr_session r = rr_session q"
  obtain rs row where runs: "runs s = rs @ [row]" "map rr_id rs = is" "rr_id row = i"
    using ids by (cases "runs s" rule: rev_cases) auto
  have dist: "distinct (map rr_id (runs s))" using inv by (simp add: store_inv_def)
  have "q = row" "r \<in> set rs"
    using rows dist find_Some_set [OF rows(1)] find_Some_set [OF rows(2)] j unfolding runs(1) runs(2) [symmetric]
    by (auto simp: runs(3))
  let ?f = "filter (\<lambda>x. rr_session x = rr_session row)"
  have "map rr_generation (?f rs) @ [rr_generation row] = map int [1..<Suc (length (?f rs) + 1)]"
  proof -
    from inv have "map rr_generation (?f (runs s)) = map int [1..<Suc (length (?f (runs s)))]"
      by (simp add: store_inv_def generations_ok_def Let_def del: upt_Suc)
    then show ?thesis by (simp add: runs(1) del: upt_Suc)
  qed
  then have gens: "map rr_generation (?f rs) = map int [1..<Suc (length (?f rs))]"
    "rr_generation row = int (Suc (length (?f rs)))" by auto
  have "rr_generation r \<in> set (map rr_generation (?f rs))"
    using \<open>r \<in> set rs\<close> same \<open>q = row\<close> by auto
  then show "rr_generation r < rr_generation q" using gens \<open>q = row\<close> by auto
qed

lemma engine_count_simps [simp]:
  "engine_count p [] = 0" "engine_count p (as @ bs) = engine_count p as + engine_count p bs"
  "engine_count p (a # as) = (if ep_id (ac_profile a) = ep_id p then 1 else 0) + engine_count p as"
  by (simp_all add: engine_count_def)

lemma within_limits_snoc [simp]:
  "within_limits before (as @ [a]) \<longleftrightarrow>
     within_limits before as \<and> int (engine_count (ac_profile a) (before @ as)) < ep_maxConcurrency (ac_profile a)"
  by (induction as arbitrary: before) auto

lemma within_limits_less:
  "within_limits before as \<Longrightarrow> (\<And>p. engine_count p before' \<le> engine_count p before) \<Longrightarrow> within_limits before' (filter P as)"
proof (induction as arbitrary: before before')
  case Nil
  then show ?case by simp
next
  case (Cons a as)
  have "int (engine_count (ac_profile a) before') < ep_maxConcurrency (ac_profile a)"
    using Cons.prems(1) Cons.prems(2) [of "ac_profile a"] by simp
  moreover have "within_limits (before' @ [a]) (filter P as)" "within_limits before' (filter P as)"
    using Cons.prems by (auto intro!: Cons.IH [of "before @ [a]"] simp: le_Suc_eq intro: le_SucI)
  ultimately show ?case by simp
qed

lemma engine_count_map: "(\<And>a. ac_profile (f a) = ac_profile a) \<Longrightarrow> engine_count p (map f as) = engine_count p as"
  by (induction as) auto

lemma within_limits_map:
  assumes "\<And>a. a \<in> set (before @ as) \<Longrightarrow> ac_profile (f a) = ac_profile a"
  shows "within_limits (map f before) (map f as) = within_limits before as"
  using assms
proof (induction as arbitrary: before)
  case (Cons a as)
  have "engine_count p (map f before) = engine_count p before" for p
    using Cons.prems by (induction before) auto
  with Cons.IH [of "before @ [a]"] Cons.prems show ?case by auto
qed simp

section \<open>What becomes of the Runs at work\<close>

lemma follows_same: "follows a b \<Longrightarrow> ac_id a = ac_id b \<and> ac_sid a = ac_sid b \<and> ac_profile a = ac_profile b"
  by (simp add: follows_def ac_id_def ac_sid_def)

lemma follows_trans: "follows a b \<Longrightarrow> follows b d \<Longrightarrow> follows a d"
  by (auto simp: follows_def)

lemma set_active_map:
  assumes "distinct (map ac_sid (rt_active rt))" "b \<in> set (rt_active rt)" "follows a b"
  shows "set_active a rt = rt\<lparr>rt_active := map (\<lambda>x. if x = b then a else x) (rt_active rt)\<rparr>"
proof -
  have "ac_sid x = ac_sid a \<longleftrightarrow> x = b" if "x \<in> set (rt_active rt)" for x
    using assms that by (auto simp: follows_same distinct_map dest: inj_onD)
  then show ?thesis by (simp add: set_active_def)
qed

lemma changed_maps:
  assumes "follows a b"
  shows "map ac_sid (map (\<lambda>x. if x = b then a else x) as) = map ac_sid as"
    "map ac_id (map (\<lambda>x. if x = b then a else x) as) = map ac_id as"
    "within_limits [] (map (\<lambda>x. if x = b then a else x) as) = within_limits [] as"
  using follows_same [OF assms] within_limits_map [of "[]" as "\<lambda>x. if x = b then a else x"] by auto

section \<open>Every move keeps the invariant\<close>

declare terminalEvent.simps [simp del]

lemma rt_invD:
  assumes "rt_inv c rt"
  shows "store_inv (rt_store rt)" "length (rt_active rt) \<le> co_maxConcurrency c" "length (rt_queue rt) \<le> co_maxQueuedRuns c"
    "within_limits [] (rt_active rt)" "distinct (map ac_sid (rt_active rt))" "distinct (rt_queue rt @ map ac_id (rt_active rt))"
    "set (rt_queue rt) \<union> ac_id ` set (rt_active rt) \<subseteq> run_ids (rt_store rt)" "[] \<notin> set (rt_queue rt)"
    "sorted_wrt (precedes (rt_store rt)) (rt_queue rt)"
    "\<forall>a \<in> set (rt_active rt). \<forall>j \<in> set (rt_queue rt). precedes (rt_store rt) (ac_id a) j"
    "\<forall>a \<in> set (rt_active rt). active_ok (rt_store rt) a"
    "isReady rt \<Longrightarrow> j \<in> set (rt_queue rt) \<Longrightarrow> ended j (rt_store rt) \<or> j \<in> set (rt_deadlines rt)"
    "isReady rt \<Longrightarrow> i \<in> run_ids (rt_store rt) \<Longrightarrow> kept i rt"
  using assms by (simp_all add: rt_inv_def)

lemma isReady_fields [simp]:
  "isReady (rt\<lparr>rt_store := s\<rparr>) = isReady rt" "isReady (rt\<lparr>rt_queue := q\<rparr>) = isReady rt"
  "isReady (rt\<lparr>rt_active := as\<rparr>) = isReady rt" "isReady (rt\<lparr>rt_deadlines := ds\<rparr>) = isReady rt"
  "isReady (rt\<lparr>rt_installations := m\<rparr>) = isReady rt" "isReady (set_active a rt) = isReady rt"
  "isReady (clear_deadline i rt) = isReady rt" "\<not> isReady (rt\<lparr>rt_failed := True\<rparr>)" "\<not> isReady (rt\<lparr>rt_closed := True\<rparr>)"
  by (simp_all add: isReady_def set_active_def clear_deadline_def)

lemma inv_store:
  assumes inv: "rt_inv c rt" and moves: "store_moves (rt_store rt) s"
    and ids: "fst (tally s) = fst (tally (rt_store rt))" and more: "endings s = endings (rt_store rt) @ es"
    and cond: "\<And>a. a \<in> set (rt_active rt) \<Longrightarrow> ac_stop a \<noteq> None \<Longrightarrow> (ac_id a, terminalEvent Completed) \<notin> set es"
  shows "rt_inv c (rt\<lparr>rt_store := s\<rparr>)"
proof -
  note d = rt_invD [OF inv]
  note later = moves_later [OF moves d(1)]
  have same: "run_ids s = run_ids (rt_store rt)" using ids by (simp add: run_ids_tally)
  have prec: "precedes s i j" if "precedes (rt_store rt) i j" "i \<in> run_ids s" "j \<in> run_ids s" for i j
    using precedes_later [OF later(1)] that same by blast
  have "sorted_wrt (precedes s) (rt_queue rt)"
    using sorted_wrt_mono_rel [OF _ d(9), of "precedes s"] prec d(7) same by blast
  moreover have "\<forall>a \<in> set (rt_active rt). \<forall>j \<in> set (rt_queue rt). precedes s (ac_id a) j"
    using d(7,10) prec same by blast
  moreover have "\<forall>a \<in> set (rt_active rt). active_ok s a"
    using d(11) cond more by (auto simp: active_ok_def ended_def completed_def)
  moreover have "kept i (rt\<lparr>rt_store := s\<rparr>)" if "isReady rt" "i \<in> run_ids s" for i
    using d(13) [OF that(1)] that(2) more same by (auto simp: kept_def ended_def)
  moreover have "ended j s \<or> j \<in> set (rt_deadlines rt)" if "isReady rt" "j \<in> set (rt_queue rt)" for j
    using d(12) [OF that] more by (auto simp: ended_def)
  ultimately show ?thesis
    using later(3) d same by (simp add: rt_inv_def)
qed

lemma inv_changing:
  assumes inv: "rt_inv c rt" and b: "b \<in> set (rt_active rt)" "follows a b" and ok: "active_ok (rt_store rt) a"
  shows "rt_inv c (set_active a rt)"
proof -
  note d = rt_invD [OF inv]
  obtain as where as: "as = map (\<lambda>x. if x = b then a else x) (rt_active rt)" by simp
  have eq: "set_active a rt = rt\<lparr>rt_active := as\<rparr>" unfolding as by (rule set_active_map [OF d(5) b])
  note maps = changed_maps [OF b(2), of "rt_active rt", folded as]
  have ids: "ac_id ` set as = ac_id ` set (rt_active rt)" using arg_cong [OF maps(2), of set] by simp
  have "\<forall>a \<in> set as. \<forall>j \<in> set (rt_queue rt). precedes (rt_store rt) (ac_id a) j"
    using d(10) ids by (metis (no_types, lifting) imageE image_eqI)
  moreover have "\<forall>a \<in> set as. active_ok (rt_store rt) a" using d(11) ok by (auto simp: as)
  moreover have "kept i (rt\<lparr>rt_active := as\<rparr>) = kept i rt" for i
    using ids by (simp add: kept_def)
  moreover have "length as = length (rt_active rt)" by (simp add: as)
  ultimately show ?thesis
    using d maps ids unfolding eq rt_inv_def by simp
qed

lemma inv_aside:
  assumes "rt_inv c rt" "rt_store rt' = rt_store rt" "rt_active rt' = rt_active rt" "rt_queue rt' = rt_queue rt"
    "rt_deadlines rt' = rt_deadlines rt" "isReady rt' \<Longrightarrow> isReady rt"
  shows "rt_inv c rt'"
  using assms by (auto simp: rt_inv_def kept_def)

lemma inv_dropping:
  assumes inv: "rt_inv c rt" and q: "rt_queue rt = p @ i # q"
    and cond: "isReady rt \<Longrightarrow> ended i (rt_store rt) \<or> i \<in> set (rt_deadlines rt)"
  shows "rt_inv c (rt\<lparr>rt_queue := p @ q\<rparr>)"
proof -
  note d = rt_invD [OF inv]
  have "kept j (rt\<lparr>rt_queue := p @ q\<rparr>)" if "isReady rt" "j \<in> run_ids (rt_store rt)" for j
    using d(13) [OF that] cond [OF that(1)] by (auto simp: kept_def q)
  then show ?thesis using d by (auto simp: rt_inv_def q sorted_wrt_append)
qed

lemma inv_deadlines:
  assumes inv: "rt_inv c rt"
    and cond: "\<And>i. isReady rt \<Longrightarrow> i \<in> set (rt_deadlines rt) - set ds \<Longrightarrow>
      ended i (rt_store rt) \<or> i \<in> ac_id ` set (rt_active rt)"
  shows "rt_inv c (rt\<lparr>rt_deadlines := ds\<rparr>)"
proof -
  note d = rt_invD [OF inv]
  have "kept j (rt\<lparr>rt_deadlines := ds\<rparr>)" if "isReady rt" "j \<in> run_ids (rt_store rt)" for j
    using d(13) [OF that] cond [OF that(1)] by (auto simp: kept_def)
  moreover have "ended j (rt_store rt) \<or> j \<in> set ds" if "isReady rt" "j \<in> set (rt_queue rt)" for j
    using d(12) [OF that] cond [OF that(1)] that(2) d(6) by auto
  ultimately show ?thesis using d by (simp add: rt_inv_def)
qed

lemma inv_starting:
  assumes inv: "rt_inv c rt" and q: "rt_queue rt = p @ i # q" and a: "ac_id a = i" "ac_stop a = None" "ac_place a = Inspecting"
    and room: "length (rt_active rt) < co_maxConcurrency c" "ac_sid a \<notin> ac_sid ` set (rt_active rt)"
      "int (engine_count (ac_profile a) (rt_active rt)) < ep_maxConcurrency (ac_profile a)"
    and first: "\<And>j. j \<in> set p \<Longrightarrow> precedes (rt_store rt) i j"
  shows "rt_inv c (rt\<lparr>rt_queue := p @ q, rt_active := rt_active rt @ [a]\<rparr>)"
proof -
  note d = rt_invD [OF inv]
  have "kept j (rt\<lparr>rt_queue := p @ q, rt_active := rt_active rt @ [a]\<rparr>)" if "isReady rt" "j \<in> run_ids (rt_store rt)" for j
    using d(13) [OF that] a by (auto simp: kept_def q)
  moreover have "active_ok (rt_store rt) a" using a by (simp add: active_ok_def)
  ultimately show ?thesis using d a room first by (auto simp: rt_inv_def q sorted_wrt_append)
qed

lemma inv_accepting:
  assumes inv: "rt_inv c rt" and moves: "store_moves (rt_store rt) s"
    and tally: "tally s = (map rr_id (runs (rt_store rt)) @ [i], endings (rt_store rt))"
    and fresh: "i \<notin> run_ids (rt_store rt)" "i \<noteq> []" and room: "length (rt_queue rt) < co_maxQueuedRuns c"
  shows "rt_inv c (rt\<lparr>rt_store := s, rt_queue := rt_queue rt @ [i], rt_deadlines := rt_deadlines rt @ [i]\<rparr>)"
    (is "rt_inv c ?rt")
proof -
  note d = rt_invD [OF inv]
  note later = moves_later [OF moves d(1)]
  have ids: "run_ids s = insert i (run_ids (rt_store rt))" "map rr_id (runs s) = map rr_id (runs (rt_store rt)) @ [i]"
    using tally by (simp_all add: run_ids_tally) (simp_all add: tally_def)
  have ends: "ended j s = ended j (rt_store rt)" "completed j s = completed j (rt_store rt)" for j
    using tally by (simp_all add: tally_def ended_def completed_def)
  have old: "precedes s j k" if "precedes (rt_store rt) j k" "j \<in> run_ids (rt_store rt)" "k \<in> run_ids (rt_store rt)" for j k
    using precedes_later [OF later(1)] that by blast
  have new: "precedes s j i" if "j \<in> run_ids (rt_store rt)" for j
    using precedes_new [OF later(3) ids(2)] that by (simp add: run_ids_def)
  have "sorted_wrt (precedes s) (rt_queue rt)"
    using sorted_wrt_mono_rel [OF _ d(9), of "precedes s"] old d(7) by blast
  then have "sorted_wrt (precedes s) (rt_queue rt @ [i])"
    using new d(7) by (auto simp: sorted_wrt_append)
  moreover have "precedes s (ac_id a) j" if "a \<in> set (rt_active rt)" "j \<in> set (rt_queue rt @ [i])" for a j
  proof -
    have "ac_id a \<in> run_ids (rt_store rt)" using d(7) that(1) by blast
    with that d(7,10) show ?thesis by (cases "j = i") (auto intro: old new)
  qed
  moreover have "\<forall>a \<in> set (rt_active rt). active_ok s a" using d(11) by (simp add: active_ok_def ends)
  moreover have "kept j ?rt" if "isReady rt" "j \<in> run_ids s" for j
    using d(13) [OF that(1)] that(2) by (auto simp: kept_def ends ids)
  moreover have "isReady rt \<longrightarrow> (\<forall>j \<in> set (rt_queue rt). ended j s \<or> j \<in> set (rt_deadlines rt))"
    using d(12) by (simp add: ends)
  moreover have "isReady ?rt = isReady rt" by (simp add: isReady_def)
  moreover have "i \<notin> set (rt_queue rt)" "i \<notin> ac_id ` set (rt_active rt)" using d(7) fresh by auto
  ultimately show ?thesis
    using later(3) d(1-11) fresh room by (auto simp: rt_inv_def ids)
qed

lemma inv_leaving:
  assumes inv: "rt_inv c rt" and a: "a \<in> set (rt_active rt)" and cond: "isReady rt \<Longrightarrow> ended (ac_id a) (rt_store rt)"
  shows "rt_inv c (rt\<lparr>rt_active := filter (\<lambda>b. ac_sid b \<noteq> ac_sid a) (rt_active rt)\<rparr>)" (is "rt_inv c ?rt")
proof -
  note d = rt_invD [OF inv]
  have only: "b = a" if "b \<in> set (rt_active rt)" "ac_sid b = ac_sid a" for b
    using d(5) a that by (auto simp: distinct_map dest: inj_onD)
  have "kept j ?rt" if "isReady rt" "j \<in> run_ids (rt_store rt)" for j
    using d(13) [OF that] cond [OF that(1)] only by (force simp: kept_def)
  moreover have "within_limits [] (rt_active ?rt)" using within_limits_less [OF d(4), of "[]"] by simp
  moreover have "distinct (map ac_sid (rt_active ?rt))" "distinct (rt_queue rt @ map ac_id (rt_active ?rt))"
    using d(5,6) by (auto simp: distinct_map_filter)
  moreover have "length (rt_active ?rt) \<le> co_maxConcurrency c" using d(2) by (simp add: le_trans [OF length_filter_le])
  ultimately show ?thesis using d by (auto simp: rt_inv_def)
qed

lemma inv_restarting:
  assumes inv: "rt_inv c rt" and moves: "store_moves (rt_store rt) (rt_store rt')"
    and all: "isReady rt' \<Longrightarrow> \<forall>i \<in> run_ids (rt_store rt'). ended i (rt_store rt')"
    and empty: "rt_active rt' = []" "rt_queue rt' = []"
  shows "rt_inv c rt'"
  using moves_later [OF moves rt_invD(1) [OF inv]] all empty by (auto simp: rt_inv_def kept_def)

lemma calm_inv: "calm_move c rt rt' \<Longrightarrow> rt_inv c rt \<Longrightarrow> rt_inv c rt'"
proof (induction rule: calm_move.induct)
  case (storing rt s)
  then show ?case by (intro inv_store [where es = "[]"]) (auto simp: tally_def)
next
  case (ending rt s i t)
  have "t \<noteq> Completed \<or> ac_id a \<noteq> i" if a: "a \<in> set (rt_active rt)" "ac_stop a \<noteq> None" for a
    using ending.hyps(4) a rt_invD(6) [OF ending.prems] by (auto simp: distinct_map dest: inj_onD)
  then show ?case
    by (intro inv_store [OF ending.prems ending.hyps(1,2,3)]) auto
next
  case (changing b rt a)
  then show ?case by (auto intro: inv_changing)
next
  case (aside rt' rt)
  then show ?case by (auto intro: inv_aside)
next
  case (dropping rt p i q)
  then show ?case by (auto intro: inv_dropping)
next
  case (disarming rt i)
  then show ?case
    unfolding clear_deadline_def by (intro inv_deadlines) auto
next
  case (silencing rt ds)
  then show ?case by (auto intro: inv_deadlines)
next
  case (starting rt p i q a)
  then show ?case by (auto intro: inv_starting)
qed

lemma rt_move_inv: "rt_inv c rt \<Longrightarrow> rt_move c rt rt' \<Longrightarrow> rt_inv c rt'"
  by (erule rt_move.cases) (auto intro: calm_inv inv_accepting inv_leaving inv_restarting)

text \<open>A Run that was asked to stop while at work, as long as it is remembered.\<close>

definition stopping_run :: "jstring \<Rightarrow> runtime \<Rightarrow> bool" where
  "stopping_run i rt \<longleftrightarrow>
     i \<in> run_ids (rt_store rt) \<and> i \<notin> set (rt_queue rt) \<and> \<not> completed i (rt_store rt) \<and>
     (\<forall>a \<in> set (rt_active rt). ac_id a = i \<longrightarrow> ac_stop a \<noteq> None)"

lemma calm_stopping: "calm_move c rt rt' \<Longrightarrow> rt_inv c rt \<Longrightarrow> stopping_run i rt \<Longrightarrow> stopping_run i rt'"
proof (induction rule: calm_move.induct)
  case (changing b rt a)
  have "ac_stop a \<noteq> None" if "ac_id a = i"
    using changing that follows_same [OF changing.hyps(2)] by (auto simp: stopping_run_def follows_def)
  then show ?case
    using changing.prems(2) by (auto simp: stopping_run_def set_active_def split: if_splits)
next
  case (ending rt s j t)
  then show ?case
    by (auto simp: stopping_run_def completed_def run_ids_tally)
qed (auto simp: stopping_run_def completed_tally run_ids_tally clear_deadline_def)

lemma rt_move_stopping:
  assumes "rt_inv c rt" "stopping_run i rt"
  shows "rt_move c rt rt' \<Longrightarrow> stopping_run i rt'"
proof (induction rule: rt_move.cases)
  case (calm rt rt')
  then show ?case using assms calm_stopping by blast
next
  case (accepting rt s j)
  have "run_ids s = insert j (run_ids (rt_store rt))" "endings s = endings (rt_store rt)"
    using \<open>tally s = _\<close> by (simp_all add: run_ids_tally) (simp_all add: tally_def)
  with accepting assms show ?case by (auto simp: stopping_run_def completed_def)
next
  case (restarting rt rt' gone)
  then show ?case using assms by (auto simp: stopping_run_def completed_def run_ids_tally)
qed (use assms in \<open>auto simp: stopping_run_def completed_tally run_ids_tally\<close>)

end
