(* ===== verification/RuntimeSteps.thy ===== *)
theory RuntimeSteps
  imports RuntimeMoves
begin

text \<open>
  Every step of the runtime is a sequence of the moves of RuntimeMoves; and after it, while the runtime is
  ready, no Run waits that could start.
\<close>

section \<open>Sequences of moves\<close>

definition calmly :: "config \<Rightarrow> runtime \<Rightarrow> runtime \<Rightarrow> bool" where
  "calmly c rt rt' \<longleftrightarrow> (rt_inv c rt \<longrightarrow> (calm_move c)\<^sup>*\<^sup>* rt rt')"

lemma calm_moves_inv: "(calm_move c)\<^sup>*\<^sup>* rt rt' \<Longrightarrow> rt_inv c rt \<Longrightarrow> rt_inv c rt'"
  by (induction rule: rtranclp_induct) (auto intro: calm_inv)

lemma calmly_refl [simp, intro]: "calmly c rt rt"
  by (simp add: calmly_def)

lemma calmly_trans [trans]: "calmly c rt u \<Longrightarrow> calmly c u v \<Longrightarrow> calmly c rt v"
  by (auto simp: calmly_def intro: calm_moves_inv)

lemma calmly_move: "(rt_inv c rt \<Longrightarrow> calm_move c rt rt') \<Longrightarrow> calmly c rt rt'"
  by (auto simp: calmly_def)

lemma calmly_inv: "calmly c rt rt' \<Longrightarrow> rt_inv c rt \<Longrightarrow> rt_inv c rt'"
  by (auto simp: calmly_def intro: calm_moves_inv)

lemma calmly_if: "(rt_inv c rt \<Longrightarrow> calmly c rt rt') \<Longrightarrow> calmly c rt rt'"
  by (auto simp: calmly_def)

definition failing :: "runtime \<Rightarrow> runtime" where
  "failing rt = rt\<lparr>rt_failed := True\<rparr>"

lemma failing_fields [simp]:
  "rt_store (failing rt) = rt_store rt" "rt_active (failing rt) = rt_active rt" "rt_queue (failing rt) = rt_queue rt"
  "rt_deadlines (failing rt) = rt_deadlines rt" "\<not> isReady (failing rt)" "rt_installations (failing rt) = rt_installations rt"
  "active_of sid (failing rt) = active_of sid rt"
  by (simp_all add: failing_def isReady_def active_of_def)

lemma calmly_aside:
  "rt_store rt' = rt_store rt \<Longrightarrow> rt_active rt' = rt_active rt \<Longrightarrow> rt_queue rt' = rt_queue rt \<Longrightarrow>
   rt_deadlines rt' = rt_deadlines rt \<Longrightarrow> (isReady rt' \<Longrightarrow> isReady rt) \<Longrightarrow> calmly c rt rt'"
  by (intro calmly_move aside) auto

lemma calmly_failing: "calmly c rt (failing rt)"
  by (rule calmly_aside) simp_all

section \<open>Waiting Runs\<close>

text \<open>Nothing but the pump itself keeps a Run from starting.\<close>

definition could_start :: "config \<Rightarrow> runtime \<Rightarrow> jstring \<Rightarrow> bool" where
  "could_start c rt i \<longleftrightarrow>
     (\<exists>row srow profile.
        find_run i (rt_store rt) = Some row \<and> find_session (rr_session row) (rt_store rt) = Some srow \<and>
        s_status (sr_record srow) = SessionOpen \<and>
        co_profile c (s_engineId (sr_record srow)) (s_profileRevision (sr_record srow)) = Some profile \<and>
        rr_session row \<notin> ac_sid ` set (rt_active rt) \<and>
        int (engine_count profile (rt_active rt)) < ep_maxConcurrency profile \<and>
        length (rt_active rt) < co_maxConcurrency c)"

definition waits_rightly :: "config \<Rightarrow> runtime \<Rightarrow> bool" where
  "waits_rightly c rt \<longleftrightarrow> (isReady rt \<longrightarrow> (\<forall>i \<in> set (rt_queue rt). \<not> could_start c rt i))"

lemma could_start_store:
  assumes inv: "rt_inv c rt" and moves: "store_moves (rt_store rt) s" and ids: "fst (tally s) = fst (tally (rt_store rt))"
    and start: "could_start c (rt\<lparr>rt_store := s\<rparr>) i"
  shows "could_start c rt i"
proof -
  note store = rt_invD(1) [OF inv]
  note later = moves_later [OF moves store]
  from start obtain row srow profile where *: "find_run i s = Some row" "find_session (rr_session row) s = Some srow"
      "s_status (sr_record srow) = SessionOpen"
      "co_profile c (s_engineId (sr_record srow)) (s_profileRevision (sr_record srow)) = Some profile"
    and rest: "rr_session row \<notin> ac_sid ` set (rt_active rt)"
      "int (engine_count profile (rt_active rt)) < ep_maxConcurrency profile" "length (rt_active rt) < co_maxConcurrency c"
    by (auto simp: could_start_def)
  have "i \<in> run_ids (rt_store rt)" using *(1) ids run_ids_find run_ids_tally by metis
  then obtain row0 where row0: "find_run i (rt_store rt) = Some row0" using run_ids_find by blast
  then have same: "rr_session row0 = rr_session row"
    using runs_laterD(1) [OF later(1) row0] *(1) by (auto simp: run_later_def)
  have "rr_session row0 \<in> sr_id ` set (sessions (rt_store rt))"
    using inv_run [OF store] find_Some_set [OF row0] by (auto simp: run_row_ok_def)
  then have "find_session (rr_session row0) (rt_store rt) \<noteq> None" by (auto simp: find_None_iff)
  then obtain srow0 where srow0: "find_session (rr_session row) (rt_store rt) = Some srow0" using same by auto
  then have "session_grows (sr_record srow0) (sr_record srow)"
    using later(2) *(2) unfolding sessions_later_def by fastforce
  then have "s_status (sr_record srow0) = SessionOpen" "s_engineId (sr_record srow0) = s_engineId (sr_record srow)"
    "s_profileRevision (sr_record srow0) = s_profileRevision (sr_record srow)"
    using *(3) by (cases "s_status (sr_record srow0)"; simp add: session_grows_def)+
  with row0 srow0 same * rest show ?thesis unfolding could_start_def by auto
qed

lemma set_active_same:
  assumes "distinct (map ac_sid (rt_active rt))" "b \<in> set (rt_active rt)" "follows a b"
  shows "map ac_sid (rt_active (set_active a rt)) = map ac_sid (rt_active rt)"
    "map ac_id (rt_active (set_active a rt)) = map ac_id (rt_active rt)"
    "engine_count p (rt_active (set_active a rt)) = engine_count p (rt_active rt)"
    "rt_store (set_active a rt) = rt_store rt" "rt_queue (set_active a rt) = rt_queue rt"
proof -
  note eq = set_active_map [OF assms]
  note maps = changed_maps [OF assms(3), of "rt_active rt"]
  show "map ac_sid (rt_active (set_active a rt)) = map ac_sid (rt_active rt)"
    "map ac_id (rt_active (set_active a rt)) = map ac_id (rt_active rt)"
    using maps by (simp_all add: eq)
  show "engine_count p (rt_active (set_active a rt)) = engine_count p (rt_active rt)"
    using engine_count_map [of "\<lambda>x. if x = b then a else x"] follows_same [OF assms(3)] by (simp add: eq)
qed (simp_all add: set_active_def)

lemma calm_could_start: "calm_move c rt rt' \<Longrightarrow> rt_inv c rt \<Longrightarrow> could_start c rt' i \<Longrightarrow> could_start c rt i"
proof (induction rule: calm_move.induct)
  case (storing rt s)
  then show ?case by (auto intro: could_start_store)
next
  case (ending rt s j t)
  then show ?case by (auto intro: could_start_store)
next
  case (changing b rt a)
  note same = set_active_same [OF rt_invD(5) [OF changing.prems(1)] changing.hyps(1,2)]
  have "ac_sid ` set (rt_active (set_active a rt)) = ac_sid ` set (rt_active rt)"
    using arg_cong [OF same(1), of set] by (simp only: list.set_map)
  moreover have "length (rt_active (set_active a rt)) = length (rt_active rt)" by (simp add: set_active_def)
  ultimately show ?case using changing.prems(2) by (simp add: could_start_def same)
next
  case (aside rt' rt)
  then show ?case by (simp add: could_start_def)
next
  case (starting rt p j q a)
  then show ?case by (force simp: could_start_def)
qed (simp_all add: could_start_def clear_deadline_def)

lemma calmly_could_start:
  assumes "calmly c rt rt'" "rt_inv c rt" "could_start c rt' i"
  shows "could_start c rt i"
proof -
  have "(calm_move c)\<^sup>*\<^sup>* rt rt'" using assms by (simp add: calmly_def)
  then have "rt_inv c rt \<Longrightarrow> could_start c rt' i \<Longrightarrow> could_start c rt i"
    by (induction rule: rtranclp_induct) (auto intro: calm_could_start calm_moves_inv)
  then show ?thesis using assms by blast
qed

section \<open>Operations of the store\<close>

definition storing_op :: "'a operation \<Rightarrow> bool" where
  "storing_op f \<longleftrightarrow> keeps_tally f \<and> (\<forall>s. store_inv s \<longrightarrow> store_moves s (snd (f s)))"

lemma storing_ops:
  "storing_op (createSession digest uuid now engine ws routing)" "storing_op (setSessionStatus now i sst)"
  "storing_op (setRunStatus now i rst)" "storing_op (appendEvent now i draft)" "storing_op (bindBackendSession now i b draft)"
  "storing_op (createPermission now p)" "storing_op (decidePermission now i opt)" "storing_op (markPermissionApplied now i)"
  "storing_op (registerArtifact now x)"
  by (simp_all add: storing_op_def keeps_all createSession_moves setSessionStatus_moves bindBackendSession_moves
      setRunStatus_moves appendEvent_moves createPermission_moves decidePermission_moves markPermissionApplied_moves
      registerArtifact_moves)

lemma storing_recordCleanup: "storing_op (recordCleanup now a status)"
  by (cases "ac_cleanup a") (auto simp: recordCleanup_def storing_ops)

lemma perform_eq: "perform f rt = (r, rt') \<longleftrightarrow> (\<exists>s. f (rt_store rt) = (r, s) \<and> rt' = rt\<lparr>rt_store := s\<rparr>)"
  by (auto simp: perform_def split: prod.split)

lemma perform_same:
  assumes "perform f rt = (r, rt')"
  shows "rt_active rt' = rt_active rt" "rt_queue rt' = rt_queue rt" "rt_deadlines rt' = rt_deadlines rt" "isReady rt' = isReady rt"
  using assms by (auto simp: perform_eq)

lemma storing_opD:
  assumes "storing_op f" "f s = (r, s')"
  shows "tally s' = tally s" "store_inv s \<Longrightarrow> store_moves s s'"
proof -
  have "snd (f s) = s'" using assms(2) by simp
  with assms(1) show "tally s' = tally s" "store_inv s \<Longrightarrow> store_moves s s'"
    unfolding storing_op_def keeps_tally_def by blast+
qed

lemma calmly_perform:
  assumes f: "storing_op f" and eq: "perform f rt = (r, rt')"
  shows "calmly c rt rt'" "tally (rt_store rt') = tally (rt_store rt)"
proof -
  obtain s where s: "f (rt_store rt) = (r, s)" "rt' = rt\<lparr>rt_store := s\<rparr>" using eq by (auto simp: perform_eq)
  note d = storing_opD [OF f s(1)]
  show "calmly c rt rt'" unfolding s(2) by (intro calmly_move storing d rt_invD(1))
  show "tally (rt_store rt') = tally (rt_store rt)" using d(1) s(2) by simp
qed

lemma calmly_finish:
  assumes "f_status input \<noteq> Completed \<or> (\<exists>a \<in> set (rt_active rt). ac_id a = i \<and> ac_stop a = None)"
    and eq: "perform (finishRun now i input) rt = (r, rt')"
  shows "calmly c rt rt'" and "rt_inv c rt \<Longrightarrow> r = Inr v \<Longrightarrow> ended i (rt_store rt')"
proof -
  obtain s where s: "finishRun now i input (rt_store rt) = (r, s)" "rt' = rt\<lparr>rt_store := s\<rparr>"
    using eq by (auto simp: perform_eq)
  show "rt_inv c rt \<Longrightarrow> r = Inr v \<Longrightarrow> ended i (rt_store rt')"
    using finish_tally(3) [of "rt_store rt" now i input v s] s rt_invD(1) by (force simp: ended_def)
  show "calmly c rt rt'"
  proof (rule calmly_if)
    assume inv: "rt_inv c rt"
    note store = rt_invD(1) [OF inv]
    show "calmly c rt rt'"
    proof (cases r)
      case (Inl e)
      then have "s = rt_store rt" using failed_same [OF finishRun_def, of now i input "rt_store rt"] s by simp
      then show ?thesis using s by simp
    next
      case (Inr v)
      with s have eq: "finishRun now i input (rt_store rt) = (Inr v, s)" by simp
      have moves: "store_moves (rt_store rt) s" using finishRun_moves [OF store, of now i input] eq by simp
      note t = finish_tally [OF store eq]
      from t(2) show ?thesis
      proof
        assume same: "endings s = endings (rt_store rt)"
        then have "tally s = tally (rt_store rt)" using t(1) by (simp add: tally_def)
        then show ?thesis unfolding s(2) by (intro calmly_move storing moves)
      next
        assume "endings s = endings (rt_store rt) @ [(i, terminalEvent (f_status input))]"
        then show ?thesis unfolding s(2) by (intro calmly_move ending moves t(1)) (use assms(1) in auto)
      qed
    qed
  qed
qed

section \<open>What a Run at work becomes\<close>

definition live :: "active_run \<Rightarrow> runtime \<Rightarrow> bool" where
  "live a rt \<longleftrightarrow> (\<exists>b \<in> set (rt_active rt). ac_run a = ac_run b \<and> ac_profile a = ac_profile b \<and> ac_stop a = ac_stop b)"

lemma live_in: "a \<in> set (rt_active rt) \<Longrightarrow> live a rt"
  by (auto simp: live_def)

lemma live_changes [simp]:
  "live (a\<lparr>ac_place := p\<rparr>) rt = live a rt" "live (a\<lparr>ac_handle := h\<rparr>) rt = live a rt"
  "live (a\<lparr>ac_stopping := s\<rparr>) rt = live a rt" "live (a\<lparr>ac_cleanup := u\<rparr>) rt = live a rt"
  "live (a\<lparr>ac_model := m\<rparr>) rt = live a rt" "live a (failing rt) = live a rt"
  by (simp_all add: live_def)

lemma live_active: "rt_active rt' = rt_active rt \<Longrightarrow> live a rt' = live a rt"
  by (simp add: live_def)

lemma ac_changes [simp]:
  "ac_id (a\<lparr>ac_place := p\<rparr>) = ac_id a" "ac_sid (a\<lparr>ac_place := p\<rparr>) = ac_sid a"
  "ac_id (a\<lparr>ac_handle := h\<rparr>) = ac_id a" "ac_sid (a\<lparr>ac_handle := h\<rparr>) = ac_sid a"
  "ac_id (a\<lparr>ac_stopping := s\<rparr>) = ac_id a" "ac_sid (a\<lparr>ac_stopping := s\<rparr>) = ac_sid a"
  "ac_id (a\<lparr>ac_cleanup := u\<rparr>) = ac_id a" "ac_sid (a\<lparr>ac_cleanup := u\<rparr>) = ac_sid a"
  "ac_id (a\<lparr>ac_model := m\<rparr>) = ac_id a" "ac_sid (a\<lparr>ac_model := m\<rparr>) = ac_sid a"
  "ac_id (a\<lparr>ac_stop := r\<rparr>) = ac_id a" "ac_sid (a\<lparr>ac_stop := r\<rparr>) = ac_sid a"
  by (simp_all add: ac_id_def ac_sid_def)

lemma live_ok:
  assumes "rt_inv c rt" "live a rt" "\<And>f. ac_place a = LastModels f None \<Longrightarrow> ended (ac_id a) (rt_store rt)"
  shows "active_ok (rt_store rt) a"
  using assms(2,3) rt_invD(11) [OF assms(1)] by (auto simp: active_ok_def live_def ac_id_def)

lemma calmly_set:
  assumes a: "live a rt" and place: "\<And>f. rt_inv c rt \<Longrightarrow> ac_place a = LastModels f None \<Longrightarrow> ended (ac_id a) (rt_store rt)"
  shows "calmly c rt (set_active a rt)" "live a (set_active a rt)"
proof -
  obtain b where b: "b \<in> set (rt_active rt)" "ac_run a = ac_run b" "ac_profile a = ac_profile b" "ac_stop a = ac_stop b"
    using a by (auto simp: live_def)
  then have "follows a b" by (simp add: follows_def)
  then show "calmly c rt (set_active a rt)"
    by (intro calmly_move changing [OF b(1)] live_ok a) (auto intro: place)
  have "a \<in> set (rt_active (set_active a rt))"
    using b by (auto simp: set_active_def ac_sid_def image_iff)
  then show "live a (set_active a rt)" by (rule live_in)
qed

lemma calmly_move_on:
  assumes "live a rt" "\<And>f. rt_inv c rt \<Longrightarrow> p = LastModels f None \<Longrightarrow> ended (ac_id a) (rt_store rt)"
  shows "calmly c rt (move_on p a rt)"
  unfolding move_on_def using assms by (intro calmly_set(1)) auto

lemma calmly_recover: "live a rt \<Longrightarrow> calmly c rt (recover e a rt)"
proof -
  assume a: "live a rt"
  have "recover e a rt = move_on (Recovering e (ac_stopping a \<noteq> None)) a (if storage_fault e then failing rt else rt)"
    by (simp add: recover_def move_on_def failing_def)
  moreover have "calmly c rt' (move_on (Recovering e (ac_stopping a \<noteq> None)) a rt')" if "live a rt'" for rt'
    by (rule calmly_move_on [OF that]) simp
  ultimately show ?thesis
    using a calmly_trans [OF calmly_failing] by (cases "storage_fault e") simp_all
qed

section \<open>Stopping\<close>

lemma active_of_in: "active_of sid rt = Some a \<Longrightarrow> a \<in> set (rt_active rt) \<and> ac_sid a = sid"
  by (auto simp: active_of_def find_Some_iff)

text \<open>A Run that has not ended takes a request to stop.\<close>

lemma calmly_stop_active:
  assumes inv: "rt_inv c rt" and a: "a \<in> set (rt_active rt)" and running: "\<not> ended (ac_id a) (rt_store rt)"
    and eq: "stop_active now a reason rt = (e, rt')"
  shows "calmly c rt rt' \<and> map ac_sid (rt_active rt') = map ac_sid (rt_active rt) \<and>
    map ac_id (rt_active rt') = map ac_id (rt_active rt)"
proof (cases "ac_stop a = None")
  case False
  then show ?thesis using eq by (simp add: stop_active_def)
next
  case True
  let ?a = "a\<lparr>ac_stop := Some reason\<rparr>" and ?rt1 = "set_active (a\<lparr>ac_stop := Some reason\<rparr>) rt"
  have follows: "follows ?a a" using True by (simp add: follows_def)
  have "\<not> completed (ac_id a) (rt_store rt)"
    using running by (force simp: ended_def completed_def image_iff)
  then have "active_ok (rt_store rt) ?a"
    using rt_invD(11) [OF inv] a by (auto simp: active_ok_def)
  then have first: "calmly c rt ?rt1" by (intro calmly_move changing [OF a follows])
  note same1 = set_active_same [OF rt_invD(5) [OF inv] a follows]
  have in1: "?a \<in> set (rt_active ?rt1)" using a by (auto simp: set_active_def image_iff intro!: bexI [of _ a])
  obtain r rt2 where rt2: "perform (setRunStatus now (ac_id a) Cancelling) ?rt1 = (r, rt2)" by fastforce
  note p = calmly_perform(1) [OF storing_ops(3) rt2, of c] and same2 = perform_same(1) [OF rt2]
  have in2: "?a \<in> set (rt_active rt2)" using in1 same2 by simp
  have inv2: "rt_inv c rt2" using calmly_inv [OF calmly_trans [OF first p] inv] .
  show ?thesis
  proof (cases r)
    case (Inl e')
    then show ?thesis using eq True rt2 calmly_trans [OF first p] same1 same2 by (simp add: stop_active_def)
  next
    case (Inr v)
    let ?b = "?a\<lparr>ac_stopping := Some (if ac_handle a then CancelsHandle else ClosesWorker)\<rparr>"
    have rt': "rt' = set_active ?b rt2" using eq True rt2 Inr by (simp add: stop_active_def)
    have "follows ?b ?a" by (simp add: follows_def)
    note same3 = set_active_same [OF rt_invD(5) [OF inv2] in2 this]
    have "ac_place a = LastModels f None \<Longrightarrow> ended (ac_id a) (rt_store rt)" for f
      using rt_invD(11) [OF inv] a by (auto simp: active_ok_def)
    then have "ac_place a \<noteq> LastModels f None" for f using running by blast
    then have "calmly c rt2 rt'" unfolding rt' using in2 by (intro calmly_set(1)) (auto intro: live_in)
    with first p show ?thesis using same1 same2 same3 unfolding rt' by (auto intro: calmly_trans)
  qed
qed

lemma ended_status: "store_inv s \<Longrightarrow> ended i s \<longleftrightarrow> (\<exists>t. status_of i s = Some (Ended t))"
proof
  assume inv: "store_inv s" and "ended i s"
  then obtain e where e: "e \<in> set (events s)" "er_run e = i" "er_terminal e" by (auto simp: ended_def endings_def)
  have "i \<in> run_ids s" using event_ok_run [OF inv_event [OF inv e(1)]] e(2) by (simp add: run_ids_def)
  then obtain row where row: "find_run i s = Some row" using run_ids_find by blast
  have "e \<in> set (run_events i s)" using e by (simp add: run_events_def)
  with run_log [OF inv row] e(3) show "\<exists>t. status_of i s = Some (Ended t)"
    by (cases "r_status (rr_record row)") (auto simp: log_ok_def list_all_iff status_of_def row)
qed (force simp: ended_iff ended_def)

lemma getRun_ended: "store_inv s \<Longrightarrow> getRun i s = Inr run \<Longrightarrow> isTerminal (r_status run) \<longleftrightarrow> ended i s"
  using getRun_status [of s i run] by (auto simp: ended_status isTerminal_iff)

text \<open>Two steps of the store, the second of which ends the Run.\<close>

lemma calmly_then_finish:
  assumes f: "storing_op f"
    and t: "f_status input \<noteq> Completed \<or> (\<exists>a \<in> set (rt_active rt). ac_id a = i \<and> ac_stop a = None)"
    and eq: "then_do f (finishRun now i input) rt = (e, rt')"
  shows "calmly c rt rt'" "rt_active rt' = rt_active rt" "rt_queue rt' = rt_queue rt"
    "rt_inv c rt \<Longrightarrow> e = None \<Longrightarrow> ended i (rt_store rt')"
proof -
  obtain r1 rt1 where rt1: "perform f rt = (r1, rt1)" by fastforce
  obtain r2 rt2 where rt2: "perform (finishRun now i input) rt1 = (r2, rt2)" by fastforce
  note p1 = calmly_perform(1) [OF f rt1, of c] and s1 = perform_same [OF rt1] and s2 = perform_same [OF rt2]
  have t1: "f_status input \<noteq> Completed \<or> (\<exists>a \<in> set (rt_active rt1). ac_id a = i \<and> ac_stop a = None)"
    using t s1 by simp
  note p2 = calmly_finish [OF t1 rt2, of c]
  have out: "rt' = rt1 \<and> e \<noteq> None \<or> rt' = rt2 \<and> (e = None \<longrightarrow> (\<exists>v. r2 = Inr v))"
    using eq rt1 rt2 by (auto simp: then_do_def split: sum.splits)
  then show "calmly c rt rt'" "rt_active rt' = rt_active rt" "rt_queue rt' = rt_queue rt"
    using p1 calmly_trans [OF p1 p2(1)] s1 s2 by auto
  show "rt_inv c rt \<Longrightarrow> e = None \<Longrightarrow> ended i (rt_store rt')"
    using out p2(2) calmly_inv [OF p1] by blast
qed

lemma calmly_then:
  assumes f: "storing_op f" and g: "storing_op g" and eq: "then_do f g rt = (e, rt')"
  shows "calmly c rt rt'" "rt_active rt' = rt_active rt"
proof -
  obtain r1 rt1 where rt1: "perform f rt = (r1, rt1)" by fastforce
  obtain r2 rt2 where rt2: "perform g rt1 = (r2, rt2)" by fastforce
  have "rt' = rt1 \<or> rt' = rt2" using eq rt1 rt2 by (auto simp: then_do_def split: sum.splits)
  then show "calmly c rt rt'" "rt_active rt' = rt_active rt"
    using calmly_perform(1) [OF f rt1, of c] calmly_perform(1) [OF g rt2, of c] perform_same(1) [OF rt1] perform_same(1) [OF rt2]
    by (auto intro: calmly_trans)
qed

lemma calmly_unqueue: "calmly c rt (rt\<lparr>rt_queue := remove1 i (rt_queue rt)\<rparr>)"
proof (cases "i \<in> set (rt_queue rt)")
  case False
  then show ?thesis by (simp add: remove1_idem)
next
  case True
  then obtain p q where split: "rt_queue rt = p @ i # q" "i \<notin> set p" using split_list_first by metis
  then have "remove1 i (rt_queue rt) = p @ q" by (simp add: remove1_append)
  moreover have "calmly c rt (rt\<lparr>rt_queue := p @ q\<rparr>)"
    by (rule calmly_move, rule dropping [OF split(1)]) (use True rt_invD(12) in blast)
  ultimately show ?thesis by simp
qed

lemma stop_not_completed [simp]: "stop_terminal reason \<noteq> Completed"
  by (cases reason) simp_all

lemma calmly_disarm:
  "(rt_inv c rt \<Longrightarrow> isReady rt \<Longrightarrow> ended i (rt_store rt) \<or> i \<in> ac_id ` set (rt_active rt)) \<Longrightarrow> calmly c rt (clear_deadline i rt)"
  by (intro calmly_move disarming) blast

lemma calmly_stop_queued:
  assumes inv: "rt_inv c rt" and eq: "stop_queued now i reason rt = (e, rt')"
  shows "calmly c rt rt' \<and> rt_active rt' = rt_active rt \<and> (e = None \<longrightarrow> ended i (rt_store rt'))"
proof -
  let ?rt1 = "rt\<lparr>rt_queue := remove1 i (rt_queue rt)\<rparr>"
  obtain e2 rt2 where rt2: "then_do (appendEvent now i (cleanup_event 0 Confirmed False)) (finish_stopped now i reason Confirmed) ?rt1 = (e2, rt2)"
    by fastforce
  note p = calmly_then_finish [OF storing_ops(4) _ rt2 [unfolded finish_stopped_def finish_def], simplified]
  have c1: "calmly c rt ?rt1" by (rule calmly_unqueue)
  have ends: "ended i (rt_store rt2)" if "e2 = None" using p(4) calmly_inv [OF c1 inv] that by blast
  show ?thesis
  proof (cases e2)
    case None
    then have "rt' = clear_deadline i rt2" "e = None" using eq rt2 by (auto simp: stop_queued_def)
    moreover have "calmly c rt2 (clear_deadline i rt2)" using ends None by (intro calmly_disarm) simp
    ultimately show ?thesis
      using calmly_trans [OF calmly_trans [OF c1 p(1)]] p(2) ends None by (simp add: clear_deadline_def)
  next
    case (Some x)
    then have "rt' = rt2" "e \<noteq> None" using eq rt2 by (auto simp: stop_queued_def)
    then show ?thesis using calmly_trans [OF c1 p(1)] p(2) by auto
  qed
qed

lemma calmly_stop:
  assumes inv: "rt_inv c rt" and eq: "stop now i reason rt = (e, rt')"
  shows "calmly c rt rt'" "map ac_sid (rt_active rt') = map ac_sid (rt_active rt)"
    "map ac_id (rt_active rt') = map ac_id (rt_active rt)"
    "e = None \<Longrightarrow> ended i (rt_store rt') \<or> i \<in> ac_id ` set (rt_active rt')"
proof -
  note store = rt_invD(1) [OF inv]
  have "calmly c rt rt' \<and> map ac_sid (rt_active rt') = map ac_sid (rt_active rt) \<and>
    map ac_id (rt_active rt') = map ac_id (rt_active rt) \<and>
    (e = None \<longrightarrow> ended i (rt_store rt') \<or> i \<in> ac_id ` set (rt_active rt'))"
  proof (cases "getRun i (rt_store rt)")
    case (Inl x)
    then show ?thesis using eq by (auto simp: stop_def)
  next
    case (Inr run)
    note over = getRun_ended [OF store Inr]
    consider "isTerminal (r_status run)" | "\<not> isTerminal (r_status run)" "stop_queued now i reason rt = (e, rt')"
      | a where "\<not> isTerminal (r_status run)" "active_of (r_sessionId run) rt = Some a" "ac_id a = i" "stop_active now a reason rt = (e, rt')"
      using eq Inr by (auto simp: stop_def split: option.splits if_splits)
    then show ?thesis
    proof cases
      case 1
      then show ?thesis using eq Inr over by (auto simp: stop_def)
    next
      case 2
      then show ?thesis using calmly_stop_queued [OF inv] by auto
    next
      case (3 a)
      then have a: "a \<in> set (rt_active rt)" using active_of_in by blast
      have stopped: "calmly c rt rt' \<and> map ac_sid (rt_active rt') = map ac_sid (rt_active rt) \<and>
          map ac_id (rt_active rt') = map ac_id (rt_active rt)"
        by (rule calmly_stop_active [OF inv a _ 3(4)]) (use 3 over in simp)
      then have "ac_id ` set (rt_active rt') = ac_id ` set (rt_active rt)" by (metis list.set_map)
      with stopped a 3(3) show ?thesis by blast
    qed
  qed
  then show "calmly c rt rt'" "map ac_sid (rt_active rt') = map ac_sid (rt_active rt)"
    "map ac_id (rt_active rt') = map ac_id (rt_active rt)"
    "e = None \<Longrightarrow> ended i (rt_store rt') \<or> i \<in> ac_id ` set (rt_active rt')" by auto
qed

end
