(* ===== verification/RuntimePump.thy ===== *)
theory RuntimePump
  imports RuntimeSteps
begin

text \<open>
  The start and the end of a Run as moves: what the pump starts, and that after it no Run waits that could
  have been started.
\<close>

section \<open>Reading the rows\<close>

lemma getRun_find:
  assumes "store_inv s" "getRun i s = Inr run"
  obtains row where "find_run i s = Some row" "rr_session row = r_sessionId run"
proof -
  obtain row where row: "find_run i s = Some row" "readRun (rr_record row) = Inr run"
    using assms(2) by (auto simp: getRun_def split: option.splits)
  moreover have "rr_session row = r_sessionId (rr_record row)"
    using inv_run [OF assms(1)] find_Some_set [OF row(1)] by (auto simp: run_row_ok_def)
  ultimately show ?thesis using that by (auto simp: readRun_Inr)
qed

lemma getSession_find:
  assumes "getSession i s = Inr v"
  obtains row where "find_session i s = Some row" "s_status (sr_record row) = s_status v"
    "s_engineId (sr_record row) = s_engineId v" "s_profileRevision (sr_record row) = s_profileRevision v"
  using assms by (auto simp: getSession_def readSession_Inr split: option.splits)

section \<open>The start of a Run\<close>

lemma live_same:
  assumes "live a rt" shows "ac_id a \<in> ac_id ` set (rt_active rt)" "ac_sid a \<in> ac_sid ` set (rt_active rt)"
  using assms by (auto simp: live_def ac_id_def ac_sid_def)

lemma not_queued: "rt_inv c rt \<Longrightarrow> live a rt \<Longrightarrow> ac_id a \<notin> set (rt_queue rt)"
  using live_same [of a rt] rt_invD(6) [of c rt] by auto

lemma active_of_None: "active_of sid rt = None \<longleftrightarrow> sid \<notin> ac_sid ` set (rt_active rt)"
  by (auto simp: active_of_def find_None_iff)

lemma stop_queue:
  assumes "i \<notin> set (rt_queue rt)" "stop now i reason rt = (e, rt')"
  shows "rt_queue rt' = rt_queue rt"
  using assms
  by (auto simp: stop_def stop_active_def stop_queued_def then_do_def perform_def set_active_def clear_deadline_def Let_def
      remove1_idem split: sum.splits prod.splits option.splits if_splits)

lemma calmly_check:
  assumes inv: "rt_inv c rt" and a: "live a rt" and eq: "check_deadline now a rt = (e, b, rt')"
  shows "calmly c rt rt'" "live b rt'" "rt_queue rt' = rt_queue rt"
proof -
  let ?late = "ac_stop a = None \<and> r_deadlineAt (ac_run a) \<le> now"
  obtain e2 rt2 where stop: "(if ?late then stop now (ac_id a) StopTimedOut rt else (None, rt)) = (e2, rt2)" by fastforce
  have rt': "rt' = rt2" and b: "b = (case active_of (ac_sid a) rt2 of Some b \<Rightarrow> b | None \<Rightarrow> a)"
    using eq stop unfolding check_deadline_def by auto
  have moved: "calmly c rt rt2 \<and> map ac_sid (rt_active rt2) = map ac_sid (rt_active rt) \<and> rt_queue rt2 = rt_queue rt"
  proof (cases ?late)
    case True
    then have late: "stop now (ac_id a) StopTimedOut rt = (e2, rt2)" using stop by simp
    show ?thesis using calmly_stop(1,2) [OF inv late] stop_queue [OF not_queued [OF inv a] late] by simp
  next
    case False
    then have "rt2 = rt" using stop by auto
    then show ?thesis by simp
  qed
  then show "calmly c rt rt'" "rt_queue rt' = rt_queue rt" using rt' by auto
  have "ac_sid ` set (rt_active rt2) = ac_sid ` set (rt_active rt)" using moved by (metis list.set_map)
  then have "active_of (ac_sid a) rt2 \<noteq> None" using live_same(2) [OF a] by (auto simp: active_of_None)
  then obtain d where "active_of (ac_sid a) rt2 = Some d" by blast
  then show "live b rt'" using rt' b active_of_in [of _ rt2 d] by (auto intro: live_in)
qed

lemma queue_moves [simp]:
  "rt_queue (move_on p a rt) = rt_queue rt" "rt_queue (recover e a rt) = rt_queue rt" "rt_queue (set_active a rt) = rt_queue rt"
  by (simp_all add: move_on_def recover_def set_active_def Let_def)

lemma calmly_inspected:
  assumes inv: "rt_inv c rt" and a: "live a rt"
  shows "calmly c rt (inspected now installation a rt) \<and> rt_queue (inspected now installation a rt) = rt_queue rt"
proof -
  obtain e b rt1 where check: "check_deadline now a rt = (e, b, rt1)" by (metis prod_cases3)
  note k = calmly_check [OF inv a check]
  obtain r rt2 where p: "perform (appendEvent now (ac_id b)
      (simple_draft ''engine.installation'' [(js ''installation'', JObj installation)])) rt1 = (r, rt2)" by fastforce
  have live2: "live b rt2" using k(2) live_active [OF perform_same(1) [OF p]] by simp
  have "calmly c rt1 (recover x b rt1)" "calmly c rt1 (recover x b rt2)" "calmly c rt1 (move_on Beginning b rt2)" for x
    using calmly_recover [OF k(2)] calmly_trans [OF calmly_perform(1) [OF storing_ops(4) p]]
      calmly_recover [OF live2] calmly_move_on [OF live2, of c Beginning] by auto
  then have "calmly c rt1 (inspected now installation a rt)"
    by (simp add: inspected_def check p split: option.split sum.split)
  moreover have "rt_queue (inspected now installation a rt) = rt_queue rt"
    using k(3) perform_same(2) [OF p] by (simp add: inspected_def check p split: option.split sum.split)
  ultimately show ?thesis using calmly_trans [OF k(1)] by blast
qed

lemma calmly_execute:
  assumes inv: "rt_inv c rt" and a: "live a rt"
  shows "calmly c rt (execute c now a rt) \<and> rt_queue (execute c now a rt) = rt_queue rt"
proof -
  obtain r rt1 where p: "perform (setRunStatus now (ac_id a) Starting) rt = (r, rt1)" by fastforce
  have c1: "calmly c rt rt1" by (rule calmly_perform(1) [OF storing_ops(3) p])
  have live1: "live a rt1" using a live_active [OF perform_same(1) [OF p]] by simp
  have inv1: "rt_inv c rt1" by (rule calmly_inv [OF c1 inv])
  have "calmly c rt1 (recover x a rt1)" "calmly c rt1 (move_on Inspecting a rt1)" "calmly c rt1 (move_on Beginning a rt1)" for x
    using calmly_recover [OF live1] calmly_move_on [OF live1, of c] by auto
  then have "calmly c rt1 (execute c now a rt) \<and> rt_queue (execute c now a rt) = rt_queue rt1"
    using calmly_inspected [OF inv1 live1] by (simp add: execute_def p split: option.split sum.split)
  then show ?thesis using calmly_trans [OF c1] perform_same(2) [OF p] by auto
qed

section \<open>The pump\<close>

lemma could_start_same [simp]:
  "could_start c (rt\<lparr>rt_queue := q\<rparr>) = could_start c rt" "could_start c (clear_deadline i rt) = could_start c rt"
  by (simp_all add: fun_eq_iff could_start_def clear_deadline_def)

lemma waits_failing [simp]: "waits_rightly c (failing rt)"
  by (simp add: waits_rightly_def)

lemma calmly_dropping:
  assumes "rt_queue rt = p @ i # q" shows "calmly c rt (rt\<lparr>rt_queue := p @ q\<rparr>)"
  by (rule calmly_move, rule dropping [OF assms]) (use assms rt_invD(12) in auto)

text \<open>What the pump knows of an entry it may start.\<close>

lemma pump_could_start:
  assumes inv: "rt_inv c rt" and run: "getRun i (rt_store rt) = Inr run"
    and session: "getSession (r_sessionId run) (rt_store rt) = Inr session" "s_status session = SessionOpen"
    and profile: "co_profile c (s_engineId session) (s_profileRevision session) = Some profile"
    and row: "find_run j (rt_store rt) = Some row" "rr_session row = r_sessionId run"
  shows "could_start c rt j \<longleftrightarrow>
    active_of (r_sessionId run) rt = None \<and> int (engine_count profile (rt_active rt)) < ep_maxConcurrency profile \<and>
    length (rt_active rt) < co_maxConcurrency c"
proof -
  obtain srow where "find_session (r_sessionId run) (rt_store rt) = Some srow" "s_status (sr_record srow) = s_status session"
    "s_engineId (sr_record srow) = s_engineId session" "s_profileRevision (sr_record srow) = s_profileRevision session"
    using getSession_find [OF session(1)] .
  with row session(2) profile show ?thesis by (simp add: could_start_def active_of_None)
qed

lemma calmly_starting:
  assumes inv: "rt_inv c rt" and queue: "rt_queue rt = p @ i # q" and run: "getRun i (rt_store rt) = Inr run"
    and session: "getSession (r_sessionId run) (rt_store rt) = Inr session" "s_status session = SessionOpen"
    and profile: "co_profile c (s_engineId session) (s_profileRevision session) = Some profile"
    and free: "active_of (r_sessionId run) rt = None" "int (engine_count profile (rt_active rt)) < ep_maxConcurrency profile"
      "length (rt_active rt) < co_maxConcurrency c"
    and passed: "\<forall>j \<in> set p. \<not> could_start c rt j"
  shows "calmly c rt (rt\<lparr>rt_queue := p @ q, rt_active := rt_active rt @ [new_active run profile session]\<rparr>)"
proof (rule calmly_move, rule starting [OF queue])
  note pump = pump_could_start [OF inv run session profile]
  obtain row where row: "find_run i (rt_store rt) = Some row" "rr_session row = r_sessionId run"
    using getRun_find [OF rt_invD(1) [OF inv] run] .
  show "precedes (rt_store rt) i j" if "j \<in> set p" for j
    using passed that row pump [of j] free by (auto simp: precedes_def)
  show "ac_id (new_active run profile session) = i"
    using getRun_id [OF rt_invD(1) [OF inv] run] by (simp add: ac_id_def new_active_def)
qed (use free in \<open>auto simp: new_active_def ac_sid_def active_of_None\<close>)

text \<open>One turn of the loop: it fails, or it goes on with the rest from a state that starts no entry passed over.\<close>

definition goes_on :: "config \<Rightarrow> int \<Rightarrow> jstring list \<Rightarrow> runtime \<Rightarrow> runtime \<Rightarrow> bool" where
  "goes_on c now rest rt out \<longleftrightarrow>
     (\<exists>rt2. calmly c rt rt2 \<and> out = failing rt2) \<or>
     (\<exists>rt2 passed. calmly c rt rt2 \<and> rt_queue rt2 = passed @ rest \<and> out = pump_loop c now passed rest rt2 \<and>
       (\<forall>j \<in> set passed. \<not> could_start c rt j))"

lemma goes_onI:
  "calmly c rt rt2 \<Longrightarrow> out = failing rt2 \<Longrightarrow> goes_on c now rest rt out"
  "calmly c rt rt2 \<Longrightarrow> rt_queue rt2 = passed @ rest \<Longrightarrow> out = pump_loop c now passed rest rt2 \<Longrightarrow>
     \<forall>j \<in> set passed. \<not> could_start c rt j \<Longrightarrow> goes_on c now rest rt out"
  by (auto simp: goes_on_def)

lemma pump_closed_session:
  assumes inv: "rt_inv c rt" and queue: "rt_queue rt = passed @ i # rest" and passed: "\<forall>j \<in> set passed. \<not> could_start c rt j"
    and room: "\<not> (co_maxConcurrency c \<le> length (rt_active rt) \<or> i = [])"
    and run: "getRun i (rt_store rt) = Inr run" "\<not> isTerminal (r_status run)"
    and session: "getSession (r_sessionId run) (rt_store rt) = Inr session" "s_status session \<noteq> SessionOpen"
  shows "goes_on c now rest rt (pump_loop c now passed (i # rest) rt)"
proof -
  let ?rt1 = "rt\<lparr>rt_queue := passed @ rest\<rparr>"
  have dropped: "calmly c rt ?rt1" by (rule calmly_dropping [OF queue])
  obtain r rt2 where fin: "perform (finish now i Cancelled (js ''session_closed'') Confirmed) ?rt1 = (r, rt2)" by fastforce
  note done_at = calmly_finish [OF _ fin [unfolded finish_def], simplified]
  have c2: "calmly c rt rt2" by (rule calmly_trans [OF dropped done_at(1)])
  show ?thesis
  proof (cases r)
    case (Inl e)
    with assms fin show ?thesis by (intro goes_onI(1) [OF c2]) (simp_all add: failing_def)
  next
    case (Inr v)
    have "ended i (rt_store rt2)" by (rule done_at(2) [OF calmly_inv [OF dropped inv] Inr])
    then have "calmly c rt2 (clear_deadline i rt2)" by (intro calmly_disarm) simp
    with assms fin Inr show ?thesis
      by (intro goes_onI(2) [OF calmly_trans [OF c2], of _ passed]) (simp_all add: perform_same(2) [OF fin] clear_deadline_def)
  qed
qed

lemma pump_open_session:
  assumes inv: "rt_inv c rt" and queue: "rt_queue rt = passed @ i # rest" and passed: "\<forall>j \<in> set passed. \<not> could_start c rt j"
    and room: "\<not> (co_maxConcurrency c \<le> length (rt_active rt) \<or> i = [])"
    and run: "getRun i (rt_store rt) = Inr run" "\<not> isTerminal (r_status run)"
    and session: "getSession (r_sessionId run) (rt_store rt) = Inr session" "s_status session = SessionOpen"
  shows "goes_on c now rest rt (pump_loop c now passed (i # rest) rt)"
proof (cases "co_profile c (s_engineId session) (s_profileRevision session)")
  case None
  with assms show ?thesis by (intro goes_onI(1) [of _ rt]) (simp_all add: failing_def)
next
  case profile: (Some profile)
  note able = pump_could_start [OF inv run(1) session profile]
  obtain row where row: "find_run i (rt_store rt) = Some row" "rr_session row = r_sessionId run"
    using getRun_find [OF rt_invD(1) [OF inv] run(1)] .
  show ?thesis
  proof (cases "active_of (r_sessionId run) rt \<noteq> None \<or> ep_maxConcurrency profile \<le> int (engine_count profile (rt_active rt))")
    case True
    then have "\<not> could_start c rt i" using able [OF row] by auto
    with True assms profile show ?thesis by (intro goes_onI(2) [of _ rt _ "passed @ [i]"]) auto
  next
    case False
    let ?a = "new_active run profile session"
    let ?rt2 = "rt\<lparr>rt_queue := passed @ rest, rt_active := rt_active rt @ [?a]\<rparr>"
    have c2: "calmly c rt ?rt2"
      using False room by (intro calmly_starting [OF inv queue run(1) session profile _ _ _ passed]) auto
    have "live ?a ?rt2" by (rule live_in) simp
    note c3 = calmly_execute [OF calmly_inv [OF c2 inv] this, of now]
    show ?thesis
      using False assms profile c3
      by (intro goes_onI(2) [OF calmly_trans [OF c2], of "execute c now ?a ?rt2" passed]) (auto simp: Let_def)
  qed
qed

lemma pump_turn:
  assumes inv: "rt_inv c rt" and queue: "rt_queue rt = passed @ i # rest" and passed: "\<forall>j \<in> set passed. \<not> could_start c rt j"
    and room: "\<not> (co_maxConcurrency c \<le> length (rt_active rt) \<or> i = [])"
  shows "goes_on c now rest rt (pump_loop c now passed (i # rest) rt)"
proof (cases "getRun i (rt_store rt)")
  case (Inl e)
  with room show ?thesis by (intro goes_onI(1) [of _ rt]) (simp_all add: failing_def)
next
  case run: (Inr run)
  show ?thesis
  proof (cases "isTerminal (r_status run)")
    case True
    with room run passed show ?thesis by (intro goes_onI(2) [OF calmly_dropping [OF queue]]) simp_all
  next
    case False
    show ?thesis
    proof (cases "getSession (r_sessionId run) (rt_store rt)")
      case (Inl e)
      with False room run show ?thesis by (intro goes_onI(1) [of _ rt]) (simp_all add: failing_def)
    next
      case (Inr session)
      with pump_open_session [OF assms run False] pump_closed_session [OF assms run False] show ?thesis by blast
    qed
  qed
qed

lemma pump_loop_calm:
  assumes "rt_inv c rt" "rt_queue rt = passed @ rest" "\<forall>j \<in> set passed. \<not> could_start c rt j"
  shows "calmly c rt (pump_loop c now passed rest rt) \<and> waits_rightly c (pump_loop c now passed rest rt)"
  using assms
proof (induction rest arbitrary: passed rt)
  case Nil
  then show ?case by (simp add: waits_rightly_def)
next
  case (Cons i rest)
  note inv = Cons.prems(1) and queue = Cons.prems(2)
  show ?case
  proof (cases "co_maxConcurrency c \<le> length (rt_active rt) \<or> i = []")
    case True
    moreover have "i \<noteq> []" using rt_invD(8) [OF inv] queue by auto
    ultimately show ?thesis by (auto simp: waits_rightly_def could_start_def)
  next
    case False
    from pump_turn [OF Cons.prems False, of now] consider
        rt2 where "calmly c rt rt2" "pump_loop c now passed (i # rest) rt = failing rt2"
      | rt2 passed' where "calmly c rt rt2" "rt_queue rt2 = passed' @ rest"
          "pump_loop c now passed (i # rest) rt = pump_loop c now passed' rest rt2" "\<forall>j \<in> set passed'. \<not> could_start c rt j"
      unfolding goes_on_def by blast
    then show ?thesis
    proof cases
      case (1 rt2)
      then show ?thesis using calmly_trans [OF 1(1) calmly_failing] by simp
    next
      case (2 rt2 passed')
      with Cons.IH [OF calmly_inv [OF 2(1) inv] 2(2)] calmly_could_start [OF 2(1) inv] calmly_trans [OF 2(1)]
      show ?thesis by auto
    qed
  qed
qed

lemma pump_calm: "rt_inv c rt \<Longrightarrow> calmly c rt (pump c now rt) \<and> waits_rightly c (pump c now rt)"
  using pump_loop_calm [of c rt "[]" "rt_queue rt" now] by (auto simp: pump_def waits_rightly_def)

end
