(* ===== verification/RuntimeEnds.thy ===== *)
theory RuntimeEnds
  imports RuntimePump
begin

text \<open>
  The end of a Run as moves: its outcome is recorded, it is released, and the pump starts what may start.
  Where an error is on its way the runtime fails after the pump has run; that it could as well fail before
  is what makes those steps moves too.
\<close>

section \<open>Failing first\<close>

lemma failing_simps [simp]:
  "failing (failing rt) = failing rt" "(failing rt)\<lparr>rt_store := s\<rparr> = failing (rt\<lparr>rt_store := s\<rparr>)"
  "(failing rt)\<lparr>rt_queue := q\<rparr> = failing (rt\<lparr>rt_queue := q\<rparr>)" "(failing rt)\<lparr>rt_active := as\<rparr> = failing (rt\<lparr>rt_active := as\<rparr>)"
  "(failing rt)\<lparr>rt_installations := m\<rparr> = failing (rt\<lparr>rt_installations := m\<rparr>)"
  "(failing rt)\<lparr>rt_failed := True\<rparr> = failing rt" "(rt\<lparr>rt_failed := True\<rparr>) = failing rt"
  "set_active a (failing rt) = failing (set_active a rt)" "clear_deadline i (failing rt) = failing (clear_deadline i rt)"
  "move_on p a (failing rt) = failing (move_on p a rt)"
  by (simp_all add: failing_def set_active_def clear_deadline_def move_on_def)

abbreviation failed_too :: "'a \<times> runtime \<Rightarrow> 'a \<times> runtime" where
  "failed_too x \<equiv> (fst x, failing (snd x))"

lemma fail_perform [simp]: "perform f (failing rt) = failed_too (perform f rt)"
  by (simp add: perform_def split: prod.split)

lemma fail_then_do [simp]: "then_do f g (failing rt) = failed_too (then_do f g rt)"
  by (auto simp: then_do_def split: prod.split sum.split)

lemma fail_recover [simp]: "recover e a (failing rt) = failing (recover e a rt)"
  by (simp add: recover_def Let_def)

lemma fail_stop [simp]: "stop now i reason (failing rt) = failed_too (stop now i reason rt)"
proof -
  have "stop_queued now i reason (failing rt) = failed_too (stop_queued now i reason rt)"
    by (simp add: stop_queued_def split: prod.split option.split)
  moreover have "stop_active now a reason (failing rt) = failed_too (stop_active now a reason rt)" for a
    by (simp add: stop_active_def Let_def split: prod.split sum.split)
  ultimately show ?thesis by (simp add: stop_def split: sum.split option.split)
qed

lemma fail_check [simp]:
  "check_deadline now a (failing rt) =
     (case check_deadline now a rt of (e, b, rt') \<Rightarrow> (e, b, failing rt'))"
  by (simp add: check_deadline_def Let_def split_beta)

lemma fail_inspected [simp]: "inspected now inst a (failing rt) = failing (inspected now inst a rt)"
proof -
  obtain e b rt1 where check: "check_deadline now a rt = (e, b, rt1)" by (metis prod_cases3)
  obtain r rt2 where "perform (appendEvent now (ac_id b)
      (simple_draft ''engine.installation'' [(js ''installation'', JObj inst)])) rt1 = (r, rt2)" by fastforce
  with check show ?thesis by (cases e; cases r) (simp_all add: inspected_def)
qed

lemma fail_execute [simp]: "execute c now a (failing rt) = failing (execute c now a rt)"
proof -
  obtain r rt1 where "perform (setRunStatus now (ac_id a) Starting) rt = (r, rt1)" by fastforce
  then show ?thesis by (cases r) (simp_all add: execute_def split: option.split)
qed

lemma fail_pump: "pump_loop c now passed rest (failing rt) = failing (pump_loop c now passed rest rt)"
proof (induction rest arbitrary: passed rt)
  case (Cons i rest)
  then show ?case
    by (simp add: Let_def split: prod.split option.split sum.split)
qed simp

lemma fail_depart: "depart now backendFailed a (failing rt) = failed_too (depart now backendFailed a rt)"
  by (simp add: depart_def Let_def split: prod.split sum.split)

section \<open>Steps that may also accept and release\<close>

definition brings :: "config \<Rightarrow> runtime \<Rightarrow> runtime \<Rightarrow> bool" where
  "brings c rt rt' \<longleftrightarrow>
     (rt_inv c rt \<longrightarrow> (rt_move c)\<^sup>*\<^sup>* rt rt' \<and> (waits_rightly c rt \<longrightarrow> waits_rightly c rt'))"

lemma rt_moves_inv: "(rt_move c)\<^sup>*\<^sup>* rt rt' \<Longrightarrow> rt_inv c rt \<Longrightarrow> rt_inv c rt'"
  by (induction rule: rtranclp_induct) (auto intro: rt_move_inv)

lemma calm_moves: "(calm_move c)\<^sup>*\<^sup>* rt rt' \<Longrightarrow> (rt_move c)\<^sup>*\<^sup>* rt rt'"
  by (erule rtranclp_mono [THEN predicate2D, rotated]) (auto intro: rt_move.calm)

lemma calm_less: "calm_move c rt rt' \<Longrightarrow> (isReady rt' \<longrightarrow> isReady rt) \<and> set (rt_queue rt') \<subseteq> set (rt_queue rt)"
  by (induction rule: calm_move.induct) (auto simp: set_active_def clear_deadline_def isReady_def)

lemma calm_moves_less:
  "(calm_move c)\<^sup>*\<^sup>* rt rt' \<Longrightarrow> (isReady rt' \<longrightarrow> isReady rt) \<and> set (rt_queue rt') \<subseteq> set (rt_queue rt)"
  by (induction rule: rtranclp_induct) (auto dest: calm_less)

lemma brings_calmly:
  assumes calm: "calmly c rt rt'" shows "brings c rt rt'"
  unfolding brings_def
proof (intro impI conjI)
  assume inv: "rt_inv c rt"
  then have moves: "(calm_move c)\<^sup>*\<^sup>* rt rt'" using calm by (simp add: calmly_def)
  then show "(rt_move c)\<^sup>*\<^sup>* rt rt'" by (rule calm_moves)
  show "waits_rightly c rt'" if "waits_rightly c rt"
    using calm_moves_less [OF moves] calmly_could_start [OF calm inv] that by (auto simp: waits_rightly_def)
qed

lemma calmly_moves: "calmly c rt rt' \<Longrightarrow> rt_inv c rt \<Longrightarrow> (rt_move c)\<^sup>*\<^sup>* rt rt'"
  by (auto simp: calmly_def intro: calm_moves)

lemma brings_trans: "brings c rt u \<Longrightarrow> brings c u v \<Longrightarrow> brings c rt v"
  unfolding brings_def by (meson rt_moves_inv rtranclp_trans)

lemma brings_after: "calmly c rt u \<Longrightarrow> brings c u v \<Longrightarrow> brings c rt v"
  by (blast intro: brings_trans brings_calmly)

lemma brings_if: "(rt_inv c rt \<Longrightarrow> brings c rt rt') \<Longrightarrow> brings c rt rt'"
  by (auto simp: brings_def)

lemma brings_inv: "brings c rt rt' \<Longrightarrow> rt_inv c rt \<Longrightarrow> rt_inv c rt'"
  by (auto simp: brings_def intro: rt_moves_inv)

section \<open>A Run is released\<close>

lemma depart_moves:
  assumes inv: "rt_inv c rt" and a: "live a rt" and cond: "isReady rt \<Longrightarrow> ended (ac_id a) (rt_store rt)"
    and eq: "depart now backendFailed a rt = (e, rt')"
  shows "(rt_move c)\<^sup>*\<^sup>* rt rt'"
proof -
  obtain d where d: "d \<in> set (rt_active rt)" "ac_id d = ac_id a" "ac_sid d = ac_sid a"
    using a by (auto simp: live_def ac_id_def ac_sid_def)
  let ?rt1 = "clear_deadline (ac_id a) rt"
  let ?rt2 = "?rt1\<lparr>rt_active := filter (\<lambda>b. ac_sid b \<noteq> ac_sid a) (rt_active ?rt1)\<rparr>"
  let ?rt3 = "if ep_driver (ac_profile a) = CliDriver \<or> ac_stop a \<noteq> None \<or> backendFailed
    then ?rt2\<lparr>rt_installations := jdelete (ac_sid a) (rt_installations ?rt2)\<rparr> else ?rt2"
  have c1: "calmly c rt ?rt1" using cond by (intro calmly_disarm) simp
  have m2: "rt_move c ?rt1 ?rt2"
    using leaving [of d ?rt1 c] d cond by (simp add: clear_deadline_def)
  have m: "(rt_move c)\<^sup>*\<^sup>* rt ?rt2"
    using c1 inv m2 by (auto simp: calmly_def dest: calm_moves intro: rtranclp.rtrancl_into_rtrancl)
  have inv2: "rt_inv c ?rt2" by (rule rt_moves_inv [OF m inv])
  have c3: "calmly c ?rt2 ?rt3" by (rule calmly_aside) (simp_all split: if_split_asm)
  obtain r rt4 where p: "perform (setSessionStatus now (ac_sid a) SessionClosed) ?rt3 = (r, rt4)" by fastforce
  note c4 = calmly_perform(1) [OF storing_ops(2) p, of c]
  have "rt' = ?rt3 \<or> rt' = rt4"
    using eq p unfolding depart_def Let_def by (auto split: sum.splits if_splits)
  then have "calmly c ?rt2 rt'" using c3 calmly_trans [OF c3 c4] by blast
  with m inv2 show ?thesis by (auto simp: calmly_def dest: calm_moves)
qed

lemma reject_fields [simp]:
  "rt_store (reject i rt) = rt_store rt" "rt_active (reject i rt) = rt_active rt" "rt_queue (reject i rt) = rt_queue rt"
  "rt_deadlines (reject i rt) = rt_deadlines rt" "\<not> isReady (reject i rt)"
  by (simp_all add: reject_def isReady_def del: failing_simps)

lemma calmly_reject: "calmly c rt (reject i rt)" "waits_rightly c (reject i rt)"
  by (rule calmly_aside) (simp_all add: waits_rightly_def)

lemma brings_leave:
  assumes a: "live a rt" and cond: "rt_inv c rt \<Longrightarrow> pending = None \<Longrightarrow> ended (ac_id a) (rt_store rt)"
  shows "brings c rt (leave c now backendFailed pending a rt)"
  unfolding brings_def
proof
  assume inv: "rt_inv c rt"
  let ?out = "leave c now backendFailed pending a rt"
  obtain e rt1 where depart: "depart now backendFailed a rt = (e, rt1)" by fastforce
  have "(rt_move c)\<^sup>*\<^sup>* rt ?out \<and> waits_rightly c ?out"
  proof (cases "pending = None")
    case True
    have m: "(rt_move c)\<^sup>*\<^sup>* rt rt1"
      by (rule depart_moves [OF inv a _ depart]) (use cond inv True in blast)
    have inv1: "rt_inv c rt1" by (rule rt_moves_inv [OF m inv])
    show ?thesis
    proof (cases e)
      case None
      have "calmly c rt1 (pump c now rt1) \<and> waits_rightly c (pump c now rt1)" by (rule pump_calm [OF inv1])
      with m inv1 show ?thesis using depart None True by (auto simp: leave_def calmly_def dest: calm_moves)
    next
      case (Some x)
      then have "?out = reject (ac_id a) rt1" using depart by (simp add: leave_def)
      then show ?thesis
        using rtranclp_trans [OF m calmly_moves [OF calmly_reject(1) inv1]] calmly_reject(2) by simp
    qed
  next
    case False
    let ?f = "failing rt"
    have cf: "calmly c rt ?f" by (rule calmly_failing)
    have invf: "rt_inv c ?f" by (rule calmly_inv [OF cf inv])
    have departf: "depart now backendFailed a ?f = (e, failing rt1)" using depart by (simp add: fail_depart)
    have m: "(rt_move c)\<^sup>*\<^sup>* ?f (failing rt1)"
      by (rule depart_moves [OF invf _ _ departf]) (use a in simp_all)
    have inv1: "rt_inv c (failing rt1)" by (rule rt_moves_inv [OF m invf])
    have pumped: "calmly c (failing rt1) (failing (pump c now rt1))"
      using pump_loop_calm [OF inv1, of "[]" "rt_queue rt1" now] by (auto simp: pump_def fail_pump)
    have end_at: "calmly c (failing rt2) (reject i rt2)" for i rt2
      by (rule calmly_aside) simp_all
    have "calmly c (failing rt1) ?out \<and> waits_rightly c ?out"
      using depart False calmly_trans [OF pumped end_at] end_at calmly_reject(2)
      by (auto simp: leave_def split: option.split)
    then show ?thesis
      using cf inv m inv1 by (auto simp: calmly_def dest!: calm_moves intro: rtranclp_trans)
  qed
  then show "(rt_move c)\<^sup>*\<^sup>* rt ?out \<and> (waits_rightly c rt \<longrightarrow> waits_rightly c ?out)" by blast
qed

lemma brings_release:
  assumes a: "live a rt" and cond: "rt_inv c rt \<Longrightarrow> pending = None \<Longrightarrow> ended (ac_id a) (rt_store rt)"
  shows "brings c rt (release c now backendFailed pending a rt)"
proof -
  have "calmly c rt (move_on (LastModels backendFailed pending) (a\<lparr>ac_model := m\<rparr>) rt)" for m
    using a cond by (intro calmly_move_on) auto
  moreover have "calmly c rt (move_on Broken (a\<lparr>ac_model := m\<rparr>) (reject (ac_id a) rt))" for m
  proof (rule calmly_trans [OF calmly_reject(1)], rule calmly_move_on)
    show "live (a\<lparr>ac_model := m\<rparr>) (reject (ac_id a) rt)" using a by (simp add: live_def)
  qed simp
  moreover have "brings c rt (leave c now backendFailed pending a rt)" by (rule brings_leave [OF a cond])
  ultimately show ?thesis
    by (simp add: release_def Let_def brings_calmly split: option.split bool.split sum.split prod.split)
qed

section \<open>The rest of \<open>execute\<close>\<close>

lemma brings_recover: "live a rt \<Longrightarrow> brings c rt (recover e a rt)"
  by (intro brings_calmly calmly_recover)

lemma brings_move_on: "live a rt \<Longrightarrow> (\<And>f. p \<noteq> LastModels f None) \<Longrightarrow> brings c rt (move_on p a rt)"
  by (intro brings_calmly calmly_move_on) auto

text \<open>The outcome of a Run at work is recorded, and it is released.\<close>

lemma brings_finish:
  assumes a: "live a rt" and t: "f_status input \<noteq> Completed \<or> ac_stop a = None"
    and eq: "then_do (recordCleanup now a cleanup) (finishRun now (ac_id a) input) rt = (e, rt')"
  shows "brings c rt (release c now backendFailed e a rt')"
    "brings c rt (case e of Some x \<Rightarrow> recover x a rt' | None \<Rightarrow> release c now backendFailed None a rt')"
proof -
  have t': "f_status input \<noteq> Completed \<or> (\<exists>b \<in> set (rt_active rt). ac_id b = ac_id a \<and> ac_stop b = None)"
    using a t by (auto simp: live_def ac_id_def)
  note fin = calmly_then_finish [OF storing_recordCleanup t' eq]
  have a': "live a rt'" using a live_active [OF fin(2)] by simp
  have over: "ended (ac_id a) (rt_store rt')" if "rt_inv c rt" "e = None" for c using fin(4) that by blast
  show "brings c rt (release c now backendFailed e a rt')"
    by (rule brings_if, rule brings_after [OF fin(1)], rule brings_release [OF a']) (use over in blast)
  moreover have "brings c rt (recover x a rt')" for x
    by (rule brings_after [OF fin(1)], rule brings_recover [OF a'])
  ultimately show "brings c rt (case e of Some x \<Rightarrow> recover x a rt' | None \<Rightarrow> release c now backendFailed None a rt')"
    by (cases e) auto
qed

lemma brings_settle_stopped: "live a rt \<Longrightarrow> brings c rt (settle_stopped c now r cleanup a rt)"
proof (cases "ac_stop a")
  case None
  then show ?thesis by (simp add: settle_stopped_def brings_calmly)
next
  case (Some reason)
  assume a: "live a rt"
  obtain e rt1 where eq: "then_do (recordCleanup now a cleanup) (finish_stopped now (ac_id a) reason cleanup) rt = (e, rt1)" by fastforce
  show ?thesis
    using brings_finish(2) [OF a _ eq [unfolded finish_stopped_def finish_def], of c "backend_failed r"] Some eq
    by (cases e) (simp_all add: settle_stopped_def)
qed

text \<open>What comes after the deadline has been looked at.\<close>

lemma brings_check:
  assumes a: "live a rt" and eq: "check_deadline now a rt = (e, b, rt1)"
    and rest: "live b rt1 \<Longrightarrow> e = None \<Longrightarrow> brings c rt1 (f b rt1)"
  shows "brings c rt (case e of Some x \<Rightarrow> recover x b rt1 | None \<Rightarrow> f b rt1)"
proof (rule brings_if)
  assume "rt_inv c rt"
  from calmly_check [OF this a eq] rest show ?thesis
    by (cases e) (auto intro: brings_after brings_recover)
qed

lemma brings_collected: assumes a: "live a rt" shows "brings c rt (collected c now r cleanup a rt)"
proof -
  obtain e b rt1 where check: "check_deadline now a rt = (e, b, rt1)" by (metis prod_cases3)
  let ?rest = "\<lambda>b rt. if ac_stop b \<noteq> None
          then (if ac_stopping b = None then settle_stopped c now r Unconfirmed b rt else move_on (AwaitsStop r) b rt)
          else (case then_do (recordCleanup now b cleanup) (finishRun now (ac_id b) (driver_finish r cleanup)) rt of
              (Some e, rt) \<Rightarrow> recover e b rt
            | (None, rt) \<Rightarrow> release c now (backend_failed r) None b rt)"
  have "brings c rt1 (?rest b rt1)" if b: "live b rt1"
  proof (cases "ac_stop b = None")
    case False
    then show ?thesis using brings_settle_stopped [OF b] brings_move_on [OF b] by simp
  next
    case True
    obtain e2 rt2 where eq: "then_do (recordCleanup now b cleanup) (finishRun now (ac_id b) (driver_finish r cleanup)) rt1 = (e2, rt2)"
      by fastforce
    show ?thesis using brings_finish(2) [OF b _ eq, of c "backend_failed r"] True eq by (cases e2) simp_all
  qed
  from brings_check [OF a check, of c ?rest] this show ?thesis
    unfolding collected_def check by (cases e) simp_all
qed

lemma brings_perform:
  assumes a: "live a rt" and f: "storing_op f" and rest: "\<And>rt'. live a rt' \<Longrightarrow> brings c rt' (g rt')"
  shows "brings c rt (case perform f rt of (Inl e, rt) \<Rightarrow> recover (StoreFault e) a rt | (Inr _, rt) \<Rightarrow> g rt)"
proof -
  obtain r rt1 where p: "perform f rt = (r, rt1)" by fastforce
  have "live a rt1" using a live_active [OF perform_same(1) [OF p]] by simp
  then show ?thesis
    using brings_after [OF calmly_perform(1) [OF f p]] brings_recover rest by (cases r) (simp_all add: p)
qed

lemma brings_reclaimed: assumes a: "live a rt" shows "brings c rt (reclaimed c now r cleanup a rt)"
proof -
  obtain e b rt1 where check: "check_deadline now a rt = (e, b, rt1)" by (metis prod_cases3)
  let ?rest = "\<lambda>b rt. if ac_stop b = None \<and> dr_status r = DriverCompleted \<and> in_outputs (r_input (ac_run b)) \<noteq> None
          then (if \<not> co_collects c then recover (OtherFault None) b rt
                else case perform (setRunStatus now (ac_id b) Finalizing) rt of
                    (Inl e, rt) \<Rightarrow> recover (StoreFault e) b rt
                  | (Inr _, rt) \<Rightarrow> move_on (Collecting r cleanup) b rt)
          else collected c now r cleanup b rt"
  have "brings c rt1 (?rest b rt1)" if b: "live b rt1"
    using brings_perform [OF b storing_ops(3), of c "move_on (Collecting r cleanup) b"] brings_recover [OF b]
      brings_collected [OF b] brings_move_on by simp
  from brings_check [OF a check, of c ?rest] this show ?thesis
    unfolding reclaimed_def check by (cases e) simp_all
qed

lemma brings_settled: "live a rt \<Longrightarrow> brings c rt (settled c now r a rt)"
  by (simp add: settled_def brings_move_on brings_reclaimed)

lemma brings_recovered: assumes a: "live a rt" shows "brings c rt (recovered c now e cleanup a rt)"
proof -
  let ?input = "case ac_stop a of
      Some reason \<Rightarrow> \<lparr>f_status = stop_terminal reason, f_stopReason = terminal_text (stop_terminal reason),
        f_cleanupStatus = cleanup, f_output = None, f_error = None\<rparr>
    | None \<Rightarrow> \<lparr>f_status = Failed, f_stopReason = js ''backend_error'', f_cleanupStatus = cleanup, f_output = None,
        f_error = Some \<lparr>pe_code = public_code e, pe_message = js ''Engine execution failed; inspect the local engine setup''\<rparr>\<rparr>"
  obtain p rt1 where eq: "then_do (recordCleanup now a cleanup) (finishRun now (ac_id a) ?input) rt = (p, rt1)" by fastforce
  have "recovered c now e cleanup a rt = release c now True p a rt1"
    using eq by (cases "ac_stop a") (simp_all add: recovered_def finish_stopped_def finish_def)
  moreover have "f_status ?input \<noteq> Completed \<or> ac_stop a = None" by (cases "ac_stop a") simp_all
  ultimately show ?thesis using brings_finish(1) [OF a _ eq] by simp
qed

lemma brings_model_unavailable: assumes a: "live a rt" shows "brings c rt (model_unavailable c now code message a rt)"
proof -
  let ?input = "\<lparr>f_status = Failed, f_stopReason = js ''model_unavailable'', f_cleanupStatus = Confirmed,
           f_output = None, f_error = Some \<lparr>pe_code = code, pe_message = message\<rparr>\<rparr>"
  obtain e rt1 where eq: "then_do (recordCleanup now a Confirmed) (finishRun now (ac_id a) ?input) rt = (e, rt1)" by fastforce
  then show ?thesis
    using brings_finish(2) [OF a _ eq, of c False] by (cases e) (simp_all add: model_unavailable_def)
qed

lemma brings_result: assumes a: "live a rt" shows "brings c rt (result_came c b a rt)"
  using a by (auto simp: result_came_def Let_def brings_settled brings_recover brings_move_on
      split: option.split sum.split prod.split)

lemma calmly_register: "register_all now xs rt = (e, rt') \<Longrightarrow> calmly c rt rt' \<and> rt_active rt' = rt_active rt"
proof (induction xs arbitrary: rt)
  case (Cons x xs)
  obtain r rt1 where p: "perform (registerArtifact now x) rt = (r, rt1)" by fastforce
  show ?case
    using Cons.IH [of rt1] Cons.prems p calmly_perform(1) [OF storing_ops(9) p, of c] perform_same(1) [OF p]
    by (cases r) (auto intro: calmly_trans)
qed simp

lemma calmly_missing: "note_missing now i names rt = (e, rt') \<Longrightarrow> calmly c rt rt' \<and> rt_active rt' = rt_active rt"
proof (induction names arbitrary: rt)
  case (Cons name names)
  obtain r rt1 where p: "perform (appendEvent now i (simple_draft ''ARTIFACT_MISSING'' [(js ''name'', JStr name)])) rt = (r, rt1)"
    by fastforce
  show ?case
    using Cons.IH [of rt1] Cons.prems p calmly_perform(1) [OF storing_ops(4) p, of c] perform_same(1) [OF p]
    by (cases r) (auto intro: calmly_trans)
qed simp

lemma brings_captured: assumes a: "live a rt" shows "brings c rt (captured b r cleanup a rt)"
proof (rule brings_if)
  assume inv: "rt_inv c rt"
  obtain e d rt1 where check: "check_deadline (an_now b) a rt = (e, d, rt1)" by (metis prod_cases3)
  obtain e2 rt2 where reg: "register_all (an_now b) (an_artifacts b) rt1 = (e2, rt2)" by fastforce
  obtain e3 rt3 where miss: "note_missing (an_now b) (ac_id d) (an_missing b) rt2 = (e3, rt3)" by fastforce
  note k = calmly_check [OF inv a check] and c2 = calmly_register [OF reg, of c] and c3 = calmly_missing [OF miss, of c]
  have on: "brings c rt (move_on (Discarding r cleanup x) d rt')" if "calmly c rt1 rt'" "rt_active rt' = rt_active rt1" for x rt'
    using brings_after [OF calmly_trans [OF k(1) that(1)]] brings_move_on k(2) live_active [OF that(2)] by simp
  show ?thesis
    using on [of rt1] on [of rt2] on [of rt3] c2 c3 calmly_trans [of c rt1 rt2 rt3] check reg miss
    by (auto simp: captured_def split: option.split)
qed

section \<open>The ends of the waits\<close>

lemma worker_closed_live [simp]: "live (worker_closed b a) rt = live a rt" "ac_id (worker_closed b a) = ac_id a"
  by (simp_all add: worker_closed_def)

lemma brings_advance:
  assumes inv: "rt_inv c rt" and a: "a \<in> set (rt_active rt)"
  shows "brings c rt (advance c b a rt)"
proof -
  have live: "live a rt" by (rule live_in [OF a])
  have last: "ended (ac_id a) (rt_store rt)" if "ac_place a = LastModels f None" for f
    using rt_invD(11) [OF inv] a that by (auto simp: active_ok_def)
  have reclaim: "brings c rt (reclaimed c now r st (worker_closed b a) (set_active (worker_closed b a) rt))"
      if "\<And>f. ac_place a \<noteq> LastModels f None" for now r st
  proof -
    have "calmly c rt (set_active (worker_closed b a) rt)" "live (worker_closed b a) (set_active (worker_closed b a) rt)"
      using calmly_set [of "worker_closed b a" rt c] live that by (simp_all add: worker_closed_def)
    then show ?thesis by (intro brings_after [OF _ brings_reclaimed])
  qed
  have install: "brings c rt (inspected now x a (rt\<lparr>rt_installations := m\<rparr>))" for now x m
  proof -
    have c1: "calmly c rt (rt\<lparr>rt_installations := m\<rparr>)" by (rule calmly_aside) simp_all
    have "live a (rt\<lparr>rt_installations := m\<rparr>)" using live by (simp add: live_def)
    then show ?thesis
      using calmly_inspected [OF calmly_inv [OF c1 inv]] calmly_trans [OF c1] by (blast intro: brings_calmly)
  qed
  note simps = advance_def Let_def
  show ?thesis
  proof (cases "ac_place a")
    case (LastModels f pending)
    then show ?thesis using brings_leave [OF live, of c pending] last by (simp add: simps)
  next
    case (Reclaiming r)
    then show ?thesis using reclaim brings_recover live by (simp add: simps split: option.split)
  next
    case Beginning
    then show ?thesis
      using live by (auto simp: simps brings_model_unavailable brings_recover brings_move_on split: option.split fault.split)
  next
    case Inspecting
    then show ?thesis using live install by (simp add: simps brings_recover split: option.split)
  next
    case (Recovering e stop)
    then show ?thesis
      using live by (cases stop) (simp_all add: simps brings_recovered brings_calmly split: option.split stopping.split)
  next
    case (AwaitsStop r)
    then show ?thesis
      using live by (simp add: simps brings_settle_stopped brings_recover brings_calmly split: option.split stopping.split)
  qed (use live in \<open>simp_all add: simps brings_recover brings_move_on brings_calmly brings_result brings_settled brings_captured
      brings_collected split: option.split\<close>)
qed

lemma calmly_stop_advance:
  assumes inv: "rt_inv c rt" and a: "a \<in> set (rt_active rt)"
  shows "calmly c rt (stop_advance b a rt)"
proof -
  have live: "live a rt" by (rule live_in [OF a])
  have "ended (ac_id a) (rt_store rt)" if "ac_place a = LastModels f None" for f
    using rt_invD(11) [OF inv] a that by (auto simp: active_ok_def)
  then have "calmly c rt (set_active (a\<lparr>ac_stopping := s\<rparr>) rt)" "calmly c rt (set_active (worker_closed b a\<lparr>ac_stopping := s\<rparr>) rt)" for s
    using live by (auto intro!: calmly_set(1) simp: worker_closed_def)
  then show ?thesis by (simp add: stop_advance_def split: option.split stopping.split)
qed

end
