(* ===== verification/RuntimeLife.thy ===== *)
theory RuntimeLife
  imports RuntimeEnds Machines
begin

text \<open>
  Every step of the runtime is made of the moves of RuntimeMoves, so what they keep holds after any sequence
  of requests, messages, timers, ends of waits and restarts.
\<close>

section \<open>Requests\<close>

abbreviation step_brings :: "config \<Rightarrow> runtime \<Rightarrow> answered \<Rightarrow> bool" where
  "step_brings c rt x \<equiv> brings c rt (snd x)"

lemma brings_refl [simp]: "brings c rt rt"
  by (simp add: brings_def)

lemma snd_refuse [simp]: "snd (refuse code message rt) = rt"
  by (simp add: refuse_def)

lemma snd_unavailable [simp]: "snd (unavailable rt) = rt"
  by (simp add: unavailable_def)

lemma snd_reply [simp]: "snd (reply_of f x) = snd x"
  by (cases "(f, x)" rule: reply_of.cases) simp_all

lemma snd_quiet [simp]: "snd (quiet_reply x) = snd x"
  by (cases x rule: quiet_reply.cases) simp_all

lemma brings_stored: "storing_op f \<Longrightarrow> brings c rt (snd (perform f rt))"
  by (rule brings_calmly, rule calmly_perform(1) [OF _ surjective_pairing])

lemma open_session_brings: "step_brings c rt (open_session c uuid now engineId workspaceId routing rt)"
  by (simp add: open_session_def brings_stored storing_ops split: option.split)

lemma perform_refl: "f (rt_store rt) = (r, rt_store rt) \<Longrightarrow> perform f rt = (r, rt)"
  by (simp add: perform_eq)

lemma enqueue_brings:
  assumes inv: "rt_inv c rt" and room: "length (rt_queue rt) < co_maxQueuedRuns c"
    and f: "acceptRun (co_digest c) uuid now sid input key (rt_store rt) = (Inr v, s)" and created: "acc_created v"
  shows "brings c rt (enqueue c now (r_id (acc_run v)) (rt\<lparr>rt_store := s\<rparr>))"
proof -
  note store = rt_invD(1) [OF inv]
  let ?rt1 = "rt\<lparr>rt_store := s, rt_queue := rt_queue rt @ [r_id (acc_run v)], rt_deadlines := rt_deadlines rt @ [r_id (acc_run v)]\<rparr>"
  have "store_moves (rt_store rt) s"
    using acceptRun_moves [OF store, of "co_digest c" uuid now sid input key] f by simp
  then have move: "rt_move c rt ?rt1"
    using accept_tally(1) [OF store f created] room by (intro accepting) (simp_all add: run_ids_def)
  have inv1: "rt_inv c ?rt1" by (rule rt_move_inv [OF inv move])
  note pumped = pump_calm [OF inv1, of now]
  have "(rt_move c)\<^sup>*\<^sup>* ?rt1 (pump c now ?rt1)" using calmly_moves [OF _ inv1] pumped by blast
  then show ?thesis
    using converse_rtranclp_into_rtranclp [of "rt_move c", OF move] pumped by (simp add: brings_def enqueue_def)
qed

lemma accept_brings: "step_brings c rt (accept_input c uuid now sid input key rt)"
proof (rule brings_if)
  assume inv: "rt_inv c rt"
  note store = rt_invD(1) [OF inv]
  let ?f = "acceptRun (co_digest c) uuid now sid input key"
    and ?known = "case key of Some k \<Rightarrow> if k = [] then Inr None else findRunByKey sid k (rt_store rt) | None \<Rightarrow> Inr None"
  obtain r s where f: "?f (rt_store rt) = (r, s)" by fastforce
  then have p: "perform ?f rt = (r, rt\<lparr>rt_store := s\<rparr>)" by (simp add: perform_eq)
  obtain known where known: "?known = known" by blast
  consider e where "known = Inl e" | run where "known = Inr (Some run)"
    | "known = Inr None" "\<not> length (rt_queue rt) < co_maxQueuedRuns c"
    | e where "known = Inr None" "length (rt_queue rt) < co_maxQueuedRuns c" "r = Inl e"
    | v where "known = Inr None" "length (rt_queue rt) < co_maxQueuedRuns c" "r = Inr v"
    by (metis option.exhaust sum.exhaust)
  then show "step_brings c rt (accept_input c uuid now sid input key rt)"
  proof cases
    case (2 run)
    with known obtain k where "key = Some k" "findRunByKey sid k (rt_store rt) = Inr (Some run)"
      by (auto split: option.splits if_splits)
    then have "s = rt_store rt" using known_key f by blast
    then show ?thesis using 2 p by (simp add: accept_input_def known)
  next
    case (4 e)
    then show ?thesis using p accept_failed [OF f [unfolded 4(3)]] by (simp add: accept_input_def known)
  next
    case (5 v)
    then show ?thesis
      using p enqueue_brings [OF inv 5(2) f [unfolded 5(3)]] accept_tally(2) [OF store f [unfolded 5(3)]]
      by (simp add: accept_input_def known)
  qed (simp_all add: accept_input_def known)
qed

lemma submit_brings: "step_brings c rt (submit c uuid now sid input timeoutMs key rt)"
  by (simp add: submit_def accept_brings split: sum.split option.split)

lemma stop_brings: "brings c rt (snd (stop now i reason rt))"
  by (rule brings_if, rule brings_calmly, rule calmly_stop(1) [OF _ surjective_pairing])

lemma cancel_brings: "step_brings c rt (cancel now i rt)"
proof -
  obtain e rt1 where eq: "stop now i StopCancelled rt = (e, rt1)" by fastforce
  then show ?thesis using stop_brings [of c rt now i StopCancelled] by (cases e) (simp_all add: cancel_def split: sum.split)
qed

lemma stop_all_brings: "brings c rt (snd (stop_all now rs rt))"
proof (induction rs arbitrary: rt)
  case (Cons run rs)
  obtain e rt1 where eq: "stop now (r_id run) StopCancelled rt = (e, rt1)" by fastforce
  then show ?case
    using Cons.IH [of rt] Cons.IH [of rt1] stop_brings [of c rt now "r_id run" StopCancelled]
    by (cases e) (auto intro: brings_trans)
qed simp

section \<open>Timers\<close>

lemma clear_simps [simp]:
  "rt_store (clear_deadline i rt) = rt_store rt" "rt_active (clear_deadline i rt) = rt_active rt"
  "active_of sid (clear_deadline i rt) = active_of sid rt" "clear_deadline i (clear_deadline j rt) = clear_deadline j (clear_deadline i rt)"
  "clear_deadline i (clear_deadline i rt) = clear_deadline i rt"
  "set_active a (clear_deadline i rt) = clear_deadline i (set_active a rt)"
  by (simp_all add: clear_deadline_def active_of_def set_active_def removeAll_filter_not_eq conj_commute)

abbreviation disarmed :: "jstring \<Rightarrow> 'a \<times> runtime \<Rightarrow> 'a \<times> runtime" where
  "disarmed i x \<equiv> (fst x, clear_deadline i (snd x))"

lemma disarm_perform [simp]: "perform f (clear_deadline i rt) = disarmed i (perform f rt)"
  by (simp add: perform_def clear_deadline_def split: prod.split)

lemma disarm_then_do [simp]: "then_do f g (clear_deadline i rt) = disarmed i (then_do f g rt)"
  by (auto simp: then_do_def split: prod.split sum.split)

lemma disarm_stop: "stop now j reason (clear_deadline i rt) = disarmed i (stop now j reason rt)"
proof -
  have "(clear_deadline i rt)\<lparr>rt_queue := q\<rparr> = clear_deadline i (rt\<lparr>rt_queue := q\<rparr>)" "rt_queue (clear_deadline i rt) = rt_queue rt" for q
    by (simp_all add: clear_deadline_def)
  then have "stop_queued now j reason (clear_deadline i rt) = disarmed i (stop_queued now j reason rt)"
    by (simp add: stop_queued_def split: prod.split option.split)
  moreover have "stop_active now a reason (clear_deadline i rt) = disarmed i (stop_active now a reason rt)" for a
    by (simp add: stop_active_def Let_def split: prod.split sum.split)
  ultimately show ?thesis by (simp add: stop_def split: sum.split option.split)
qed

lemma timed_out_brings: "brings c rt (timed_out now i rt)"
proof (cases "i \<in> set (rt_deadlines rt)")
  case False
  then show ?thesis by (simp add: timed_out_def)
next
  case True
  obtain e rt1 where eq: "stop now i StopTimedOut rt = (e, rt1)" by fastforce
  then have out: "timed_out now i rt = (case e of None \<Rightarrow> clear_deadline i rt1 | Some _ \<Rightarrow> failing (clear_deadline i rt1))"
    using True by (simp add: timed_out_def in_background_def disarm_stop split: option.split)
  show ?thesis
  proof (rule brings_if)
    assume inv: "rt_inv c rt"
    note stopped = calmly_stop [OF inv eq]
    have "calmly c rt1 (clear_deadline i rt1)" if "e = None" using stopped(4) that by (intro calmly_disarm) blast
    moreover have "calmly c rt1 (failing (clear_deadline i rt1))"
    proof -
      have "calmly c (failing rt1) (clear_deadline i (failing rt1))" by (intro calmly_disarm) simp
      then show ?thesis using calmly_trans [OF calmly_failing] by simp
    qed
    ultimately have "calmly c rt1 (timed_out now i rt)" by (simp add: out split: option.split)
    then show "brings c rt (timed_out now i rt)" by (rule brings_calmly [OF calmly_trans [OF stopped(1)]])
  qed
qed

section \<open>Messages and decisions\<close>

lemma then_do_brings: "storing_op f \<Longrightarrow> storing_op g \<Longrightarrow> brings c rt (snd (then_do f g rt))"
  by (rule brings_calmly, rule calmly_then(1) [OF _ _ surjective_pairing])

lemma brings_aside:
  "rt_store rt' = rt_store rt \<Longrightarrow> rt_active rt' = rt_active rt \<Longrightarrow> rt_queue rt' = rt_queue rt \<Longrightarrow>
   rt_deadlines rt' = rt_deadlines rt \<Longrightarrow> (isReady rt' \<Longrightarrow> isReady rt) \<Longrightarrow> brings c rt rt'"
  by (intro brings_calmly calmly_aside)

lemma observe_engine_brings: "brings c rt (observe_engine a draft committed rt)"
  by (rule brings_aside) (auto simp: observe_engine_def isReady_def split: option.splits if_splits)

lemma observed_brings:
  assumes "storing_op f"
  shows "step_brings c rt (case perform f rt of (Inl e, rt) \<Rightarrow> (Inl (StoreFault e), rt)
    | (Inr committed, rt) \<Rightarrow> (Inr Quietly, observe_engine a draft committed rt))"
proof -
  obtain r rt1 where p: "perform f rt = (r, rt1)" by fastforce
  have "brings c rt rt1" using brings_stored [OF assms, of c rt] by (simp add: p)
  moreover have "brings c rt (observe_engine a draft v rt1)" for v by (rule brings_trans [OF calculation observe_engine_brings])
  ultimately show ?thesis by (cases r) (simp_all add: p)
qed

lemma receive_event_brings: "step_brings c rt (receive_event now a draft rt)"
  by (simp add: receive_event_def observed_brings storing_ops split: option.split json.split)

lemma receive_brings:
  assumes inv: "rt_inv c rt" and a: "a \<in> set (rt_active rt)"
  shows "step_brings c rt (receive now m a rt)"
proof (cases "getRun (ac_id a) (rt_store rt)")
  case (Inl e)
  then show ?thesis by (simp add: receive_def)
next
  case (Inr run)
  let ?rt1 = "set_active (observe_message (m_payload m) a) rt"
  have "ended (ac_id a) (rt_store rt)" if "ac_place a = LastModels f None" for f
    using rt_invD(11) [OF inv] a that by (auto simp: active_ok_def)
  then have first: "brings c rt ?rt1"
    using live_in [OF a] by (intro brings_calmly calmly_set(1)) (auto simp: observe_message_def)
  have "step_brings c ?rt1 (case m_payload m of
              WorkerStarted \<Rightarrow> reply_of (\<lambda>_. Quietly) (perform (setRunStatus now (r_id run) Running) ?rt1)
            | WorkerEvent draft \<Rightarrow> receive_event now a (draft\<lparr>d_sourceSeq := Some (m_seq m)\<rparr>) ?rt1
            | AsksPermission i tool prompt options \<Rightarrow>
                quiet_reply (then_do (createPermission now (asked_permission now run i tool prompt options))
                  (setRunStatus now (r_id run) WaitingPermission) ?rt1)
            | PermissionIsApplied i \<Rightarrow>
                quiet_reply (then_do (markPermissionApplied now i) (setRunStatus now (r_id run) Running) ?rt1)
            | WorkerArtifact \<Rightarrow> (Inr Quietly, ?rt1)
            | WorkerResult \<Rightarrow> (Inr Quietly, ?rt1))"
    by (simp add: brings_stored then_do_brings receive_event_brings storing_ops split: worker_payload.split)
  then show ?thesis
    using Inr brings_trans [OF first] by (simp add: receive_def Let_def)
qed

lemma published_brings: "step_brings c rt (published now x a rt)"
  by (simp add: published_def brings_stored storing_ops split: sum.split)

lemma decide_brings: "step_brings c rt (decide now i optionId rt)"
  by (simp add: decide_def brings_stored storing_ops split: sum.split option.split)

section \<open>Suspending and closing\<close>

lemma suspend_brings: "step_brings c rt (suspend_asked c sid rt)"
proof -
  have "brings c rt (rt\<lparr>rt_suspending := l\<rparr>)" for l by (rule brings_aside) (simp_all add: isReady_def)
  then show ?thesis by (simp add: suspend_asked_def split: sum.split option.split)
qed

lemma suspended_brings: "step_brings c rt (suspended b sid rt)"
proof -
  have "brings c rt (rt\<lparr>rt_suspending := l\<rparr>)" "brings c rt (rt\<lparr>rt_suspending := l, rt_installations := m\<rparr>)" for l m
    by (rule brings_aside; simp add: isReady_def)+
  then show ?thesis by (simp add: suspended_def Let_def split: sum.split option.split)
qed

lemma close_session_brings: "step_brings c rt (close_session_asked now sid rt)"
proof -
  let ?rt0 = "rt\<lparr>rt_installations := jdelete sid (rt_installations rt)\<rparr>"
  obtain r rt1 where p: "perform (setSessionStatus now sid SessionClosing) ?rt0 = (r, rt1)" by fastforce
  have first: "brings c rt ?rt0" by (rule brings_aside) simp_all
  have "brings c ?rt0 rt1" using brings_stored [OF storing_ops(2), of c ?rt0 now sid SessionClosing] by (simp add: p)
  with first have c1: "brings c rt rt1" by (rule brings_trans)
  have closing: "brings c rt2 (rt2\<lparr>rt_closings := l\<rparr>)" for rt2 l by (rule brings_aside) (simp_all add: isReady_def)
  have stopped: "brings c rt rt2 \<and> brings c rt (rt2\<lparr>rt_closings := l\<rparr>)" if "stop_all now rs rt1 = (e, rt2)" for rs e rt2 l
    using brings_trans [OF c1] stop_all_brings [of c rt1 now rs] brings_trans [OF _ closing] that by (metis snd_conv)
  show ?thesis
    using first c1 stopped p
    by (auto simp: close_session_asked_def Let_def split: sum.split prod.split option.split)
qed

lemma session_closed_brings: "step_brings c rt (session_closed b n rt)"
proof -
  let ?over = "rt\<lparr>rt_closings := take n (rt_closings rt) @ drop (Suc n) (rt_closings rt)\<rparr>"
  have over: "brings c rt ?over" by (rule brings_aside) (simp_all add: isReady_def)
  have "brings c rt (snd (perform (setSessionStatus (an_now b) sid SessionClosed) ?over))" for sid
    by (rule brings_trans [OF over brings_stored [OF storing_ops(2)]])
  with over show ?thesis by (simp add: session_closed_def Let_def split: prod.split option.split)
qed

lemma close_brings: "step_brings c rt (close now rt)"
proof -
  let ?rt0 = "rt\<lparr>rt_closed := True\<rparr>"
  have first: "brings c rt ?rt0" by (rule brings_aside) simp_all
  have ends: "brings c rt2 (rt2\<lparr>rt_ends := True\<rparr>)" for rt2 by (rule brings_aside) (simp_all add: isReady_def)
  have stopped: "brings c rt rt2 \<and> brings c rt (rt2\<lparr>rt_ends := True\<rparr>)" if "stop_all now rs ?rt0 = (e, rt2)" for rs e rt2
    using brings_trans [OF first] stop_all_brings [of c ?rt0 now rs] brings_trans [OF _ ends] that by (metis snd_conv)
  show ?thesis
    using first stopped by (auto simp: close_def Let_def split: sum.split prod.split option.split)
qed

lemma closed_down_brings: "brings c rt (closed_down rt)"
proof -
  have "brings c rt (rt\<lparr>rt_deadlines := []\<rparr>)" if "rt_closed rt"
    by (intro brings_calmly calmly_move silencing) (use that in \<open>simp add: isReady_def\<close>)
  then show ?thesis by (simp add: closed_down_def)
qed

section \<open>The next process\<close>

text \<open>What the constructor does to the store: Runs end interrupted, and nothing else ends.\<close>

definition interrupts :: "store \<Rightarrow> store \<Rightarrow> bool" where
  "interrupts s s' \<longleftrightarrow>
     store_moves s s' \<and> fst (tally s') = fst (tally s) \<and>
     (\<exists>is. endings s' = endings s @ map (\<lambda>i. (i, terminalEvent Interrupted)) is)"

lemma interrupts_refl [simp]: "interrupts s s"
  by (auto simp: interrupts_def intro: exI [of _ "[]"])

lemma interrupts_trans:
  assumes st: "interrupts s t" and tu: "interrupts t u" shows "interrupts s u"
proof -
  obtain is1 where "endings t = endings s @ map (\<lambda>i. (i, terminalEvent Interrupted)) is1"
    using st by (auto simp: interrupts_def)
  moreover obtain is2 where "endings u = endings t @ map (\<lambda>i. (i, terminalEvent Interrupted)) is2"
    using tu by (auto simp: interrupts_def)
  ultimately have "endings u = endings s @ map (\<lambda>i. (i, terminalEvent Interrupted)) (is1 @ is2)" by simp
  then have "\<exists>is. endings u = endings s @ map (\<lambda>i. (i, terminalEvent Interrupted)) is" by blast
  moreover have "store_moves s u" "fst (tally u) = fst (tally s)" using st tu by (auto simp: interrupts_def)
  ultimately show ?thesis unfolding interrupts_def by blast
qed

lemma interrupts_inv: "interrupts s s' \<Longrightarrow> store_inv s \<Longrightarrow> store_inv s'"
  by (auto simp: interrupts_def intro: store_moves_inv)

lemma interrupts_ended: "interrupts s s' \<Longrightarrow> ended i s \<Longrightarrow> ended i s'"
  by (auto simp: interrupts_def ended_def)

lemma interrupts_storing: "storing_op f \<Longrightarrow> store_inv s \<Longrightarrow> f s = (r, s') \<Longrightarrow> interrupts s s'"
  using storing_opD [of f s r s'] by (auto simp: interrupts_def tally_def intro: exI [of _ "[]"])

lemma interrupts_finish:
  assumes inv: "store_inv s" and eq: "finish now i Interrupted reason cleanup s = (r, s')"
  shows "interrupts s s'" "r = Inr v \<Longrightarrow> ended i s'"
proof -
  show "interrupts s s'"
  proof (cases r)
    case (Inl e)
    then have "s' = s" using eq failed_same [OF finishRun_def] by (simp add: finish_def)
    then show ?thesis by simp
  next
    case (Inr v)
    note eq = eq [unfolded finish_def Inr]
    have "store_moves s s'" using finishRun_moves [OF inv] eq by (metis snd_conv)
    moreover have "\<exists>is. endings s' = endings s @ map (\<lambda>i. (i, terminalEvent Interrupted)) is"
      using finish_tally(2) [OF inv eq] by (auto intro: exI [of _ "[]"] exI [of _ "[i]"])
    ultimately show ?thesis using finish_tally(1) [OF inv eq] by (simp add: interrupts_def)
  qed
  show "r = Inr v \<Longrightarrow> ended i s'"
    using finish_tally(3) [OF inv, of now i] eq by (force simp: ended_def finish_def)
qed

lemma interrupts_and_then:
  assumes inv: "store_inv s" and f: "\<And>r s'. f s = (r, s') \<Longrightarrow> interrupts s s'"
    and g: "\<And>a s1. f s = (Inr a, s1) \<Longrightarrow> store_inv s1 \<Longrightarrow> interrupts s1 (snd (g a s1))"
  shows "interrupts s (snd (and_then f g s))"
proof -
  obtain r s1 where eq: "f s = (r, s1)" by fastforce
  note first = f [OF eq]
  show ?thesis
  proof (cases r)
    case (Inl e)
    then show ?thesis using eq first by (simp add: and_then_def)
  next
    case (Inr a)
    then have "interrupts s1 (snd (g a s1))" using g eq interrupts_inv [OF first inv] by blast
    then show ?thesis using interrupts_trans [OF first] eq Inr by (simp add: and_then_def)
  qed
qed

lemma interrupts_closing:
  assumes "store_inv s" "\<And>s1. store_inv s1 \<Longrightarrow> interrupts s1 (snd (f s1))"
  shows "interrupts s (snd (and_then (setSessionStatus now i SessionClosed) (\<lambda>_. f) s))"
  by (rule interrupts_and_then [OF assms(1)], erule interrupts_storing [OF storing_ops(2) assms(1)], rule assms(2))

lemma interrupt_open_interrupts:
  "store_inv s \<Longrightarrow> interrupts s (snd (interrupt_open now workers rs s))"
proof (induction rs arbitrary: s)
  case Nil
  then show ?case by (simp add: give_def)
next
  case (Cons run rs)
  show ?case
  proof (cases "isTerminal (r_status run)")
    case True
    then show ?thesis using Cons by simp
  next
    case False
    have "interrupts s (snd (and_then (finish now (r_id run) Interrupted (js ''gateway_restarted'') cleanup)
        (\<lambda>_. and_then (setSessionStatus now (r_sessionId run) SessionClosed) (\<lambda>_. interrupt_open now workers rs)) s))" for cleanup
      by (rule interrupts_and_then [OF Cons.prems], erule interrupts_finish(1) [OF Cons.prems])
        (rule interrupts_closing, assumption, rule Cons.IH)
    with False show ?thesis by simp
  qed
qed

definition closed_in :: "jstring \<Rightarrow> store \<Rightarrow> bool" where
  "closed_in i s \<longleftrightarrow> (\<exists>row. find_session i s = Some row \<and> s_status (sr_record row) = SessionClosed)"

lemma set_closed:
  assumes inv: "store_inv s" and eq: "setSessionStatus now i SessionClosed s = (Inr v, s')"
  shows "closed_in i s'"
proof -
  obtain session where get: "getSession i s = Inr session" using eq by (auto simp: setSessionStatus_def)
  obtain row where row: "find_session i s = Some row" "s_status (sr_record row) = s_status session"
    using getSession_find [OF get] by blast
  have sid: "s_id session = i" using getSession_row [OF get inv] by blast
  have "s_status session = SessionClosed \<and> s' = s \<or> s' = saveSession (session\<lparr>s_status := SessionClosed, s_updatedAt := now\<rparr>) s"
    using eq get by (auto simp: setSessionStatus_def Let_def split: if_splits)
  with row sid show ?thesis by (auto simp: closed_in_def find_saveSession)
qed

lemma interrupts_closed: "interrupts s s' \<Longrightarrow> store_inv s \<Longrightarrow> closed_in i s \<Longrightarrow> closed_in i s'"
proof -
  assume "interrupts s s'" "store_inv s" "closed_in i s"
  then obtain row where row: "find_session i s = Some row" "s_status (sr_record row) = SessionClosed"
    by (auto simp: closed_in_def)
  have "sessions_later s s'"
    using \<open>interrupts s s'\<close> moves_later(2) [OF _ \<open>store_inv s\<close>] by (simp add: interrupts_def)
  then obtain row' where "find_session i s' = Some row'" "session_grows (sr_record row) (sr_record row')"
    using row(1) unfolding sessions_later_def by blast
  with row(2) show "closed_in i s'" by (cases "s_status (sr_record row')") (auto simp: closed_in_def session_grows_def)
qed

lemma interrupt_open_ends:
  assumes "store_inv s" "interrupt_open now workers rs s = (Inr u, s')" "run \<in> set rs" "\<not> isTerminal (r_status run)"
  shows "ended (r_id run) s' \<and> closed_in (r_sessionId run) s'"
  using assms
proof (induction rs arbitrary: s)
  case (Cons r rs)
  show ?case
  proof (cases "isTerminal (r_status r)")
    case True
    with Cons show ?thesis by auto
  next
    case False
    with Cons.prems(2) obtain v s1 x s2 where steps:
        "finish now (r_id r) Interrupted (js ''gateway_restarted'')
          (case workers (r_sessionId r) of Some status \<Rightarrow> status | None \<Rightarrow> Unconfirmed) s = (Inr v, s1)"
        "setSessionStatus now (r_sessionId r) SessionClosed s1 = (Inr x, s2)" "interrupt_open now workers rs s2 = (Inr u, s')"
      by auto
    note i1 = interrupts_finish [OF Cons.prems(1) steps(1)]
    have i2: "interrupts s1 s2"
      using interrupts_storing [OF storing_ops(2) _ steps(2)] interrupts_inv [OF i1(1) Cons.prems(1)] by blast
    have inv1: "store_inv s1" by (rule interrupts_inv [OF i1(1) Cons.prems(1)])
    have inv2: "store_inv s2" using interrupts_inv [OF interrupts_trans [OF i1(1) i2] Cons.prems(1)] .
    have i3: "interrupts s2 s'" using interrupt_open_interrupts [OF inv2, of now workers rs] steps(3) by simp
    show ?thesis
      using Cons.IH [OF inv2 steps(3)] Cons.prems(3,4) i1(2) interrupts_ended [OF interrupts_trans [OF i2 i3]]
        interrupts_closed [OF i3 inv2 set_closed [OF inv1 steps(2)]] by auto
  qed
qed simp

lemma close_unusable_interrupts: "store_inv s \<Longrightarrow> interrupts s (snd (close_unusable c now ss s))"
proof (induction ss arbitrary: s)
  case Nil
  then show ?case by (simp add: give_def)
next
  case (Cons session ss)
  have closing: "interrupts s (snd (and_then (setSessionStatus now (s_id session) SessionClosed) (\<lambda>_. close_unusable c now ss) s))"
    by (rule interrupts_closing [OF Cons.prems], rule Cons.IH)
  have "interrupts s (snd (and_then (reading (lost_backend session))
      (\<lambda>lost. if lost then and_then (setSessionStatus now (s_id session) SessionClosed) (\<lambda>_. close_unusable c now ss)
        else close_unusable c now ss) s))"
    by (rule interrupts_and_then [OF Cons.prems]) (auto simp: reading_def intro: closing Cons.IH)
  with closing Cons.IH [OF Cons.prems] show ?case by (simp add: Let_def split: option.split)
qed

lemma listRuns_all:
  assumes inv: "store_inv s" and eq: "listRuns None s = Inr rs" and row: "find_run i s = Some row"
  shows "\<exists>run \<in> set rs. r_id run = i \<and> r_sessionId run = rr_session row \<and> r_status run = r_status (rr_record row)"
proof -
  let ?read = "\<lambda>v. v\<lparr>r_configSnapshot := Some (case r_configSnapshot v of
             Some c \<Rightarrow> c | None \<Rightarrow> JObj [(js ''status'', JStr (js ''unknown''))])\<rparr>"
  have "rs = map (\<lambda>r. ?read (rr_record r)) (sort_key rr_created (runs s))"
    using eq by (auto simp: listRuns_def readRun_Inr intro: map_result_Inr)
  moreover have "row \<in> set (runs s)" "rr_id row = i" using find_Some_set [OF row] by auto
  moreover have "r_id (rr_record row) = i" "r_sessionId (rr_record row) = rr_session row"
    using inv_run [OF inv \<open>row \<in> set (runs s)\<close>] \<open>rr_id row = i\<close> by (simp_all add: run_row_ok_def)
  ultimately show ?thesis by force
qed

lemma interrupts_reading:
  "store_inv s \<Longrightarrow> (\<And>a. interrupts s (snd (f a s))) \<Longrightarrow> interrupts s (snd (and_then (reading g) f s))"
  by (rule interrupts_and_then) (auto simp: reading_def)

lemma recovery_interrupts:
  assumes inv: "store_inv s" shows "interrupts s (snd (recovery c now workers s))"
  unfolding recovery_def
proof (rule interrupts_reading [OF inv], rule interrupts_and_then [OF inv])
  show "interrupt_open now workers rs s = (r, s') \<Longrightarrow> interrupts s s'" for rs r s'
    using interrupt_open_interrupts [OF inv, of now workers rs] by simp
  show "store_inv s1 \<Longrightarrow> interrupts s1 (snd (and_then (reading listSessions) (close_unusable c now) s1))" for s1
    by (rule interrupts_reading) (auto intro: close_unusable_interrupts)
qed

lemma recovery_ends:
  assumes inv: "store_inv s" and eq: "recovery c now workers s = (Inr u, s')" and row: "find_run i s = Some row"
  shows "ended i s'" "\<not> ended i s \<Longrightarrow> closed_in (rr_session row) s'"
proof -
  obtain rs v s1 ss where steps: "listRuns None s = Inr rs" "interrupt_open now workers rs s = (Inr v, s1)"
      "close_unusable c now ss s1 = (Inr u, s')"
    using eq by (auto simp: recovery_def)
  have i1: "interrupts s s1" using interrupt_open_interrupts [OF inv, of now workers rs] steps(2) by simp
  have inv1: "store_inv s1" by (rule interrupts_inv [OF i1 inv])
  have i2: "interrupts s1 s'" using close_unusable_interrupts [OF inv1, of c now ss] steps(3) by simp
  obtain run where run: "run \<in> set rs" "r_id run = i" "r_sessionId run = rr_session row" "r_status run = r_status (rr_record row)"
    using listRuns_all [OF inv steps(1) row] by blast
  have "ended i s1 \<and> (\<not> ended i s \<longrightarrow> closed_in (rr_session row) s1)"
  proof (cases "isTerminal (r_status run)")
    case True
    then have "ended i s" using run row ended_status [OF inv] by (auto simp: status_of_def isTerminal_iff)
    then show ?thesis using interrupts_ended [OF i1] by blast
  next
    case False
    then show ?thesis using interrupt_open_ends [OF inv steps(2) run(1)] run by simp
  qed
  then show "ended i s'" "\<not> ended i s \<Longrightarrow> closed_in (rr_session row) s'"
    using interrupts_ended [OF i2] interrupts_closed [OF i2 inv1] by blast+
qed

lemma started_fields [simp]:
  "rt_store (snd (started c now workers s)) = snd (recovery c now workers s)"
  "rt_active (snd (started c now workers s)) = []" "rt_queue (snd (started c now workers s)) = []"
  "isReady (snd (started c now workers s)) \<longleftrightarrow> (\<exists>u. fst (recovery c now workers s) = Inr u)"
  by (auto simp: started_def isReady_def split: prod.split sum.split)

lemma started_move:
  assumes inv: "rt_inv c rt" shows "rt_move c rt (snd (started c now workers (rt_store rt)))"
proof -
  let ?s = "rt_store rt" and ?s' = "snd (recovery c now workers (rt_store rt))"
  note store = rt_invD(1) [OF inv]
  have i: "interrupts ?s ?s'" by (rule recovery_interrupts [OF store])
  then obtain gone where gone: "endings ?s' = endings ?s @ map (\<lambda>i. (i, terminalEvent Interrupted)) gone"
    and moved: "store_moves ?s ?s'" "fst (tally ?s') = fst (tally ?s)" by (auto simp: interrupts_def)
  have all: "ended i ?s'" if "fst (recovery c now workers ?s) = Inr u" "i \<in> run_ids ?s'" for i u
  proof -
    have "i \<in> run_ids ?s" using that(2) moved(2) by (simp add: run_ids_tally)
    then obtain row where "find_run i ?s = Some row" using run_ids_find by blast
    moreover have "recovery c now workers ?s = (Inr u, ?s')" using that(1) by (simp add: prod_eq_iff)
    ultimately show ?thesis using recovery_ends(1) [OF store] by blast
  qed
  show ?thesis
    by (rule restarting [where gone = gone]) (use moved gone all in auto)
qed

section \<open>The runtime as a machine\<close>

lemma at_work_brings:
  assumes inv: "rt_inv c rt" and f: "\<And>a. a \<in> set (rt_active rt) \<Longrightarrow> step_brings c rt (f a)"
  shows "step_brings c rt (at_work f sid rt)"
  using f active_of_in [of sid rt] by (auto simp: at_work_def split: option.split)

lemma step_brings_all: assumes inv: "rt_inv c rt" shows "step_brings c rt (rt_step c x rt)"
proof (cases x)
  case (Restarts now workers)
  have "waits_rightly c (snd (started c now workers (rt_store rt)))" by (simp add: waits_rightly_def)
  with started_move [OF inv] show ?thesis by (auto simp: brings_def Restarts)
qed (use inv in \<open>auto intro!: at_work_brings brings_advance receive_brings published_brings brings_calmly [OF calmly_stop_advance]
  simp: open_session_brings submit_brings cancel_brings timed_out_brings decide_brings suspend_brings suspended_brings
    close_session_brings session_closed_brings close_brings closed_down_brings\<close>)

interpretation rtm: machine "rt_step c" "rt_move c" "rt_inv c" for c
  using step_brings_all by unfold_locales (auto intro: rt_move_inv simp: brings_def)

text \<open>The same machine a step at a time: whatever happens, no Run waits that could start.\<close>

interpretation rtw: machine "rt_step c" "\<lambda>rt rt'. \<exists>x. rt' = snd (rt_step c x rt)" "\<lambda>rt. rt_inv c rt \<and> waits_rightly c rt" for c
proof unfold_locales
  fix rt rt'
  assume "rt_inv c rt \<and> waits_rightly c rt" "\<exists>x. rt' = snd (rt_step c x rt)"
  then show "rt_inv c rt' \<and> waits_rightly c rt'"
    using step_brings_all rtm.step_inv by (auto simp: brings_def)
qed blast

definition new_runtime :: runtime where
  "new_runtime =
     \<lparr>rt_store = empty_store, rt_active = [], rt_queue = [], rt_suspending = [], rt_installations = [], rt_deadlines = [],
      rt_observed = [], rt_rejected = [], rt_closings = [], rt_closed = False, rt_ends = False, rt_failed = False\<rparr>"

definition runtime_after :: "config \<Rightarrow> rt_op list \<Rightarrow> runtime" where
  "runtime_after c xs = run_ops (rt_step c) xs new_runtime"

lemma new_runtime_ok: "rt_inv c new_runtime \<and> waits_rightly c new_runtime"
  by (simp add: new_runtime_def rt_inv_def waits_rightly_def store_inv_empty run_ids_def) (simp add: empty_store_def)

lemma runtime_after_ok: "rt_inv c (runtime_after c xs)" "waits_rightly c (runtime_after c xs)"
  using rtw.run_inv [OF new_runtime_ok] by (simp_all add: runtime_after_def)

end
