(* ===== verification/RuntimeDemo.thy ===== *)
theory RuntimeDemo
  imports RuntimeLife RunStoreProps
begin

text \<open>
  A small runtime to apply the theorems of RuntimeProps to, and the state it comes to, spelled out: its
  evaluation is done once.
\<close>

section \<open>A session with two Runs\<close>

definition rd_profile :: engine_profile where
  "rd_profile = \<lparr>ep_id = js ''e'', ep_driver = FakeDriver, ep_revision = js ''1'', ep_enabled = True, ep_command = None,
     ep_model = None, ep_credentialEnv = None, ep_configuration = None, ep_cli = None, ep_acp = None, ep_maxConcurrency = 1,
     ep_capabilities = \<lparr>cap_resume = False, cap_permissions = True, cap_images = False\<rparr>\<rparr>"

definition rd_config :: config where
  "rd_config = \<lparr>co_maxConcurrency = 2, co_maxQueuedRuns = 2, co_defaultTimeoutMs = 9, co_defaultEngine = js ''e'',
     co_current = (\<lambda>_. Some rd_profile), co_profile = (\<lambda>_ _. Some rd_profile),
     co_workspaces = [\<lparr>ws_id = js ''w'', ws_path = js ''/''\<rparr>], co_defaultWorkspace = js ''w'', co_inspects = False,
     co_collects = False, co_digest = (\<lambda>_. []), co_folded = id\<rparr>"

definition rd_input :: run_input where
  "rd_input = \<lparr>in_text = js ''t'', in_timeoutMs = 0, in_model = None, in_fixture = None, in_outputs = None\<rparr>"

definition rd_ops :: "rt_op list" where
  "rd_ops = [OpenSession (js ''s'') 1 None None None, Submit (js ''a'') 2 (js ''s'') rd_input None None,
     Submit (js ''b'') 3 (js ''s'') rd_input None None]"

definition rd_answer :: answer where
  "rd_answer = \<lparr>an_now = 4, an_fault = None, an_installation = [], an_gateway = False,
     an_result = \<lparr>dr_status = DriverCompleted, dr_stopReason = None, dr_output = Some (js ''o''), dr_error = None\<rparr>,
     an_calls = 0, an_successfulCalls = 0, an_lastError = None, an_cleanup = Some Confirmed, an_duration = 1,
     an_artifacts = [], an_missing = []\<rparr>"

text \<open>The driver completes the first Run.\<close>

definition rd_end :: "rt_op list" where
  "rd_end = replicate 3 (Advances rd_answer (js ''s''))"

section \<open>Where it stands\<close>

definition rd_snapshot :: "(jstring \<times> json) list" where
  "rd_snapshot = [(js ''engineId'', JStr (js ''e'')), (js ''driver'', JStr (js ''fake'')), (js ''profileRevision'', JStr (js ''1'')),
     (js ''credentialEnv'', JArr []), (js ''maxConcurrency'', JNum 1),
     (js ''capabilities'', JObj [(js ''resume'', JBool False), (js ''permissions'', JBool True), (js ''images'', JBool False)]),
     (js ''commandHash'', JNull)]"

definition rd_session :: session_record where
  "rd_session = \<lparr>s_id = js ''s'', s_engineId = js ''e'', s_profileRevision = js ''1'', s_workspaceId = js ''w'', s_cwd = js ''/'',
     s_status = SessionOpen, s_configSnapshot = Some (JObj rd_snapshot), s_backendSessionId = None, s_createdAt = 1, s_updatedAt = 1\<rparr>"

definition rd_run :: "string \<Rightarrow> int \<Rightarrow> run_status \<Rightarrow> int option \<Rightarrow> int \<Rightarrow> run_record" where
  "rd_run i n status startedAt lastSeq =
     \<lparr>r_id = js i, r_sessionId = js ''s'', r_generation = n, r_status = status, r_input = rd_input\<lparr>in_timeoutMs := 9\<rparr>,
      r_configSnapshot = Some (JObj (rd_snapshot @ [(js ''timeoutMs'', JNum 9)])), r_createdAt = n + 1, r_deadlineAt = n + 10,
      r_startedAt = startedAt, r_finishedAt = None, r_stopReason = None, r_cleanupStatus = Unconfirmed, r_output = None,
      r_error = None, r_lastSeq = lastSeq\<rparr>"

definition rd_row :: "run_record \<Rightarrow> run_row" where
  "rd_row run = \<lparr>rr_id = r_id run, rr_session = js ''s'', rr_generation = r_generation run, rr_key = None, rr_hash = [],
     rr_created = r_createdAt run, rr_record = run\<rparr>"

definition rd_event :: "string \<Rightarrow> int \<Rightarrow> string \<Rightarrow> int \<Rightarrow> string \<Rightarrow> (jstring \<times> json) list \<Rightarrow> event_row" where
  "rd_event i n e t typ data = \<lparr>er_run = js i, er_seq = n, er_event_id = js e, er_source_seq = None, er_type = js typ, er_terminal = False,
     er_record = \<lparr>e_eventId = js e, e_sessionId = js ''s'', e_runId = js i, e_seq = n, e_occurredAt = t, e_observedAt = t, e_type = js typ,
       e_data = data\<rparr>\<rparr>"

definition rd_queued :: "string \<Rightarrow> int \<Rightarrow> (jstring \<times> json) list" where
  "rd_queued i n = [(js ''status'', JStr (js ''queued'')), (js ''generation'', JNum n), (js ''deadlineAt'', JNum (n + 10)),
     (js ''configSnapshotRef'', JStr (js i))]"

definition rd_store :: store where
  "rd_store =
     \<lparr>sessions = [\<lparr>sr_id = js ''s'', sr_created = 1, sr_record = rd_session\<rparr>],
      runs = [rd_row (rd_run ''a'' 1 Starting (Some 2) 2), rd_row (rd_run ''b'' 2 Queued None 1)],
      events =
        [rd_event ''a'' 1 ''a:1'' 2 ''RUN_QUEUED'' (rd_queued ''a'' 1),
         rd_event ''a'' 2 ''a:2'' 2 ''RUN_STATUS''
           [(js ''status'', JStr (js ''starting'')), (js ''previousStatus'', JStr (js ''queued''))],
         rd_event ''b'' 1 ''b:1'' 3 ''RUN_QUEUED'' (rd_queued ''b'' 2)],
      permissions = [], artifacts = []\<rparr>"

definition rd_active :: active_run where
  "rd_active = \<lparr>ac_run = rd_run ''a'' 1 Queued None 1, ac_profile = rd_profile, ac_session = rd_session, ac_place = Beginning,
     ac_handle = False, ac_stop = None, ac_stopping = None, ac_cleanup = None, ac_model = None\<rparr>"

definition rd_runtime :: runtime where
  "rd_runtime = new_runtime\<lparr>rt_store := rd_store, rt_active := [rd_active], rt_queue := [js ''b''], rt_deadlines := [js ''a'', js ''b'']\<rparr>"

lemmas rd_steps = rd_ops_def rd_config_def new_runtime_def
  open_session_def submit_def accept_input_def enqueue_def pump_def isReady_def perform_def execute_def set_active_def move_on_def
  active_of_def new_active_def engine_count_def ac_id_def ac_sid_def
lemmas rd_state = rd_runtime_def rd_active_def rd_store_def rd_queued_def rd_event_def rd_row_def rd_run_def rd_session_def
  rd_snapshot_def rd_input_def rd_profile_def

lemma rd_reached: "runtime_after rd_config rd_ops = rd_runtime"
  by (simp add: runtime_after_def rd_steps rd_state store_eval del: failing_simps)

lemma rd_after: "runtime_after rd_config (rd_ops @ ys) = run_ops (rt_step rd_config) ys rd_runtime"
  by (simp add: runtime_after_def flip: rd_reached)

end
