(* ===== verification/RuntimeProps.thy ===== *)
theory RuntimeProps
  imports RuntimeDemo
begin

text \<open>
  What holds of the runtime after any sequence of requests, messages of workers, timers, ends of waits and
  restarts, whatever the outside answers.
\<close>

section \<open>Limits and order\<close>

definition engine_limits :: "engine_profile \<Rightarrow> active_run list \<Rightarrow> int set" where
  "engine_limits p as = (\<lambda>a. ep_maxConcurrency (ac_profile a)) ` {a \<in> set as. ep_id (ac_profile a) = ep_id p}"

lemma within_engine_limits: "within_limits [] as \<Longrightarrow> int (engine_count p as) \<le> Max (insert 0 (engine_limits p as))"
proof (induction as rule: rev_induct)
  case (snoc a as)
  have fin: "finite (engine_limits p bs)" for bs by (simp add: engine_limits_def)
  show ?case
  proof (cases "ep_id (ac_profile a) = ep_id p")
    case True
    then have "engine_count (ac_profile a) as = engine_count p as" by (simp add: engine_count_def)
    then have "int (engine_count p (as @ [a])) \<le> ep_maxConcurrency (ac_profile a)" using snoc.prems True by simp
    moreover have "ep_maxConcurrency (ac_profile a) \<in> engine_limits p (as @ [a])" using True by (simp add: engine_limits_def)
    ultimately show ?thesis using fin by (meson Max_ge finite_insert insertI2 order_trans)
  next
    case False
    then have "engine_limits p (as @ [a]) = engine_limits p as" by (auto simp: engine_limits_def)
    with False snoc show ?thesis by simp
  qed
qed (simp add: engine_limits_def)

text \<open>
  C8: What is at work stays within its limits and in order, whatever happened: never more Runs than
  \<open>maxConcurrency\<close>, never two of one session, of an engine no more than a revision of it at work allows,
  never more in the queue than it holds; and the Runs of a session are taken in the order they were accepted: none
  that waits is older than one of its session that is at work.
\<close>

theorem work_is_bounded_and_ordered:
  "length (rt_active (runtime_after c xs)) \<le> co_maxConcurrency c \<and>
   length (rt_queue (runtime_after c xs)) \<le> co_maxQueuedRuns c \<and>
   distinct (map ac_sid (rt_active (runtime_after c xs))) \<and>
   int (engine_count p (rt_active (runtime_after c xs))) \<le> Max (insert 0 (engine_limits p (rt_active (runtime_after c xs)))) \<and>
   (\<forall>a \<in> set (rt_active (runtime_after c xs)). \<forall>j \<in> set (rt_queue (runtime_after c xs)). \<forall>taken waiting.
      find_run (ac_id a) (rt_store (runtime_after c xs)) = Some taken \<longrightarrow>
      find_run j (rt_store (runtime_after c xs)) = Some waiting \<longrightarrow>
      rr_session waiting = rr_session taken \<longrightarrow> rr_generation taken < rr_generation waiting)"
  using rt_invD(2-5,10) [OF runtime_after_ok(1) [of c xs]] within_engine_limits
  by (auto simp: precedes_def)

theorem work_is_bounded_and_ordered_witness:
  "\<exists>taken \<in> set (runs (rt_store (runtime_after rd_config rd_ops))). \<exists>waiting \<in> set (runs (rt_store (runtime_after rd_config rd_ops))).
     rr_id taken = ac_id rd_active \<and> rr_id waiting = js ''b'' \<and> rr_generation taken < rr_generation waiting"
proof -
  let ?r = "rd_row (rd_run ''a'' 1 Starting (Some 2) 2)" and ?q = "rd_row (rd_run ''b'' 2 Queued None 1)"
    and ?rt = "runtime_after rd_config rd_ops"
  have at: "rd_active \<in> set (rt_active ?rt)" "js ''b'' \<in> set (rt_queue ?rt)" by (simp_all add: rd_reached rd_runtime_def)
  have rows: "find_run (ac_id rd_active) (rt_store ?rt) = Some ?r" "find_run (js ''b'') (rt_store ?rt) = Some ?q"
    "rr_session ?q = rr_session ?r"
    by (simp_all add: rd_reached rd_state ac_id_def js_eval)
  have "rr_generation ?r < rr_generation ?q"
    using work_is_bounded_and_ordered [of rd_config rd_ops] at rows by blast
  then show ?thesis
    using find_Some_set [OF rows(1)] find_Some_set [OF rows(2)] by (intro bexI [of _ ?r] bexI [of _ ?q]) simp_all
qed

section \<open>No Run is forgotten, none waits that could start\<close>

lemma row_of: "store_inv s \<Longrightarrow> row \<in> set (runs s) \<Longrightarrow> find_run (rr_id row) s = Some row"
  using distinct_row [of rr_id "runs s" row] by (simp add: store_inv_def)

lemma row_ended: "store_inv s \<Longrightarrow> row \<in> set (runs s) \<Longrightarrow> ended (rr_id row) s \<longleftrightarrow> isTerminal (r_status (rr_record row))"
  by (auto simp: ended_status status_of_def row_of isTerminal_iff)

lemma stays_known:
  assumes "isReady (runtime_after c xs)" "row \<in> set (runs (rt_store (runtime_after c xs)))"
    "\<not> isTerminal (r_status (rr_record row))"
  shows "rr_id row \<in> set (rt_queue (runtime_after c xs)) \<or> rr_id row \<in> ac_id ` set (rt_active (runtime_after c xs)) \<or>
    rr_id row \<in> set (rt_deadlines (runtime_after c xs))"
proof -
  note inv = runtime_after_ok(1) [of c xs]
  have "kept (rr_id row) (runtime_after c xs)"
    using rt_invD(13) [OF inv assms(1)] assms(2) by (simp add: run_ids_def)
  then show ?thesis using row_ended [OF rt_invD(1) [OF inv] assms(2)] assms(3) by (auto simp: kept_def)
qed

lemma held_back:
  assumes "isReady (runtime_after c xs)" "i \<in> set (rt_queue (runtime_after c xs))"
    and "getRun i (rt_store (runtime_after c xs)) = Inr run"
    and "getSession (r_sessionId run) (rt_store (runtime_after c xs)) = Inr session" "s_status session = SessionOpen"
    and "co_profile c (s_engineId session) (s_profileRevision session) = Some profile"
  shows "active_of (r_sessionId run) (runtime_after c xs) \<noteq> None \<or>
    ep_maxConcurrency profile \<le> int (engine_count profile (rt_active (runtime_after c xs))) \<or>
    length (rt_active (runtime_after c xs)) = co_maxConcurrency c"
proof -
  note inv = runtime_after_ok(1) [of c xs]
  obtain row where "find_run i (rt_store (runtime_after c xs)) = Some row" "rr_session row = r_sessionId run"
    using getRun_find [OF rt_invD(1) [OF inv] assms(3)] .
  moreover have "\<not> could_start c (runtime_after c xs) i"
    using runtime_after_ok(2) [of c xs] assms(1,2) by (simp add: waits_rightly_def)
  ultimately show ?thesis
    using pump_could_start [OF inv assms(3-6)] rt_invD(2) [OF inv] by fastforce
qed

text \<open>
  C9: While the runtime is ready no accepted Run is forgotten and none waits that could start: a Run that has not
  ended waits in the queue, is at work, or still has the timer that will end it; and one of an open session waits in the
  queue only because its session has a Run at work, its engine is at its limit, or as many Runs are at work as may be.
\<close>

theorem no_run_is_forgotten:
  assumes "isReady (runtime_after c xs)" "row \<in> set (runs (rt_store (runtime_after c xs)))"
    "\<not> isTerminal (r_status (rr_record row))"
  shows "(rr_id row \<in> set (rt_queue (runtime_after c xs)) \<or> rr_id row \<in> ac_id ` set (rt_active (runtime_after c xs)) \<or>
      rr_id row \<in> set (rt_deadlines (runtime_after c xs))) \<and>
    (\<forall>run session profile.
      rr_id row \<in> set (rt_queue (runtime_after c xs)) \<and>
      getRun (rr_id row) (rt_store (runtime_after c xs)) = Inr run \<and>
      getSession (r_sessionId run) (rt_store (runtime_after c xs)) = Inr session \<and> s_status session = SessionOpen \<and>
      co_profile c (s_engineId session) (s_profileRevision session) = Some profile \<longrightarrow>
      active_of (r_sessionId run) (runtime_after c xs) \<noteq> None \<or>
      ep_maxConcurrency profile \<le> int (engine_count profile (rt_active (runtime_after c xs))) \<or>
      length (rt_active (runtime_after c xs)) = co_maxConcurrency c)"
  using stays_known [OF assms] held_back [OF assms(1)] by blast

theorem no_run_is_forgotten_witness:
  "js ''b'' \<in> set (rt_queue (runtime_after rd_config rd_ops)) \<and>
   ((\<exists>a. active_of (js ''s'') (runtime_after rd_config rd_ops) = Some a) \<or>
    ep_maxConcurrency rd_profile \<le> int (engine_count rd_profile (rt_active (runtime_after rd_config rd_ops))) \<or>
    length (rt_active (runtime_after rd_config rd_ops)) = co_maxConcurrency rd_config)"
proof -
  let ?rt = "runtime_after rd_config rd_ops" and ?row = "rd_row (rd_run ''b'' 2 Queued None 1)"
  have ready: "isReady ?rt" "?row \<in> set (runs (rt_store ?rt))" "\<not> isTerminal (r_status (rr_record ?row))"
    by (simp_all add: rd_reached rd_runtime_def new_runtime_def isReady_def rd_store_def rd_row_def rd_run_def)
  have queued: "rr_id ?row \<in> set (rt_queue ?rt)" by (simp add: rd_reached rd_runtime_def rd_row_def rd_run_def)
  have run: "getRun (rr_id ?row) (rt_store ?rt) = Inr (rd_run ''b'' 2 Queued None 1)"
    "getSession (r_sessionId (rd_run ''b'' 2 Queued None 1)) (rt_store ?rt) = Inr rd_session"
    by (simp_all add: rd_reached rd_state store_eval)
  have "s_status rd_session = SessionOpen" "co_profile rd_config (s_engineId rd_session) (s_profileRevision rd_session) = Some rd_profile"
    by (simp_all add: rd_session_def rd_config_def)
  with no_run_is_forgotten [OF ready] queued run
  have "active_of (r_sessionId (rd_run ''b'' 2 Queued None 1)) ?rt \<noteq> None \<or>
      ep_maxConcurrency rd_profile \<le> int (engine_count rd_profile (rt_active ?rt)) \<or>
      length (rt_active ?rt) = co_maxConcurrency rd_config" by blast
  with queued show ?thesis by (auto simp: rd_row_def rd_run_def)
qed

section \<open>Stopping\<close>

text \<open>
  C10: A Run that was asked to stop while at work, by a cancellation or its deadline, never ends completed,
  whatever its driver still reports and whatever happens later.
\<close>

theorem stop_is_final:
  assumes "a \<in> set (rt_active (runtime_after c xs))" "ac_stop a \<noteq> None"
  shows "status_of (ac_id a) (rt_store (runtime_after c (xs @ ys))) \<noteq> Some (Ended Completed)"
proof -
  let ?rt = "runtime_after c xs"
  note inv = runtime_after_ok(1) [of c xs]
  have "stopping_run (ac_id a) ?rt"
    using assms rt_invD(6,7,11) [OF inv] unfolding stopping_run_def
    by (auto simp: active_ok_def distinct_map dest: inj_onD)
  then have "stopping_run (ac_id a) (run_ops (rt_step c) ys ?rt)"
    using rtm.run_keeps [where P = "stopping_run (ac_id a)", OF _ inv] rt_move_stopping by blast
  then have "stopping_run (ac_id a) (runtime_after c (xs @ ys))" by (simp add: runtime_after_def)
  then show ?thesis
    using ended_iff [OF rt_invD(1) [OF runtime_after_ok(1)]] by (simp add: stopping_run_def completed_def)
qed

theorem stop_is_final_witness:
  "status_of (js ''a'') (rt_store (runtime_after rd_config ((rd_ops @ [Cancel 4 (js ''a'')]) @ rd_end))) \<noteq> Some (Ended Completed)"
proof -
  let ?rt = "runtime_after rd_config (rd_ops @ [Cancel 4 (js ''a'')])"
  obtain a where "rt_active ?rt = [a]" "ac_id a = js ''a''" "ac_stop a = Some StopCancelled"
    by (simp add: rd_after rd_state cancel_def stop_def stop_active_def active_of_def perform_def ac_id_def ac_sid_def
        set_active_def new_runtime_def store_eval del: failing_simps)
  with stop_is_final [of a rd_config "rd_ops @ [Cancel 4 (js ''a'')]" rd_end] show ?thesis by simp
qed

text \<open>
  It may yet end failed: when the model gateway refuses the Run (\<open>models.begin\<close>) after it was cancelled,
  the refusal is recorded, with a cleanup that is called confirmed while the worker is being closed.
\<close>

lemma cancelled_run_is_recorded_failed:
  "status_of (js ''a'') (rt_store (runtime_after rd_config (rd_ops @ [Cancel 4 (js ''a''),
     Advances (rd_answer\<lparr>an_fault := Some (HubFault (js ''M'') (js ''m''))\<rparr>) (js ''s'')]))) = Some (Ended Failed)"
  unfolding rd_after
  by (simp add: rd_steps rd_state cancel_def stop_def stop_active_def at_work_def advance_def model_unavailable_def
      then_do_def recordCleanup_def cleanup_event_def appendEvent_def reservedEvents_def release_def leave_def depart_def
      clear_deadline_def rd_answer_def status_of_def source_seen_def store_eval del: failing_simps)

section \<open>The next process\<close>

text \<open>
  C11: A process that starts, if it comes to be ready, finds every Run of the one before ended: those that had
  not are interrupted, and their sessions closed.
\<close>

theorem restart_interrupts:
  assumes "isReady (snd (rt_step c (Restarts now workers) (runtime_after c xs)))"
    and "row \<in> set (runs (rt_store (runtime_after c xs)))" "\<not> isTerminal (r_status (rr_record row))"
  shows "status_of (rr_id row) (rt_store (snd (rt_step c (Restarts now workers) (runtime_after c xs)))) = Some (Ended Interrupted) \<and>
    closed_in (rr_session row) (rt_store (snd (rt_step c (Restarts now workers) (runtime_after c xs))))"
proof -
  let ?s = "rt_store (runtime_after c xs)" and ?s' = "snd (recovery c now workers (rt_store (runtime_after c xs)))"
  note store = rt_invD(1) [OF runtime_after_ok(1) [of c xs]]
  obtain u where eq: "recovery c now workers ?s = (Inr u, ?s')" using assms(1) by (auto simp: prod_eq_iff)
  have "\<not> ended (rr_id row) ?s" using row_ended [OF store assms(2)] assms(3) by simp
  then have "ended (rr_id row) ?s'" "closed_in (rr_session row) ?s'" "\<not> ended (rr_id row) ?s"
    using recovery_ends [OF store eq row_of [OF store assms(2)]] by auto
  moreover obtain gone where "endings ?s' = endings ?s @ map (\<lambda>i. (i, terminalEvent Interrupted)) gone"
    using recovery_interrupts [OF store, of c now workers] by (auto simp: interrupts_def)
  ultimately have "(rr_id row, terminalEvent Interrupted) \<in> set (endings ?s')" by (auto simp: ended_def)
  then show ?thesis
    using ended_iff [OF interrupts_inv [OF recovery_interrupts [OF store] store]] \<open>closed_in _ _\<close> by auto
qed

theorem restart_interrupts_witness:
  "status_of (js ''b'') (rt_store (snd (rt_step rd_config (Restarts 5 (\<lambda>_. None)) (runtime_after rd_config rd_ops)))) = Some (Ended Interrupted)"
proof -
  let ?row = "rd_row (rd_run ''b'' 2 Queued None 1)"
  have "isReady (snd (rt_step rd_config (Restarts 5 (\<lambda>_. None)) rd_runtime))" "?row \<in> set (runs (rt_store rd_runtime))"
    by (simp_all add: rd_state recovery_def listRuns_def listSessions_def finish_def new_runtime_def store_eval del: failing_simps)
  note this [folded rd_reached]
  from restart_interrupts [OF this] show ?thesis by (simp add: rd_row_def rd_run_def)
qed

end
