(* ===== verification/Spec2Isabelle.thy ===== *)
theory Spec2Isabelle
  imports RunStoreProps ModelPlaneProps RouteGroupProps RouteRuleProps RuleNormal RouterProps
    RouterState BreakerKeys WindowProps QuotaRate HandlerLimits Sticky FailureProps CallAnswers Slots
    Ledger WorkflowRuns WorkflowCreate RuntimeProps
begin

text \<open>
  HarnessHub runs coding agents and routes their model calls. Two planes carry its core logic.

  The run plane keeps sessions, runs, events, permissions and artifacts in a durable store. The runtime
  queues the Runs, has workers do them, and records how each ended, whatever is cancelled, runs out of time, fails or
  is found unfinished by the next process. On it a workflow service has a goal planned by one agent and, once the plan is approved, its steps done by
  others, each in a session and a Run of its own, in the order of their dependencies. The
  gateway plane takes a model call under a Gateway Key: the key's allowlist and quotas say whether it
  may go, the model asked for (or the route group, with its rules) says which models may answer, the
  candidates of each are ordered by the group's strategies, stickiness puts the one first that
  answered the conversation before, and breakers say which credentials rest after a failure. The
  call then tries one candidate after the other: what an upstream's answer means decides whether it
  is retried, passed to the next candidate or given back.

  \<^bold>\<open>Theories and the code they model\<close>

  \<^item> Prelude: JavaScript strings (UTF-16 code units), the ordered \<open>Map\<close>, \<open>sort\<close>, \<open>findIndex\<close>.
    Machines: the locale \<open>machine\<close> of a component's operations, its elementary moves and their
    invariant; it is interpreted for the store, the runtime, the router, the breakers, the quotas, the
    slots of calls and the workflows.
  \<^item> RunTypes, RunStore: \<open>packages/core/src/types.ts\<close> and \<open>packages/store/src/storage/sqlite-store.ts\<close>. A
    table is a list of rows, whose constraints are checked on insertion; an operation is a function of the store that gives a value or an error
    with the store after it; \<open>transaction\<close> rolls back, and what the code commits before it throws
    stays. RunStoreInv (the invariant of the tables and the elementary moves), RunStoreOps (every
    operation is made of moves), RunStoreLife (what only ever advances), RunStoreErrors (no
    constraint of the schema is violated), RunStoreTally (which operations end Runs), RunStoreProps (the properties).
  \<^item> RunOutcome, Runtime, RuntimeService: \<open>packages/runtime/src/runtime/runtime.ts\<close> and
    \<open>packages/core/src/model-outcome.ts\<close>. For each Run at work the state holds the place at which its \<open>execute\<close> waits;
    an operation is a request, a message of a worker, a timer, the end of a wait, or the start of the next process.
    RuntimeMoves (the invariant and the elementary moves), RuntimeSteps, RuntimePump, RuntimeEnds (the parts of the
    code are made of moves; what the pump leaves waiting), RuntimeLife (every operation is; the machine interpreted),
    RuntimeDemo, RuntimeProps (the properties).
  \<^item> WorkflowPlans, WorkflowStates: \<open>packages/core/src/workflows.ts\<close> (which answer of a planner is a
    plan, the records) and \<open>packages/store/src/storage/workflow-store.ts\<close> (which updates are accepted).
    WorkflowEngines, WorkflowService, WorkflowCreate: \<open>packages/runtime/src/application/workflows.ts\<close>. The
    task of a workflow is a state machine whose places are its waits; requests, the progress of Runs, the
    end of the process and its restart come in any order, and any call of the store or the application may
    fail. WorkflowInv, WorkflowLife (the invariant, kept by every operation), WorkflowSaves (which writes
    are accepted), WorkflowPlanProps, WorkflowProps, WorkflowRuns: the properties, and two lemmas that
    show what the service loses.
  \<^item> ModelRefs, ModelPlane: \<open>packages/core/src/model-refs.ts\<close>, \<open>model-plane.ts\<close>: references of models,
    providers, credentials, Gateway Keys, the allowlist. ModelPlaneProps: their properties.
  \<^item> RouteGroups, RouteRules, RuleLines: \<open>packages/core/src/route-groups.ts\<close>, \<open>route-rules.ts\<close>:
    members, nesting, what a group offers, the check and the typed form of rules, matching.
    RouteGroupProps, RouteRuleProps, RuleNormal: their properties.
  \<^item> Candidates, GroupPlans, Router: \<open>packages/gateway/src/routing.ts\<close>: who may serve a model, the plan
    of a group, and the state the router orders it by. CandidateProps; GroupPlanProps, where the
    locale \<open>group_planning\<close> states what a plan relies on (that ordering and weighing permute) and
    proves what every plan holds; RouterPlans, which interprets it on the router; RouterProps,
    RouterState: their properties.
  \<^item> Breakers: the class \<open>Breakers\<close> of the same file. BreakerProps refines it to an abstract circuit
    breaker per credential; BreakerKeys: what one Gateway Key may rest for others.
  \<^item> BudgetWindows, Quotas: \<open>packages/gateway/src/quota.ts\<close>. WindowProps proves the dates of
    ECMAScript right and the windows those of the local calendar; QuotaProps: reservations;
    QuotaRate: the per-minute bucket.
  \<^item> Regexes, FailureWords, EchoFree, Failures: the reading of an upstream's failure (\<open>routing.ts\<close>): the words
    it is known by, as regular expressions with a matcher, how long it rests a credential, what is
    masked of the request's own words (the tables of Unicode are a parameter). FailureProps: their properties.
  \<^item> Calls: the attempts of one call (\<open>routeCall\<close> of \<open>packages/gateway/src/call.ts\<close>). What the upstreams
    answer is a function of the attempts made so far. CallProps, CallLimits, CallAnswers: its properties.
  \<^item> HandlerLimits: \<open>packages/gateway/src/limits.ts\<close>. Sticky: \<open>packages/gateway/src/sticky.ts\<close>. Slots: the
    shared limit on calls and its waiting line (\<open>packages/gateway/src/http.ts\<close>). Ledger: the throttle of
    recorded rejections (\<open>packages/gateway/src/ledger.ts\<close>).

  \<^bold>\<open>Parameters\<close>, each with what the code relies on: SHA-256 and the digest of JSON (no law, or
  injective where two keys are compared), new identifiers of \<open>randomUUID\<close> (not used before), the
  host of a URL, the clock of \<open>Intl.DateTimeFormat\<close> (minutes and weekday for rules, the offset of a
  zone for budgets), the ledger's pages and sums, products of doubles in a length with a fraction,
  \<open>JSON.parse\<close> with the schema of a plan, \<open>normalize\<close> with \<open>toLowerCase\<close>, \<open>localeCompare\<close>,
  \<open>Date.parse\<close> and the numbers of headers, and for a call and a workflow what the outside answers.
  Times, shares and costs that the code divides are \<open>real\<close>; rounding of doubles is not modelled.

  \<^bold>\<open>Termination\<close>: recursion over groups goes down by the groups not yet met, so no fuel is needed.
  The seeding of the router from the ledger, a loop that may never end, is a \<open>partial_function\<close> whose
  value \<open>None\<close> is not returning; RouterState proves when it returns. The loop of a call ends since each
  turn uses up an attempt or a candidate; the dependency search of a plan has the number of steps as
  fuel, which WorkflowPlanProps proves enough in a plan without cycles.

  \<^bold>\<open>Concurrency\<close>: an operation that awaits is split where it awaits (the load and the check of
  \<open>Quotas.admit\<close>, the task of a workflow at each of its waits), and what objects it shares meanwhile is explicit; properties hold for every
  sequence of the parts.

  \<^bold>\<open>Not modelled\<close>: streams and the output of a call, the translation between protocols (open JSON
  of third parties), the HTTP servers, when the rules of a group are looked at and that what they decided holds for
  the rest of a turn, the
  features that ask third parties (images, search, compaction, redaction), the agents' configuration
  files, worker processes and their leases (the host that closes them when the runtime fails included), messages of
  a worker that come after its Run left the runtime, the link from a published artifact to its message, the
  interleaving of microtasks within one operation, secrets, synchronisation, the command line, the console:
  their content is input and output, sockets, files and processes. Of a workflow the texts of the
  prompts are left out. The texts of errors and refusals are constructors with the values they show.
\<close>

end
